(* ===== verification/GatewayPrelude.thy ===== *)
theory GatewayPrelude
  imports Main "HOL-Library.AList" "HOL-Library.Word" "HOL-Library.List_Lexorder" "HOL-Library.Char_ord"
    "HOL-Library.Multiset"
begin

text \<open>
  What the components of the gateway share.

  \<^item> Go maps. A Go map is an association list with distinct keys: lookup is \<open>map_of\<close>,
    assignment is \<open>AList.update\<close>, \<open>delete\<close> is \<open>AList.delete\<close>, \<open>len\<close> is \<open>length\<close>.
    Go leaves the iteration order of a map unspecified; a \<open>range\<close> loop of the source
    walks the list, and since every theorem holds for every arrangement of the list it
    holds for every iteration order.
  \<^item> Suffixes of bounded length, the abstract value of a bounded buffer.
  \<^item> Runs of a step relation. The two locales state once what an inductive invariant and
    a monotone relation give for every run; every concurrent component interprets them
    on its own step relation.
\<close>

section \<open>Collections of the development\<close>

named_theorems gomap_simps \<open>lookup, length and key set of a Go map after an operation\<close>
named_theorems inv_intros \<open>preservation of a component's invariant by an operation\<close>

section \<open>Go maps\<close>

type_synonym ('k, 'v) gomap = "('k \<times> 'v) list"

type_synonym gotime = int
  \<comment> \<open>nanoseconds since the zero value of \<open>time.Time\<close>, so that \<open>IsZero\<close> is \<open>= 0\<close>\<close>

abbreviation gm_get :: "('k, 'v) gomap \<Rightarrow> 'k \<Rightarrow> 'v option" where
  "gm_get m k \<equiv> map_of m k"

abbreviation gm_put :: "'k \<Rightarrow> 'v \<Rightarrow> ('k, 'v) gomap \<Rightarrow> ('k, 'v) gomap" where
  "gm_put k v m \<equiv> AList.update k v m"

abbreviation gm_del :: "'k \<Rightarrow> ('k, 'v) gomap \<Rightarrow> ('k, 'v) gomap" where
  "gm_del k m \<equiv> AList.delete k m"

text \<open>Lookups stay lookups: the library's rewriting of \<open>map_of\<close> to membership is switched off.\<close>

declare map_of_eq_Some_iff [simp del] Some_eq_map_of_iff [simp del]

abbreviation gm_ok :: "('k, 'v) gomap \<Rightarrow> bool" where
  "gm_ok m \<equiv> distinct (map fst m)"

lemma gm_get_put [simp, gomap_simps]:
  "gm_get (gm_put k v m) k' = (if k' = k then Some v else gm_get m k')"
  by (simp add: update_conv')

lemma gm_get_del [simp, gomap_simps]:
  "gm_get (gm_del k m) k' = (if k' = k then None else gm_get m k')"
  by (simp add: delete_conv')

lemma gm_ok_put [simp, intro]: "gm_ok m \<Longrightarrow> gm_ok (gm_put k v m)"
  by (simp add: distinct_update)

lemma gm_ok_del [simp, intro]: "gm_ok m \<Longrightarrow> gm_ok (gm_del k m)"
  by (simp add: distinct_delete)

lemma gm_set_iff: "gm_ok m \<Longrightarrow> (k, v) \<in> set m \<longleftrightarrow> gm_get m k = Some v"
  by (auto simp: map_of_eq_Some_iff)

lemma gm_put_fresh: "gm_get m k = None \<Longrightarrow> gm_put k v m = m @ [(k, v)]"
  by (induction m) (auto split: if_splits)

lemma gm_len_put [gomap_simps]:
  "length (gm_put k v m) = (if gm_get m k = None then Suc (length m) else length m)"
  by (induction m) auto

lemma gm_del_absent: "gm_get m k = None \<Longrightarrow> gm_del k m = m"
  by (induction m) (auto split: if_splits)

lemma gm_len_del [gomap_simps]:
  "gm_ok m \<Longrightarrow> length (gm_del k m) = (if gm_get m k = None then length m else length m - 1)"
proof (induction m)
  case (Cons x m)
  then show ?case
    by (cases x) (cases m; force simp: gm_del_absent map_of_eq_None_iff)
qed simp

lemma gm_keys_put: "set (map fst (gm_put k v m)) = insert k (set (map fst m))"
  by (induction m) auto

lemma gm_keys_del: "set (map fst (gm_del k m)) = set (map fst m) - {k}"
  by (induction m) auto

lemma gm_set_del: "set (gm_del k m) \<subseteq> set m"
  by (induction m) auto

text \<open>A sum over the values of a map, before and after an operation.\<close>

lemma gm_sum_put_fresh:
  "gm_get m k = None \<Longrightarrow> (\<Sum>x\<leftarrow>gm_put k v m. f x) = (\<Sum>x\<leftarrow>m. f x) + (f (k, v) :: 'n :: comm_monoid_add)"
  by (simp add: gm_put_fresh)

lemma gm_sum_del:
  fixes f :: "'k \<times> 'v \<Rightarrow> int"
  assumes "gm_ok m" "gm_get m k = Some v"
  shows "(\<Sum>x\<leftarrow>gm_del k m. f x) = (\<Sum>x\<leftarrow>m. f x) - f (k, v)"
  using assms
proof (induction m)
  case (Cons x m)
  then show ?case
    by (cases "fst x = k") (auto simp: gm_del_absent map_of_eq_None_iff)
qed simp

lemma gm_sum_change:
  fixes f g :: "'k \<times> 'v \<Rightarrow> int"
  assumes "gm_ok m" "gm_get m k = Some v" "\<And>x. x \<in> set m \<Longrightarrow> fst x \<noteq> k \<Longrightarrow> g x = f x"
  shows "(\<Sum>x\<leftarrow>m. g x) = (\<Sum>x\<leftarrow>m. f x) - f (k, v) + g (k, v)"
  using assms
proof (induction m)
  case (Cons x m)
  show ?case
  proof (cases "fst x = k")
    case True
    with Cons.prems have "x = (k, v)" and "\<forall>y \<in> set m. fst y \<noteq> k" by (auto intro: rev_image_eqI)
    with Cons.prems(3) have "map g m = map f m" by (simp add: map_eq_conv)
    with \<open>x = (k, v)\<close> show ?thesis by (simp del: map_eq_conv)
  next
    case False
    with Cons show ?thesis by auto
  qed
qed simp

text \<open>The values of a map as a multiset.\<close>

lemma gm_values_put_fresh:
  "gm_get m k = None \<Longrightarrow> mset (map snd (gm_put k v m)) = add_mset v (mset (map snd m))"
  by (simp add: gm_put_fresh)

lemma gm_values_del:
  "gm_ok m \<Longrightarrow> gm_get m k = Some v \<Longrightarrow> mset (map snd m) = add_mset v (mset (map snd (gm_del k m)))"
proof (induction m)
  case (Cons x m)
  then show ?case by (cases "fst x = k") (auto simp: gm_del_absent map_of_eq_None_iff)
qed simp

lemma set_map_filter_iff: "y \<in> set (List.map_filter f xs) \<longleftrightarrow> (\<exists>x \<in> set xs. f x = Some y)"
  by (induction xs) (auto simp: List.map_filter_simps split: option.split)

section \<open>Suffixes of bounded length\<close>

definition last_n :: "nat \<Rightarrow> 'a list \<Rightarrow> 'a list" where
  "last_n n xs = drop (length xs - n) xs"

lemma length_last_n [simp]: "length (last_n n xs) = min n (length xs)"
  by (simp add: last_n_def)

lemma last_n_short [simp]: "length xs \<le> n \<Longrightarrow> last_n n xs = xs"
  by (simp add: last_n_def)

lemma last_n_Nil [simp]: "last_n n [] = []"
  by (simp add: last_n_def)

lemma last_n_snoc_absorb: "last_n n (last_n n xs @ ys) = last_n n (xs @ ys)"
proof (cases "length xs \<le> n")
  case False
  then show ?thesis
    by (simp add: last_n_def drop_append min_def) (metis add.commute)
qed simp

lemma last_n_full: "length xs = n \<Longrightarrow> 0 < n \<Longrightarrow> last_n n (xs @ [x]) = tl xs @ [x]"
  by (cases xs) (auto simp: last_n_def)

section \<open>Canonical data\<close>

text \<open>A model a worker offers (internal/canonical).\<close>

record ModelInfo =
  mi_ID :: string
  mi_Name :: string

section \<open>Attempt counters\<close>

text \<open>A 32-bit attempt counter that is not yet at its maximum counts up without wrapping.\<close>

lemma word32_attempt_Suc: "a \<noteq> (- 1 :: 32 word) \<Longrightarrow> unat (a + 1) = Suc (unat a)"
  by (metis add.commute add.inverse_inverse add_eq_0_iff unatSuc)

lemma word32_attempt_measure:
  assumes "a \<noteq> (- 1 :: 32 word)"
  shows "4294967296 - unat (a + 1) < 4294967296 - unat a"
proof -
  have "unat (a + 1) < 4294967296" using unsigned_less [of "a + 1"] by simp
  with word32_attempt_Suc [OF assms] show ?thesis by simp
qed

section \<open>Runs of a step relation\<close>

locale invariant_system =
  fixes start :: "'s \<Rightarrow> bool"
    and step :: "'s \<Rightarrow> 's \<Rightarrow> bool"
    and inv :: "'s \<Rightarrow> bool"
  assumes inv_start: "start s \<Longrightarrow> inv s"
    and inv_step: "inv s \<Longrightarrow> step s t \<Longrightarrow> inv t"
begin

lemma run_inv: "step\<^sup>*\<^sup>* s t \<Longrightarrow> inv s \<Longrightarrow> inv t"
  by (induction rule: rtranclp_induct) (auto intro: inv_step)

lemma reachable_inv: "start s \<Longrightarrow> step\<^sup>*\<^sup>* s t \<Longrightarrow> inv t"
  by (blast intro: run_inv inv_start)

end

locale monotone_system = invariant_system +
  fixes rel :: "'s \<Rightarrow> 's \<Rightarrow> bool"
  assumes rel_refl: "rel s s"
    and rel_trans: "rel s t \<Longrightarrow> rel t u \<Longrightarrow> rel s u"
    and rel_step: "inv s \<Longrightarrow> step s t \<Longrightarrow> rel s t"
begin

lemma run_rel: "step\<^sup>*\<^sup>* s t \<Longrightarrow> inv s \<Longrightarrow> rel s t"
proof (induction rule: rtranclp_induct)
  case base
  show ?case by (rule rel_refl)
next
  case (step t u)
  then have "inv t" by (blast intro: run_inv)
  with step show ?case by (blast intro: rel_trans rel_step)
qed

end

end
