(* ===== verification/CaptureRing.thy ===== *)
theory CaptureRing
  imports GatewayPrelude
begin

text \<open>
  The capture buffer of raw ACP frames: \<open>internal/capture/ring.go\<close> (\<open>Ring\<close>, a fixed-size
  circular buffer guarded by a mutex) and \<open>internal/capture/controller.go\<close> (\<open>Controller\<close>,
  the on/off gate in front of it). Every method runs under the ring's mutex, so each is one
  state transformer. The interface the controller relies on is the locale
  \<open>bounded_log\<close>: a buffer whose contents after a record are the last \<open>cap\<close> elements of
  what was there followed by the new frame. The ring interprets it, and the controller's
  laws are proved from the interface. \<open>truncateUTF8\<close> is shown to cut between runes, at the
  last boundary that fits.
\<close>

section \<open>Frames and the ring\<close>

record Frame =
  fr_Seq :: "64 word"
  fr_Ts :: gotime
  fr_Method :: string
  fr_Params :: string
  fr_Bytes :: nat

record Ring =
  rg_buf :: "Frame list"
  rg_capBytes :: nat
  rg_next :: nat
  rg_count :: nat
  rg_seq :: "64 word"

text \<open>The zero value of \<open>Frame\<close>, which \<open>make([]Frame, size)\<close> fills the buffer with.\<close>

definition zero_Frame :: Frame where
  "zero_Frame = \<lparr>fr_Seq = 0, fr_Ts = 0, fr_Method = [], fr_Params = [], fr_Bytes = 0\<rparr>"

definition NewRing :: "int \<Rightarrow> int \<Rightarrow> Ring" where
  "NewRing sz capBytes =
     (let size' = (if sz \<le> 0 then 1 else sz);
          capBytes' = (if capBytes \<le> 0 then 1 else capBytes)
      in \<lparr>rg_buf = replicate (nat size') zero_Frame, rg_capBytes = nat capBytes',
          rg_next = 0, rg_count = 0, rg_seq = 0\<rparr>)"

text \<open>\<open>utf8.RuneStart\<close>: not a continuation byte (\<open>b & 0xC0 != 0x80\<close>).\<close>

definition RuneStart :: "char \<Rightarrow> bool" where
  "RuneStart c = (\<not> (128 \<le> (of_char c :: nat) \<and> (of_char c :: nat) < 192))"

text \<open>The loop of \<open>truncateUTF8\<close>: walk back from the cap to a rune start.\<close>

fun truncate_back :: "string \<Rightarrow> nat \<Rightarrow> nat" where
  "truncate_back s 0 = 0"
| "truncate_back s (Suc n) = (if \<not> RuneStart (s ! Suc n) then truncate_back s n else Suc n)"

definition truncateUTF8 :: "string \<Rightarrow> nat \<Rightarrow> string" where
  "truncateUTF8 s maxLen =
     (if length s \<le> maxLen then s else take (truncate_back s maxLen) s)"

definition ring_frame :: "Ring \<Rightarrow> gotime \<times> string \<times> string \<Rightarrow> Frame" where
  "ring_frame r = (\<lambda>(now, method, params).
     \<lparr>fr_Seq = rg_seq r + 1, fr_Ts = now, fr_Method = method,
      fr_Params = truncateUTF8 params (rg_capBytes r), fr_Bytes = length params\<rparr>)"

definition ring_Record :: "gotime \<times> string \<times> string \<Rightarrow> Ring \<Rightarrow> Ring" where
  "ring_Record i r =
     r\<lparr>rg_seq := rg_seq r + 1,
       rg_buf := (rg_buf r)[rg_next r := ring_frame r i],
       rg_next := (rg_next r + 1) mod length (rg_buf r),
       rg_count := (if rg_count r < length (rg_buf r) then rg_count r + 1 else rg_count r)\<rparr>"

definition ring_Snapshot :: "Ring \<Rightarrow> Frame list" where
  "ring_Snapshot r =
     (let start = (if rg_count r = length (rg_buf r) then rg_next r else 0)
      in map (\<lambda>i. rg_buf r ! ((start + i) mod length (rg_buf r))) [0..<rg_count r])"

definition ring_Clear :: "Ring \<Rightarrow> Ring" where
  "ring_Clear r = r\<lparr>rg_next := 0, rg_count := 0, rg_seq := 0\<rparr>"

definition ring_Len :: "Ring \<Rightarrow> nat" where
  "ring_Len r = rg_count r"

definition ring_Cap :: "Ring \<Rightarrow> nat" where
  "ring_Cap r = length (rg_buf r)"

section \<open>The controller\<close>

record Controller =
  ct_ring :: Ring
  ct_enabled :: bool
  ct_allowToggle :: bool

definition NewController :: "int \<Rightarrow> int \<Rightarrow> bool \<Rightarrow> bool \<Rightarrow> Controller" where
  "NewController sz capBytes initialEnabled allowToggle =
     \<lparr>ct_ring = NewRing sz capBytes, ct_enabled = initialEnabled, ct_allowToggle = allowToggle\<rparr>"

definition ctl_Record :: "gotime \<times> string \<times> string \<Rightarrow> Controller \<Rightarrow> Controller" where
  "ctl_Record i c = (if ct_enabled c then c\<lparr>ct_ring := ring_Record i (ct_ring c)\<rparr> else c)"

definition ctl_Enable :: "Controller \<Rightarrow> Controller" where
  "ctl_Enable c = c\<lparr>ct_ring := ring_Clear (ct_ring c), ct_enabled := True\<rparr>"

definition ctl_Disable :: "Controller \<Rightarrow> Controller" where
  "ctl_Disable c = c\<lparr>ct_enabled := False\<rparr>"

definition ctl_Clear :: "Controller \<Rightarrow> Controller" where
  "ctl_Clear c = c\<lparr>ct_ring := ring_Clear (ct_ring c)\<rparr>"

definition ctl_Count :: "Controller \<Rightarrow> nat" where
  "ctl_Count c = ring_Len (ct_ring c)"

definition ctl_Snapshot :: "Controller \<Rightarrow> Frame list" where
  "ctl_Snapshot c = ring_Snapshot (ct_ring c)"

section \<open>The invariant of the ring\<close>

text \<open>
  Until the buffer is full, frames fill it from index 0 and \<open>next = count\<close>; after that
  \<open>next\<close> is the oldest frame.
\<close>

definition ring_ok :: "Ring \<Rightarrow> bool" where
  "ring_ok r \<longleftrightarrow> 0 < length (rg_buf r) \<and> rg_next r < length (rg_buf r) \<and>
     (rg_count r < length (rg_buf r) \<and> rg_next r = rg_count r \<or> rg_count r = length (rg_buf r))"

lemma ring_ok_new [simp]: "ring_ok (NewRing sz capBytes)"
  by (auto simp: ring_ok_def NewRing_def Let_def)

lemma ring_ok_clear [simp]: "ring_ok r \<Longrightarrow> ring_ok (ring_Clear r)"
  by (auto simp: ring_ok_def ring_Clear_def)

lemma ring_ok_record [simp]: "ring_ok r \<Longrightarrow> ring_ok (ring_Record i r)"
  by (auto simp: ring_ok_def ring_Record_def mod_Suc)

lemma ring_Cap_simps [simp]:
  "ring_Cap (ring_Record i r) = ring_Cap r" "ring_Cap (ring_Clear r) = ring_Cap r"
  by (simp_all add: ring_Cap_def ring_Record_def ring_Clear_def)

text \<open>The contents, spelt as a rotation of the buffer.\<close>

lemma map_nth_rotate: "map (\<lambda>i. xs ! ((n + i) mod length xs)) [0..<length xs] = rotate n xs"
  by (rule nth_equalityI) (simp_all add: nth_rotate)

lemma ring_Snapshot_full:
  "ring_ok r \<Longrightarrow> rg_count r = length (rg_buf r) \<Longrightarrow>
     ring_Snapshot r = drop (rg_next r) (rg_buf r) @ take (rg_next r) (rg_buf r)"
  by (auto simp: ring_Snapshot_def Let_def ring_ok_def map_nth_rotate rotate_drop_take)

lemma ring_Snapshot_part:
  "ring_ok r \<Longrightarrow> rg_count r < length (rg_buf r) \<Longrightarrow>
     ring_Snapshot r = take (rg_count r) (rg_buf r)"
  by (rule nth_equalityI) (auto simp: ring_Snapshot_def Let_def)

lemma length_Snapshot [simp]: "length (ring_Snapshot r) = ring_Len r"
  by (simp add: ring_Snapshot_def ring_Len_def Let_def)

lemma ring_Len_le: "ring_ok r \<Longrightarrow> ring_Len r \<le> ring_Cap r"
  by (auto simp: ring_ok_def ring_Len_def ring_Cap_def)

lemma take_Suc_update: "n < length xs \<Longrightarrow> take (Suc n) (xs[n := x]) = take n xs @ [x]"
  by (simp add: take_Suc_conv_app_nth)

text \<open>
  One record: the new frame is appended, and the oldest frame goes when the buffer was full.
\<close>

lemma ring_Snapshot_Record:
  assumes "ring_ok r"
  shows "ring_Snapshot (ring_Record i r) = last_n (ring_Cap r) (ring_Snapshot r @ [ring_frame r i])"
proof (cases "rg_count r < length (rg_buf r)")
  case True
  with assms have next_r: "rg_next r = rg_count r" by (auto simp: ring_ok_def)
  have before: "ring_Snapshot r = take (rg_count r) (rg_buf r)"
    using assms True by (rule ring_Snapshot_part)
  show ?thesis
  proof (cases "Suc (rg_count r) = length (rg_buf r)")
    case True
    then have "ring_Snapshot (ring_Record i r) =
        take (Suc (rg_count r)) ((rg_buf r)[rg_count r := ring_frame r i])"
      using assms next_r ring_ok_record [OF assms, of i]
      by (subst ring_Snapshot_full) (auto simp: ring_Record_def)
    also have "\<dots> = take (rg_count r) (rg_buf r) @ [ring_frame r i]"
      by (rule take_Suc_update) fact
    finally show ?thesis
      using True before by (simp add: ring_Cap_def)
  next
    case False
    with \<open>rg_count r < _\<close> have "Suc (rg_count r) < length (rg_buf r)" by simp
    then have "ring_Snapshot (ring_Record i r) =
        take (Suc (rg_count r)) ((rg_buf r)[rg_count r := ring_frame r i])"
      using assms next_r ring_ok_record [OF assms, of i]
      by (subst ring_Snapshot_part) (auto simp: ring_Record_def)
    with \<open>rg_count r < _\<close> before show ?thesis
      by (simp add: take_Suc_update ring_Cap_def)
  qed
next
  case False
  let ?n = "rg_next r" and ?b = "rg_buf r" and ?f = "ring_frame r i"
  from False assms have full: "rg_count r = length ?b" and n: "?n < length ?b" and b: "0 < length ?b"
    by (auto simp: ring_ok_def)
  have rot: "ring_Snapshot r = ?b ! ?n # drop (Suc ?n) ?b @ take ?n ?b"
    using ring_Snapshot_full [OF assms full] n by (simp add: Cons_nth_drop_Suc flip: append_Cons)
  have "ring_Snapshot (ring_Record i r) =
      drop (Suc ?n mod length ?b) (?b[?n := ?f]) @ take (Suc ?n mod length ?b) (?b[?n := ?f])"
    using full ring_ok_record [OF assms, of i] by (subst ring_Snapshot_full) (auto simp: ring_Record_def)
  also have "\<dots> = drop (Suc ?n) ?b @ take ?n ?b @ [?f]"
  proof (cases "Suc ?n = length ?b")
    case True
    then have "take (length ?b) (?b[?n := ?f]) = take ?n ?b @ [?f]"
      using take_Suc_update [OF n, of ?f] by simp
    with True show ?thesis by simp
  next
    case False
    with n show ?thesis by (simp add: take_Suc_update)
  qed
  also have "\<dots> = last_n (ring_Cap r) (ring_Snapshot r @ [?f])"
    using n b by (subst last_n_full) (simp_all add: rot ring_Cap_def full ring_Len_def)
  finally show ?thesis .
qed

lemma ring_Snapshot_Clear [simp]: "ring_ok r \<Longrightarrow> ring_Snapshot (ring_Clear r) = []"
  by (auto simp: ring_Snapshot_def ring_Clear_def)

section \<open>The interface the controller relies on\<close>

text \<open>
  \<open>made\<close> lists the frames a sequence of inputs produces, each built in the state the
  earlier ones left.
\<close>

fun made :: "('r \<Rightarrow> 'i \<Rightarrow> 'f) \<Rightarrow> ('i \<Rightarrow> 'r \<Rightarrow> 'r) \<Rightarrow> 'r \<Rightarrow> 'i list \<Rightarrow> 'f list" where
  "made mk rec r [] = []"
| "made mk rec r (i # is) = mk r i # made mk rec (rec i r) is"

locale bounded_log =
  fixes record_op :: "'i \<Rightarrow> 'r \<Rightarrow> 'r"
    and clear_op :: "'r \<Rightarrow> 'r"
    and contents :: "'r \<Rightarrow> 'f list"
    and capacity :: "'r \<Rightarrow> nat"
    and mk :: "'r \<Rightarrow> 'i \<Rightarrow> 'f"
    and ok :: "'r \<Rightarrow> bool"
  assumes ok_record: "ok r \<Longrightarrow> ok (record_op i r)"
    and ok_clear: "ok r \<Longrightarrow> ok (clear_op r)"
    and cap_record: "capacity (record_op i r) = capacity r"
    and cap_clear: "capacity (clear_op r) = capacity r"
    and contents_record: "ok r \<Longrightarrow> contents (record_op i r) = last_n (capacity r) (contents r @ [mk r i])"
    and contents_clear: "ok r \<Longrightarrow> contents (clear_op r) = []"
    and contents_bound: "ok r \<Longrightarrow> length (contents r) \<le> capacity r"
begin

lemma run_ok: "ok r \<Longrightarrow> ok (fold record_op is r)"
  by (induction "is" arbitrary: r) (auto intro: ok_record)

lemma run_cap: "capacity (fold record_op is r) = capacity r"
  by (induction "is" arbitrary: r) (auto simp: cap_record)

lemma run_contents:
  "ok r \<Longrightarrow> contents (fold record_op is r) = last_n (capacity r) (contents r @ made mk record_op r is)"
proof (induction "is" arbitrary: r)
  case Nil
  then show ?case by (simp add: contents_bound)
next
  case (Cons i "is")
  then show ?case
    by (simp add: ok_record cap_record contents_record last_n_snoc_absorb)
qed

lemma run_after_clear:
  "ok r \<Longrightarrow> contents (fold record_op is (clear_op r)) = last_n (capacity r) (made mk record_op (clear_op r) is)"
  by (simp add: run_contents ok_clear cap_clear contents_clear)

end

interpretation ring_log: bounded_log ring_Record ring_Clear ring_Snapshot ring_Cap ring_frame ring_ok
  by unfold_locales (simp_all add: ring_Snapshot_Record ring_Len_le)

section \<open>Frames of a capture session\<close>

text \<open>What a capture session that starts with an empty ring is to show for its inputs.\<close>

definition session_frame :: "nat \<Rightarrow> nat \<times> gotime \<times> string \<times> string \<Rightarrow> Frame" where
  "session_frame capBytes = (\<lambda>(k, now, method, params).
     \<lparr>fr_Seq = of_nat (Suc k), fr_Ts = now, fr_Method = method,
      fr_Params = truncateUTF8 params capBytes, fr_Bytes = length params\<rparr>)"

lemma ring_frame_session:
  "rg_seq r = of_nat k \<Longrightarrow> ring_frame r i = session_frame (rg_capBytes r) (k, i)"
  by (cases i) (simp add: ring_frame_def session_frame_def)

lemma made_ring:
  "rg_seq r = of_nat k \<Longrightarrow>
     made ring_frame ring_Record r is = map (session_frame (rg_capBytes r)) (enumerate k is)"
proof (induction "is" arbitrary: r k)
  case (Cons i "is")
  have "rg_seq (ring_Record i r) = of_nat (Suc k)" "rg_capBytes (ring_Record i r) = rg_capBytes r"
    using Cons.prems by (simp_all add: ring_Record_def)
  then have "made ring_frame ring_Record (ring_Record i r) is =
      map (session_frame (rg_capBytes r)) (enumerate (Suc k) is)"
    using Cons.IH by metis
  with Cons.prems show ?case
    by (simp add: ring_frame_session)
qed simp

lemma fold_ctl_Record:
  "ct_enabled c \<Longrightarrow> fold ctl_Record is c = c\<lparr>ct_ring := fold ring_Record is (ct_ring c)\<rparr>"
  by (induction "is" arbitrary: c) (simp_all add: ctl_Record_def)

text \<open>
  C1. A capture session: after \<open>Enable\<close>, whatever the ring held before, \<open>Snapshot\<close>
  returns exactly the most recent frames of the session, oldest first, as many as the ring
  holds, numbered from 1 in the order they arrived and truncated to the byte cap.
\<close>

theorem capture_session_snapshot:
  assumes "ring_ok (ct_ring c)"
  shows "ctl_Snapshot (fold ctl_Record is (ctl_Enable c)) =
     last_n (ring_Cap (ct_ring c))
       (map (session_frame (rg_capBytes (ct_ring c))) (enumerate 0 is))"
proof -
  have "rg_seq (ring_Clear (ct_ring c)) = of_nat 0" "rg_capBytes (ring_Clear (ct_ring c)) = rg_capBytes (ct_ring c)"
    by (simp_all add: ring_Clear_def)
  then have "made ring_frame ring_Record (ring_Clear (ct_ring c)) is =
      map (session_frame (rg_capBytes (ct_ring c))) (enumerate 0 is)"
    using made_ring by metis
  moreover have "ctl_Snapshot (fold ctl_Record is (ctl_Enable c)) =
      ring_Snapshot (fold ring_Record is (ring_Clear (ct_ring c)))"
    by (simp add: ctl_Snapshot_def ctl_Enable_def fold_ctl_Record)
  ultimately show ?thesis
    using ring_log.run_after_clear [OF assms] by simp
qed

theorem capture_session_snapshot_witness:
  "ctl_Snapshot (fold ctl_Record [(5, ''a'', ''x''), (6, ''b'', ''yz''), (7, ''c'', ''w'')]
      (ctl_Enable (NewController 2 1 False True))) =
   [\<lparr>fr_Seq = 2, fr_Ts = 6, fr_Method = ''b'', fr_Params = ''y'', fr_Bytes = 2\<rparr>,
    \<lparr>fr_Seq = 3, fr_Ts = 7, fr_Method = ''c'', fr_Params = ''w'', fr_Bytes = 1\<rparr>]"
proof -
  have "ring_ok (ct_ring (NewController 2 1 False True))"
    by (simp add: NewController_def)
  note capture_session_snapshot [OF this, of "[(5, ''a'', ''x''), (6, ''b'', ''yz''), (7, ''c'', ''w'')]"]
  then show ?thesis
    by (simp add: NewController_def ring_Cap_def NewRing_def session_frame_def truncateUTF8_def
        last_n_def numeral_2_eq_2 RuneStart_def)
qed

section \<open>Truncation at a rune boundary\<close>

text \<open>
  The encoding of a rune: one start byte, then continuation bytes. A valid UTF-8 string is
  a concatenation of such blocks.
\<close>

definition rune_block :: "string \<Rightarrow> bool" where
  "rune_block b \<longleftrightarrow> (\<exists>c cs. b = c # cs \<and> RuneStart c \<and> (\<forall>d \<in> set cs. \<not> RuneStart d))"

lemma truncate_back_le: "truncate_back s n \<le> n"
  by (induction n) auto

lemma truncate_back_boundary: "truncate_back s n = 0 \<or> RuneStart (s ! truncate_back s n)"
  by (induction n) auto

lemma truncate_back_skips: "truncate_back s n < j \<Longrightarrow> j \<le> n \<Longrightarrow> \<not> RuneStart (s ! j)"
  by (induction n) (auto simp: le_Suc_eq split: if_splits)

text \<open>In a concatenation of blocks the start bytes are exactly the block boundaries.\<close>

lemma RuneStart_concat_boundary:
  assumes "\<forall>b \<in> set bs. rune_block b" "n < length (concat bs)" "RuneStart (concat bs ! n)"
  shows "\<exists>k \<le> length bs. n = length (concat (take k bs))"
  using assms
proof (induction bs arbitrary: n)
  case (Cons b bs)
  show ?case
  proof (cases "n < length b")
    case True
    with Cons.prems have "n = 0"
      by (cases n) (auto simp: rune_block_def nth_append)
    then show ?thesis by (intro exI [of _ 0]) simp
  next
    case False
    with Cons.prems have "n - length b < length (concat bs)" "RuneStart (concat bs ! (n - length b))"
      by (auto simp: nth_append)
    with Cons obtain k where "k \<le> length bs" "n - length b = length (concat (take k bs))" by auto
    with False show ?thesis by (intro exI [of _ "Suc k"]) auto
  qed
qed simp

lemma take_concat_blocks: "take (length (concat (take k bs))) (concat bs) = concat (take k bs)"
  by (metis append_eq_conv_conj append_take_drop_id concat_append)

lemma RuneStart_at_boundary:
  assumes "\<forall>b \<in> set bs. rune_block b" "k < length bs"
  shows "RuneStart (concat bs ! length (concat (take k bs)))"
proof -
  have "concat bs = concat (take k bs) @ bs ! k @ concat (drop (Suc k) bs)"
    using assms(2) by (metis id_take_nth_drop concat.simps(2) concat_append)
  moreover obtain c cs where "bs ! k = c # cs" "RuneStart c"
    using assms(1) nth_mem [OF assms(2)] unfolding rune_block_def by blast
  ultimately show ?thesis by simp
qed

text \<open>
  \<open>truncateUTF8\<close> of a string made of runes keeps a number of whole runes, never more
  than \<open>maxLen\<close> bytes, and no longer prefix of whole runes fits in \<open>maxLen\<close> bytes.
\<close>

theorem truncateUTF8_whole_runes:
  assumes "\<forall>b \<in> set bs. rune_block b"
  shows "\<exists>k \<le> length bs. truncateUTF8 (concat bs) maxLen = concat (take k bs) \<and>
    length (concat (take k bs)) \<le> maxLen \<and>
    (\<forall>j \<le> length bs. length (concat (take j bs)) \<le> maxLen \<longrightarrow>
       length (concat (take j bs)) \<le> length (concat (take k bs)))"
proof (cases "length (concat bs) \<le> maxLen")
  case True
  have "length (concat (take j bs)) \<le> length (concat bs)" for j
    by (metis append_take_drop_id concat_append length_append le_add1)
  with True show ?thesis
    by (intro exI [of _ "length bs"]) (simp add: truncateUTF8_def)
next
  case False
  let ?n = "truncate_back (concat bs) maxLen"
  have n: "?n \<le> maxLen" by (rule truncate_back_le)
  with False have "?n < length (concat bs)" by simp
  then obtain k where k: "k \<le> length bs" "?n = length (concat (take k bs))"
    using truncate_back_boundary [of "concat bs" maxLen] RuneStart_concat_boundary [OF assms]
    by (metis concat.simps(1) le0 list.size(3) take_0)
  have longest: "length (concat (take j bs)) \<le> ?n"
    if j: "j \<le> length bs" "length (concat (take j bs)) \<le> maxLen" for j
  proof (rule ccontr)
    assume "\<not> length (concat (take j bs)) \<le> ?n"
    with j(2) have "\<not> RuneStart (concat bs ! length (concat (take j bs)))"
      by (intro truncate_back_skips) auto
    moreover have "j < length bs" using j False by (cases "j = length bs") auto
    ultimately show False using RuneStart_at_boundary [OF assms] by blast
  qed
  have "truncateUTF8 (concat bs) maxLen = concat (take k bs)"
    using False k(2) by (simp add: truncateUTF8_def take_concat_blocks)
  with k n longest show ?thesis by auto
qed

theorem truncateUTF8_whole_runes_witness:
  "rune_block [CHR 0x61] \<and> rune_block [CHR 0xC3, CHR 0xA9] \<and>
   (\<exists>k \<le> 2. truncateUTF8 [CHR 0x61, CHR 0xC3, CHR 0xA9] 2 =
      concat (take k [[CHR 0x61], [CHR 0xC3, CHR 0xA9]])) \<and>
   truncateUTF8 [CHR 0x61, CHR 0xC3, CHR 0xA9] 2 = [CHR 0x61]"
proof -
  have blocks: "\<forall>b \<in> set [[CHR 0x61], [CHR 0xC3, CHR 0xA9]]. rune_block b"
    by (auto simp: rune_block_def RuneStart_def)
  have "\<exists>k \<le> 2. truncateUTF8 [CHR 0x61, CHR 0xC3, CHR 0xA9] 2 =
      concat (take k [[CHR 0x61], [CHR 0xC3, CHR 0xA9]])"
    using truncateUTF8_whole_runes [OF blocks, of 2] by (auto simp: numeral_2_eq_2)
  moreover have "truncateUTF8 [CHR 0x61, CHR 0xC3, CHR 0xA9] 2 = [CHR 0x61]"
    by (simp add: truncateUTF8_def RuneStart_def numeral_2_eq_2)
  ultimately show ?thesis using blocks by simp
qed

end
