(* ===== verification/PrivacyStore.thy ===== *)
theory PrivacyStore
  imports GatewayPrelude
begin

text \<open>
  The scope store of the privacy boundary, \<open>internal/privacy/store.go\<close>: bounded ledgers of
  reversible mappings (original value to synthetic value), grouped by scope, with leases,
  expiry, tombstones of closed scopes and a registry of coordinate rotations.

  Leases keep pointers to scopes that may have been removed from the index, so the store is
  modelled with an explicit heap: \<open>st_heap\<close> is the list of every \<open>scopeState\<close> ever allocated,
  a pointer is its index, \<open>st_scopes\<close> is the index by identifier and a lease is a pointer
  with its \<open>released\<close> flag. The three ledgers of a wiped scope are nil; \<open>ss_nil\<close> records it,
  and an assignment into a nil map is the error \<open>PanicNilMap\<close>.

  Every operation of the source runs under the store lock and the scope lock, or under the
  scope lock alone; each such critical section is one function here. Where the source drops
  the scope lock in the middle (\<open>getOrCreateObserved\<close> while it reclaims expired scopes,
  \<open>Release\<close> before \<open>finalizeClosed\<close>) the sections are separate definitions, so that the step
  relation of the theory interleaves them with everything else; the whole operation is their
  composition. A \<open>TryLock\<close> that may fail is the argument \<open>busy\<close>: the scopes whose lock
  somebody else holds at that moment. Operations that wait for the scope lock and start over
  are modelled by the pass that gets the lock. The clock is an argument.
\<close>

section \<open>Data\<close>

type_synonym Profile = string
type_synonym Provenance = string

definition ProfileStandard :: Profile where "ProfileStandard = ''standard''"

definition ProfileStrict :: Profile where "ProfileStrict = ''strict''"

definition ProvenanceInput :: Provenance where "ProvenanceInput = ''input''"

definition ProvenanceGenerated :: Provenance where "ProvenanceGenerated = ''generated''"

datatype capacityResource = capacityScope | capacityPerScope | capacityGlobal | capacityRequest

datatype store_err =
    errInvalidStoreConfig
  | errInvalidProfile
  | errInvalidProvenance
  | errScopeClosed
  | errScopeNotFound
  | errCapacityExceeded capacityResource
  | errLeaseReleased
  | errNilCandidate
  | errCandidateExhausted
  | errCandidate string
  | PanicNilMap

record StoreConfig =
  cfg_TTL :: int
  cfg_MaxScopes :: int
  cfg_MaxEntriesPerScope :: int
  cfg_MaxTotalEntries :: int

record MappingEntry =
  me_Entity :: string
  me_Original :: string
  me_Synthetic :: string
  me_Provenance :: Provenance
  me_CreatedAt :: gotime

datatype ClearResult = ClearCompleted | ClearClosing

datatype lifecycleState = lifecycleActive | lifecycleClosing

definition lifecycle_String :: "lifecycleState \<Rightarrow> string" where
  "lifecycle_String st = (if st = lifecycleClosing then ''closing'' else ''active'')"

type_synonym mappingKey = "string \<times> string"

record scopeState =
  ss_id :: string
  ss_profile :: Profile
  ss_nil :: bool
  ss_forward :: "(mappingKey, MappingEntry) gomap"
  ss_reverse :: "(mappingKey, MappingEntry) gomap"
  ss_relations :: "(string, string) gomap"
  ss_inFlight :: nat
  ss_state :: lifecycleState
  ss_createdAt :: gotime
  ss_lastUsed :: gotime
  ss_expiresAt :: gotime

record tombstone =
  tm_id :: string
  tm_expiresAt :: gotime
  tm_sequence :: nat

definition zero_tombstone :: tombstone where
  "zero_tombstone = \<lparr>tm_id = [], tm_expiresAt = 0, tm_sequence = 0\<rparr>"

record mappingOutcome =
  mo_created :: bool
  mo_collisions :: "32 word"
  mo_expired :: "nat list"

definition zero_outcome :: mappingOutcome where
  "zero_outcome = \<lparr>mo_created = False, mo_collisions = 0, mo_expired = []\<rparr>"

record ScopeInfo =
  si_ID :: string
  si_Profile :: Profile
  si_State :: string
  si_Entries :: nat
  si_InFlight :: nat
  si_CreatedAt :: gotime
  si_LastUsedAt :: gotime
  si_ExpiresAt :: gotime

record ClearSummary =
  cs_Completed :: nat
  cs_Closing :: nat

record StoreSnapshot =
  sn_ScopesActive :: nat
  sn_RequestsInFlight :: nat
  sn_Entries :: int
  sn_MaxScopes :: int
  sn_MaxEntriesPerScope :: int
  sn_MaxTotalEntries :: int
  sn_OldestScopeAge :: int

record ScopeStore =
  st_shutdown :: bool
  st_config :: StoreConfig
  st_scopes :: "(string, nat) gomap"
  st_heap :: "scopeState list"
  st_leases :: "(nat \<times> bool) list"
  st_coordByScope :: "(string, 16 word) gomap"
  st_coordByIndex :: "(16 word, string) gomap"
  st_total :: int
  st_tombs :: "(string, tombstone) gomap"
  st_ring :: "tombstone list"
  st_head :: nat
  st_tlen :: nat
  st_nextSeq :: nat

type_synonym candidate = "32 word \<Rightarrow> string + string"

section \<open>Construction and helpers\<close>

definition tombstoneCapacity :: "StoreConfig \<Rightarrow> nat" where
  "tombstoneCapacity config =
     nat (let c = 4 * cfg_MaxScopes config in if c < 128 then 128 else c)"

definition NewScopeStore :: "StoreConfig \<Rightarrow> bool \<Rightarrow> store_err + ScopeStore" where
  "NewScopeStore config has_clock =
     (if \<not> has_clock \<or> cfg_TTL config \<le> 0 \<or> cfg_MaxScopes config \<le> 0 \<or>
         cfg_MaxEntriesPerScope config \<le> 0 \<or> cfg_MaxTotalEntries config \<le> 0
      then Inl errInvalidStoreConfig
      else Inr \<lparr>st_shutdown = False, st_config = config, st_scopes = [], st_heap = [],
        st_leases = [], st_coordByScope = [], st_coordByIndex = [], st_total = 0,
        st_tombs = [], st_ring = replicate (tombstoneCapacity config) zero_tombstone,
        st_head = 0, st_tlen = 0, st_nextSeq = 0\<rparr>)"

definition validProfile :: "Profile \<Rightarrow> bool" where
  "validProfile profile = (profile = ProfileStandard \<or> profile = ProfileStrict)"

text \<open>Write access to one scope through its pointer.\<close>

definition upd_scope :: "nat \<Rightarrow> (scopeState \<Rightarrow> scopeState) \<Rightarrow> ScopeStore \<Rightarrow> ScopeStore" where
  "upd_scope p f s = s\<lparr>st_heap := (st_heap s)[p := f (st_heap s ! p)]\<rparr>"

definition entryCount :: "scopeState \<Rightarrow> nat" where
  "entryCount sc = length (ss_forward sc) + length (ss_relations sc)"

definition touchLocked :: "nat \<Rightarrow> gotime \<Rightarrow> ScopeStore \<Rightarrow> ScopeStore" where
  "touchLocked p now s =
     upd_scope p (\<lambda>sc. sc\<lparr>ss_lastUsed := now, ss_expiresAt := now + cfg_TTL (st_config s)\<rparr>) s"

definition reserveEntry :: "ScopeStore \<Rightarrow> ScopeStore option" where
  "reserveEntry s =
     (if st_total s \<ge> cfg_MaxTotalEntries (st_config s) then None
      else Some (s\<lparr>st_total := st_total s + 1\<rparr>))"

definition unreserveEntry :: "ScopeStore \<Rightarrow> ScopeStore" where
  "unreserveEntry s = s\<lparr>st_total := st_total s - 1\<rparr>"

section \<open>Tombstones\<close>

definition addTombstoneLocked :: "string \<Rightarrow> gotime \<Rightarrow> ScopeStore \<Rightarrow> ScopeStore" where
  "addTombstoneLocked scopeID expiresAt s =
     (let seq = st_nextSeq s + 1;
          marker = \<lparr>tm_id = scopeID, tm_expiresAt = expiresAt, tm_sequence = seq\<rparr>;
          n = length (st_ring s)
      in if st_tlen s = n
         then let oldest = st_ring s ! st_head s;
                  tombs = (case gm_get (st_tombs s) (tm_id oldest) of
                      Some current \<Rightarrow> if tm_sequence current = tm_sequence oldest
                                      then gm_del (tm_id oldest) (st_tombs s) else st_tombs s
                    | None \<Rightarrow> st_tombs s)
              in s\<lparr>st_nextSeq := seq,
                   st_ring := (st_ring s)[st_head s := marker],
                   st_head := (st_head s + 1) mod n,
                   st_tombs := gm_put scopeID marker tombs\<rparr>
         else s\<lparr>st_nextSeq := seq,
                st_ring := (st_ring s)[(st_head s + st_tlen s) mod n := marker],
                st_tlen := st_tlen s + 1,
                st_tombs := gm_put scopeID marker (st_tombs s)\<rparr>)"

text \<open>One turn of the loop of \<open>pruneTombstonesLocked\<close>: \<open>None\<close> is the early return.\<close>

definition pruneTombstone1 :: "gotime \<Rightarrow> ScopeStore \<Rightarrow> ScopeStore option" where
  "pruneTombstone1 now s =
     (let oldest = st_ring s ! st_head s;
          popped = s\<lparr>st_ring := (st_ring s)[st_head s := zero_tombstone],
                     st_head := (st_head s + 1) mod length (st_ring s),
                     st_tlen := st_tlen s - 1\<rparr>
      in case gm_get (st_tombs s) (tm_id oldest) of
           Some current \<Rightarrow>
             if tm_sequence current = tm_sequence oldest \<and> tm_expiresAt current > now then None
             else if tm_sequence current = tm_sequence oldest
             then Some (popped\<lparr>st_tombs := gm_del (tm_id oldest) (st_tombs s)\<rparr>)
             else Some popped
         | None \<Rightarrow> Some popped)"

function pruneTombstonesLocked :: "gotime \<Rightarrow> ScopeStore \<Rightarrow> ScopeStore" where
  "pruneTombstonesLocked now s =
     (if st_tlen s = 0 then s
      else case pruneTombstone1 now s of
             None \<Rightarrow> s
           | Some s' \<Rightarrow> pruneTombstonesLocked now s')"
  by pat_completeness auto
termination
  by (relation "measure (\<lambda>(now, s). st_tlen s)")
    (auto simp: pruneTombstone1_def Let_def split: option.splits if_splits)

declare pruneTombstonesLocked.simps [simp del]

section \<open>Wiping and reaping\<close>

definition wipeAndRemoveLocked :: "nat \<Rightarrow> gotime \<Rightarrow> ScopeStore \<Rightarrow> ScopeStore" where
  "wipeAndRemoveLocked p now s =
     (let sc = st_heap s ! p
      in case gm_get (st_scopes s) (ss_id sc) of
           None \<Rightarrow> s
         | Some current \<Rightarrow>
             if current \<noteq> p then s
             else let entries = entryCount sc;
                      s1 = upd_scope p (\<lambda>sc. sc\<lparr>ss_nil := True, ss_forward := [],
                             ss_reverse := [], ss_relations := []\<rparr>) s;
                      s2 = s1\<lparr>st_scopes := gm_del (ss_id sc) (st_scopes s1)\<rparr>;
                      s3 = (if entries \<noteq> 0 then s2\<lparr>st_total := st_total s2 - int entries\<rparr> else s2)
                  in addTombstoneLocked (ss_id sc) (now + cfg_TTL (st_config s)) s3)"

definition reapable :: "gotime \<Rightarrow> scopeState \<Rightarrow> bool" where
  "reapable now sc =
     (ss_inFlight sc = 0 \<and> (ss_state sc = lifecycleClosing \<or> \<not> ss_expiresAt sc > now))"

definition reapScope :: "nat \<Rightarrow> gotime \<Rightarrow> ScopeStore \<Rightarrow> ScopeStore" where
  "reapScope p now s =
     wipeAndRemoveLocked p now (upd_scope p (\<lambda>sc. sc\<lparr>ss_state := lifecycleClosing\<rparr>) s)"

fun reapLoop :: "(nat \<Rightarrow> bool) \<Rightarrow> gotime \<Rightarrow> nat list \<Rightarrow> ScopeStore \<Rightarrow> ScopeStore \<times> nat list" where
  "reapLoop busy now [] s = (s, [])"
| "reapLoop busy now (p # ps) s =
     (if busy p \<or> \<not> reapable now (st_heap s ! p) then reapLoop busy now ps s
      else let (s', reaped) = reapLoop busy now ps (reapScope p now s) in (s', p # reaped))"

definition reapAvailableExpiredLocked ::
  "(nat \<Rightarrow> bool) \<Rightarrow> gotime \<Rightarrow> ScopeStore \<Rightarrow> ScopeStore \<times> nat list" where
  "reapAvailableExpiredLocked busy now s = reapLoop busy now (map snd (st_scopes s)) s"

definition reclaimAvailableExpired ::
  "(nat \<Rightarrow> bool) \<Rightarrow> gotime \<Rightarrow> ScopeStore \<Rightarrow> ScopeStore \<times> nat list" where
  "reclaimAvailableExpired busy now s =
     reapAvailableExpiredLocked busy now (pruneTombstonesLocked now s)"

definition reapExpiredObserved ::
  "(nat \<Rightarrow> bool) \<Rightarrow> gotime \<Rightarrow> ScopeStore \<Rightarrow> ScopeStore \<times> nat list" where
  "reapExpiredObserved busy now s =
     reapAvailableExpiredLocked busy now (pruneTombstonesLocked now s)"

definition ReapExpired :: "(nat \<Rightarrow> bool) \<Rightarrow> gotime \<Rightarrow> ScopeStore \<Rightarrow> ScopeStore \<times> nat" where
  "ReapExpired busy now s = (let (s', reaped) = reapExpiredObserved busy now s in (s', length reaped))"

section \<open>Leases\<close>

text \<open>A lease is the index of its cell; \<open>lease_ptr\<close> is its scope.\<close>

definition lease_ptr :: "ScopeStore \<Rightarrow> nat \<Rightarrow> nat" where
  "lease_ptr s l = fst (st_leases s ! l)"

definition lockOperation :: "nat \<Rightarrow> ScopeStore \<Rightarrow> bool" where
  "lockOperation l s = (\<not> snd (st_leases s ! l))"

definition new_lease :: "nat \<Rightarrow> ScopeStore \<Rightarrow> ScopeStore" where
  "new_lease p s = s\<lparr>st_leases := st_leases s @ [(p, False)]\<rparr>"

definition new_scopeState :: "string \<Rightarrow> Profile \<Rightarrow> gotime \<Rightarrow> int \<Rightarrow> scopeState" where
  "new_scopeState scopeID profile now ttl =
     \<lparr>ss_id = scopeID, ss_profile = profile, ss_nil = False, ss_forward = [], ss_reverse = [],
      ss_relations = [], ss_inFlight = 1, ss_state = lifecycleActive, ss_createdAt = now,
      ss_lastUsed = now, ss_expiresAt = now + ttl\<rparr>"

text \<open>
  The branch of \<open>acquireObserved\<close> for a scope that is retained. The result is the lease, or
  the error, with the scopes that expired.
\<close>

definition acquire_retained ::
  "nat \<Rightarrow> Profile \<Rightarrow> gotime \<Rightarrow> ScopeStore \<Rightarrow> (store_err + nat \<times> bool) \<times> nat list \<times> ScopeStore" where
  "acquire_retained p profile now s =
     (let sc = st_heap s ! p
      in if ss_inFlight sc = 0 \<and> \<not> ss_expiresAt sc > now
         then (Inl errScopeClosed, [p], reapScope p now s)
         else if ss_state sc \<noteq> lifecycleActive then (Inl errScopeClosed, [], s)
         else if ss_profile sc \<noteq> profile then (Inl errInvalidProfile, [], s)
         else (Inr (length (st_leases s), False), [],
               new_lease p (touchLocked p now
                 (upd_scope p (\<lambda>sc. sc\<lparr>ss_inFlight := Suc (ss_inFlight sc)\<rparr>) s))))"

definition acquire_create ::
  "string \<Rightarrow> Profile \<Rightarrow> gotime \<Rightarrow> ScopeStore \<Rightarrow> ScopeStore" where
  "acquire_create scopeID profile now s =
     new_lease (length (st_heap s))
       (s\<lparr>st_heap := st_heap s @ [new_scopeState scopeID profile now (cfg_TTL (st_config s))],
          st_scopes := gm_put scopeID (length (st_heap s)) (st_scopes s)\<rparr>)"

definition acquireObserved ::
  "(nat \<Rightarrow> bool) \<Rightarrow> string \<Rightarrow> Profile \<Rightarrow> gotime \<Rightarrow> ScopeStore
     \<Rightarrow> (store_err + nat \<times> bool) \<times> nat list \<times> ScopeStore" where
  "acquireObserved busy scopeID profile now s =
     (if \<not> validProfile profile then (Inl errInvalidProfile, [], s)
      else let s1 = pruneTombstonesLocked now s
           in if st_shutdown s1 then (Inl errScopeClosed, [], s1)
              else case gm_get (st_scopes s1) scopeID of
                Some p \<Rightarrow> acquire_retained p profile now s1
              | None \<Rightarrow>
                  if gm_get (st_tombs s1) scopeID \<noteq> None then (Inl errScopeClosed, [], s1)
                  else let (s2, expired) =
                         (if int (length (st_scopes s1)) \<ge> cfg_MaxScopes (st_config s1)
                          then reapAvailableExpiredLocked busy now s1 else (s1, []))
                       in if int (length (st_scopes s2)) \<ge> cfg_MaxScopes (st_config s2)
                          then (Inl (errCapacityExceeded capacityScope), expired, s2)
                          else (Inr (length (st_leases s2), True), expired,
                                acquire_create scopeID profile now s2))"

section \<open>Mappings\<close>

definition promoteInputProvenanceLocked ::
  "mappingKey \<Rightarrow> MappingEntry \<Rightarrow> Provenance \<Rightarrow> scopeState \<Rightarrow> MappingEntry \<times> scopeState" where
  "promoteInputProvenanceLocked forwardKey entry observed sc =
     (if me_Provenance entry \<noteq> ProvenanceGenerated \<or> observed \<noteq> ProvenanceInput then (entry, sc)
      else let entry' = entry\<lparr>me_Provenance := ProvenanceInput\<rparr>
           in (entry', sc\<lparr>ss_forward := gm_put forwardKey entry' (ss_forward sc),
                          ss_reverse := gm_put (me_Entity entry', me_Synthetic entry') entry' (ss_reverse sc)\<rparr>))"

text \<open>
  The candidate loop, \<open>for attempt := uint32(0); ; attempt++\<close>: the number of collisions the
  source reports, and the accepted candidate or the error. \<open>taken\<close> is the collision test.
  The counter is a 32-bit word, as in the source.
\<close>

function candidate_loop ::
  "candidate \<Rightarrow> (string \<Rightarrow> bool) \<Rightarrow> 32 word \<Rightarrow> 32 word \<times> (store_err + string)" where
  "candidate_loop cand taken attempt =
     (case cand attempt of
        Inl e \<Rightarrow> (attempt, Inl (errCandidate e))
      | Inr v \<Rightarrow>
          if taken v
          then if attempt = - 1 then (attempt + 1, Inl errCandidateExhausted)
               else candidate_loop cand taken (attempt + 1)
          else (attempt, Inr v))"
  by pat_completeness auto
termination
  by (relation "measure (\<lambda>(cand, taken, attempt). 2 ^ 32 - unat attempt)")
    (auto dest: word32_attempt_measure)

declare candidate_loop.simps [simp del]

text \<open>
  One pass of \<open>getOrCreateObserved\<close> under the scope lock: the entry is known, or the scope is
  full, or there is no global capacity (\<open>None\<close>: the caller drops the lock, reclaims and makes a
  second pass), or a candidate is accepted and stored.
\<close>

definition goc_store ::
  "nat \<Rightarrow> string \<Rightarrow> string \<Rightarrow> Provenance \<Rightarrow> candidate \<Rightarrow> gotime \<Rightarrow> nat list \<Rightarrow> ScopeStore
     \<Rightarrow> (store_err + MappingEntry) \<times> mappingOutcome \<times> ScopeStore" where
  "goc_store p entity original provenance cand now expired s =
     (let sc = st_heap s ! p;
          (attempt, r) = candidate_loop cand
            (\<lambda>synthetic. gm_get (ss_reverse sc) (entity, synthetic) \<noteq> None) 0
      in case r of
           Inl e \<Rightarrow> (Inl e, \<lparr>mo_created = False, mo_collisions = attempt, mo_expired = expired\<rparr>,
                     unreserveEntry s)
         | Inr synthetic \<Rightarrow>
             if ss_nil sc
             then (Inl PanicNilMap, \<lparr>mo_created = False, mo_collisions = attempt, mo_expired = expired\<rparr>,
                   unreserveEntry s)
             else let entry = \<lparr>me_Entity = entity, me_Original = original, me_Synthetic = synthetic,
                               me_Provenance = provenance, me_CreatedAt = now\<rparr>
                  in (Inr entry,
                      \<lparr>mo_created = True, mo_collisions = attempt, mo_expired = expired\<rparr>,
                      touchLocked p now (upd_scope p (\<lambda>sc. sc\<lparr>
                        ss_forward := gm_put (entity, original) entry (ss_forward sc),
                        ss_reverse := gm_put (entity, synthetic) entry (ss_reverse sc)\<rparr>) s)))"

definition goc_pass ::
  "nat \<Rightarrow> string \<Rightarrow> string \<Rightarrow> Provenance \<Rightarrow> candidate \<Rightarrow> gotime \<Rightarrow> nat list \<Rightarrow> ScopeStore
     \<Rightarrow> ((store_err + MappingEntry) \<times> mappingOutcome \<times> ScopeStore) option" where
  "goc_pass p entity original provenance cand now expired s =
     (let sc = st_heap s ! p
      in case gm_get (ss_forward sc) (entity, original) of
           Some entry \<Rightarrow>
             (let (entry', sc') = promoteInputProvenanceLocked (entity, original) entry provenance sc
              in Some (Inr entry', zero_outcome\<lparr>mo_expired := expired\<rparr>,
                       touchLocked p now (upd_scope p (\<lambda>_. sc') s)))
         | None \<Rightarrow>
             if int (entryCount sc) \<ge> cfg_MaxEntriesPerScope (st_config s)
             then Some (Inl (errCapacityExceeded capacityPerScope), zero_outcome\<lparr>mo_expired := expired\<rparr>, s)
             else case reserveEntry s of
                    None \<Rightarrow> None
                  | Some s' \<Rightarrow> Some (goc_store p entity original provenance cand now expired s'))"

definition getOrCreateObserved ::
  "(nat \<Rightarrow> bool) \<Rightarrow> nat \<Rightarrow> string \<Rightarrow> string \<Rightarrow> Provenance \<Rightarrow> candidate option \<Rightarrow> gotime \<Rightarrow> ScopeStore
     \<Rightarrow> (store_err + MappingEntry) \<times> mappingOutcome \<times> ScopeStore" where
  "getOrCreateObserved busy l entity original provenance candidate now s =
     (if provenance \<noteq> ProvenanceInput \<and> provenance \<noteq> ProvenanceGenerated
      then (Inl errInvalidProvenance, zero_outcome, s)
      else case candidate of
        None \<Rightarrow> (Inl errNilCandidate, zero_outcome, s)
      | Some cand \<Rightarrow>
          if \<not> lockOperation l s then (Inl errLeaseReleased, zero_outcome, s)
          else case goc_pass (lease_ptr s l) entity original provenance cand now [] s of
            Some r \<Rightarrow> r
          | None \<Rightarrow>
              let (s1, expired) = reclaimAvailableExpired busy now s
              in case goc_pass (lease_ptr s l) entity original provenance cand now expired s1 of
                   Some r \<Rightarrow> r
                 | None \<Rightarrow> (Inl (errCapacityExceeded capacityGlobal),
                            zero_outcome\<lparr>mo_expired := expired\<rparr>, s1))"

section \<open>Relations\<close>

definition relation_taken :: "scopeState \<Rightarrow> string \<Rightarrow> string \<Rightarrow> bool" where
  "relation_taken sc key v =
     (\<exists>(existingKey, existingValue) \<in> set (ss_relations sc). existingKey \<noteq> key \<and> existingValue = v)"

definition gor_store ::
  "nat \<Rightarrow> string \<Rightarrow> candidate \<Rightarrow> gotime \<Rightarrow> nat list \<Rightarrow> ScopeStore
     \<Rightarrow> (store_err + string) \<times> mappingOutcome \<times> ScopeStore" where
  "gor_store p key cand now expired s =
     (let sc = st_heap s ! p;
          (attempt, r) = candidate_loop cand (relation_taken sc key) 0
      in case r of
           Inl e \<Rightarrow> (Inl e, \<lparr>mo_created = False, mo_collisions = attempt, mo_expired = expired\<rparr>,
                     unreserveEntry s)
         | Inr v \<Rightarrow>
             if ss_nil sc
             then (Inl PanicNilMap, \<lparr>mo_created = False, mo_collisions = attempt, mo_expired = expired\<rparr>,
                   unreserveEntry s)
             else (Inr v, \<lparr>mo_created = True, mo_collisions = attempt, mo_expired = expired\<rparr>,
                   touchLocked p now (upd_scope p (\<lambda>sc. sc\<lparr>
                     ss_relations := gm_put key v (ss_relations sc)\<rparr>) s)))"

definition gor_pass ::
  "nat \<Rightarrow> string \<Rightarrow> candidate \<Rightarrow> gotime \<Rightarrow> nat list \<Rightarrow> ScopeStore
     \<Rightarrow> ((store_err + string) \<times> mappingOutcome \<times> ScopeStore) option" where
  "gor_pass p key cand now expired s =
     (let sc = st_heap s ! p
      in case gm_get (ss_relations sc) key of
           Some v \<Rightarrow> Some (Inr v, zero_outcome\<lparr>mo_expired := expired\<rparr>, touchLocked p now s)
         | None \<Rightarrow>
             if int (entryCount sc) \<ge> cfg_MaxEntriesPerScope (st_config s)
             then Some (Inl (errCapacityExceeded capacityPerScope), zero_outcome\<lparr>mo_expired := expired\<rparr>, s)
             else case reserveEntry s of
                    None \<Rightarrow> None
                  | Some s' \<Rightarrow> Some (gor_store p key cand now expired s'))"

definition getOrCreateRelationObserved ::
  "(nat \<Rightarrow> bool) \<Rightarrow> nat \<Rightarrow> string \<Rightarrow> candidate option \<Rightarrow> gotime \<Rightarrow> ScopeStore
     \<Rightarrow> (store_err + string) \<times> mappingOutcome \<times> ScopeStore" where
  "getOrCreateRelationObserved busy l key candidate now s =
     (case candidate of
        None \<Rightarrow> (Inl errNilCandidate, zero_outcome, s)
      | Some cand \<Rightarrow>
          if \<not> lockOperation l s then (Inl errLeaseReleased, zero_outcome, s)
          else case gor_pass (lease_ptr s l) key cand now [] s of
            Some r \<Rightarrow> r
          | None \<Rightarrow>
              let (s1, expired) = reclaimAvailableExpired busy now s
              in case gor_pass (lease_ptr s l) key cand now expired s1 of
                   Some r \<Rightarrow> r
                 | None \<Rightarrow> (Inl (errCapacityExceeded capacityGlobal),
                            zero_outcome\<lparr>mo_expired := expired\<rparr>, s1))"

section \<open>Lookups, release, clearing\<close>

definition ResolveSynthetic ::
  "nat \<Rightarrow> string \<Rightarrow> string \<Rightarrow> gotime \<Rightarrow> ScopeStore \<Rightarrow> MappingEntry option \<times> ScopeStore" where
  "ResolveSynthetic l entity synthetic now s =
     (if \<not> lockOperation l s then (None, s)
      else case gm_get (ss_reverse (st_heap s ! lease_ptr s l)) (entity, synthetic) of
             Some entry \<Rightarrow> (Some entry, touchLocked (lease_ptr s l) now s)
           | None \<Rightarrow> (None, s))"

definition ResolveOriginal ::
  "nat \<Rightarrow> string \<Rightarrow> string \<Rightarrow> gotime \<Rightarrow> ScopeStore \<Rightarrow> MappingEntry option \<times> ScopeStore" where
  "ResolveOriginal l entity original now s =
     (if \<not> lockOperation l s then (None, s)
      else case gm_get (ss_forward (st_heap s ! lease_ptr s l)) (entity, original) of
             Some entry \<Rightarrow> (Some entry, touchLocked (lease_ptr s l) now s)
           | None \<Rightarrow> (None, s))"

text \<open>
  \<open>Release\<close> first drops the reference under the scope lock; when that was the last one of a
  closing scope it calls \<open>finalizeClosed\<close>, which takes both locks.
\<close>

definition release_drop :: "nat \<Rightarrow> ScopeStore \<Rightarrow> ScopeStore \<times> bool" where
  "release_drop l s =
     (if snd (st_leases s ! l) then (s, False)
      else let p = lease_ptr s l;
               s1 = s\<lparr>st_leases := (st_leases s)[l := (p, True)]\<rparr>;
               s2 = upd_scope p (\<lambda>sc. if ss_inFlight sc > 0
                      then sc\<lparr>ss_inFlight := ss_inFlight sc - 1\<rparr> else sc) s1;
               sc = st_heap s2 ! p
           in (s2, ss_state sc = lifecycleClosing \<and> ss_inFlight sc = 0))"

definition finalizeClosed :: "nat \<Rightarrow> gotime \<Rightarrow> ScopeStore \<Rightarrow> ScopeStore" where
  "finalizeClosed p now s =
     (let sc = st_heap s ! p
      in if gm_get (st_scopes s) (ss_id sc) \<noteq> Some p then s
         else if ss_state sc = lifecycleClosing \<and> ss_inFlight sc = 0
         then wipeAndRemoveLocked p now s else s)"

definition lease_Release :: "nat \<Rightarrow> gotime \<Rightarrow> ScopeStore \<Rightarrow> ScopeStore" where
  "lease_Release l now s =
     (let (s1, finalize) = release_drop l s
      in if finalize then finalizeClosed (lease_ptr s l) now s1 else s1)"

definition Clear :: "string \<Rightarrow> gotime \<Rightarrow> ScopeStore \<Rightarrow> (store_err + ClearResult) \<times> ScopeStore" where
  "Clear scopeID now s0 =
     (let s = pruneTombstonesLocked now s0
      in case gm_get (st_scopes s) scopeID of
           None \<Rightarrow> (if gm_get (st_tombs s) scopeID \<noteq> None then (Inr ClearCompleted, s)
                    else (Inl errScopeNotFound, s))
         | Some p \<Rightarrow>
             let s1 = upd_scope p (\<lambda>sc. sc\<lparr>ss_state := lifecycleClosing\<rparr>) s
             in if ss_inFlight (st_heap s1 ! p) > 0 then (Inr ClearClosing, s1)
                else (Inr ClearCompleted, wipeAndRemoveLocked p now s1))"

text \<open>
  \<open>clearAll\<close> marks the store and collects the identifiers in one section under the store lock,
  releases the lock, and then calls \<open>Clear\<close> for each identifier; each \<open>Clear\<close> is a section of
  its own that reads the clock again. \<open>clear_each\<close> is the loop when no other thread gets the
  lock between two calls; the \<open>k\<close>-th call of \<open>Clear\<close> reads \<open>clock k\<close>.
\<close>

definition clearAll_begin :: "bool \<Rightarrow> ScopeStore \<Rightarrow> string list \<times> ScopeStore" where
  "clearAll_begin shutdown s =
     (let s1 = (if shutdown then s\<lparr>st_shutdown := True\<rparr> else s)
      in (sort (map fst (st_scopes s1)), s1))"

fun clear_each ::
  "(nat \<Rightarrow> gotime) \<Rightarrow> nat \<Rightarrow> string list \<Rightarrow> ClearSummary \<times> ScopeStore \<Rightarrow> ClearSummary \<times> ScopeStore" where
  "clear_each clock k [] r = r"
| "clear_each clock k (scopeID # ids) (summary, s) =
     (case Clear scopeID (clock k) s of
        (Inl _, s') \<Rightarrow> clear_each clock (Suc k) ids (summary, s')
      | (Inr ClearClosing, s') \<Rightarrow>
          clear_each clock (Suc k) ids (summary\<lparr>cs_Closing := cs_Closing summary + 1\<rparr>, s')
      | (Inr ClearCompleted, s') \<Rightarrow>
          clear_each clock (Suc k) ids (summary\<lparr>cs_Completed := cs_Completed summary + 1\<rparr>, s'))"

definition clearAll :: "bool \<Rightarrow> (nat \<Rightarrow> gotime) \<Rightarrow> ScopeStore \<Rightarrow> ClearSummary \<times> ScopeStore" where
  "clearAll shutdown clock s =
     (case clearAll_begin shutdown s of
        (ids, s1) \<Rightarrow> clear_each clock 0 ids (\<lparr>cs_Completed = 0, cs_Closing = 0\<rparr>, s1))"

definition ClearAll :: "(nat \<Rightarrow> gotime) \<Rightarrow> ScopeStore \<Rightarrow> ClearSummary \<times> ScopeStore" where
  "ClearAll clock s = clearAll False clock s"

definition shutdownAndClear :: "(nat \<Rightarrow> gotime) \<Rightarrow> ScopeStore \<Rightarrow> ClearSummary \<times> ScopeStore" where
  "shutdownAndClear clock s = clearAll True clock s"

section \<open>Read-only views\<close>

definition scopeInfoLocked :: "scopeState \<Rightarrow> ScopeInfo" where
  "scopeInfoLocked sc =
     \<lparr>si_ID = ss_id sc, si_Profile = ss_profile sc, si_State = lifecycle_String (ss_state sc),
      si_Entries = entryCount sc, si_InFlight = ss_inFlight sc, si_CreatedAt = ss_createdAt sc,
      si_LastUsedAt = ss_lastUsed sc, si_ExpiresAt = ss_expiresAt sc\<rparr>"

definition store_List :: "ScopeStore \<Rightarrow> ScopeInfo list" where
  "store_List s = sort_key si_ID (map (\<lambda>(_, p). scopeInfoLocked (st_heap s ! p)) (st_scopes s))"

definition Inspect :: "string \<Rightarrow> ScopeStore \<Rightarrow> store_err + MappingEntry list" where
  "Inspect scopeID s =
     (case gm_get (st_scopes s) scopeID of
        None \<Rightarrow> Inl errScopeNotFound
      | Some p \<Rightarrow> Inr (sort_key me_Entity (sort_key me_Synthetic (map snd (ss_forward (st_heap s ! p))))))"

fun oldest_created :: "gotime \<Rightarrow> scopeState list \<Rightarrow> gotime" where
  "oldest_created oldest [] = oldest"
| "oldest_created oldest (sc # scs) =
     oldest_created (if oldest = 0 \<or> ss_createdAt sc < oldest then ss_createdAt sc else oldest) scs"

definition Snapshot :: "gotime \<Rightarrow> ScopeStore \<Rightarrow> StoreSnapshot" where
  "Snapshot now s =
     (let scopes = map (\<lambda>(_, p). st_heap s ! p) (st_scopes s);
          oldest = oldest_created 0 scopes
      in \<lparr>sn_ScopesActive = length (st_scopes s),
          sn_RequestsInFlight = sum_list (map ss_inFlight scopes),
          sn_Entries = st_total s,
          sn_MaxScopes = cfg_MaxScopes (st_config s),
          sn_MaxEntriesPerScope = cfg_MaxEntriesPerScope (st_config s),
          sn_MaxTotalEntries = cfg_MaxTotalEntries (st_config s),
          sn_OldestScopeAge = (if oldest \<noteq> 0 \<and> now > oldest then now - oldest else 0)\<rparr>)"

section \<open>Coordinate rotations\<close>

text \<open>\<open>None\<close> is the retained scope, \<open>Some e\<close> the error.\<close>

fun pruneCoordinates :: "string set \<Rightarrow> (string \<times> 16 word) list \<Rightarrow> ScopeStore \<Rightarrow> ScopeStore" where
  "pruneCoordinates retained [] s = s"
| "pruneCoordinates retained ((retainedID, index) # rest) s =
     pruneCoordinates retained rest
       (if retainedID \<in> retained then s
        else s\<lparr>st_coordByScope := gm_del retainedID (st_coordByScope s),
               st_coordByIndex := gm_del index (st_coordByIndex s)\<rparr>)"

definition pruneCoordinateRotationsLocked :: "string \<Rightarrow> ScopeStore \<Rightarrow> store_err option \<times> ScopeStore" where
  "pruneCoordinateRotationsLocked scopeID s =
     (let retained = set (map fst (st_scopes s));
          s' = pruneCoordinates retained (st_coordByScope s) s
      in (if scopeID \<in> retained then None
          else if gm_get (st_tombs s) scopeID \<noteq> None then Some errScopeClosed
          else Some errScopeNotFound, s'))"

text \<open>
  The two critical sections of one turn of the registry loop: the first prunes and looks the
  scope up, the second does the same again after the candidate was computed and registers the
  index if it is free. \<open>None\<close> goes on, \<open>Some r\<close> returns.
\<close>

definition coordinate_check :: "string \<Rightarrow> ScopeStore \<Rightarrow> (store_err + 16 word) option \<times> ScopeStore" where
  "coordinate_check scopeID s =
     (case pruneCoordinateRotationsLocked scopeID s of
        (Some e, s1) \<Rightarrow> (Some (Inl e), s1)
      | (None, s1) \<Rightarrow> (map_option Inr (gm_get (st_coordByScope s1) scopeID), s1))"

definition coordinate_register ::
  "string \<Rightarrow> 16 word \<Rightarrow> ScopeStore \<Rightarrow> (store_err + 16 word) option \<times> ScopeStore" where
  "coordinate_register scopeID index s =
     (case coordinate_check scopeID s of
        (Some r, s1) \<Rightarrow> (Some r, s1)
      | (None, s1) \<Rightarrow>
          if gm_get (st_coordByIndex s1) index = None
          then (Some (Inr index),
                s1\<lparr>st_coordByScope := gm_put scopeID index (st_coordByScope s1),
                   st_coordByIndex := gm_put index scopeID (st_coordByIndex s1)\<rparr>)
          else (None, s1))"

text \<open>
  The registry loop. The result is the index or the error, and the number of attempts the
  source reports.
\<close>

function coordinate_loop ::
  "string \<Rightarrow> (32 word \<Rightarrow> string + 16 word) \<Rightarrow> 32 word \<Rightarrow> ScopeStore
     \<Rightarrow> (store_err + 16 word) \<times> 32 word \<times> ScopeStore" where
  "coordinate_loop scopeID cand attempt s =
     (case coordinate_check scopeID s of
        (Some r, s1) \<Rightarrow> (r, attempt, s1)
      | (None, s1) \<Rightarrow>
          (case cand attempt of
             Inl e \<Rightarrow> (Inl (errCandidate e), attempt, s1)
           | Inr index \<Rightarrow>
               (case coordinate_register scopeID index s1 of
                  (Some r, s2) \<Rightarrow> (r, attempt, s2)
                | (None, s2) \<Rightarrow>
                    if attempt = - 1 then (Inl errCandidateExhausted, attempt + 1, s2)
                    else coordinate_loop scopeID cand (attempt + 1) s2)))"
  by pat_completeness auto
termination
  by (relation "measure (\<lambda>(scopeID, cand, attempt, s). 2 ^ 32 - unat attempt)")
    (auto dest: word32_attempt_measure)

declare coordinate_loop.simps [simp del]

definition coordinateRotationIndexObserved ::
  "string \<Rightarrow> (32 word \<Rightarrow> string + 16 word) option \<Rightarrow> ScopeStore
     \<Rightarrow> (store_err + 16 word) \<times> 32 word \<times> ScopeStore" where
  "coordinateRotationIndexObserved scopeID candidate s =
     (case candidate of
        None \<Rightarrow> (Inl errNilCandidate, 0, s)
      | Some cand \<Rightarrow> coordinate_loop scopeID cand 0 s)"

end
