(* ===== verification/PrivacyStoreInv.thy ===== *)
theory PrivacyStoreInv
  imports PrivacyStore
begin

text \<open>
  The invariant of the privacy scope store and its preservation by every critical section of
  \<open>internal/privacy/store.go\<close>. The invariant has three parts: \<open>store_core\<close> (index, heap,
  leases, ledgers and capacity counters), \<open>tomb_inv\<close> (the tombstone ring) and \<open>coord_inv\<close> (the
  coordinate registry).
\<close>

section \<open>The invariant\<close>

text \<open>A ledger is a bijection: forward and reverse hold the same entries, keyed by their own fields.\<close>

definition scope_ok :: "scopeState \<Rightarrow> bool" where
  "scope_ok sc \<longleftrightarrow>
     gm_ok (ss_forward sc) \<and> gm_ok (ss_reverse sc) \<and> gm_ok (ss_relations sc) \<and>
     (\<forall>k e. gm_get (ss_forward sc) k = Some e \<longrightarrow>
        k = (me_Entity e, me_Original e) \<and> gm_get (ss_reverse sc) (me_Entity e, me_Synthetic e) = Some e) \<and>
     (\<forall>k e. gm_get (ss_reverse sc) k = Some e \<longrightarrow>
        k = (me_Entity e, me_Synthetic e) \<and> gm_get (ss_forward sc) (me_Entity e, me_Original e) = Some e) \<and>
     distinct (map snd (ss_relations sc))"

text \<open>The leases on a scope that have not been released.\<close>

definition live_leases :: "ScopeStore \<Rightarrow> nat \<Rightarrow> nat" where
  "live_leases s p = count_list (st_leases s) (p, False)"

definition store_core :: "ScopeStore \<Rightarrow> bool" where
  "store_core s \<longleftrightarrow>
     gm_ok (st_scopes s) \<and>
     (\<forall>i p. gm_get (st_scopes s) i = Some p \<longrightarrow>
        p < length (st_heap s) \<and> ss_id (st_heap s ! p) = i \<and> \<not> ss_nil (st_heap s ! p) \<and>
        int (entryCount (st_heap s ! p)) \<le> cfg_MaxEntriesPerScope (st_config s)) \<and>
     (\<forall>p. (p, False) \<in> set (st_leases s) \<longrightarrow>
        p < length (st_heap s) \<and> gm_get (st_scopes s) (ss_id (st_heap s ! p)) = Some p) \<and>
     (\<forall>p < length (st_heap s). ss_inFlight (st_heap s ! p) = live_leases s p \<and> scope_ok (st_heap s ! p)) \<and>
     st_total s = (\<Sum>(i, p)\<leftarrow>st_scopes s. int (entryCount (st_heap s ! p))) \<and>
     st_total s \<le> cfg_MaxTotalEntries (st_config s) \<and>
     int (length (st_scopes s)) \<le> cfg_MaxScopes (st_config s)"

definition tomb_inv :: "ScopeStore \<Rightarrow> bool" where
  "tomb_inv s \<longleftrightarrow>
     length (st_ring s) = tombstoneCapacity (st_config s) \<and>
     0 < length (st_ring s) \<and> st_head s < length (st_ring s) \<and> st_tlen s \<le> length (st_ring s) \<and>
     gm_ok (st_tombs s) \<and>
     (\<forall>i t. gm_get (st_tombs s) i = Some t \<longrightarrow>
        tm_id t = i \<and> (\<exists>j < st_tlen s. st_ring s ! ((st_head s + j) mod length (st_ring s)) = t))"

definition coord_inv :: "ScopeStore \<Rightarrow> bool" where
  "coord_inv s \<longleftrightarrow>
     gm_ok (st_coordByScope s) \<and> gm_ok (st_coordByIndex s) \<and>
     (\<forall>i x. gm_get (st_coordByScope s) i = Some x \<longleftrightarrow> gm_get (st_coordByIndex s) x = Some i)"

definition config_ok :: "StoreConfig \<Rightarrow> bool" where
  "config_ok c \<longleftrightarrow> 0 < cfg_TTL c \<and> 0 < cfg_MaxScopes c \<and> 0 < cfg_MaxEntriesPerScope c \<and>
     0 < cfg_MaxTotalEntries c"

definition store_inv :: "ScopeStore \<Rightarrow> bool" where
  "store_inv s \<longleftrightarrow> store_core s \<and> tomb_inv s \<and> coord_inv s \<and> config_ok (st_config s)"

lemma store_invI:
  "store_core s \<Longrightarrow> tomb_inv s \<Longrightarrow> coord_inv s \<Longrightarrow> config_ok (st_config s) \<Longrightarrow> store_inv s"
  by (simp add: store_inv_def)

lemma store_invD:
  assumes "store_inv s"
  shows "store_core s" and "tomb_inv s" and "coord_inv s" and "config_ok (st_config s)"
  using assms by (simp_all add: store_inv_def)

subsection \<open>What the core says\<close>

lemma store_coreI:
  assumes "gm_ok (st_scopes s)"
    and "\<And>i p. gm_get (st_scopes s) i = Some p \<Longrightarrow>
        p < length (st_heap s) \<and> ss_id (st_heap s ! p) = i \<and> \<not> ss_nil (st_heap s ! p) \<and>
        int (entryCount (st_heap s ! p)) \<le> cfg_MaxEntriesPerScope (st_config s)"
    and "\<And>p. (p, False) \<in> set (st_leases s) \<Longrightarrow>
        p < length (st_heap s) \<and> gm_get (st_scopes s) (ss_id (st_heap s ! p)) = Some p"
    and "\<And>p. p < length (st_heap s) \<Longrightarrow>
        ss_inFlight (st_heap s ! p) = live_leases s p \<and> scope_ok (st_heap s ! p)"
    and "st_total s = (\<Sum>(i, p)\<leftarrow>st_scopes s. int (entryCount (st_heap s ! p)))"
    and "st_total s \<le> cfg_MaxTotalEntries (st_config s)"
    and "int (length (st_scopes s)) \<le> cfg_MaxScopes (st_config s)"
  shows "store_core s"
  unfolding store_core_def using assms by blast

lemma core_gm_ok: "store_core s \<Longrightarrow> gm_ok (st_scopes s)"
  by (simp add: store_core_def)

lemma core_total:
  assumes "store_core s"
  shows "st_total s = (\<Sum>(i, p)\<leftarrow>st_scopes s. int (entryCount (st_heap s ! p)))"
    "st_total s \<le> cfg_MaxTotalEntries (st_config s)"
    "int (length (st_scopes s)) \<le> cfg_MaxScopes (st_config s)"
  using assms by (simp_all add: store_core_def)

lemma core_lease_set:
  "store_core s \<Longrightarrow> (p, False) \<in> set (st_leases s) \<Longrightarrow>
     p < length (st_heap s) \<and> gm_get (st_scopes s) (ss_id (st_heap s ! p)) = Some p"
  by (simp add: store_core_def)

lemma scope_ok_cong:
  "ss_forward sc' = ss_forward sc \<Longrightarrow> ss_reverse sc' = ss_reverse sc \<Longrightarrow>
   ss_relations sc' = ss_relations sc \<Longrightarrow> scope_ok sc' = scope_ok sc"
  by (simp only: scope_ok_def)

lemma core_scope:
  assumes "store_core s" "gm_get (st_scopes s) i = Some p"
  shows "p < length (st_heap s)" "ss_id (st_heap s ! p) = i" "\<not> ss_nil (st_heap s ! p)"
    "int (entryCount (st_heap s ! p)) \<le> cfg_MaxEntriesPerScope (st_config s)"
  using assms by (auto simp: store_core_def)

lemma core_lease:
  assumes "store_core s" "l < length (st_leases s)" "lockOperation l s"
  shows "lease_ptr s l < length (st_heap s)"
    "gm_get (st_scopes s) (ss_id (st_heap s ! lease_ptr s l)) = Some (lease_ptr s l)"
proof -
  have "st_leases s ! l = (lease_ptr s l, False)"
    using assms(3) by (simp add: lockOperation_def lease_ptr_def prod_eq_iff)
  then have "(lease_ptr s l, False) \<in> set (st_leases s)" using assms(2) nth_mem by metis
  with assms(1) show "lease_ptr s l < length (st_heap s)"
    "gm_get (st_scopes s) (ss_id (st_heap s ! lease_ptr s l)) = Some (lease_ptr s l)"
    by (auto simp: store_core_def)
qed

lemma core_cell:
  assumes "store_core s" "p < length (st_heap s)"
  shows "ss_inFlight (st_heap s ! p) = live_leases s p" "scope_ok (st_heap s ! p)"
  using assms by (auto simp: store_core_def)

lemma scope_entry_sum_ge0: "0 \<le> (\<Sum>(i, p)\<leftarrow>xs. int (entryCount (h p)))"
  by (induction xs) auto

lemma scope_ok_upd [simp]:
  "scope_ok (sc\<lparr>ss_inFlight := n\<rparr>) = scope_ok sc" "scope_ok (sc\<lparr>ss_state := st\<rparr>) = scope_ok sc"
  "scope_ok (sc\<lparr>ss_lastUsed := t\<rparr>) = scope_ok sc" "scope_ok (sc\<lparr>ss_expiresAt := t\<rparr>) = scope_ok sc"
  by (rule scope_ok_cong; simp)+

lemma entryCount_upd [simp]:
  "entryCount (sc\<lparr>ss_inFlight := n\<rparr>) = entryCount sc" "entryCount (sc\<lparr>ss_state := st\<rparr>) = entryCount sc"
  "entryCount (sc\<lparr>ss_lastUsed := t\<rparr>) = entryCount sc" "entryCount (sc\<lparr>ss_expiresAt := t\<rparr>) = entryCount sc"
  by (simp_all add: entryCount_def)

lemma scope_ok_fwd:
  "scope_ok sc \<Longrightarrow> gm_get (ss_forward sc) k = Some e \<Longrightarrow>
     k = (me_Entity e, me_Original e) \<and> gm_get (ss_reverse sc) (me_Entity e, me_Synthetic e) = Some e"
  unfolding scope_ok_def by blast

lemma scope_ok_rev:
  "scope_ok sc \<Longrightarrow> gm_get (ss_reverse sc) k = Some e \<Longrightarrow>
     k = (me_Entity e, me_Synthetic e) \<and> gm_get (ss_forward sc) (me_Entity e, me_Original e) = Some e"
  unfolding scope_ok_def by blast

lemma scope_ok_maps:
  "scope_ok sc \<Longrightarrow> gm_ok (ss_forward sc) \<and> gm_ok (ss_reverse sc) \<and> gm_ok (ss_relations sc) \<and>
     distinct (map snd (ss_relations sc))"
  unfolding scope_ok_def by blast

lemma scope_okI:
  assumes "gm_ok (ss_forward sc)" "gm_ok (ss_reverse sc)" "gm_ok (ss_relations sc)"
    "\<And>k e. gm_get (ss_forward sc) k = Some e \<Longrightarrow>
        k = (me_Entity e, me_Original e) \<and> gm_get (ss_reverse sc) (me_Entity e, me_Synthetic e) = Some e"
    "\<And>k e. gm_get (ss_reverse sc) k = Some e \<Longrightarrow>
        k = (me_Entity e, me_Synthetic e) \<and> gm_get (ss_forward sc) (me_Entity e, me_Original e) = Some e"
    "distinct (map snd (ss_relations sc))"
  shows "scope_ok sc"
  unfolding scope_ok_def using assms by blast

section \<open>Fields an operation leaves alone\<close>

named_theorems store_frame \<open>fields of the store after an operation\<close>

lemma upd_scope_frame [simp, store_frame]:
  "st_shutdown (upd_scope p f s) = st_shutdown s" "st_config (upd_scope p f s) = st_config s"
  "st_scopes (upd_scope p f s) = st_scopes s" "st_leases (upd_scope p f s) = st_leases s"
  "st_total (upd_scope p f s) = st_total s" "length (st_heap (upd_scope p f s)) = length (st_heap s)"
  "st_tombs (upd_scope p f s) = st_tombs s" "st_ring (upd_scope p f s) = st_ring s"
  "st_head (upd_scope p f s) = st_head s" "st_tlen (upd_scope p f s) = st_tlen s"
  "st_nextSeq (upd_scope p f s) = st_nextSeq s"
  "st_coordByScope (upd_scope p f s) = st_coordByScope s"
  "st_coordByIndex (upd_scope p f s) = st_coordByIndex s"
  by (simp_all add: upd_scope_def)

lemma upd_scope_heap:
  "q < length (st_heap s) \<Longrightarrow> st_heap (upd_scope p f s) ! q = (if q = p then f (st_heap s ! p) else st_heap s ! q)"
  by (simp add: upd_scope_def)

lemma touchLocked_frame [simp, store_frame]:
  "st_shutdown (touchLocked p now s) = st_shutdown s" "st_config (touchLocked p now s) = st_config s"
  "st_scopes (touchLocked p now s) = st_scopes s" "st_leases (touchLocked p now s) = st_leases s"
  "st_total (touchLocked p now s) = st_total s" "length (st_heap (touchLocked p now s)) = length (st_heap s)"
  "st_tombs (touchLocked p now s) = st_tombs s"
  by (simp_all add: touchLocked_def)

lemma addTombstone_frame [simp, store_frame]:
  "st_shutdown (addTombstoneLocked i e s) = st_shutdown s" "st_config (addTombstoneLocked i e s) = st_config s"
  "st_scopes (addTombstoneLocked i e s) = st_scopes s" "st_leases (addTombstoneLocked i e s) = st_leases s"
  "st_total (addTombstoneLocked i e s) = st_total s" "st_heap (addTombstoneLocked i e s) = st_heap s"
  "st_coordByScope (addTombstoneLocked i e s) = st_coordByScope s"
  "st_coordByIndex (addTombstoneLocked i e s) = st_coordByIndex s"
  by (simp_all add: addTombstoneLocked_def Let_def)

lemma pruneTombstone1_frame:
  assumes "pruneTombstone1 now s = Some s'"
  shows "st_shutdown s' = st_shutdown s \<and> st_config s' = st_config s \<and> st_scopes s' = st_scopes s \<and>
    st_leases s' = st_leases s \<and> st_total s' = st_total s \<and> st_heap s' = st_heap s \<and>
    st_coordByScope s' = st_coordByScope s \<and> st_coordByIndex s' = st_coordByIndex s"
  using assms by (auto simp: pruneTombstone1_def Let_def split: option.splits if_splits)

lemma pruneTombstones_frame_all:
  "st_shutdown (pruneTombstonesLocked now s) = st_shutdown s \<and>
   st_config (pruneTombstonesLocked now s) = st_config s \<and>
   st_scopes (pruneTombstonesLocked now s) = st_scopes s \<and>
   st_leases (pruneTombstonesLocked now s) = st_leases s \<and>
   st_total (pruneTombstonesLocked now s) = st_total s \<and>
   st_heap (pruneTombstonesLocked now s) = st_heap s \<and>
   st_coordByScope (pruneTombstonesLocked now s) = st_coordByScope s \<and>
   st_coordByIndex (pruneTombstonesLocked now s) = st_coordByIndex s"
proof (induction now s rule: pruneTombstonesLocked.induct)
  case (1 now s)
  then show ?case
    by (subst (1 2 3 4 5 6 7 8) pruneTombstonesLocked.simps)
      (auto split: option.split dest: pruneTombstone1_frame)
qed

lemma pruneTombstones_frame [simp, store_frame]:
  "st_shutdown (pruneTombstonesLocked now s) = st_shutdown s"
  "st_config (pruneTombstonesLocked now s) = st_config s"
  "st_scopes (pruneTombstonesLocked now s) = st_scopes s"
  "st_leases (pruneTombstonesLocked now s) = st_leases s"
  "st_total (pruneTombstonesLocked now s) = st_total s"
  "st_heap (pruneTombstonesLocked now s) = st_heap s"
  "st_coordByScope (pruneTombstonesLocked now s) = st_coordByScope s"
  "st_coordByIndex (pruneTombstonesLocked now s) = st_coordByIndex s"
  using pruneTombstones_frame_all by auto

text \<open>The parts of the invariant depend on the fields they mention only.\<close>

lemma store_core_cong:
  "st_config s = st_config t \<Longrightarrow> st_scopes s = st_scopes t \<Longrightarrow> st_leases s = st_leases t \<Longrightarrow>
   st_total s = st_total t \<Longrightarrow> st_heap s = st_heap t \<Longrightarrow> store_core s = store_core t"
  by (simp add: store_core_def live_leases_def)

lemma tomb_inv_cong:
  "st_config s = st_config t \<Longrightarrow> st_tombs s = st_tombs t \<Longrightarrow> st_ring s = st_ring t \<Longrightarrow>
   st_head s = st_head t \<Longrightarrow> st_tlen s = st_tlen t \<Longrightarrow> tomb_inv s = tomb_inv t"
  by (simp add: tomb_inv_def)

lemma coord_inv_cong:
  "st_coordByScope s = st_coordByScope t \<Longrightarrow> st_coordByIndex s = st_coordByIndex t \<Longrightarrow>
   coord_inv s = coord_inv t"
  by (simp add: coord_inv_def)

section \<open>The tombstone ring\<close>

lemma tomb_inv_upd_scope [simp]: "tomb_inv (upd_scope p f s) = tomb_inv s"
  by (rule tomb_inv_cong) simp_all

lemma coord_inv_upd_scope [simp]: "coord_inv (upd_scope p f s) = coord_inv s"
  by (rule coord_inv_cong) simp_all

lemma coord_inv_addTombstone [simp]: "coord_inv (addTombstoneLocked i e s) = coord_inv s"
  by (rule coord_inv_cong) simp_all

lemma coord_inv_pruneTombstones [simp]: "coord_inv (pruneTombstonesLocked now s) = coord_inv s"
  by (rule coord_inv_cong) simp_all

lemma store_core_pruneTombstones [simp]: "store_core (pruneTombstonesLocked now s) = store_core s"
  by (rule store_core_cong) simp_all

lemma store_core_addTombstone [simp]: "store_core (addTombstoneLocked i e s) = store_core s"
  by (rule store_core_cong) simp_all

lemma ring_window_neq:
  assumes "h < n" "i < n" "j < n" "i \<noteq> (j :: nat)"
  shows "(h + i) mod n \<noteq> (h + j) mod n"
proof
  assume "(h + i) mod n = (h + j) mod n"
  then have "i mod n = j mod n" by (simp add: nat_mod_eq_iff)
  with assms show False by simp
qed

lemma ring_window_Suc: "(Suc h mod n + j) mod n = (h + Suc j) mod (n :: nat)"
  by (simp add: mod_simps)

text \<open>Where the live window of the ring goes when its oldest marker is popped.\<close>

lemma tomb_inv_pop:
  assumes "tomb_inv s" "0 < st_tlen s"
    and keep: "\<And>i t. gm_get tombs' i = Some t \<Longrightarrow> gm_get (st_tombs s) i = Some t \<and> t \<noteq> st_ring s ! st_head s"
    and ok: "gm_ok tombs'"
  shows "tomb_inv (s\<lparr>st_ring := (st_ring s)[st_head s := x], st_head := Suc (st_head s) mod length (st_ring s),
      st_tlen := st_tlen s - 1, st_tombs := tombs'\<rparr>)"
proof -
  let ?n = "length (st_ring s)"
  have h: "st_head s < ?n" and len: "st_tlen s \<le> ?n" using assms by (auto simp: tomb_inv_def)
  have "\<exists>j < st_tlen s - 1. (st_ring s)[st_head s := x] ! ((Suc (st_head s) mod ?n + j) mod ?n) = t"
    if t: "gm_get tombs' i = Some t" for i t
  proof -
    from keep [OF t] assms(1) obtain j where j: "j < st_tlen s"
      "st_ring s ! ((st_head s + j) mod ?n) = t" "t \<noteq> st_ring s ! st_head s"
      unfolding tomb_inv_def by blast
    then have "j \<noteq> 0" using h by (cases j) auto
    then have "(st_head s + j) mod ?n \<noteq> st_head s"
      using ring_window_neq [OF h, of j 0] j len h by auto
    moreover obtain j' where "j = Suc j'" using \<open>j \<noteq> 0\<close> by (cases j) auto
    ultimately show ?thesis
      using j by (intro exI [of _ j']) (auto simp: ring_window_Suc)
  qed
  with assms(1) keep ok h show ?thesis
    unfolding tomb_inv_def by (auto simp: mod_less_divisor)
qed

text \<open>Where it goes when a marker is appended to a ring that is not full.\<close>

lemma tomb_inv_push:
  assumes "tomb_inv s" "st_tlen s < length (st_ring s)" "tm_id m = i"
  shows "tomb_inv (s\<lparr>st_nextSeq := q, st_ring := (st_ring s)[(st_head s + st_tlen s) mod length (st_ring s) := m],
      st_tlen := Suc (st_tlen s), st_tombs := gm_put i m (st_tombs s)\<rparr>)"
proof -
  let ?n = "length (st_ring s)" and ?x = "(st_head s + st_tlen s) mod length (st_ring s)"
  have h: "st_head s < ?n" using assms by (auto simp: tomb_inv_def)
  have x: "?x < ?n" using h by (intro mod_less_divisor) linarith
  have "\<exists>j < Suc (st_tlen s). (st_ring s)[?x := m] ! ((st_head s + j) mod ?n) = t"
    if t: "gm_get (gm_put i m (st_tombs s)) k = Some t" for k t
  proof (cases "k = i")
    case True
    with t x show ?thesis by (intro exI [of _ "st_tlen s"]) auto
  next
    case False
    with t have "gm_get (st_tombs s) k = Some t" by simp
    with assms(1) obtain j where j: "j < st_tlen s" "st_ring s ! ((st_head s + j) mod ?n) = t"
      unfolding tomb_inv_def by blast
    with ring_window_neq [OF h, of j "st_tlen s"] assms(2) show ?thesis
      by (intro exI [of _ j]) auto
  qed
  with assms show ?thesis
    unfolding tomb_inv_def by (auto split: if_splits)
qed

lemma tomb_inv_addTombstone [simp, intro]:
  assumes "tomb_inv s"
  shows "tomb_inv (addTombstoneLocked i e s)"
proof (cases "st_tlen s = length (st_ring s)")
  case False
  then have "st_tlen s < length (st_ring s)" using assms by (auto simp: tomb_inv_def)
  from tomb_inv_push [OF assms this, of "\<lparr>tm_id = i, tm_expiresAt = e, tm_sequence = st_nextSeq s + 1\<rparr>" i]
  show ?thesis using False by (simp add: addTombstoneLocked_def Let_def)
next
  case True
  let ?n = "length (st_ring s)" and ?h = "st_head s" and ?old = "st_ring s ! st_head s"
  let ?m = "\<lparr>tm_id = i, tm_expiresAt = e, tm_sequence = st_nextSeq s + 1\<rparr>"
  define tombs where "tombs = (case gm_get (st_tombs s) (tm_id ?old) of
      Some current \<Rightarrow> if tm_sequence current = tm_sequence ?old then gm_del (tm_id ?old) (st_tombs s) else st_tombs s
    | None \<Rightarrow> st_tombs s)"
  have n: "0 < ?n" and h: "?h < ?n" and gok: "gm_ok (st_tombs s)" using assms by (auto simp: tomb_inv_def)
  have keep: "gm_get (st_tombs s) k = Some t \<and> t \<noteq> ?old" if "gm_get tombs k = Some t" for k t
    using that assms by (auto simp: tombs_def tomb_inv_def split: option.splits if_splits)
  define s1 where "s1 = s\<lparr>st_ring := (st_ring s)[?h := ?m], st_head := Suc ?h mod ?n,
      st_tlen := st_tlen s - 1, st_tombs := tombs\<rparr>"
  have "gm_ok tombs" using gok by (simp add: tombs_def split: option.split)
  moreover have "0 < st_tlen s" using True n by simp
  ultimately have "tomb_inv s1"
    unfolding s1_def using keep by (intro tomb_inv_pop [OF assms])
  moreover have "(Suc ?h mod ?n + (?n - 1)) mod ?n = ?h"
    unfolding ring_window_Suc using n h by simp
  ultimately have "tomb_inv (s1\<lparr>st_nextSeq := st_nextSeq s + 1, st_ring := (st_ring s1)[?h := ?m],
      st_tlen := Suc (st_tlen s1), st_tombs := gm_put i ?m (st_tombs s1)\<rparr>)"
    using tomb_inv_push [of s1 ?m i "st_nextSeq s + 1"] n True by (simp add: s1_def)
  then show ?thesis
    by (rule tomb_inv_cong [THEN iffD1, rotated -1])
      (use True n in \<open>simp_all add: addTombstoneLocked_def Let_def s1_def tombs_def\<close>)
qed

lemma tomb_inv_prune1:
  assumes "tomb_inv s" "0 < st_tlen s" "pruneTombstone1 now s = Some s'"
  shows "tomb_inv s'"
proof -
  let ?old = "st_ring s ! st_head s"
  define tombs' where "tombs' = (case gm_get (st_tombs s) (tm_id ?old) of
      Some current \<Rightarrow> if tm_sequence current = tm_sequence ?old then gm_del (tm_id ?old) (st_tombs s) else st_tombs s
    | None \<Rightarrow> st_tombs s)"
  have keep: "gm_get (st_tombs s) k = Some t \<and> t \<noteq> ?old" if "gm_get tombs' k = Some t" for k t
    using that assms(1) by (auto simp: tombs'_def tomb_inv_def split: option.splits if_splits)
  have "gm_ok tombs'" using assms(1) by (auto simp: tombs'_def tomb_inv_def split: option.splits)
  from tomb_inv_pop [OF assms(1,2) keep this, of zero_tombstone] assms(3) show ?thesis
    by (auto simp: pruneTombstone1_def Let_def tombs'_def split: option.splits if_splits)
qed

lemma tomb_inv_pruneTombstones [simp, intro]: "tomb_inv s \<Longrightarrow> tomb_inv (pruneTombstonesLocked now s)"
proof (induction now s rule: pruneTombstonesLocked.induct)
  case (1 now s)
  then show ?case
    by (subst pruneTombstonesLocked.simps) (auto split: option.split dest: tomb_inv_prune1)
qed

text \<open>Each retained tombstone occupies its own cell of the window, so there are no more than the window has.\<close>

lemma tombs_le_window:
  assumes "tomb_inv s"
  shows "length (st_tombs s) \<le> st_tlen s"
proof -
  let ?pos = "\<lambda>j. st_ring s ! ((st_head s + j) mod length (st_ring s))"
  have "set (map fst (st_tombs s)) \<subseteq> (tm_id \<circ> ?pos) ` {..<st_tlen s}"
  proof
    fix i assume "i \<in> set (map fst (st_tombs s))"
    then obtain t where "gm_get (st_tombs s) i = Some t"
      by (metis in_set_conv_nth list.set_map map_of_eq_None_iff not_None_eq)
    with assms show "i \<in> (tm_id \<circ> ?pos) ` {..<st_tlen s}"
      by (force simp: tomb_inv_def)
  qed
  then have "card (set (map fst (st_tombs s))) \<le> st_tlen s"
    by (metis card_image_le card_lessThan card_mono finite_imageI finite_lessThan le_trans)
  moreover have "card (set (map fst (st_tombs s))) = length (st_tombs s)"
    using assms distinct_card [of "map fst (st_tombs s)"] by (simp add: tomb_inv_def)
  ultimately show ?thesis by simp
qed

section \<open>The core under writes to one scope\<close>

text \<open>
  A write that keeps the identity of the scope, its reference count and the size of its
  ledgers, and keeps the ledgers a bijection.
\<close>

definition same_shape :: "scopeState \<Rightarrow> scopeState \<Rightarrow> bool" where
  "same_shape sc sc' \<longleftrightarrow> ss_id sc' = ss_id sc \<and> ss_nil sc' = ss_nil sc \<and>
     ss_inFlight sc' = ss_inFlight sc \<and> entryCount sc' = entryCount sc \<and>
     (scope_ok sc \<longrightarrow> scope_ok sc')"

lemma entry_sum_upd_same:
  assumes "entryCount (f (st_heap s ! p)) = entryCount (st_heap s ! p)"
    "\<forall>(i, q) \<in> set xs. q < length (st_heap s)"
  shows "(\<Sum>(i, q)\<leftarrow>xs. int (entryCount (st_heap (upd_scope p f s) ! q))) =
         (\<Sum>(i, q)\<leftarrow>xs. int (entryCount (st_heap s ! q)))"
  using assms by (induction xs) (auto simp: upd_scope_heap)

lemma core_scopes_bound:
  assumes "store_core s"
  shows "\<forall>(i, q) \<in> set (st_scopes s). q < length (st_heap s)"
  using core_scope(1) [OF assms] map_of_is_SomeI [OF core_gm_ok [OF assms]] by blast

lemma store_core_upd_same:
  assumes core: "store_core s" and p: "p < length (st_heap s)"
    and shape: "same_shape (st_heap s ! p) (f (st_heap s ! p))"
  shows "store_core (upd_scope p f s)"
proof -
  have h: "st_heap (upd_scope p f s) ! q = (if q = p then f (st_heap s ! p) else st_heap s ! q)"
    if "q < length (st_heap s)" for q
    using that by (rule upd_scope_heap)
  have live: "live_leases (upd_scope p f s) q = live_leases s q" for q
    by (simp add: live_leases_def)
  have id_h: "ss_id (st_heap (upd_scope p f s) ! q) = ss_id (st_heap s ! q)" if "q < length (st_heap s)" for q
    using that shape by (simp add: h same_shape_def)
  show ?thesis
  proof (rule store_coreI)
    show "gm_ok (st_scopes (upd_scope p f s))" using core_gm_ok [OF core] by simp
  next
    fix i q assume "gm_get (st_scopes (upd_scope p f s)) i = Some q"
    then have q: "gm_get (st_scopes s) i = Some q" by simp
    note facts = core_scope [OF core q]
    with shape show "q < length (st_heap (upd_scope p f s)) \<and> ss_id (st_heap (upd_scope p f s) ! q) = i \<and>
        \<not> ss_nil (st_heap (upd_scope p f s) ! q) \<and>
        int (entryCount (st_heap (upd_scope p f s) ! q)) \<le> cfg_MaxEntriesPerScope (st_config (upd_scope p f s))"
      by (cases "q = p") (simp_all add: h same_shape_def)
  next
    fix q assume "(q, False) \<in> set (st_leases (upd_scope p f s))"
    then show "q < length (st_heap (upd_scope p f s)) \<and>
        gm_get (st_scopes (upd_scope p f s)) (ss_id (st_heap (upd_scope p f s) ! q)) = Some q"
      using core_lease_set [OF core, of q] by (simp add: id_h)
  next
    fix q assume "q < length (st_heap (upd_scope p f s))"
    then show "ss_inFlight (st_heap (upd_scope p f s) ! q) = live_leases (upd_scope p f s) q \<and>
        scope_ok (st_heap (upd_scope p f s) ! q)"
      using core_cell [OF core] shape by (simp add: h live same_shape_def)
  next
    show "st_total (upd_scope p f s) =
        (\<Sum>(i, q)\<leftarrow>st_scopes (upd_scope p f s). int (entryCount (st_heap (upd_scope p f s) ! q)))"
      using entry_sum_upd_same [OF _ core_scopes_bound [OF core], of f p] shape core_total(1) [OF core]
      by (simp add: same_shape_def)
  qed (use core_total [OF core] in simp_all)
qed

lemma same_shape_touch: "same_shape sc (sc\<lparr>ss_lastUsed := a, ss_expiresAt := b\<rparr>)"
  by (simp add: same_shape_def)

lemma same_shape_close: "same_shape sc (sc\<lparr>ss_state := st\<rparr>)"
  by (simp add: same_shape_def)

lemma store_core_touch [simp, inv_intros]:
  "store_core s \<Longrightarrow> p < length (st_heap s) \<Longrightarrow> store_core (touchLocked p now s)"
  unfolding touchLocked_def by (rule store_core_upd_same) (simp_all add: same_shape_touch)

lemma store_core_close [simp, inv_intros]:
  "store_core s \<Longrightarrow> p < length (st_heap s) \<Longrightarrow>
     store_core (upd_scope p (\<lambda>sc. sc\<lparr>ss_state := st\<rparr>) s)"
  by (rule store_core_upd_same) (simp_all add: same_shape_close)

lemma tomb_inv_touch [simp]: "tomb_inv (touchLocked p now s) = tomb_inv s"
  by (simp add: touchLocked_def)

lemma coord_inv_touch [simp]: "coord_inv (touchLocked p now s) = coord_inv s"
  by (simp add: touchLocked_def)

lemma gm_len_put_same: "gm_get m k \<noteq> None \<Longrightarrow> length (gm_put k v m) = length m"
  by (simp add: gm_len_put)

lemma promote_same_shape:
  assumes "scope_ok sc" "gm_get (ss_forward sc) k = Some e"
  shows "same_shape sc (snd (promoteInputProvenanceLocked k e obs sc))"
proof (cases "me_Provenance e \<noteq> ProvenanceGenerated \<or> obs \<noteq> ProvenanceInput")
  case False
  note e = scope_ok_fwd [OF assms]
  let ?e = "e\<lparr>me_Provenance := ProvenanceInput\<rparr>"
  let ?sc = "sc\<lparr>ss_forward := gm_put k ?e (ss_forward sc),
      ss_reverse := gm_put (me_Entity ?e, me_Synthetic ?e) ?e (ss_reverse sc)\<rparr>"
  have "scope_ok ?sc"
  proof (rule scope_okI)
    fix k' e' assume "gm_get (ss_forward ?sc) k' = Some e'"
    then show "k' = (me_Entity e', me_Original e') \<and>
        gm_get (ss_reverse ?sc) (me_Entity e', me_Synthetic e') = Some e'"
      using e scope_ok_fwd [OF assms(1), of k' e'] by (cases "k' = k") auto
  next
    fix k' e' assume r: "gm_get (ss_reverse ?sc) k' = Some e'"
    then show "k' = (me_Entity e', me_Synthetic e') \<and>
        gm_get (ss_forward ?sc) (me_Entity e', me_Original e') = Some e'"
    proof (cases "k' = (me_Entity e, me_Synthetic e)")
      case True
      with r e show ?thesis by auto
    next
      case False
      with r have r': "gm_get (ss_reverse sc) k' = Some e'" by simp
      with False e assms(2) scope_ok_rev [OF assms(1) r'] show ?thesis by auto
    qed
  qed (use scope_ok_maps [OF assms(1)] in simp_all)
  then show ?thesis
    using assms e False by (simp add: promoteInputProvenanceLocked_def Let_def same_shape_def
        entryCount_def gm_len_put)
qed (simp add: promoteInputProvenanceLocked_def same_shape_def)

section \<open>The core under insertion\<close>

lemma store_core_insert:
  assumes core: "store_core s" and p: "gm_get (st_scopes s) i = Some p"
    and room: "int (entryCount (st_heap s ! p)) < cfg_MaxEntriesPerScope (st_config s)"
    and total: "st_total s < cfg_MaxTotalEntries (st_config s)"
    and f: "ss_id (f (st_heap s ! p)) = ss_id (st_heap s ! p)"
      "ss_nil (f (st_heap s ! p)) = ss_nil (st_heap s ! p)"
      "ss_inFlight (f (st_heap s ! p)) = ss_inFlight (st_heap s ! p)"
      "entryCount (f (st_heap s ! p)) = Suc (entryCount (st_heap s ! p))"
      "scope_ok (f (st_heap s ! p))"
  shows "store_core (upd_scope p f (s\<lparr>st_total := st_total s + 1\<rparr>))"
proof -
  let ?s = "upd_scope p f (s\<lparr>st_total := st_total s + 1\<rparr>)"
  have plen: "p < length (st_heap s)" using core_scope(1) [OF core p] .
  have h: "st_heap ?s ! q = (if q = p then f (st_heap s ! p) else st_heap s ! q)"
    if "q < length (st_heap s)" for q
    using that upd_scope_heap [of q "s\<lparr>st_total := st_total s + 1\<rparr>" p f] by simp
  have uniq: "gm_get (st_scopes s) k = Some p \<Longrightarrow> k = i" for k
    using core_scope(2) [OF core] p by metis
  have gok: "gm_ok (st_scopes s)" using core by (simp add: store_core_def)
  have "(\<Sum>(j, q)\<leftarrow>st_scopes s. int (entryCount (st_heap ?s ! q))) =
      (\<Sum>(j, q)\<leftarrow>st_scopes s. int (entryCount (st_heap s ! q))) + 1"
  proof -
    have "(case x of (j, q) \<Rightarrow> int (entryCount (st_heap ?s ! q))) =
        (case x of (j, q) \<Rightarrow> int (entryCount (st_heap s ! q)))"
      if "x \<in> set (st_scopes s)" "fst x \<noteq> i" for x
    proof -
      obtain j q where x: "x = (j, q)" by (cases x)
      with that have q: "gm_get (st_scopes s) j = Some q" "j \<noteq> i" using map_of_is_SomeI [OF gok] by auto
      then have "q \<noteq> p" using uniq by blast
      with x core_scope(1) [OF core q(1)] show ?thesis by (simp add: h)
    qed
    from gm_sum_change [OF gok p this] show ?thesis using plen f(4) by (simp add: h)
  qed
  note sum = this
  have live: "live_leases ?s q = live_leases s q" for q
    by (simp add: live_leases_def)
  show ?thesis
  proof (rule store_coreI)
    show "gm_ok (st_scopes ?s)" using gok by simp
  next
    fix k q assume "gm_get (st_scopes ?s) k = Some q"
    then have q: "gm_get (st_scopes s) k = Some q" by simp
    note facts = core_scope [OF core q]
    with f room show "q < length (st_heap ?s) \<and> ss_id (st_heap ?s ! q) = k \<and> \<not> ss_nil (st_heap ?s ! q) \<and>
        int (entryCount (st_heap ?s ! q)) \<le> cfg_MaxEntriesPerScope (st_config ?s)"
      by (auto simp: h)
  next
    fix q assume "(q, False) \<in> set (st_leases ?s)"
    then show "q < length (st_heap ?s) \<and> gm_get (st_scopes ?s) (ss_id (st_heap ?s ! q)) = Some q"
      using core_lease_set [OF core, of q] f(1) by (auto simp: h)
  next
    fix q assume "q < length (st_heap ?s)"
    then show "ss_inFlight (st_heap ?s ! q) = live_leases ?s q \<and> scope_ok (st_heap ?s ! q)"
      using core_cell [OF core] f by (auto simp: h live)
  next
    show "st_total ?s = (\<Sum>(i, q)\<leftarrow>st_scopes ?s. int (entryCount (st_heap ?s ! q)))"
      using sum core_total(1) [OF core] by simp
  qed (use total core_total [OF core] in simp_all)
qed

lemma scope_ok_insert:
  assumes ok: "scope_ok sc"
    and fresh: "gm_get (ss_forward sc) (ent, orig) = None" "gm_get (ss_reverse sc) (ent, syn) = None"
    and e: "me_Entity e = ent" "me_Original e = orig" "me_Synthetic e = syn"
  shows "scope_ok (sc\<lparr>ss_forward := gm_put (ent, orig) e (ss_forward sc),
      ss_reverse := gm_put (ent, syn) e (ss_reverse sc)\<rparr>)" (is "scope_ok ?sc")
proof (rule scope_okI)
  fix k f assume f: "gm_get (ss_forward ?sc) k = Some f"
  show "k = (me_Entity f, me_Original f) \<and> gm_get (ss_reverse ?sc) (me_Entity f, me_Synthetic f) = Some f"
  proof (cases "k = (ent, orig)")
    case True
    with f e show ?thesis by simp
  next
    case False
    with f have "gm_get (ss_forward sc) k = Some f" by simp
    from scope_ok_fwd [OF ok this] fresh(2) show ?thesis by auto
  qed
next
  fix k f assume f: "gm_get (ss_reverse ?sc) k = Some f"
  show "k = (me_Entity f, me_Synthetic f) \<and> gm_get (ss_forward ?sc) (me_Entity f, me_Original f) = Some f"
  proof (cases "k = (ent, syn)")
    case True
    with f e show ?thesis by simp
  next
    case False
    with f have "gm_get (ss_reverse sc) k = Some f" by simp
    from scope_ok_rev [OF ok this] fresh(1) show ?thesis by auto
  qed
qed (use scope_ok_maps [OF ok] in simp_all)

lemma scope_ok_insert_relation:
  assumes ok: "scope_ok sc" and fresh: "gm_get (ss_relations sc) key = None" "\<not> relation_taken sc key v"
  shows "scope_ok (sc\<lparr>ss_relations := gm_put key v (ss_relations sc)\<rparr>)"
proof -
  have "v \<notin> snd ` set (ss_relations sc)"
    using fresh by (force simp: relation_taken_def map_of_eq_None_iff)
  then have "distinct (map snd (gm_put key v (ss_relations sc)))"
    using scope_ok_maps [OF ok] fresh(1) by (simp add: gm_put_fresh)
  with scope_ok_maps [OF ok] show ?thesis
    by (intro scope_okI) (simp_all add: scope_ok_fwd [OF ok] scope_ok_rev [OF ok])
qed

text \<open>An accepted candidate is not taken.\<close>

lemma candidate_loop_accepts:
  "candidate_loop cand taken a = (n, Inr v) \<Longrightarrow> \<not> taken v \<and> cand n = Inr v"
proof (induction cand taken a rule: candidate_loop.induct)
  case (1 cand taken a)
  from "1.prems" show ?case
    by (subst (asm) candidate_loop.simps)
      (auto split: sum.splits if_splits dest: "1.IH")
qed

lemma candidate_loop_no_panic: "candidate_loop cand taken a \<noteq> (n, Inl PanicNilMap)"
proof (induction cand taken a rule: candidate_loop.induct)
  case (1 cand taken a)
  then show ?case by (subst candidate_loop.simps) (auto split: sum.split)
qed

section \<open>The core under acquisition, release and wiping\<close>

lemma live_leases_snoc:
  "st_leases t = st_leases s @ [(q, b)] \<Longrightarrow>
     live_leases t p = live_leases s p + (if p = q \<and> \<not> b then 1 else 0)"
  by (simp add: live_leases_def)

lemma store_core_new_lease:
  assumes core: "store_core s" and p: "gm_get (st_scopes s) i = Some p"
  shows "store_core (new_lease p (upd_scope p (\<lambda>sc. sc\<lparr>ss_inFlight := Suc (ss_inFlight sc)\<rparr>) s))"
    (is "store_core ?s")
proof -
  let ?f = "\<lambda>sc. sc\<lparr>ss_inFlight := Suc (ss_inFlight sc)\<rparr>"
  have plen: "p < length (st_heap s)" and pid: "ss_id (st_heap s ! p) = i" using core_scope [OF core p] by auto
  have h: "st_heap ?s ! q = (if q = p then ?f (st_heap s ! p) else st_heap s ! q)" if "q < length (st_heap s)" for q
    using upd_scope_heap [OF that] by (simp add: new_lease_def)
  have fields: "st_scopes ?s = st_scopes s" "st_config ?s = st_config s" "st_total ?s = st_total s"
    "length (st_heap ?s) = length (st_heap s)" "st_leases ?s = st_leases s @ [(p, False)]"
    by (simp_all add: new_lease_def)
  have sum: "(\<Sum>(i, q)\<leftarrow>st_scopes s. int (entryCount (st_heap ?s ! q))) =
      (\<Sum>(i, q)\<leftarrow>st_scopes s. int (entryCount (st_heap s ! q)))"
    using entry_sum_upd_same [OF _ core_scopes_bound [OF core], of ?f p]
    by (simp add: new_lease_def entryCount_def)
  show ?thesis
  proof (rule store_coreI, unfold fields)
    fix k q assume q: "gm_get (st_scopes s) k = Some q"
    note facts = core_scope [OF core q]
    then show "q < length (st_heap s) \<and> ss_id (st_heap ?s ! q) = k \<and> \<not> ss_nil (st_heap ?s ! q) \<and>
        int (entryCount (st_heap ?s ! q)) \<le> cfg_MaxEntriesPerScope (st_config s)"
      by (cases "q = p") (simp_all add: h entryCount_def)
  next
    fix q assume "(q, False) \<in> set (st_leases s @ [(p, False)])"
    then show "q < length (st_heap s) \<and> gm_get (st_scopes s) (ss_id (st_heap ?s ! q)) = Some q"
      using core_lease_set [OF core, of q] p plen pid by (auto simp: h)
  next
    fix q assume q: "q < length (st_heap s)"
    have "scope_ok (?f (st_heap s ! p))" using core_cell(2) [OF core plen] by (simp cong: scope_ok_cong)
    with q show "ss_inFlight (st_heap ?s ! q) = live_leases ?s q \<and> scope_ok (st_heap ?s ! q)"
      using core_cell [OF core q] live_leases_snoc [OF fields(5), of q] by (cases "q = p") (simp_all add: h)
  qed (use core_total [OF core] core_gm_ok [OF core] sum in simp_all)
qed

lemma store_core_create:
  assumes core: "store_core s" and fresh: "gm_get (st_scopes s) i = None"
    and room: "int (length (st_scopes s)) < cfg_MaxScopes (st_config s)"
    and pos: "0 \<le> cfg_MaxEntriesPerScope (st_config s)"
  shows "store_core (acquire_create i profile now s)" (is "store_core ?s")
proof -
  let ?n = "length (st_heap s)" and ?new = "new_scopeState i profile now (cfg_TTL (st_config s))"
  have fields: "st_scopes ?s = gm_put i ?n (st_scopes s)" "st_config ?s = st_config s" "st_total ?s = st_total s"
    "st_heap ?s = st_heap s @ [?new]" "st_leases ?s = st_leases s @ [(?n, False)]"
    by (simp_all add: acquire_create_def new_lease_def)
  have none: "live_leases s ?n = 0"
    using core_lease_set [OF core, of ?n] by (auto simp: live_leases_def count_list_0_iff)
  have "(\<Sum>(k, q)\<leftarrow>st_scopes s. int (entryCount ((st_heap s @ [?new]) ! q))) =
      (\<Sum>(k, q)\<leftarrow>st_scopes s. int (entryCount (st_heap s ! q)))"
    using core_scopes_bound [OF core] by (intro arg_cong [where f = sum_list] map_cong) (auto simp: nth_append)
  then have sum: "(\<Sum>(k, q)\<leftarrow>gm_put i ?n (st_scopes s). int (entryCount ((st_heap s @ [?new]) ! q))) =
      (\<Sum>(k, q)\<leftarrow>st_scopes s. int (entryCount (st_heap s ! q)))"
    using fresh by (simp add: gm_put_fresh new_scopeState_def entryCount_def)
  show ?thesis
  proof (rule store_coreI, unfold fields)
    fix k q assume q: "gm_get (gm_put i ?n (st_scopes s)) k = Some q"
    show "q < length (st_heap s @ [?new]) \<and> ss_id ((st_heap s @ [?new]) ! q) = k \<and>
        \<not> ss_nil ((st_heap s @ [?new]) ! q) \<and>
        int (entryCount ((st_heap s @ [?new]) ! q)) \<le> cfg_MaxEntriesPerScope (st_config s)"
    proof (cases "k = i")
      case True
      with q have "q = ?n" by simp
      with True pos show ?thesis by (simp add: new_scopeState_def entryCount_def)
    next
      case False
      with q have "gm_get (st_scopes s) k = Some q" by simp
      from core_scope [OF core this] show ?thesis by (simp add: nth_append)
    qed
  next
    fix q assume "(q, False) \<in> set (st_leases s @ [(?n, False)])"
    then show "q < length (st_heap s @ [?new]) \<and>
        gm_get (gm_put i ?n (st_scopes s)) (ss_id ((st_heap s @ [?new]) ! q)) = Some q"
      using core_lease_set [OF core, of q] fresh by (auto simp: nth_append new_scopeState_def)
  next
    fix q assume "q < length (st_heap s @ [?new])"
    then consider "q < ?n" | "q = ?n" by fastforce
    then show "ss_inFlight ((st_heap s @ [?new]) ! q) = live_leases ?s q \<and> scope_ok ((st_heap s @ [?new]) ! q)"
    proof cases
      case 1
      with core_cell [OF core 1] live_leases_snoc [OF fields(5), of q] show ?thesis by (simp add: nth_append)
    next
      case 2
      with none live_leases_snoc [OF fields(5), of q] show ?thesis
        by (simp add: new_scopeState_def scope_ok_def)
    qed
  qed (use core_total [OF core] core_gm_ok [OF core] sum room fresh in \<open>simp_all add: gm_len_put\<close>)
qed

text \<open>Dropping a lease.\<close>

lemma count_list_update:
  "l < length xs \<Longrightarrow> xs ! l = y \<Longrightarrow> z \<noteq> y \<Longrightarrow>
     count_list (xs[l := z]) x = (if x = y then count_list xs x - 1 else if x = z then Suc (count_list xs x) else count_list xs x)"
proof (induction xs arbitrary: l)
  case (Cons a xs)
  then show ?case
    by (cases l) (auto simp: Suc_diff_Suc count_list_0_iff intro!: Suc_pred [symmetric] Suc_pred
        simp: neq0_conv [symmetric] simp del: neq0_conv)
qed simp

lemma store_core_release:
  assumes core: "store_core s" and l: "l < length (st_leases s)"
  shows "store_core (fst (release_drop l s))"
proof (cases "snd (st_leases s ! l)")
  case True
  with core show ?thesis by (simp add: release_drop_def)
next
  case False
  let ?p = "lease_ptr s l"
  let ?f = "\<lambda>sc. if ss_inFlight sc > 0 then sc\<lparr>ss_inFlight := ss_inFlight sc - 1\<rparr> else sc"
  let ?s = "fst (release_drop l s)"
  have lease: "st_leases s ! l = (?p, False)" using False by (simp add: lease_ptr_def prod_eq_iff)
  have op: "lockOperation l s" using False by (simp add: lockOperation_def)
  note ptr = core_lease [OF core l op]
  have s_eq: "?s = upd_scope ?p ?f (s\<lparr>st_leases := (st_leases s)[l := (?p, True)]\<rparr>)"
    using False by (simp add: release_drop_def Let_def)
  have h: "st_heap ?s ! q = (if q = ?p then ?f (st_heap s ! ?p) else st_heap s ! q)" if "q < length (st_heap s)" for q
    unfolding s_eq using that by (subst upd_scope_heap) simp_all
  have fields: "st_scopes ?s = st_scopes s" "st_config ?s = st_config s" "st_total ?s = st_total s"
    "length (st_heap ?s) = length (st_heap s)" "st_leases ?s = (st_leases s)[l := (?p, True)]"
    by (simp_all add: s_eq)
  have live: "live_leases ?s q = (if q = ?p then live_leases s q - 1 else live_leases s q)" for q
    unfolding live_leases_def fields using count_list_update [OF l lease, of "(?p, True)" "(q, False)"] by simp
  have sub: "(q, False) \<in> set ((st_leases s)[l := (?p, True)]) \<Longrightarrow> (q, False) \<in> set (st_leases s)" for q
    using set_update_subset_insert [of "st_leases s" l "(?p, True)"] by auto
  have same: "ss_id (?f sc) = ss_id sc" "ss_nil (?f sc) = ss_nil sc" "entryCount (?f sc) = entryCount sc"
    "scope_ok (?f sc) = scope_ok sc" "ss_inFlight (?f sc) = ss_inFlight sc - 1" for sc
    by (simp_all add: entryCount_def cong: scope_ok_cong)
  have sum: "(\<Sum>(i, q)\<leftarrow>st_scopes s. int (entryCount (st_heap ?s ! q))) =
      (\<Sum>(i, q)\<leftarrow>st_scopes s. int (entryCount (st_heap s ! q)))"
    using core_scopes_bound [OF core] by (intro arg_cong [where f = sum_list] map_cong) (auto simp: h same)
  show ?thesis
  proof (rule store_coreI, unfold fields)
    fix k q assume q: "gm_get (st_scopes s) k = Some q"
    from core_scope [OF core q]
    show "q < length (st_heap s) \<and> ss_id (st_heap ?s ! q) = k \<and> \<not> ss_nil (st_heap ?s ! q) \<and>
        int (entryCount (st_heap ?s ! q)) \<le> cfg_MaxEntriesPerScope (st_config s)"
      by (cases "q = ?p") (simp_all only: h same if_True if_False, simp_all add: entryCount_def)
  next
    fix q assume "(q, False) \<in> set ((st_leases s)[l := (?p, True)])"
    from core_lease_set [OF core sub [OF this]]
    show "q < length (st_heap s) \<and> gm_get (st_scopes s) (ss_id (st_heap ?s ! q)) = Some q"
      by (cases "q = ?p") (simp_all only: h same if_True if_False, simp_all)
  next
    fix q assume q: "q < length (st_heap s)"
    show "ss_inFlight (st_heap ?s ! q) = live_leases ?s q \<and> scope_ok (st_heap ?s ! q)"
      unfolding h [OF q] live using core_cell [OF core q] by auto
  qed (use core_total [OF core] core_gm_ok [OF core] sum in simp_all)
qed

text \<open>Wiping a scope nobody holds.\<close>

abbreviation wiped :: "scopeState \<Rightarrow> scopeState" where
  "wiped sc \<equiv> sc\<lparr>ss_nil := True, ss_forward := [], ss_reverse := [], ss_relations := []\<rparr>"

lemma scope_ok_wiped: "scope_ok (wiped sc)"
  by (simp add: scope_ok_def)

lemma wipe_cases:
  obtains (stale) "wipeAndRemoveLocked p now s = s" "gm_get (st_scopes s) (ss_id (st_heap s ! p)) \<noteq> Some p"
  | (current) s1 where "gm_get (st_scopes s) (ss_id (st_heap s ! p)) = Some p"
      "s1 = (upd_scope p wiped s)\<lparr>st_scopes := gm_del (ss_id (st_heap s ! p)) (st_scopes s),
         st_total := st_total s - int (entryCount (st_heap s ! p))\<rparr>"
      "wipeAndRemoveLocked p now s =
         addTombstoneLocked (ss_id (st_heap s ! p)) (now + cfg_TTL (st_config s)) s1"
proof (cases "gm_get (st_scopes s) (ss_id (st_heap s ! p)) = Some p")
  case True
  define s1 where "s1 = (upd_scope p wiped s)\<lparr>st_scopes := gm_del (ss_id (st_heap s ! p)) (st_scopes s),
      st_total := st_total s - int (entryCount (st_heap s ! p))\<rparr>"
  have "wipeAndRemoveLocked p now s =
      addTombstoneLocked (ss_id (st_heap s ! p)) (now + cfg_TTL (st_config s)) s1"
    using True by (simp add: wipeAndRemoveLocked_def Let_def s1_def upd_scope_def)
  with True s1_def show ?thesis by (rule current)
next
  case False
  then have "wipeAndRemoveLocked p now s = s"
    by (simp add: wipeAndRemoveLocked_def Let_def split: option.split)
  with False show ?thesis by (rule stale [rotated])
qed

lemma store_core_wipe:
  assumes core: "store_core s" and idle: "ss_inFlight (st_heap s ! p) = 0"
  shows "store_core (wipeAndRemoveLocked p now s)"
proof (cases rule: wipe_cases [of p now s])
  case stale
  with core show ?thesis by simp
next
  case (current s1)
  let ?i = "ss_id (st_heap s ! p)"
  note p = current(1)
  have plen: "p < length (st_heap s)" using core_scope(1) [OF core p] .
  have fields: "st_scopes s1 = gm_del ?i (st_scopes s)" "st_config s1 = st_config s"
    "st_total s1 = st_total s - int (entryCount (st_heap s ! p))"
    "length (st_heap s1) = length (st_heap s)" "st_leases s1 = st_leases s"
    by (simp_all add: current(2))
  have h: "st_heap s1 ! q = (if q = p then wiped (st_heap s ! p) else st_heap s ! q)" if "q < length (st_heap s)" for q
    using upd_scope_heap [OF that] by (simp add: current(2))
  have live: "live_leases s1 q = live_leases s q" for q by (simp add: live_leases_def fields)
  have nolease: "(p, False) \<notin> set (st_leases s)"
    using core_cell(1) [OF core plen] idle by (simp add: live_leases_def count_list_0_iff)
  have other: "q \<noteq> p" if "gm_get (gm_del ?i (st_scopes s)) k = Some q" for k q
    using that core_scope(2) [OF core, of k q] by (auto split: if_splits)
  have gok: "gm_ok (st_scopes s)" using core_gm_ok [OF core] .
  have "(\<Sum>(k, q)\<leftarrow>gm_del ?i (st_scopes s). int (entryCount (st_heap s1 ! q))) =
      (\<Sum>(k, q)\<leftarrow>gm_del ?i (st_scopes s). int (entryCount (st_heap s ! q)))"
  proof (intro arg_cong [where f = sum_list] map_cong refl)
    fix x assume x: "x \<in> set (gm_del ?i (st_scopes s))"
    obtain k q where xq: "x = (k, q)" by (cases x)
    with x have kq: "gm_get (gm_del ?i (st_scopes s)) k = Some q"
      using map_of_is_SomeI [OF gm_ok_del [OF gok]] by simp
    then have "q < length (st_heap s)" using core_scope(1) [OF core, of k q] by (simp split: if_splits)
    with xq other [OF kq] show "(case x of (k, q) \<Rightarrow> int (entryCount (st_heap s1 ! q))) =
        (case x of (k, q) \<Rightarrow> int (entryCount (st_heap s ! q)))" by (simp add: h)
  qed
  also have "\<dots> = st_total s - int (entryCount (st_heap s ! p))"
    using gm_sum_del [OF gok p, of "\<lambda>(k, q). int (entryCount (st_heap s ! q))"] core_total(1) [OF core] by simp
  finally have sum: "st_total s - int (entryCount (st_heap s ! p)) =
      (\<Sum>(k, q)\<leftarrow>gm_del ?i (st_scopes s). int (entryCount (st_heap s1 ! q)))" by simp
  have "store_core s1"
  proof (rule store_coreI, unfold fields)
    fix k q assume kq: "gm_get (gm_del ?i (st_scopes s)) k = Some q"
    then have q: "gm_get (st_scopes s) k = Some q" by (simp split: if_splits)
    from core_scope [OF core q] other [OF kq]
    show "q < length (st_heap s) \<and> ss_id (st_heap s1 ! q) = k \<and> \<not> ss_nil (st_heap s1 ! q) \<and>
        int (entryCount (st_heap s1 ! q)) \<le> cfg_MaxEntriesPerScope (st_config s)"
      by (simp add: h)
  next
    fix q assume q: "(q, False) \<in> set (st_leases s)"
    with nolease have "q \<noteq> p" by blast
    with core_lease_set [OF core q] p
    show "q < length (st_heap s) \<and> gm_get (gm_del ?i (st_scopes s)) (ss_id (st_heap s1 ! q)) = Some q"
      by (auto simp: h)
  next
    fix q assume q: "q < length (st_heap s)"
    show "ss_inFlight (st_heap s1 ! q) = live_leases s1 q \<and> scope_ok (st_heap s1 ! q)"
      unfolding h [OF q] live using core_cell [OF core q] by (auto simp: scope_ok_wiped)
  qed (use core_total [OF core] gok sum length_delete_le [of ?i "st_scopes s"] in simp_all)
  then show ?thesis by (simp add: current(3))
qed

lemma store_inv_wipe [inv_intros]:
  assumes "store_inv s" "ss_inFlight (st_heap s ! p) = 0"
  shows "store_inv (wipeAndRemoveLocked p now s)"
proof (rule store_invI)
  show "store_core (wipeAndRemoveLocked p now s)"
    using assms by (intro store_core_wipe) (simp_all add: store_inv_def)
next
  show "tomb_inv (wipeAndRemoveLocked p now s)"
  proof (cases rule: wipe_cases [of p now s])
    case (current s1)
    have "tomb_inv s1 = tomb_inv s" unfolding current(2) by (rule tomb_inv_cong) simp_all
    with current(3) store_invD(2) [OF assms(1)] show ?thesis by simp
  qed (use store_invD [OF assms(1)] in simp)
next
  show "coord_inv (wipeAndRemoveLocked p now s)"
  proof (cases rule: wipe_cases [of p now s])
    case (current s1)
    have "coord_inv s1 = coord_inv s" unfolding current(2) by (rule coord_inv_cong) simp_all
    with current(3) store_invD(3) [OF assms(1)] show ?thesis by simp
  qed (use store_invD [OF assms(1)] in simp)
next
  show "config_ok (st_config (wipeAndRemoveLocked p now s))"
    using store_invD(4) [OF assms(1)] by (cases rule: wipe_cases [of p now s]) simp_all
qed

section \<open>The invariant under every operation\<close>

subsection \<open>Reaping\<close>

lemma store_inv_close [inv_intros]:
  "store_inv s \<Longrightarrow> p < length (st_heap s) \<Longrightarrow>
     store_inv (upd_scope p (\<lambda>sc. sc\<lparr>ss_state := st\<rparr>) s)"
  by (simp add: store_inv_def)

lemma store_inv_touch [inv_intros]:
  "store_inv s \<Longrightarrow> p < length (st_heap s) \<Longrightarrow> store_inv (touchLocked p now s)"
  by (simp add: store_inv_def)

lemma store_inv_pruneTombstones [inv_intros]: "store_inv s \<Longrightarrow> store_inv (pruneTombstonesLocked now s)"
  by (simp add: store_inv_def)

lemma store_inv_reapScope [inv_intros]:
  assumes "store_inv s" "p < length (st_heap s)" "ss_inFlight (st_heap s ! p) = 0"
  shows "store_inv (reapScope p now s)"
  unfolding reapScope_def
  by (rule store_inv_wipe) (use assms in \<open>simp_all add: store_inv_close upd_scope_heap\<close>)

text \<open>What reaping leaves alone: leases, configuration, and every scope that somebody holds.\<close>

definition keeps_held :: "ScopeStore \<Rightarrow> ScopeStore \<Rightarrow> bool" where
  "keeps_held s t \<longleftrightarrow> st_leases t = st_leases s \<and> st_config t = st_config s \<and>
     st_shutdown t = st_shutdown s \<and> length (st_heap t) = length (st_heap s) \<and>
     length (st_scopes t) \<le> length (st_scopes s) \<and>
     (\<forall>i. gm_get (st_scopes s) i = None \<longrightarrow> gm_get (st_scopes t) i = None) \<and>
     (\<forall>q < length (st_heap s). ss_inFlight (st_heap s ! q) > 0 \<longrightarrow>
        st_heap t ! q = st_heap s ! q \<and>
        (\<forall>i. gm_get (st_scopes s) i = Some q \<longrightarrow> gm_get (st_scopes t) i = Some q))"

lemma keeps_heldI:
  assumes "st_leases t = st_leases s" "st_config t = st_config s" "st_shutdown t = st_shutdown s"
    "length (st_heap t) = length (st_heap s)" "length (st_scopes t) \<le> length (st_scopes s)"
    "\<And>i. gm_get (st_scopes s) i = None \<Longrightarrow> gm_get (st_scopes t) i = None"
    "\<And>q. q < length (st_heap s) \<Longrightarrow> ss_inFlight (st_heap s ! q) > 0 \<Longrightarrow> st_heap t ! q = st_heap s ! q"
    "\<And>q i. q < length (st_heap s) \<Longrightarrow> ss_inFlight (st_heap s ! q) > 0 \<Longrightarrow>
       gm_get (st_scopes s) i = Some q \<Longrightarrow> gm_get (st_scopes t) i = Some q"
  shows "keeps_held s t"
  unfolding keeps_held_def using assms by blast

lemma keeps_heldD:
  assumes "keeps_held s t"
  shows "st_leases t = st_leases s" "st_config t = st_config s" "st_shutdown t = st_shutdown s"
    "length (st_heap t) = length (st_heap s)" "length (st_scopes t) \<le> length (st_scopes s)"
    "\<And>i. gm_get (st_scopes s) i = None \<Longrightarrow> gm_get (st_scopes t) i = None"
    "\<And>q. q < length (st_heap s) \<Longrightarrow> ss_inFlight (st_heap s ! q) > 0 \<Longrightarrow> st_heap t ! q = st_heap s ! q"
    "\<And>q i. q < length (st_heap s) \<Longrightarrow> ss_inFlight (st_heap s ! q) > 0 \<Longrightarrow>
       gm_get (st_scopes s) i = Some q \<Longrightarrow> gm_get (st_scopes t) i = Some q"
  using assms unfolding keeps_held_def by blast+

lemma keeps_held_refl [simp]: "keeps_held s s"
  by (simp add: keeps_held_def)

lemma keeps_held_trans:
  assumes st: "keeps_held s t" and tu: "keeps_held t u"
  shows "keeps_held s u"
proof (rule keeps_heldI)
  fix q assume q: "q < length (st_heap s)" "ss_inFlight (st_heap s ! q) > 0"
  note t = keeps_heldD(7) [OF st q]
  with q keeps_heldD(4) [OF st] have q': "q < length (st_heap t)" "ss_inFlight (st_heap t ! q) > 0" by simp_all
  with t keeps_heldD(7) [OF tu q'] show "st_heap u ! q = st_heap s ! q" by simp
  fix i assume "gm_get (st_scopes s) i = Some q"
  from keeps_heldD(8) [OF tu q' keeps_heldD(8) [OF st q this]] show "gm_get (st_scopes u) i = Some q" .
qed (use keeps_heldD [OF st] keeps_heldD [OF tu] in simp_all)

lemma keeps_held_wipe:
  assumes "store_core s" "p < length (st_heap s)" "ss_inFlight (st_heap s ! p) = 0"
  shows "keeps_held s (wipeAndRemoveLocked p now s)"
proof (cases rule: wipe_cases [of p now s])
  case (current s1)
  show ?thesis
    unfolding current(3)
  proof (rule keeps_heldI)
    fix q assume q: "q < length (st_heap s)" "ss_inFlight (st_heap s ! q) > 0"
    with assms have "q \<noteq> p" by auto
    with q show "st_heap (addTombstoneLocked (ss_id (st_heap s ! p)) (now + cfg_TTL (st_config s)) s1) ! q = st_heap s ! q"
      by (simp add: current(2) upd_scope_heap)
    fix i assume "gm_get (st_scopes s) i = Some q"
    with \<open>q \<noteq> p\<close> current(1) core_scope(2) [OF assms(1) this]
    show "gm_get (st_scopes (addTombstoneLocked (ss_id (st_heap s ! p)) (now + cfg_TTL (st_config s)) s1)) i = Some q"
      by (auto simp: current(2))
  qed (use length_delete_le [of "ss_id (st_heap s ! p)" "st_scopes s"] in \<open>simp_all add: current(2)\<close>)
qed simp

lemma keeps_held_close:
  assumes "p < length (st_heap s)" "ss_inFlight (st_heap s ! p) = 0"
  shows "keeps_held s (upd_scope p (\<lambda>sc. sc\<lparr>ss_state := st\<rparr>) s)"
proof (rule keeps_heldI)
  fix q assume q: "q < length (st_heap s)" "ss_inFlight (st_heap s ! q) > 0"
  with assms have "q \<noteq> p" by auto
  with q show "st_heap (upd_scope p (\<lambda>sc. sc\<lparr>ss_state := st\<rparr>) s) ! q = st_heap s ! q"
    by (simp add: upd_scope_heap)
qed simp_all

lemma keeps_held_reapScope:
  assumes "store_core s" "p < length (st_heap s)" "ss_inFlight (st_heap s ! p) = 0"
  shows "keeps_held s (reapScope p now s)"
  unfolding reapScope_def
  by (rule keeps_held_trans [OF keeps_held_close keeps_held_wipe])
    (use assms in \<open>simp_all add: upd_scope_heap\<close>)

lemma reapLoop_inv:
  assumes "store_inv s" "\<forall>p \<in> set ps. p < length (st_heap s)" "reapLoop busy now ps s = (s', reaped)"
  shows "store_inv s' \<and> keeps_held s s'"
  using assms
proof (induction ps arbitrary: s s' reaped)
  case (Cons p ps)
  show ?case
  proof (cases "busy p \<or> \<not> reapable now (st_heap s ! p)")
    case True
    with Cons show ?thesis by auto
  next
    case False
    then have idle: "ss_inFlight (st_heap s ! p) = 0" by (simp add: reapable_def)
    let ?t = "reapScope p now s"
    have t: "store_inv ?t" "keeps_held s ?t"
      using Cons.prems idle store_invD(1) by (auto intro!: store_inv_reapScope keeps_held_reapScope)
    obtain r where r: "reapLoop busy now ps ?t = (s', r)"
      using False Cons.prems(3) by (auto split: prod.splits)
    have "\<forall>q \<in> set ps. q < length (st_heap ?t)" using Cons.prems(2) t(2) by (simp add: keeps_held_def)
    from Cons.IH [OF t(1) this r] t(2) show ?thesis by (blast intro: keeps_held_trans)
  qed
qed simp

lemma reapAvailable_inv:
  assumes "store_inv s" "reapAvailableExpiredLocked busy now s = (s', reaped)"
  shows "store_inv s' \<and> keeps_held s s'"
  using assms core_scopes_bound [OF store_invD(1) [OF assms(1)]]
  by (intro reapLoop_inv) (auto simp: reapAvailableExpiredLocked_def)

lemma keeps_held_prune: "keeps_held s (pruneTombstonesLocked now s)"
  by (simp add: keeps_held_def)

lemma reclaim_inv:
  assumes "store_inv s" "reclaimAvailableExpired busy now s = (s', reaped)"
  shows "store_inv s' \<and> keeps_held s s'"
  using reapAvailable_inv [OF store_inv_pruneTombstones [OF assms(1)]] assms(2)
    keeps_held_trans [OF keeps_held_prune]
  unfolding reclaimAvailableExpired_def by blast

lemma ReapExpired_inv [inv_intros]:
  assumes "store_inv s"
  shows "store_inv (fst (ReapExpired busy now s))"
proof -
  obtain s' r where "reclaimAvailableExpired busy now s = (s', r)" by fastforce
  with reclaim_inv [OF assms this] show ?thesis
    by (simp add: ReapExpired_def reapExpiredObserved_def reclaimAvailableExpired_def)
qed

subsection \<open>Acquire\<close>

lemma tomb_inv_new_lease [simp]: "tomb_inv (new_lease p s) = tomb_inv s"
  by (rule tomb_inv_cong) (simp_all add: new_lease_def)

lemma coord_inv_new_lease [simp]: "coord_inv (new_lease p s) = coord_inv s"
  by (rule coord_inv_cong) (simp_all add: new_lease_def)

lemma acquire_retained_inv:
  assumes "store_inv s" "gm_get (st_scopes s) i = Some p"
  shows "store_inv (snd (snd (acquire_retained p profile now s)))"
proof -
  have p: "p < length (st_heap s)" using core_scope(1) [OF store_invD(1) [OF assms(1)] assms(2)] .
  let ?s = "new_lease p (upd_scope p (\<lambda>sc. sc\<lparr>ss_inFlight := Suc (ss_inFlight sc)\<rparr>) s)"
  have "store_core ?s" using store_core_new_lease [OF store_invD(1) [OF assms(1)] assms(2)] .
  moreover have "tomb_inv ?s" "coord_inv ?s"
    using store_invD(2,3) [OF assms(1)] by simp_all
  moreover have "config_ok (st_config ?s)" using store_invD(4) [OF assms(1)] by (simp add: new_lease_def)
  ultimately have "store_inv (touchLocked p now ?s)"
    using p by (intro store_inv_touch store_invI) (simp_all add: new_lease_def)
  moreover have "touchLocked p now (new_lease p t) = new_lease p (touchLocked p now t)" for t
    by (simp add: touchLocked_def new_lease_def upd_scope_def)
  ultimately show ?thesis
    using assms(1) store_inv_reapScope [OF assms(1) p] by (simp add: acquire_retained_def Let_def)
qed

end
