(* ===== verification/PrivacyStoreSteps.thy ===== *)
theory PrivacyStoreSteps
  imports PrivacyStoreInv
begin

text \<open>
  Every operation of the scope store as steps. The invariant is preserved by each critical
  section; \<open>store_step\<close> is the step relation that interleaves them in any order, with any clock
  readings, any candidate callbacks and any set of locked scopes, and the locale
  \<open>invariant_system\<close> turns the preservation lemmas into a fact about every run of it.
\<close>

section \<open>Acquire\<close>

lemma acquire_create_inv:
  assumes inv: "store_inv s" and fresh: "gm_get (st_scopes s) i = None"
    and room: "int (length (st_scopes s)) < cfg_MaxScopes (st_config s)"
  shows "store_inv (acquire_create i profile now s)"
proof (rule store_invI)
  show "store_core (acquire_create i profile now s)"
    using store_core_create [OF store_invD(1) [OF inv] fresh room] store_invD(4) [OF inv]
    by (simp add: config_ok_def)
  have "tomb_inv (acquire_create i profile now s) = tomb_inv s"
    by (rule tomb_inv_cong) (simp_all add: acquire_create_def new_lease_def)
  then show "tomb_inv (acquire_create i profile now s)" using store_invD(2) [OF inv] by simp
  have "coord_inv (acquire_create i profile now s) = coord_inv s"
    by (rule coord_inv_cong) (simp_all add: acquire_create_def new_lease_def)
  then show "coord_inv (acquire_create i profile now s)" using store_invD(3) [OF inv] by simp
  show "config_ok (st_config (acquire_create i profile now s))"
    using store_invD(4) [OF inv] by (simp add: acquire_create_def new_lease_def)
qed

lemma acquireObserved_inv [inv_intros]:
  assumes "store_inv s"
  shows "store_inv (snd (snd (acquireObserved busy i profile now s)))"
proof -
  let ?s = "pruneTombstonesLocked now s"
  have inv: "store_inv ?s" using assms by (rule store_inv_pruneTombstones)
  obtain s2 expired where reap: "reapAvailableExpiredLocked busy now ?s = (s2, expired)" by fastforce
  note s2 = reapAvailable_inv [OF inv reap]
  have "gm_get (st_scopes s) i = None \<Longrightarrow> gm_get (st_scopes s2) i = None"
    using keeps_heldD(6) [of ?s s2 i] s2 by simp
  then show ?thesis
    using assms inv s2 reap acquire_create_inv [of ?s i] acquire_create_inv [of s2 i]
      acquire_retained_inv [OF inv, of i]
    by (simp add: acquireObserved_def Let_def split: option.split)
qed

section \<open>Mappings and relations\<close>

lemma upd_const: "upd_scope p (\<lambda>_. f (st_heap s ! p)) s = upd_scope p f s"
  by (simp add: upd_scope_def)

lemma store_inv_upd_same:
  "store_inv s \<Longrightarrow> p < length (st_heap s) \<Longrightarrow> same_shape (st_heap s ! p) (f (st_heap s ! p)) \<Longrightarrow>
     store_inv (upd_scope p f s)"
  by (simp add: store_inv_def store_core_upd_same)

lemma store_inv_insert:
  assumes "store_inv s" "gm_get (st_scopes s) i = Some p"
    "int (entryCount (st_heap s ! p)) < cfg_MaxEntriesPerScope (st_config s)"
    "reserveEntry s = Some s'"
    "ss_id (f (st_heap s ! p)) = ss_id (st_heap s ! p)" "ss_nil (f (st_heap s ! p)) = ss_nil (st_heap s ! p)"
    "ss_inFlight (f (st_heap s ! p)) = ss_inFlight (st_heap s ! p)"
    "entryCount (f (st_heap s ! p)) = Suc (entryCount (st_heap s ! p))" "scope_ok (f (st_heap s ! p))"
  shows "store_inv (upd_scope p f s')"
proof -
  have s': "s' = s\<lparr>st_total := st_total s + 1\<rparr>" "st_total s < cfg_MaxTotalEntries (st_config s)"
    using assms(4) by (auto simp: reserveEntry_def split: if_splits)
  have "tomb_inv s' = tomb_inv s" "coord_inv s' = coord_inv s"
    unfolding s' by (rule tomb_inv_cong coord_inv_cong; simp)+
  moreover have "store_core (upd_scope p f s')"
    unfolding s' using assms s'(2) store_invD(1) by (intro store_core_insert) auto
  ultimately show ?thesis
    using store_invD [OF assms(1)] s' by (intro store_invI) simp_all
qed

lemma reserve_unreserve: "reserveEntry s = Some s' \<Longrightarrow> unreserveEntry s' = s"
  by (auto simp: reserveEntry_def unreserveEntry_def split: if_splits)

lemma reserve_heap: "reserveEntry s = Some s' \<Longrightarrow> st_heap s' = st_heap s \<and> st_config s' = st_config s"
  by (auto simp: reserveEntry_def split: if_splits)

lemma goc_pass_inv:
  assumes inv: "store_inv s" and p: "gm_get (st_scopes s) i = Some p"
    and pass: "goc_pass p entity original provenance cand now expired s = Some (r, outcome, s')"
  shows "store_inv s' \<and> r \<noteq> Inl PanicNilMap"
proof -
  let ?sc = "st_heap s ! p"
  note core = store_invD(1) [OF inv]
  have plen: "p < length (st_heap s)" and nil: "\<not> ss_nil ?sc" using core_scope [OF core p] by auto
  have ok: "scope_ok ?sc" using core_cell(2) [OF core plen] .
  show ?thesis
  proof (cases "gm_get (ss_forward ?sc) (entity, original)")
    case (Some e)
    let ?f = "\<lambda>sc. snd (promoteInputProvenanceLocked (entity, original) e provenance sc)"
    have "store_inv (upd_scope p ?f s)"
      using inv plen promote_same_shape [OF ok Some] by (rule store_inv_upd_same)
    then have "store_inv (touchLocked p now (upd_scope p ?f s))"
      using plen by (intro store_inv_touch) simp_all
    moreover have "upd_scope p ?f s = upd_scope p (\<lambda>_. ?f ?sc) s" by (rule upd_const [symmetric])
    ultimately show ?thesis
      using pass Some by (auto simp: goc_pass_def Let_def split: prod.splits)
  next
    case None
    show ?thesis
    proof (cases "int (entryCount ?sc) \<ge> cfg_MaxEntriesPerScope (st_config s)")
      case True
      with pass None inv show ?thesis by (auto simp: goc_pass_def)
    next
      case False
      with pass None obtain s1 where s1: "reserveEntry s = Some s1"
        and store: "goc_store p entity original provenance cand now expired s1 = (r, outcome, s')"
        by (auto simp: goc_pass_def split: option.splits)
      have heap: "st_heap s1 = st_heap s" using reserve_heap [OF s1] by simp
      obtain n c where loop: "candidate_loop cand
          (\<lambda>synthetic. gm_get (ss_reverse ?sc) (entity, synthetic) \<noteq> None) 0 = (n, c)" by fastforce
      show ?thesis
      proof (cases c)
        case (Inl err)
        have "err \<noteq> PanicNilMap" using loop Inl candidate_loop_no_panic by metis
        with store loop Inl heap inv reserve_unreserve [OF s1] show ?thesis
          by (auto simp: goc_store_def Let_def)
      next
        case (Inr syn)
        let ?e = "\<lparr>me_Entity = entity, me_Original = original, me_Synthetic = syn,
            me_Provenance = provenance, me_CreatedAt = now\<rparr>"
        let ?f = "\<lambda>sc. sc\<lparr>ss_forward := gm_put (entity, original) ?e (ss_forward sc),
            ss_reverse := gm_put (entity, syn) ?e (ss_reverse sc)\<rparr>"
        have free: "gm_get (ss_reverse ?sc) (entity, syn) = None"
          using candidate_loop_accepts loop Inr by fastforce
        have "store_inv (upd_scope p ?f s1)"
          using inv p False s1 None scope_ok_insert [OF ok None free, of ?e]
          by (intro store_inv_insert) (simp_all add: entryCount_def gm_len_put)
        then have "store_inv (touchLocked p now (upd_scope p ?f s1))"
          using plen heap by (intro store_inv_touch) simp_all
        with store loop Inr heap nil show ?thesis by (auto simp: goc_store_def Let_def)
      qed
    qed
  qed
qed

lemma gor_pass_inv:
  assumes inv: "store_inv s" and p: "gm_get (st_scopes s) i = Some p"
    and pass: "gor_pass p key cand now expired s = Some (r, outcome, s')"
  shows "store_inv s' \<and> r \<noteq> Inl PanicNilMap"
proof -
  let ?sc = "st_heap s ! p"
  note core = store_invD(1) [OF inv]
  have plen: "p < length (st_heap s)" and nil: "\<not> ss_nil ?sc" using core_scope [OF core p] by auto
  have ok: "scope_ok ?sc" using core_cell(2) [OF core plen] .
  show ?thesis
  proof (cases "gm_get (ss_relations ?sc) key")
    case (Some v)
    with pass inv plen show ?thesis by (auto simp: gor_pass_def Let_def intro: store_inv_touch)
  next
    case None
    show ?thesis
    proof (cases "int (entryCount ?sc) \<ge> cfg_MaxEntriesPerScope (st_config s)")
      case True
      with pass None inv show ?thesis by (auto simp: gor_pass_def)
    next
      case False
      with pass None obtain s1 where s1: "reserveEntry s = Some s1"
        and store: "gor_store p key cand now expired s1 = (r, outcome, s')"
        by (auto simp: gor_pass_def split: option.splits)
      have heap: "st_heap s1 = st_heap s" using reserve_heap [OF s1] by simp
      obtain n c where loop: "candidate_loop cand (relation_taken ?sc key) 0 = (n, c)" by fastforce
      show ?thesis
      proof (cases c)
        case (Inl err)
        have "err \<noteq> PanicNilMap" using loop Inl candidate_loop_no_panic by metis
        with store loop Inl heap inv reserve_unreserve [OF s1] show ?thesis
          by (auto simp: gor_store_def Let_def)
      next
        case (Inr v)
        let ?f = "\<lambda>sc. sc\<lparr>ss_relations := gm_put key v (ss_relations sc)\<rparr>"
        have free: "\<not> relation_taken ?sc key v" using candidate_loop_accepts loop Inr by metis
        have "store_inv (upd_scope p ?f s1)"
          using inv p False s1 None scope_ok_insert_relation [OF ok None free]
          by (intro store_inv_insert) (simp_all add: entryCount_def gm_len_put)
        then have "store_inv (touchLocked p now (upd_scope p ?f s1))"
          using plen heap by (intro store_inv_touch) simp_all
        with store loop Inr heap nil show ?thesis by (auto simp: gor_store_def Let_def)
      qed
    qed
  qed
qed

section \<open>Lookups, release and clearing\<close>

lemma live_lease_scope:
  assumes "store_inv s" "l < length (st_leases s)" "lockOperation l s"
  shows "lease_ptr s l < length (st_heap s)"
    "gm_get (st_scopes s) (ss_id (st_heap s ! lease_ptr s l)) = Some (lease_ptr s l)"
    "0 < ss_inFlight (st_heap s ! lease_ptr s l)"
proof -
  note ptr = core_lease [OF store_invD(1) [OF assms(1)] assms(2,3)]
  then show "lease_ptr s l < length (st_heap s)"
    "gm_get (st_scopes s) (ss_id (st_heap s ! lease_ptr s l)) = Some (lease_ptr s l)" by auto
  have "st_leases s ! l = (lease_ptr s l, False)"
    using assms(3) by (simp add: lockOperation_def lease_ptr_def prod_eq_iff)
  then have "(lease_ptr s l, False) \<in> set (st_leases s)" using assms(2) nth_mem by metis
  then have "0 < live_leases s (lease_ptr s l)"
    by (metis live_leases_def count_list_0_iff neq0_conv)
  with core_cell(1) [OF store_invD(1) [OF assms(1)] ptr(1)]
  show "0 < ss_inFlight (st_heap s ! lease_ptr s l)" by simp
qed

lemma ResolveSynthetic_inv [inv_intros]:
  "store_inv s \<Longrightarrow> l < length (st_leases s) \<Longrightarrow> store_inv (snd (ResolveSynthetic l entity synthetic now s))"
  by (auto simp: ResolveSynthetic_def intro: store_inv_touch live_lease_scope split: option.split)

lemma ResolveOriginal_inv [inv_intros]:
  "store_inv s \<Longrightarrow> l < length (st_leases s) \<Longrightarrow> store_inv (snd (ResolveOriginal l entity original now s))"
  by (auto simp: ResolveOriginal_def intro: store_inv_touch live_lease_scope split: option.split)

lemma release_drop_inv [inv_intros]:
  assumes inv: "store_inv s" and l: "l < length (st_leases s)"
  shows "store_inv (fst (release_drop l s))"
proof (rule store_invI)
  show "store_core (fst (release_drop l s))"
    using store_core_release [OF store_invD(1) [OF inv] l] .
  have "tomb_inv (fst (release_drop l s)) = tomb_inv s"
    by (rule tomb_inv_cong) (simp_all add: release_drop_def Let_def)
  then show "tomb_inv (fst (release_drop l s))" using store_invD(2) [OF inv] by simp
  have "coord_inv (fst (release_drop l s)) = coord_inv s"
    by (rule coord_inv_cong) (simp_all add: release_drop_def Let_def)
  then show "coord_inv (fst (release_drop l s))" using store_invD(3) [OF inv] by simp
  show "config_ok (st_config (fst (release_drop l s)))"
    using store_invD(4) [OF inv] by (simp add: release_drop_def Let_def)
qed

lemma finalizeClosed_inv [inv_intros]: "store_inv s \<Longrightarrow> store_inv (finalizeClosed p now s)"
  by (simp add: finalizeClosed_def Let_def store_inv_wipe)

lemma lease_Release_inv [inv_intros]:
  "store_inv s \<Longrightarrow> l < length (st_leases s) \<Longrightarrow> store_inv (lease_Release l now s)"
  using release_drop_inv [of s l] by (auto simp: lease_Release_def intro: finalizeClosed_inv split: prod.split)

lemma Clear_inv [inv_intros]:
  assumes "store_inv s"
  shows "store_inv (snd (Clear scopeID now s))"
proof (cases "gm_get (st_scopes s) scopeID")
  case None
  with store_inv_pruneTombstones [OF assms] show ?thesis by (simp add: Clear_def Let_def)
next
  case (Some p)
  let ?s = "pruneTombstonesLocked now s"
  have inv: "store_inv ?s" by (rule store_inv_pruneTombstones [OF assms])
  have p: "p < length (st_heap ?s)" using core_scope(1) [OF store_invD(1) [OF assms] Some] by simp
  let ?s1 = "upd_scope p (\<lambda>sc. sc\<lparr>ss_state := lifecycleClosing\<rparr>) ?s"
  have "store_inv ?s1" using inv p by (rule store_inv_close)
  with Some store_inv_wipe [of ?s1 p now] show ?thesis by (simp add: Clear_def Let_def)
qed

lemma clear_each_inv: "store_inv s \<Longrightarrow> store_inv (snd (clear_each clock k ids (summary, s)))"
proof (induction ids arbitrary: k summary s)
  case (Cons i ids)
  obtain r s' where c: "Clear i (clock k) s = (r, s')" by fastforce
  with Clear_inv [OF Cons.prems, of i "clock k"] have "store_inv s'" by simp
  with Cons.IH c show ?case by (auto split: sum.split ClearResult.split)
qed simp

lemma store_inv_shutdown: "store_inv (s\<lparr>st_shutdown := b\<rparr>) = store_inv s"
  unfolding store_inv_def
  by (subst store_core_cong [of _ s], simp_all, subst tomb_inv_cong [of _ s], simp_all,
      subst coord_inv_cong [of _ s], simp_all)

lemma clearAll_inv [inv_intros]: "store_inv s \<Longrightarrow> store_inv (snd (clearAll shutdown clock s))"
  unfolding clearAll_def clearAll_begin_def Let_def split
  by (rule clear_each_inv) (simp add: store_inv_shutdown)

section \<open>Coordinate rotations\<close>

lemma coord_invI:
  assumes "gm_ok (st_coordByScope s)" "gm_ok (st_coordByIndex s)"
    "\<And>i x. gm_get (st_coordByScope s) i = Some x \<Longrightarrow> gm_get (st_coordByIndex s) x = Some i"
    "\<And>i x. gm_get (st_coordByIndex s) x = Some i \<Longrightarrow> gm_get (st_coordByScope s) i = Some x"
  shows "coord_inv s"
  unfolding coord_inv_def using assms by blast

lemma coord_invD:
  assumes "coord_inv s"
  shows "gm_ok (st_coordByScope s)" "gm_ok (st_coordByIndex s)"
    "\<And>i x. gm_get (st_coordByScope s) i = Some x \<Longrightarrow> gm_get (st_coordByIndex s) x = Some i"
    "\<And>i x. gm_get (st_coordByIndex s) x = Some i \<Longrightarrow> gm_get (st_coordByScope s) i = Some x"
  using assms unfolding coord_inv_def by blast+

lemma coord_inv_remove:
  assumes "coord_inv s" "gm_get (st_coordByScope s) i = Some x"
  shows "coord_inv (s\<lparr>st_coordByScope := gm_del i (st_coordByScope s), st_coordByIndex := gm_del x (st_coordByIndex s)\<rparr>)"
proof (rule coord_invI)
  note d = coord_invD [OF assms(1)]
  fix j y
  { assume "gm_get (st_coordByScope (s\<lparr>st_coordByScope := gm_del i (st_coordByScope s), st_coordByIndex := gm_del x (st_coordByIndex s)\<rparr>)) j = Some y"
    then have "j \<noteq> i" "gm_get (st_coordByScope s) j = Some y" by (auto split: if_splits)
    with d(3) [of j y] d(3) [OF assms(2)]
    show "gm_get (st_coordByIndex (s\<lparr>st_coordByScope := gm_del i (st_coordByScope s), st_coordByIndex := gm_del x (st_coordByIndex s)\<rparr>)) y = Some j"
      by auto }
  { assume "gm_get (st_coordByIndex (s\<lparr>st_coordByScope := gm_del i (st_coordByScope s), st_coordByIndex := gm_del x (st_coordByIndex s)\<rparr>)) y = Some j"
    then have "y \<noteq> x" "gm_get (st_coordByIndex s) y = Some j" by (auto split: if_splits)
    with d(4) [of y j] assms(2)
    show "gm_get (st_coordByScope (s\<lparr>st_coordByScope := gm_del i (st_coordByScope s), st_coordByIndex := gm_del x (st_coordByIndex s)\<rparr>)) j = Some y"
      by auto }
qed (use coord_invD(1,2) [OF assms(1)] in simp_all)

lemma coord_inv_add:
  assumes "coord_inv s" "gm_get (st_coordByScope s) i = None" "gm_get (st_coordByIndex s) x = None"
  shows "coord_inv (s\<lparr>st_coordByScope := gm_put i x (st_coordByScope s), st_coordByIndex := gm_put x i (st_coordByIndex s)\<rparr>)"
proof (rule coord_invI)
  note d = coord_invD [OF assms(1)]
  fix j y
  { assume a: "gm_get (st_coordByScope (s\<lparr>st_coordByScope := gm_put i x (st_coordByScope s), st_coordByIndex := gm_put x i (st_coordByIndex s)\<rparr>)) j = Some y"
    show "gm_get (st_coordByIndex (s\<lparr>st_coordByScope := gm_put i x (st_coordByScope s), st_coordByIndex := gm_put x i (st_coordByIndex s)\<rparr>)) y = Some j"
      using a d(3) [of j y] assms(3) by (cases "j = i") auto }
  { assume a: "gm_get (st_coordByIndex (s\<lparr>st_coordByScope := gm_put i x (st_coordByScope s), st_coordByIndex := gm_put x i (st_coordByIndex s)\<rparr>)) y = Some j"
    show "gm_get (st_coordByScope (s\<lparr>st_coordByScope := gm_put i x (st_coordByScope s), st_coordByIndex := gm_put x i (st_coordByIndex s)\<rparr>)) j = Some y"
      using a d(4) [of y j] assms(2) by (cases "y = x") auto }
qed (use coord_invD(1,2) [OF assms(1)] in simp_all)

lemma pruneCoordinates_frame [simp]:
  "st_scopes (pruneCoordinates R xs s) = st_scopes s" "st_tombs (pruneCoordinates R xs s) = st_tombs s"
  "st_config (pruneCoordinates R xs s) = st_config s" "st_leases (pruneCoordinates R xs s) = st_leases s"
  "st_total (pruneCoordinates R xs s) = st_total s" "st_heap (pruneCoordinates R xs s) = st_heap s"
  "st_ring (pruneCoordinates R xs s) = st_ring s" "st_head (pruneCoordinates R xs s) = st_head s"
  "st_tlen (pruneCoordinates R xs s) = st_tlen s"
  by (induction R xs s rule: pruneCoordinates.induct) simp_all

text \<open>The registry is a bijection, and pruning removes the pairs of scopes that are gone.\<close>

lemma pruneCoordinates_coord:
  assumes "coord_inv s" "\<forall>(i, x) \<in> set xs. gm_get (st_coordByScope s) i = Some x" "distinct (map fst xs)"
  shows "coord_inv (pruneCoordinates R xs s)"
  using assms
proof (induction R xs s rule: pruneCoordinates.induct)
  case (2 R i x rest s)
  let ?s = "s\<lparr>st_coordByScope := gm_del i (st_coordByScope s), st_coordByIndex := gm_del x (st_coordByIndex s)\<rparr>"
  have ix: "gm_get (st_coordByScope s) i = Some x" using "2.prems" by simp
  have "coord_inv ?s"
    using "2.prems"(1) ix by (rule coord_inv_remove)
  moreover have "\<forall>(j, y) \<in> set rest. gm_get (st_coordByScope ?s) j = Some y"
    using "2.prems"(2,3) by (auto simp: rev_image_eqI)
  ultimately show ?case using "2" by auto
qed simp

lemma pruneCoordinateRotations_inv:
  assumes inv: "store_inv s" and r: "pruneCoordinateRotationsLocked scopeID s = (e, s')"
  shows "store_inv s'"
proof -
  have s': "s' = pruneCoordinates (set (map fst (st_scopes s))) (st_coordByScope s) s"
    using r by (simp add: pruneCoordinateRotationsLocked_def Let_def split: if_splits)
  have gok: "gm_ok (st_coordByScope s)" using store_invD(3) [OF inv] by (simp add: coord_inv_def)
  have "coord_inv s'"
    unfolding s' by (rule pruneCoordinates_coord)
      (use store_invD(3) [OF inv] gok map_of_is_SomeI [OF gok] in auto)
  moreover have "store_core s' = store_core s" "tomb_inv s' = tomb_inv s"
    unfolding s' by (rule store_core_cong, simp_all) (rule tomb_inv_cong, simp_all)
  ultimately show ?thesis
    using store_invD [OF inv] by (intro store_invI) (simp_all add: s')
qed

lemma coordinate_check_inv:
  "store_inv s \<Longrightarrow> coordinate_check scopeID s = (r, s') \<Longrightarrow> store_inv s'"
  by (auto simp: coordinate_check_def split: prod.splits option.splits intro: pruneCoordinateRotations_inv)

lemma store_inv_register:
  assumes "store_inv s" "gm_get (st_coordByScope s) i = None" "gm_get (st_coordByIndex s) x = None"
  shows "store_inv (s\<lparr>st_coordByScope := gm_put i x (st_coordByScope s),
      st_coordByIndex := gm_put x i (st_coordByIndex s)\<rparr>)"
proof -
  have "store_core (s\<lparr>st_coordByScope := a, st_coordByIndex := b\<rparr>) = store_core s"
    "tomb_inv (s\<lparr>st_coordByScope := a, st_coordByIndex := b\<rparr>) = tomb_inv s" for a b
    by (rule store_core_cong, simp_all) (rule tomb_inv_cong, simp_all)
  with coord_inv_add [OF store_invD(3) [OF assms(1)] assms(2,3)] store_invD [OF assms(1)]
  show ?thesis by (intro store_invI) simp_all
qed

lemma coordinate_register_inv:
  assumes "store_inv s" "coordinate_register scopeID index s = (r, s')"
  shows "store_inv s'"
proof -
  obtain c s1 where c: "coordinate_check scopeID s = (c, s1)" by fastforce
  have s1: "store_inv s1" using assms(1) c by (rule coordinate_check_inv)
  have "c = None \<Longrightarrow> gm_get (st_coordByScope s1) scopeID = None"
    using c by (auto simp: coordinate_check_def split: prod.splits option.splits)
  with assms(2) c s1 show ?thesis
    by (auto simp: coordinate_register_def intro: store_inv_register split: option.splits if_splits)
qed

lemma coordinate_loop_inv:
  "store_inv s \<Longrightarrow> coordinate_loop scopeID cand attempt s = (r, n, s') \<Longrightarrow> store_inv s'"
proof (induction scopeID cand attempt s rule: coordinate_loop.induct)
  case (1 scopeID cand attempt s)
  obtain c s1 where c: "coordinate_check scopeID s = (c, s1)" by fastforce
  have s1: "store_inv s1" using "1.prems"(1) c by (rule coordinate_check_inv)
  have s2: "coordinate_register scopeID index s1 = (r', s2) \<Longrightarrow> store_inv s2" for index r' s2
    using s1 by (rule coordinate_register_inv)
  show ?case
    using "1.prems"(2) c s1 s2 "1.IH"
    by (subst (asm) coordinate_loop.simps) (auto split: option.splits sum.splits if_splits prod.splits)
qed

section \<open>The step relation\<close>

text \<open>
  One step is one critical section, of any thread, with any arguments. A lease operation is
  only entered on a lease that is not released (\<open>lockOperation\<close>); the read lock it takes keeps
  \<open>Release\<close> out until the operation is over.
\<close>

inductive store_step :: "ScopeStore \<Rightarrow> ScopeStore \<Rightarrow> bool" where
  step_Acquire: "acquireObserved busy i profile now s = (r, expired, t) \<Longrightarrow> store_step s t"
| step_Mapping: "l < length (st_leases s) \<Longrightarrow> lockOperation l s \<Longrightarrow>
    goc_pass (lease_ptr s l) entity original provenance cand now expired s = Some (r1, outcome, t) \<Longrightarrow>
    store_step s t"
| step_Relation: "l < length (st_leases s) \<Longrightarrow> lockOperation l s \<Longrightarrow>
    gor_pass (lease_ptr s l) key cand now expired s = Some (r2, outcome, t) \<Longrightarrow> store_step s t"
| step_Reclaim: "reclaimAvailableExpired busy now s = (t, expired) \<Longrightarrow> store_step s t"
| step_ResolveSynthetic: "l < length (st_leases s) \<Longrightarrow>
    ResolveSynthetic l entity synthetic now s = (e, t) \<Longrightarrow> store_step s t"
| step_ResolveOriginal: "l < length (st_leases s) \<Longrightarrow>
    ResolveOriginal l entity original now s = (e, t) \<Longrightarrow> store_step s t"
| step_Release: "l < length (st_leases s) \<Longrightarrow> release_drop l s = (t, fin) \<Longrightarrow> store_step s t"
| step_Finalize: "p < length (st_heap s) \<Longrightarrow> t = finalizeClosed p now s \<Longrightarrow> store_step s t"
| step_Clear: "Clear i now s = (r3, t) \<Longrightarrow> store_step s t"
| step_Shutdown: "t = s\<lparr>st_shutdown := True\<rparr> \<Longrightarrow> store_step s t"
| step_CoordinateCheck: "coordinate_check i s = (r4, t) \<Longrightarrow> store_step s t"
| step_CoordinateRegister: "coordinate_register i x s = (r5, t) \<Longrightarrow> store_step s t"

definition store_start :: "ScopeStore \<Rightarrow> bool" where
  "store_start s \<longleftrightarrow> (\<exists>config. NewScopeStore config True = Inr s)"

lemma store_start_inv: "store_start s \<Longrightarrow> store_inv s"
  by (auto simp: store_start_def NewScopeStore_def store_inv_def store_core_def tomb_inv_def
      coord_inv_def config_ok_def live_leases_def tombstoneCapacity_def Let_def split: if_splits)

lemma store_step_inv:
  assumes inv: "store_inv s" and "store_step s t"
  shows "store_inv t"
  using assms(2)
proof cases
  case step_Acquire
  then show ?thesis using acquireObserved_inv [OF inv] by (metis snd_conv)
next
  case step_Mapping
  then show ?thesis using goc_pass_inv [OF inv live_lease_scope(2) [OF inv]] by blast
next
  case step_Relation
  then show ?thesis using gor_pass_inv [OF inv live_lease_scope(2) [OF inv]] by blast
next
  case step_Reclaim
  then show ?thesis using reclaim_inv [OF inv] by (metis fst_conv)
next
  case step_ResolveSynthetic
  then show ?thesis using ResolveSynthetic_inv [OF inv] by (metis snd_conv)
next
  case step_ResolveOriginal
  then show ?thesis using ResolveOriginal_inv [OF inv] by (metis snd_conv)
next
  case step_Release
  then show ?thesis using release_drop_inv [OF inv] by (metis fst_conv)
next
  case step_Finalize
  then show ?thesis using finalizeClosed_inv [OF inv] by blast
next
  case step_Clear
  then show ?thesis using Clear_inv [OF inv] by (metis snd_conv)
next
  case step_Shutdown
  then show ?thesis using inv by (simp add: store_inv_shutdown)
next
  case step_CoordinateCheck
  then show ?thesis using coordinate_check_inv [OF inv] by blast
next
  case step_CoordinateRegister
  then show ?thesis using coordinate_register_inv [OF inv] by blast
qed

interpretation store_sys: invariant_system store_start store_step store_inv
  by unfold_locales (auto intro: store_start_inv store_step_inv)

end
