(* ===== verification/PrivacyLedger.thy ===== *)
theory PrivacyLedger
  imports PrivacyStoreSteps
begin

text \<open>
  What a run of the scope store keeps. \<open>ledger_le\<close> compares two versions of a scope: every
  mapping keeps its synthetic value (its provenance may be promoted) and every relation its
  value. \<open>store_le\<close> says that along a run the configuration is fixed, a shutdown is never
  taken back, a lease never changes its scope nor becomes live again, and the ledger behind
  a lease that is still live only grows. Each step of the store satisfies it, and the locale
  \<open>monotone_system\<close> extends it to runs.
\<close>

section \<open>Growing ledgers\<close>

definition same_mapping :: "MappingEntry \<Rightarrow> MappingEntry \<Rightarrow> bool" where
  "same_mapping e e' \<longleftrightarrow> me_Entity e' = me_Entity e \<and> me_Original e' = me_Original e \<and>
     me_Synthetic e' = me_Synthetic e \<and> me_CreatedAt e' = me_CreatedAt e"

definition ledger_le :: "scopeState \<Rightarrow> scopeState \<Rightarrow> bool" where
  "ledger_le sc sc' \<longleftrightarrow>
     ss_id sc' = ss_id sc \<and>
     (\<forall>k e. gm_get (ss_forward sc) k = Some e \<longrightarrow>
        (\<exists>e'. gm_get (ss_forward sc') k = Some e' \<and> same_mapping e e')) \<and>
     (\<forall>k v. gm_get (ss_relations sc) k = Some v \<longrightarrow> gm_get (ss_relations sc') k = Some v)"

lemma same_mapping_refl [simp]: "same_mapping e e"
  by (simp add: same_mapping_def)

lemma ledger_leI:
  assumes "ss_id sc' = ss_id sc"
    "\<And>k e. gm_get (ss_forward sc) k = Some e \<Longrightarrow> \<exists>e'. gm_get (ss_forward sc') k = Some e' \<and> same_mapping e e'"
    "\<And>k v. gm_get (ss_relations sc) k = Some v \<Longrightarrow> gm_get (ss_relations sc') k = Some v"
  shows "ledger_le sc sc'"
  unfolding ledger_le_def using assms by blast

lemma ledger_le_fwd:
  "ledger_le sc sc' \<Longrightarrow> gm_get (ss_forward sc) k = Some e \<Longrightarrow>
     \<exists>e'. gm_get (ss_forward sc') k = Some e' \<and> same_mapping e e'"
  unfolding ledger_le_def by blast

lemma ledger_le_same:
  "ss_id sc' = ss_id sc \<Longrightarrow> ss_forward sc' = ss_forward sc \<Longrightarrow> ss_relations sc' = ss_relations sc \<Longrightarrow>
     ledger_le sc sc'"
  by (simp add: ledger_le_def)

lemma ledger_le_refl [simp]: "ledger_le sc sc"
  by (rule ledger_le_same) simp_all

lemma ledger_le_touch [simp]: "ledger_le sc (sc'\<lparr>ss_lastUsed := a, ss_expiresAt := b\<rparr>) = ledger_le sc sc'"
  by (simp add: ledger_le_def)

lemma ledger_le_trans: "ledger_le a b \<Longrightarrow> ledger_le b c \<Longrightarrow> ledger_le a c"
  by (rule ledger_leI) (fastforce simp: ledger_le_def same_mapping_def)+

lemma ledger_le_promote:
  "gm_get (ss_forward sc) k = Some e \<Longrightarrow> ledger_le sc (snd (promoteInputProvenanceLocked k e obs sc))"
  by (rule ledger_leI) (auto simp: promoteInputProvenanceLocked_def Let_def same_mapping_def)

section \<open>The relation on stores\<close>

definition store_le :: "ScopeStore \<Rightarrow> ScopeStore \<Rightarrow> bool" where
  "store_le s t \<longleftrightarrow>
     st_config t = st_config s \<and> (st_shutdown s \<longrightarrow> st_shutdown t) \<and>
     length (st_leases s) \<le> length (st_leases t) \<and>
     (\<forall>l < length (st_leases s). lease_ptr t l = lease_ptr s l \<and>
        (lockOperation l t \<longrightarrow> lockOperation l s \<and>
           ledger_le (st_heap s ! lease_ptr s l) (st_heap t ! lease_ptr s l)))"

lemma store_leI:
  assumes "st_config t = st_config s" "st_shutdown s \<Longrightarrow> st_shutdown t"
    "length (st_leases s) \<le> length (st_leases t)"
    "\<And>l. l < length (st_leases s) \<Longrightarrow> lease_ptr t l = lease_ptr s l"
    "\<And>l. l < length (st_leases s) \<Longrightarrow> lockOperation l t \<Longrightarrow> lockOperation l s"
    "\<And>l. l < length (st_leases s) \<Longrightarrow> lockOperation l t \<Longrightarrow>
       ledger_le (st_heap s ! lease_ptr s l) (st_heap t ! lease_ptr s l)"
  shows "store_le s t"
  unfolding store_le_def using assms by blast

lemma store_leD:
  assumes "store_le s t"
  shows "st_config t = st_config s" "st_shutdown s \<Longrightarrow> st_shutdown t"
    "length (st_leases s) \<le> length (st_leases t)"
    "\<And>l. l < length (st_leases s) \<Longrightarrow> lease_ptr t l = lease_ptr s l"
    "\<And>l. l < length (st_leases s) \<Longrightarrow> lockOperation l t \<Longrightarrow> lockOperation l s"
    "\<And>l. l < length (st_leases s) \<Longrightarrow> lockOperation l t \<Longrightarrow>
       ledger_le (st_heap s ! lease_ptr s l) (st_heap t ! lease_ptr s l)"
  using assms unfolding store_le_def by blast+

lemma store_le_refl [simp]: "store_le s s"
  by (rule store_leI) simp_all

lemma store_le_trans: "store_le s t \<Longrightarrow> store_le t u \<Longrightarrow> store_le s u"
proof (rule store_leI)
  assume st: "store_le s t" and tu: "store_le t u"
  note s = store_leD [OF st] and t = store_leD [OF tu]
  show "st_config u = st_config s" "st_shutdown s \<Longrightarrow> st_shutdown u"
    "length (st_leases s) \<le> length (st_leases u)"
    using s(1,2,3) t(1,2,3) by simp_all
  fix l assume l: "l < length (st_leases s)"
  then have lt: "l < length (st_leases t)" using s(3) by simp
  show "lease_ptr u l = lease_ptr s l" using s(4) [OF l] t(4) [OF lt] by simp
  assume u: "lockOperation l u"
  then have "lockOperation l t" by (rule t(5) [OF lt])
  then show "lockOperation l s" "ledger_le (st_heap s ! lease_ptr s l) (st_heap u ! lease_ptr s l)"
    using s(5,6) [OF l] t(6) [OF lt u] s(4) [OF l] by (auto intro: ledger_le_trans)
qed

lemma lease_same:
  assumes "st_leases t = st_leases s"
  shows "lease_ptr t l = lease_ptr s l" "lockOperation l t = lockOperation l s"
  using assms by (simp_all add: lease_ptr_def lockOperation_def)

text \<open>A step that leaves the leases alone only has to keep the ledgers of held scopes.\<close>

lemma store_le_held:
  assumes inv: "store_inv s" and "st_leases t = st_leases s" "st_config t = st_config s"
    "st_shutdown s \<Longrightarrow> st_shutdown t"
    and held: "\<And>p. p < length (st_heap s) \<Longrightarrow> 0 < ss_inFlight (st_heap s ! p) \<Longrightarrow>
      ledger_le (st_heap s ! p) (st_heap t ! p)"
  shows "store_le s t"
proof (rule store_leI)
  fix l assume l: "l < length (st_leases s)" "lockOperation l t"
  then show s: "lockOperation l s" by (simp add: lease_same [OF assms(2)])
  show "ledger_le (st_heap s ! lease_ptr s l) (st_heap t ! lease_ptr s l)"
    using live_lease_scope [OF inv l(1) s] by (intro held)
qed (use assms(2,3,4) in \<open>simp_all add: lease_same [OF assms(2)]\<close>)

lemma store_le_keeps_held: "store_inv s \<Longrightarrow> keeps_held s t \<Longrightarrow> store_le s t"
  by (rule store_le_held) (simp_all add: keeps_heldD)

lemma store_le_heap:
  assumes "st_leases t = st_leases s" "st_config t = st_config s" "st_shutdown s \<Longrightarrow> st_shutdown t"
    "st_heap t = st_heap s"
  shows "store_le s t"
  by (rule store_leI) (use assms(2,3,4) in \<open>simp_all add: assms(1) lease_same [OF assms(1)]\<close>)

lemma store_le_upd:
  assumes "store_inv s" "ledger_le (st_heap s ! p) (f (st_heap s ! p))"
  shows "store_le s (upd_scope p f s)"
  by (rule store_le_held [OF assms(1)]) (use assms(2) in \<open>simp_all add: upd_scope_heap\<close>)

lemma store_le_touch: "store_inv s \<Longrightarrow> store_le s (touchLocked p now s)"
  unfolding touchLocked_def by (rule store_le_upd) (simp_all add: ledger_le_same)

lemma store_le_new_lease: "store_le s (new_lease p s)"
  by (rule store_leI) (simp_all add: new_lease_def lease_ptr_def lockOperation_def nth_append)

section \<open>Every step keeps it\<close>

lemma store_le_create: "store_inv s \<Longrightarrow> store_le s (acquire_create i profile now s)"
  unfolding acquire_create_def
  by (rule store_le_trans [OF store_le_held store_le_new_lease]) (simp_all add: nth_append)

lemma store_le_retained:
  assumes inv: "store_inv s" and p: "gm_get (st_scopes s) i = Some p"
  shows "store_le s (snd (snd (acquire_retained p profile now s)))"
proof -
  note core = store_invD(1) [OF inv]
  let ?s = "upd_scope p (\<lambda>sc. sc\<lparr>ss_inFlight := Suc (ss_inFlight sc)\<rparr>) s"
  have "store_le s (new_lease p (touchLocked p now ?s))"
  proof (rule store_le_trans [OF _ store_le_new_lease], rule store_le_held [OF inv])
    fix q assume "q < length (st_heap s)"
    then show "ledger_le (st_heap s ! q) (st_heap (touchLocked p now ?s) ! q)"
      by (simp add: touchLocked_def upd_scope_heap ledger_le_same)
  qed simp_all
  moreover have "ss_inFlight (st_heap s ! p) = 0 \<Longrightarrow> store_le s (reapScope p now s)"
    using inv core core_scope(1) [OF core p]
    by (intro store_le_keeps_held keeps_held_reapScope) simp_all
  ultimately show ?thesis by (simp add: acquire_retained_def Let_def)
qed

lemma store_le_prune: "store_le s (pruneTombstonesLocked now s)"
  by (rule store_le_heap) simp_all

lemma store_le_acquire:
  assumes inv: "store_inv s"
  shows "store_le s (snd (snd (acquireObserved busy i profile now s)))"
proof -
  let ?s = "pruneTombstonesLocked now s"
  have inv': "store_inv ?s" using inv by (rule store_inv_pruneTombstones)
  obtain s2 expired where reap: "reapAvailableExpiredLocked busy now ?s = (s2, expired)" by fastforce
  have s2: "store_inv s2" "store_le ?s s2"
    using reapAvailable_inv [OF inv' reap] store_le_keeps_held [OF inv'] by auto
  have "store_le ?s (snd (snd (acquireObserved busy i profile now s)))" if "validProfile profile"
    using that inv' reap s2 store_le_create [OF inv'] store_le_trans [OF s2(2) store_le_create [OF s2(1)]]
      store_le_retained [OF inv', of i]
    by (simp add: acquireObserved_def Let_def split: option.split)
  then show ?thesis
    using store_le_trans [OF store_le_prune] by (cases "validProfile profile") (auto simp: acquireObserved_def)
qed

text \<open>A pass of \<open>getOrCreateObserved\<close>: an existing entry, an error that changes nothing, or a new entry.\<close>

lemma goc_pass_cases:
  assumes "goc_pass p entity original provenance cand now expired s = Some (r, outcome, s')"
  obtains (known) e where "gm_get (ss_forward (st_heap s ! p)) (entity, original) = Some e"
      "r = Inr (fst (promoteInputProvenanceLocked (entity, original) e provenance (st_heap s ! p)))"
      "s' = touchLocked p now (upd_scope p (\<lambda>sc. snd (promoteInputProvenanceLocked (entity, original) e provenance sc)) s)"
      "\<not> mo_created outcome"
  | (failed) err where "r = Inl err" "s' = s"
  | (stored) s1 n syn e where "gm_get (ss_forward (st_heap s ! p)) (entity, original) = None"
      "\<not> ss_nil (st_heap s ! p)" "reserveEntry s = Some s1"
      "int (entryCount (st_heap s ! p)) < cfg_MaxEntriesPerScope (st_config s)"
      "candidate_loop cand (\<lambda>synthetic. gm_get (ss_reverse (st_heap s ! p)) (entity, synthetic) \<noteq> None) 0 = (n, Inr syn)"
      "e = \<lparr>me_Entity = entity, me_Original = original, me_Synthetic = syn,
            me_Provenance = provenance, me_CreatedAt = now\<rparr>"
      "r = Inr e" "mo_created outcome"
      "s' = touchLocked p now (upd_scope p (\<lambda>sc. sc\<lparr>
            ss_forward := gm_put (entity, original) e (ss_forward sc),
            ss_reverse := gm_put (entity, syn) e (ss_reverse sc)\<rparr>) s1)"
proof (cases "gm_get (ss_forward (st_heap s ! p)) (entity, original)")
  case (Some e)
  with assms show ?thesis
    by (intro known [of e]) (auto simp: goc_pass_def Let_def upd_scope_def zero_outcome_def split: prod.splits)
next
  case None
  show ?thesis
  proof (cases "int (entryCount (st_heap s ! p)) \<ge> cfg_MaxEntriesPerScope (st_config s)")
    case True
    with assms None show ?thesis by (intro failed) (auto simp: goc_pass_def)
  next
    case False
    with assms None obtain s1 where s1: "reserveEntry s = Some s1"
      and store: "goc_store p entity original provenance cand now expired s1 = (r, outcome, s')"
      by (auto simp: goc_pass_def split: option.splits)
    note heap = reserve_heap [OF s1] and undo = reserve_unreserve [OF s1]
    obtain n c where loop: "candidate_loop cand
        (\<lambda>synthetic. gm_get (ss_reverse (st_heap s ! p)) (entity, synthetic) \<noteq> None) 0 = (n, c)" by fastforce
    show ?thesis
    proof (cases "\<exists>syn. c = Inr syn \<and> \<not> ss_nil (st_heap s ! p)")
      case True
      then obtain syn where "c = Inr syn" "\<not> ss_nil (st_heap s ! p)" by blast
      with store loop heap s1 None False show ?thesis
        by (intro stored [of s1 n syn]) (auto simp: goc_store_def Let_def)
    next
      case False
      with store loop heap undo show ?thesis
        by (cases c) (auto simp: goc_store_def Let_def intro: failed)
    qed
  qed
qed

lemma store_le_goc:
  assumes inv: "store_inv s" "gm_get (st_scopes s) i = Some p"
    and pass: "goc_pass p entity original provenance cand now expired s = Some (r, outcome, s')"
  shows "store_le s s'"
  using pass
proof (cases rule: goc_pass_cases)
  case (known e)
  show ?thesis
    unfolding known(3)
  proof (rule store_le_held [OF inv(1)])
    fix q assume "q < length (st_heap s)"
    with ledger_le_promote [OF known(1)]
    show "ledger_le (st_heap s ! q) (st_heap (touchLocked p now (upd_scope p (\<lambda>sc.
        snd (promoteInputProvenanceLocked (entity, original) e provenance sc)) s)) ! q)"
      by (simp add: touchLocked_def upd_scope_heap)
  qed simp_all
next
  case (stored s1 n syn e)
  have s1: "st_heap s1 = st_heap s" "st_leases s1 = st_leases s" "st_config s1 = st_config s"
    "st_shutdown s1 = st_shutdown s"
    using stored(3) by (auto simp: reserveEntry_def split: if_splits)
  show ?thesis
  proof (rule store_le_held [OF inv(1)])
    fix q assume "q < length (st_heap s)"
    with s1 stored(1) show "ledger_le (st_heap s ! q) (st_heap s' ! q)"
      unfolding stored(9) by (auto simp: touchLocked_def upd_scope_heap intro!: ledger_leI)
  qed (use s1 in \<open>simp_all add: stored(9)\<close>)
qed simp

lemma gor_pass_cases:
  assumes "gor_pass p key cand now expired s = Some (r, outcome, s')"
  obtains (known) v where "gm_get (ss_relations (st_heap s ! p)) key = Some v" "r = Inr v"
      "s' = touchLocked p now s" "\<not> mo_created outcome"
  | (failed) err where "r = Inl err" "s' = s"
  | (stored) s1 n v where "gm_get (ss_relations (st_heap s ! p)) key = None"
      "\<not> ss_nil (st_heap s ! p)" "reserveEntry s = Some s1"
      "candidate_loop cand (relation_taken (st_heap s ! p) key) 0 = (n, Inr v)"
      "r = Inr v" "mo_created outcome"
      "s' = touchLocked p now (upd_scope p (\<lambda>sc. sc\<lparr>ss_relations := gm_put key v (ss_relations sc)\<rparr>) s1)"
proof (cases "gm_get (ss_relations (st_heap s ! p)) key")
  case (Some v)
  with assms show ?thesis by (intro known [of v]) (auto simp: gor_pass_def Let_def zero_outcome_def)
next
  case None
  show ?thesis
  proof (cases "int (entryCount (st_heap s ! p)) \<ge> cfg_MaxEntriesPerScope (st_config s)")
    case True
    with assms None show ?thesis by (intro failed) (auto simp: gor_pass_def)
  next
    case False
    with assms None obtain s1 where s1: "reserveEntry s = Some s1"
      and store: "gor_store p key cand now expired s1 = (r, outcome, s')"
      by (auto simp: gor_pass_def split: option.splits)
    note heap = reserve_heap [OF s1] and undo = reserve_unreserve [OF s1]
    obtain n c where loop: "candidate_loop cand (relation_taken (st_heap s ! p) key) 0 = (n, c)" by fastforce
    show ?thesis
    proof (cases "\<exists>v. c = Inr v \<and> \<not> ss_nil (st_heap s ! p)")
      case True
      then obtain v where "c = Inr v" "\<not> ss_nil (st_heap s ! p)" by blast
      with store loop heap s1 None show ?thesis
        by (intro stored [of s1 n v]) (auto simp: gor_store_def Let_def)
    next
      case False
      with store loop heap undo show ?thesis
        by (cases c) (auto simp: gor_store_def Let_def intro: failed)
    qed
  qed
qed

lemma store_le_gor:
  assumes inv: "store_inv s"
    and pass: "gor_pass p key cand now expired s = Some (r, outcome, s')"
  shows "store_le s s'"
  using pass
proof (cases rule: gor_pass_cases)
  case (known v)
  then show ?thesis using store_le_touch [OF inv] by simp
next
  case (stored s1 n v)
  have s1: "st_heap s1 = st_heap s" "st_leases s1 = st_leases s" "st_config s1 = st_config s"
    "st_shutdown s1 = st_shutdown s"
    using stored(3) by (auto simp: reserveEntry_def split: if_splits)
  show ?thesis
  proof (rule store_le_held [OF inv(1)])
    fix q assume "q < length (st_heap s)"
    with s1 stored(1) show "ledger_le (st_heap s ! q) (st_heap s' ! q)"
      unfolding stored(7) by (auto simp: touchLocked_def upd_scope_heap intro!: ledger_leI)
  qed (use s1 in \<open>simp_all add: stored(7)\<close>)
qed simp

lemma store_le_release:
  assumes l: "l < length (st_leases s)" and inv: "store_inv s"
  shows "store_le s (fst (release_drop l s))"
proof (cases "snd (st_leases s ! l)")
  case False
  let ?p = "lease_ptr s l"
  let ?f = "\<lambda>sc. if ss_inFlight sc > 0 then sc\<lparr>ss_inFlight := ss_inFlight sc - 1\<rparr> else sc"
  let ?s1 = "s\<lparr>st_leases := (st_leases s)[l := (?p, True)]\<rparr>"
  have "store_le s (upd_scope ?p ?f ?s1)"
  proof (rule store_leI)
    fix k assume k: "k < length (st_leases s)"
    then show "lease_ptr (upd_scope ?p ?f ?s1) k = lease_ptr s k"
      by (cases "k = l") (simp_all add: lease_ptr_def)
    assume "lockOperation k (upd_scope ?p ?f ?s1)"
    then show s: "lockOperation k s"
      using k by (cases "k = l") (simp_all add: lockOperation_def)
    show "ledger_le (st_heap s ! lease_ptr s k) (st_heap (upd_scope ?p ?f ?s1) ! lease_ptr s k)"
      using live_lease_scope(1) [OF inv k s] by (auto simp: upd_scope_heap intro: ledger_le_same)
  qed simp_all
  with False show ?thesis by (simp add: release_drop_def Let_def)
qed (simp add: release_drop_def)

lemma store_le_finalize:
  assumes "store_inv s" "p < length (st_heap s)"
  shows "store_le s (finalizeClosed p now s)"
  using assms store_le_keeps_held [OF assms(1) keeps_held_wipe [OF store_invD(1) [OF assms(1)] assms(2)]]
  by (simp add: finalizeClosed_def Let_def)

lemma store_le_clear:
  assumes "store_inv s"
  shows "store_le s (snd (Clear i now s))"
proof (cases "gm_get (st_scopes s) i")
  case None
  then show ?thesis by (simp add: Clear_def Let_def store_le_prune)
next
  case (Some p)
  let ?s = "pruneTombstonesLocked now s"
  let ?close = "\<lambda>sc. sc\<lparr>ss_state := lifecycleClosing\<rparr>"
  have inv: "store_inv ?s" using assms by (rule store_inv_pruneTombstones)
  have p: "p < length (st_heap ?s)" using core_scope(1) [OF store_invD(1) [OF assms] Some] by simp
  have "store_le ?s (upd_scope p ?close ?s)" using inv by (rule store_le_upd) (simp add: ledger_le_same)
  moreover have "ss_inFlight (st_heap ?s ! p) = 0 \<Longrightarrow>
      store_le ?s (wipeAndRemoveLocked p now (upd_scope p ?close ?s))"
    using store_le_keeps_held [OF inv keeps_held_reapScope [OF store_invD(1) [OF inv] p]]
    by (simp add: reapScope_def)
  ultimately have "store_le ?s (snd (Clear i now s))"
    using Some p by (simp add: Clear_def Let_def upd_scope_heap)
  then show ?thesis by (rule store_le_trans [OF store_le_prune])
qed

lemma pruneCoordinates_fields:
  "st_leases (pruneCoordinates R xs s) = st_leases s \<and> st_config (pruneCoordinates R xs s) = st_config s \<and>
   st_shutdown (pruneCoordinates R xs s) = st_shutdown s \<and> st_heap (pruneCoordinates R xs s) = st_heap s \<and>
   st_scopes (pruneCoordinates R xs s) = st_scopes s \<and> st_tombs (pruneCoordinates R xs s) = st_tombs s"
  by (induction R xs s rule: pruneCoordinates.induct) auto

lemma coordinate_check_frame:
  "coordinate_check i s = (r, t) \<Longrightarrow> st_leases t = st_leases s \<and> st_config t = st_config s \<and>
     st_shutdown t = st_shutdown s \<and> st_heap t = st_heap s"
  using pruneCoordinates_fields
  by (auto simp: coordinate_check_def pruneCoordinateRotationsLocked_def Let_def split: prod.splits option.splits if_splits)

lemma coordinate_register_frame:
  "coordinate_register i x s = (r, t) \<Longrightarrow> st_leases t = st_leases s \<and> st_config t = st_config s \<and>
     st_shutdown t = st_shutdown s \<and> st_heap t = st_heap s"
  by (auto simp: coordinate_register_def split: prod.splits option.splits if_splits
      dest: coordinate_check_frame)

lemma Resolve_le:
  assumes "store_inv s"
  shows "store_le s (snd (ResolveSynthetic l entity x now s))"
    "store_le s (snd (ResolveOriginal l entity x now s))"
  using store_le_touch [OF assms]
  by (simp_all add: ResolveSynthetic_def ResolveOriginal_def split: option.split)

lemma store_step_le:
  assumes inv: "store_inv s" and "store_step s t"
  shows "store_le s t"
  using assms(2)
proof cases
  case step_Acquire
  then show ?thesis using store_le_acquire [OF inv] by (metis snd_conv)
next
  case step_Mapping
  then show ?thesis using store_le_goc [OF inv live_lease_scope(2) [OF inv]] by blast
next
  case step_Relation
  then show ?thesis using store_le_gor [OF inv] by blast
next
  case step_Reclaim
  then show ?thesis using reclaim_inv [OF inv] store_le_keeps_held [OF inv] by blast
next
  case step_ResolveSynthetic
  then show ?thesis using Resolve_le(1) [OF inv] by (metis snd_conv)
next
  case step_ResolveOriginal
  then show ?thesis using Resolve_le(2) [OF inv] by (metis snd_conv)
next
  case step_Release
  then show ?thesis using store_le_release [OF _ inv] by (metis fst_conv)
next
  case step_Finalize
  then show ?thesis using store_le_finalize [OF inv] by blast
next
  case step_Clear
  then show ?thesis using store_le_clear [OF inv] by (metis snd_conv)
next
  case step_Shutdown
  then show ?thesis by (auto intro: store_le_heap)
next
  case step_CoordinateCheck
  then show ?thesis by (auto intro: store_le_heap dest: coordinate_check_frame)
next
  case step_CoordinateRegister
  then show ?thesis by (auto intro: store_le_heap dest: coordinate_register_frame)
qed

interpretation store_mono: monotone_system store_start store_step store_inv store_le
  by unfold_locales (auto intro: store_le_trans store_step_le)

section \<open>Whole operations are runs\<close>

text \<open>
  \<open>GetOrCreate\<close> ends in a pass under the scope lock, of the store it found or of the store that
  the reclaim left.
\<close>

lemma reclaim_step: "store_step s (fst (reclaimAvailableExpired busy now s))"
  by (rule step_Reclaim [where expired = "snd (reclaimAvailableExpired busy now s)"]) simp

lemma getOrCreate_run:
  assumes inv: "store_inv s"
    and goc: "getOrCreateObserved busy l entity original provenance candidate now s = (Inr e, outcome, t)"
  obtains cand s1 expired where "candidate = Some cand" "store_step\<^sup>*\<^sup>* s s1" "lockOperation l s1"
    "st_leases s1 = st_leases s"
    "goc_pass (lease_ptr s1 l) entity original provenance cand now expired s1 = Some (Inr e, outcome, t)"
proof -
  obtain cand where cand: "candidate = Some cand" "lockOperation l s"
    using goc by (auto simp: getOrCreateObserved_def split: if_splits option.splits)
  obtain s1 expired where reclaim: "reclaimAvailableExpired busy now s = (s1, expired)" by fastforce
  then have run: "store_step\<^sup>*\<^sup>* s s1" using reclaim_step [of s busy now] by simp
  have same: "st_leases s1 = st_leases s" using reclaim_inv [OF inv reclaim] keeps_heldD(1) by blast
  show ?thesis
    using that [of cand s "[]"] that [of cand s1 expired] cand reclaim goc run same lease_same [OF same]
    by (auto simp: getOrCreateObserved_def split: if_splits option.splits)
qed

end
