(* ===== verification/PrivacyStoreProps.thy ===== *)
theory PrivacyStoreProps
  imports PrivacyLedger
begin

text \<open>
  The properties of the scope store: bounds in every reachable state, the round trip and the
  stability of a mapping along any interleaving, injectivity, the life cycle of leases and
  closed scopes, and the coordinate registry.
\<close>

section \<open>Lemmas on single operations\<close>

lemma reachable_store_inv: "store_start s0 \<Longrightarrow> store_step\<^sup>*\<^sup>* s0 s \<Longrightarrow> store_inv s"
  by (rule store_sys.reachable_inv)

text \<open>After a successful pass the entry is in both ledgers of the scope.\<close>

lemma goc_pass_entry:
  assumes inv: "store_inv s" and p: "gm_get (st_scopes s) i = Some p"
    and pass: "goc_pass p entity original provenance cand now expired s = Some (Inr e, outcome, t)"
  shows "me_Entity e = entity \<and> me_Original e = original \<and>
    gm_get (ss_forward (st_heap t ! p)) (entity, original) = Some e"
proof -
  have plen: "p < length (st_heap s)" by (rule core_scope(1) [OF store_invD(1) [OF inv] p])
  from pass show ?thesis
  proof (cases rule: goc_pass_cases)
    case (known e')
    have "(entity, original) = (me_Entity e', me_Original e')"
      using scope_ok_fwd [OF core_cell(2) [OF store_invD(1) [OF inv] plen] known(1)] by simp
    with known plen show ?thesis
      by (auto simp: touchLocked_def upd_scope_heap promoteInputProvenanceLocked_def Let_def)
  next
    case (stored s1 n syn e')
    with plen reserve_heap [OF stored(3)] show ?thesis by (auto simp: touchLocked_def upd_scope_heap)
  qed simp
qed

lemma goc_pass_step:
  "l < length (st_leases s) \<Longrightarrow> lockOperation l s \<Longrightarrow>
   goc_pass (lease_ptr s l) entity original provenance cand now expired s = Some (r, outcome, t) \<Longrightarrow>
   store_step s t"
  by (rule step_Mapping)

text \<open>The entry stays there, up to its provenance, as long as the lease is live.\<close>

lemma mapping_kept:
  assumes "store_inv s" "l < length (st_leases s)"
    and goc: "getOrCreateObserved busy l entity original provenance candidate now s = (Inr e, outcome, t)"
    and run: "store_step\<^sup>*\<^sup>* t u" and live: "lockOperation l u"
  obtains e' where "store_inv u" "l < length (st_leases u)"
    "gm_get (ss_forward (st_heap u ! lease_ptr u l)) (entity, original) = Some e'"
    "gm_get (ss_reverse (st_heap u ! lease_ptr u l)) (entity, me_Synthetic e) = Some e'"
    "me_Entity e' = entity" "me_Original e' = original" "me_Synthetic e' = me_Synthetic e"
proof -
  obtain cand s1 expired where s1: "candidate = Some cand" "store_step\<^sup>*\<^sup>* s s1" "lockOperation l s1"
      "st_leases s1 = st_leases s"
    and pass: "goc_pass (lease_ptr s1 l) entity original provenance cand now expired s1 = Some (Inr e, outcome, t)"
    using assms(1) goc by (rule getOrCreate_run)
  have inv1: "store_inv s1" using store_sys.run_inv [OF s1(2) assms(1)] .
  have l1: "l < length (st_leases s1)" using s1(4) assms(2) by simp
  note scope = live_lease_scope(2) [OF inv1 l1 s1(3)]
  have "store_step s1 t" using l1 s1(3) pass by (rule goc_pass_step)
  then have invt: "store_inv t" and grow: "store_le s1 t"
    using store_step_inv [OF inv1] store_step_le [OF inv1] by auto
  have lt: "l < length (st_leases t)" "lease_ptr t l = lease_ptr s1 l"
    using store_leD(3,4) [OF grow] l1 by auto
  note e = goc_pass_entry [OF inv1 scope pass]
  note leu = store_leD [OF store_mono.run_rel [OF run invt]]
  have invu: "store_inv u" using store_sys.run_inv [OF run invt] .
  have lu: "l < length (st_leases u)" "lease_ptr u l = lease_ptr s1 l" using leu(3,4) lt by auto
  obtain e' where e': "gm_get (ss_forward (st_heap u ! lease_ptr u l)) (entity, original) = Some e'"
      "same_mapping e e'"
    using ledger_le_fwd [OF leu(6) [OF lt(1) live]] e lt(2) lu(2) by metis
  have "scope_ok (st_heap u ! lease_ptr u l)"
    using core_cell(2) [OF store_invD(1) [OF invu]] live_lease_scope(1) [OF invu lu(1) live] by blast
  from scope_ok_fwd [OF this e'(1)] e e' invu lu(1) show ?thesis
    by (intro that [of e']) (auto simp: same_mapping_def)
qed

lemma getOrCreate_steps:
  assumes inv: "store_inv s" "l < length (st_leases s)"
    and goc: "getOrCreateObserved busy l entity original provenance candidate now s = (Inr e, outcome, t)"
  shows "store_step\<^sup>*\<^sup>* s t"
proof -
  obtain cand s1 expired where s1: "candidate = Some cand" "store_step\<^sup>*\<^sup>* s s1" "lockOperation l s1"
      "st_leases s1 = st_leases s"
    and pass: "goc_pass (lease_ptr s1 l) entity original provenance cand now expired s1 = Some (Inr e, outcome, t)"
    using inv(1) goc by (rule getOrCreate_run)
  then have "store_step s1 t" using inv(2) by (intro goc_pass_step) auto
  with s1(2) show ?thesis by (rule rtranclp.rtrancl_into_rtrancl)
qed

lemma goc_pass_leases:
  "goc_pass p entity original provenance cand now expired s = Some (r, outcome, t) \<Longrightarrow>
     st_leases t = st_leases s"
  by (erule goc_pass_cases) (auto simp: reserveEntry_def split: if_splits)

lemma getOrCreate_live:
  assumes "store_inv s"
    "getOrCreateObserved busy l entity original provenance candidate now s = (Inr e, outcome, t)"
  shows "lockOperation l t"
  using assms by (rule getOrCreate_run) (use goc_pass_leases in \<open>auto simp: lockOperation_def\<close>)

subsection \<open>Wiping one scope\<close>

lemma wipe_effect:
  assumes "store_core s" "p < length (st_heap s)" "gm_get (st_scopes s) (ss_id (st_heap s ! p)) = Some p"
  shows "st_scopes (wipeAndRemoveLocked p now s) = gm_del (ss_id (st_heap s ! p)) (st_scopes s)"
    "st_heap (wipeAndRemoveLocked p now s) = (st_heap s)[p := wiped (st_heap s ! p)]"
    "st_leases (wipeAndRemoveLocked p now s) = st_leases s"
    "\<exists>t. gm_get (st_tombs (wipeAndRemoveLocked p now s)) (ss_id (st_heap s ! p)) = Some t \<and>
       tm_expiresAt t = now + cfg_TTL (st_config s)"
  using assms(3)
  by (cases rule: wipe_cases [of p now s];
      simp add: upd_scope_def addTombstoneLocked_def Let_def split: option.split)+

lemma prune_keeps_unexpired:
  "gm_get (st_tombs s) i = Some t \<Longrightarrow> tm_expiresAt t > now \<Longrightarrow>
     gm_get (st_tombs (pruneTombstonesLocked now s)) i = Some t"
proof (induction now s rule: pruneTombstonesLocked.induct)
  case (1 now s)
  have "gm_get (st_tombs s') i = Some t" if "pruneTombstone1 now s = Some s'" for s'
    using that "1.prems" by (auto simp: pruneTombstone1_def Let_def split: option.splits if_splits)
  with 1 show ?case by (subst pruneTombstonesLocked.simps) (auto split: option.split)
qed

text \<open>What \<open>Clear\<close> does to the scope it names and to the others.\<close>

lemma Clear_effect:
  assumes inv: "store_inv s" and c: "Clear i now s = (r, t)"
  shows "\<And>j q. gm_get (st_scopes t) j = Some q \<Longrightarrow> gm_get (st_scopes s) j = Some q \<and>
      (if j = i then ss_state (st_heap t ! q) = lifecycleClosing \<and> 0 < ss_inFlight (st_heap t ! q)
       else st_heap t ! q = st_heap s ! q)"
proof (cases "gm_get (st_scopes s) i")
  case None
  fix j q assume "gm_get (st_scopes t) j = Some q"
  with None c show "?thesis j q" by (auto simp: Clear_def Let_def split: if_splits)
next
  case (Some p)
  fix j q assume j: "gm_get (st_scopes t) j = Some q"
  let ?s = "upd_scope p (\<lambda>sc. sc\<lparr>ss_state := lifecycleClosing\<rparr>) (pruneTombstonesLocked now s)"
  note sc = core_scope [OF store_invD(1) [OF inv]]
  note p = sc(1,2) [OF Some]
  have heap: "st_heap ?s = (st_heap s)[p := (st_heap s ! p)\<lparr>ss_state := lifecycleClosing\<rparr>]"
    by (simp add: upd_scope_def)
  have core: "store_core ?s" using store_invD(1) [OF inv] p by simp
  have "st_scopes (wipeAndRemoveLocked p now ?s) = gm_del i (st_scopes s)"
    "st_heap (wipeAndRemoveLocked p now ?s) = (st_heap ?s)[p := wiped (st_heap ?s ! p)]"
    using wipe_effect(1,2) [OF core, of p now] p Some heap by auto
  with c Some j heap p sc(2) [of j q] show "?thesis j q"
    by (auto simp: Clear_def Let_def nth_list_update split: if_splits)
qed

subsection \<open>Draining after shutdown\<close>

text \<open>Every retained scope is closing and held by a live lease, apart from the named ones.\<close>

definition draining :: "string set \<Rightarrow> ScopeStore \<Rightarrow> bool" where
  "draining todo s \<longleftrightarrow> (\<forall>i p. gm_get (st_scopes s) i = Some p \<and> i \<notin> todo \<longrightarrow>
     ss_state (st_heap s ! p) = lifecycleClosing \<and> 0 < ss_inFlight (st_heap s ! p))"

lemma drainingD:
  "draining todo s \<Longrightarrow> gm_get (st_scopes s) i = Some p \<Longrightarrow> i \<notin> todo \<Longrightarrow>
     ss_state (st_heap s ! p) = lifecycleClosing \<and> 0 < ss_inFlight (st_heap s ! p)"
  unfolding draining_def by blast

subsection \<open>Releasing a lease\<close>

lemma release_drop_released: "\<not> lockOperation l s \<Longrightarrow> release_drop l s = (s, False)"
  by (simp add: release_drop_def lockOperation_def)

lemma lease_Release_released: "\<not> lockOperation l s \<Longrightarrow> lease_Release l now s = s"
  by (simp add: lease_Release_def release_drop_released)

text \<open>The drop of a live lease: its cell and the reference count of its scope.\<close>

lemma release_drop_effect:
  assumes "store_inv s" "l < length (st_leases s)" "lockOperation l s"
  shows "st_leases (fst (release_drop l s)) = (st_leases s)[l := (lease_ptr s l, True)]"
    "st_scopes (fst (release_drop l s)) = st_scopes s"
    "st_config (fst (release_drop l s)) = st_config s"
    "st_heap (fst (release_drop l s)) = (st_heap s)[lease_ptr s l :=
       (st_heap s ! lease_ptr s l)\<lparr>ss_inFlight := ss_inFlight (st_heap s ! lease_ptr s l) - 1\<rparr>]"
    "snd (release_drop l s) = (ss_state (st_heap s ! lease_ptr s l) = lifecycleClosing \<and>
       ss_inFlight (st_heap s ! lease_ptr s l) = 1)"
  using assms(3) live_lease_scope [OF assms]
  by (auto simp: release_drop_def lockOperation_def Let_def upd_scope_def)

text \<open>The whole release, when it is the last one of a closing scope and when it is not.\<close>

lemma lease_Release_last:
  assumes "store_inv s" "l < length (st_leases s)" "lockOperation l s"
    "ss_state (st_heap s ! lease_ptr s l) = lifecycleClosing" "ss_inFlight (st_heap s ! lease_ptr s l) = 1"
  shows "lease_Release l now s = wipeAndRemoveLocked (lease_ptr s l) now (fst (release_drop l s))"
  using assms release_drop_effect [OF assms(1-3)] live_lease_scope(1,2) [OF assms(1-3)]
  by (cases "release_drop l s") (simp add: lease_Release_def finalizeClosed_def Let_def)

lemma lease_Release_other:
  assumes "store_inv s" "l < length (st_leases s)" "lockOperation l s"
    "\<not> (ss_state (st_heap s ! lease_ptr s l) = lifecycleClosing \<and> ss_inFlight (st_heap s ! lease_ptr s l) = 1)"
  shows "lease_Release l now s = fst (release_drop l s)"
  using assms release_drop_effect(5) [OF assms(1-3)]
  by (cases "release_drop l s") (auto simp: lease_Release_def)

lemma lease_Release_lease:
  assumes "store_inv s" "l < length (st_leases s)"
  shows "st_leases (lease_Release l now s) = (st_leases s)[l := (lease_ptr s l, True)]"
proof (cases "lockOperation l s")
  case True
  note e = release_drop_effect [OF assms True]
  have "store_core (fst (release_drop l s))" using release_drop_inv [OF assms] store_invD(1) by blast
  with wipe_effect(3) [of "fst (release_drop l s)" "lease_ptr s l" now] e live_lease_scope [OF assms True]
  show ?thesis
    using lease_Release_last [OF assms True, of now] lease_Release_other [OF assms True, of now]
    by (cases "ss_state (st_heap s ! lease_ptr s l) = lifecycleClosing \<and> ss_inFlight (st_heap s ! lease_ptr s l) = 1")
      simp_all
next
  case False
  then have "st_leases s ! l = (lease_ptr s l, True)" by (simp add: lockOperation_def lease_ptr_def prod_eq_iff)
  with lease_Release_released [OF False] assms(2) show ?thesis by (metis list_update_id)
qed

lemma lease_Release_draining:
  assumes inv: "store_inv s" "l < length (st_leases s)" and d: "draining {} s"
  shows "draining {} (lease_Release l now s)"
proof (cases "lockOperation l s")
  case False
  with d show ?thesis by (simp add: lease_Release_released)
next
  case True
  let ?p = "lease_ptr s l" and ?t = "fst (release_drop l s)"
  note e = release_drop_effect [OF inv True] and sc = live_lease_scope [OF inv True]
  note own = core_scope(2) [OF store_invD(1) [OF inv(1)]]
  have closing: "ss_state (st_heap s ! ?p) = lifecycleClosing" using drainingD [OF d sc(2)] by simp
  show ?thesis
  proof (cases "ss_inFlight (st_heap s ! ?p) = 1")
    case one: True
    have core: "store_core ?t" using release_drop_inv [OF inv] store_invD(1) by blast
    have t: "st_scopes (lease_Release l now s) = gm_del (ss_id (st_heap s ! ?p)) (st_scopes s)"
      "st_heap (lease_Release l now s) = (st_heap ?t)[?p := wiped (st_heap ?t ! ?p)]"
      using wipe_effect(1,2) [OF core, of ?p now] lease_Release_last [OF inv True closing one] e sc by simp_all
    show ?thesis
      unfolding draining_def
    proof (intro allI impI)
      fix i q assume "gm_get (st_scopes (lease_Release l now s)) i = Some q \<and> i \<notin> {}"
      then have i: "i \<noteq> ss_id (st_heap s ! ?p)" "gm_get (st_scopes s) i = Some q"
        by (auto simp: t(1) split: if_splits)
      then have "q \<noteq> ?p" using own [OF i(2)] by auto
      then show "ss_state (st_heap (lease_Release l now s) ! q) = lifecycleClosing \<and>
          0 < ss_inFlight (st_heap (lease_Release l now s) ! q)"
        using drainingD [OF d i(2)] by (simp add: t(2) e(4))
    qed
  next
    case False
    with closing have "lease_Release l now s = ?t" by (intro lease_Release_other [OF inv True]) simp
    then show ?thesis
      using drainingD [OF d] e(2,4) sc(1,3) False closing by (auto simp: draining_def nth_list_update)
  qed
qed

lemma released_store_empty:
  assumes "store_inv s" "draining {} s" "\<forall>l < length (st_leases s). \<not> lockOperation l s"
  shows "st_scopes s = [] \<and> st_total s = 0"
proof -
  have "st_scopes s = []"
  proof (rule ccontr)
    assume "st_scopes s \<noteq> []"
    then obtain i p where ip: "gm_get (st_scopes s) i = Some p"
      by (metis list.set_intros(1) neq_Nil_conv prod.collapse weak_map_of_SomeI)
    note core = store_invD(1) [OF assms(1)]
    have "0 < live_leases s p"
      using drainingD [OF assms(2) ip] core_cell(1) [OF core core_scope(1) [OF core ip]] by simp
    then have "(p, False) \<in> set (st_leases s)" by (metis live_leases_def count_list_0_iff less_irrefl)
    with assms(3) show False by (auto simp: in_set_conv_nth lockOperation_def)
  qed
  with core_total(1) [OF store_invD(1) [OF assms(1)]] show ?thesis by simp
qed

subsection \<open>What a full store has left to reclaim\<close>

lemma reapScope_heap:
  "q < length (st_heap s) \<Longrightarrow> q \<noteq> p \<Longrightarrow> st_heap (reapScope p now s) ! q = st_heap s ! q"
  unfolding reapScope_def
  by (cases rule: wipe_cases [of p now "upd_scope p (\<lambda>sc. sc\<lparr>ss_state := lifecycleClosing\<rparr>) s"])
    (simp_all add: upd_scope_heap)

lemma reapScope_scopes:
  assumes "store_inv s" "gm_get (st_scopes s) j = Some p"
  shows "st_scopes (reapScope p now s) = gm_del j (st_scopes s)"
proof -
  note core = store_invD(1) [OF assms(1)]
  note p = core_scope(1,2) [OF core assms(2)]
  let ?s = "upd_scope p (\<lambda>sc. sc\<lparr>ss_state := lifecycleClosing\<rparr>) s"
  have "store_core ?s" using core p(1) by simp
  from wipe_effect(1) [OF this, of p now] p assms(2) show ?thesis
    by (simp add: reapScope_def upd_scope_heap)
qed

lemma reapLoop_complete:
  assumes "store_inv s" "\<forall>p \<in> set ps. \<exists>j. gm_get (st_scopes s) j = Some p" "distinct ps"
    "reapLoop busy now ps s = (s', reaped)" "gm_get (st_scopes s') i = Some q"
  shows "gm_get (st_scopes s) i = Some q \<and> st_heap s' ! q = st_heap s ! q \<and>
    (q \<in> set ps \<longrightarrow> busy q \<or> \<not> reapable now (st_heap s' ! q))"
  using assms
proof (induction ps arbitrary: s s' reaped)
  case (Cons p ps)
  show ?case
  proof (cases "busy p \<or> \<not> reapable now (st_heap s ! p)")
    case True
    with Cons.IH [of s s' reaped] Cons.prems show ?thesis by auto
  next
    case False
    let ?t = "reapScope p now s"
    obtain j where j: "gm_get (st_scopes s) j = Some p" using Cons.prems(2) by auto
    note own = core_scope(1,2) [OF store_invD(1) [OF Cons.prems(1)]]
    have t: "st_scopes ?t = gm_del j (st_scopes s)" using Cons.prems(1) j by (rule reapScope_scopes)
    obtain r where r: "reapLoop busy now ps ?t = (s', r)"
      using False Cons.prems(4) by (auto split: prod.splits)
    have inv: "store_inv ?t"
      using Cons.prems(1) own(1) [OF j] False by (intro store_inv_reapScope) (simp_all add: reapable_def)
    have "\<forall>p' \<in> set ps. \<exists>j'. gm_get (st_scopes ?t) j' = Some p'"
    proof
      fix p' assume p': "p' \<in> set ps"
      with Cons.prems(2) obtain j' where j': "gm_get (st_scopes s) j' = Some p'" by auto
      with p' Cons.prems(3) j have "j' \<noteq> j" by auto
      with j' show "\<exists>j'. gm_get (st_scopes ?t) j' = Some p'" unfolding t by auto
    qed
    from Cons.IH [OF inv this _ r Cons.prems(5)] Cons.prems(3)
    have IH: "gm_get (st_scopes ?t) i = Some q" "st_heap s' ! q = st_heap ?t ! q"
      "q \<in> set ps \<longrightarrow> busy q \<or> \<not> reapable now (st_heap s' ! q)" by auto
    from IH(1) have i: "i \<noteq> j" "gm_get (st_scopes s) i = Some q" unfolding t by (auto split: if_splits)
    then have "q \<noteq> p" using own(2) [OF j] own(2) [OF i(2)] by auto
    with IH i reapScope_heap [OF own(1) [OF i(2)] this] show ?thesis by simp
  qed
qed simp

lemma scopes_distinct:
  assumes "store_inv s"
  shows "distinct (map snd (st_scopes s))"
proof -
  note core = store_invD(1) [OF assms]
  have "map (\<lambda>p. ss_id (st_heap s ! p)) (map snd (st_scopes s)) = map fst (st_scopes s)"
    using core_scope(2) [OF core] core_gm_ok [OF core] by (auto intro: map_of_is_SomeI)
  then have "distinct (map (\<lambda>p. ss_id (st_heap s ! p)) (map snd (st_scopes s)))"
    using core_gm_ok [OF core] by metis
  then show ?thesis unfolding distinct_map by blast
qed

lemma reapAvailable_complete:
  assumes inv: "store_inv s" and reap: "reapAvailableExpiredLocked busy now s = (s', reaped)"
    and i: "gm_get (st_scopes s') i = Some q"
  shows "busy q \<or> \<not> reapable now (st_heap s' ! q)"
proof -
  note ok = core_gm_ok [OF store_invD(1) [OF inv]]
  have "\<forall>p \<in> set (map snd (st_scopes s)). \<exists>j. gm_get (st_scopes s) j = Some p"
    using map_of_is_SomeI [OF ok] by fastforce
  from reapLoop_complete [OF inv this scopes_distinct [OF inv] _ i] reap
  have "gm_get (st_scopes s) i = Some q"
    "q \<in> set (map snd (st_scopes s)) \<longrightarrow> busy q \<or> \<not> reapable now (st_heap s' ! q)"
    unfolding reapAvailableExpiredLocked_def by blast+
  then show ?thesis by (force dest: map_of_SomeD)
qed

lemma candidate_loop_exhausted:
  assumes "\<And>a. \<exists>v. cand a = Inr v \<and> taken v"
  shows "candidate_loop cand taken attempt = (0, Inl errCandidateExhausted)"
  using assms
proof (induction cand taken attempt rule: candidate_loop.induct)
  case (1 cand taken attempt)
  obtain v where v: "cand attempt = Inr v" "taken v" using "1.prems" by blast
  then show ?case
    using "1.IH" [OF v] "1.prems" by (subst candidate_loop.simps) simp
qed

lemma acquire_step: "store_step s (snd (snd (acquireObserved busy i profile now s)))"
  by (rule step_Acquire [where r = "fst (acquireObserved busy i profile now s)"
        and expired = "fst (snd (acquireObserved busy i profile now s))"]) simp

lemma wipe_total:
  assumes "gm_get (st_scopes s) (ss_id (st_heap s ! p)) = Some p"
  shows "st_total (wipeAndRemoveLocked p now s) = st_total s - int (entryCount (st_heap s ! p))"
  using assms by (cases rule: wipe_cases [of p now s]) simp_all

lemma release_total: "st_total (fst (release_drop l s)) = st_total s"
  by (simp add: release_drop_def Let_def)

lemma coordinate_check_registers:
  "coordinate_check i s = (Some (Inr x), t) \<Longrightarrow> gm_get (st_coordByScope t) i = Some x"
  by (auto simp: coordinate_check_def split: prod.splits option.splits)

lemma coordinate_register_registers:
  "coordinate_register i y s = (Some (Inr x), t) \<Longrightarrow> gm_get (st_coordByScope t) i = Some x"
  by (auto simp: coordinate_register_def dest: coordinate_check_registers split: prod.splits option.splits if_splits)

lemma coordinate_loop_registers:
  "coordinate_loop i cand attempt s = (Inr x, n, t) \<Longrightarrow> gm_get (st_coordByScope t) i = Some x"
proof (induction i cand attempt s rule: coordinate_loop.induct)
  case (1 i cand attempt s)
  from "1.prems" show ?case
    by (subst (asm) coordinate_loop.simps)
      (auto split: prod.splits option.splits sum.splits if_splits
        dest: coordinate_check_registers coordinate_register_registers intro: "1.IH")
qed

section \<open>A concrete store for the witnesses\<close>

definition demo_config :: StoreConfig where
  "demo_config = \<lparr>cfg_TTL = 10, cfg_MaxScopes = 2, cfg_MaxEntriesPerScope = 2, cfg_MaxTotalEntries = 3\<rparr>"

definition demo_new :: ScopeStore where
  "demo_new = (case NewScopeStore demo_config True of Inr s \<Rightarrow> s)"

definition demo_held :: ScopeStore where
  "demo_held = snd (snd (acquireObserved (\<lambda>_. False) ''s1'' ProfileStandard 5 demo_new))"

definition demo_cand :: candidate where
  "demo_cand attempt = Inr (if attempt = 0 then ''a@x'' else ''b@x'')"

definition demo_goc :: "string \<Rightarrow> ScopeStore \<Rightarrow> (store_err + MappingEntry) \<times> mappingOutcome \<times> ScopeStore" where
  "demo_goc original = getOrCreateObserved (\<lambda>_. False) 0 ''EMAIL'' original ProvenanceInput (Some demo_cand) 6"

definition demo_mapped :: ScopeStore where
  "demo_mapped = snd (snd (demo_goc ''jo@y'' demo_held))"

definition demo_entry :: MappingEntry where
  "demo_entry = \<lparr>me_Entity = ''EMAIL'', me_Original = ''jo@y'', me_Synthetic = ''a@x'',
     me_Provenance = ProvenanceInput, me_CreatedAt = 6\<rparr>"

lemma demo_start: "store_start demo_new"
  unfolding store_start_def
  by (rule exI [of _ demo_config]) (simp add: demo_new_def NewScopeStore_def demo_config_def)

lemma demo_run: "store_step\<^sup>*\<^sup>* demo_new demo_held"
  unfolding demo_held_def by (rule r_into_rtranclp, rule step_Acquire, rule prod.collapse [symmetric, THEN trans])
    (rule arg_cong2 [where f = Pair], rule refl, rule prod.collapse [symmetric])

lemma demo_leases: "0 < length (st_leases demo_held)"
  by code_simp

lemma demo_mapped_eq: "demo_goc ''jo@y'' demo_held =
    (Inr demo_entry, \<lparr>mo_created = True, mo_collisions = 0, mo_expired = []\<rparr>, demo_mapped)"
  by code_simp

lemma demo_mapped_run: "store_step\<^sup>*\<^sup>* demo_new demo_mapped"
  using demo_run getOrCreate_steps [OF reachable_store_inv [OF demo_start demo_run] demo_leases
      demo_mapped_eq [unfolded demo_goc_def]] by (rule rtranclp_trans)

lemma demo_held_config: "st_config demo_held = demo_config"
  by code_simp

lemma demo_live: "lockOperation 0 demo_mapped"
  by code_simp

definition demo_entry2 :: MappingEntry where
  "demo_entry2 = demo_entry\<lparr>me_Original := ''al@y'', me_Synthetic := ''b@x''\<rparr>"

definition demo_outcome2 :: mappingOutcome where
  "demo_outcome2 = \<lparr>mo_created = True, mo_collisions = 1, mo_expired = []\<rparr>"

lemma demo_second_eq: "demo_goc ''al@y'' demo_mapped =
    (Inr demo_entry2, demo_outcome2, snd (snd (demo_goc ''al@y'' demo_mapped)))"
  by code_simp

definition demo_again :: ScopeStore where
  "demo_again = snd (snd (demo_goc ''jo@y'' demo_mapped))"

lemma demo_again_eq: "demo_goc ''jo@y'' demo_mapped =
    (Inr demo_entry, \<lparr>mo_created = False, mo_collisions = 0, mo_expired = []\<rparr>, demo_again)"
  by code_simp

definition demo_closing :: ScopeStore where
  "demo_closing = snd (Clear ''s1'' 7 demo_mapped)"

lemma demo_closing_run: "store_step\<^sup>*\<^sup>* demo_new demo_closing"
  using demo_mapped_run unfolding demo_closing_def
  by (rule rtranclp.rtrancl_into_rtrancl) (rule step_Clear, rule prod.collapse [symmetric])

lemma demo_closing_lease:
  "0 < length (st_leases demo_closing)" "lockOperation 0 demo_closing"
  "ss_state (st_heap demo_closing ! lease_ptr demo_closing 0) = lifecycleClosing"
  "ss_inFlight (st_heap demo_closing ! lease_ptr demo_closing 0) = 1"
  "entryCount (st_heap demo_closing ! lease_ptr demo_closing 0) = 1"
  "cfg_TTL (st_config demo_closing) = 10"
  by code_simp+

definition demo_idle :: ScopeStore where
  "demo_idle = fst (release_drop 0 demo_held)"

lemma demo_idle_run: "store_step\<^sup>*\<^sup>* demo_new demo_idle"
  using demo_run unfolding demo_idle_def
  by (rule rtranclp.rtrancl_into_rtrancl) (rule step_Release [OF demo_leases], rule prod.collapse [symmetric])

lemma demo_idle_facts:
  "gm_get (st_scopes demo_idle) ''s1'' = Some 0"
  "Clear ''s1'' 8 demo_idle = (Inr ClearCompleted, snd (Clear ''s1'' 8 demo_idle))"
  "cfg_TTL (st_config demo_idle) = 10"
  by code_simp+

definition demo_full :: ScopeStore where
  "demo_full = snd (snd (acquireObserved (\<lambda>_. False) ''s2'' ProfileStandard 5 demo_held))"

lemma demo_full_run: "store_step\<^sup>*\<^sup>* demo_new demo_full"
  using demo_run unfolding demo_full_def
  by (rule rtranclp.rtrancl_into_rtrancl) (rule acquire_step)

lemma demo_full_refused:
  "acquireObserved (\<lambda>_. False) ''s3'' ProfileStandard 6 demo_full = (Inl (errCapacityExceeded capacityScope), [],
     snd (snd (acquireObserved (\<lambda>_. False) ''s3'' ProfileStandard 6 demo_full)))"
  by code_simp

lemma demo_full_config:
  "st_config (snd (snd (acquireObserved (\<lambda>_. False) ''s3'' ProfileStandard 6 demo_full))) = demo_config"
  by code_simp

lemma demo_coord:
  "coordinateRotationIndexObserved ''s1'' (Some (\<lambda>_. Inr 7)) demo_held =
     (Inr 7, 0, snd (snd (coordinateRotationIndexObserved ''s1'' (Some (\<lambda>_. Inr 7)) demo_held)))"
  by code_simp

lemma demo_mapped_facts:
  "gm_get (ss_forward (st_heap demo_mapped ! 0)) (''EMAIL'', ''al@y'') = None"
  "gm_get (ss_reverse (st_heap demo_mapped ! 0)) (''EMAIL'', ''a@x'') = Some demo_entry"
  "entryCount (st_heap demo_mapped ! 0) = 1" "st_total demo_mapped = 1"
  "cfg_MaxEntriesPerScope (st_config demo_mapped) = 2" "cfg_MaxTotalEntries (st_config demo_mapped) = 3"
  by code_simp+

section \<open>Properties\<close>

text \<open>
  C2. Bounds. In every state that any interleaving of the critical sections of the store can
  reach: the number of retained scopes is at most \<open>MaxScopes\<close>, no scope has more than
  \<open>MaxEntriesPerScope\<close> entries, the global counter equals the sum of the entries of the
  retained scopes and is at most \<open>MaxTotalEntries\<close>, and there are at most
  \<open>tombstoneCapacity\<close> tombstones.
\<close>

theorem store_bounds:
  assumes "store_start s0" "store_step\<^sup>*\<^sup>* s0 s"
  shows "int (length (st_scopes s)) \<le> cfg_MaxScopes (st_config s)
    \<and> (\<forall>i p. gm_get (st_scopes s) i = Some p \<longrightarrow>
         int (entryCount (st_heap s ! p)) \<le> cfg_MaxEntriesPerScope (st_config s))
    \<and> st_total s = (\<Sum>(i, p)\<leftarrow>st_scopes s. int (entryCount (st_heap s ! p)))
    \<and> 0 \<le> st_total s \<and> st_total s \<le> cfg_MaxTotalEntries (st_config s)
    \<and> length (st_tombs s) \<le> tombstoneCapacity (st_config s)"
proof -
  have inv: "store_inv s" using assms by (rule reachable_store_inv)
  note core = store_invD(1) [OF inv]
  have "length (st_tombs s) \<le> tombstoneCapacity (st_config s)"
    using tombs_le_window [OF store_invD(2) [OF inv]] store_invD(2) [OF inv] by (simp add: tomb_inv_def)
  moreover have "0 \<le> st_total s"
    using core_total(1) [OF core] scope_entry_sum_ge0 [of "\<lambda>p. st_heap s ! p" "st_scopes s"] by simp
  ultimately show ?thesis using core_total [OF core] core_scope(4) [OF core] by blast
qed

theorem store_bounds_witness:
  "length (st_scopes demo_held) \<le> 2 \<and> st_total demo_held \<le> 3"
  using store_bounds [OF demo_start demo_run] by (simp add: demo_held_config demo_config_def)

text \<open>
  C3. Round trip. Take any reachable store and any lease, and let \<open>GetOrCreate\<close> return an entry.
  After any further interleaving in which the lease is not released, resolving the synthetic
  value gives the original back, and resolving the original gives the same synthetic value.
\<close>

theorem mapping_round_trip:
  assumes "store_start s0" "store_step\<^sup>*\<^sup>* s0 s" "l < length (st_leases s)"
    and "getOrCreateObserved busy l entity original provenance candidate now s = (Inr e, outcome, t)"
    and "store_step\<^sup>*\<^sup>* t u" "lockOperation l u"
  shows "\<exists>e'. fst (ResolveSynthetic l entity (me_Synthetic e) now' u) = Some e'
    \<and> fst (ResolveOriginal l entity original now' u) = Some e'
    \<and> me_Original e' = original \<and> me_Synthetic e' = me_Synthetic e"
proof -
  have "store_inv s" using assms(1,2) by (rule reachable_store_inv)
  then obtain e' where "gm_get (ss_forward (st_heap u ! lease_ptr u l)) (entity, original) = Some e'"
    "gm_get (ss_reverse (st_heap u ! lease_ptr u l)) (entity, me_Synthetic e) = Some e'"
    "me_Original e' = original" "me_Synthetic e' = me_Synthetic e"
    using assms(3-6) by (rule mapping_kept)
  with assms(6) show ?thesis by (simp add: ResolveSynthetic_def ResolveOriginal_def)
qed

theorem mapping_round_trip_witness:
  "\<exists>e'. fst (ResolveSynthetic 0 ''EMAIL'' ''a@x'' 7 demo_mapped) = Some e' \<and> me_Original e' = ''jo@y''"
  using mapping_round_trip [OF demo_start demo_run demo_leases demo_mapped_eq [unfolded demo_goc_def]
      rtranclp.rtrancl_refl demo_live]
  by (auto simp: demo_entry_def)

text \<open>
  Stability. A later \<open>GetOrCreate\<close> for the same original under the same live lease, with
  any provenance, candidate function and clock, succeeds with the same synthetic value and
  reports that nothing was created.
\<close>

theorem mapping_stable:
  assumes "store_start s0" "store_step\<^sup>*\<^sup>* s0 s" "l < length (st_leases s)"
    and "getOrCreateObserved busy l entity original provenance candidate now s = (Inr e, outcome, t)"
    and "store_step\<^sup>*\<^sup>* t u" "lockOperation l u"
    and again: "getOrCreateObserved busy' l entity original provenance' (Some cand') now' u = (r, outcome', v)"
    and "provenance' = ProvenanceInput \<or> provenance' = ProvenanceGenerated"
  shows "\<exists>e'. r = Inr e' \<and> me_Synthetic e' = me_Synthetic e \<and> me_Original e' = original
    \<and> \<not> mo_created outcome'"
proof -
  have "store_inv s" using assms(1,2) by (rule reachable_store_inv)
  then obtain e' where e': "gm_get (ss_forward (st_heap u ! lease_ptr u l)) (entity, original) = Some e'"
    "me_Original e' = original" "me_Synthetic e' = me_Synthetic e"
    using assms(3-6) by (rule mapping_kept)
  with assms(6,8) again show ?thesis
    by (auto simp: getOrCreateObserved_def goc_pass_def promoteInputProvenanceLocked_def Let_def
        zero_outcome_def split: if_splits)
qed

theorem mapping_stable_witness:
  "\<exists>e'. fst (demo_goc ''jo@y'' demo_mapped) = Inr e' \<and> me_Synthetic e' = ''a@x''"
  using mapping_stable [OF demo_start demo_run demo_leases demo_mapped_eq [unfolded demo_goc_def]
      rtranclp.rtrancl_refl demo_live demo_again_eq [unfolded demo_goc_def] disjI1 [OF refl]]
    demo_again_eq
  by (simp add: demo_entry_def)

text \<open>
  C4. Injectivity within a scope. Two originals of one entity never share a synthetic value
  under one lease: two calls of \<open>GetOrCreate\<close> for different originals under one lease, with any
  interleaving between them, return different synthetic values, whatever the candidate
  functions propose. Nothing is claimed across scopes, which keep separate ledgers.
\<close>

theorem mapping_injective:
  assumes "store_start s0" "store_step\<^sup>*\<^sup>* s0 s" "l < length (st_leases s)"
    and first: "getOrCreateObserved busy l entity original1 provenance candidate now s = (Inr e1, outcome, t)"
    and run: "store_step\<^sup>*\<^sup>* t u"
    and second: "getOrCreateObserved busy' l entity original2 provenance' candidate' now' u = (Inr e2, outcome', v)"
    and different: "original1 \<noteq> original2"
  shows "me_Synthetic e1 \<noteq> me_Synthetic e2"
proof -
  have inv: "store_inv s" using assms(1,2) by (rule reachable_store_inv)
  have st: "store_step\<^sup>*\<^sup>* s t" by (rule getOrCreate_steps [OF inv assms(3) first])
  have su: "store_step\<^sup>*\<^sup>* s u" using st run(1) by (rule rtranclp_trans)
  have invu: "store_inv u" "l < length (st_leases u)"
    using store_sys.run_inv [OF su inv] store_leD(3) [OF store_mono.run_rel [OF su inv]] assms(3) by auto
  have tv: "store_step\<^sup>*\<^sup>* t v" using run(1) getOrCreate_steps [OF invu second] by (rule rtranclp_trans)
  note live = getOrCreate_live [OF invu(1) second]
  obtain e1' where 1: "gm_get (ss_reverse (st_heap v ! lease_ptr v l)) (entity, me_Synthetic e1) = Some e1'"
    "me_Original e1' = original1"
    using mapping_kept [OF inv assms(3) first tv live] by metis
  obtain e2' where "gm_get (ss_reverse (st_heap v ! lease_ptr v l)) (entity, me_Synthetic e2) = Some e2'"
    "me_Original e2' = original2"
    using mapping_kept [OF invu second rtranclp.rtrancl_refl live] by metis
  with 1 different show ?thesis by auto
qed

theorem mapping_injective_witness:
  "me_Synthetic demo_entry \<noteq> me_Synthetic demo_entry2 \<and> mo_collisions demo_outcome2 = 1"
  using mapping_injective [OF demo_start demo_run demo_leases demo_mapped_eq [unfolded demo_goc_def]
      rtranclp.rtrancl_refl demo_second_eq [unfolded demo_goc_def]]
  by (simp add: demo_outcome2_def)

text \<open>
  No nil map. While a lease is live its scope has not been wiped: no call of \<open>GetOrCreate\<close>
  or \<open>GetOrCreateRelation\<close> in a reachable store assigns into a nil map.
\<close>

theorem no_nil_map_panic:
  assumes "store_start s0" "store_step\<^sup>*\<^sup>* s0 s" "l < length (st_leases s)"
  shows "fst (getOrCreateObserved busy l entity original provenance candidate now s) \<noteq> Inl PanicNilMap
    \<and> fst (getOrCreateRelationObserved busy l key candidate now s) \<noteq> Inl PanicNilMap"
proof (cases "lockOperation l s")
  case True
  have inv: "store_inv s" using assms(1,2) by (rule reachable_store_inv)
  obtain s1 expired where reclaim: "reclaimAvailableExpired busy now s = (s1, expired)" by fastforce
  note s1 = reclaim_inv [OF inv reclaim]
  then have same: "st_leases s1 = st_leases s" by (blast dest: keeps_heldD(1))
  note scope = live_lease_scope(2) [OF inv assms(3) True]
  have scope1: "gm_get (st_scopes s1) (ss_id (st_heap s1 ! lease_ptr s l)) = Some (lease_ptr s l)"
    using live_lease_scope(2) [of s1 l] s1 True assms(3) same lease_same [OF same] by simp
  have s: "goc_pass (lease_ptr s l) entity original provenance cand now [] s \<noteq> Some (Inl PanicNilMap, o', t)"
    "gor_pass (lease_ptr s l) key cand now [] s \<noteq> Some (Inl PanicNilMap, o', t)" for cand o' t
    using goc_pass_inv [OF inv scope] gor_pass_inv [OF inv scope] by blast+
  moreover have "goc_pass (lease_ptr s l) entity original provenance cand now expired s1 \<noteq> Some (Inl PanicNilMap, o', t)"
    "gor_pass (lease_ptr s l) key cand now expired s1 \<noteq> Some (Inl PanicNilMap, o', t)" for cand o' t
    using goc_pass_inv [OF _ scope1] gor_pass_inv [OF _ scope1] s1 by blast+
  ultimately show ?thesis
    using reclaim True
    by (auto simp: getOrCreateObserved_def getOrCreateRelationObserved_def split: option.split prod.splits)
qed (simp add: getOrCreateObserved_def getOrCreateRelationObserved_def split: option.split)

theorem no_nil_map_panic_witness:
  "fst (getOrCreateRelationObserved (\<lambda>_. False) 0 ''k'' (Some demo_cand) 6 demo_held) \<noteq> Inl PanicNilMap"
  using no_nil_map_panic [OF demo_start demo_run demo_leases] by blast

text \<open>
  Last release. Releasing the last live lease of a closing scope removes the scope from the
  index, empties its three ledgers, gives its entries back to the global counter, and leaves a
  tombstone that refuses \<open>Acquire\<close> until its expiry; a second \<open>Release\<close> of the lease does nothing.
\<close>

theorem last_release_wipes:
  assumes "store_start s0" "store_step\<^sup>*\<^sup>* s0 s" "l < length (st_leases s)" "lockOperation l s"
    and "ss_state (st_heap s ! lease_ptr s l) = lifecycleClosing"
    and "ss_inFlight (st_heap s ! lease_ptr s l) = 1"
    and "validProfile profile" "now' < now + cfg_TTL (st_config s)"
  shows "let p = lease_ptr s l; i = ss_id (st_heap s ! p); t = lease_Release l now s
    in gm_get (st_scopes t) i = None
      \<and> ss_forward (st_heap t ! p) = [] \<and> ss_reverse (st_heap t ! p) = [] \<and> ss_relations (st_heap t ! p) = []
      \<and> st_total t = st_total s - int (entryCount (st_heap s ! p))
      \<and> fst (acquireObserved busy i profile now' t) = Inl errScopeClosed
      \<and> lease_Release l now'' t = t"
proof -
  have inv: "store_inv s" using assms(1,2) by (rule reachable_store_inv)
  let ?p = "lease_ptr s l" and ?d = "fst (release_drop l s)" and ?t = "lease_Release l now s"
  note e = release_drop_effect [OF inv assms(3,4)] and sc = live_lease_scope [OF inv assms(3,4)]
  have core: "store_core ?d" using release_drop_inv [OF inv assms(3)] store_invD(1) by blast
  have t: "?t = wipeAndRemoveLocked ?p now ?d" using inv assms(3-6) by (rule lease_Release_last)
  have d: "?p < length (st_heap ?d)" "ss_id (st_heap ?d ! ?p) = ss_id (st_heap s ! ?p)"
    "gm_get (st_scopes ?d) (ss_id (st_heap ?d ! ?p)) = Some ?p" using e sc by simp_all
  note w = wipe_effect [OF core d(1,3), of now]
  have gone: "gm_get (st_scopes ?t) (ss_id (st_heap s ! ?p)) = None" unfolding t using w(1) d(2) by simp
  have cell: "st_heap ?t ! ?p = wiped (st_heap ?d ! ?p)" unfolding t using w(2) d(1) by simp
  obtain m where m: "gm_get (st_tombs ?t) (ss_id (st_heap s ! ?p)) = Some m"
    "tm_expiresAt m = now + cfg_TTL (st_config s)"
    using w(4) d(2) e(3) unfolding t by auto
  have "gm_get (st_tombs (pruneTombstonesLocked now' ?t)) (ss_id (st_heap s ! ?p)) = Some m"
    using m assms(8) by (intro prune_keeps_unexpired) simp_all
  then have refused: "fst (acquireObserved busy (ss_id (st_heap s ! ?p)) profile now' ?t) = Inl errScopeClosed"
    using assms(7) gone by (simp add: acquireObserved_def Let_def)
  have total: "st_total ?t = st_total s - int (entryCount (st_heap s ! ?p))"
    unfolding t using release_total [of l s] wipe_total [OF d(3), of now] e(4) sc(1)
    by simp
  have "\<not> lockOperation l ?t"
    using lease_Release_lease [OF inv assms(3), of now] assms(3) by (simp add: lockOperation_def)
  with gone cell refused total show ?thesis
    by (simp add: Let_def lease_Release_released)
qed

theorem last_release_wipes_witness:
  "st_total (lease_Release 0 8 demo_closing) = st_total demo_closing - 1"
  using last_release_wipes [OF demo_start demo_closing_run demo_closing_lease(1-4),
      of ProfileStandard 9 8 "\<lambda>_. False" 9] demo_closing_lease(5,6)
  by (simp add: Let_def validProfile_def)

text \<open>
  A cleared scope stays closed. When \<open>Clear\<close> completes on a retained scope, an \<open>Acquire\<close> of
  the same identifier before the tombstone expires is refused with \<open>errScopeClosed\<close>.
\<close>

theorem cleared_scope_refused:
  assumes "store_start s0" "store_step\<^sup>*\<^sup>* s0 s" "gm_get (st_scopes s) i = Some p"
    and c: "Clear i now s = (Inr ClearCompleted, t)"
    and "validProfile profile" "now' < now + cfg_TTL (st_config s)"
  shows "fst (acquireObserved busy i profile now' t) = Inl errScopeClosed"
proof -
  have inv: "store_inv s" using assms(1,2) by (rule reachable_store_inv)
  let ?s = "upd_scope p (\<lambda>sc. sc\<lparr>ss_state := lifecycleClosing\<rparr>) (pruneTombstonesLocked now s)"
  note sc = core_scope [OF store_invD(1) [OF inv] assms(3)]
  have core: "store_core ?s" using store_invD(1) [OF inv] sc(1) by simp
  have s: "p < length (st_heap ?s)" "ss_id (st_heap ?s ! p) = i"
    "gm_get (st_scopes ?s) (ss_id (st_heap ?s ! p)) = Some p" using sc assms(3) by (simp_all add: upd_scope_heap)
  have t: "t = wipeAndRemoveLocked p now ?s"
    using c assms(3) by (auto simp: Clear_def Let_def split: if_splits)
  note w = wipe_effect [OF core s(1,3), of now]
  have gone: "gm_get (st_scopes t) i = None" unfolding t using w(1) s(2) by simp
  obtain m where m: "gm_get (st_tombs t) i = Some m" "tm_expiresAt m = now + cfg_TTL (st_config s)"
    using w(4) s(2) unfolding t by auto
  have "gm_get (st_tombs (pruneTombstonesLocked now' t)) i = Some m"
    using m assms(6) by (intro prune_keeps_unexpired) simp_all
  with assms(5) gone show ?thesis by (simp add: acquireObserved_def Let_def)
qed

theorem cleared_scope_refused_witness:
  "fst (acquireObserved (\<lambda>_. False) ''s1'' ProfileStrict 12 (snd (Clear ''s1'' 8 demo_idle))) = Inl errScopeClosed"
  using cleared_scope_refused [OF demo_start demo_idle_run demo_idle_facts(1,2), of ProfileStrict 12 "\<lambda>_. False"]
    demo_idle_facts(3) by (simp add: validProfile_def)

text \<open>
  A capacity refusal is justified. When \<open>Acquire\<close> answers \<open>errCapacityExceeded\<close>, the store
  holds \<open>MaxScopes\<close> scopes and none of them can be reclaimed: each is locked by somebody at that
  moment, or held by a lease, or neither closing nor expired.
\<close>

theorem capacity_refusal_justified:
  assumes "store_start s0" "store_step\<^sup>*\<^sup>* s0 s"
    and refused: "acquireObserved busy i profile now s = (Inl (errCapacityExceeded res), expired, t)"
  shows "res = capacityScope \<and> int (length (st_scopes t)) = cfg_MaxScopes (st_config t)
    \<and> (\<forall>j p. gm_get (st_scopes t) j = Some p \<longrightarrow> busy p \<or> \<not> reapable now (st_heap t ! p))"
proof -
  have inv: "store_inv (pruneTombstonesLocked now s)"
    using reachable_store_inv [OF assms(1,2)] by (rule store_inv_pruneTombstones)
  have full: "int (length (st_scopes t)) \<ge> cfg_MaxScopes (st_config t)" "res = capacityScope"
    "reapAvailableExpiredLocked busy now (pruneTombstonesLocked now s) = (t, expired)"
    using refused by (auto simp: acquireObserved_def acquire_retained_def Let_def
        split: if_splits option.splits prod.splits)
  then have "store_inv t" using reapAvailable_inv [OF inv] by blast
  then have "int (length (st_scopes t)) \<le> cfg_MaxScopes (st_config t)"
    using core_total(3) store_invD(1) by blast
  with full show ?thesis using reapAvailable_complete [OF inv full(3)] by auto
qed

theorem capacity_refusal_justified_witness:
  "length (st_scopes (snd (snd (acquireObserved (\<lambda>_. False) ''s3'' ProfileStandard 6 demo_full)))) = 2"
  using capacity_refusal_justified [OF demo_start demo_full_run demo_full_refused]
    demo_full_config by (simp add: demo_config_def)

text \<open>
  Coordinate rotations are distinct. No two scopes of a reachable store hold the same
  rotation index, and an index that \<open>coordinateRotationIndexObserved\<close> returns is registered for
  its scope.
\<close>

theorem coordinate_indices_distinct:
  assumes "store_start s0" "store_step\<^sup>*\<^sup>* s0 s"
    and "coordinateRotationIndexObserved i candidate s = (Inr x, collisions, t)"
  shows "gm_get (st_coordByScope t) i = Some x
    \<and> (\<forall>j. gm_get (st_coordByScope t) j = Some x \<longrightarrow> j = i)"
proof -
  have inv: "store_inv s" using assms(1,2) by (rule reachable_store_inv)
  obtain cand where loop: "coordinate_loop i cand 0 s = (Inr x, collisions, t)"
    using assms(3) by (auto simp: coordinateRotationIndexObserved_def split: option.splits)
  have "gm_get (st_coordByScope t) i = Some x" using loop by (rule coordinate_loop_registers)
  moreover have "coord_inv t" using coordinate_loop_inv [OF inv loop] store_invD(3) by blast
  ultimately show ?thesis unfolding coord_inv_def by (metis option.inject)
qed

theorem coordinate_indices_distinct_witness:
  "gm_get (st_coordByScope (snd (snd (coordinateRotationIndexObserved ''s1'' (Some (\<lambda>_. Inr 7)) demo_held)))) ''s1'' = Some 7"
  using coordinate_indices_distinct [OF demo_start demo_run demo_coord] by blast

text \<open>
  Exhaustion reports no collisions. When every one of the 4294967296 candidates collides,
  the loop ends with \<open>errCandidateExhausted\<close>, but the reported number of collisions is 0: the
  source computes \<open>attempt + 1\<close> in 32 bits.
\<close>

theorem exhaustion_reports_zero:
  assumes "gm_get (ss_forward (st_heap s ! p)) (entity, original) = None"
    and "int (entryCount (st_heap s ! p)) < cfg_MaxEntriesPerScope (st_config s)"
    and "st_total s < cfg_MaxTotalEntries (st_config s)"
    and "\<And>attempt. \<exists>v. cand attempt = Inr v \<and> gm_get (ss_reverse (st_heap s ! p)) (entity, v) \<noteq> None"
  shows "goc_pass p entity original provenance cand now expired s =
    Some (Inl errCandidateExhausted, \<lparr>mo_created = False, mo_collisions = 0, mo_expired = expired\<rparr>, s)"
  using assms(1-3) candidate_loop_exhausted [of cand "\<lambda>v. gm_get (ss_reverse (st_heap s ! p)) (entity, v) \<noteq> None" 0,
      OF assms(4)]
  by (simp add: goc_pass_def goc_store_def reserveEntry_def unreserveEntry_def Let_def)

theorem exhaustion_reports_zero_witness:
  "goc_pass 0 ''EMAIL'' ''al@y'' ProvenanceInput (\<lambda>_. Inr ''a@x'') 6 [] demo_mapped =
    Some (Inl errCandidateExhausted, \<lparr>mo_created = False, mo_collisions = 0, mo_expired = []\<rparr>, demo_mapped)"
  by (rule exhaustion_reports_zero) (simp_all add: demo_mapped_facts)

end
