(* ===== verification/PrivacyDrain.thy ===== *)
theory PrivacyDrain
  imports PrivacyStoreProps
begin

text \<open>
  Shutdown of the scope store under interleaving. \<open>clearing\<close> is \<open>clearAll\<close> as a thread among
  others: between its calls of \<open>Clear\<close> any other sections run, and each call reads the clock
  again. \<open>tracked_step\<close> is \<open>store_step\<close> together with the scopes whose last holder has dropped
  its reference but has not yet called \<open>finalizeClosed\<close>.
\<close>

section \<open>What a section does to the retained scopes\<close>

definition idle_closing :: "ScopeStore \<Rightarrow> nat \<Rightarrow> bool" where
  "idle_closing s p \<longleftrightarrow> ss_state (st_heap s ! p) = lifecycleClosing \<and> ss_inFlight (st_heap s ! p) = 0"

text \<open>
  No section but the drop of a reference leaves a closing scope retained without a holder, and
  after shutdown no section adds a scope or opens a closing one.
\<close>

definition idle_le :: "ScopeStore \<Rightarrow> ScopeStore \<Rightarrow> bool" where
  "idle_le s t \<longleftrightarrow> (\<forall>i p. gm_get (st_scopes t) i = Some p \<and> idle_closing t p \<longrightarrow>
     gm_get (st_scopes s) i = Some p \<and> idle_closing s p)"

definition shut_le :: "ScopeStore \<Rightarrow> ScopeStore \<Rightarrow> bool" where
  "shut_le s t \<longleftrightarrow> (st_shutdown s \<longrightarrow> st_shutdown t \<and> (\<forall>i p. gm_get (st_scopes t) i = Some p \<longrightarrow>
     gm_get (st_scopes s) i = Some p \<and>
     (ss_state (st_heap s ! p) = lifecycleClosing \<longrightarrow> ss_state (st_heap t ! p) = lifecycleClosing)))"

definition drain_le :: "ScopeStore \<Rightarrow> ScopeStore \<Rightarrow> bool" where
  "drain_le s t \<longleftrightarrow> idle_le s t \<and> shut_le s t"

lemma drain_le_trans: "drain_le s t \<Longrightarrow> drain_le t u \<Longrightarrow> drain_le s u"
  unfolding drain_le_def idle_le_def shut_le_def by blast

text \<open>A section that only removes scopes, and one that keeps life cycle and reference counts.\<close>

lemma drain_le_shrinks:
  assumes "st_shutdown s \<Longrightarrow> st_shutdown t"
    and "\<And>i p. gm_get (st_scopes t) i = Some p \<Longrightarrow> gm_get (st_scopes s) i = Some p \<and>
      ss_state (st_heap t ! p) = ss_state (st_heap s ! p) \<and>
      ss_inFlight (st_heap t ! p) = ss_inFlight (st_heap s ! p)"
  shows "drain_le s t"
  using assms by (auto simp: drain_le_def idle_le_def shut_le_def idle_closing_def)

lemma drain_le_refl [simp]: "drain_le s s"
  by (rule drain_le_shrinks) auto

lemma drain_le_upd:
  assumes "p < length (st_heap s)"
    and "ss_state (f (st_heap s ! p)) = ss_state (st_heap s ! p)"
    and "ss_inFlight (f (st_heap s ! p)) = ss_inFlight (st_heap s ! p)"
    and "st_scopes t = st_scopes s" "st_shutdown t = st_shutdown s" "st_heap t = st_heap (upd_scope p f s)"
  shows "drain_le s t"
  by (rule drain_le_shrinks) (use assms in \<open>auto simp: upd_scope_def nth_list_update\<close>)

lemma drain_le_reserve:
  "reserveEntry s = Some s1 \<Longrightarrow> drain_le s1 t \<Longrightarrow> drain_le s t"
  by (auto simp: reserveEntry_def drain_le_def idle_le_def shut_le_def idle_closing_def split: if_splits)

lemma drain_le_touch: "p < length (st_heap s) \<Longrightarrow> drain_le s (touchLocked p now s)"
  by (rule drain_le_upd [where f = "\<lambda>sc. sc\<lparr>ss_lastUsed := now, ss_expiresAt := now + cfg_TTL (st_config s)\<rparr>"])
    (simp_all add: touchLocked_def upd_scope_def)

lemma drain_le_prune: "drain_le s (pruneTombstonesLocked now s)"
  by (rule drain_le_shrinks) auto

lemma drain_le_wipe:
  assumes core: "store_core s" and p: "p < length (st_heap s)"
  shows "drain_le s (wipeAndRemoveLocked p now s)"
proof (cases rule: wipe_cases [of p now s])
  case (current s1)
  note e = wipe_effect [OF core p current(1), of now]
  show ?thesis
  proof (rule drain_le_shrinks)
    fix j q assume "gm_get (st_scopes (wipeAndRemoveLocked p now s)) j = Some q"
    then have j: "j \<noteq> ss_id (st_heap s ! p)" "gm_get (st_scopes s) j = Some q"
      unfolding e(1) by (auto split: if_splits)
    then have "q \<noteq> p" using core_scope(2) [OF core j(2)] by auto
    with j(2) show "gm_get (st_scopes s) j = Some q \<and>
        ss_state (st_heap (wipeAndRemoveLocked p now s) ! q) = ss_state (st_heap s ! q) \<and>
        ss_inFlight (st_heap (wipeAndRemoveLocked p now s) ! q) = ss_inFlight (st_heap s ! q)"
      by (simp add: e(2))
  qed (simp add: current)
qed simp

text \<open>Closing a scope and wiping it in the same section, as the reaper does.\<close>

lemma drain_le_reapScope:
  assumes inv: "store_inv s" and i: "gm_get (st_scopes s) i = Some p" and idle: "ss_inFlight (st_heap s ! p) = 0"
  shows "drain_le s (reapScope p now s)"
proof (rule drain_le_shrinks)
  note sc = core_scope [OF store_invD(1) [OF inv]]
  fix j q assume "gm_get (st_scopes (reapScope p now s)) j = Some q"
  then have j: "j \<noteq> i" "gm_get (st_scopes s) j = Some q"
    unfolding reapScope_scopes [OF inv i] by (auto split: if_splits)
  then have "q \<noteq> p" using sc(2) [OF i] sc(2) [OF j(2)] by auto
  with j(2) reapScope_heap [OF sc(1) [OF j(2)] this]
  show "gm_get (st_scopes s) j = Some q \<and>
      ss_state (st_heap (reapScope p now s) ! q) = ss_state (st_heap s ! q) \<and>
      ss_inFlight (st_heap (reapScope p now s) ! q) = ss_inFlight (st_heap s ! q)"
    by simp
next
  have "keeps_held s (reapScope p now s)"
    using keeps_held_reapScope [OF store_invD(1) [OF inv] core_scope(1) [OF store_invD(1) [OF inv] i] idle] .
  then show "st_shutdown s \<Longrightarrow> st_shutdown (reapScope p now s)" by (simp add: keeps_heldD(3))
qed

lemma drain_le_reap:
  assumes inv: "store_inv s" and reap: "reapAvailableExpiredLocked busy now s = (t, reaped)"
  shows "drain_le s t"
proof (rule drain_le_shrinks)
  note ok = core_gm_ok [OF store_invD(1) [OF inv]]
  have ps: "\<forall>p \<in> set (map snd (st_scopes s)). \<exists>j. gm_get (st_scopes s) j = Some p"
    using map_of_is_SomeI [OF ok] by fastforce
  fix i p assume "gm_get (st_scopes t) i = Some p"
  from reapLoop_complete [OF inv ps scopes_distinct [OF inv] _ this] reap
  show "gm_get (st_scopes s) i = Some p \<and> ss_state (st_heap t ! p) = ss_state (st_heap s ! p) \<and>
      ss_inFlight (st_heap t ! p) = ss_inFlight (st_heap s ! p)"
    unfolding reapAvailableExpiredLocked_def by simp
next
  show "st_shutdown s \<Longrightarrow> st_shutdown t"
    using reapAvailable_inv [OF inv reap] keeps_heldD(3) by blast
qed

section \<open>One lemma per section of the store\<close>

lemma drain_le_acquire:
  assumes inv: "store_inv s"
  shows "drain_le s (snd (snd (acquireObserved busy i profile now s)))"
proof (cases "validProfile profile \<and> \<not> st_shutdown s")
  case False
  then show ?thesis
    using drain_le_prune [of s now] by (auto simp: acquireObserved_def Let_def)
next
  case True
  let ?s = "pruneTombstonesLocked now s"
  have inv': "store_inv ?s" using inv by (rule store_inv_pruneTombstones)
  obtain s2 expired where reap: "reapAvailableExpiredLocked busy now ?s = (s2, expired)" by fastforce
  have retained: "drain_le ?s (snd (snd (acquire_retained p profile now ?s)))"
    if "gm_get (st_scopes ?s) i = Some p" for p
    using drain_le_reapScope [OF inv' that, of now] core_scope(1) [OF store_invD(1) [OF inv'] that] True
    by (auto simp: acquire_retained_def Let_def new_lease_def touchLocked_def upd_scope_def drain_le_def
        idle_le_def shut_le_def idle_closing_def nth_list_update split: if_splits)
  have create: "drain_le u (acquire_create i profile now u)"
    if "store_inv u" "\<not> st_shutdown u" for u
    using that core_scope(1) [OF store_invD(1) [OF that(1)]]
    by (auto simp: acquire_create_def new_lease_def new_scopeState_def drain_le_def idle_le_def
        shut_le_def idle_closing_def nth_append split: if_splits)
  have s2: "store_inv s2" "drain_le ?s s2" "st_shutdown s2 = st_shutdown s"
    using reapAvailable_inv [OF inv' reap] drain_le_reap [OF inv' reap] keeps_heldD(3) by force+
  have "drain_le ?s (snd (snd (acquireObserved busy i profile now s)))"
    using True reap retained create [OF inv'] s2 drain_le_trans [OF s2(2) create [OF s2(1)]]
    by (simp add: acquireObserved_def Let_def split: option.split)
  then show ?thesis by (rule drain_le_trans [OF drain_le_prune])
qed

lemma drain_le_goc:
  assumes p: "p < length (st_heap s)"
    and pass: "goc_pass p entity original provenance cand now expired s = Some (r, outcome, t)"
  shows "drain_le s t"
  using pass
proof (cases rule: goc_pass_cases)
  case (known e)
  show ?thesis
    unfolding known(3)
    by (rule drain_le_trans [OF drain_le_upd drain_le_touch])
      (use p in \<open>simp_all add: promoteInputProvenanceLocked_def Let_def\<close>)
next
  case (stored s1 n syn e)
  have heap: "p < length (st_heap s1)" using p reserve_heap [OF stored(3)] by simp
  show ?thesis
    unfolding stored(9)
    by (rule drain_le_reserve [OF stored(3)], rule drain_le_trans [OF drain_le_upd drain_le_touch])
      (use heap in simp_all)
qed simp

lemma drain_le_gor:
  assumes p: "p < length (st_heap s)"
    and pass: "gor_pass p key cand now expired s = Some (r, outcome, t)"
  shows "drain_le s t"
  using pass
proof (cases rule: gor_pass_cases)
  case (known v)
  then show ?thesis using drain_le_touch [OF p] by simp
next
  case (stored s1 n v)
  have heap: "p < length (st_heap s1)" using p reserve_heap [OF stored(3)] by simp
  show ?thesis
    unfolding stored(7)
    by (rule drain_le_reserve [OF stored(3)], rule drain_le_trans [OF drain_le_upd drain_le_touch])
      (use heap in simp_all)
qed simp

lemma drain_le_clear:
  assumes "store_inv s" "Clear i now s = (r, t)"
  shows "drain_le s t"
proof -
  have "st_shutdown s \<Longrightarrow> st_shutdown t"
    using store_leD(2) [OF store_le_clear [OF assms(1), of i now]] assms(2) by simp
  moreover have "gm_get (st_scopes s) j = Some q \<and> (idle_closing t q \<longrightarrow> idle_closing s q) \<and>
      (ss_state (st_heap s ! q) = lifecycleClosing \<longrightarrow> ss_state (st_heap t ! q) = lifecycleClosing)"
    if "gm_get (st_scopes t) j = Some q" for j q
    using Clear_effect [OF assms that] by (cases "j = i") (simp_all add: idle_closing_def)
  ultimately show ?thesis
    unfolding drain_le_def idle_le_def shut_le_def by blast
qed

lemma drain_le_finalize:
  assumes "store_inv s"
  shows "drain_le s (finalizeClosed p now s)"
proof (cases "gm_get (st_scopes s) (ss_id (st_heap s ! p)) = Some p")
  case True
  note core = store_invD(1) [OF assms]
  show ?thesis
    using drain_le_wipe [OF core core_scope(1) [OF core True]] by (simp add: finalizeClosed_def Let_def)
qed (simp add: finalizeClosed_def Let_def)

lemma drain_le_resolve:
  assumes "store_inv s" "l < length (st_leases s)"
  shows "drain_le s (snd (ResolveSynthetic l entity x now s))" "drain_le s (snd (ResolveOriginal l entity x now s))"
  using drain_le_touch live_lease_scope(1) [OF assms]
  by (simp_all add: ResolveSynthetic_def ResolveOriginal_def split: option.split)

lemma coordinate_check_scopes:
  "coordinate_check i s = (r, t) \<Longrightarrow> st_scopes t = st_scopes s"
  using pruneCoordinates_fields
  by (auto simp: coordinate_check_def pruneCoordinateRotationsLocked_def Let_def split: prod.splits option.splits if_splits)

lemma coordinate_register_scopes:
  "coordinate_register i x s = (r, t) \<Longrightarrow> st_scopes t = st_scopes s"
  by (auto simp: coordinate_register_def dest: coordinate_check_scopes split: prod.splits option.splits if_splits)

lemma drain_le_same:
  "st_scopes t = st_scopes s \<Longrightarrow> st_shutdown t = st_shutdown s \<Longrightarrow> st_heap t = st_heap s \<Longrightarrow> drain_le s t"
  by (rule drain_le_shrinks) simp_all

lemma drain_le_coordinate:
  "coordinate_check i s = (r, t) \<Longrightarrow> drain_le s t"
  "coordinate_register i x s = (r', t) \<Longrightarrow> drain_le s t"
  using coordinate_check_frame coordinate_check_scopes coordinate_register_frame coordinate_register_scopes
  by (blast intro: drain_le_same)+

text \<open>Dropping a reference keeps the life cycle; it may leave a closing scope idle.\<close>

lemma state_dec_inFlight:
  "ss_state (xs[k := (xs ! k)\<lparr>ss_inFlight := n\<rparr>] ! p) = ss_state (xs ! p)"
  by (cases "k < length xs") (simp_all add: nth_list_update list_update_beyond)

lemma shut_le_release: "shut_le s (fst (release_drop l s))"
  by (auto simp: shut_le_def release_drop_def Let_def upd_scope_def state_dec_inFlight)

lemma idle_le_release:
  assumes inv: "store_inv s" and l: "l < length (st_leases s)" and t: "release_drop l s = (t, fin)"
    and i: "gm_get (st_scopes t) i = Some p" "idle_closing t p" "\<not> (fin \<and> p = lease_ptr s l)"
  shows "gm_get (st_scopes s) i = Some p \<and> idle_closing s p"
proof (cases "lockOperation l s")
  case False
  with t i show ?thesis by (simp add: release_drop_released)
next
  case True
  note e = release_drop_effect [OF inv l True] and sc = live_lease_scope [OF inv l True]
  show ?thesis
    using e t i sc(1,3)
    by (cases "p = lease_ptr s l") (auto simp: idle_closing_def)
qed

section \<open>Steps with the releases under way\<close>

inductive tracked_step :: "ScopeStore \<times> nat set \<Rightarrow> ScopeStore \<times> nat set \<Rightarrow> bool" where
  tracked_Release: "l < length (st_leases s) \<Longrightarrow> release_drop l s = (t, fin) \<Longrightarrow>
    tracked_step (s, P) (t, if fin then insert (lease_ptr s l) P else P)"
| tracked_Finalize: "p \<in> P \<Longrightarrow> tracked_step (s, P) (finalizeClosed p now s, P - {p})"
| tracked_Other: "store_step s t \<Longrightarrow> take (length (st_leases s)) (st_leases t) = st_leases s \<Longrightarrow>
    tracked_step (s, P) (t, P)"

lemma store_step_drain_le:
  assumes inv: "store_inv s" and "store_step s t"
    and kept: "take (length (st_leases s)) (st_leases t) = st_leases s"
  shows "drain_le s t"
  using assms(2)
proof cases
  case step_Acquire
  then show ?thesis using drain_le_acquire [OF inv] by (metis snd_conv)
next
  case step_Mapping
  then show ?thesis using drain_le_goc live_lease_scope(1) [OF inv] by blast
next
  case step_Relation
  then show ?thesis using drain_le_gor live_lease_scope(1) [OF inv] by blast
next
  case (step_Reclaim busy now expired)
  then have "reapAvailableExpiredLocked busy now (pruneTombstonesLocked now s) = (t, expired)"
    by (simp add: reclaimAvailableExpired_def)
  from drain_le_reap [OF store_inv_pruneTombstones [OF inv] this]
  show ?thesis by (rule drain_le_trans [OF drain_le_prune])
next
  case step_ResolveSynthetic
  then show ?thesis using drain_le_resolve(1) [OF inv] by (metis snd_conv)
next
  case step_ResolveOriginal
  then show ?thesis using drain_le_resolve(2) [OF inv] by (metis snd_conv)
next
  case (step_Release l fin)
  have "\<not> lockOperation l s"
  proof
    assume live: "lockOperation l s"
    have "st_leases t = (st_leases s)[l := (lease_ptr s l, True)]"
      using release_drop_effect(1) [OF inv step_Release(1) live] step_Release(2) by simp
    with kept have "(st_leases s)[l := (lease_ptr s l, True)] ! l = st_leases s ! l" by simp
    with step_Release(1) have "st_leases s ! l = (lease_ptr s l, True)" by simp
    with live show False by (simp add: lockOperation_def)
  qed
  with step_Release(2) show ?thesis by (simp add: release_drop_released)
next
  case step_Finalize
  then show ?thesis using drain_le_finalize [OF inv] by simp
next
  case step_Clear
  then show ?thesis using drain_le_clear [OF inv] by blast
next
  case step_Shutdown
  then show ?thesis by (auto intro: drain_le_shrinks)
next
  case step_CoordinateCheck
  then show ?thesis by (simp add: drain_le_coordinate)
next
  case step_CoordinateRegister
  then show ?thesis by (simp add: drain_le_coordinate)
qed

text \<open>A closing scope that nobody holds is waiting for its \<open>finalizeClosed\<close>.\<close>

definition tracked_inv :: "ScopeStore \<times> nat set \<Rightarrow> bool" where
  "tracked_inv = (\<lambda>(s, P). store_inv s \<and> (\<forall>i p. gm_get (st_scopes s) i = Some p \<and> idle_closing s p \<longrightarrow> p \<in> P))"

definition tracked_start :: "ScopeStore \<times> nat set \<Rightarrow> bool" where
  "tracked_start = (\<lambda>(s, P). store_start s \<and> P = {})"

lemma tracked_invI:
  assumes "store_inv s" "\<And>i p. gm_get (st_scopes s) i = Some p \<Longrightarrow> idle_closing s p \<Longrightarrow> p \<in> P"
  shows "tracked_inv (s, P)"
  using assms unfolding tracked_inv_def by blast

lemma tracked_invD:
  assumes "tracked_inv (s, P)"
  shows "store_inv s" "\<And>i p. gm_get (st_scopes s) i = Some p \<Longrightarrow> idle_closing s p \<Longrightarrow> p \<in> P"
  using assms unfolding tracked_inv_def by blast+

lemma tracked_start_inv: "tracked_start x \<Longrightarrow> tracked_inv x"
  by (auto simp: tracked_start_def tracked_inv_def store_start_inv)
    (auto simp: store_start_def NewScopeStore_def Let_def split: if_splits)

lemma finalize_removes:
  assumes inv: "store_inv s" and i: "gm_get (st_scopes (finalizeClosed p now s)) i = Some p"
  shows "\<not> idle_closing (finalizeClosed p now s) p"
proof
  assume idle: "idle_closing (finalizeClosed p now s) p"
  have s: "gm_get (st_scopes s) i = Some p" "idle_closing s p"
    using drain_le_finalize [OF inv, of p now] i idle unfolding drain_le_def idle_le_def by blast+
  note own = core_scope(1,2) [OF store_invD(1) [OF inv] s(1)]
  have "finalizeClosed p now s = wipeAndRemoveLocked p now s"
    using s own by (simp add: finalizeClosed_def idle_closing_def Let_def)
  with wipe_effect(1) [OF store_invD(1) [OF inv] own(1), of now] s(1) own i show False by simp
qed

lemma tracked_step_inv:
  assumes "tracked_inv x" "tracked_step x y"
  shows "tracked_inv y"
  using assms(2)
proof cases
  case (tracked_Release l s t fin P)
  note d = tracked_invD [OF assms(1) [unfolded tracked_Release]]
  have "store_inv t" using release_drop_inv [OF d(1) tracked_Release(3)] tracked_Release(4) by simp
  then show ?thesis
    unfolding tracked_Release(2)
    by (rule tracked_invI) (use idle_le_release [OF d(1) tracked_Release(3,4)] d(2) in auto)
next
  case (tracked_Finalize q P s now)
  note d = tracked_invD [OF assms(1) [unfolded tracked_Finalize]]
  have "p \<in> P - {q}" if i: "gm_get (st_scopes (finalizeClosed q now s)) i = Some p"
      "idle_closing (finalizeClosed q now s) p" for i p
  proof -
    have "p \<noteq> q" using finalize_removes [OF d(1)] i by blast
    with i d(2) drain_le_finalize [OF d(1), of q now] show ?thesis
      unfolding drain_le_def idle_le_def by blast
  qed
  then show ?thesis
    unfolding tracked_Finalize(2) by (rule tracked_invI [OF finalizeClosed_inv [OF d(1)]])
next
  case (tracked_Other s t P)
  note d = tracked_invD [OF assms(1) [unfolded tracked_Other]]
  have "p \<in> P" if "gm_get (st_scopes t) i = Some p" "idle_closing t p" for i p
    using that d(2) store_step_drain_le [OF d(1) tracked_Other(3,4)] unfolding drain_le_def idle_le_def by blast
  then show ?thesis
    unfolding tracked_Other(2) by (rule tracked_invI [OF store_step_inv [OF d(1) tracked_Other(3)]])
qed

interpretation tracked_sys: invariant_system tracked_start tracked_step tracked_inv
  by unfold_locales (auto intro: tracked_start_inv tracked_step_inv)

lemma tracked_shut_le:
  assumes "tracked_inv x" "tracked_step x y"
  shows "shut_le (fst x) (fst y)"
  using assms(2)
proof cases
  case (tracked_Release l s t fin P)
  then show ?thesis using shut_le_release [of s l] by simp
next
  case (tracked_Finalize q P s now)
  from drain_le_finalize [OF tracked_invD(1) [OF assms(1) [unfolded tracked_Finalize(1)]]]
  show ?thesis by (simp add: tracked_Finalize drain_le_def)
next
  case (tracked_Other s t P)
  from store_step_drain_le [OF tracked_invD(1) [OF assms(1) [unfolded tracked_Other(1)]] tracked_Other(3,4)]
  show ?thesis by (simp add: tracked_Other drain_le_def)
qed

section \<open>The thread that clears\<close>

text \<open>
  The loop of \<open>clearAll\<close> with the sections of other threads in between. The \<open>Clear\<close> of the
  next identifier runs at a time of its own.
\<close>

inductive clearing :: "string list \<Rightarrow> ScopeStore \<times> nat set \<Rightarrow> ScopeStore \<times> nat set \<Rightarrow> bool" where
  clearing_done: "clearing [] x x"
| clearing_other: "tracked_step x y \<Longrightarrow> clearing ids y z \<Longrightarrow> clearing ids x z"
| clearing_Clear: "Clear i now s = (r, t) \<Longrightarrow> clearing ids (t, P) z \<Longrightarrow> clearing (i # ids) (s, P) z"

text \<open>The loop of \<open>clearAll\<close> that nobody interrupts is one of these runs.\<close>

lemma clear_each_clearing: "clearing ids (s, P) (snd (clear_each clock k ids (summary, s)), P)"
proof (induction ids arbitrary: k summary s)
  case (Cons i ids)
  obtain r t where c: "Clear i (clock k) s = (r, t)" by fastforce
  show ?case
    by (rule clearing_Clear [OF c]) (use Cons.IH c in \<open>auto split: sum.split ClearResult.split\<close>)
qed (simp add: clearing_done)

lemma clearAll_clearing:
  "clearAll_begin shutdown s = (ids, s1) \<Longrightarrow> clearing ids (s1, P) (snd (clearAll shutdown clock s), P)"
  by (simp add: clearAll_def clear_each_clearing)

definition closing_but :: "string set \<Rightarrow> ScopeStore \<Rightarrow> bool" where
  "closing_but todo s \<longleftrightarrow> st_shutdown s \<and>
     (\<forall>i p. gm_get (st_scopes s) i = Some p \<and> i \<notin> todo \<longrightarrow> ss_state (st_heap s ! p) = lifecycleClosing)"

lemma closing_but_le: "shut_le s t \<Longrightarrow> closing_but todo s \<Longrightarrow> closing_but todo t"
  unfolding shut_le_def closing_but_def by blast

lemma Clear_closing_but:
  assumes inv: "store_inv s" and c: "Clear i now s = (r, t)" and todo: "closing_but (insert i todo) s"
  shows "closing_but todo t"
  unfolding closing_but_def
proof (intro conjI allI impI)
  show "st_shutdown t"
    using store_leD(2) [OF store_le_clear [OF inv, of i now]] c todo by (simp add: closing_but_def)
  fix j q assume "gm_get (st_scopes t) j = Some q \<and> j \<notin> todo"
  with Clear_effect [OF inv c, of j q] todo show "ss_state (st_heap t ! q) = lifecycleClosing"
    by (cases "j = i") (auto simp: closing_but_def)
qed

lemma Clear_tracked_inv:
  assumes "tracked_inv (s, P)" "Clear i now s = (r, t)"
  shows "tracked_inv (t, P)"
proof (rule tracked_invI)
  note d = tracked_invD [OF assms(1)]
  show "store_inv t" using Clear_inv [OF d(1), of i now] assms(2) by simp
  show "p \<in> P" if "gm_get (st_scopes t) j = Some p" "idle_closing t p" for j p
    using that d(2) drain_le_clear [OF d(1) assms(2)] unfolding drain_le_def idle_le_def by blast
qed

lemma clearing_closes:
  "clearing ids x z \<Longrightarrow> tracked_inv x \<Longrightarrow> closing_but (set ids) (fst x) \<Longrightarrow>
     tracked_inv z \<and> closing_but {} (fst z)"
proof (induction rule: clearing.induct)
  case (clearing_other x y ids z)
  have "tracked_inv y" using clearing_other.prems(1) clearing_other.hyps(1) by (rule tracked_step_inv)
  moreover have "closing_but (set ids) (fst y)"
    using tracked_shut_le [OF clearing_other.prems(1) clearing_other.hyps(1)] clearing_other.prems(2)
    by (rule closing_but_le)
  ultimately show ?case by (rule clearing_other.IH)
next
  case (clearing_Clear i now s r t ids P z)
  then have "closing_but (set ids) t"
    by (intro Clear_closing_but [OF tracked_invD(1) [OF clearing_Clear.prems(1)] clearing_Clear.hyps(1)]) simp
  with clearing_Clear.IH Clear_tracked_inv [OF clearing_Clear.prems(1) clearing_Clear.hyps(1)]
  show ?case by simp
qed simp

lemma tracked_run_closing:
  "tracked_step\<^sup>*\<^sup>* x y \<Longrightarrow> tracked_inv x \<Longrightarrow> closing_but {} (fst x) \<Longrightarrow> tracked_inv y \<and> closing_but {} (fst y)"
proof (induction rule: rtranclp_induct)
  case (step y z)
  with tracked_step_inv [OF _ step.hyps(2)] closing_but_le [OF tracked_shut_le [OF _ step.hyps(2)]]
  show ?case by simp
qed simp

lemma clearAll_begin_tracked:
  assumes "tracked_inv (s, P)" "clearAll_begin True s = (ids, s1)"
  shows "tracked_inv (s1, P)" "closing_but (set ids) s1"
proof -
  have "ids = sort (map fst (st_scopes s))" and s1_eq: "s1 = s\<lparr>st_shutdown := True\<rparr>"
    using assms(2) by (simp_all add: clearAll_begin_def Let_def)
  then have "set ids = fst ` set (st_scopes s)" by simp
  note s1 = s1_eq this
  note d = tracked_invD [OF assms(1)]
  show "tracked_inv (s1, P)"
    by (rule tracked_invI) (use d in \<open>auto simp: s1(1) store_inv_shutdown idle_closing_def\<close>)
  have "i \<in> fst ` set (st_scopes s)" if "gm_get (st_scopes s) i = Some p" for i p
    using map_of_SomeD [OF that] by (force intro: rev_image_eqI)
  then show "closing_but (set ids) s1" by (auto simp: closing_but_def s1)
qed

lemma draining_iff:
  "tracked_inv (s, {}) \<Longrightarrow> closing_but {} s \<Longrightarrow> draining {} s"
  by (auto simp: tracked_inv_def closing_but_def draining_def idle_closing_def)

section \<open>Releases in any order\<close>

definition release_each :: "(nat \<times> gotime) list \<Rightarrow> ScopeStore \<Rightarrow> ScopeStore" where
  "release_each = fold (\<lambda>(l, now). lease_Release l now)"

lemma release_each_simps [simp]:
  "release_each [] s = s" "release_each ((l, now) # rs) s = release_each rs (lease_Release l now s)"
  by (simp_all add: release_each_def)

lemma released_stays:
  assumes "store_inv s" "l < length (st_leases s)" "\<not> lockOperation k s \<or> k = l" "k < length (st_leases s)"
  shows "\<not> lockOperation k (lease_Release l now s)"
  using assms lease_Release_lease [OF assms(1,2), of now] by (cases "k = l") (auto simp: lockOperation_def)

lemma release_each_drains:
  assumes "store_inv s" "draining {} s" "fst ` set rs \<subseteq> {..<length (st_leases s)}"
    and "\<And>l. l < length (st_leases s) \<Longrightarrow> l \<notin> fst ` set rs \<Longrightarrow> \<not> lockOperation l s"
  shows "st_scopes (release_each rs s) = [] \<and> st_total (release_each rs s) = 0"
  using assms
proof (induction rs arbitrary: s)
  case Nil
  then show ?case by (simp add: released_store_empty)
next
  case (Cons r rs)
  obtain l now where r: "r = (l, now)" by fastforce
  let ?t = "lease_Release l now s"
  have l: "l < length (st_leases s)" using Cons.prems(3) r by simp
  have len: "length (st_leases ?t) = length (st_leases s)"
    using lease_Release_lease [OF Cons.prems(1) l, of now] by simp
  have "st_scopes (release_each rs ?t) = [] \<and> st_total (release_each rs ?t) = 0"
  proof (rule Cons.IH)
    show "store_inv ?t" using Cons.prems(1) l by (rule lease_Release_inv)
    show "draining {} ?t" using Cons.prems(1) l Cons.prems(2) by (rule lease_Release_draining)
    show "fst ` set rs \<subseteq> {..<length (st_leases ?t)}" using Cons.prems(3) len by simp
    fix k assume k: "k < length (st_leases ?t)" "k \<notin> fst ` set rs"
    then have "\<not> lockOperation k s \<or> k = l" using Cons.prems(4) [of k] r len by auto
    with k(1) show "\<not> lockOperation k ?t" unfolding len by (intro released_stays [OF Cons.prems(1) l])
  qed
  then show ?case by (simp add: r)
qed

section \<open>The property\<close>

text \<open>
  C5. Shutdown drains. Let a thread run the sections of \<open>shutdownAndClear\<close> with any sections of
  other threads between them. In every later state each retained scope is closing and is held
  by a lease or waits for the \<open>finalizeClosed\<close> of its last holder, and \<open>Acquire\<close> is refused.
  In such a state with no \<open>finalizeClosed\<close> outstanding, releasing the leases in any order, at
  any times, leaves no scope and no entry; in particular nothing is left when all leases have
  been released already.
\<close>

theorem shutdown_drains:
  assumes "store_start s0" "tracked_step\<^sup>*\<^sup>* (s0, {}) (s, P)"
    and "clearAll_begin True s = (ids, s1)" "clearing ids (s1, P) (t, Q)"
    and "tracked_step\<^sup>*\<^sup>* (t, Q) (u, R)"
  shows "(\<forall>i p. gm_get (st_scopes u) i = Some p \<longrightarrow>
        ss_state (st_heap u ! p) = lifecycleClosing \<and> (0 < ss_inFlight (st_heap u ! p) \<or> p \<in> R))
    \<and> (\<forall>busy i profile now. \<exists>e. fst (acquireObserved busy i profile now u) = Inl e)
    \<and> (R = {} \<longrightarrow> fst ` set releases = {l. l < length (st_leases u) \<and> lockOperation l u} \<longrightarrow>
         st_scopes (release_each releases u) = [] \<and> st_total (release_each releases u) = 0)"
proof -
  have "tracked_inv (s, P)"
    by (rule tracked_sys.reachable_inv [OF _ assms(2)]) (simp add: tracked_start_def assms(1))
  then have "tracked_inv (t, Q)" "closing_but {} t"
    using clearing_closes [OF assms(4)] clearAll_begin_tracked assms(3) by simp_all
  then have u: "tracked_inv (u, R)" "closing_but {} u"
    using tracked_run_closing [OF assms(5)] by simp_all
  have "ss_state (st_heap u ! p) = lifecycleClosing \<and> (0 < ss_inFlight (st_heap u ! p) \<or> p \<in> R)"
    if "gm_get (st_scopes u) i = Some p" for i p
    using that u tracked_invD(2) [OF u(1) that] by (auto simp: closing_but_def idle_closing_def)
  moreover have "\<exists>e. fst (acquireObserved busy i profile now u) = Inl e" for busy i profile now
    using u(2) by (simp add: closing_but_def acquireObserved_def Let_def)
  moreover have "st_scopes (release_each releases u) = [] \<and> st_total (release_each releases u) = 0"
    if "R = {}" "fst ` set releases = {l. l < length (st_leases u) \<and> lockOperation l u}"
    using that u by (intro release_each_drains) (auto intro: draining_iff tracked_invD(1))
  ultimately show ?thesis by blast
qed

lemma demo_tracked: "tracked_step\<^sup>*\<^sup>* (demo_new, {}) (demo_held, {})"
  unfolding demo_held_def
  by (rule r_into_rtranclp, rule tracked_Other [OF acquire_step]) code_simp

theorem shutdown_drains_witness:
  "let u = snd (shutdownAndClear (\<lambda>k. 8 + int k) demo_held)
   in st_scopes (release_each [(0, 20)] u) = [] \<and> fst (acquireObserved (\<lambda>_. False) ''s2'' ProfileStandard 9 u) \<noteq> Inr (1, True)"
proof -
  let ?u = "snd (shutdownAndClear (\<lambda>k. 8 + int k) demo_held)"
  have start: "clearAll_begin True demo_held = ([''s1''], demo_held\<lparr>st_shutdown := True\<rparr>)" by code_simp
  have run: "clearing [''s1''] (demo_held\<lparr>st_shutdown := True\<rparr>, {}) (?u, {})"
    unfolding shutdownAndClear_def using start by (rule clearAll_clearing)
  have leases: "length (st_leases ?u) = 1" "lockOperation 0 ?u" by code_simp+
  then have all: "fst ` set [(0, 20)] = {l. l < length (st_leases ?u) \<and> lockOperation l ?u}" by auto
  note d = shutdown_drains [OF demo_start demo_tracked start run rtranclp.rtrancl_refl, of "[(0, 20)]"]
  have "st_scopes (release_each [(0, 20)] ?u) = []" using d all by blast
  moreover obtain e where "fst (acquireObserved (\<lambda>_. False) ''s2'' ProfileStandard 9 ?u) = Inl e"
    using d by blast
  ultimately show ?thesis unfolding Let_def by simp
qed

end
