(* ===== verification/PrivacyArbitrate.thy ===== *)
theory PrivacyArbitrate
  imports GatewayPrelude
begin

text \<open>
  Arbitration between overlapping privacy findings (\<open>internal/privacy/types.go\<close> and the
  end of \<open>internal/privacy/secrets.go\<close>).

  Detectors report byte spans; \<open>Arbitrate\<close> orders them by confidence, length and registry
  order, accepts greedily every span that overlaps no accepted one, and returns the
  accepted spans by position. The accepted spans are kept in a height-balanced search tree
  over their start, so that the test and the insertion take logarithmic time. The nodes of
  the Go tree are never shared, so a tree of the datatype below is what a root pointer
  reaches; following a nil pointer is the outcome \<open>None\<close>.

  Spans are integers: the lengths and positions of a string are far from the ends of the
  64-bit range, so no subtraction of the code wraps.
\<close>

section \<open>Findings\<close>

datatype MatchKind =
    MatchNER
  | MatchContextualTechnical
  | MatchValidatedRegex
  | MatchStructuredAssignment
  | MatchHighConfidenceSecret

fun kind_value :: "MatchKind \<Rightarrow> nat" where
  "kind_value MatchNER = 1"
| "kind_value MatchContextualTechnical = 2"
| "kind_value MatchValidatedRegex = 3"
| "kind_value MatchStructuredAssignment = 4"
| "kind_value MatchHighConfidenceSecret = 5"

text \<open>The constants are compared as integers: the kinds are linearly ordered by their value.\<close>

lemma kind_value_inj [simp]: "kind_value a = kind_value b \<longleftrightarrow> a = b"
  by (cases a; cases b) simp_all

instantiation MatchKind :: linorder
begin

definition less_eq_MatchKind :: "MatchKind \<Rightarrow> MatchKind \<Rightarrow> bool" where
  "less_eq_MatchKind a b \<longleftrightarrow> kind_value a \<le> kind_value b"

definition less_MatchKind :: "MatchKind \<Rightarrow> MatchKind \<Rightarrow> bool" where
  "less_MatchKind a b \<longleftrightarrow> kind_value a < kind_value b"

instance
  by standard (auto simp: less_eq_MatchKind_def less_MatchKind_def)

end

datatype Category = CategorySecret | CategoryTechnical | CategoryPersonal

record Finding =
  f_Entity :: string
  f_Category :: Category
  f_Kind :: MatchKind
  f_Start :: int
  f_End :: int
  f_RegistryOrder :: int

text \<open>Two spans share a byte; a finding that covers at least one byte.\<close>

definition overlaps :: "Finding \<Rightarrow> Finding \<Rightarrow> bool" where
  "overlaps a b \<longleftrightarrow> f_Start a < f_End b \<and> f_Start b < f_End a"

definition span_ok :: "Finding \<Rightarrow> bool" where
  "span_ok f \<longleftrightarrow> f_Start f < f_End f"

section \<open>Stable sorting\<close>

text \<open>
  \<open>sort.SliceStable\<close> by insertion: an element goes before the first element that is
  strictly greater, so equal elements keep their order.
\<close>

fun insertStable :: "('a \<Rightarrow> 'a \<Rightarrow> bool) \<Rightarrow> 'a \<Rightarrow> 'a list \<Rightarrow> 'a list" where
  "insertStable lt x [] = [x]"
| "insertStable lt x (y # ys) = (if lt y x then y # insertStable lt x ys else x # y # ys)"

definition sliceStable :: "('a \<Rightarrow> 'a \<Rightarrow> bool) \<Rightarrow> 'a list \<Rightarrow> 'a list" where
  "sliceStable lt xs = foldr (insertStable lt) xs []"

lemma mset_insertStable [simp]: "mset (insertStable lt x xs) = add_mset x (mset xs)"
  by (induction xs) auto

lemma mset_sliceStable [simp]: "mset (sliceStable lt xs) = mset xs"
  by (induction xs) (auto simp: sliceStable_def)

lemma set_insertStable [simp]: "set (insertStable lt x xs) = insert x (set xs)"
  by (induction xs) auto

lemma set_sliceStable [simp]: "set (sliceStable lt xs) = set xs"
  by (metis mset_sliceStable set_mset_mset)

text \<open>
  What the documentation of the sort promises needs of the comparison only that it is a
  strict weak order: asymmetric, with \<open>\<lambda>x y. \<not> lt y x\<close> transitive.
\<close>

locale weak_order =
  fixes lt :: "'a \<Rightarrow> 'a \<Rightarrow> bool"
  assumes lt_asym: "lt x y \<Longrightarrow> \<not> lt y x"
    and not_lt_trans: "\<not> lt y x \<Longrightarrow> \<not> lt z y \<Longrightarrow> \<not> lt z x"
begin

lemma sorted_insertStable:
  "sorted_wrt (\<lambda>x y. \<not> lt y x) ys \<Longrightarrow> sorted_wrt (\<lambda>x y. \<not> lt y x) (insertStable lt x ys)"
proof (induction ys)
  case (Cons a ys)
  then show ?case using not_lt_trans[of a x] lt_asym[of a x] by auto
qed simp

lemma sorted_sliceStable: "sorted_wrt (\<lambda>x y. \<not> lt y x) (sliceStable lt xs)"
  by (induction xs) (auto simp: sliceStable_def intro: sorted_insertStable)

lemma insertStable_sorted:
  "(\<And>y. y \<in> set ys \<Longrightarrow> \<not> lt y x) \<Longrightarrow> insertStable lt x ys = x # ys"
  by (cases ys) auto

lemma sliceStable_sorted: "sorted_wrt (\<lambda>x y. \<not> lt y x) xs \<Longrightarrow> sliceStable lt xs = xs"
  by (induction xs) (auto simp: sliceStable_def insertStable_sorted)

text \<open>Stability: the elements that tie with a given one keep their order.\<close>

lemma filter_insertStable:
  "\<not> lt x a \<Longrightarrow> \<not> lt a x \<Longrightarrow>
    filter (\<lambda>y. \<not> lt y a \<and> \<not> lt a y) (insertStable lt x ys)
      = x # filter (\<lambda>y. \<not> lt y a \<and> \<not> lt a y) ys"
  by (induction ys) (auto dest: not_lt_trans)

lemma filter_insertStable_other:
  "lt x a \<or> lt a x \<Longrightarrow>
    filter (\<lambda>y. \<not> lt y a \<and> \<not> lt a y) (insertStable lt x ys)
      = filter (\<lambda>y. \<not> lt y a \<and> \<not> lt a y) ys"
  by (induction ys) auto

lemma sliceStable_stable:
  "filter (\<lambda>y. \<not> lt y a \<and> \<not> lt a y) (sliceStable lt xs)
    = filter (\<lambda>y. \<not> lt y a \<and> \<not> lt a y) xs"
  by (induction xs) (auto simp: sliceStable_def filter_insertStable filter_insertStable_other)

end

section \<open>The interval tree\<close>

datatype intervalNode =
    INil
  | INode (node_finding: Finding) (node_left: intervalNode) (node_right: intervalNode) (node_height: int)

fun intervalHeight :: "intervalNode \<Rightarrow> int" where
  "intervalHeight INil = 0"
| "intervalHeight (INode _ _ _ h) = h"

fun intervalOverlaps :: "intervalNode \<Rightarrow> Finding \<Rightarrow> bool" where
  "intervalOverlaps INil candidate = False"
| "intervalOverlaps (INode f l r _) candidate =
    (if f_End candidate \<le> f_Start f then intervalOverlaps l candidate
     else if f_Start candidate \<ge> f_End f then intervalOverlaps r candidate
     else True)"

fun rotateIntervalLeft :: "intervalNode \<Rightarrow> intervalNode option" where
  "rotateIntervalLeft (INode f l (INode pf pl pr _) _) =
    (let root = INode f l pl (max (intervalHeight l) (intervalHeight pl) + 1)
     in Some (INode pf root pr (max (intervalHeight root) (intervalHeight pr) + 1)))"
| "rotateIntervalLeft _ = None"

fun rotateIntervalRight :: "intervalNode \<Rightarrow> intervalNode option" where
  "rotateIntervalRight (INode f (INode pf pl pr _) r _) =
    (let root = INode f pr r (max (intervalHeight pr) (intervalHeight r) + 1)
     in Some (INode pf pl root (max (intervalHeight pl) (intervalHeight root) + 1)))"
| "rotateIntervalRight _ = None"

fun balanceIntervalNode :: "intervalNode \<Rightarrow> intervalNode option" where
  "balanceIntervalNode INil = None"
| "balanceIntervalNode (INode f l r _) =
    (let h = max (intervalHeight l) (intervalHeight r) + 1;
         balance = intervalHeight l - intervalHeight r
     in if balance > 1 then
          (case l of
             INil \<Rightarrow> None
           | INode _ ll lr _ \<Rightarrow>
               if intervalHeight ll < intervalHeight lr
               then Option.bind (rotateIntervalLeft l) (\<lambda>l'. rotateIntervalRight (INode f l' r h))
               else rotateIntervalRight (INode f l r h))
        else if balance < -1 then
          (case r of
             INil \<Rightarrow> None
           | INode _ rl rr _ \<Rightarrow>
               if intervalHeight rr < intervalHeight rl
               then Option.bind (rotateIntervalRight r) (\<lambda>r'. rotateIntervalLeft (INode f l r' h))
               else rotateIntervalLeft (INode f l r h))
        else Some (INode f l r h))"

fun insertInterval :: "intervalNode \<Rightarrow> Finding \<Rightarrow> intervalNode option" where
  "insertInterval INil finding = Some (INode finding INil INil 1)"
| "insertInterval (INode f l r h) finding =
    (if f_Start finding < f_Start f
     then Option.bind (insertInterval l finding) (\<lambda>l'. balanceIntervalNode (INode f l' r h))
     else Option.bind (insertInterval r finding) (\<lambda>r'. balanceIntervalNode (INode f l r' h)))"

section \<open>Arbitration\<close>

definition priority_less :: "Finding \<Rightarrow> Finding \<Rightarrow> bool" where
  "priority_less a b =
    (if f_Kind a \<noteq> f_Kind b then f_Kind a > f_Kind b
     else if f_End a - f_Start a \<noteq> f_End b - f_Start b then f_End a - f_Start a > f_End b - f_Start b
     else f_RegistryOrder a < f_RegistryOrder b)"

definition start_less :: "Finding \<Rightarrow> Finding \<Rightarrow> bool" where
  "start_less a b \<longleftrightarrow> f_Start a < f_Start b"

fun acceptLoop :: "Finding list \<Rightarrow> intervalNode \<Rightarrow> Finding list \<Rightarrow> (Finding list \<times> intervalNode) option" where
  "acceptLoop [] intervals accepted = Some (accepted, intervals)"
| "acceptLoop (candidate # rest) intervals accepted =
    (if intervalOverlaps intervals candidate then acceptLoop rest intervals accepted
     else Option.bind (insertInterval intervals candidate)
            (\<lambda>intervals'. acceptLoop rest intervals' (accepted @ [candidate])))"

definition Arbitrate :: "Finding list \<Rightarrow> Finding list option" where
  "Arbitrate findings =
    map_option (\<lambda>(accepted, _). sliceStable start_less accepted)
      (acceptLoop (sliceStable priority_less findings) INil [])"

interpretation prio: weak_order priority_less
  by unfold_locales (auto simp: priority_less_def split: if_splits)

interpretation start: weak_order start_less
  by unfold_locales (auto simp: start_less_def)

section \<open>The tree is balanced\<close>

fun interval_avl :: "intervalNode \<Rightarrow> bool" where
  "interval_avl INil = True"
| "interval_avl (INode f l r h) \<longleftrightarrow>
    interval_avl l \<and> interval_avl r \<and> \<bar>intervalHeight l - intervalHeight r\<bar> \<le> 1
    \<and> h = max (intervalHeight l) (intervalHeight r) + 1"

fun interval_inorder :: "intervalNode \<Rightarrow> Finding list" where
  "interval_inorder INil = []"
| "interval_inorder (INode f l r _) = interval_inorder l @ f # interval_inorder r"

fun interval_depth :: "intervalNode \<Rightarrow> nat" where
  "interval_depth INil = 0"
| "interval_depth (INode _ l r _) = Suc (max (interval_depth l) (interval_depth r))"

lemma interval_avl_depth: "interval_avl t \<Longrightarrow> intervalHeight t = int (interval_depth t)"
  by (induction t) auto

lemma interval_avl_nonneg: "interval_avl t \<Longrightarrow> 0 \<le> intervalHeight t"
  by (simp add: interval_avl_depth)

lemma interval_avl_pos: "interval_avl (INode f l r h) \<Longrightarrow> 0 < h"
  using interval_avl_nonneg[of l] by auto

lemma balance_ok:
  assumes "interval_avl l" "interval_avl r" "\<bar>intervalHeight l - intervalHeight r\<bar> \<le> 2"
  shows "\<exists>t'. balanceIntervalNode (INode f l r h) = Some t' \<and> interval_avl t'
    \<and> interval_inorder t' = interval_inorder l @ f # interval_inorder r
    \<and> intervalHeight t' \<le> max (intervalHeight l) (intervalHeight r) + 1
    \<and> max (intervalHeight l) (intervalHeight r) \<le> intervalHeight t'
    \<and> (\<bar>intervalHeight l - intervalHeight r\<bar> \<le> 1
        \<longrightarrow> intervalHeight t' = max (intervalHeight l) (intervalHeight r) + 1)"
proof -
  consider (left) "intervalHeight l - intervalHeight r = 2"
    | (right) "intervalHeight r - intervalHeight l = 2"
    | (even) "\<bar>intervalHeight l - intervalHeight r\<bar> \<le> 1"
    using assms(3) by linarith
  then show ?thesis
  proof cases
    case left
    then obtain lf ll lr lh where l: "l = INode lf ll lr lh"
      using interval_avl_nonneg[OF assms(2)] by (cases l) auto
    show ?thesis
    proof (cases "intervalHeight ll < intervalHeight lr")
      case True
      then obtain pf pl pr ph where "lr = INode pf pl pr ph"
        using assms(1) l interval_avl_nonneg[of ll] by (cases lr) auto
      with True left l assms show ?thesis by (auto simp: Let_def)
    qed (use left l assms in \<open>auto simp: Let_def\<close>)
  next
    case right
    then obtain rf rl rr rh where r: "r = INode rf rl rr rh"
      using interval_avl_nonneg[OF assms(1)] by (cases r) auto
    show ?thesis
    proof (cases "intervalHeight rr < intervalHeight rl")
      case True
      then obtain pf pl pr ph where "rl = INode pf pl pr ph"
        using assms(2) r interval_avl_nonneg[of rr] by (cases rl) auto
      with True right r assms show ?thesis by (auto simp: Let_def)
    qed (use right r assms in \<open>auto simp: Let_def\<close>)
  next
    case even
    then show ?thesis using assms by (auto simp: Let_def)
  qed
qed

declare balanceIntervalNode.simps [simp del]

lemma balance_grown_left:
  assumes "interval_avl l'" "interval_avl r" "\<bar>hl - intervalHeight r\<bar> \<le> 1"
    "hl \<le> intervalHeight l'" "intervalHeight l' \<le> hl + 1"
  shows "\<exists>t'. balanceIntervalNode (INode f l' r h) = Some t' \<and> interval_avl t'
    \<and> interval_inorder t' = interval_inorder l' @ f # interval_inorder r
    \<and> max hl (intervalHeight r) + 1 \<le> intervalHeight t'
    \<and> intervalHeight t' \<le> max hl (intervalHeight r) + 2"
proof -
  have "\<bar>intervalHeight l' - intervalHeight r\<bar> \<le> 2" using assms by linarith
  from balance_ok[OF assms(1,2) this, of f h] assms(3-5) show ?thesis
    by (elim exE) (rule exI, auto simp: max_def split: if_splits)
qed

lemma balance_grown_right:
  assumes "interval_avl l" "interval_avl r'" "\<bar>intervalHeight l - hr\<bar> \<le> 1"
    "hr \<le> intervalHeight r'" "intervalHeight r' \<le> hr + 1"
  shows "\<exists>t'. balanceIntervalNode (INode f l r' h) = Some t' \<and> interval_avl t'
    \<and> interval_inorder t' = interval_inorder l @ f # interval_inorder r'
    \<and> max (intervalHeight l) hr + 1 \<le> intervalHeight t'
    \<and> intervalHeight t' \<le> max (intervalHeight l) hr + 2"
proof -
  have "\<bar>intervalHeight l - intervalHeight r'\<bar> \<le> 2" using assms by linarith
  from balance_ok[OF assms(1,2) this, of f h] assms(3-5) show ?thesis
    by (elim exE) (rule exI, auto simp: max_def split: if_splits)
qed

lemma insertInterval_avl:
  "interval_avl t \<Longrightarrow> \<exists>t'. insertInterval t g = Some t' \<and> interval_avl t'
    \<and> intervalHeight t \<le> intervalHeight t' \<and> intervalHeight t' \<le> intervalHeight t + 1"
proof (induction t)
  case (INode f l r h)
  show ?case
  proof (cases "f_Start g < f_Start f")
    case True
    obtain l' where l': "insertInterval l g = Some l'" "interval_avl l'"
      "intervalHeight l \<le> intervalHeight l'" "intervalHeight l' \<le> intervalHeight l + 1"
      using INode by auto
    with balance_grown_left[OF l'(2), of r "intervalHeight l" f h] INode.prems True
    show ?thesis by (auto simp: algebra_simps)
  next
    case False
    obtain r' where r': "insertInterval r g = Some r'" "interval_avl r'"
      "intervalHeight r \<le> intervalHeight r'" "intervalHeight r' \<le> intervalHeight r + 1"
      using INode by auto
    with balance_grown_right[OF _ r'(2), of l "intervalHeight r" f h] INode.prems False
    show ?thesis by (auto simp: algebra_simps)
  qed
qed simp

lemma insertInterval_inorder:
  assumes "interval_avl t" "insertInterval t g = Some t'" "sorted (map f_Start (interval_inorder t))"
  shows "interval_inorder t' = filter (\<lambda>x. f_Start x \<le> f_Start g) (interval_inorder t)
    @ g # filter (\<lambda>x. f_Start g < f_Start x) (interval_inorder t)"
  using assms
proof (induction t arbitrary: t')
  case (INode f l r h)
  from INode.prems have le: "\<And>x. x \<in> set (interval_inorder l) \<Longrightarrow> f_Start x \<le> f_Start f"
    and ge: "\<And>x. x \<in> set (interval_inorder r) \<Longrightarrow> f_Start f \<le> f_Start x"
    by (auto simp: sorted_append)
  show ?case
  proof (cases "f_Start g < f_Start f")
    case True
    obtain l' where l': "insertInterval l g = Some l'" "interval_avl l'"
      "intervalHeight l \<le> intervalHeight l'" "intervalHeight l' \<le> intervalHeight l + 1"
      using insertInterval_avl[of l g] INode.prems by auto
    with INode.prems True balance_grown_left[of l' r "intervalHeight l" f h]
    have "interval_inorder t' = interval_inorder l' @ f # interval_inorder r" by auto
    moreover have "filter (\<lambda>x. f_Start x \<le> f_Start g) (interval_inorder r) = []"
      using ge True by (force simp: filter_empty_conv)
    moreover have "filter (\<lambda>x. f_Start g < f_Start x) (interval_inorder r) = interval_inorder r"
      using ge True by (force simp: filter_id_conv)
    ultimately show ?thesis
      using INode.IH(1)[OF _ l'(1)] INode.prems True by (simp add: sorted_append)
  next
    case False
    obtain r' where r': "insertInterval r g = Some r'" "interval_avl r'"
      "intervalHeight r \<le> intervalHeight r'" "intervalHeight r' \<le> intervalHeight r + 1"
      using insertInterval_avl[of r g] INode.prems by auto
    with INode.prems False balance_grown_right[of l r' "intervalHeight r" f h]
    have "interval_inorder t' = interval_inorder l @ f # interval_inorder r'" by auto
    moreover have "filter (\<lambda>x. f_Start x \<le> f_Start g) (interval_inorder l) = interval_inorder l"
      using le False by (force simp: filter_id_conv)
    moreover have "filter (\<lambda>x. f_Start g < f_Start x) (interval_inorder l) = []"
      using le False by (force simp: filter_empty_conv)
    ultimately show ?thesis
      using INode.IH(2)[OF _ r'(1)] INode.prems False by (simp add: sorted_append)
  qed
qed simp

text \<open>A tree of depth \<open>d\<close> has at least \<open>2 ^ (d / 2) - 1\<close> nodes: a search takes logarithmic time.\<close>

lemma interval_avl_size:
  "interval_avl t \<Longrightarrow> 2 ^ (interval_depth t div 2) \<le> Suc (length (interval_inorder t))"
proof (induction t)
  case (INode f l r h)
  define a b where "a = interval_depth l" and "b = interval_depth r"
  from INode.prems interval_avl_depth[of l] interval_avl_depth[of r] have ab: "\<bar>int a - int b\<bar> \<le> 1"
    by (simp add: a_def b_def)
  define m where "m = min (a div 2) (b div 2)"
  have "interval_depth (INode f l r h) div 2 \<le> Suc m"
    using ab by (auto simp: m_def a_def[symmetric] b_def[symmetric])
  then have "(2::nat) ^ (interval_depth (INode f l r h) div 2) \<le> 2 ^ Suc m"
    by (rule power_increasing) simp
  also have "\<dots> = 2 ^ m + 2 ^ m" by simp
  also have "\<dots> \<le> 2 ^ (a div 2) + 2 ^ (b div 2)"
    by (intro add_mono power_increasing) (simp_all add: m_def)
  also have "\<dots> \<le> Suc (length (interval_inorder l)) + Suc (length (interval_inorder r))"
    using INode unfolding a_def b_def by (intro add_mono) simp_all
  finally show ?case by simp
qed simp

section \<open>The tree holds disjoint spans in order\<close>

definition spans_apart :: "Finding list \<Rightarrow> bool" where
  "spans_apart xs \<longleftrightarrow> sorted_wrt (\<lambda>a b. f_End a \<le> f_Start b) xs \<and> list_all span_ok xs"

lemma spans_apart_sorted: "spans_apart xs \<Longrightarrow> sorted (map f_Start xs)"
  unfolding spans_apart_def sorted_map
  by (induction xs) (force simp: span_ok_def)+

lemma intervalOverlaps_iff:
  "spans_apart (interval_inorder t) \<Longrightarrow>
    intervalOverlaps t c \<longleftrightarrow> (\<exists>x \<in> set (interval_inorder t). overlaps c x)"
proof (induction t)
  case (INode f l r h)
  then have IH: "intervalOverlaps l c \<longleftrightarrow> (\<exists>x \<in> set (interval_inorder l). overlaps c x)"
      "intervalOverlaps r c \<longleftrightarrow> (\<exists>x \<in> set (interval_inorder r). overlaps c x)"
    and f: "f_Start f < f_End f"
    and le: "\<And>x. x \<in> set (interval_inorder l) \<Longrightarrow> f_End x \<le> f_Start f"
    and ge: "\<And>x. x \<in> set (interval_inorder r) \<Longrightarrow> f_End f \<le> f_Start x"
    by (auto simp: spans_apart_def sorted_wrt_append span_ok_def)
  then show ?case
    unfolding overlaps_def by (force simp: overlaps_def)
qed simp

lemma spans_apart_insert:
  assumes "spans_apart xs" "span_ok c" "\<And>x. x \<in> set xs \<Longrightarrow> \<not> overlaps c x"
  shows "spans_apart (filter (\<lambda>x. f_Start x \<le> f_Start c) xs @ c # filter (\<lambda>x. f_Start c < f_Start x) xs)"
proof -
  have ok: "span_ok x" if "x \<in> set xs" for x
    using assms(1) that by (auto simp: spans_apart_def list_all_iff)
  have a: "f_End x \<le> f_Start c" if "x \<in> set xs" "f_Start x \<le> f_Start c" for x
    using assms(2) assms(3)[OF that(1)] that(2) ok[OF that(1)] by (auto simp: overlaps_def span_ok_def)
  have b: "f_End c \<le> f_Start x" if "x \<in> set xs" "f_Start c < f_Start x" for x
    using assms(2) assms(3)[OF that(1)] that(2) ok[OF that(1)] by (auto simp: overlaps_def span_ok_def)
  have c: "f_End x \<le> f_Start y" if "x \<in> set xs" "f_Start x \<le> f_Start c" "y \<in> set xs" "f_Start c < f_Start y" for x y
    using a[OF that(1,2)] that(4) by simp
  show ?thesis
    using assms a b c
    by (auto simp: spans_apart_def sorted_wrt_append list_all_iff intro: sorted_wrt_filter)
qed

section \<open>The reference: greedy acceptance over a list\<close>

definition greedyStep :: "Finding list \<Rightarrow> Finding \<Rightarrow> Finding list" where
  "greedyStep acc c = (if \<exists>a \<in> set acc. overlaps c a then acc else acc @ [c])"

definition greedy :: "Finding list \<Rightarrow> Finding list" where
  "greedy xs = foldl greedyStep [] xs"

lemma acceptLoop_greedy:
  assumes "interval_avl t" "spans_apart (interval_inorder t)" "set (interval_inorder t) = set acc"
    "list_all span_ok xs"
  shows "\<exists>t'. acceptLoop xs t acc = Some (foldl greedyStep acc xs, t')
    \<and> interval_avl t' \<and> spans_apart (interval_inorder t')
    \<and> set (interval_inorder t') = set (foldl greedyStep acc xs)
    \<and> length (interval_inorder t') = length (interval_inorder t) + length (foldl greedyStep acc xs) - length acc"
  using assms
proof (induction xs arbitrary: t acc)
  case (Cons c xs)
  show ?case
  proof (cases "intervalOverlaps t c")
    case True
    then have "greedyStep acc c = acc"
      using Cons.prems by (auto simp: greedyStep_def intervalOverlaps_iff)
    then show ?thesis using Cons True by auto
  next
    case False
    with Cons.prems have none: "\<not> overlaps c x" if "x \<in> set acc" for x
      using that by (auto simp: intervalOverlaps_iff)
    then have g: "greedyStep acc c = acc @ [c]" by (auto simp: greedyStep_def)
    obtain t1 where t1: "insertInterval t c = Some t1" "interval_avl t1"
      using insertInterval_avl[OF Cons.prems(1)] by blast
    have io: "interval_inorder t1 = filter (\<lambda>x. f_Start x \<le> f_Start c) (interval_inorder t)
        @ c # filter (\<lambda>x. f_Start c < f_Start x) (interval_inorder t)"
      using insertInterval_inorder[OF Cons.prems(1) t1(1) spans_apart_sorted[OF Cons.prems(2)]] .
    have "spans_apart (interval_inorder t1)"
      unfolding io using Cons.prems none by (intro spans_apart_insert) auto
    moreover have "set (interval_inorder t1) = set (acc @ [c])"
      using Cons.prems(3) by (auto simp: io)
    moreover have "length (interval_inorder t1) = Suc (length (interval_inorder t))"
      using sum_length_filter_compl[of "\<lambda>x. f_Start x \<le> f_Start c" "interval_inorder t"]
      by (simp add: io not_le)
    ultimately show ?thesis
      using Cons.IH[OF t1(2), of "acc @ [c]"] Cons.prems(4) False t1(1) g by auto
  qed
qed auto

lemma insertInterval_length:
  "interval_avl t \<Longrightarrow> insertInterval t g = Some t' \<Longrightarrow>
    length (interval_inorder t') = Suc (length (interval_inorder t))"
proof (induction t arbitrary: t')
  case (INode f l r h)
  show ?case
  proof (cases "f_Start g < f_Start f")
    case True
    obtain l' where l': "insertInterval l g = Some l'" "interval_avl l'"
      "intervalHeight l \<le> intervalHeight l'" "intervalHeight l' \<le> intervalHeight l + 1"
      using insertInterval_avl[of l g] INode.prems by auto
    then show ?thesis
      using balance_grown_left[of l' r "intervalHeight l" f h] INode.IH(1)[OF _ l'(1)] INode.prems True by auto
  next
    case False
    obtain r' where r': "insertInterval r g = Some r'" "interval_avl r'"
      "intervalHeight r \<le> intervalHeight r'" "intervalHeight r' \<le> intervalHeight r + 1"
      using insertInterval_avl[of r g] INode.prems by auto
    then show ?thesis
      using balance_grown_right[of l r' "intervalHeight r" f h] INode.IH(2)[OF _ r'(1)] INode.prems False by auto
  qed
qed auto

lemma acceptLoop_total:
  "interval_avl t \<Longrightarrow> length (interval_inorder t) = length acc \<Longrightarrow>
    \<exists>acc' t'. acceptLoop xs t acc = Some (acc', t') \<and> interval_avl t'
      \<and> length (interval_inorder t') = length acc'"
proof (induction xs arbitrary: t acc)
  case (Cons c xs)
  show ?case
  proof (cases "intervalOverlaps t c")
    case False
    obtain t1 where "insertInterval t c = Some t1" "interval_avl t1"
      using insertInterval_avl[OF Cons.prems(1)] by blast
    then show ?thesis
      using Cons.IH[of t1 "acc @ [c]"] Cons.prems False insertInterval_length[of t c t1] by simp
  qed (use Cons in auto)
qed auto

lemma greedy_prefix: "\<exists>ys. foldl greedyStep acc xs = acc @ ys"
proof (induction xs arbitrary: acc)
  case (Cons c xs)
  then obtain ys where "foldl greedyStep (greedyStep acc c) xs = greedyStep acc c @ ys" by blast
  moreover have "\<exists>zs. greedyStep acc c = acc @ zs" by (auto simp: greedyStep_def)
  ultimately show ?case by auto
qed simp

lemma greedy_mset: "mset (foldl greedyStep acc xs) \<subseteq># mset acc + mset xs"
proof (induction xs arbitrary: acc)
  case (Cons c xs)
  have "mset (greedyStep acc c) + mset xs \<subseteq># mset acc + mset (c # xs)"
    by (auto simp: greedyStep_def)
  from subset_mset.order_trans[OF Cons.IH this] show ?case by simp
qed simp

lemma overlaps_sym: "overlaps a b \<longleftrightarrow> overlaps b a"
  by (auto simp: overlaps_def)

lemma overlaps_self: "span_ok a \<Longrightarrow> overlaps a a"
  by (simp add: overlaps_def span_ok_def)

definition mutually_apart :: "Finding list \<Rightarrow> bool" where
  "mutually_apart xs \<longleftrightarrow> distinct xs \<and> (\<forall>a \<in> set xs. \<forall>b \<in> set xs. a \<noteq> b \<longrightarrow> \<not> overlaps a b)"

lemma greedy_apart:
  "mutually_apart acc \<Longrightarrow> list_all span_ok acc \<Longrightarrow> list_all span_ok xs \<Longrightarrow>
    mutually_apart (foldl greedyStep acc xs)"
proof (induction xs arbitrary: acc)
  case (Cons c xs)
  have "mutually_apart (greedyStep acc c)"
    using Cons.prems overlaps_self[of c]
    by (auto simp: greedyStep_def mutually_apart_def overlaps_sym)
  moreover have "list_all span_ok (greedyStep acc c)"
    using Cons.prems by (auto simp: greedyStep_def)
  ultimately show ?case using Cons by simp
qed simp

lemma greedy_maximal:
  assumes "sorted_wrt (\<lambda>a b. \<not> priority_less b a) (acc @ xs)" "x \<in> set xs"
  shows "\<exists>a \<in> set (foldl greedyStep acc xs). a = x \<or> (overlaps x a \<and> \<not> priority_less x a)"
  using assms
proof (induction xs arbitrary: acc)
  case (Cons c xs)
  obtain ys where ys: "foldl greedyStep (greedyStep acc c) xs = greedyStep acc c @ ys"
    using greedy_prefix by blast
  show ?case
  proof (cases "x = c")
    case True
    have "\<exists>a \<in> set (greedyStep acc c). a = c \<or> (overlaps c a \<and> \<not> priority_less c a)"
      using Cons.prems(1) by (auto simp: greedyStep_def sorted_wrt_append)
    with ys True show ?thesis by auto
  next
    case False
    with Cons show ?thesis
      by (auto simp: greedyStep_def sorted_wrt_append)
  qed
qed simp

lemma apart_by_start:
  assumes "mutually_apart xs" "list_all span_ok xs" "sorted_wrt (\<lambda>a b. \<not> start_less b a) xs"
  shows "spans_apart xs"
  using assms
proof (induction xs)
  case (Cons x xs)
  then have "spans_apart xs" by (auto simp: mutually_apart_def)
  moreover have "f_End x \<le> f_Start y" if "y \<in> set xs" for y
  proof -
    have "\<not> overlaps x y" "f_Start x \<le> f_Start y" "span_ok y"
      using Cons.prems that by (auto simp: mutually_apart_def start_less_def list_all_iff)
    then show ?thesis by (auto simp: overlaps_def span_ok_def)
  qed
  ultimately show ?case using Cons.prems by (auto simp: spans_apart_def)
qed (simp add: spans_apart_def)

section \<open>What arbitration promises\<close>

text \<open>
  C33. Arbitration never follows a nil pointer and keeps its interval tree a height-balanced tree of the accepted findings, whatever the
  spans: after the loop every node stores its height, siblings differ in depth by at most
  one, the tree holds one node per accepted finding, and a search visits at most
  logarithmically many nodes.
\<close>

theorem interval_tree_balanced:
  "\<exists>accepted intervals. acceptLoop (sliceStable priority_less findings) INil [] = Some (accepted, intervals)
    \<and> interval_avl intervals \<and> length (interval_inorder intervals) = length accepted
    \<and> 2 ^ (interval_depth intervals div 2) \<le> Suc (length accepted)"
proof -
  obtain acc t where "acceptLoop (sliceStable priority_less findings) INil [] = Some (acc, t)"
    "interval_avl t" "length (interval_inorder t) = length acc"
    using acceptLoop_total[of INil "[]" "sliceStable priority_less findings"] by auto
  then show ?thesis using interval_avl_size[of t] by auto
qed

lemma Arbitrate_greedy:
  assumes "list_all span_ok findings"
  shows "Arbitrate findings = Some (sliceStable start_less (greedy (sliceStable priority_less findings)))"
  using acceptLoop_greedy[of INil "[]" "sliceStable priority_less findings"] assms
  by (auto simp: Arbitrate_def greedy_def spans_apart_def list_all_iff)

text \<open>
  C34. The interval tree is an exact replacement for the quadratic scan: on findings that cover at least one byte each,
  arbitration returns what comparing every candidate, by decreasing priority, with every
  accepted finding returns, sorted by position.
\<close>

theorem arbitrate_equals_greedy:
  assumes "list_all span_ok findings"
  shows "Arbitrate findings = Some (sliceStable start_less (greedy (sliceStable priority_less findings)))"
  using assms by (rule Arbitrate_greedy)

lemma Arbitrate_sound:
  assumes "list_all span_ok findings"
  shows "\<exists>out. Arbitrate findings = Some out \<and> spans_apart out \<and> mset out \<subseteq># mset findings
    \<and> (\<forall>f \<in> set findings. \<exists>a \<in> set out. a = f \<or> overlaps f a \<and> \<not> priority_less f a)"
proof -
  let ?sorted = "sliceStable priority_less findings"
  let ?out = "sliceStable start_less (greedy ?sorted)"
  have sub: "mset (greedy ?sorted) \<subseteq># mset findings"
    using greedy_mset[of "[]" ?sorted] by (simp add: greedy_def)
  then have "set (greedy ?sorted) \<subseteq> set findings"
    by (metis set_mset_mono set_mset_mset)
  then have ok: "list_all span_ok ?out" using assms by (auto simp: list_all_iff)
  have "mutually_apart (greedy ?sorted)"
    unfolding greedy_def
    by (rule greedy_apart) (use assms in \<open>auto simp: mutually_apart_def list_all_iff\<close>)
  then have "mutually_apart ?out"
    by (metis mutually_apart_def mset_sliceStable mset_eq_imp_distinct_iff set_sliceStable)
  with ok have "spans_apart ?out" by (intro apart_by_start) (auto intro: start.sorted_sliceStable)
  moreover have "\<exists>a \<in> set ?out. a = f \<or> overlaps f a \<and> \<not> priority_less f a" if "f \<in> set findings" for f
    using greedy_maximal[of "[]" ?sorted f] prio.sorted_sliceStable[of findings] that
    by (auto simp: greedy_def)
  ultimately show ?thesis using Arbitrate_greedy[OF assms] sub by auto
qed

text \<open>
  C35. On non-empty spans, arbitration returns disjoint spans in source order, a sub-multiset of what it was given, and drops a finding only in favour of an
  accepted one that overlaps it and does not have a lower priority.
\<close>

theorem arbitrate_sound:
  assumes "list_all span_ok findings"
  shows "\<exists>out. Arbitrate findings = Some out \<and> spans_apart out \<and> mset out \<subseteq># mset findings
    \<and> (\<forall>f \<in> set findings. \<exists>a \<in> set out. a = f \<or> overlaps f a \<and> \<not> priority_less f a)"
  using assms by (rule Arbitrate_sound)

text \<open>Findings for the concrete checks: kind, start, end and order.\<close>

definition exFinding :: "MatchKind \<Rightarrow> int \<Rightarrow> int \<Rightarrow> int \<Rightarrow> Finding" where
  "exFinding k s e ord = \<lparr>f_Entity = ''X'', f_Category = CategorySecret, f_Kind = k, f_Start = s,
    f_End = e, f_RegistryOrder = ord\<rparr>"

lemmas arbitrate_eval =
  exFinding_def sliceStable_def priority_less_def start_less_def overlaps_def span_ok_def greedy_def
  greedyStep_def Arbitrate_def spans_apart_def balanceIntervalNode.simps

definition exOverlapping :: "Finding list" where
  "exOverlapping = [exFinding MatchNER 0 9 0, exFinding MatchHighConfidenceSecret 4 6 1,
    exFinding MatchValidatedRegex 5 12 2, exFinding MatchNER 6 8 3]"

theorem arbitrate_equals_greedy_witness:
  "Arbitrate exOverlapping = Some [exFinding MatchHighConfidenceSecret 4 6 1, exFinding MatchNER 6 8 3]"
  using arbitrate_equals_greedy[of exOverlapping]
  by (simp add: arbitrate_eval exOverlapping_def less_MatchKind_def)

theorem arbitrate_sound_witness:
  "\<exists>out. Arbitrate exOverlapping = Some out \<and> spans_apart out \<and> mset out \<subseteq># mset exOverlapping"
  using arbitrate_sound[of exOverlapping]
  by (auto simp: exOverlapping_def exFinding_def span_ok_def)

text \<open>
  The hypothesis is needed: an empty span, which no detector of the package reports, may
  end up before a span that starts at the same byte, and the search then misses the latter.
\<close>

lemma arbitrate_empty_span_overlaps:
  "Arbitrate [exFinding MatchValidatedRegex 3 5 0, exFinding MatchValidatedRegex 6 7 1,
      exFinding MatchValidatedRegex 3 3 2, exFinding MatchNER 4 6 3]
    = Some [exFinding MatchValidatedRegex 3 5 0, exFinding MatchValidatedRegex 3 3 2,
        exFinding MatchNER 4 6 3, exFinding MatchValidatedRegex 6 7 1]
    \<and> overlaps (exFinding MatchNER 4 6 3) (exFinding MatchValidatedRegex 3 5 0)"
  by (simp add: arbitrate_eval less_MatchKind_def)

end
