(* ===== verification/GoRegexp.thy ===== *)
theory GoRegexp
  imports GatewayPrelude
begin

text \<open>
  The fragment of Go's \<open>regexp\<close> package that the gateway's patterns use: byte classes, the
  anchors, ASCII word boundaries, concatenation, alternation, greedy and lazy repetition and
  numbered groups, with the leftmost-first semantics of the package.

  The package matches runes. Every class of the source is a set of ASCII characters (or a
  fixed UTF-8 sequence), so a match is found at the same bytes when the text is read byte by
  byte. \<open>rmatch\<close> is a backtracking matcher with an explicit continuation: it tries the
  alternatives in the order of their priority and returns the first success. \<open>re_match\<close> is
  the language of a pattern, which the matcher is proved to decide.
\<close>

section \<open>Patterns\<close>

datatype re =
    REps
  | RCls "char \<Rightarrow> bool"
  | RBegin
  | REnd
  | RWordB
  | RNotWordB
  | RSeq re re
  | RAlt re re
  | RStar re
  | RLazyStar re
  | RGroup nat re

fun rLit :: "string \<Rightarrow> re" where
  "rLit [] = REps"
| "rLit [c] = RCls (\<lambda>x. x = c)"
| "rLit (c # cs) = RSeq (RCls (\<lambda>x. x = c)) (rLit cs)"

fun rAny :: "re list \<Rightarrow> re" where
  "rAny [] = RCls (\<lambda>_. False)"
| "rAny [r] = r"
| "rAny (r # rs) = RAlt r (rAny rs)"

fun rSeq :: "re list \<Rightarrow> re" where
  "rSeq [] = REps"
| "rSeq [r] = r"
| "rSeq (r # rs) = RSeq r (rSeq rs)"

definition rOpt :: "re \<Rightarrow> re" where "rOpt r = RAlt r REps"
definition rPlus :: "re \<Rightarrow> re" where "rPlus r = RSeq r (RStar r)"

fun rTimes :: "nat \<Rightarrow> re \<Rightarrow> re" where
  "rTimes 0 r = REps"
| "rTimes (Suc n) r = RSeq r (rTimes n r)"

text \<open>\<open>r{0,n}\<close>, \<open>r{m,n}\<close> and \<open>r{m,}\<close>, all greedy.\<close>

fun rUpTo :: "nat \<Rightarrow> re \<Rightarrow> re" where
  "rUpTo 0 r = REps"
| "rUpTo (Suc n) r = RAlt (RSeq r (rUpTo n r)) REps"

definition rBetween :: "nat \<Rightarrow> nat \<Rightarrow> re \<Rightarrow> re" where
  "rBetween m n r = RSeq (rTimes m r) (rUpTo (n - m) r)"

definition rAtLeast :: "nat \<Rightarrow> re \<Rightarrow> re" where
  "rAtLeast m r = RSeq (rTimes m r) (RStar r)"

definition inRange :: "char \<Rightarrow> char \<Rightarrow> char \<Rightarrow> bool" where
  "inRange a b c \<longleftrightarrow> a \<le> c \<and> c \<le> b"

definition isUpperA :: "char \<Rightarrow> bool" where "isUpperA c = inRange CHR ''A'' CHR ''Z'' c"
definition isLowerA :: "char \<Rightarrow> bool" where "isLowerA c = inRange CHR ''a'' CHR ''z'' c"
definition isDigitA :: "char \<Rightarrow> bool" where "isDigitA c = inRange CHR ''0'' CHR ''9'' c"
definition isAlphaA :: "char \<Rightarrow> bool" where "isAlphaA c \<longleftrightarrow> isLowerA c \<or> isUpperA c"
definition isAlnumA :: "char \<Rightarrow> bool" where "isAlnumA c \<longleftrightarrow> isAlphaA c \<or> isDigitA c"
definition isWordA :: "char \<Rightarrow> bool" where "isWordA c \<longleftrightarrow> isAlnumA c \<or> c = CHR ''_''"

text \<open>The class of blanks of the package, written \<open>\s\<close> in a pattern.\<close>

definition isSpaceRE :: "char \<Rightarrow> bool" where
  "isSpaceRE c \<longleftrightarrow> c \<in> set [CHR '' '', CHR 0x09, CHR 0x0A, CHR 0x0C, CHR 0x0D]"

definition lowerA :: "char \<Rightarrow> char" where
  "lowerA c = (if isUpperA c then char_of (of_char c + 32 :: nat) else c)"

definition upperA :: "char \<Rightarrow> char" where
  "upperA c = (if isLowerA c then char_of (of_char c - 32 :: nat) else c)"

text \<open>
  A literal under \<open>(?i)\<close>. Unicode folds two more runes onto ASCII letters: the long s and
  the Kelvin sign.
\<close>

definition rFoldChar :: "char \<Rightarrow> re" where
  "rFoldChar c =
     (let ascii = RCls (\<lambda>x. lowerA x = lowerA c)
      in if lowerA c = CHR ''s'' then RAlt ascii (rLit [CHR 0xC5, CHR 0xBF])
         else if lowerA c = CHR ''k'' then RAlt ascii (rLit [CHR 0xE2, CHR 0x84, CHR 0xAA])
         else ascii)"

definition rFold :: "string \<Rightarrow> re" where
  "rFold s = rSeq (map rFoldChar s)"

section \<open>Matching\<close>

type_synonym captures = "(nat \<times> nat \<times> nat) list"

definition wordAt :: "string \<Rightarrow> nat \<Rightarrow> bool" where
  "wordAt s p \<longleftrightarrow> p < length s \<and> isWordA (s ! p)"

definition wordBoundary :: "string \<Rightarrow> nat \<Rightarrow> bool" where
  "wordBoundary s p \<longleftrightarrow> (p > 0 \<and> wordAt s (p - 1)) \<noteq> wordAt s p"

function rmatch ::
  "string \<Rightarrow> re \<Rightarrow> nat \<Rightarrow> captures \<Rightarrow> (nat \<Rightarrow> captures \<Rightarrow> (nat \<times> captures) option) \<Rightarrow> (nat \<times> captures) option"
where
  "rmatch s REps p c k = k p c"
| "rmatch s (RCls P) p c k = (if p < length s \<and> P (s ! p) then k (Suc p) c else None)"
| "rmatch s RBegin p c k = (if p = 0 then k p c else None)"
| "rmatch s REnd p c k = (if p = length s then k p c else None)"
| "rmatch s RWordB p c k = (if wordBoundary s p then k p c else None)"
| "rmatch s RNotWordB p c k = (if wordBoundary s p then None else k p c)"
| "rmatch s (RSeq r1 r2) p c k = rmatch s r1 p c (\<lambda>q c'. rmatch s r2 q c' k)"
| "rmatch s (RAlt r1 r2) p c k =
    (case rmatch s r1 p c k of Some x \<Rightarrow> Some x | None \<Rightarrow> rmatch s r2 p c k)"
| "rmatch s (RStar r) p c k =
    (case rmatch s r p c (\<lambda>q c'. if p < q \<and> q \<le> length s then rmatch s (RStar r) q c' k else None) of
       Some x \<Rightarrow> Some x | None \<Rightarrow> k p c)"
| "rmatch s (RLazyStar r) p c k =
    (case k p c of
       Some x \<Rightarrow> Some x
     | None \<Rightarrow> rmatch s r p c (\<lambda>q c'. if p < q \<and> q \<le> length s then rmatch s (RLazyStar r) q c' k else None))"
| "rmatch s (RGroup g r) p c k = rmatch s r p c (\<lambda>q c'. k q ((g, p, q) # c'))"
  by pat_completeness auto
termination
  by (relation "measures [\<lambda>(s, r, p, c, k). size r, \<lambda>(s, r, p, c, k). length s - p]") auto

definition matchAt :: "re \<Rightarrow> string \<Rightarrow> nat \<Rightarrow> (nat \<times> captures) option" where
  "matchAt r s p = rmatch s r p [] (\<lambda>q c. Some (q, c))"

text \<open>The leftmost match that starts at or after a position: its start, its end and its groups.\<close>

function findFrom :: "re \<Rightarrow> string \<Rightarrow> nat \<Rightarrow> (nat \<times> nat \<times> captures) option" where
  "findFrom r s p =
    (if p > length s then None
     else case matchAt r s p of
       Some (q, c) \<Rightarrow> Some (p, q, c)
     | None \<Rightarrow> findFrom r s (Suc p))"
  by pat_completeness auto
termination by (relation "measure (\<lambda>(r, s, p). Suc (length s) - p)") auto

declare findFrom.simps [simp del]

text \<open>
  \<open>FindAllStringSubmatchIndex\<close>: successive matches, an empty match at the end of the
  previous one being skipped.
\<close>

function findAllFrom :: "re \<Rightarrow> string \<Rightarrow> nat \<Rightarrow> nat option \<Rightarrow> (nat \<times> nat \<times> captures) list" where
  "findAllFrom r s pos prev =
    (if pos > length s then []
     else case findFrom r s pos of
       None \<Rightarrow> []
     | Some (a, b, c) \<Rightarrow>
         let rest = findAllFrom r s (if b \<le> pos then Suc pos else b) (Some b)
         in if b = pos \<and> prev = Some a then rest else (a, b, c) # rest)"
  by pat_completeness auto
termination by (relation "measure (\<lambda>(r, s, pos, prev). Suc (length s) - pos)") auto

declare findAllFrom.simps [simp del]

definition findAll :: "re \<Rightarrow> string \<Rightarrow> (nat \<times> nat \<times> captures) list" where
  "findAll r s = findAllFrom r s 0 None"

definition matchString :: "re \<Rightarrow> string \<Rightarrow> bool" where
  "matchString r s \<longleftrightarrow> findFrom r s 0 \<noteq> None"

definition substr :: "string \<Rightarrow> nat \<Rightarrow> nat \<Rightarrow> string" where
  "substr s a b = take (b - a) (drop a s)"

text \<open>\<open>FindStringSubmatch\<close>: the text of the match and of a group, empty for a group that did not take part.\<close>

definition groupText :: "string \<Rightarrow> captures \<Rightarrow> nat \<Rightarrow> string" where
  "groupText s c g = (case map_of c g of Some (a, b) \<Rightarrow> substr s a b | None \<Rightarrow> [])"

section \<open>The language of a pattern\<close>

inductive re_match :: "string \<Rightarrow> re \<Rightarrow> nat \<Rightarrow> nat \<Rightarrow> bool" for s where
  eps: "re_match s REps p p"
| cls: "p < length s \<Longrightarrow> P (s ! p) \<Longrightarrow> re_match s (RCls P) p (Suc p)"
| begin_text: "re_match s RBegin 0 0"
| end_text: "re_match s REnd (length s) (length s)"
| wordb: "wordBoundary s p \<Longrightarrow> re_match s RWordB p p"
| notwordb: "\<not> wordBoundary s p \<Longrightarrow> re_match s RNotWordB p p"
| seq: "re_match s r1 p m \<Longrightarrow> re_match s r2 m q \<Longrightarrow> re_match s (RSeq r1 r2) p q"
| alt1: "re_match s r1 p q \<Longrightarrow> re_match s (RAlt r1 r2) p q"
| alt2: "re_match s r2 p q \<Longrightarrow> re_match s (RAlt r1 r2) p q"
| star_end: "re_match s (RStar r) p p"
| star_step: "re_match s r p m \<Longrightarrow> p < m \<Longrightarrow> re_match s (RStar r) m q \<Longrightarrow> re_match s (RStar r) p q"
| lazy_end: "re_match s (RLazyStar r) p p"
| lazy_step: "re_match s r p m \<Longrightarrow> p < m \<Longrightarrow> re_match s (RLazyStar r) m q \<Longrightarrow> re_match s (RLazyStar r) p q"
| group: "re_match s r p q \<Longrightarrow> re_match s (RGroup g r) p q"

inductive_cases re_matchE [elim]:
  "re_match s REps p q" "re_match s (RCls P) p q" "re_match s RBegin p q" "re_match s REnd p q"
  "re_match s RWordB p q" "re_match s RNotWordB p q" "re_match s (RSeq r1 r2) p q"
  "re_match s (RAlt r1 r2) p q" "re_match s (RGroup g r) p q"

fun re_min :: "re \<Rightarrow> nat" where
  "re_min (RCls P) = 1"
| "re_min (RSeq r1 r2) = re_min r1 + re_min r2"
| "re_min (RAlt r1 r2) = min (re_min r1) (re_min r2)"
| "re_min (RGroup g r) = re_min r"
| "re_min _ = 0"

lemma re_match_bounds:
  "re_match s r p q \<Longrightarrow> p \<le> length s \<Longrightarrow> p + re_min r \<le> q \<and> q \<le> length s"
  by (induction rule: re_match.induct) auto

section \<open>The matcher decides the language\<close>

lemma rmatch_sound:
  "rmatch s r p c k = Some x \<Longrightarrow> \<exists>q c'. re_match s r p q \<and> k q c' = Some x"
proof (induction s r p c k arbitrary: x rule: rmatch.induct)
  case (7 s r1 r2 p c k)
  from 7(2)[of x] 7(3) obtain m c' where m: "re_match s r1 p m" "rmatch s r2 m c' k = Some x" by auto
  from 7(1)[OF m(2)] m(1) show ?case by (blast intro: re_match.seq)
next
  case (8 s r1 r2 p c k)
  show ?case
  proof (cases "rmatch s r1 p c k")
    case None
    with 8(3) have "rmatch s r2 p c k = Some x" by simp
    from 8(2)[OF None this] show ?thesis by (blast intro: re_match.alt2)
  next
    case (Some y)
    with 8(3) have "rmatch s r1 p c k = Some x" by simp
    from 8(1)[OF this] show ?thesis by (blast intro: re_match.alt1)
  qed
next
  case (9 s r p c k)
  let ?k = "\<lambda>q c'. if p < q \<and> q \<le> length s then rmatch s (RStar r) q c' k else None"
  show ?case
  proof (cases "rmatch s r p c ?k")
    case None
    with 9(3) have "k p c = Some x" by simp
    then show ?thesis by (blast intro: re_match.star_end)
  next
    case (Some y)
    with 9(3) have "rmatch s r p c ?k = Some x" by simp
    from 9(2)[OF this] obtain m c' where m: "re_match s r p m" "?k m c' = Some x" by blast
    then have "p < m" "m \<le> length s" "rmatch s (RStar r) m c' k = Some x" by (auto split: if_splits)
    with 9(1)[of m c' x] m(1) show ?thesis by (blast intro: re_match.star_step)
  qed
next
  case (10 s r p c k)
  let ?k = "\<lambda>q c'. if p < q \<and> q \<le> length s then rmatch s (RLazyStar r) q c' k else None"
  show ?case
  proof (cases "k p c")
    case None
    with 10(3) have "rmatch s r p c ?k = Some x" by simp
    from 10(2)[OF None this] obtain m c' where m: "re_match s r p m" "?k m c' = Some x" by blast
    then have "p < m" "m \<le> length s" "rmatch s (RLazyStar r) m c' k = Some x" by (auto split: if_splits)
    with 10(1)[OF None, of m c' x] m(1) show ?thesis by (blast intro: re_match.lazy_step)
  next
    case (Some y)
    with 10(3) have "k p c = Some x" by simp
    then show ?thesis by (blast intro: re_match.lazy_end)
  qed
next
  case (11 s g r p c k)
  from 11(1)[of x] 11(2) show ?case by (auto intro: re_match.group)
qed (auto intro: re_match.intros split: if_splits)

lemma rmatch_complete:
  "re_match s r p q \<Longrightarrow> p \<le> length s \<Longrightarrow> (\<And>c'. k q c' \<noteq> None) \<Longrightarrow> rmatch s r p c k \<noteq> None"
proof (induction arbitrary: c k rule: re_match.induct)
  case (seq r1 p m r2 q)
  then show ?case using re_match_bounds[OF seq.hyps(1)] by simp
next
  case (star_step r p m q)
  have "m \<le> length s" using re_match_bounds[OF star_step.hyps(1) star_step.prems(1)] by simp
  then have "rmatch s r p c (\<lambda>q c'. if p < q \<and> q \<le> length s then rmatch s (RStar r) q c' k else None) \<noteq> None"
    using star_step by (intro star_step.IH(1)) auto
  then show ?case by (auto split: option.splits)
next
  case (lazy_step r p m q)
  have "m \<le> length s" using re_match_bounds[OF lazy_step.hyps(1) lazy_step.prems(1)] by simp
  then have "rmatch s r p c (\<lambda>q c'. if p < q \<and> q \<le> length s then rmatch s (RLazyStar r) q c' k else None) \<noteq> None"
    using lazy_step by (intro lazy_step.IH(1)) auto
  then show ?case by (auto split: option.splits)
next
  case (alt2 r2 p q r1)
  then have "rmatch s r2 p c k \<noteq> None" by blast
  then show ?case by (simp split: option.splits)
next
  case (alt1 r1 p q r2)
  then have "rmatch s r1 p c k \<noteq> None" by blast
  then show ?case by auto
next
  case (lazy_end r p)
  then have "k p c \<noteq> None" by blast
  then show ?case by auto
next
  case (star_end r p)
  then have "k p c \<noteq> None" by blast
  then show ?case by (auto split: option.splits)
qed auto

lemma matchAt_sound: "matchAt r s p = Some (q, c) \<Longrightarrow> re_match s r p q"
  unfolding matchAt_def by (drule rmatch_sound) auto

lemma matchAt_complete: "re_match s r p q \<Longrightarrow> p \<le> length s \<Longrightarrow> matchAt r s p \<noteq> None"
  unfolding matchAt_def by (rule rmatch_complete) auto

lemma findFrom_sound:
  "findFrom r s p = Some (a, b, c) \<Longrightarrow> p \<le> a \<and> a \<le> length s \<and> re_match s r a b \<and> matchAt r s a = Some (b, c)"
proof (induction r s p rule: findFrom.induct)
  case (1 r s p)
  show ?case
  proof (cases "p > length s")
    case False
    show ?thesis
    proof (cases "matchAt r s p")
      case None
      with 1 False show ?thesis by (subst (asm) (2) findFrom.simps) (auto intro: Suc_leD)
    next
      case (Some x)
      with 1(2) False show ?thesis
        by (subst (asm) findFrom.simps) (auto dest: matchAt_sound split: prod.splits)
    qed
  qed (use 1 in \<open>simp add: findFrom.simps\<close>)
qed

lemma findFrom_complete:
  "re_match s r a b \<Longrightarrow> p \<le> a \<Longrightarrow> a \<le> length s \<Longrightarrow> \<exists>a' b' c. findFrom r s p = Some (a', b', c) \<and> a' \<le> a"
proof (induction r s p rule: findFrom.induct)
  case (1 r s p)
  show ?case
  proof (cases "matchAt r s p")
    case None
    with 1 have "p \<noteq> a" using matchAt_complete by blast
    with 1 None show ?thesis by (subst findFrom.simps) auto
  next
    case (Some x)
    with 1 show ?thesis by (subst findFrom.simps) (auto split: prod.splits)
  qed
qed

lemma findFrom_bounds:
  "findFrom r s p = Some (a, b, c) \<Longrightarrow> p \<le> a \<and> a + re_min r \<le> b \<and> b \<le> length s"
  using findFrom_sound re_match_bounds by blast

lemma matchString_iff: "matchString r s \<longleftrightarrow> (\<exists>a b. a \<le> length s \<and> re_match s r a b)"
proof
  assume "matchString r s"
  then obtain a b c where "findFrom r s 0 = Some (a, b, c)" by (auto simp: matchString_def)
  then show "\<exists>a b. a \<le> length s \<and> re_match s r a b" by (blast dest: findFrom_sound)
next
  assume "\<exists>a b. a \<le> length s \<and> re_match s r a b"
  then obtain a b where "a \<le> length s" "re_match s r a b" by blast
  from findFrom_complete[OF this(2) _ this(1), of 0] show "matchString r s"
    by (auto simp: matchString_def)
qed

section \<open>All matches\<close>

definition matches_ok :: "re \<Rightarrow> string \<Rightarrow> nat \<Rightarrow> (nat \<times> nat \<times> captures) list \<Rightarrow> bool" where
  "matches_ok r s pos ms \<longleftrightarrow>
    (\<forall>(a, b, c) \<in> set ms. pos \<le> a \<and> a + re_min r \<le> b \<and> b \<le> length s \<and> matchAt r s a = Some (b, c))
    \<and> sorted_wrt (\<lambda>(a, b, c) (a', b', c'). b \<le> a') ms"

lemma findAllFrom_ok: "matches_ok r s pos (findAllFrom r s pos prev)"
proof (induction r s pos prev rule: findAllFrom.induct)
  case (1 r s pos prev)
  show ?case
  proof (cases "findFrom r s pos")
    case None
    then show ?thesis by (subst findAllFrom.simps) (simp add: matches_ok_def)
  next
    case (Some m)
    obtain a b c where m: "m = (a, b, c)" by (cases m)
    with Some have bounds: "pos \<le> a" "a + re_min r \<le> b" "b \<le> length s" "matchAt r s a = Some (b, c)"
      using findFrom_bounds findFrom_sound by blast+
    let ?next = "if b \<le> pos then Suc pos else b"
    let ?rest = "findAllFrom r s ?next (Some b)"
    have rest: "matches_ok r s ?next ?rest" if "pos \<le> length s"
      using 1[OF _ Some m[symmetric] refl] that by simp
    have "pos \<le> ?next" "b \<le> ?next" by auto
    with rest bounds have "matches_ok r s pos ((a, b, c) # ?rest)" "matches_ok r s pos ?rest" if "pos \<le> length s"
      using that unfolding matches_ok_def by fastforce+
    with Some m show ?thesis by (subst findAllFrom.simps) (auto simp: Let_def matches_ok_def[of _ _ _ "[]"])
  qed
qed

lemma findAll_ok: "matches_ok r s 0 (findAll r s)"
  unfolding findAll_def by (rule findAllFrom_ok)

text \<open>
  Nothing is missed: a pattern that cannot match the empty string has, for every place where
  it matches, a reported match that overlaps this place.
\<close>

lemma findAllFrom_covers:
  "re_min r > 0 \<Longrightarrow> re_match s r a b \<Longrightarrow> pos \<le> a \<Longrightarrow> a \<le> length s \<Longrightarrow>
    \<exists>(a', b', c) \<in> set (findAllFrom r s pos prev). a' \<le> a \<and> a < b'"
proof (induction r s pos prev rule: findAllFrom.induct)
  case (1 r s pos prev)
  from findFrom_complete[OF 1(3-5)] obtain a' b' c where
    f: "findFrom r s pos = Some (a', b', c)" "a' \<le> a" by blast
  from findFrom_bounds[OF f(1)] 1(2) have b: "pos \<le> a'" "a' < b'" by auto
  then have split: "findAllFrom r s pos prev = (a', b', c) # findAllFrom r s b' (Some b')"
    using f(1) 1(4,5) by (subst findAllFrom.simps) (simp add: Let_def)
  show ?case
  proof (cases "a < b'")
    case True
    with f(2) split show ?thesis by auto
  next
    case False
    have "pos \<le> length s" "\<not> b' \<le> pos" using 1(4,5) b by auto
    with 1(1)[OF _ f(1) refl refl] 1(2,3,5) False
    have "\<exists>(a', b'', c) \<in> set (findAllFrom r s b' (Some b')). a' \<le> a \<and> a < b''" by (simp add: not_less)
    then show ?thesis unfolding split by simp
  qed
qed

lemma findAll_covers:
  "re_min r > 0 \<Longrightarrow> re_match s r a b \<Longrightarrow> a \<le> length s \<Longrightarrow>
    \<exists>(a', b', c) \<in> set (findAll r s). a' \<le> a \<and> a < b'"
  unfolding findAll_def by (rule findAllFrom_covers) auto

section \<open>Groups\<close>

text \<open>Every group spans at least one byte and lies between two positions.\<close>

definition caps_ok :: "nat \<Rightarrow> nat \<Rightarrow> captures \<Rightarrow> bool" where
  "caps_ok lo hi c \<longleftrightarrow> (\<forall>(g, a, b) \<in> set c. lo \<le> a \<and> a < b \<and> b \<le> hi)"

lemma caps_ok_mono: "caps_ok lo p c \<Longrightarrow> p \<le> q \<Longrightarrow> caps_ok lo q c"
  by (force simp: caps_ok_def)

fun groups_pos :: "re \<Rightarrow> bool" where
  "groups_pos (RSeq r1 r2) \<longleftrightarrow> groups_pos r1 \<and> groups_pos r2"
| "groups_pos (RAlt r1 r2) \<longleftrightarrow> groups_pos r1 \<and> groups_pos r2"
| "groups_pos (RStar r) \<longleftrightarrow> groups_pos r"
| "groups_pos (RLazyStar r) \<longleftrightarrow> groups_pos r"
| "groups_pos (RGroup g r) \<longleftrightarrow> re_min r > 0 \<and> groups_pos r"
| "groups_pos _ \<longleftrightarrow> True"

fun re_captures :: "nat \<Rightarrow> re \<Rightarrow> bool" where
  "re_captures g (RSeq r1 r2) \<longleftrightarrow> re_captures g r1 \<or> re_captures g r2"
| "re_captures g (RAlt r1 r2) \<longleftrightarrow> re_captures g r1 \<and> re_captures g r2"
| "re_captures g (RGroup h r) \<longleftrightarrow> h = g \<or> re_captures g r"
| "re_captures g _ \<longleftrightarrow> False"

lemma rmatch_caps:
  "rmatch s r p c k = Some x \<Longrightarrow> p \<le> length s \<Longrightarrow> lo \<le> p \<Longrightarrow> caps_ok lo p c \<Longrightarrow> groups_pos r \<Longrightarrow>
    \<exists>q c'. k q c' = Some x \<and> p + re_min r \<le> q \<and> q \<le> length s \<and> caps_ok lo q c'
      \<and> (re_captures g r \<or> map_of c g \<noteq> None \<longrightarrow> map_of c' g \<noteq> None)"
proof (induction s r p c k arbitrary: x rule: rmatch.induct)
  case (7 s r1 r2 p c k)
  from 7(2)[of x] 7(3-7) obtain q c' where q: "rmatch s r2 q c' k = Some x" "p + re_min r1 \<le> q"
    "q \<le> length s" "caps_ok lo q c'" "re_captures g r1 \<or> map_of c g \<noteq> None \<longrightarrow> map_of c' g \<noteq> None"
    by auto
  have "lo \<le> q" using q(2) 7(5) by simp
  from 7(1)[OF q(1,3) this q(4)] 7(7) obtain q2 c2 where "k q2 c2 = Some x" "q + re_min r2 \<le> q2"
    "q2 \<le> length s" "caps_ok lo q2 c2" "re_captures g r2 \<or> map_of c' g \<noteq> None \<longrightarrow> map_of c2 g \<noteq> None"
    by auto
  with q show ?case by (intro exI[of _ q2] exI[of _ c2]) auto
next
  case (8 s r1 r2 p c k)
  show ?case
  proof (cases "rmatch s r1 p c k")
    case None
    with 8 show ?thesis by fastforce
  next
    case (Some y)
    with 8 show ?thesis by fastforce
  qed
next
  case (9 s r p c k)
  let ?k = "\<lambda>q c'. if p < q \<and> q \<le> length s then rmatch s (RStar r) q c' k else None"
  show ?case
  proof (cases "rmatch s r p c ?k")
    case None
    with 9 show ?thesis by auto
  next
    case (Some y)
    with 9(3) have "rmatch s r p c ?k = Some x" by simp
    from 9(2)[OF this] 9(4-7) obtain q c' where q: "?k q c' = Some x" "p + re_min r \<le> q"
      "q \<le> length s" "caps_ok lo q c'" "map_of c g \<noteq> None \<longrightarrow> map_of c' g \<noteq> None" by fastforce
    then have "p < q" "rmatch s (RStar r) q c' k = Some x" by (auto split: if_splits)
    have "lo \<le> q" using q(2) 9(5) by simp
    from 9(1)[OF _ \<open>rmatch s (RStar r) q c' k = Some x\<close> q(3) this q(4)] 9(7) \<open>p < q\<close> q obtain q2 c2 where "k q2 c2 = Some x" "q \<le> q2"
      "q2 \<le> length s" "caps_ok lo q2 c2" "map_of c' g \<noteq> None \<longrightarrow> map_of c2 g \<noteq> None" by auto
    with q \<open>p < q\<close> show ?thesis by (intro exI[of _ q2] exI[of _ c2]) auto
  qed
next
  case (10 s r p c k)
  let ?k = "\<lambda>q c'. if p < q \<and> q \<le> length s then rmatch s (RLazyStar r) q c' k else None"
  show ?case
  proof (cases "k p c")
    case None
    with 10(3) have "rmatch s r p c ?k = Some x" by simp
    with 10(2)[OF None this] 10(4-7) obtain q c' where q: "?k q c' = Some x" "p + re_min r \<le> q"
      "q \<le> length s" "caps_ok lo q c'" "map_of c g \<noteq> None \<longrightarrow> map_of c' g \<noteq> None" by fastforce
    then have "p < q" "rmatch s (RLazyStar r) q c' k = Some x" by (auto split: if_splits)
    have "lo \<le> q" using q(2) 10(5) by simp
    from 10(1)[OF None _ \<open>rmatch s (RLazyStar r) q c' k = Some x\<close> q(3) this q(4)] 10(7) \<open>p < q\<close> q obtain q2 c2 where "k q2 c2 = Some x" "q \<le> q2"
      "q2 \<le> length s" "caps_ok lo q2 c2" "map_of c' g \<noteq> None \<longrightarrow> map_of c2 g \<noteq> None" by auto
    with q \<open>p < q\<close> show ?thesis by (intro exI[of _ q2] exI[of _ c2]) auto
  next
    case (Some y)
    with 10 show ?thesis by auto
  qed
next
  case (11 s g' r p c k)
  from 11(1)[of x] 11(2-6) obtain q c' where "k q ((g', p, q) # c') = Some x" "p + re_min r \<le> q"
    "q \<le> length s" "caps_ok lo q c'" "re_captures g r \<or> map_of c g \<noteq> None \<longrightarrow> map_of c' g \<noteq> None"
    by auto
  with 11(4,6) show ?case
    by (intro exI[of _ q] exI[of _ "(g', p, q) # c'"]) (auto simp: caps_ok_def)
next
  case (2 s P p c k)
  then show ?case using caps_ok_mono[of lo p c "Suc p"] by (intro exI[of _ "Suc p"] exI[of _ c]) (auto split: if_splits)
qed (auto split: if_splits)

lemma matchAt_group:
  assumes "matchAt r s p = Some (q, c)" "p \<le> length s" "groups_pos r" "re_captures g r"
  shows "\<exists>a b. map_of c g = Some (a, b) \<and> p \<le> a \<and> a < b \<and> b \<le> q"
proof -
  have "map_of c g \<noteq> None" "caps_ok p q c"
    using rmatch_caps[OF assms(1)[unfolded matchAt_def] assms(2) order_refl _ assms(3), of g] assms(4)
    by (auto simp: caps_ok_def[of _ _ "[]"])
  then show ?thesis by (fastforce simp: caps_ok_def dest: map_of_SomeD)
qed

end
