(* ===== verification/PrivacySecrets.thy ===== *)
theory PrivacySecrets
  imports PrivacyArbitrate GoRegexp
begin

text \<open>
  The credential classifier (\<open>internal/privacy/classifier.go\<close>, \<open>internal/privacy/secrets.go\<close>).

  Texts are lists of bytes. What the classifier takes from the standard library without a
  table of its own to read is the argument \<open>env\<close>: the Unicode classes and case mapping, the
  UTF-8 decoding, and \<open>url.Parse\<close>. A slice with bad bounds, which panics in Go, is \<open>None\<close>.
\<close>

section \<open>What the classifier takes from the standard library\<close>

record parsedURL =
  url_Host :: string
  url_User :: "(string \<times> string option) option"

record goEnv =
  env_runes :: "string \<Rightarrow> nat list"
  env_utf8 :: "nat \<Rightarrow> string"
  env_IsSpace :: "nat \<Rightarrow> bool"
  env_IsLower :: "nat \<Rightarrow> bool"
  env_IsUpper :: "nat \<Rightarrow> bool"
  env_IsDigit :: "nat \<Rightarrow> bool"
  env_ToLower :: "nat \<Rightarrow> nat"
  env_ParseURL :: "string \<Rightarrow> parsedURL option"

definition env_TrimSpace :: "goEnv \<Rightarrow> nat list \<Rightarrow> nat list" where
  "env_TrimSpace env rs = rev (dropWhile (env_IsSpace env) (rev (dropWhile (env_IsSpace env) rs)))"

text \<open>\<open>strings.Fields\<close> on runes: the maximal runs without a blank.\<close>

function runeFields :: "(nat \<Rightarrow> bool) \<Rightarrow> nat list \<Rightarrow> nat list list" where
  "runeFields sp rs =
    (case dropWhile sp rs of
       [] \<Rightarrow> []
     | x # xs \<Rightarrow> takeWhile (\<lambda>r. \<not> sp r) (x # xs) # runeFields sp (dropWhile (\<lambda>r. \<not> sp r) (x # xs)))"
  by pat_completeness auto
termination
proof (relation "measure (\<lambda>(sp, rs). length rs)")
  fix sp and rs :: "nat list" and x xs
  assume d: "dropWhile sp rs = x # xs"
  then have "\<not> sp x" by (metis dropWhile_eq_Cons_conv)
  then have "length (dropWhile (\<lambda>r. \<not> sp r) (x # xs)) < length (x # xs)"
    by (simp add: length_dropWhile_le less_Suc_eq_le)
  also have "\<dots> \<le> length rs" using length_dropWhile_le[of sp rs] d by simp
  finally show "((sp, dropWhile (\<lambda>r. \<not> sp r) (x # xs)), (sp, rs)) \<in> measure (\<lambda>(sp, rs). length rs)" by simp
qed simp

declare runeFields.simps [simp del]

definition env_encode :: "goEnv \<Rightarrow> nat list \<Rightarrow> string" where
  "env_encode env rs = concat (map (env_utf8 env) rs)"

definition env_Fields :: "goEnv \<Rightarrow> nat list \<Rightarrow> string list" where
  "env_Fields env rs = map (env_encode env) (runeFields (env_IsSpace env) rs)"

text \<open>\<open>strings.EqualFold\<close> against an ASCII literal.\<close>

definition equalFold :: "string \<Rightarrow> string \<Rightarrow> bool" where
  "equalFold s t \<longleftrightarrow> rmatch s (rFold t) 0 [] (\<lambda>q c. if q = length s then Some (q, c) else None) \<noteq> None"

definition goSlice :: "string \<Rightarrow> int \<Rightarrow> int \<Rightarrow> string option" where
  "goSlice s lo hi = (if 0 \<le> lo \<and> lo \<le> hi \<and> hi \<le> int (length s) then Some (substr s (nat lo) (nat hi)) else None)"

definition skipWhile :: "(char \<Rightarrow> bool) \<Rightarrow> string \<Rightarrow> nat \<Rightarrow> nat" where
  "skipWhile P s i = i + length (takeWhile P (drop i s))"

definition hasPrefix :: "string \<Rightarrow> string \<Rightarrow> bool" where
  "hasPrefix s p \<longleftrightarrow> take (length p) s = p"

definition indexByte :: "string \<Rightarrow> char \<Rightarrow> nat option" where
  "indexByte s c = (let i = length (takeWhile (\<lambda>x. x \<noteq> c) s) in if i < length s then Some i else None)"

section \<open>Key words\<close>

definition redactedSecret :: string where "redactedSecret = ''[REDACTED]''"

definition R :: "char \<Rightarrow> nat" where "R c = of_char c"

fun normalizeLoop :: "goEnv \<Rightarrow> nat option \<Rightarrow> nat list \<Rightarrow> nat list" where
  "normalizeLoop env prev [] = []"
| "normalizeLoop env prev (r # rest) =
    (if r = R CHR ''_'' \<or> r = R CHR ''-'' \<or> r = R CHR ''.'' \<or> env_IsSpace env r
     then R CHR '' '' # normalizeLoop env (Some r) rest
     else let lowercaseBoundary = (case prev of Some p \<Rightarrow> env_IsLower env p \<or> env_IsDigit env p | None \<Rightarrow> False);
              acronymBoundary = (case prev of
                  Some p \<Rightarrow> rest \<noteq> [] \<and> env_IsUpper env p \<and> env_IsLower env (hd rest)
                | None \<Rightarrow> False)
          in (if env_IsUpper env r \<and> (lowercaseBoundary \<or> acronymBoundary) then [R CHR '' ''] else [])
             @ env_ToLower env r # normalizeLoop env (Some r) rest)"

fun mergeKnownCredentialWords :: "string list \<Rightarrow> string list" where
  "mergeKnownCredentialWords (w1 # w2 # ws) =
    (if w1 = ''git'' \<and> w2 = ''hub'' then ''github'' # mergeKnownCredentialWords ws
     else if w1 = ''o'' \<and> w2 = ''auth'' then ''oauth'' # mergeKnownCredentialWords ws
     else w1 # mergeKnownCredentialWords (w2 # ws))"
| "mergeKnownCredentialWords ws = ws"

definition normalizeKeyWords :: "goEnv \<Rightarrow> string \<Rightarrow> string list" where
  "normalizeKeyWords env key =
    mergeKnownCredentialWords (env_Fields env (normalizeLoop env None (env_TrimSpace env (env_runes env key))))"

definition hasWord :: "string list \<Rightarrow> string \<Rightarrow> bool" where
  "hasWord words want = list_ex (\<lambda>w. w = want) words"

fun hasAdjacent :: "string list \<Rightarrow> string \<Rightarrow> string \<Rightarrow> bool" where
  "hasAdjacent (w1 # w2 # ws) first second \<longleftrightarrow> w1 = first \<and> w2 = second \<or> hasAdjacent (w2 # ws) first second"
| "hasAdjacent _ first second \<longleftrightarrow> False"

definition containsCredentialCompound :: "string list \<Rightarrow> bool" where
  "containsCredentialCompound words =
    (if words = [] then False
     else if hasWord words ''count'' then False
     else if hasWord words ''public'' \<and> hasWord words ''key'' then False
     else if hasWord words ''password'' \<or> hasWord words ''passphrase'' then True
     else if hasWord words ''secret'' then True
     else if hasAdjacent words ''api'' ''key'' \<or> hasAdjacent words ''access'' ''key''
           \<or> hasAdjacent words ''private'' ''key'' \<or> hasAdjacent words ''signing'' ''key'' then True
     else hasAdjacent words ''access'' ''token'' \<or> hasAdjacent words ''refresh'' ''token''
        \<or> hasAdjacent words ''oauth'' ''token'' \<or> hasAdjacent words ''auth'' ''token''
        \<or> hasAdjacent words ''github'' ''token'' \<or> hasAdjacent words ''gitlab'' ''token'')"

fun joinWith :: "string \<Rightarrow> string list \<Rightarrow> string" where
  "joinWith sep [] = []"
| "joinWith sep [w] = w"
| "joinWith sep (w # ws) = w @ sep @ joinWith sep ws"

definition isManagedCredentialKey :: "string list \<Rightarrow> bool" where
  "isManagedCredentialKey words \<longleftrightarrow> joinWith ''_'' words \<in> set
    [''pii_hash_key'', ''pii_encrypt_key'', ''privacy_alias_key'', ''privacy_triage_token'',
     ''gw_metrics_remote_write_token'']"

definition containsAuthorizationName :: "string list \<Rightarrow> bool" where
  "containsAuthorizationName words \<longleftrightarrow>
    words = [''authorization''] \<or> words = [''proxy'', ''authorization'']"

definition isSecretKeyWords :: "string list \<Rightarrow> bool" where
  "isSecretKeyWords words \<longleftrightarrow>
    isManagedCredentialKey words \<or> containsCredentialCompound words \<or> containsAuthorizationName words"

definition IsSecretKey :: "goEnv \<Rightarrow> string \<Rightarrow> bool" where
  "IsSecretKey env key = isSecretKeyWords (normalizeKeyWords env key)"

definition entityForKey :: "goEnv \<Rightarrow> string \<Rightarrow> string" where
  "entityForKey env key =
    (let words = normalizeKeyWords env key
     in if isManagedCredentialKey words then map upperA (joinWith ''_'' words)
        else if words = [''proxy'', ''authorization''] then ''PROXY_AUTHORIZATION''
        else if containsAuthorizationName words then ''AUTHORIZATION''
        else if hasWord words ''passphrase'' then ''PASSPHRASE''
        else if hasWord words ''password'' then ''PASSWORD''
        else if hasAdjacent words ''private'' ''key'' then ''PRIVATE_KEY''
        else if hasWord words ''aws'' \<and> hasAdjacent words ''secret'' ''access'' then ''AWS_SECRET_ACCESS_KEY''
        else if hasWord words ''aws'' \<and> hasAdjacent words ''access'' ''key'' then ''AWS_ACCESS_KEY_ID''
        else if hasAdjacent words ''client'' ''secret'' then ''CLIENT_SECRET''
        else if hasAdjacent words ''refresh'' ''token'' then ''REFRESH_TOKEN''
        else if hasAdjacent words ''oauth'' ''token'' then ''OAUTH_TOKEN''
        else if hasAdjacent words ''access'' ''token'' then ''ACCESS_TOKEN''
        else if hasWord words ''github'' \<and> hasWord words ''token'' then ''GITHUB_TOKEN''
        else if hasWord words ''gitlab'' \<and> hasWord words ''token'' then ''GITLAB_TOKEN''
        else if hasAdjacent words ''api'' ''key'' then ''API_KEY''
        else ''SECRET'')"

section \<open>The patterns\<close>

definition rSpaces :: re where "rSpaces = RStar (RCls isSpaceRE)"

definition isCredentialByte :: "char \<Rightarrow> bool" where
  "isCredentialByte c \<longleftrightarrow> isAlnumA c \<or> c \<in> set ''._~+/=-''"

text \<open>Under \<open>(?i)\<close> the class of the credential bytes has the two folded runes as well.\<close>

definition rCredentialFold :: re where
  "rCredentialFold = rAny [RCls isCredentialByte, rLit [CHR 0xC5, CHR 0xBF], rLit [CHR 0xE2, CHR 0x84, CHR 0xAA]]"

definition rKeyKind :: re where
  "rKeyKind = rOpt (rAny [rLit ''RSA '', rLit ''EC '', rLit ''DSA '', rLit ''OPENSSH ''])"

definition privateKeyRE :: re where
  "privateKeyRE = rSeq [rLit ''-----BEGIN '', rKeyKind, rLit ''PRIVATE KEY-----'', RLazyStar (RCls (\<lambda>_. True)),
     rLit ''-----END '', rKeyKind, rLit ''PRIVATE KEY-----'']"

definition authorizationRE :: "string \<Rightarrow> re" where
  "authorizationRE name = rSeq [rFold name, rSpaces, rLit '':'', rSpaces, rAny [rFold ''bearer'', rFold ''basic''],
     rPlus (RCls isSpaceRE), rPlus rCredentialFold]"

definition bearerRE :: re where
  "bearerRE = rSeq [RWordB, rFold ''bearer'', rPlus (RCls (\<lambda>c. c = CHR '' '' \<or> c = CHR 0x09)),
     RGroup 1 (rPlus rCredentialFold)]"

definition githubRE :: re where
  "githubRE = rSeq [RWordB,
     rAny [rSeq [rLit ''ghp_'', rAtLeast 30 (RCls isAlnumA)],
           rSeq [rLit ''github_pat_'', rAtLeast 30 (RCls isWordA)]], RWordB]"

definition isDashWord :: "char \<Rightarrow> bool" where "isDashWord c \<longleftrightarrow> isWordA c \<or> c = CHR ''-''"

definition gitlabRE :: re where
  "gitlabRE = rSeq [RWordB, rLit ''glpat-'', rAtLeast 20 (RCls isDashWord), RWordB]"

definition openaiRE :: re where
  "openaiRE = rSeq [RWordB, rLit ''sk-'', rOpt (rLit ''proj-''), rAtLeast 32 (RCls isDashWord), RWordB]"

record secretPattern =
  sp_entity :: string
  sp_re :: re
  sp_valueCapture :: nat

definition mkPattern :: "string \<Rightarrow> re \<Rightarrow> nat \<Rightarrow> secretPattern" where
  "mkPattern e r v = \<lparr>sp_entity = e, sp_re = r, sp_valueCapture = v\<rparr>"

definition secretValuePatterns :: "secretPattern list" where
  "secretValuePatterns =
    [mkPattern ''PRIVATE_KEY'' privateKeyRE 0,
     mkPattern ''PROXY_AUTHORIZATION'' (authorizationRE ''proxy-authorization'') 0,
     mkPattern ''AUTHORIZATION'' (authorizationRE ''authorization'') 0,
     mkPattern ''BEARER_TOKEN'' bearerRE 1,
     mkPattern ''GITHUB_TOKEN'' githubRE 0,
     mkPattern ''GITLAB_TOKEN'' gitlabRE 0,
     mkPattern ''OPENAI_API_KEY'' openaiRE 0]"

definition urlSchemePattern :: re where
  "urlSchemePattern = rSeq [RWordB, RCls isAlphaA, RStar (RCls (\<lambda>c. isAlnumA c \<or> c \<in> set ''+.-'')), rLit ''://'']"

text \<open>The grammar of the gateway's own one-way labels, \<open>[SECRET:NAME_0123456789AB]\<close>.\<close>

definition isUpperHex :: "char \<Rightarrow> bool" where
  "isUpperHex c \<longleftrightarrow> isDigitA c \<or> inRange CHR ''A'' CHR ''F'' c"

definition oneWaySecretLabelPattern :: re where
  "oneWaySecretLabelPattern = rSeq [rLit ''[SECRET:'', rPlus (RCls (\<lambda>c. isUpperA c \<or> isDigitA c \<or> c = CHR ''_'')),
     rLit ''_'', rTimes 12 (RCls isUpperHex), rLit '']'']"

definition secretTokenPattern :: re where
  "secretTokenPattern = rSeq [RBegin, oneWaySecretLabelPattern, REnd]"

section \<open>Credential URLs\<close>

definition isURLBoundary :: "char \<Rightarrow> bool" where
  "isURLBoundary c \<longleftrightarrow> c \<in> set [CHR '' '', CHR 0x09, CHR 0x0D, CHR 0x0A, CHR 0x22, CHR 0x27, CHR ''}'', CHR ''<'', CHR ''>'']"

definition isTrailingProsePunctuation :: "char \<Rightarrow> bool" where
  "isTrailingProsePunctuation c \<longleftrightarrow> c \<in> set ''.,;!)''"

definition isCredentialURL :: "goEnv \<Rightarrow> string \<Rightarrow> bool" where
  "isCredentialURL env candidate =
    (case env_ParseURL env candidate of
       None \<Rightarrow> False
     | Some u \<Rightarrow> url_Host u \<noteq> [] \<and>
         (case url_User u of None \<Rightarrow> False | Some (name, password) \<Rightarrow> name \<noteq> [] \<and> password \<noteq> None))"

fun trimURLSuffix :: "string \<Rightarrow> nat \<Rightarrow> nat \<Rightarrow> nat" where
  "trimURLSuffix value schemeEnd 0 = 0"
| "trimURLSuffix value schemeEnd (Suc e) =
    (if Suc e > schemeEnd \<and> isTrailingProsePunctuation (value ! e) then trimURLSuffix value schemeEnd e else Suc e)"

record urlScan =
  us_inAuthority :: bool
  us_userinfoComplete :: bool
  us_hostStart :: nat
  us_inBracketed :: bool

text \<open>One round of the scan: the new state, or \<open>None\<close> where the candidate ends at this byte.\<close>

definition urlScanStep :: "urlScan \<Rightarrow> nat \<Rightarrow> char \<Rightarrow> urlScan option" where
  "urlScanStep st cursor c =
    (if c = CHR ''@'' then
       Some (if us_inAuthority st \<and> \<not> us_inBracketed st
             then st\<lparr>us_userinfoComplete := True, us_hostStart := cursor + 1\<rparr> else st)
     else if c = CHR ''['' then
       Some (if us_inAuthority st \<and> cursor = us_hostStart st then st\<lparr>us_inBracketed := True\<rparr> else st)
     else if c = CHR '']'' then
       (if us_inBracketed st then Some (st\<lparr>us_inBracketed := False\<rparr>) else None)
     else if c = CHR '','' then
       (if us_userinfoComplete st \<and> \<not> us_inBracketed st then None else Some st)
     else if c = CHR ''/'' \<or> c = CHR ''?'' \<or> c = CHR ''#'' then
       Some (if \<not> us_inBracketed st then st\<lparr>us_inAuthority := False\<rparr> else st)
     else Some st)"

fun urlScanLoop :: "urlScan \<Rightarrow> nat \<Rightarrow> string \<Rightarrow> nat \<Rightarrow> nat" where
  "urlScanLoop st cursor [] hardEnd = hardEnd"
| "urlScanLoop st cursor (c # rest) hardEnd =
    (case urlScanStep st cursor c of
       None \<Rightarrow> cursor
     | Some st' \<Rightarrow> urlScanLoop st' (Suc cursor) rest hardEnd)"

definition credentialURLPrefixEndWithValidator ::
  "string \<Rightarrow> nat \<Rightarrow> nat \<Rightarrow> nat \<Rightarrow> (string \<Rightarrow> bool) \<Rightarrow> nat \<times> bool" where
  "credentialURLPrefixEndWithValidator value start schemeEnd hardEnd validate =
    (let candidateEnd = urlScanLoop \<lparr>us_inAuthority = True, us_userinfoComplete = False,
                                     us_hostStart = schemeEnd, us_inBracketed = False\<rparr>
                          schemeEnd (substr value schemeEnd hardEnd) hardEnd;
         e = trimURLSuffix value schemeEnd candidateEnd
     in (e, e > schemeEnd \<and> validate (substr value start e)))"

definition findCredentialURLs :: "goEnv \<Rightarrow> string \<Rightarrow> (nat \<times> nat) list" where
  "findCredentialURLs env value =
    List.map_filter (\<lambda>(schemeStart, schemeEnd, _).
        let hardEnd = skipWhile (\<lambda>c. \<not> isURLBoundary c) value schemeEnd;
            (e, ok) = credentialURLPrefixEndWithValidator value schemeStart schemeEnd hardEnd (isCredentialURL env)
        in if ok then Some (schemeStart, e) else None)
      (findAll urlSchemePattern value)"

section \<open>Structured assignments\<close>

definition isAssignmentKeyByte :: "char \<Rightarrow> bool" where
  "isAssignmentKeyByte c \<longleftrightarrow> isAlnumA c \<or> c = CHR ''_'' \<or> c = CHR ''-'' \<or> c = CHR ''.''"

definition isUnquotedAssignmentDelimiter :: "char \<Rightarrow> bool" where
  "isUnquotedAssignmentDelimiter c \<longleftrightarrow>
    c \<in> set [CHR '' '', CHR 0x09, CHR 0x0D, CHR 0x0A, CHR 0x22, CHR 0x27, CHR '','', CHR ''}'', CHR '']'']"

definition isBlank :: "char \<Rightarrow> bool" where "isBlank c \<longleftrightarrow> c = CHR '' '' \<or> c = CHR 0x09"
definition isQuote :: "char \<Rightarrow> bool" where "isQuote c \<longleftrightarrow> c = CHR 0x27 \<or> c = CHR 0x22"

definition isEscapedAt :: "string \<Rightarrow> nat \<Rightarrow> bool" where
  "isEscapedAt value index =
    odd (length (takeWhile (\<lambda>c. c = CHR 0x5C) (rev (take index value))))"

function quotedEnd :: "string \<Rightarrow> char \<Rightarrow> nat \<Rightarrow> nat" where
  "quotedEnd value quote e =
    (if e \<ge> length value then e
     else if value ! e = quote \<and> \<not> isEscapedAt value e then e
     else quotedEnd value quote (Suc e))"
  by pat_completeness auto
termination by (relation "measure (\<lambda>(value, quote, e). length value - e)") auto

declare quotedEnd.simps [simp del]

record structuredAssignment =
  sa_key :: string
  sa_valueStart :: nat
  sa_valueEnd :: nat

text \<open>
  One round of the scan at \<open>start\<close>: the bounds of the key that begins there, then the bounds
  of the value that is assigned to it.
\<close>

definition assignmentKeyAt :: "string \<Rightarrow> nat \<Rightarrow> (nat \<times> nat) option" where
  "assignmentKeyAt value start =
    (let cliPrefix = value ! start = CHR ''-'' \<and> start + 2 < length value \<and> value ! (start + 1) = CHR ''-'';
         keyStart = (if cliPrefix then start + 2 else start)
     in if \<not> isAlphaA (value ! keyStart) \<or> \<not> cliPrefix \<and> keyStart > 0 \<and> isAssignmentKeyByte (value ! (keyStart - 1))
        then None
        else Some (keyStart, skipWhile isAssignmentKeyByte value (keyStart + 1)))"

definition assignedValueAt :: "string \<Rightarrow> nat \<Rightarrow> (nat \<times> nat) option" where
  "assignedValueAt value keyEnd =
    (let cursor1 = (if keyEnd < length value \<and> isQuote (value ! keyEnd) then keyEnd + 1 else keyEnd);
         cursor2 = skipWhile isBlank value cursor1
     in if cursor2 \<ge> length value \<or> value ! cursor2 \<noteq> CHR '':'' \<and> value ! cursor2 \<noteq> CHR ''='' then None
        else let cursor = skipWhile isBlank value (cursor2 + 1)
             in if cursor \<ge> length value then None
                else let quoted = isQuote (value ! cursor);
                         valueStart = (if quoted then cursor + 1 else cursor);
                         valueEnd = (if quoted then quotedEnd value (value ! cursor) valueStart
                                     else skipWhile (\<lambda>c. \<not> isUnquotedAssignmentDelimiter c) value valueStart)
                     in if valueEnd = valueStart then None else Some (valueStart, valueEnd))"

definition assignmentAt :: "string \<Rightarrow> nat \<Rightarrow> (structuredAssignment \<times> nat) option" where
  "assignmentAt value start =
    (case assignmentKeyAt value start of
       None \<Rightarrow> None
     | Some (keyStart, keyEnd) \<Rightarrow>
         (case assignedValueAt value keyEnd of
            None \<Rightarrow> None
          | Some (valueStart, valueEnd) \<Rightarrow>
              Some (\<lparr>sa_key = dropWhile (\<lambda>c. c = CHR ''-'') (substr value keyStart keyEnd),
                     sa_valueStart = valueStart, sa_valueEnd = valueEnd\<rparr>, keyEnd)))"

lemma assignmentKeyAt_keyEnd: "assignmentKeyAt value start = Some (keyStart, keyEnd) \<Longrightarrow> start < keyEnd"
  unfolding assignmentKeyAt_def skipWhile_def Let_def by (simp split: if_split_asm)

lemma assignmentAt_keyEnd: "assignmentAt value start = Some (a, keyEnd) \<Longrightarrow> start < keyEnd"
  by (auto simp: assignmentAt_def dest: assignmentKeyAt_keyEnd split: option.splits)

lemma dropWhile_label: "dropWhile (\<lambda>(a, b). b \<le> n) ls = (a, b) # ls' \<Longrightarrow> (n :: nat) < b"
  by (induction ls) (auto split: if_splits)

function assignmentLoop :: "string \<Rightarrow> (nat \<times> nat) list \<Rightarrow> nat \<Rightarrow> structuredAssignment list" where
  "assignmentLoop value labels start =
    (if start \<ge> length value then []
     else case dropWhile (\<lambda>(a, b). b \<le> start) labels of
       (a, b) # labels' \<Rightarrow>
         if start \<ge> a then assignmentLoop value ((a, b) # labels') b
         else (case assignmentAt value start of
                 None \<Rightarrow> assignmentLoop value ((a, b) # labels') (Suc start)
               | Some (found, keyEnd) \<Rightarrow> found # assignmentLoop value ((a, b) # labels') keyEnd)
     | [] \<Rightarrow> (case assignmentAt value start of
                 None \<Rightarrow> assignmentLoop value [] (Suc start)
               | Some (found, keyEnd) \<Rightarrow> found # assignmentLoop value [] keyEnd))"
  by pat_completeness auto
termination
  by (relation "measure (\<lambda>(value, labels, start). length value - start)")
    (auto dest!: assignmentAt_keyEnd dropWhile_label)

declare assignmentLoop.simps [simp del]

definition findStructuredAssignments :: "string \<Rightarrow> structuredAssignment list" where
  "findStructuredAssignments value =
    assignmentLoop value (map (\<lambda>(a, b, c). (a, b)) (findAll oneWaySecretLabelPattern value)) 0"

section \<open>Detection\<close>

definition credentialSchemeEnd :: "string \<Rightarrow> nat \<Rightarrow> nat option" where
  "credentialSchemeEnd value start =
    (let try = (\<lambda>scheme.
           let e = start + length scheme
           in if e > length value \<or> \<not> equalFold (substr value start e) scheme then None
              else let cursor = skipWhile isBlank value e in if cursor > e then Some cursor else None)
     in case try ''bearer'' of Some c \<Rightarrow> Some c | None \<Rightarrow> try ''basic'')"

text \<open>
  Whether an assigned value is redacted already. The source indexes the text after the scheme
  without a bound: when the scheme and its blanks end the text this panics, the outcome \<open>None\<close>.
\<close>

definition isRedactedAssignment :: "string \<Rightarrow> nat \<Rightarrow> bool option" where
  "isRedactedAssignment value start =
    (if start \<ge> length value then Some False
     else let cursor = (case credentialSchemeEnd value start of Some e \<Rightarrow> e | None \<Rightarrow> start);
              rest = drop cursor value;
              ending = (\<lambda>e. e = length value \<or> isUnquotedAssignmentDelimiter (value ! e))
          in if hasPrefix rest redactedSecret then Some (ending (cursor + length redactedSecret))
             else case rest of
               [] \<Rightarrow> None
             | c # _ \<Rightarrow>
                 if c = CHR ''['' then
                   (case indexByte rest CHR '']'' of
                      None \<Rightarrow> Some False
                    | Some closeIndex \<Rightarrow>
                        let e = cursor + closeIndex + 1
                        in Some (matchString secretTokenPattern (substr value cursor e) \<and> ending e))
                 else Some False)"

definition secretFinding :: "string \<Rightarrow> int \<Rightarrow> int \<Rightarrow> int \<Rightarrow> Finding" where
  "secretFinding entity start e order =
    \<lparr>f_Entity = entity, f_Category = CategorySecret, f_Kind = MatchHighConfidenceSecret,
     f_Start = start, f_End = e, f_RegistryOrder = order\<rparr>"

text \<open>The span of a match that is reported: the whole match, or a group; a group that took no part has span \<open>-1\<close>.\<close>

definition patternSpan :: "secretPattern \<Rightarrow> nat \<times> nat \<times> captures \<Rightarrow> int \<times> int" where
  "patternSpan p m =
    (case m of (a, b, c) \<Rightarrow>
       if sp_valueCapture p > 0
       then (case map_of c (sp_valueCapture p) of Some (x, y) \<Rightarrow> (int x, int y) | None \<Rightarrow> (-1, -1))
       else (int a, int b))"

definition patternCandidates :: "string \<Rightarrow> nat \<Rightarrow> secretPattern \<Rightarrow> Finding list" where
  "patternCandidates value order p =
    map (\<lambda>m. let (s, e) = patternSpan p m in secretFinding (sp_entity p) s e (int order))
      (findAll (sp_re p) value)"

fun assignmentCandidates :: "goEnv \<Rightarrow> string \<Rightarrow> nat \<Rightarrow> structuredAssignment list \<Rightarrow> Finding list option" where
  "assignmentCandidates env value order [] = Some []"
| "assignmentCandidates env value order (a # as) =
    (if \<not> isSecretKeyWords (normalizeKeyWords env (sa_key a)) then assignmentCandidates env value order as
     else Option.bind (isRedactedAssignment value (sa_valueStart a)) (\<lambda>redacted.
       if redacted then assignmentCandidates env value order as
       else map_option (\<lambda>fs. secretFinding (entityForKey env (sa_key a)) (int (sa_valueStart a)) (int (sa_valueEnd a)) (int order) # fs)
              (assignmentCandidates env value (Suc order) as)))"

definition secretCandidates :: "goEnv \<Rightarrow> string \<Rightarrow> Finding list option" where
  "secretCandidates env value =
    map_option (\<lambda>assigned.
      concat (map (\<lambda>(order, p). patternCandidates value order p) (enumerate 0 secretValuePatterns))
      @ map (\<lambda>(a, b). secretFinding ''CREDENTIAL_URL'' (int a) (int b) (int (length secretValuePatterns)))
          (findCredentialURLs env value)
      @ assigned)
    (assignmentCandidates env value (Suc (length secretValuePatterns)) (findStructuredAssignments value))"

definition detectSecretValues :: "goEnv \<Rightarrow> string \<Rightarrow> Finding list option" where
  "detectSecretValues env value = Option.bind (secretCandidates env value) Arbitrate"

definition isRedactedCredentialValue :: "goEnv \<Rightarrow> string \<Rightarrow> bool" where
  "isRedactedCredentialValue env value =
    (let fields = env_Fields env (env_runes env value)
     in if length fields = 1 then fields ! 0 = redactedSecret
        else length fields = 2 \<and> (equalFold (fields ! 0) ''bearer'' \<or> equalFold (fields ! 0) ''basic'')
             \<and> fields ! 1 = redactedSecret)"

definition Classify :: "goEnv \<Rightarrow> string \<Rightarrow> string \<Rightarrow> Finding list option" where
  "Classify env key value =
    (if value = [] \<or> isRedactedCredentialValue env value \<or> matchString secretTokenPattern value then Some []
     else if IsSecretKey env key then Some [secretFinding (entityForKey env key) 0 (int (length value)) 0]
     else detectSecretValues env value)"

text \<open>The loop of \<open>Redact\<close>: the text written so far, and where the rest of the source starts.\<close>

fun redactLoop :: "string \<Rightarrow> int \<Rightarrow> Finding list \<Rightarrow> string option" where
  "redactLoop value start [] = goSlice value start (int (length value))"
| "redactLoop value start (f # fs) =
    (if f_Start f < start \<or> f_End f > int (length value) then redactLoop value start fs
     else Option.bind (goSlice value start (f_Start f)) (\<lambda>before.
          map_option (\<lambda>rest. before @ redactedSecret @ rest) (redactLoop value (f_End f) fs)))"

definition Redact :: "goEnv \<Rightarrow> string \<Rightarrow> string \<Rightarrow> string option" where
  "Redact env key value =
    Option.bind (Classify env key value) (\<lambda>findings.
      if findings = [] then Some value
      else redactLoop value 0 (sliceStable start_less findings))"

section \<open>Every candidate is a span of the text\<close>

definition span_within :: "string \<Rightarrow> Finding \<Rightarrow> bool" where
  "span_within v f \<longleftrightarrow> 0 \<le> f_Start f \<and> f_Start f < f_End f \<and> f_End f \<le> int (length v)"

lemma secretFinding_simps [simp]:
  "f_Start (secretFinding n s e i) = s" "f_End (secretFinding n s e i) = e"
  "f_Category (secretFinding n s e i) = CategorySecret"
  "f_Kind (secretFinding n s e i) = MatchHighConfidenceSecret"
  by (simp_all add: secretFinding_def)

definition pattern_wf :: "secretPattern \<Rightarrow> bool" where
  "pattern_wf p \<longleftrightarrow> re_min (sp_re p) > 0 \<and> groups_pos (sp_re p)
    \<and> (sp_valueCapture p > 0 \<longrightarrow> re_captures (sp_valueCapture p) (sp_re p))"

lemmas re_defs = rPlus_def rOpt_def rAtLeast_def rBetween_def rFoldChar_def rFold_def rSpaces_def
  rCredentialFold_def rKeyKind_def

lemma re_min_fold [simp]: "re_min (rFoldChar c) = 1" "groups_pos (rFoldChar c)"
  by (simp_all add: rFoldChar_def Let_def)

lemma re_min_seq: "re_min (rSeq rs) = sum_list (map re_min rs)" "groups_pos (rSeq rs) = list_all groups_pos rs"
  by (induction rs rule: rSeq.induct) auto

lemma re_min_rFold [simp]: "re_min (rFold s) = length s" "groups_pos (rFold s)"
  by (simp_all add: rFold_def re_min_seq sum_list_triv o_def list_all_iff)

lemma re_min_lit [simp]: "re_min (rLit s) = length s" "groups_pos (rLit s)"
  by (induction s rule: rLit.induct) auto

lemma groups_pos_times [simp]: "groups_pos r \<Longrightarrow> groups_pos (rTimes n r)"
  by (induction n) auto

lemma re_min_times [simp]: "re_min (rTimes n r) = n * re_min r"
  by (induction n) auto

lemma re_min_derived [simp]:
  "re_min (rPlus r) = re_min r" "groups_pos (rPlus r) = groups_pos r"
  "re_min (rOpt r) = 0" "groups_pos (rOpt r) = groups_pos r"
  "re_min (rAtLeast n r) = n * re_min r" "groups_pos r \<Longrightarrow> groups_pos (rAtLeast n r)"
  "re_min rSpaces = 0" "groups_pos rSpaces" "re_min rCredentialFold = 1" "groups_pos rCredentialFold"
  "groups_pos rKeyKind" "re_min rKeyKind = 0"
  by (simp_all add: rPlus_def rOpt_def rAtLeast_def rSpaces_def rCredentialFold_def rKeyKind_def)

lemma secretValuePatterns_wf: "p \<in> set secretValuePatterns \<Longrightarrow> pattern_wf p"
  by (auto simp: secretValuePatterns_def mkPattern_def pattern_wf_def privateKeyRE_def authorizationRE_def
      bearerRE_def githubRE_def gitlabRE_def openaiRE_def)

text \<open>A candidate lies inside the match it reports and is not empty.\<close>

lemma patternSpan_inside:
  assumes "pattern_wf p" "(a, b, c) \<in> set (findAll (sp_re p) v)" "patternSpan p (a, b, c) = (s, e)"
  shows "int a \<le> s \<and> s < e \<and> e \<le> int b \<and> b \<le> length v"
proof -
  from assms(2) findAll_ok[of "sp_re p" v] have ok: "a + re_min (sp_re p) \<le> b" "b \<le> length v"
    "matchAt (sp_re p) v a = Some (b, c)" by (auto simp: matches_ok_def)
  show ?thesis
  proof (cases "sp_valueCapture p > 0")
    case True
    with assms(1) matchAt_group[OF ok(3), of "sp_valueCapture p"] ok obtain x y where
      "map_of c (sp_valueCapture p) = Some (x, y)" "a \<le> x" "x < y" "y \<le> b"
      by (auto simp: pattern_wf_def)
    with True assms(3) ok show ?thesis by (auto simp: patternSpan_def)
  next
    case False
    with assms(1,3) ok show ?thesis by (auto simp: patternSpan_def pattern_wf_def)
  qed
qed

lemma patternCandidates_within:
  assumes "pattern_wf p" "f \<in> set (patternCandidates v order p)"
  shows "span_within v f"
proof -
  from assms(2) obtain a b c where m: "(a, b, c) \<in> set (findAll (sp_re p) v)"
    and f: "f = (let (s, e) = patternSpan p (a, b, c) in secretFinding (sp_entity p) s e (int order))"
    by (auto simp: patternCandidates_def)
  with patternSpan_inside[OF assms(1) m] show ?thesis
    by (cases "patternSpan p (a, b, c)") (auto simp: span_within_def)
qed

lemma skipWhile_bounds: "i \<le> skipWhile P s i" "i \<le> length s \<Longrightarrow> skipWhile P s i \<le> length s"
  using length_takeWhile_le[of P "drop i s"] by (auto simp: skipWhile_def)

lemma urlScanLoop_le: "urlScanLoop st cursor rest hardEnd \<le> max hardEnd (cursor + length rest)"
proof (induction rest arbitrary: st cursor)
  case (Cons c rest)
  have "urlScanLoop st' (Suc cursor) rest hardEnd \<le> max hardEnd (cursor + length (c # rest))" for st'
    using Cons[of st' "Suc cursor"] by simp
  then show ?case by (auto split: option.splits)
qed simp

lemma trimURLSuffix_le: "trimURLSuffix v schemeEnd e \<le> e"
  by (induction e) auto

lemma findCredentialURLs_within:
  assumes "(a, e) \<in> set (findCredentialURLs env v)"
  shows "a < e \<and> e \<le> length v"
proof -
  from assms obtain b c where m: "(a, b, c) \<in> set (findAll urlSchemePattern v)"
    and r: "(let hardEnd = skipWhile (\<lambda>c. \<not> isURLBoundary c) v b;
            (e, ok) = credentialURLPrefixEndWithValidator v a b hardEnd (isCredentialURL env)
        in if ok then Some (a, e) else None) = Some (a, e)"
    unfolding findCredentialURLs_def set_map_filter_iff by (force simp: Let_def split: prod.splits if_splits)
  let ?h = "skipWhile (\<lambda>c. \<not> isURLBoundary c) v b"
  from m findAll_ok[of urlSchemePattern v] have b: "a \<le> b" "b \<le> length v"
    by (auto simp: matches_ok_def)
  then have h: "b \<le> ?h" "?h \<le> length v" using skipWhile_bounds by auto
  have "urlScanLoop st b (substr v b ?h) ?h \<le> ?h" for st
    using urlScanLoop_le[of st b "substr v b ?h" ?h] h by (auto simp: substr_def)
  then have "trimURLSuffix v b (urlScanLoop st b (substr v b ?h) ?h) \<le> length v" for st
    using trimURLSuffix_le h(2) by (meson order.trans)
  with r b show ?thesis
    by (auto simp: credentialURLPrefixEndWithValidator_def Let_def split: if_splits)
qed

lemma quotedEnd_bounds:
  "e \<le> quotedEnd v quote e" "e \<le> length v \<Longrightarrow> quotedEnd v quote e \<le> length v"
proof (induction v quote e rule: quotedEnd.induct)
  case (1 v quote e)
  { case 1 show ?case using "1.IH"(1) by (subst quotedEnd.simps) (auto intro: Suc_leD) }
  { case 2 then show ?case using "1.IH"(2) by (subst quotedEnd.simps) auto }
qed

lemma assignedValueAt_within:
  "assignedValueAt v keyEnd = Some (a, b) \<Longrightarrow> a < b \<and> b \<le> length v"
  unfolding assignedValueAt_def Let_def
  using skipWhile_bounds quotedEnd_bounds
  by (auto split: if_splits simp: Suc_le_eq le_neq_implies_less)

lemma assignmentAt_within:
  "assignmentAt v start = Some (x, k) \<Longrightarrow> sa_valueStart x < sa_valueEnd x \<and> sa_valueEnd x \<le> length v"
  unfolding assignmentAt_def
  by (cases "assignmentKeyAt v start") (auto split: option.splits prod.splits simp: assignedValueAt_within)

lemma assignmentLoop_within:
  "x \<in> set (assignmentLoop v labels start) \<Longrightarrow> sa_valueStart x < sa_valueEnd x \<and> sa_valueEnd x \<le> length v"
proof (induction v labels start rule: assignmentLoop.induct)
  case (1 v labels start)
  show ?case
  proof (cases "start \<ge> length v")
    case True
    with 1(6) show ?thesis by (simp add: assignmentLoop.simps)
  next
    case False
    note run = 1(6)[unfolded assignmentLoop.simps[of v labels start]]
    show ?thesis
    proof (cases "dropWhile (\<lambda>(a, b). b \<le> start) labels")
      case Nil
      with run False show ?thesis
        by (auto split: option.splits dest: assignmentAt_within 1(1)[OF False Nil] 1(2)[OF False Nil])
    next
      case (Cons l labels')
      obtain a b where l: "l = (a, b)" by (cases l)
      from run False Cons l show ?thesis
        by (auto split: option.splits if_splits dest: assignmentAt_within 1(3)[OF False Cons l[symmetric]]
            1(4)[OF False Cons l[symmetric]] 1(5)[OF False Cons l[symmetric]])
    qed
  qed
qed

lemma assignmentCandidates_within:
  "\<forall>a \<in> set as. sa_valueStart a < sa_valueEnd a \<and> sa_valueEnd a \<le> length v \<Longrightarrow>
    assignmentCandidates env w order as = Some fs \<Longrightarrow> f \<in> set fs \<Longrightarrow> span_within v f \<and> f_Category f = CategorySecret"
  by (induction env w order as arbitrary: fs rule: assignmentCandidates.induct)
    (auto simp: span_within_def bind_eq_Some_conv split: if_splits)

lemma enumerate_member: "(i, p) \<in> set (enumerate 0 xs) \<Longrightarrow> p \<in> set xs"
  by (auto simp: in_set_enumerate_eq)

lemma secretCandidates_within:
  assumes "secretCandidates env v = Some cs" "f \<in> set cs"
  shows "span_within v f" "f_Category f = CategorySecret"
proof -
  consider (pat) order p where "p \<in> set secretValuePatterns" "f \<in> set (patternCandidates v order p)"
    | (url) a b where "(a, b) \<in> set (findCredentialURLs env v)"
        "f = secretFinding ''CREDENTIAL_URL'' (int a) (int b) (int (length secretValuePatterns))"
    | (asg) fs where "assignmentCandidates env v (Suc (length secretValuePatterns)) (findStructuredAssignments v) = Some fs"
        "f \<in> set fs"
    using assms unfolding secretCandidates_def by auto (blast dest: enumerate_member)
  then have "span_within v f \<and> f_Category f = CategorySecret"
  proof cases
    case pat
    then have "f_Category f = CategorySecret"
      by (auto simp: patternCandidates_def split: prod.splits)
    with pat patternCandidates_within secretValuePatterns_wf show ?thesis by blast
  next
    case url
    with findCredentialURLs_within show ?thesis by (auto simp: span_within_def)
  next
    case asg
    then show ?thesis
      using assignmentCandidates_within[of "findStructuredAssignments v" v env v _ fs f]
        assignmentLoop_within[of _ v] by (auto simp: findStructuredAssignments_def)
  qed
  then show "span_within v f" "f_Category f = CategorySecret" by simp_all
qed

lemma span_within_ok: "span_within v f \<Longrightarrow> span_ok f"
  by (simp add: span_within_def span_ok_def)

section \<open>When the classifier panics\<close>

text \<open>A credential assignment whose value is a scheme and blanks up to the end of the text, as in \<open>password=bearer\<close> and a blank.\<close>

definition danglingScheme :: "goEnv \<Rightarrow> string \<Rightarrow> bool" where
  "danglingScheme env v \<longleftrightarrow> list_ex (\<lambda>a. isSecretKeyWords (normalizeKeyWords env (sa_key a))
     \<and> credentialSchemeEnd v (sa_valueStart a) = Some (length v)) (findStructuredAssignments v)"

lemma credentialSchemeEnd_le: "credentialSchemeEnd v start = Some e \<Longrightarrow> e \<le> length v"
  using skipWhile_bounds(2) by (auto simp: credentialSchemeEnd_def Let_def split: if_splits)

lemma redactedSecret_nonempty: "hasPrefix rest redactedSecret \<Longrightarrow> rest \<noteq> []"
  by (auto simp: hasPrefix_def redactedSecret_def)

lemma isRedactedAssignment_panics:
  "start < length v \<Longrightarrow> isRedactedAssignment v start = None \<longleftrightarrow> credentialSchemeEnd v start = Some (length v)"
  using credentialSchemeEnd_le[of v start] redactedSecret_nonempty
  by (fastforce simp: isRedactedAssignment_def Let_def split: option.splits list.splits if_splits)

lemma assignmentCandidates_panics:
  "\<forall>a \<in> set as. sa_valueStart a < length v \<Longrightarrow> assignmentCandidates env v order as = None \<longleftrightarrow>
    list_ex (\<lambda>a. isSecretKeyWords (normalizeKeyWords env (sa_key a)) \<and> credentialSchemeEnd v (sa_valueStart a) = Some (length v)) as"
proof (induction env v order as rule: assignmentCandidates.induct)
  case (2 env v order a as)
  show ?case
    using 2 isRedactedAssignment_panics[of "sa_valueStart a" v] by (auto simp: bind_eq_None_conv)
qed simp

lemma secretCandidates_panics: "secretCandidates env v = None \<longleftrightarrow> danglingScheme env v"
proof -
  have "sa_valueStart a < length v" if "a \<in> set (findStructuredAssignments v)" for a
    using assignmentLoop_within[of a v] that by (fastforce simp: findStructuredAssignments_def)
  then show ?thesis by (simp add: secretCandidates_def danglingScheme_def assignmentCandidates_panics)
qed

lemma detectSecretValues_sound:
  assumes "\<not> danglingScheme env v"
  shows "\<exists>cs fs. secretCandidates env v = Some cs \<and> detectSecretValues env v = Some fs \<and> spans_apart fs
    \<and> (\<forall>f \<in> set fs. span_within v f \<and> f_Category f = CategorySecret)
    \<and> (\<forall>c \<in> set cs. \<exists>f \<in> set fs. f = c \<or> overlaps c f)"
proof -
  obtain cs where cs: "secretCandidates env v = Some cs" using assms secretCandidates_panics by blast
  have ok: "list_all span_ok cs"
    using secretCandidates_within(1)[OF cs, THEN span_within_ok] by (auto simp: list_all_iff)
  from Arbitrate_sound[OF ok] cs obtain out where out: "detectSecretValues env v = Some out" "spans_apart out"
    "mset out \<subseteq># mset cs" "\<forall>f \<in> set cs. \<exists>a \<in> set out. a = f \<or> overlaps f a \<and> \<not> priority_less f a"
    by (auto simp: detectSecretValues_def)
  from out(3) have "set out \<subseteq> set cs"
    by (metis set_mset_mono set_mset_mset)
  with secretCandidates_within[OF cs] have
    "\<forall>f \<in> set out. span_within v f \<and> f_Category f = CategorySecret" by blast
  with cs out show ?thesis by blast
qed

text \<open>The texts on which \<open>Classify\<close> panics.\<close>

definition classifyPanics :: "goEnv \<Rightarrow> string \<Rightarrow> string \<Rightarrow> bool" where
  "classifyPanics env key v \<longleftrightarrow> v \<noteq> [] \<and> \<not> isRedactedCredentialValue env v \<and> \<not> matchString secretTokenPattern v
    \<and> \<not> IsSecretKey env key \<and> danglingScheme env v"

lemma Classify_panics: "classifyPanics env key v \<Longrightarrow> Classify env key v = None"
  by (simp add: classifyPanics_def Classify_def detectSecretValues_def secretCandidates_panics[THEN iffD2])

lemma Classify_sound:
  assumes "\<not> classifyPanics env key v"
  shows "\<exists>fs. Classify env key v = Some fs \<and> spans_apart fs
    \<and> (\<forall>f \<in> set fs. span_within v f \<and> f_Category f = CategorySecret)"
proof -
  have "spans_apart [secretFinding n 0 (int (length v)) 0]"
    "span_within v (secretFinding n 0 (int (length v)) 0)" if "v \<noteq> []" for n
    using that by (simp_all add: spans_apart_def span_ok_def span_within_def)
  then show ?thesis
    using detectSecretValues_sound[of env v] assms
    by (auto simp: Classify_def spans_apart_def[of "[]"] classifyPanics_def)
qed

section \<open>Redaction\<close>

text \<open>The reference: the spans replaced one by one, the last one first.\<close>

definition splice1 :: "Finding \<Rightarrow> string \<Rightarrow> string" where
  "splice1 f s = take (nat (f_Start f)) s @ redactedSecret @ drop (nat (f_End f)) s"

definition splice :: "Finding list \<Rightarrow> string \<Rightarrow> string" where
  "splice fs s = foldr splice1 fs s"

lemma splice_prefix:
  "spans_apart fs \<Longrightarrow> \<forall>f \<in> set fs. span_within v f \<and> int k \<le> f_Start f \<Longrightarrow> k \<le> length v \<Longrightarrow>
    take k (splice fs v) = take k v \<and> k \<le> length (splice fs v)"
proof (induction fs arbitrary: k)
  case (Cons f fs)
  then have f: "span_within v f" "int k \<le> f_Start f" "spans_apart fs"
    and later: "\<forall>g \<in> set fs. span_within v g \<and> int (nat (f_Start f)) \<le> f_Start g"
    by (force simp: spans_apart_def span_within_def)+
  then have "take (nat (f_Start f)) (splice fs v) = take (nat (f_Start f)) v"
    "nat (f_Start f) \<le> length (splice fs v)"
    using Cons.IH[of "nat (f_Start f)"] by (auto simp: span_within_def)
  moreover define X i where "X = splice fs v" and "i = nat (f_Start f)"
  ultimately have X: "take i X = take i v" "i \<le> length X" "k \<le> i" using f(2) by auto
  have "splice (f # fs) v = take i X @ redactedSecret @ drop (nat (f_End f)) X"
    by (simp add: splice_def splice1_def X_def i_def)
  moreover have "take k (take i X) = take k v" using X(1,3) by (simp add: min_absorb1)
  ultimately show ?case using X(2,3) by (simp add: min_absorb1)
qed (simp add: splice_def)

lemma redactLoop_splice:
  "spans_apart fs \<Longrightarrow> \<forall>f \<in> set fs. span_within v f \<and> int k \<le> f_Start f \<Longrightarrow> k \<le> length v \<Longrightarrow>
    redactLoop v (int k) fs = Some (drop k (splice fs v))"
proof (induction fs arbitrary: k)
  case Nil
  then show ?case by (simp add: goSlice_def substr_def splice_def)
next
  case (Cons f fs)
  define s e where "s = nat (f_Start f)" and "e = nat (f_End f)"
  from Cons.prems have f: "f_Start f = int s" "f_End f = int e" "k \<le> s" "s < e" "e \<le> length v"
    and apart: "spans_apart fs" and later: "\<forall>g \<in> set fs. span_within v g \<and> int e \<le> f_Start g"
    by (auto simp: spans_apart_def span_within_def s_def e_def)
  have "redactLoop v (int e) fs = Some (drop e (splice fs v))"
    using Cons.IH[OF apart later f(5)] .
  moreover have "\<forall>g \<in> set fs. span_within v g \<and> int s \<le> f_Start g" using later f(4) by auto
  from splice_prefix[OF apart this] f(4,5) have "take s (splice fs v) = take s v" "s \<le> length (splice fs v)"
    by auto
  ultimately show ?case
    using f by (simp add: goSlice_def substr_def splice_def splice1_def drop_take)
qed

lemma Redact_splice:
  assumes "Classify env key v = Some fs"
  shows "Redact env key v = Some (splice fs v)"
proof -
  have fs: "spans_apart fs" "\<forall>f \<in> set fs. span_within v f"
    using Classify_sound[of env key v] Classify_panics[of env key v] assms by fastforce+
  then have "sorted (map f_Start fs)" by (intro spans_apart_sorted)
  then have "sliceStable start_less fs = fs"
    by (intro start.sliceStable_sorted) (simp add: sorted_wrt_map start_less_def not_less)
  moreover have "redactLoop v 0 fs = Some (splice fs v)"
    using redactLoop_splice[OF fs(1), of v 0] fs(2) by (auto simp: span_within_def)
  ultimately show ?thesis using assms by (simp add: Redact_def splice_def)
qed

text \<open>
  The classifier panics on exactly the texts of \<open>classifyPanics\<close>; on any other its findings are credentials at non-empty,
  disjoint spans of the value in source order.
\<close>

theorem classify_well_formed:
  "(Classify env key v = None \<longleftrightarrow> classifyPanics env key v)
    \<and> (\<not> classifyPanics env key v \<longrightarrow> (\<exists>fs. Classify env key v = Some fs
      \<and> sorted_wrt (\<lambda>f g. f_End f \<le> f_Start g) fs
      \<and> list_all (\<lambda>f. 0 \<le> f_Start f \<and> f_Start f < f_End f \<and> f_End f \<le> int (length v)
          \<and> f_Category f = CategorySecret) fs))"
  using Classify_sound[of env key v] Classify_panics[of env key v]
  by (fastforce simp: spans_apart_def span_within_def list_all_iff)

text \<open>
  C37. \<open>Redact\<close> panics exactly when a credential assignment ends the text with a bare
  \<open>bearer\<close> or \<open>basic\<close> and blanks (\<open>classifyPanics\<close>). On every other text it replaces every span
  the classifier reports and nothing else: its single left-to-right pass, which skips spans
  that start before the previous one ended, skips none, indexes no slice out of range and
  gives what replacing the spans one by one from the last to the first gives.
\<close>

theorem redact_replaces_all:
  "(Redact env key v = None \<longleftrightarrow> classifyPanics env key v)
    \<and> (\<not> classifyPanics env key v \<longrightarrow>
        (\<exists>fs. Classify env key v = Some fs \<and> Redact env key v = Some (foldr splice1 fs v)))"
proof (cases "classifyPanics env key v")
  case True
  then show ?thesis using Classify_panics[OF True] by (simp add: Redact_def)
next
  case False
  then obtain fs where fs: "Classify env key v = Some fs" using Classify_sound by blast
  from Redact_splice[OF this] False fs show ?thesis by (simp add: splice_def)
qed

text \<open>
  C36. No credential that one of the patterns describes goes unnoticed: wherever the language of a pattern matches the value, the classifier
  reports a span that shares a byte with the pattern's match at that place, unless the value
  as a whole counts as redacted or is one of the gateway's own labels, or the classifier
  panics (on the texts of \<open>classifyPanics\<close> only).
\<close>

theorem no_secret_missed:
  assumes "p \<in> set secretValuePatterns" "re_match v (sp_re p) a b" "a \<le> length v" "v \<noteq> []"
    and "\<not> isRedactedCredentialValue env v" "\<not> matchString secretTokenPattern v" "\<not> classifyPanics env key v"
  shows "\<exists>fs a' b'. Classify env key v = Some fs \<and> a' \<le> a \<and> a < b'
    \<and> (\<exists>f \<in> set fs. f_Start f < int b' \<and> int a' < f_End f)"
proof (cases "IsSecretKey env key")
  case True
  with assms(3-6) re_match_bounds[OF assms(2,3)] secretValuePatterns_wf[OF assms(1)] show ?thesis
    by (intro exI[of _ "[secretFinding (entityForKey env key) 0 (int (length v)) 0]"] exI[of _ a] exI[of _ "Suc a"])
      (auto simp: Classify_def pattern_wf_def)
next
  case False
  with assms(4-7) have calm: "\<not> danglingScheme env v" by (simp add: classifyPanics_def)
  from assms(1) have wf: "pattern_wf p" by (rule secretValuePatterns_wf)
  then obtain a' b' c where m: "(a', b', c) \<in> set (findAll (sp_re p) v)" "a' \<le> a" "a < b'"
    using findAll_covers[OF _ assms(2,3)] by (auto simp: pattern_wf_def)
  obtain s e where se: "patternSpan p (a', b', c) = (s, e)" by fastforce
  from assms(1) obtain order where order: "(order, p) \<in> set (enumerate 0 secretValuePatterns)"
    unfolding in_set_conv_nth[of p] using that[of "i" for i] by (force simp: in_set_enumerate_eq)
  have "secretFinding (sp_entity p) s e (int order) \<in> set (patternCandidates v order p)"
    using m(1) se by (force simp: patternCandidates_def)
  with order have cand: "secretFinding (sp_entity p) s e (int order) \<in> set cs" if "secretCandidates env v = Some cs" for cs
    using that by (force simp: secretCandidates_def)
  obtain cs fs where cs: "secretCandidates env v = Some cs" and fs: "detectSecretValues env v = Some fs"
    "\<forall>c \<in> set cs. \<exists>f \<in> set fs. f = c \<or> overlaps c f"
    using detectSecretValues_sound[OF calm] by blast
  with cand[OF cs] obtain f where f: "f \<in> set fs" "f_Start f < e" "s < f_End f"
    using patternSpan_inside[OF wf m(1) se] by (force simp: overlaps_def)
  have "f_Start f < int b'" "int a' < f_End f"
    using f patternSpan_inside[OF wf m(1) se] by auto
  moreover have "Classify env key v = Some fs" using False assms(4-6) fs(1) by (simp add: Classify_def)
  ultimately show ?thesis using m f(1) by blast
qed

text \<open>An environment for ASCII texts, and a value with a bearer token.\<close>

definition asciiEnv :: goEnv where
  "asciiEnv = \<lparr>env_runes = map of_char, env_utf8 = (\<lambda>r. [char_of r]),
     env_IsSpace = (\<lambda>r. r \<in> {9, 10, 11, 12, 13, 32}), env_IsLower = (\<lambda>r. 97 \<le> r \<and> r \<le> 122),
     env_IsUpper = (\<lambda>r. 65 \<le> r \<and> r \<le> 90), env_IsDigit = (\<lambda>r. 48 \<le> r \<and> r \<le> 57),
     env_ToLower = (\<lambda>r. if 65 \<le> r \<and> r \<le> 90 then r + 32 else r), env_ParseURL = (\<lambda>_. None)\<rparr>"

lemmas regexp_eval = rPlus_def rOpt_def rAtLeast_def rFoldChar_def rFold_def rSpaces_def rCredentialFold_def
  wordBoundary_def wordAt_def isWordA_def isAlnumA_def isAlphaA_def isLowerA_def isUpperA_def isDigitA_def
  inRange_def lowerA_def isCredentialByte_def isUpperHex_def less_eq_char_def

lemma bearer_example: "re_match ''bearer x'' bearerRE 0 8"
proof -
  have "matchAt bearerRE ''bearer x'' 0 = Some (8, [(1, 7, 8)])"
    by (simp add: matchAt_def bearerRE_def regexp_eval)
  then show ?thesis by (rule matchAt_sound)
qed

text \<open>The text on which the classifier panics: an assignment without the token, cut off after its scheme.\<close>

definition exDangling :: string where "exDangling = ''password=bearer ''"

lemma exDangling_assignment:
  "findStructuredAssignments exDangling = [\<lparr>sa_key = ''password'', sa_valueStart = 9, sa_valueEnd = 15\<rparr>]"
  by (code_simp)

lemma bearer_calm: "findStructuredAssignments ''bearer x'' = []"
  by (code_simp)

lemma exDangling_panics: "classifyPanics asciiEnv [] exDangling"
proof -
  have "exDangling \<noteq> []" by code_simp
  moreover have "\<not> isRedactedCredentialValue asciiEnv exDangling" by code_simp
  moreover have "\<not> matchString secretTokenPattern exDangling" by code_simp
  moreover have "\<not> IsSecretKey asciiEnv []" by code_simp
  moreover have "isSecretKeyWords (normalizeKeyWords asciiEnv ''password'')" by code_simp
  moreover have "credentialSchemeEnd exDangling 9 = Some (length exDangling)" by code_simp
  ultimately show ?thesis by (simp add: classifyPanics_def danglingScheme_def exDangling_assignment)
qed

lemma bearer_no_panic: "\<not> classifyPanics asciiEnv key ''bearer x''"
  by (simp add: classifyPanics_def danglingScheme_def bearer_calm)

theorem redact_replaces_all_witness:
  "Redact asciiEnv [] exDangling = None \<and> Redact asciiEnv ''note'' ''bearer x'' \<noteq> None"
  using redact_replaces_all[of asciiEnv "[]" exDangling] redact_replaces_all[of asciiEnv "''note''" "''bearer x''"]
    exDangling_panics bearer_no_panic by auto

theorem no_secret_missed_witness:
  "\<exists>fs f. Classify asciiEnv ''note'' ''bearer x'' = Some fs \<and> f \<in> set fs"
proof -
  have p: "mkPattern ''BEARER_TOKEN'' bearerRE 1 \<in> set secretValuePatterns"
    by (simp add: secretValuePatterns_def)
  have "\<not> isRedactedCredentialValue asciiEnv ''bearer x''"
    by (simp add: isRedactedCredentialValue_def env_Fields_def asciiEnv_def runeFields.simps env_encode_def
        redactedSecret_def)
  moreover have "\<not> matchString secretTokenPattern ''bearer x''"
    by (simp add: matchString_def findFrom.simps matchAt_def secretTokenPattern_def oneWaySecretLabelPattern_def
        regexp_eval)
  ultimately show ?thesis
    using no_secret_missed[OF p, of "''bearer x''" 0 8 asciiEnv "''note''"] bearer_example bearer_no_panic
    by (auto simp: mkPattern_def)
qed

end
