(* ===== verification/AcpStream.thy ===== *)
theory AcpStream
  imports GatewayPrelude
begin

text \<open>
  The handle of one prompt (internal/acp/stream.go). The reader goroutine pushes chunks, one of
  several goroutines closes the stream, consumers drain the chunk channel and ask for the
  result. Every section between two synchronisation points of \<open>push\<close>, \<open>close\<close> and \<open>Result\<close> is a function
  on the record \<open>Stream\<close>; \<open>stream_step\<close> interleaves them in every possible order, for any number
  of concurrent calls. The read-write mutex \<open>sendMu\<close> is modelled with Go's rule that a waiting writer keeps
  new readers out. Sending on a closed channel and closing a channel twice panic in Go: here they
  set \<open>st_panicked\<close>. Two fields are not in the source and only record history: \<open>st_taken\<close>,
  the chunks the consumer has received, and \<open>st_closer\<close>, the arguments of the call of
  \<open>close\<close> that ran.
\<close>

section \<open>Data\<close>

datatype StopReason = StopUnknown | StopEndTurn | StopMaxTokens | StopMaxTurnRequests | StopRefusal
  | StopCancelled | StopError

datatype acp_err = ErrClientClosed | ErrCtxDone | ErrRpc int string | ErrBadResult | ErrMissingSessionID

datatype push_err = ErrPushAfterClose | ErrPushCancelled

record FinalResult =
  fr_SessionID :: string
  fr_ChunkCount :: nat
  fr_StopReason :: StopReason
  fr_ToolDenials :: nat

datatype onceState = NotRun | Running | Ran

datatype lockState = Unlocked | Waiting | Held

record 'c Stream =
  st_chunks :: "'c list"
  st_chunksClosed :: bool
  st_ctxDone :: bool
  st_done :: bool
  st_closeOnce :: onceState
  st_readers :: nat
  st_sendMu :: lockState
  st_closed :: bool
  st_result :: FinalResult
  st_err :: "acp_err option"
  st_denyBuiltinTools :: bool
  st_denialCount :: nat
  st_panicked :: bool
  st_taken :: "'c list"
  st_closer :: "(StopReason option \<times> acp_err option) option"

definition chunkBuffer :: nat where "chunkBuffer = 64"

definition newStream :: "string \<Rightarrow> 'c Stream" where
  "newStream sessionID =
     \<lparr> st_chunks = [], st_chunksClosed = False, st_ctxDone = False, st_done = False, st_closeOnce = NotRun,
       st_readers = 0, st_sendMu = Unlocked, st_closed = False,
       st_result = \<lparr>fr_SessionID = sessionID, fr_ChunkCount = 0, fr_StopReason = StopUnknown, fr_ToolDenials = 0\<rparr>,
       st_err = None, st_denyBuiltinTools = False, st_denialCount = 0, st_panicked = False,
       st_taken = [], st_closer = None \<rparr>"

section \<open>push\<close>

text \<open>Taking the read lock and testing \<open>closed\<close>; \<open>Inr\<close> is the stream in which the call is at the select.\<close>

definition push_enter :: "'c Stream \<Rightarrow> push_err + 'c Stream" where
  "push_enter s = (if st_closed s then Inl ErrPushAfterClose else Inr (s\<lparr>st_readers := st_readers s + 1\<rparr>))"

text \<open>The three arms of the select. Sending on a closed channel panics.\<close>

definition push_send :: "'c \<Rightarrow> 'c Stream \<Rightarrow> 'c Stream" where
  "push_send c s = (if st_chunksClosed s then s\<lparr>st_panicked := True\<rparr> else s\<lparr>st_chunks := st_chunks s @ [c]\<rparr>)"

definition push_count :: "'c Stream \<Rightarrow> 'c Stream" where
  "push_count s = s\<lparr>st_result := (st_result s)\<lparr>fr_ChunkCount := fr_ChunkCount (st_result s) + 1\<rparr>\<rparr>"

definition push_leave :: "'c Stream \<Rightarrow> 'c Stream" where
  "push_leave s = s\<lparr>st_readers := st_readers s - 1\<rparr>"

section \<open>close\<close>

definition close_done :: "StopReason option \<Rightarrow> acp_err option \<Rightarrow> 'c Stream \<Rightarrow> 'c Stream" where
  "close_done res err s = s\<lparr>st_closeOnce := Running, st_done := True, st_panicked := st_panicked s \<or> st_done s,
     st_closer := Some (res, err)\<rparr>"

definition close_wait :: "'c Stream \<Rightarrow> 'c Stream" where
  "close_wait s = s\<lparr>st_sendMu := Waiting\<rparr>"

definition close_lock :: "'c Stream \<Rightarrow> 'c Stream" where
  "close_lock s = s\<lparr>st_sendMu := Held, st_closed := True\<rparr>"

definition mergeStop :: "StopReason option \<Rightarrow> StopReason \<Rightarrow> StopReason" where
  "mergeStop res old = (case res of Some r \<Rightarrow> if r \<noteq> StopUnknown then r else old | None \<Rightarrow> old)"

definition close_merge :: "StopReason option \<Rightarrow> acp_err option \<Rightarrow> 'c Stream \<Rightarrow> 'c Stream" where
  "close_merge res err s = s\<lparr>st_result := (st_result s)\<lparr>fr_StopReason := mergeStop res (fr_StopReason (st_result s)),
     fr_ToolDenials := st_denialCount s\<rparr>, st_err := err\<rparr>"

definition close_chunks :: "'c Stream \<Rightarrow> 'c Stream" where
  "close_chunks s = s\<lparr>st_chunksClosed := True, st_panicked := st_panicked s \<or> st_chunksClosed s, st_sendMu := Unlocked,
     st_closeOnce := Ran\<rparr>"

section \<open>The other methods\<close>

definition stream_Result :: "'c Stream \<Rightarrow> FinalResult \<times> acp_err option" where
  "stream_Result s = (st_result s, st_err s)"

definition setDenyBuiltinTools :: "bool \<Rightarrow> 'c Stream \<Rightarrow> 'c Stream" where
  "setDenyBuiltinTools v s = s\<lparr>st_denyBuiltinTools := v\<rparr>"

definition denyTools :: "'c Stream \<Rightarrow> bool" where
  "denyTools s = st_denyBuiltinTools s"

definition recordDenial :: "'c Stream \<Rightarrow> nat \<times> 'c Stream" where
  "recordDenial s = (st_denialCount s + 1, s\<lparr>st_denialCount := st_denialCount s + 1\<rparr>)"

definition stream_SessionID :: "'c Stream \<Rightarrow> string" where
  "stream_SessionID s = fr_SessionID (st_result s)"

text \<open>The consumer's side of the channel: \<open>None\<close> is a closed and drained channel.\<close>

definition stream_recv :: "'c Stream \<Rightarrow> 'c option \<times> 'c Stream" where
  "stream_recv s = (case st_chunks s of [] \<Rightarrow> (None, s)
     | c # cs \<Rightarrow> (Some c, s\<lparr>st_chunks := cs, st_taken := st_taken s @ [c]\<rparr>))"

section \<open>Steps\<close>

datatype 'c sact =
    SPush 'c
  | SSelect 'c
  | SSent
  | SClose "StopReason option" "acp_err option"
  | SClosing "StopReason option" "acp_err option"
  | SLocking "StopReason option" "acp_err option"
  | SMerging "StopReason option" "acp_err option"
  | SClosingChunks
  | SResult
  | SReturned FinalResult "acp_err option"

type_synonym 'c ssys = "'c Stream \<times> 'c sact multiset"

inductive stream_step :: "'c ssys \<Rightarrow> 'c ssys \<Rightarrow> bool" where
  ss_push: "stream_step (s, A) (s, add_mset (SPush c) A)"
| ss_rlock: "st_sendMu s = Unlocked \<Longrightarrow> push_enter s = Inr s' \<Longrightarrow>
    stream_step (s, add_mset (SPush c) A) (s', add_mset (SSelect c) A)"
| ss_rlockClosed: "st_sendMu s = Unlocked \<Longrightarrow> push_enter s = Inl err \<Longrightarrow> stream_step (s, add_mset (SPush c) A) (s, A)"
| ss_send: "st_chunksClosed s \<or> length (st_chunks s) < chunkBuffer \<Longrightarrow>
    stream_step (s, add_mset (SSelect c) A) (push_send c s, add_mset SSent A)"
| ss_sent: "stream_step (s, add_mset SSent A) (push_leave (push_count s), A)"
| ss_pushCtx: "st_ctxDone s \<Longrightarrow> stream_step (s, add_mset (SSelect c) A) (push_leave s, A)"
| ss_pushDone: "st_done s \<Longrightarrow> stream_step (s, add_mset (SSelect c) A) (push_leave s, A)"
| ss_close: "stream_step (s, A) (s, add_mset (SClose res err) A)"
| ss_closeFirst: "st_closeOnce s = NotRun \<Longrightarrow>
    stream_step (s, add_mset (SClose res err) A) (close_done res err s, add_mset (SClosing res err) A)"
| ss_closeAgain: "st_closeOnce s = Ran \<Longrightarrow> stream_step (s, add_mset (SClose res err) A) (s, A)"
| ss_lockWait: "st_sendMu s = Unlocked \<Longrightarrow>
    stream_step (s, add_mset (SClosing res err) A) (close_wait s, add_mset (SLocking res err) A)"
| ss_locked: "st_readers s = 0 \<Longrightarrow>
    stream_step (s, add_mset (SLocking res err) A) (close_lock s, add_mset (SMerging res err) A)"
| ss_merge: "stream_step (s, add_mset (SMerging res err) A) (close_merge res err s, add_mset SClosingChunks A)"
| ss_chunks: "stream_step (s, add_mset SClosingChunks A) (close_chunks s, A)"
| ss_result: "stream_step (s, A) (s, add_mset SResult A)"
| ss_return: "st_done s \<Longrightarrow> stream_Result s = (fr, err) \<Longrightarrow>
    stream_step (s, add_mset SResult A) (s, add_mset (SReturned fr err) A)"
| ss_deny: "stream_step (s, A) (snd (recordDenial s), A)"
| ss_setDeny: "stream_step (s, A) (setDenyBuiltinTools v s, A)"
| ss_recv: "stream_recv s = (Some c, s') \<Longrightarrow> stream_step (s, A) (s', A)"
| ss_ctx: "stream_step (s, A) (s\<lparr>st_ctxDone := True\<rparr>, A)"

definition stream_start :: "'c ssys \<Rightarrow> bool" where
  "stream_start x \<longleftrightarrow> (\<exists>sid. x = (newStream sid, {#}))"

lemmas stream_ops = push_enter_def push_send_def push_count_def push_leave_def close_done_def close_wait_def
  close_lock_def close_merge_def close_chunks_def recordDenial_def setDenyBuiltinTools_def stream_recv_def

section \<open>Invariant\<close>

text \<open>Which activities hold the read lock, have sent but not counted, and carry out the one \<open>close\<close>.\<close>

fun inSelect :: "'c sact \<Rightarrow> bool" where
  "inSelect (SSelect c) = True" | "inSelect _ = False"

fun inSent :: "'c sact \<Rightarrow> bool" where
  "inSent SSent = True" | "inSent _ = False"

fun closerStage :: "'c sact \<Rightarrow> nat" where
  "closerStage (SClosing res err) = 1"
| "closerStage (SLocking res err) = 2"
| "closerStage (SMerging res err) = 3"
| "closerStage SClosingChunks = 4"
| "closerStage _ = 0"

fun closerArgs :: "'c sact \<Rightarrow> (StopReason option \<times> acp_err option) option" where
  "closerArgs (SClosing res err) = Some (res, err)"
| "closerArgs (SLocking res err) = Some (res, err)"
| "closerArgs (SMerging res err) = Some (res, err)"
| "closerArgs _ = None"

definition closers :: "'c sact multiset \<Rightarrow> 'c sact multiset" where
  "closers A = filter_mset (\<lambda>a. closerStage a \<noteq> 0) A"

definition unmerged :: "'c Stream \<Rightarrow> bool" where
  "unmerged s \<longleftrightarrow> fr_StopReason (st_result s) = StopUnknown \<and> st_err s = None"

definition merged :: "'c Stream \<Rightarrow> bool" where
  "merged s \<longleftrightarrow> (\<exists>res err. st_closer s = Some (res, err) \<and> fr_StopReason (st_result s) = mergeStop res StopUnknown \<and>
     st_err s = err)"

text \<open>Where the closing call is, and what the stream looks like there.\<close>

definition phase_ok :: "'c Stream \<Rightarrow> 'c sact multiset \<Rightarrow> bool" where
  "phase_ok s A = (case st_closeOnce s of
     NotRun \<Rightarrow> closers A = {#} \<and> \<not> st_done s \<and> \<not> st_closed s \<and> \<not> st_chunksClosed s \<and> st_sendMu s = Unlocked \<and>
       unmerged s \<and> st_closer s = None
   | Running \<Rightarrow> st_done s \<and> \<not> st_chunksClosed s \<and> (\<exists>a. closers A = {#a#} \<and>
       (closerStage a = 1 \<longrightarrow> st_sendMu s = Unlocked \<and> \<not> st_closed s \<and> unmerged s \<and> closerArgs a = st_closer s) \<and>
       (closerStage a = 2 \<longrightarrow> st_sendMu s = Waiting \<and> \<not> st_closed s \<and> unmerged s \<and> closerArgs a = st_closer s) \<and>
       (closerStage a = 3 \<longrightarrow> st_sendMu s = Held \<and> st_closed s \<and> unmerged s \<and> closerArgs a = st_closer s) \<and>
       (closerStage a = 4 \<longrightarrow> st_sendMu s = Held \<and> st_closed s \<and> merged s))
   | Ran \<Rightarrow> closers A = {#} \<and> st_done s \<and> st_closed s \<and> st_chunksClosed s \<and> st_sendMu s = Unlocked \<and> merged s)"

definition stream_ok :: "'c Stream \<Rightarrow> 'c sact multiset \<Rightarrow> bool" where
  "stream_ok s A \<longleftrightarrow> \<not> st_panicked s \<and> length (st_chunks s) \<le> chunkBuffer \<and>
     st_readers s = size (filter_mset inSelect A) + size (filter_mset inSent A) \<and>
     (st_closed s \<longrightarrow> st_readers s = 0) \<and>
     fr_ChunkCount (st_result s) + size (filter_mset inSent A) = length (st_taken s) + length (st_chunks s)"

definition stream_inv :: "'c ssys \<Rightarrow> bool" where
  "stream_inv x \<longleftrightarrow> stream_ok (fst x) (snd x) \<and> phase_ok (fst x) (snd x)"

lemma stream_inv_pair: "stream_inv (s, A) \<longleftrightarrow> stream_ok s A \<and> phase_ok s A"
  by (simp add: stream_inv_def)

lemma closers_add [simp]:
  "closers (add_mset a A) = (if closerStage a = 0 then closers A else add_mset a (closers A))"
  by (simp add: closers_def)

lemma stream_start_inv: "stream_start x \<Longrightarrow> stream_inv x"
  by (auto simp: stream_start_def stream_inv_def stream_ok_def phase_ok_def newStream_def closers_def unmerged_def)

lemma chunkBuffer_pos [simp]: "0 < chunkBuffer"
  by (simp add: chunkBuffer_def)

lemma phase_chunksClosed: "phase_ok s A \<Longrightarrow> st_chunksClosed s \<Longrightarrow> st_closed s"
  by (auto simp: phase_ok_def split: onceState.splits)

lemma select_open: "stream_ok s (add_mset (SSelect c) A) \<Longrightarrow> \<not> st_closed s"
  by (auto simp: stream_ok_def)

lemma step_ok: "stream_step x y \<Longrightarrow> stream_inv x \<Longrightarrow> stream_ok (fst y) (snd y)"
proof (induction rule: stream_step.induct)
  case (ss_send s c A)
  then have "\<not> st_chunksClosed s" by (metis select_open phase_chunksClosed stream_inv_pair)
  with ss_send show ?case by (auto simp: stream_inv_pair stream_ok_def push_send_def)
next
  case (ss_locked s res err A)
  then show ?case by (auto simp: stream_inv_pair stream_ok_def close_lock_def)
next
  case (ss_closeFirst s res err A)
  then show ?case by (auto simp: stream_inv_pair stream_ok_def phase_ok_def close_done_def)
next
  case (ss_chunks s A)
  then show ?case by (auto simp: stream_inv_pair stream_ok_def phase_ok_def close_chunks_def split: onceState.splits)
qed (auto simp: stream_inv_pair stream_ok_def stream_ops split: if_splits list.splits)

lemma step_phase: "stream_step x y \<Longrightarrow> stream_inv x \<Longrightarrow> phase_ok (fst y) (snd y)"
proof (induction rule: stream_step.induct)
  case (ss_merge s res err A)
  then show ?case
    by (auto simp: stream_inv_pair phase_ok_def close_merge_def unmerged_def merged_def eq_commute [of "Some _" "st_closer s"]
        split: onceState.splits)
qed (auto simp: stream_inv_pair phase_ok_def stream_ops unmerged_def merged_def
      split: if_splits list.splits onceState.splits)

interpretation stream_sys: invariant_system stream_start stream_step stream_inv
proof unfold_locales
  show "stream_inv y" if "stream_inv x" "stream_step x y" for x y :: "'a ssys"
    using step_ok [OF that(2,1)] step_phase [OF that(2,1)] by (simp add: stream_inv_def)
qed (rule stream_start_inv)

section \<open>Runs\<close>

lemma stream_new_inv: "stream_inv (newStream sid, {#})"
  by (rule stream_start_inv) (auto simp: stream_start_def)

lemma stream_run_inv: "stream_step\<^sup>*\<^sup>* (newStream sid, {#}) x \<Longrightarrow> stream_inv x"
  using stream_sys.run_inv stream_new_inv by blast

lemma run_sessionID: "stream_step\<^sup>*\<^sup>* x y \<Longrightarrow> stream_SessionID (fst y) = stream_SessionID (fst x)"
proof (induction rule: rtranclp_induct)
  case (step y z)
  from step.hyps(2) have "stream_SessionID (fst z) = stream_SessionID (fst y)"
    by cases (auto simp: stream_SessionID_def stream_ops split: if_splits list.splits)
  with step.IH show ?case by simp
qed simp

text \<open>Once the chunk channel is closed nothing is accepted and the result does not change.\<close>

definition settled :: "'c Stream \<Rightarrow> FinalResult \<times> acp_err option \<times> 'c list \<times> (StopReason option \<times> acp_err option) option" where
  "settled s = (st_result s, st_err s, st_taken s @ st_chunks s, st_closer s)"

lemma step_settled:
  assumes "stream_step x y" "stream_inv x" "st_chunksClosed (fst x)"
  shows "st_chunksClosed (fst y) \<and> settled (fst y) = settled (fst x)"
proof -
  have ran: "st_closeOnce (fst x) = Ran" "closers (snd x) = {#}" and clo: "st_closed (fst x)"
    using assms(2,3) by (auto simp: stream_inv_def phase_ok_def split: onceState.splits)
  have nor: "size (filter_mset inSelect (snd x)) = 0" "size (filter_mset inSent (snd x)) = 0"
    using assms(2) clo by (auto simp: stream_inv_def stream_ok_def)
  from assms(1) show ?thesis
    using ran nor clo assms(3) by cases (auto simp: settled_def stream_ops split: if_splits list.splits)
qed

lemma run_settled:
  assumes "stream_step\<^sup>*\<^sup>* x y" "stream_inv x" "st_chunksClosed (fst x)"
  shows "st_chunksClosed (fst y) \<and> settled (fst y) = settled (fst x)"
  using assms(1)
proof (induction rule: rtranclp_induct)
  case (step y z)
  have "stream_inv y" using step.hyps(1) assms(2) stream_sys.run_inv by blast
  with step_settled [OF step.hyps(2)] step.IH show ?case by simp
qed (simp add: assms(3))

text \<open>Closing needs no help: a call at the select leaves through the \<open>done\<close> arm.\<close>

definition quiet :: "'c ssys \<Rightarrow> 'c ssys \<Rightarrow> bool" where
  "quiet x y \<longleftrightarrow> st_taken (fst y) = st_taken (fst x) \<and> st_ctxDone (fst y) = st_ctxDone (fst x) \<and>
     st_closer (fst y) = st_closer (fst x)"

lemma filter_some: "size (filter_mset P A) \<noteq> 0 \<Longrightarrow> \<exists>a\<in>#A. P a"
  by (induction A) (auto split: if_splits)

lemma drain_readers:
  assumes "stream_inv (s, A)" "st_done s"
  shows "\<exists>s' A'. stream_step\<^sup>*\<^sup>* (s, A) (s', A') \<and> quiet (s, A) (s', A') \<and> st_readers s' = 0 \<and> closers A' = closers A \<and>
    st_done s'"
  using assms
proof (induction "st_readers s" arbitrary: s A)
  case 0
  then show ?case by (intro exI [of _ s] exI [of _ A]) (simp add: quiet_def)
next
  case (Suc n)
  then have "size (filter_mset inSelect A) + size (filter_mset inSent A) = Suc n"
    by (simp add: stream_inv_pair stream_ok_def)
  then have "(\<exists>a\<in>#A. inSelect a) \<or> (\<exists>a\<in>#A. inSent a)"
    using filter_some [of inSelect A] filter_some [of inSent A] by linarith
  then obtain a where a: "a \<in># A" "inSelect a \<or> inSent a" by blast
  then obtain B where A: "A = add_mset a B" by (meson mset_add)
  obtain s' where st: "stream_step (s, A) (s', B)" and s': "st_readers s' = n" "st_done s'" "quiet (s, A) (s', B)"
      "closers B = closers A"
  proof (cases a)
    case (SSelect c)
    have "stream_step (s, A) (push_leave s, B)" unfolding A SSelect by (rule ss_pushDone) (rule Suc.prems(2))
    then show ?thesis
      by (rule that) (use Suc.hyps(2) Suc.prems(2) in \<open>auto simp: A SSelect push_leave_def quiet_def\<close>)
  next
    case SSent
    have "stream_step (s, A) (push_leave (push_count s), B)" unfolding A SSent by (rule ss_sent)
    then show ?thesis
      by (rule that) (use Suc.hyps(2) Suc.prems(2) in \<open>auto simp: A SSent push_leave_def push_count_def quiet_def\<close>)
  qed (use a in auto)
  have "stream_inv (s', B)" using stream_sys.inv_step [OF Suc.prems(1) st] .
  from Suc.hyps(1) [OF _ this] s' obtain t C where
    "stream_step\<^sup>*\<^sup>* (s', B) (t, C)" "quiet (s', B) (t, C)" "st_readers t = 0" "closers C = closers B" "st_done t"
    by blast
  with st s' show ?case
    by (intro exI [of _ t] exI [of _ C]) (auto simp: quiet_def intro: converse_rtranclp_into_rtranclp)
qed


lemma closers_one: "closers A = {#a#} \<Longrightarrow> closerStage a \<noteq> 0 \<and> (\<exists>B. A = add_mset a B)"
  by (metis (mono_tags, lifting) closers_def mset_add multi_member_split set_mset_filter mem_Collect_eq union_single_eq_member)

lemma finish_from_lock:
  assumes "st_readers s = 0"
  shows "stream_step\<^sup>*\<^sup>* (s, add_mset (SLocking res err) A) (close_chunks (close_merge res err (close_lock s)), A)"
  by (meson assms ss_locked ss_merge ss_chunks r_into_rtranclp rtranclp_trans)

lemma finish_quiet:
  "quiet (s, A) (close_chunks (close_merge res err (close_lock s)), B)"
  "quiet (s, A) (close_chunks (close_merge res err s), B)" "quiet (s, A) (close_chunks s, B)"
  "st_chunksClosed (close_chunks s)"
  by (simp_all add: quiet_def stream_ops)

lemma quiet_trans: "quiet x y \<Longrightarrow> quiet y z \<Longrightarrow> quiet x z"
  by (simp add: quiet_def)

text \<open>The call that waits for the lock gets it after the readers have left, and finishes.\<close>

lemma locking_finishes:
  assumes "stream_inv (s, A)" "st_done s" "closers A = {#SLocking res err#}"
  shows "\<exists>t B. stream_step\<^sup>*\<^sup>* (s, A) (t, B) \<and> quiet (s, A) (t, B) \<and> st_chunksClosed t"
proof -
  from drain_readers [OF assms(1,2)] obtain t C where
    t: "stream_step\<^sup>*\<^sup>* (s, A) (t, C)" "quiet (s, A) (t, C)" "st_readers t = 0" "closers C = {#SLocking res err#}"
    using assms(3) by auto
  then obtain D where "C = add_mset (SLocking res err) D" using closers_one by blast
  with t finish_from_lock [of t res err D] show ?thesis
    by (meson finish_quiet quiet_trans rtranclp_trans)
qed


lemma close_finishes:
  assumes "stream_inv (s, A)" "st_closeOnce s = Running"
  shows "\<exists>t B. stream_step\<^sup>*\<^sup>* (s, A) (t, B) \<and> quiet (s, A) (t, B) \<and> st_chunksClosed t"
proof -
  from assms obtain a where a: "closers A = {#a#}" and d: "st_done s" and u: "closerStage a = 1 \<longrightarrow> st_sendMu s = Unlocked"
    by (auto simp: stream_inv_pair phase_ok_def)
  from a obtain B where A: "A = add_mset a B" using closers_one by blast
  have stage: "closerStage a \<noteq> 0" using closers_one [OF a] by simp
  then have B: "closers B = {#}" using a by (simp add: A)
  show ?thesis
  proof (cases a)
    case (SClosing res err)
    have 1: "stream_step (s, A) (close_wait s, add_mset (SLocking res err) B)"
      unfolding A SClosing by (rule ss_lockWait) (use u SClosing in simp)
    have 2: "stream_inv (close_wait s, add_mset (SLocking res err) B)" using assms(1) 1 by (rule stream_sys.inv_step)
    have 3: "quiet (s, A) (close_wait s, add_mset (SLocking res err) B)" by (simp add: quiet_def close_wait_def)
    from locking_finishes [OF 2] d B obtain t C where
      "stream_step\<^sup>*\<^sup>* (close_wait s, add_mset (SLocking res err) B) (t, C)"
      "quiet (close_wait s, add_mset (SLocking res err) B) (t, C)" "st_chunksClosed t"
      by (auto simp: close_wait_def)
    with 1 3 show ?thesis by (meson converse_rtranclp_into_rtranclp quiet_trans)
  next
    case (SLocking res err)
    then show ?thesis using locking_finishes [OF assms(1) d] a by simp
  next
    case (SMerging res err)
    have "stream_step\<^sup>*\<^sup>* (s, A) (close_chunks (close_merge res err s), B)"
      unfolding A SMerging by (meson ss_merge ss_chunks r_into_rtranclp rtranclp_trans)
    then show ?thesis using finish_quiet by blast
  next
    case SClosingChunks
    have "stream_step\<^sup>*\<^sup>* (s, A) (close_chunks s, B)"
      unfolding A SClosingChunks by (meson ss_chunks r_into_rtranclp)
    then show ?thesis using finish_quiet by blast
  qed (use stage in auto)
qed

section \<open>A sample run\<close>

text \<open>One chunk is pushed, then a close begins; then it finishes.\<close>

definition sample_sent :: "nat Stream" where
  "sample_sent = push_leave (push_count (push_send 7 ((newStream ''s1'')\<lparr>st_readers := 1\<rparr>)))"

definition sample_closing :: "nat Stream" where
  "sample_closing = close_done (Some StopEndTurn) None sample_sent"

definition sample_closed :: "nat Stream" where
  "sample_closed = close_chunks (close_merge (Some StopEndTurn) None (close_lock (close_wait sample_closing)))"

lemma sample_running: "stream_step\<^sup>*\<^sup>* (newStream ''s1'', {#}) (sample_closing, {#SClosing (Some StopEndTurn) None#})"
proof -
  let ?r = "(newStream ''s1'')\<lparr>st_readers := 1\<rparr> :: nat Stream"
  have 1: "stream_step (newStream ''s1'', {#}) (newStream ''s1'', {#SPush (7::nat)#})" by (rule ss_push)
  have 2: "stream_step (newStream ''s1'', {#SPush 7#}) (?r, {#SSelect (7::nat)#})"
    by (rule ss_rlock) (simp_all add: newStream_def push_enter_def)
  have 3: "stream_step (?r, {#SSelect 7#}) (push_send 7 ?r, {#SSent#})" by (rule ss_send) (simp add: newStream_def)
  have 4: "stream_step (push_send 7 ?r, {#SSent#}) (sample_sent, {#})" unfolding sample_sent_def by (rule ss_sent)
  have 5: "stream_step (sample_sent, {#}) (sample_sent, {#SClose (Some StopEndTurn) None#})" by (rule ss_close)
  have 6: "stream_step (sample_sent, {#SClose (Some StopEndTurn) None#}) (sample_closing, {#SClosing (Some StopEndTurn) None#})"
    unfolding sample_closing_def by (rule ss_closeFirst) (simp add: sample_sent_def stream_ops newStream_def)
  show ?thesis
    by (meson 1 2 3 4 5 6 rtranclp.rtrancl_into_rtrancl rtranclp.rtrancl_refl)
qed

lemma sample_run: "stream_step\<^sup>*\<^sup>* (newStream ''s1'', {#}) (sample_closed, {#})"
proof -
  have 1: "stream_step (sample_closing, {#SClosing (Some StopEndTurn) None#}) (close_wait sample_closing, {#SLocking (Some StopEndTurn) None#})"
    by (rule ss_lockWait) (simp add: sample_closing_def sample_sent_def stream_ops newStream_def)
  have 2: "stream_step\<^sup>*\<^sup>* (close_wait sample_closing, {#SLocking (Some StopEndTurn) None#}) (sample_closed, {#})"
    unfolding sample_closed_def
    by (rule finish_from_lock) (simp add: sample_closing_def sample_sent_def stream_ops newStream_def)
  show ?thesis using sample_running 1 2 by (meson rtranclp.rtrancl_into_rtrancl rtranclp_trans)
qed

section \<open>Properties\<close>

text \<open>
  C17. In every interleaving of pushes, closes, results and receives on a new stream, no send hits a closed
  channel and no channel is closed twice, at most 64 chunks are buffered, and while a push is at its select the chunk
  channel is open.
\<close>

theorem stream_never_panics:
  assumes "stream_step\<^sup>*\<^sup>* (newStream sid, {#}) (s, A)"
  shows "\<not> st_panicked s \<and> length (st_chunks s) \<le> 64 \<and> (st_chunksClosed s \<longrightarrow> filter_mset inSelect A = {#} \<and> filter_mset inSent A = {#})"
proof -
  have inv: "stream_ok s A" "phase_ok s A" using stream_run_inv [OF assms] by (simp_all add: stream_inv_pair)
  have "st_readers s = 0" if "st_chunksClosed s"
    using phase_chunksClosed [OF inv(2) that] inv(1) unfolding stream_ok_def by blast
  moreover have "st_readers s = size (filter_mset inSelect A) + size (filter_mset inSent A)"
    using inv(1) by (simp add: stream_ok_def)
  ultimately have "st_chunksClosed s \<longrightarrow> filter_mset inSelect A = {#} \<and> filter_mset inSent A = {#}"
    by (metis add_is_0 size_eq_0_iff_empty)
  then show ?thesis using inv(1) by (simp add: stream_ok_def chunkBuffer_def)
qed

theorem stream_never_panics_witness: "\<not> st_panicked sample_closed \<and> length (st_chunks sample_closed) \<le> 64"
  using stream_never_panics [OF sample_run] by blast

text \<open>
  C18. Once the chunk channel is closed the stream is settled. Whatever runs afterwards, \<open>Result\<close> returns the session
  of the stream, the number of chunks the channel accepted (received or still buffered), and the stop
  reason and error of the one call of \<open>close\<close> that took effect; no further chunk is accepted.
\<close>

theorem stream_result_settled:
  assumes "stream_step\<^sup>*\<^sup>* (newStream sid, {#}) (s, A)" "st_chunksClosed s" "stream_step\<^sup>*\<^sup>* (s, A) (t, B)"
  shows "\<exists>res err denials. st_closer s = Some (res, err) \<and> st_taken t @ st_chunks t = st_taken s @ st_chunks s \<and>
    stream_Result t = (\<lparr>fr_SessionID = sid, fr_ChunkCount = length (st_taken s @ st_chunks s),
      fr_StopReason = mergeStop res StopUnknown, fr_ToolDenials = denials\<rparr>, err)"
proof -
  have inv: "stream_ok s A" "phase_ok s A" using stream_run_inv [OF assms(1)] by (simp_all add: stream_inv_pair)
  have "st_closeOnce s = Ran" using inv(2) assms(2) by (auto simp: phase_ok_def split: onceState.splits)
  then have m: "merged s" and c: "st_closed s" using inv(2) by (auto simp: phase_ok_def)
  have n: "fr_ChunkCount (st_result s) = length (st_taken s @ st_chunks s)"
    using inv(1) c unfolding stream_ok_def length_append by linarith
  have "settled t = settled s" using run_settled [OF assms(3)] stream_run_inv [OF assms(1)] assms(2) by simp
  then have t: "st_result t = st_result s" "st_err t = st_err s" "st_taken t @ st_chunks t = st_taken s @ st_chunks s"
    by (simp_all add: settled_def)
  have "fr_SessionID (st_result s) = sid" using run_sessionID [OF assms(1)] by (simp add: stream_SessionID_def newStream_def)
  with m n t show ?thesis
    unfolding merged_def stream_Result_def
    by (cases "st_result s") auto
qed

theorem stream_result_settled_witness:
  "fr_ChunkCount (fst (stream_Result sample_closed)) = 1 \<and> fr_StopReason (fst (stream_Result sample_closed)) = StopEndTurn"
proof -
  have "st_chunksClosed sample_closed" by (simp add: sample_closed_def close_chunks_def)
  from stream_result_settled [OF sample_run this rtranclp.rtrancl_refl] obtain res err denials where
    "st_closer sample_closed = Some (res, err)" "stream_Result sample_closed = (\<lparr>fr_SessionID = ''s1'',
      fr_ChunkCount = length (st_taken sample_closed @ st_chunks sample_closed),
      fr_StopReason = mergeStop res StopUnknown, fr_ToolDenials = denials\<rparr>, err)"
    by blast
  moreover have "st_closer sample_closed = Some (Some StopEndTurn, None)" "st_taken sample_closed @ st_chunks sample_closed = [7]"
    by (simp_all add: sample_closed_def sample_closing_def sample_sent_def stream_ops newStream_def)
  ultimately show ?thesis by (auto simp: mergeStop_def)
qed

text \<open>
  A call of \<open>close\<close> that has begun always finishes, without help of the consumer or of the request context: from
  every reachable state in which it is under way there is a run, in which no chunk is received and no context is cancelled, that
  closes the chunk channel, even when pushes are blocked on a full buffer.
\<close>

theorem stream_close_completes:
  assumes "stream_step\<^sup>*\<^sup>* (newStream sid, {#}) (s, A)" "st_closeOnce s = Running"
  shows "\<exists>t B. stream_step\<^sup>*\<^sup>* (s, A) (t, B) \<and> st_chunksClosed t \<and> st_taken t = st_taken s \<and>
    st_ctxDone t = st_ctxDone s \<and> st_closer t = st_closer s"
  using close_finishes [OF stream_run_inv [OF assms(1)] assms(2)] by (auto simp: quiet_def)

theorem stream_close_completes_witness:
  "\<exists>t B. stream_step\<^sup>*\<^sup>* (sample_closing, {#SClosing (Some StopEndTurn) None#}) (t, B) \<and> st_chunksClosed t"
proof -
  have "st_closeOnce sample_closing = Running" by (simp add: sample_closing_def close_done_def)
  from stream_close_completes [OF sample_running this] show ?thesis by blast
qed

text \<open>
  \<open>Result\<close> waits for \<open>done\<close>, which \<open>close\<close> closes before it merges the stop reason and the error: for every stop
  reason and error there is a run in which \<open>close\<close> was called with them and \<open>Result\<close>
  returns \<open>StopUnknown\<close> and no error.
\<close>

theorem result_before_merge:
  "\<exists>s A. stream_step\<^sup>*\<^sup>* (newStream sid :: 'c Stream, {#}) (s, A) \<and> st_closer s = Some (res, err) \<and>
     SReturned \<lparr>fr_SessionID = sid, fr_ChunkCount = 0, fr_StopReason = StopUnknown, fr_ToolDenials = 0\<rparr> None \<in># A"
proof -
  let ?s = "newStream sid :: 'c Stream" and ?t = "close_done res err (newStream sid) :: 'c Stream"
  let ?fr = "\<lparr>fr_SessionID = sid, fr_ChunkCount = 0, fr_StopReason = StopUnknown, fr_ToolDenials = 0\<rparr>"
  have 1: "stream_step (?s, {#}) (?s, {#SClose res err#})" by (rule ss_close)
  have 2: "stream_step (?s, {#SClose res err#}) (?t, {#SClosing res err#})"
    by (rule ss_closeFirst) (simp add: newStream_def)
  have 3: "stream_step (?t, {#SClosing res err#}) (?t, {#SResult, SClosing res err#})" by (rule ss_result)
  have 4: "stream_step (?t, {#SResult, SClosing res err#}) (?t, {#SReturned ?fr None, SClosing res err#})"
    by (rule ss_return) (simp_all add: close_done_def newStream_def stream_Result_def)
  have "stream_step\<^sup>*\<^sup>* (?s, {#}) (?t, {#SReturned ?fr None, SClosing res err#})"
    by (meson 1 2 3 4 rtranclp.rtrancl_into_rtrancl rtranclp.rtrancl_refl)
  moreover have "st_closer ?t = Some (res, err)" by (simp add: close_done_def)
  moreover have "SReturned ?fr None \<in># {#SReturned ?fr None, SClosing res err :: 'c sact#}" by simp
  ultimately show ?thesis by blast
qed

end
