(* ===== verification/AcpDispatcher.thy ===== *)
theory AcpDispatcher
  imports AcpStream
begin

text \<open>
  Frames and the dispatcher of the ACP client (internal/acp/dispatcher.go): the table of requests that wait for a
  response. A response channel is an address into \<open>dp_chans\<close>, the buffers of all channels made so far;
  each has capacity 1. The raw bytes of an id are kept as they are on the wire, because the dispatcher
  tells a notification from a response by them and parses them only for the lookup. The body
  of a result is what \<open>json.Unmarshal\<close> makes of it for the struct of the call that receives it.
\<close>

section \<open>Frames\<close>

record PromptCapabilities =
  pc_Image :: bool
  pc_Audio :: bool
  pc_EmbeddedContext :: bool

record wireResult =
  wr_caps :: PromptCapabilities
  wr_SessionID :: string
  wr_ID :: string
  wr_models :: "ModelInfo list"
  wr_StopReason :: string

text \<open>\<open>None\<close> is an absent result, \<open>Some None\<close> one that does not decode.\<close>

record rpcFrame =
  rf_ID :: string
  rf_Method :: string
  rf_Result :: "wireResult option option"
  rf_Error :: "(int \<times> string) option"

definition hasID :: "rpcFrame \<Rightarrow> bool" where
  "hasID f \<longleftrightarrow> rf_ID f \<noteq> [] \<and> rf_ID f \<noteq> ''null''"

definition closeSentinelCode :: int where "closeSentinelCode = - 32099"

definition sentinel :: "string \<Rightarrow> rpcFrame" where
  "sentinel msg = \<lparr>rf_ID = [], rf_Method = [], rf_Result = None, rf_Error = Some (closeSentinelCode, msg)\<rparr>"

section \<open>Numeric ids\<close>

text \<open>
  Requests carry the decimal form of a 64-bit id. Decoding into a \<open>uint64\<close> accepts a JSON number with digits only and no leading zero,
  below \<open>2 ^ 64\<close>; a sign, a fraction, an exponent or quotes are errors.
\<close>

definition digitOf :: "char \<Rightarrow> nat" where "digitOf c = of_char c - 48"

definition isDigit :: "char \<Rightarrow> bool" where "isDigit c \<longleftrightarrow> 48 \<le> (of_char c :: nat) \<and> (of_char c :: nat) \<le> 57"

fun decimalValue :: "string \<Rightarrow> nat \<Rightarrow> nat" where
  "decimalValue [] acc = acc"
| "decimalValue (c # cs) acc = decimalValue cs (acc * 10 + digitOf c)"

definition unmarshalUint64 :: "string \<Rightarrow> 64 word option" where
  "unmarshalUint64 s =
     (if s = [] \<or> \<not> list_all isDigit s \<or> (hd s = CHR ''0'' \<and> length s > 1) then None
      else if decimalValue s 0 < 2 ^ 64 then Some (of_nat (decimalValue s 0)) else None)"

fun decimalOf :: "nat \<Rightarrow> string" where
  "decimalOf n = (if n < 10 then [char_of (48 + n)] else decimalOf (n div 10) @ [char_of (48 + n mod 10)])"

declare decimalOf.simps [simp del]

definition marshalUint64 :: "64 word \<Rightarrow> string" where
  "marshalUint64 w = decimalOf (unat w)"

section \<open>The table\<close>

record dispatcher =
  dp_pending :: "(64 word \<times> nat) list"
  dp_chans :: "rpcFrame list list"

definition newDispatcher :: dispatcher where
  "newDispatcher = \<lparr>dp_pending = [], dp_chans = []\<rparr>"

definition disp_register :: "64 word \<Rightarrow> dispatcher \<Rightarrow> nat \<times> dispatcher" where
  "disp_register i d = (length (dp_chans d),
     d\<lparr>dp_chans := dp_chans d @ [[]], dp_pending := gm_put i (length (dp_chans d)) (dp_pending d)\<rparr>)"

definition disp_cancel :: "64 word \<Rightarrow> dispatcher \<Rightarrow> dispatcher" where
  "disp_cancel i d = d\<lparr>dp_pending := gm_del i (dp_pending d)\<rparr>"

text \<open>\<open>route\<close> up to the send: the frame goes to the notification handler, is dropped, or is to be sent on a channel.\<close>

datatype routed = RouteNotif | RouteDrop | RouteSend nat

definition disp_route :: "rpcFrame \<Rightarrow> dispatcher \<Rightarrow> routed \<times> dispatcher" where
  "disp_route f d =
     (if rf_Method f \<noteq> [] then (RouteNotif, d)
      else if \<not> hasID f then (RouteDrop, d)
      else case unmarshalUint64 (rf_ID f) of
          None \<Rightarrow> (RouteDrop, d)
        | Some num \<Rightarrow> (case gm_get (dp_pending d) num of
              None \<Rightarrow> (RouteDrop, d)
            | Some ch \<Rightarrow> (RouteSend ch, d\<lparr>dp_pending := gm_del num (dp_pending d)\<rparr>)))"

text \<open>A channel has capacity 1: a send blocks on a full one.\<close>

definition chan_full :: "nat \<Rightarrow> dispatcher \<Rightarrow> bool" where
  "chan_full ch d \<longleftrightarrow> dp_chans d ! ch \<noteq> []"

definition chan_send :: "nat \<Rightarrow> rpcFrame \<Rightarrow> dispatcher \<Rightarrow> dispatcher" where
  "chan_send ch f d = d\<lparr>dp_chans := (dp_chans d)[ch := dp_chans d ! ch @ [f]]\<rparr>"

definition chan_recv :: "nat \<Rightarrow> dispatcher \<Rightarrow> dispatcher" where
  "chan_recv ch d = d\<lparr>dp_chans := (dp_chans d)[ch := tl (dp_chans d ! ch)]\<rparr>"

fun drain_loop :: "rpcFrame \<Rightarrow> (64 word \<times> nat) list \<Rightarrow> dispatcher \<Rightarrow> dispatcher" where
  "drain_loop f [] d = d"
| "drain_loop f ((i, ch) # es) d =
     drain_loop f es (disp_cancel i (if chan_full ch d then d else chan_send ch f d))"

definition drainAll :: "string \<Rightarrow> dispatcher \<Rightarrow> dispatcher" where
  "drainAll msg d = drain_loop (sentinel msg) (dp_pending d) d"

section \<open>Ids are printed and read back\<close>

lemma isDigit_char [simp]: "n < 10 \<Longrightarrow> isDigit (char_of (48 + n))" "n < 10 \<Longrightarrow> digitOf (char_of (48 + n)) = n"
  by (simp_all add: isDigit_def digitOf_def)

lemma decimalValue_append: "decimalValue (s @ t) acc = decimalValue t (decimalValue s acc)"
  by (induction s arbitrary: acc) auto

lemma decimalOf_digits: "list_all isDigit (decimalOf n)"
  by (induction n rule: decimalOf.induct) (subst decimalOf.simps, simp)

lemma decimalOf_value: "decimalValue (decimalOf n) 0 = n"
  by (induction n rule: decimalOf.induct) (subst decimalOf.simps, simp add: decimalValue_append)

lemma decimalOf_nonempty [simp]: "decimalOf n \<noteq> []"
  by (subst decimalOf.simps) simp

lemma char_zero:
  assumes "(n :: nat) < 10" "char_of (48 + n) = CHR ''0''"
  shows "n = 0"
proof -
  have "digitOf (char_of (48 + n)) = digitOf (CHR ''0'')" using assms(2) by simp
  then show ?thesis using assms(1) by (simp add: digitOf_def)
qed

lemma decimalOf_head: "0 < n \<Longrightarrow> hd (decimalOf n) \<noteq> CHR ''0''"
proof (induction n rule: decimalOf.induct)
  case (1 n)
  then show ?case by (subst decimalOf.simps) (auto dest: char_zero)
qed

lemma unmarshal_marshal: "unmarshalUint64 (marshalUint64 w) = Some w"
proof (cases "w = 0")
  case True
  then show ?thesis by (simp add: marshalUint64_def decimalOf.simps unmarshalUint64_def isDigit_def digitOf_def)
next
  case False
  then have "0 < unat w" by (simp add: unat_gt_0)
  moreover have "unat w < 2 ^ 64" using unsigned_less [of w] by simp
  ultimately show ?thesis
    by (simp add: marshalUint64_def unmarshalUint64_def decimalOf_digits decimalOf_value decimalOf_head)
qed

end
