(* ===== verification/PrivacyContext.thy ===== *)
theory PrivacyContext
  imports PrivacySecrets PrivacyStore AcpDispatcher
begin

text \<open>
  What the privacy service keeps for one request: errors (\<open>errors.go\<close>), receipts
  (\<open>receipt.go\<close>) and the request state (\<open>context.go\<close>) of \<open>internal/privacy\<close>.

  A request state belongs to one request, whose hooks run one after the other, so its
  mutex is not modelled. Two Go maps used as sets, the authorised tokens, are lists without
  repetition. Counters are Go ints of 64 bits.
\<close>

section \<open>Errors\<close>

definition CodeRequestInvalid :: string where "CodeRequestInvalid = ''privacy_request_invalid''"
definition CodeProfileUnavailable :: string where "CodeProfileUnavailable = ''privacy_profile_unavailable''"
definition CodeScopeClosed :: string where "CodeScopeClosed = ''privacy_scope_closed''"
definition CodeInputBlocked :: string where "CodeInputBlocked = ''privacy_input_blocked''"
definition CodeOutputBlocked :: string where "CodeOutputBlocked = ''privacy_output_blocked''"
definition CodeCapacityExceeded :: string where "CodeCapacityExceeded = ''privacy_capacity_exceeded''"
definition CodeInternalError :: string where "CodeInternalError = ''privacy_internal_error''"

record privacyError =
  pe_Code :: string
  pe_Stage :: string
  pe_Cause :: "store_err option"

definition mkError :: "string \<Rightarrow> string \<Rightarrow> privacyError" where
  "mkError code stage = \<lparr>pe_Code = code, pe_Stage = stage, pe_Cause = None\<rparr>"

definition capacityErrorAt :: "string \<Rightarrow> store_err \<Rightarrow> privacyError" where
  "capacityErrorAt stage cause = \<lparr>pe_Code = CodeCapacityExceeded, pe_Stage = stage, pe_Cause = Some cause\<rparr>"

definition ErrorInfo :: "privacyError \<Rightarrow> (nat \<times> string) option" where
  "ErrorInfo e =
    (if pe_Code e = CodeRequestInvalid \<or> pe_Code e = CodeProfileUnavailable then Some (400, pe_Code e)
     else if pe_Code e = CodeScopeClosed then Some (409, pe_Code e)
     else if pe_Code e = CodeInputBlocked then Some (422, pe_Code e)
     else if pe_Code e = CodeOutputBlocked then Some (502, pe_Code e)
     else if pe_Code e = CodeCapacityExceeded \<or> pe_Code e = CodeInternalError then Some (503, pe_Code e)
     else None)"

section \<open>Receipts\<close>

record Receipt =
  rc_Version :: nat
  rc_Profile :: Profile
  rc_Scope :: string
  rc_Coverage :: string
  rc_Result :: string
  rc_Transformed :: nat
  rc_Restored :: nat
  rc_Blocked :: nat

definition maxEncodedReceiptBytes :: nat where "maxEncodedReceiptBytes = 512"

definition hexDigit :: "nat \<Rightarrow> char" where
  "hexDigit n = (if n < 10 then char_of (48 + n) else char_of (87 + n))"

text \<open>
  The string encoding of \<open>encoding/json\<close>. Bytes of multi-byte runes are copied; that the
  package replaces malformed ones makes the result longer, not shorter.
\<close>

definition jsonByte :: "char \<Rightarrow> string" where
  "jsonByte c =
    (if c = CHR 0x22 then [CHR 0x5C, CHR 0x22]
     else if c = CHR 0x5C then [CHR 0x5C, CHR 0x5C]
     else if c = CHR 0x0A then [CHR 0x5C, CHR ''n'']
     else if c = CHR 0x0D then [CHR 0x5C, CHR ''r'']
     else if c = CHR 0x09 then [CHR 0x5C, CHR ''t'']
     else if c = CHR 0x08 then [CHR 0x5C, CHR ''b'']
     else if c = CHR 0x0C then [CHR 0x5C, CHR ''f'']
     else if (of_char c :: nat) < 32 \<or> c = CHR ''<'' \<or> c = CHR ''>'' \<or> c = CHR ''&''
     then CHR 0x5C # ''u00'' @ [hexDigit (of_char c div 16), hexDigit (of_char c mod 16)]
     else [c])"

definition jsonString :: "string \<Rightarrow> string" where
  "jsonString s = CHR 0x22 # concat (map jsonByte s) @ [CHR 0x22]"

definition jsonField :: "string \<Rightarrow> string \<Rightarrow> string" where
  "jsonField name v = CHR 0x22 # name @ [CHR 0x22, CHR '':''] @ v"

definition marshalReceipt :: "Receipt \<Rightarrow> string" where
  "marshalReceipt r =
    ''{'' @ jsonField ''version'' (decimalOf (rc_Version r))
    @ '','' @ jsonField ''profile'' (jsonString (rc_Profile r))
    @ '','' @ jsonField ''scope'' (jsonString (rc_Scope r))
    @ '','' @ jsonField ''coverage'' (jsonString (rc_Coverage r))
    @ '','' @ jsonField ''result'' (jsonString (rc_Result r))
    @ '','' @ jsonField ''transformed'' (decimalOf (rc_Transformed r))
    @ '','' @ jsonField ''restored'' (decimalOf (rc_Restored r))
    @ '','' @ jsonField ''blocked'' (decimalOf (rc_Blocked r)) @ ''}''"

definition b64Char :: "nat \<Rightarrow> char" where
  "b64Char n =
    (if n < 26 then char_of (65 + n) else if n < 52 then char_of (71 + n)
     else if n < 62 then char_of (n - 4) else if n = 62 then CHR ''-'' else CHR ''_'')"

text \<open>\<open>base64.RawURLEncoding.EncodeToString\<close>.\<close>

fun rawURLEncode :: "nat list \<Rightarrow> string" where
  "rawURLEncode (a # b # c # rest) =
    [b64Char (a div 4), b64Char (a mod 4 * 16 + b div 16), b64Char (b mod 16 * 4 + c div 64), b64Char (c mod 64)]
    @ rawURLEncode rest"
| "rawURLEncode [a, b] = [b64Char (a div 4), b64Char (a mod 4 * 16 + b div 16), b64Char (b mod 16 * 4)]"
| "rawURLEncode [a] = [b64Char (a div 4), b64Char (a mod 4 * 16)]"
| "rawURLEncode [] = []"

definition encodeReceipt :: "Receipt \<Rightarrow> string option" where
  "encodeReceipt r =
    (let encoded = rawURLEncode (map of_char (marshalReceipt r))
     in if length encoded > maxEncodedReceiptBytes then None else Some encoded)"

section \<open>The state of a request\<close>

record RequestMetadata =
  md_RequestedProfile :: string
  md_ScopeID :: string
  md_Surface :: string
  md_Workload :: string

datatype occurrenceKind = OccGeneral | OccOpaque

record authorizedOccurrence =
  oc_ordinal :: nat
  oc_start :: int
  oc_end :: int
  oc_kind :: occurrenceKind

record RequestState =
  rs_metadata :: RequestMetadata
  rs_invalidScope :: bool
  rs_profile :: Profile
  rs_transformed :: int
  rs_restored :: int
  rs_blocked :: int
  rs_standardInboundService :: nat
  rs_streamRequested :: bool
  rs_validatedReplay :: bool
  rs_lease :: "nat option"
  rs_afterStarted :: bool
  rs_authorizedTokens :: "string list"
  rs_authorizedOccurrences :: "authorizedOccurrence list"
  rs_receipt :: string

definition maxProfileLength :: nat where "maxProfileLength = 16"
definition maxScopeLength :: nat where "maxScopeLength = 128"
definition maxSurfaceLength :: nat where "maxSurfaceLength = 32"
definition maxWorkloadLength :: nat where "maxWorkloadLength = 64"
definition maxAuthorizedTokens :: nat where "maxAuthorizedTokens = 4096"
definition maxAuthorizedTokenLength :: nat where "maxAuthorizedTokenLength = 512"

definition isScopeByte :: "char \<Rightarrow> bool" where
  "isScopeByte c \<longleftrightarrow> isAlnumA c \<or> c \<in> set ''._:-''"

definition scopeIDPattern :: re where
  "scopeIDPattern = rSeq [RBegin, rBetween 1 128 (RCls isScopeByte), REnd]"

definition truncateRunes :: "goEnv \<Rightarrow> string \<Rightarrow> nat \<Rightarrow> string" where
  "truncateRunes env v maximum =
    (let runes = env_runes env v in if length runes \<le> maximum then v else env_encode env (take maximum runes))"

definition NewRequestState :: "goEnv \<Rightarrow> RequestMetadata \<Rightarrow> RequestState" where
  "NewRequestState env meta =
    \<lparr>rs_metadata = \<lparr>md_RequestedProfile = truncateRunes env (md_RequestedProfile meta) maxProfileLength,
                    md_ScopeID = truncateRunes env (md_ScopeID meta) maxScopeLength,
                    md_Surface = truncateRunes env (md_Surface meta) maxSurfaceLength,
                    md_Workload = truncateRunes env (md_Workload meta) maxWorkloadLength\<rparr>,
     rs_invalidScope = (md_ScopeID meta \<noteq> [] \<and> \<not> matchString scopeIDPattern (md_ScopeID meta)),
     rs_profile = [], rs_transformed = 0, rs_restored = 0, rs_blocked = 0, rs_standardInboundService = 0,
     rs_streamRequested = False, rs_validatedReplay = False, rs_lease = None, rs_afterStarted = False,
     rs_authorizedTokens = [], rs_authorizedOccurrences = [], rs_receipt = []\<rparr>"

definition maxInt :: int where "maxInt = 9223372036854775807"

definition addBounded :: "int \<Rightarrow> int \<Rightarrow> int" where
  "addBounded current delta =
    (if delta \<le> 0 then current else if current > maxInt - delta then maxInt else current + delta)"

definition addTransformed :: "RequestState \<Rightarrow> RequestState" where
  "addTransformed s = s\<lparr>rs_transformed := addBounded (rs_transformed s) 1\<rparr>"

definition addRestored :: "int \<Rightarrow> RequestState \<Rightarrow> RequestState" where
  "addRestored delta s = s\<lparr>rs_restored := addBounded (rs_restored s) delta\<rparr>"

definition addBlocked :: "int \<Rightarrow> RequestState \<Rightarrow> RequestState" where
  "addBlocked delta s = s\<lparr>rs_blocked := addBounded (rs_blocked s) delta\<rparr>"

definition setScopeID :: "string \<Rightarrow> RequestState \<Rightarrow> RequestState" where
  "setScopeID scopeID s = s\<lparr>rs_metadata := (rs_metadata s)\<lparr>md_ScopeID := scopeID\<rparr>\<rparr>"

definition failureReceiptScopeID :: "RequestState \<Rightarrow> string" where
  "failureReceiptScopeID s = (if rs_invalidScope s then [] else md_ScopeID (rs_metadata s))"

definition setLease :: "nat \<Rightarrow> RequestState \<Rightarrow> RequestState option" where
  "setLease l s = (if rs_lease s \<noteq> None then None else Some (s\<lparr>rs_lease := Some l\<rparr>))"

definition beginAfter :: "RequestState \<Rightarrow> RequestState option" where
  "beginAfter s = (if rs_afterStarted s \<or> rs_lease s = None then None else Some (s\<lparr>rs_afterStarted := True\<rparr>))"

definition standardInboundPassed :: "nat \<Rightarrow> RequestState \<Rightarrow> bool" where
  "standardInboundPassed serviceID s \<longleftrightarrow> serviceID \<noteq> 0 \<and> rs_standardInboundService s = serviceID"

definition authorizeToken :: "string \<Rightarrow> RequestState \<Rightarrow> RequestState option" where
  "authorizeToken token s =
    (if length token > maxAuthorizedTokenLength then None
     else if token \<in> set (rs_authorizedTokens s) then Some s
     else if length (rs_authorizedTokens s) \<ge> maxAuthorizedTokens then None
     else Some (s\<lparr>rs_authorizedTokens := rs_authorizedTokens s @ [token]\<rparr>))"

definition tokenAuthorized :: "string \<Rightarrow> RequestState \<Rightarrow> bool" where
  "tokenAuthorized token s \<longleftrightarrow> token \<in> set (rs_authorizedTokens s)"

definition authorizeOccurrence :: "nat \<Rightarrow> int \<Rightarrow> int \<Rightarrow> occurrenceKind \<Rightarrow> RequestState \<Rightarrow> RequestState option" where
  "authorizeOccurrence ordinal start e kind s =
    (if start < 0 \<or> e \<le> start then None
     else if length (rs_authorizedOccurrences s) \<ge> maxAuthorizedTokens then None
     else Some (s\<lparr>rs_authorizedOccurrences := rs_authorizedOccurrences s
            @ [\<lparr>oc_ordinal = ordinal, oc_start = start, oc_end = e, oc_kind = kind\<rparr>]\<rparr>))"

definition occurrenceAtKind :: "nat \<Rightarrow> int \<Rightarrow> int \<Rightarrow> occurrenceKind \<Rightarrow> RequestState \<Rightarrow> bool" where
  "occurrenceAtKind ordinal start e kind s =
    list_ex (\<lambda>o'. oc_ordinal o' = ordinal \<and> oc_start o' = start \<and> oc_end o' = e \<and> oc_kind o' = kind)
      (rs_authorizedOccurrences s)"

definition occurrenceContainingIn :: "nat \<Rightarrow> int \<Rightarrow> int \<Rightarrow> authorizedOccurrence list \<Rightarrow> authorizedOccurrence option" where
  "occurrenceContainingIn ordinal start e os =
    find (\<lambda>o'. oc_ordinal o' = ordinal \<and> start \<ge> oc_start o' \<and> e \<le> oc_end o') os"

definition occurrenceAtIn :: "nat \<Rightarrow> int \<Rightarrow> int \<Rightarrow> authorizedOccurrence list \<Rightarrow> bool" where
  "occurrenceAtIn ordinal start e os =
    list_ex (\<lambda>o'. oc_ordinal o' = ordinal \<and> oc_start o' = start \<and> oc_end o' = e) os"

definition setReceipt :: "Receipt \<Rightarrow> RequestState \<Rightarrow> RequestState option" where
  "setReceipt r s = map_option (\<lambda>encoded. s\<lparr>rs_receipt := encoded\<rparr>) (encodeReceipt r)"

text \<open>\<open>setReceiptIfEmpty\<close>: whether the receipt was stored; \<open>None\<close> when it cannot be encoded.\<close>

definition setReceiptIfEmpty :: "Receipt \<Rightarrow> RequestState \<Rightarrow> (bool \<times> RequestState) option" where
  "setReceiptIfEmpty r s =
    map_option (\<lambda>encoded. if rs_receipt s \<noteq> [] then (False, s) else (True, s\<lparr>rs_receipt := encoded\<rparr>)) (encodeReceipt r)"

section \<open>The request state of an HTTP request\<close>

definition StampHTTPContext :: "goEnv \<Rightarrow> (string \<Rightarrow> string) \<Rightarrow> string \<Rightarrow> RequestState" where
  "StampHTTPContext env headers surface =
    (let skill = headers ''X-GW-Skill'';
         workload = (if skill = [] then headers ''X-Flow-Name'' else skill)
     in NewRequestState env \<lparr>md_RequestedProfile = headers ''X-GW-Privacy-Profile'',
          md_ScopeID = headers ''X-GW-Privacy-Scope'', md_Surface = surface, md_Workload = workload\<rparr>)"

text \<open>\<open>SetReceiptHeader\<close>: the value the header is set to.\<close>

definition SetReceiptHeader :: "RequestState option \<Rightarrow> string option" where
  "SetReceiptHeader state =
    (case state of None \<Rightarrow> None | Some s \<Rightarrow> if rs_receipt s = [] then None else Some (rs_receipt s))"

section \<open>Bounds\<close>

lemma addBounded_range: "0 \<le> c \<Longrightarrow> c \<le> maxInt \<Longrightarrow> 0 \<le> addBounded c d \<and> addBounded c d \<le> maxInt \<and> c \<le> addBounded c d"
  by (auto simp: addBounded_def)

lemma length_rawURLEncode: "length (rawURLEncode bs) = (4 * length bs + 2) div 3"
  by (induction bs rule: rawURLEncode.induct) auto

lemma decimalOf_length: "n < 10 ^ k \<Longrightarrow> 0 < k \<Longrightarrow> length (decimalOf n) \<le> k"
proof (induction k arbitrary: n)
  case (Suc k)
  show ?case
  proof (cases "n < 10")
    case True
    then show ?thesis by (subst decimalOf.simps) simp
  next
    case False
    with Suc.prems have "n div 10 < 10 ^ k" "0 < k" by (auto simp: less_mult_imp_div_less intro: gr0I)
    with Suc.IH[of "n div 10"] False show ?thesis by (subst decimalOf.simps) simp
  qed
qed simp

lemma scope_byte_range: "isScopeByte c \<Longrightarrow> 45 \<le> (of_char c :: nat)"
  by (auto simp: isScopeByte_def isAlnumA_def isAlphaA_def isLowerA_def isUpperA_def isDigitA_def inRange_def
      less_eq_char_def)

lemma scope_byte_special:
  "\<not> isScopeByte (CHR 0x22)" "\<not> isScopeByte (CHR 0x5C)" "\<not> isScopeByte (CHR ''<'')"
  "\<not> isScopeByte (CHR ''>'')" "\<not> isScopeByte (CHR ''&'')" "\<not> isScopeByte (CHR 0x0A)"
  "\<not> isScopeByte (CHR 0x0D)" "\<not> isScopeByte (CHR 0x09)" "\<not> isScopeByte (CHR 0x08)" "\<not> isScopeByte (CHR 0x0C)"
  by (simp_all add: isScopeByte_def isAlnumA_def isAlphaA_def isLowerA_def isUpperA_def isDigitA_def inRange_def
      less_eq_char_def)

lemma jsonByte_plain:
  assumes "isScopeByte c"
  shows "jsonByte c = [c]"
proof -
  have "\<And>x. \<not> isScopeByte x \<Longrightarrow> (c = x) = False" using assms by auto
  note special = scope_byte_special[THEN this]
  have "((of_char c :: nat) < 32) = False" using scope_byte_range[OF assms] by simp
  then show ?thesis unfolding jsonByte_def special by simp
qed

lemma jsonString_plain: "list_all isScopeByte s \<Longrightarrow> length (jsonString s) = length s + 2"
  by (induction s) (auto simp: jsonString_def jsonByte_plain)

lemma rTimes_cls: "re_match s (rTimes n (RCls P)) p q \<Longrightarrow> q = p + n \<and> (\<forall>i. p \<le> i \<and> i < q \<longrightarrow> P (s ! i))"
proof (induction n arbitrary: p)
  case (Suc n)
  then obtain m where "re_match s (RCls P) p m" "re_match s (rTimes n (RCls P)) m q" by auto
  moreover from this(1) have "m = Suc p" "P (s ! p)" by auto
  ultimately show ?case using Suc.IH[of m] by simp (metis Suc_leI le_neq_implies_less)
qed auto

lemma rUpTo_cls: "re_match s (rUpTo n (RCls P)) p q \<Longrightarrow> p \<le> q \<and> q \<le> p + n \<and> (\<forall>i. p \<le> i \<and> i < q \<longrightarrow> P (s ! i))"
proof (induction n arbitrary: p)
  case (Suc n)
  from Suc.prems consider "q = p" | m where "re_match s (RCls P) p m" "re_match s (rUpTo n (RCls P)) m q"
    by auto
  then show ?case
  proof cases
    case 2
    moreover from this(1) have "m = Suc p" "P (s ! p)" by auto
    ultimately show ?thesis using Suc.IH[of m] by simp (metis Suc_leI le_neq_implies_less)
  qed auto
qed auto

lemma scopeIDPattern_plain:
  assumes "matchString scopeIDPattern s"
  shows "list_all isScopeByte s \<and> length s \<le> 128"
proof -
  from assms obtain a b where "re_match s scopeIDPattern a b" by (auto simp: matchString_iff)
  then obtain m where "re_match s (rBetween 1 128 (RCls isScopeByte)) 0 m" "m = length s"
    unfolding scopeIDPattern_def rSeq.simps by blast
  then obtain k where k: "re_match s (rTimes 1 (RCls isScopeByte)) 0 k" "re_match s (rUpTo 127 (RCls isScopeByte)) k (length s)"
    by (auto simp: rBetween_def)
  from rTimes_cls[OF k(1)] rUpTo_cls[OF k(2)] have "length s \<le> 128" "\<forall>i < length s. isScopeByte (s ! i)"
    by (auto simp: not_less) (metis Suc_leI gr0I)
  then show ?thesis by (auto simp: list_all_length)
qed

text \<open>
  A receipt always fits its header: for every scope identifier the pattern accepts, and the empty one, for both profiles, every coverage and
  result the service writes and every value of the three counters, the encoded receipt has at
  most 512 bytes, so that \<open>encodeReceipt\<close> succeeds.
\<close>

theorem receipt_fits:
  assumes "rc_Scope r = [] \<or> matchString scopeIDPattern (rc_Scope r)"
    and "rc_Version r = 1" "rc_Profile r \<in> {ProfileStandard, ProfileStrict}" "rc_Coverage r \<in> {''input'', ''full''}"
    and "rc_Result r \<in> {''pass'', ''block'', ''error''}"
    and "rc_Transformed r < 2 ^ 63" "rc_Restored r < 2 ^ 63" "rc_Blocked r < 2 ^ 63"
  shows "encodeReceipt r \<noteq> None"
proof -
  have scope: "length (jsonString (rc_Scope r)) \<le> 130"
    using assms(1) scopeIDPattern_plain[of "rc_Scope r"] jsonString_plain[of "rc_Scope r"] by auto
  have profile: "length (jsonString (rc_Profile r)) \<le> 10" and coverage: "length (jsonString (rc_Coverage r)) \<le> 7"
    and result: "length (jsonString (rc_Result r)) \<le> 7"
    using assms(3-5) by (auto simp: ProfileStandard_def ProfileStrict_def jsonString_def jsonByte_def)
  have num: "length (decimalOf n) \<le> 19" if "n < 2 ^ 63" for n
    by (rule decimalOf_length) (use that in simp_all)
  have one: "length (decimalOf (rc_Version r)) \<le> 1" using assms(2) by (subst decimalOf.simps) simp
  have "length (marshalReceipt r) \<le> 320"
    using scope profile coverage result one num[OF assms(6)] num[OF assms(7)] num[OF assms(8)]
    by (simp add: marshalReceipt_def jsonField_def)
  then have "length (rawURLEncode (map of_char (marshalReceipt r))) \<le> 512"
    by (simp add: length_rawURLEncode)
  then show ?thesis by (simp add: encodeReceipt_def Let_def maxEncodedReceiptBytes_def)
qed

definition exReceipt :: Receipt where
  "exReceipt = \<lparr>rc_Version = 1, rc_Profile = ProfileStrict, rc_Scope = [], rc_Coverage = ''input'', rc_Result = ''error'',
     rc_Transformed = 2, rc_Restored = 0, rc_Blocked = 1\<rparr>"

theorem receipt_fits_witness: "encodeReceipt exReceipt \<noteq> None"
  using receipt_fits[of exReceipt] by (simp add: exReceipt_def)

text \<open>
  The hypothesis on the scope is needed: 128 characters that JSON escapes make the receipt too
  long.
\<close>

lemma receipt_of_escaped_scope:
  "encodeReceipt (exReceipt\<lparr>rc_Scope := replicate 128 (CHR ''<'')\<rparr>) = None"
proof -
  have "length (jsonByte (CHR ''<'')) = 6" by (simp add: jsonByte_def)
  then have "length (concat (map jsonByte (replicate 128 (CHR ''<'')))) = 768"
    by (simp add: length_concat sum_list_replicate)
  then have "length (jsonString (replicate 128 (CHR ''<''))) = 770" by (simp add: jsonString_def)
  then have "length (marshalReceipt (exReceipt\<lparr>rc_Scope := replicate 128 (CHR ''<'')\<rparr>)) \<ge> 770"
    by (simp add: marshalReceipt_def jsonField_def)
  then show ?thesis
    by (simp add: encodeReceipt_def Let_def length_rawURLEncode maxEncodedReceiptBytes_def)
qed

end
