(* ===== verification/PrivacyActions.thy ===== *)
theory PrivacyActions
  imports PrivacyContext
begin

text \<open>
  How a finding is rewritten (\<open>internal/privacy/actions.go\<close>): replacement labels, masks, keyed
  hash tags, AES-GCM tokens and one-way secret labels.

  The primitives of the Go crypto packages are the argument \<open>cr\<close>: HMAC-SHA256, whether a key is
  accepted by AES, sealing and opening with GCM, and the random reads of the process, the
  \<open>i\<close>-th of which is asked for \<open>n\<close> bytes. Log lines are left out.
\<close>

record cryptoEnv =
  cr_hmac :: "string \<Rightarrow> string \<Rightarrow> string"
  cr_keyOK :: "string \<Rightarrow> bool"
  cr_seal :: "string \<Rightarrow> string \<Rightarrow> string \<Rightarrow> string \<Rightarrow> string"
  cr_open :: "string \<Rightarrow> string \<Rightarrow> string \<Rightarrow> string \<Rightarrow> string option"
  cr_rand :: "nat \<Rightarrow> nat \<Rightarrow> string option"

datatype Action =
    ActionReplace
  | ActionMask
  | ActionHash
  | ActionDrop
  | ActionEncrypt
  | ActionPseudonymize
  | ActionUnknown string

definition UnkeyedHashSentinel :: string where "UnkeyedHashSentinel = ''UNKEYED''"
definition hashTagLength :: nat where "hashTagLength = 8"
definition gcmNonceSize :: nat where "gcmNonceSize = 12"

text \<open>Lower case and trimmed, over the runes of the text.\<close>

definition CanonicalForm :: "goEnv \<Rightarrow> string \<Rightarrow> string" where
  "CanonicalForm env v = env_encode env (map (env_ToLower env) (env_TrimSpace env (env_runes env v)))"

definition bracket :: "string \<Rightarrow> string" where "bracket s = CHR ''['' # s @ '']''"

definition replacementToken :: "string \<Rightarrow> nat \<Rightarrow> string" where
  "replacementToken entity counter =
    (if counter > 0 then bracket (entity @ ''_'' @ decimalOf counter) else bracket entity)"

definition hexEncode :: "string \<Rightarrow> string" where
  "hexEncode s = concat (map (\<lambda>c. [hexDigit (of_char c div 16), hexDigit (of_char c mod 16)]) s)"

definition hashTag :: "goEnv \<Rightarrow> cryptoEnv \<Rightarrow> string \<Rightarrow> string \<Rightarrow> string" where
  "hashTag env cr hashKey v =
    (if hashKey = [] then UnkeyedHashSentinel
     else take hashTagLength (hexEncode (cr_hmac cr hashKey (CanonicalForm env v))))"

definition maskPrefix :: "string \<Rightarrow> nat \<Rightarrow> string" where
  "maskPrefix v n = (if length v \<le> n then ''***'' else take n v @ ''***'')"

definition lastIndexByte :: "string \<Rightarrow> char \<Rightarrow> nat option" where
  "lastIndexByte s c = map_option (\<lambda>i. length s - 1 - i) (indexByte (rev s) c)"

definition maskValue :: "string \<Rightarrow> string" where
  "maskValue v =
    (case indexByte v CHR ''@'' of
       Some (Suc i) \<Rightarrow>
         let local = take (Suc i) v; domain = drop (Suc (Suc i)) v
         in (case lastIndexByte domain CHR ''.'' of
               Some (Suc d) \<Rightarrow> maskPrefix local 2 @ ''@'' @ maskPrefix (take (Suc d) domain) 2 @ drop (Suc d) domain
             | _ \<Rightarrow> maskPrefix local 2 @ ''@'' @ maskPrefix domain 2)
     | _ \<Rightarrow> if length v < 5 then ''****''
            else take 2 v @ replicate (length v - 4) CHR ''*'' @ drop (length v - 2) v)"

definition bytesOf :: "string \<Rightarrow> nat list" where "bytesOf s = map of_char s"

definition EncryptValue :: "cryptoEnv \<Rightarrow> nat \<Rightarrow> string \<Rightarrow> string \<Rightarrow> string \<Rightarrow> string option" where
  "EncryptValue cr i key entity plaintext =
    (if \<not> cr_keyOK cr key then None
     else case cr_rand cr i gcmNonceSize of
       None \<Rightarrow> None
     | Some nonce \<Rightarrow>
         let payload = rawURLEncode (bytesOf (nonce @ cr_seal cr key nonce plaintext entity))
         in Some (''[PII:'' @ entity @ '':'' @ payload @ '']''))"

fun b64Value :: "char \<Rightarrow> nat option" where
  "b64Value c =
    (if isUpperA c then Some (of_char c - 65) else if isLowerA c then Some (of_char c - 71)
     else if isDigitA c then Some (of_char c + 4) else if c = CHR ''-'' then Some 62
     else if c = CHR ''_'' then Some 63 else None)"

text \<open>\<open>base64.RawURLEncoding.DecodeString\<close> on the bytes of its alphabet; trailing bits are not checked.\<close>

fun rawURLDecode :: "nat list \<Rightarrow> nat list option" where
  "rawURLDecode (a # b # c # d # rest) =
    map_option ((@) [a * 4 + b div 16, b mod 16 * 16 + c div 4, c mod 4 * 64 + d]) (rawURLDecode rest)"
| "rawURLDecode [a, b, c] = Some [a * 4 + b div 16, b mod 16 * 16 + c div 4]"
| "rawURLDecode [a, b] = Some [a * 4 + b div 16]"
| "rawURLDecode [a] = None"
| "rawURLDecode [] = Some []"

definition decodePayload :: "string \<Rightarrow> string option" where
  "decodePayload payload =
    (if list_ex (\<lambda>c. b64Value c = None) payload then None
     else map_option (map char_of) (rawURLDecode (map (the \<circ> b64Value) payload)))"

datatype decryptErr = BadBase64 | BadKey | PayloadTooShort | GcmOpen

definition DecryptToken :: "cryptoEnv \<Rightarrow> string \<Rightarrow> string \<Rightarrow> string \<Rightarrow> decryptErr + string" where
  "DecryptToken cr key entity payload =
    (case decodePayload payload of
       None \<Rightarrow> Inl BadBase64
     | Some blob \<Rightarrow>
         if \<not> cr_keyOK cr key then Inl BadKey
         else if length blob < gcmNonceSize then Inl PayloadTooShort
         else case cr_open cr key (take gcmNonceSize blob) (drop gcmNonceSize blob) entity of
                None \<Rightarrow> Inl GcmOpen
              | Some plaintext \<Rightarrow> Inr plaintext)"

definition wrappedTokenRE :: re where
  "wrappedTokenRE = rSeq [rLit ''[PII:'', RGroup 1 (rPlus (RCls isWordA)), rLit '':'', RGroup 2 (rPlus (RCls isDashWord)), rLit '']'']"

definition encryptedTokenRE :: re where
  "encryptedTokenRE = rSeq [RBegin, rLit ''[PII:'', RGroup 1 (rPlus (RCls isWordA)), rLit '':'',
     RGroup 2 (rPlus (RCls isDashWord)), rLit '']'', REnd]"

definition ParseEncryptedToken :: "string \<Rightarrow> (string \<times> string) option" where
  "ParseEncryptedToken token =
    map_option (\<lambda>(a, b, c). (groupText token c 1, groupText token c 2)) (findFrom encryptedTokenRE token 0)"

definition ApplyAction ::
  "goEnv \<Rightarrow> cryptoEnv \<Rightarrow> nat \<Rightarrow> Action \<Rightarrow> string \<Rightarrow> string \<Rightarrow> nat \<Rightarrow> string \<Rightarrow> string \<Rightarrow> string" where
  "ApplyAction env cr i action entity v counter hashKey encryptKey =
    (let upperEntity = map upperA entity
     in case action of
       ActionReplace \<Rightarrow> replacementToken upperEntity counter
     | ActionPseudonymize \<Rightarrow> replacementToken upperEntity counter
     | ActionMask \<Rightarrow> maskValue v
     | ActionHash \<Rightarrow> bracket (upperEntity @ '':h-'' @ hashTag env cr hashKey v)
     | ActionDrop \<Rightarrow> []
     | ActionEncrypt \<Rightarrow>
         (case EncryptValue cr i encryptKey entity v of
            Some token \<Rightarrow> token
          | None \<Rightarrow> replacementToken upperEntity counter)
     | ActionUnknown _ \<Rightarrow> replacementToken upperEntity counter)"

text \<open>The big-endian length before each field; the fields of a label are shorter than \<open>2 ^ 32\<close>.\<close>

definition bigEndian :: "nat \<Rightarrow> nat \<Rightarrow> string" where
  "bigEndian width n = map (\<lambda>k. char_of (n div 256 ^ (width - 1 - k) mod 256)) [0..<width]"

definition lengthPrefixed :: "nat \<Rightarrow> string list \<Rightarrow> string" where
  "lengthPrefixed width parts = concat (map (\<lambda>f. bigEndian width (length f) @ f) parts)"

definition framedFields :: "string list \<Rightarrow> string" where
  "framedFields parts =
    (if list_all (\<lambda>f. length f < 2 ^ 32) parts then lengthPrefixed 4 parts else lengthPrefixed 8 parts)"

definition OneWaySecretLabel :: "cryptoEnv \<Rightarrow> string \<Rightarrow> string \<Rightarrow> string \<Rightarrow> string \<Rightarrow> string" where
  "OneWaySecretLabel cr aliasKey scopeID entity canonical =
    (let tag = map upperA (take 12 (hexEncode (cr_hmac cr aliasKey (framedFields [scopeID, entity, canonical]))))
     in bracket (''SECRET:'' @ map upperA entity @ ''_'' @ tag))"

section \<open>Base64\<close>

lemma b64_value_char: "n < 64 \<Longrightarrow> b64Value (b64Char n) = Some n"
proof -
  assume "n < 64"
  then have "n \<in> set [0..<64]" by simp
  moreover have "list_all (\<lambda>n. b64Value (b64Char n) = Some n) [0..<64]"
    by (simp add: upt_rec b64Char_def isUpperA_def isLowerA_def isDigitA_def inRange_def less_eq_char_def)
  ultimately show ?thesis by (simp add: list_all_iff)
qed

lemma b64_char_dash: "n < 64 \<Longrightarrow> isDashWord (b64Char n)"
  using b64_value_char[of n]
  by (auto simp: isDashWord_def isWordA_def isAlnumA_def isAlphaA_def split: if_splits)

lemma b64_digits_bound:
  "list_all (\<lambda>x. x < 256) bs \<Longrightarrow> list_all isDashWord (rawURLEncode bs)"
proof (induction bs rule: rawURLEncode.induct)
  case (1 a b c rest)
  then have "a div 4 < 64" "a mod 4 * 16 + b div 16 < 64" "b mod 16 * 4 + c div 64 < 64" "c mod 64 < 64"
    by (auto simp: less_mult_imp_div_less)
  with 1 show ?case by (simp add: b64_char_dash)
next
  case (2 a b)
  then have "a div 4 < 64" "a mod 4 * 16 + b div 16 < 64" "b mod 16 * 4 < 64" by auto
  then show ?case by (simp add: b64_char_dash)
next
  case (3 a)
  then have "a div 4 < 64" "a mod 4 * 16 < 64" by auto
  then show ?case by (simp add: b64_char_dash)
qed simp

definition b64Sextets :: "string \<Rightarrow> nat list" where "b64Sextets s = map (the \<circ> b64Value) s"

lemma rawURL_round_trip:
  "list_all (\<lambda>x. x < 256) bs \<Longrightarrow> rawURLDecode (b64Sextets (rawURLEncode bs)) = Some bs
    \<and> \<not> list_ex (\<lambda>c. b64Value c = None) (rawURLEncode bs)"
proof (induction bs rule: rawURLEncode.induct)
  case (1 a b c rest)
  then have s: "a div 4 < 64" "a mod 4 * 16 + b div 16 < 64" "b mod 16 * 4 + c div 64 < 64" "c mod 64 < 64"
    by (auto simp: less_mult_imp_div_less)
  have "a div 4 * 4 + (a mod 4 * 16 + b div 16) div 16 = a" "(a mod 4 * 16 + b div 16) mod 16 * 16
      + (b mod 16 * 4 + c div 64) div 4 = b" "(b mod 16 * 4 + c div 64) mod 4 * 64 + c mod 64 = c"
    using 1(2) by (auto simp: less_mult_imp_div_less)
  with 1 s[THEN b64_value_char] show ?case by (simp add: b64Sextets_def del: b64Value.simps)
next
  case (2 a b)
  then have s: "a div 4 < 64" "a mod 4 * 16 + b div 16 < 64" "b mod 16 * 4 < 64" by auto
  have "a div 4 * 4 + (a mod 4 * 16 + b div 16) div 16 = a" "(a mod 4 * 16 + b div 16) mod 16 * 16 + (b mod 16 * 4) div 4 = b"
    using 2 by auto
  with s[THEN b64_value_char] show ?case by (simp add: b64Sextets_def del: b64Value.simps)
next
  case (3 a)
  then have s: "a div 4 < 64" "a mod 4 * 16 < 64" by auto
  have "a div 4 * 4 + (a mod 4 * 16) div 16 = a" by simp
  with s[THEN b64_value_char] show ?case by (simp add: b64Sextets_def del: b64Value.simps)
qed (simp add: b64Sextets_def)

lemma bytesOf_range: "list_all (\<lambda>x. x < 256) (bytesOf s)"
  by (induction s) (simp_all add: bytesOf_def)

lemma decodePayload_encode: "decodePayload (rawURLEncode (bytesOf s)) = Some s"
proof -
  from rawURL_round_trip[OF bytesOf_range[of s]] show ?thesis
    by (auto simp: decodePayload_def b64Sextets_def bytesOf_def comp_def simp del: b64Value.simps intro!: map_idI)
qed

section \<open>Reading a token back\<close>

lemma take_drop_Cons:
  assumes "take (length (c # cs)) (drop p s) = c # cs"
  shows "p < length s" "s ! p = c" "take (length cs) (drop (Suc p) s) = cs"
proof -
  from assms obtain rest where d: "drop p s = c # rest" "take (length cs) rest = cs"
    by (cases "drop p s") auto
  then show "p < length s" by (metis drop_all list.discI not_le)
  show "s ! p = c" using d(1) by (rule nth_via_drop)
  show "take (length cs) (drop (Suc p) s) = cs" using d by (metis drop_Suc tl_drop list.sel(3))
qed

lemma rmatch_lit: "take (length t) (drop p s) = t \<Longrightarrow> rmatch s (rLit t) p c k = k (p + length t) c"
proof (induction t arbitrary: p rule: rLit.induct)
  case (2 ch)
  with take_drop_Cons[OF 2] show ?case by simp
next
  case (3 ch c2 cs)
  with take_drop_Cons[OF 3(2)] show ?case by simp
qed simp

lemma rmatch_star_run:
  "p \<le> q \<Longrightarrow> q \<le> length s \<Longrightarrow> (\<And>i. p \<le> i \<Longrightarrow> i < q \<Longrightarrow> P (s ! i)) \<Longrightarrow> q = length s \<or> \<not> P (s ! q) \<Longrightarrow>
    k q c = Some x \<Longrightarrow> rmatch s (RStar (RCls P)) p c k = Some x"
proof (induction "q - p" arbitrary: p)
  case 0
  then have "p = q" by simp
  with 0 show ?case by (subst rmatch.simps(9)) (auto simp del: rmatch.simps(9))
next
  case (Suc n)
  then have p: "p < q" "n = q - Suc p" "P (s ! p)" by simp_all
  have "rmatch s (RStar (RCls P)) (Suc p) c k = Some x"
    using Suc.hyps(1)[OF p(2)] Suc.prems p(1) by simp
  with p Suc.prems(2) show ?case by (subst rmatch.simps(9)) (simp del: rmatch.simps(9))
qed

lemma rmatch_plus_run:
  "p < q \<Longrightarrow> q \<le> length s \<Longrightarrow> (\<And>i. p \<le> i \<Longrightarrow> i < q \<Longrightarrow> P (s ! i)) \<Longrightarrow> q = length s \<or> \<not> P (s ! q) \<Longrightarrow>
    k q c = Some x \<Longrightarrow> rmatch s (rPlus (RCls P)) p c k = Some x"
  using rmatch_star_run[of "Suc p" q s P k c x] by (simp add: rPlus_def del: rmatch.simps(9))

lemma split_at: "take (length t) (drop (length xs) (xs @ t @ ys)) = t \<and> (t \<noteq> [] \<longrightarrow> (xs @ t @ ys) ! length xs = hd t)"
  by (cases t) simp_all

definition wrapToken :: "string \<Rightarrow> string \<Rightarrow> string" where
  "wrapToken entity payload = ''[PII:'' @ entity @ '':'' @ payload @ '']''"

lemma ParseEncryptedToken_wrap:
  assumes "entity \<noteq> []" "list_all isWordA entity" "payload \<noteq> []" "list_all isDashWord payload"
  shows "ParseEncryptedToken (wrapToken entity payload) = Some (entity, payload)"
proof -
  define s e f where "s = wrapToken entity payload" and "e = 5 + length entity" and "f = 6 + length entity + length payload"
  have len: "length s = Suc f" by (simp add: s_def f_def wrapToken_def)
  have ent: "s ! i = entity ! (i - 5)" if "5 \<le> i" "i < e" for i
  proof -
    from that obtain j where "i = length ''[PII:'' + j" "j < length entity"
      by (auto simp: e_def dest!: le_Suc_ex)
    then show ?thesis unfolding s_def wrapToken_def nth_append_length_plus by (simp add: nth_append)
  qed
  have colon: "s ! e = CHR '':''" "take 1 (drop e s) = '':''"
    using split_at[of "'':''" "''[PII:'' @ entity" "payload @ '']''"]
    by (simp_all add: s_def wrapToken_def e_def drop_Cons' add.commute[of 5])
  have pay: "s ! i = payload ! (i - Suc e)" if "Suc e \<le> i" "i < f" for i
  proof -
    from that obtain j where j: "i = length (''[PII:'' @ entity @ '':'') + j" "j < length payload"
      by (auto simp: e_def f_def dest!: le_Suc_ex)
    have "s = (''[PII:'' @ entity @ '':'') @ payload @ '']''" by (simp add: s_def wrapToken_def)
    then have "s ! i = payload ! j" using j by (simp only: nth_append_length_plus) (simp add: nth_append)
    with j show ?thesis by (simp add: e_def)
  qed
  have close: "s ! f = CHR '']''" "take 1 (drop f s) = '']''"
    using split_at[of "'']''" "''[PII:'' @ entity @ '':'' @ payload" "[]"]
    by (simp_all add: s_def wrapToken_def f_def drop_Cons')
  have start: "take (length ''[PII:'') (drop 0 s) = ''[PII:''" by (simp add: s_def wrapToken_def)
  have elt: "e < length s" by (simp add: len e_def f_def)
  have c1: "\<not> isWordA (CHR '':'')" "\<not> isDashWord (CHR '']'')"
    by (simp_all add: isDashWord_def isWordA_def isAlnumA_def isAlphaA_def isLowerA_def isUpperA_def isDigitA_def
        inRange_def less_eq_char_def)
  let ?k3 = "\<lambda>q c. Some (q, c)"
  have "rmatch s (rPlus (RCls isDashWord)) (Suc e) [(1, 5, e)]
      (\<lambda>q c'. rmatch s (rSeq [rLit '']'', REnd]) q ((2, Suc e, q) # c') ?k3)
      = Some (Suc f, [(2, Suc e, f), (1, 5, e)])"
  proof (rule rmatch_plus_run[where q = f])
    show "Suc e < f" using assms(3) by (simp add: e_def f_def)
    show "isDashWord (s ! i)" if "Suc e \<le> i" "i < f" for i
      using that assms(4) pay[OF that] by (simp add: list_all_length e_def f_def)
    show "rmatch s (rSeq [rLit '']'', REnd]) f [(2, Suc e, f), (1, 5, e)] ?k3 = Some (Suc f, [(2, Suc e, f), (1, 5, e)])"
      using close len by simp
  qed (use len close c1 in auto)
  then have tail: "rmatch s (rSeq [rLit '':'', RGroup 2 (rPlus (RCls isDashWord)), rLit '']'', REnd]) e [(1, 5, e)] ?k3
      = Some (Suc f, [(2, Suc e, f), (1, 5, e)])"
    using colon(1) elt by simp
  have "rmatch s (rPlus (RCls isWordA)) 5 []
      (\<lambda>q c'. rmatch s (rSeq [rLit '':'', RGroup 2 (rPlus (RCls isDashWord)), rLit '']'', REnd]) q ((1, 5, q) # c') ?k3)
      = Some (Suc f, [(2, Suc e, f), (1, 5, e)])"
  proof (rule rmatch_plus_run[where q = e])
    show "5 < e" using assms(1) by (simp add: e_def)
    show "isWordA (s ! i)" if "5 \<le> i" "i < e" for i
      using that assms(2) ent[OF that] by (simp add: list_all_length e_def)
  qed (use len colon c1 tail in \<open>auto simp: e_def f_def\<close>)
  moreover have "0 + length ''[PII:'' = (5 :: nat)" by simp
  note lit5 = rmatch_lit[OF start, unfolded this]
  ultimately have "matchAt encryptedTokenRE s 0 = Some (Suc f, [(2, Suc e, f), (1, 5, e)])"
    using lit5 by (simp add: matchAt_def encryptedTokenRE_def del: rLit.simps)
  then have "findFrom encryptedTokenRE s 0 = Some (0, Suc f, [(2, Suc e, f), (1, 5, e)])"
    by (subst findFrom.simps) simp
  moreover have "substr s 5 e = entity" "substr s (Suc e) f = payload"
    by (simp_all add: substr_def s_def wrapToken_def e_def f_def numeral_eq_Suc)
  ultimately show ?thesis by (simp add: ParseEncryptedToken_def groupText_def s_def)
qed

lemma rawURLEncode_nonempty: "bs \<noteq> [] \<Longrightarrow> rawURLEncode bs \<noteq> []"
  by (cases bs rule: rawURLEncode.cases) auto

text \<open>
  What is encrypted can be restored: the token \<open>EncryptValue\<close> makes for an entity with a name of word characters parses back into that
  entity and a payload whose decryption under the same key and entity is the original text,
  provided GCM opens what it sealed and a nonce has its twelve bytes.
\<close>

theorem encrypted_token_round_trip:
  assumes "EncryptValue cr i key entity plaintext = Some token"
    and "entity \<noteq> []" "list_all isWordA entity"
    and "\<And>nonce. cr_open cr key nonce (cr_seal cr key nonce plaintext entity) entity = Some plaintext"
    and "\<And>nonce. cr_rand cr i gcmNonceSize = Some nonce \<Longrightarrow> length nonce = gcmNonceSize"
  shows "\<exists>payload. ParseEncryptedToken token = Some (entity, payload) \<and> DecryptToken cr key entity payload = Inr plaintext"
proof -
  from assms(1) obtain nonce where n: "cr_keyOK cr key" "cr_rand cr i gcmNonceSize = Some nonce"
    "token = wrapToken entity (rawURLEncode (bytesOf (nonce @ cr_seal cr key nonce plaintext entity)))"
    by (auto simp: EncryptValue_def Let_def wrapToken_def split: if_splits option.splits)
  from assms(5)[OF n(2)] have len: "length nonce = 12" by (simp add: gcmNonceSize_def)
  let ?blob = "nonce @ cr_seal cr key nonce plaintext entity"
  have "bytesOf ?blob \<noteq> []" using len by (auto simp: bytesOf_def)
  then have "ParseEncryptedToken token = Some (entity, rawURLEncode (bytesOf ?blob))"
    unfolding n(3) by (intro ParseEncryptedToken_wrap assms(2,3) rawURLEncode_nonempty b64_digits_bound bytesOf_range)
  moreover have "DecryptToken cr key entity (rawURLEncode (bytesOf ?blob)) = Inr plaintext"
    using n(1) len assms(4) by (simp add: DecryptToken_def decodePayload_encode gcmNonceSize_def)
  ultimately show ?thesis by blast
qed

text \<open>A toy cipher that satisfies the assumptions: the sealed text is the plaintext with its key in front.\<close>

definition toyCrypto :: cryptoEnv where
  "toyCrypto = \<lparr>cr_hmac = (\<lambda>k m. replicate 32 CHR ''h''), cr_keyOK = (\<lambda>k. k \<noteq> []),
     cr_seal = (\<lambda>k n p a. k @ p),
     cr_open = (\<lambda>k n c a. if take (length k) c = k then Some (drop (length k) c) else None),
     cr_rand = (\<lambda>i n. Some (replicate n CHR ''n''))\<rparr>"

theorem encrypted_token_round_trip_witness:
  "\<exists>token payload. EncryptValue toyCrypto 0 ''k'' ''Email'' ''a@b.c'' = Some token
    \<and> ParseEncryptedToken token = Some (''Email'', payload) \<and> DecryptToken toyCrypto ''k'' ''Email'' payload = Inr ''a@b.c''"
proof -
  have "EncryptValue toyCrypto 0 ''k'' ''Email'' ''a@b.c'' \<noteq> None"
    by (simp add: EncryptValue_def toyCrypto_def Let_def bytesOf_def del: rawURLEncode.simps list.map)
  then obtain token where t: "EncryptValue toyCrypto 0 ''k'' ''Email'' ''a@b.c'' = Some token" by blast
  have w: "list_all isWordA ''Email''"
    by (simp add: isWordA_def isAlnumA_def isAlphaA_def isLowerA_def isUpperA_def inRange_def less_eq_char_def)
  have o: "cr_open toyCrypto ''k'' nonce (cr_seal toyCrypto ''k'' nonce ''a@b.c'' ''Email'') ''Email'' = Some ''a@b.c''" for nonce
    by (simp add: toyCrypto_def)
  have r: "cr_rand toyCrypto 0 gcmNonceSize = Some nonce \<Longrightarrow> length nonce = gcmNonceSize" for nonce
    by (auto simp: toyCrypto_def)
  have "''Email'' \<noteq> []" by simp
  from encrypted_token_round_trip[OF t this w o r] t show ?thesis by blast
qed

end
