(* ===== verification/PrivacyWalk.thy ===== *)
theory PrivacyWalk
  imports GatewayPrelude
begin

text \<open>
  The strings of a request or a response that the privacy service reads and rewrites
  (\<open>internal/privacy/walk.go\<close>), over the parts of the canonical types it touches
  (\<open>internal/canonical/chat.go\<close>).

  A JSON object is the list of its members in the order of their keys: every traversal of
  this file goes through the keys in sorted order. The callback has a state of its own,
  \<open>'s\<close>; a traversal that fails leaves the value as far as it was rewritten, which is part
  of the result.
\<close>

section \<open>Canonical content\<close>

datatype anyValue =
    VStr string
  | VMap "(string \<times> anyValue) list"
  | VSlice "anyValue list"
  | VOther nat

type_synonym valueMap = "(string \<times> anyValue) list"

record cToolUse =
  tu_id :: string
  tu_name :: string
  tu_input :: valueMap

record cToolResult =
  tr_toolUseID :: string
  tr_content :: string
  tr_isError :: bool

datatype cPart =
    CText string
  | CImage nat
  | CToolUse "cToolUse option"
  | CToolResult "cToolResult option"
  | CThinking string

record cToolCall =
  cc_id :: string
  cc_name :: string
  cc_arguments :: valueMap

record cMessage =
  cm_content :: "cPart list"
  cm_toolCalls :: "cToolCall list"

record cRequest =
  cr_system :: string
  cr_messages :: "cMessage list"
  cr_stream :: bool

record cResponse =
  cp_id :: string
  cp_model :: string
  cp_message :: cMessage

section \<open>Traversal that rewrites\<close>

datatype 'e walkErr = TooDeep | Callback 'e

type_synonym ('e, 's) rewriter = "string \<Rightarrow> string \<Rightarrow> 's \<Rightarrow> ('e + string) \<times> 's"
type_synonym ('e, 's) visitor = "string \<Rightarrow> string \<Rightarrow> 's \<Rightarrow> 'e option \<times> 's"

definition maxStringTraversalDepth :: nat where "maxStringTraversalDepth = 64"

fun transformStrings ::
  "('e, 's) rewriter \<Rightarrow> anyValue \<Rightarrow> string \<Rightarrow> nat \<Rightarrow> 's \<Rightarrow> ('e walkErr + anyValue) \<times> 's"
and transformMembers ::
  "('e, 's) rewriter \<Rightarrow> valueMap \<Rightarrow> nat \<Rightarrow> 's \<Rightarrow> ('e walkErr + valueMap) \<times> 's"
and transformItems ::
  "('e, 's) rewriter \<Rightarrow> anyValue list \<Rightarrow> string \<Rightarrow> nat \<Rightarrow> 's \<Rightarrow> ('e walkErr + anyValue list) \<times> 's"
where
  "transformStrings fn v key depth s =
    (if depth > maxStringTraversalDepth then (Inl TooDeep, s)
     else case v of
       VStr str \<Rightarrow>
         (case fn key str s of
            (Inl e, s1) \<Rightarrow> (Inl (Callback e), s1)
          | (Inr str', s1) \<Rightarrow> (Inr (VStr str'), s1))
     | VMap members \<Rightarrow>
         (case transformMembers fn members (Suc depth) s of
            (Inl e, s1) \<Rightarrow> (Inl e, s1)
          | (Inr members', s1) \<Rightarrow> (Inr (VMap members'), s1))
     | VSlice items \<Rightarrow>
         (case transformItems fn items key (Suc depth) s of
            (Inl e, s1) \<Rightarrow> (Inl e, s1)
          | (Inr items', s1) \<Rightarrow> (Inr (VSlice items'), s1))
     | VOther n \<Rightarrow> (Inr (VOther n), s))"
| "transformMembers fn [] depth s = (Inr [], s)"
| "transformMembers fn ((k, child) # rest) depth s =
    (case transformStrings fn child k depth s of
       (Inl e, s1) \<Rightarrow> (Inl e, s1)
     | (Inr child', s1) \<Rightarrow>
         (case transformMembers fn rest depth s1 of
            (Inl e, s2) \<Rightarrow> (Inl e, s2)
          | (Inr rest', s2) \<Rightarrow> (Inr ((k, child') # rest'), s2)))"
| "transformItems fn [] key depth s = (Inr [], s)"
| "transformItems fn (child # rest) key depth s =
    (case transformStrings fn child key depth s of
       (Inl e, s1) \<Rightarrow> (Inl e, s1)
     | (Inr child', s1) \<Rightarrow>
         (case transformItems fn rest key depth s1 of
            (Inl e, s2) \<Rightarrow> (Inl e, s2)
          | (Inr rest', s2) \<Rightarrow> (Inr (child' # rest'), s2)))"

declare transformStrings.simps [simp del]

text \<open>\<open>TransformStrings\<close> on an object; the result is an object again, so the type assertion holds.\<close>

definition transformObject ::
  "('e, 's) rewriter \<Rightarrow> valueMap \<Rightarrow> 's \<Rightarrow> ('e walkErr + valueMap) \<times> 's" where
  "transformObject fn input s =
    (case transformStrings fn (VMap input) [] 0 s of
       (Inr (VMap members), s1) \<Rightarrow> (Inr members, s1)
     | (Inr _, s1) \<Rightarrow> (Inr [], s1)
     | (Inl e, s1) \<Rightarrow> (Inl e, s1))"

definition liftFn :: "('e, 's) rewriter \<Rightarrow> string \<Rightarrow> string \<Rightarrow> 's \<Rightarrow> ('e walkErr + string) \<times> 's" where
  "liftFn fn key str s = (case fn key str s of (Inl e, s1) \<Rightarrow> (Inl (Callback e), s1) | (Inr x, s1) \<Rightarrow> (Inr x, s1))"

definition transformPart :: "('e, 's) rewriter \<Rightarrow> cPart \<Rightarrow> 's \<Rightarrow> 'e walkErr option \<times> cPart \<times> 's" where
  "transformPart fn part s =
    (case part of
       CText str \<Rightarrow>
         (case liftFn fn ''text'' str s of (Inl e, s1) \<Rightarrow> (Some e, part, s1) | (Inr x, s1) \<Rightarrow> (None, CText x, s1))
     | CToolUse (Some u) \<Rightarrow>
         (case transformObject fn (tu_input u) s of
            (Inl e, s1) \<Rightarrow> (Some e, part, s1)
          | (Inr x, s1) \<Rightarrow> (None, CToolUse (Some (u\<lparr>tu_input := x\<rparr>)), s1))
     | CToolResult (Some r) \<Rightarrow>
         (case liftFn fn ''content'' (tr_content r) s of
            (Inl e, s1) \<Rightarrow> (Some e, part, s1)
          | (Inr x, s1) \<Rightarrow> (None, CToolResult (Some (r\<lparr>tr_content := x\<rparr>)), s1))
     | _ \<Rightarrow> (None, part, s))"

definition transformCall :: "('e, 's) rewriter \<Rightarrow> cToolCall \<Rightarrow> 's \<Rightarrow> 'e walkErr option \<times> cToolCall \<times> 's" where
  "transformCall fn call s =
    (case transformObject fn (cc_arguments call) s of
       (Inl e, s1) \<Rightarrow> (Some e, call, s1)
     | (Inr x, s1) \<Rightarrow> (None, call\<lparr>cc_arguments := x\<rparr>, s1))"

text \<open>A loop that rewrites the elements of a slice in place and stops at the first error.\<close>

fun inPlace :: "('a \<Rightarrow> 's \<Rightarrow> 'e option \<times> 'a \<times> 's) \<Rightarrow> 'a list \<Rightarrow> 's \<Rightarrow> 'e option \<times> 'a list \<times> 's" where
  "inPlace step [] s = (None, [], s)"
| "inPlace step (x # xs) s =
    (case step x s of
       (Some e, x', s1) \<Rightarrow> (Some e, x' # xs, s1)
     | (None, x', s1) \<Rightarrow> (case inPlace step xs s1 of (r, xs', s2) \<Rightarrow> (r, x' # xs', s2)))"

definition transformMessageStrings :: "('e, 's) rewriter \<Rightarrow> cMessage \<Rightarrow> 's \<Rightarrow> 'e walkErr option \<times> cMessage \<times> 's" where
  "transformMessageStrings fn msg s =
    (case inPlace (transformPart fn) (cm_content msg) s of
       (Some e, content, s1) \<Rightarrow> (Some e, msg\<lparr>cm_content := content\<rparr>, s1)
     | (None, content, s1) \<Rightarrow>
         (case inPlace (transformCall fn) (cm_toolCalls msg) s1 of
            (r, calls, s2) \<Rightarrow> (r, msg\<lparr>cm_content := content, cm_toolCalls := calls\<rparr>, s2)))"

definition TransformRequestStrings :: "('e, 's) rewriter \<Rightarrow> cRequest \<Rightarrow> 's \<Rightarrow> 'e walkErr option \<times> cRequest \<times> 's" where
  "TransformRequestStrings fn req s =
    (case liftFn fn ''system'' (cr_system req) s of
       (Inl e, s1) \<Rightarrow> (Some e, req, s1)
     | (Inr sys, s1) \<Rightarrow>
         (case inPlace (transformMessageStrings fn) (cr_messages req) s1 of
            (r, msgs, s2) \<Rightarrow> (r, req\<lparr>cr_system := sys, cr_messages := msgs\<rparr>, s2)))"

definition TransformResponseStrings :: "('e, 's) rewriter \<Rightarrow> cResponse \<Rightarrow> 's \<Rightarrow> 'e walkErr option \<times> cResponse \<times> 's" where
  "TransformResponseStrings fn resp s =
    (case transformMessageStrings fn (cp_message resp) s of (r, msg, s1) \<Rightarrow> (r, resp\<lparr>cp_message := msg\<rparr>, s1))"

section \<open>Traversal that only reads\<close>

fun visitStrings :: "('e, 's) visitor \<Rightarrow> anyValue \<Rightarrow> string \<Rightarrow> nat \<Rightarrow> 's \<Rightarrow> 'e walkErr option \<times> 's"
and visitMembers :: "('e, 's) visitor \<Rightarrow> valueMap \<Rightarrow> nat \<Rightarrow> 's \<Rightarrow> 'e walkErr option \<times> 's"
and visitItems :: "('e, 's) visitor \<Rightarrow> anyValue list \<Rightarrow> string \<Rightarrow> nat \<Rightarrow> 's \<Rightarrow> 'e walkErr option \<times> 's"
where
  "visitStrings fn v key depth s =
    (if depth > maxStringTraversalDepth then (Some TooDeep, s)
     else case v of
       VStr str \<Rightarrow> (case fn key str s of (r, s1) \<Rightarrow> (map_option Callback r, s1))
     | VMap members \<Rightarrow> visitMembers fn members (Suc depth) s
     | VSlice items \<Rightarrow> visitItems fn items key (Suc depth) s
     | VOther n \<Rightarrow> (None, s))"
| "visitMembers fn [] depth s = (None, s)"
| "visitMembers fn ((k, child) # rest) depth s =
    (case visitStrings fn child k depth s of
       (Some e, s1) \<Rightarrow> (Some e, s1)
     | (None, s1) \<Rightarrow> visitMembers fn rest depth s1)"
| "visitItems fn [] key depth s = (None, s)"
| "visitItems fn (child # rest) key depth s =
    (case visitStrings fn child key depth s of
       (Some e, s1) \<Rightarrow> (Some e, s1)
     | (None, s1) \<Rightarrow> visitItems fn rest key depth s1)"

declare visitStrings.simps [simp del]

definition liftVisit :: "('e, 's) visitor \<Rightarrow> string \<Rightarrow> string \<Rightarrow> 's \<Rightarrow> 'e walkErr option \<times> 's" where
  "liftVisit fn key str s = (case fn key str s of (r, s1) \<Rightarrow> (map_option Callback r, s1))"

definition visitPart :: "('e, 's) visitor \<Rightarrow> cPart \<Rightarrow> 's \<Rightarrow> 'e walkErr option \<times> 's" where
  "visitPart fn part s =
    (case part of
       CText str \<Rightarrow> liftVisit fn ''text'' str s
     | CToolUse (Some u) \<Rightarrow> visitStrings fn (VMap (tu_input u)) [] 0 s
     | CToolResult (Some r) \<Rightarrow> liftVisit fn ''content'' (tr_content r) s
     | _ \<Rightarrow> (None, s))"

definition visitCall :: "('e, 's) visitor \<Rightarrow> cToolCall \<Rightarrow> 's \<Rightarrow> 'e walkErr option \<times> 's" where
  "visitCall fn call s = visitStrings fn (VMap (cc_arguments call)) [] 0 s"

fun visitEach :: "('a \<Rightarrow> 's \<Rightarrow> 'e option \<times> 's) \<Rightarrow> 'a list \<Rightarrow> 's \<Rightarrow> 'e option \<times> 's" where
  "visitEach step [] s = (None, s)"
| "visitEach step (x # xs) s =
    (case step x s of (Some e, s1) \<Rightarrow> (Some e, s1) | (None, s1) \<Rightarrow> visitEach step xs s1)"

definition visitMessageStrings :: "('e, 's) visitor \<Rightarrow> cMessage \<Rightarrow> 's \<Rightarrow> 'e walkErr option \<times> 's" where
  "visitMessageStrings fn msg s =
    (case visitEach (visitPart fn) (cm_content msg) s of
       (Some e, s1) \<Rightarrow> (Some e, s1)
     | (None, s1) \<Rightarrow> visitEach (visitCall fn) (cm_toolCalls msg) s1)"

definition VisitRequestStrings :: "('e, 's) visitor \<Rightarrow> cRequest \<Rightarrow> 's \<Rightarrow> 'e walkErr option \<times> 's" where
  "VisitRequestStrings fn req s =
    (case liftVisit fn ''system'' (cr_system req) s of
       (Some e, s1) \<Rightarrow> (Some e, s1)
     | (None, s1) \<Rightarrow> visitEach (visitMessageStrings fn) (cr_messages req) s1)"

definition VisitResponseStrings :: "('e, 's) visitor \<Rightarrow> cResponse \<Rightarrow> 's \<Rightarrow> 'e walkErr option \<times> 's" where
  "VisitResponseStrings fn resp s = visitMessageStrings fn (cp_message resp) s"

section \<open>The strings, in the order of the traversals\<close>

type_synonym slot = "string \<times> string"

fun valueStrings :: "string \<Rightarrow> anyValue \<Rightarrow> slot list"
and memberStrings :: "valueMap \<Rightarrow> slot list"
and itemStrings :: "string \<Rightarrow> anyValue list \<Rightarrow> slot list"
where
  "valueStrings key (VStr str) = [(key, str)]"
| "valueStrings key (VMap members) = memberStrings members"
| "valueStrings key (VSlice items) = itemStrings key items"
| "valueStrings key (VOther n) = []"
| "memberStrings [] = []"
| "memberStrings ((k, child) # rest) = valueStrings k child @ memberStrings rest"
| "itemStrings key [] = []"
| "itemStrings key (child # rest) = valueStrings key child @ itemStrings key rest"

definition partStrings :: "cPart \<Rightarrow> slot list" where
  "partStrings part =
    (case part of
       CText str \<Rightarrow> [(''text'', str)]
     | CToolUse (Some u) \<Rightarrow> memberStrings (tu_input u)
     | CToolResult (Some r) \<Rightarrow> [(''content'', tr_content r)]
     | _ \<Rightarrow> [])"

definition callStrings :: "cToolCall \<Rightarrow> slot list" where
  "callStrings call = memberStrings (cc_arguments call)"

definition messageStrings :: "cMessage \<Rightarrow> slot list" where
  "messageStrings msg = concat (map partStrings (cm_content msg)) @ concat (map callStrings (cm_toolCalls msg))"

definition requestStrings :: "cRequest \<Rightarrow> slot list" where
  "requestStrings req = (''system'', cr_system req) # concat (map messageStrings (cr_messages req))"

definition responseStrings :: "cResponse \<Rightarrow> slot list" where
  "responseStrings resp = messageStrings (cp_message resp)"

text \<open>A callback applied to a list of strings in order.\<close>

fun runAll :: "('e, 's) rewriter \<Rightarrow> slot list \<Rightarrow> 's \<Rightarrow> ('e + slot list) \<times> 's" where
  "runAll fn [] s = (Inr [], s)"
| "runAll fn ((key, str) # rest) s =
    (case fn key str s of
       (Inl e, s1) \<Rightarrow> (Inl e, s1)
     | (Inr x, s1) \<Rightarrow> (case runAll fn rest s1 of (Inl e, s2) \<Rightarrow> (Inl e, s2) | (Inr xs, s2) \<Rightarrow> (Inr ((key, x) # xs), s2)))"

fun visitAll :: "('e, 's) visitor \<Rightarrow> slot list \<Rightarrow> 's \<Rightarrow> 'e option \<times> 's" where
  "visitAll fn [] s = (None, s)"
| "visitAll fn ((key, str) # rest) s =
    (case fn key str s of (Some e, s1) \<Rightarrow> (Some e, s1) | (None, s1) \<Rightarrow> visitAll fn rest s1)"

lemma runAll_append:
  "runAll fn xs s = (Inr ys, s1) \<Longrightarrow> runAll fn xs' s1 = (Inr ys', s2) \<Longrightarrow> runAll fn (xs @ xs') s = (Inr (ys @ ys'), s2)"
  by (induction fn xs s arbitrary: ys rule: runAll.induct) (auto split: prod.splits sum.splits)

lemma visitAll_append:
  "visitAll fn xs s = (None, s1) \<Longrightarrow> visitAll fn (xs @ xs') s = visitAll fn xs' s1"
  by (induction fn xs s rule: visitAll.induct) (auto split: prod.splits option.splits)

section \<open>A successful traversal is the callback applied to the strings in order\<close>

lemma transform_strings_run:
  "transformStrings fn v key depth s = (Inr v', s') \<Longrightarrow>
     runAll fn (valueStrings key v) s = (Inr (valueStrings key v'), s')"
  "transformMembers fn members depth s = (Inr members', s') \<Longrightarrow>
     runAll fn (memberStrings members) s = (Inr (memberStrings members'), s')"
  "transformItems fn items key depth s = (Inr items', s') \<Longrightarrow>
     runAll fn (itemStrings key items) s = (Inr (itemStrings key items'), s')"
proof (induction fn v key depth s and fn members depth s and fn items key depth s
    arbitrary: v' s' and members' s' and items' s'
    rule: transformStrings_transformMembers_transformItems.induct)
  case (1 fn v key depth s)
  note run = 1(3)[unfolded transformStrings.simps[of fn v]]
  show ?case
  proof (cases v)
    case (VMap members)
    with run 1(1) show ?thesis by (auto split: prod.splits sum.splits if_splits)
  next
    case (VSlice items)
    with run 1(2) show ?thesis by (auto split: prod.splits sum.splits if_splits)
  qed (use run in \<open>auto split: prod.splits sum.splits if_splits\<close>)
next
  case (3 fn k child rest depth s)
  from 3(3) obtain child' s1 rest' where
    c: "transformStrings fn child k depth s = (Inr child', s1)" "transformMembers fn rest depth s1 = (Inr rest', s')"
    "members' = (k, child') # rest'" by (auto split: prod.splits sum.splits)
  from 3(1)[OF c(1)] 3(2)[OF c(1)[symmetric] refl c(2)] c(3) show ?case
    by (simp add: runAll_append)
next
  case (5 fn child rest key depth s)
  from 5(3) obtain child' s1 rest' where
    c: "transformStrings fn child key depth s = (Inr child', s1)" "transformItems fn rest key depth s1 = (Inr rest', s')"
    "items' = child' # rest'" by (auto split: prod.splits sum.splits)
  from 5(1)[OF c(1)] 5(2)[OF c(1)[symmetric] refl c(2)] c(3) show ?case
    by (simp add: runAll_append)
qed simp_all


lemma visit_strings_run:
  "visitStrings fn v key depth s = (None, s') \<Longrightarrow> visitAll fn (valueStrings key v) s = (None, s')"
  "visitMembers fn members depth s = (None, s') \<Longrightarrow> visitAll fn (memberStrings members) s = (None, s')"
  "visitItems fn items key depth s = (None, s') \<Longrightarrow> visitAll fn (itemStrings key items) s = (None, s')"
proof (induction fn v key depth s and fn members depth s and fn items key depth s
    arbitrary: s' and s' and s' rule: visitStrings_visitMembers_visitItems.induct)
  case (1 fn v key depth s)
  note run = 1(3)[unfolded visitStrings.simps[of fn v]]
  show ?case
  proof (cases v)
    case (VMap members)
    with run 1(1) show ?thesis by (auto split: if_splits)
  next
    case (VSlice items)
    with run 1(2) show ?thesis by (auto split: if_splits)
  qed (use run in \<open>auto split: prod.splits option.splits if_splits\<close>)
next
  case (3 fn k child rest depth s)
  from 3(3) obtain s1 where c: "visitStrings fn child k depth s = (None, s1)" "visitMembers fn rest depth s1 = (None, s')"
    by (auto split: prod.splits option.splits)
  from 3(1)[OF c(1)] 3(2)[OF c(1)[symmetric] refl c(2)] show ?case by (simp add: visitAll_append)
next
  case (5 fn child rest key depth s)
  from 5(3) obtain s1 where c: "visitStrings fn child key depth s = (None, s1)" "visitItems fn rest key depth s1 = (None, s')"
    by (auto split: prod.splits option.splits)
  from 5(1)[OF c(1)] 5(2)[OF c(1)[symmetric] refl c(2)] show ?case by (simp add: visitAll_append)
qed simp_all

lemma transformObject_run:
  "transformObject fn input s = (Inr x, s') \<Longrightarrow> runAll fn (memberStrings input) s = (Inr (memberStrings x), s')"
proof -
  assume run: "transformObject fn input s = (Inr x, s')"
  then obtain v where v: "transformStrings fn (VMap input) [] 0 s = (Inr v, s')"
    by (auto simp: transformObject_def split: prod.splits sum.splits anyValue.splits)
  then obtain ms where "v = VMap ms"
    by (subst (asm) transformStrings.simps) (auto split: if_splits prod.splits sum.splits)
  with v run have "v = VMap x" by (simp add: transformObject_def)
  with transform_strings_run(1)[OF v] show ?thesis by simp
qed

lemma liftFn_run: "liftFn fn key str s = (Inr x, s') \<Longrightarrow> runAll fn [(key, str)] s = (Inr [(key, x)], s')"
  by (auto simp: liftFn_def split: prod.splits sum.splits)

lemma transformPart_run:
  "transformPart fn part s = (None, part', s') \<Longrightarrow> runAll fn (partStrings part) s = (Inr (partStrings part'), s')"
  by (auto simp: transformPart_def partStrings_def split: cPart.splits option.splits prod.splits sum.splits
      dest: liftFn_run transformObject_run)

lemma transformCall_run:
  "transformCall fn call s = (None, call', s') \<Longrightarrow> runAll fn (callStrings call) s = (Inr (callStrings call'), s')"
  by (auto simp: transformCall_def callStrings_def split: prod.splits sum.splits dest: transformObject_run)

lemma inPlace_run:
  assumes "\<And>x x' s s'. step x s = (None, x', s') \<Longrightarrow> runAll fn (strs x) s = (Inr (strs x'), s')"
  shows "inPlace step xs s = (None, xs', s') \<Longrightarrow>
    runAll fn (concat (map strs xs)) s = (Inr (concat (map strs xs')), s')"
  by (induction xs arbitrary: s xs') (auto split: prod.splits option.splits intro!: runAll_append assms)

lemma parts_run:
  "inPlace (transformPart fn) ps s = (None, ps', s') \<Longrightarrow>
    runAll fn (concat (map partStrings ps)) s = (Inr (concat (map partStrings ps')), s')"
  by (rule inPlace_run) (rule transformPart_run)

lemma calls_run:
  "inPlace (transformCall fn) cs s = (None, cs', s') \<Longrightarrow>
    runAll fn (concat (map callStrings cs)) s = (Inr (concat (map callStrings cs')), s')"
  by (rule inPlace_run) (rule transformCall_run)

lemma transformMessageStrings_run:
  "transformMessageStrings fn msg s = (None, msg', s') \<Longrightarrow>
    runAll fn (messageStrings msg) s = (Inr (messageStrings msg'), s')"
  unfolding transformMessageStrings_def messageStrings_def
  by (auto split: prod.splits option.splits dest!: parts_run calls_run intro: runAll_append)

lemma messages_run:
  "inPlace (transformMessageStrings fn) ms s = (None, ms', s') \<Longrightarrow>
    runAll fn (concat (map messageStrings ms)) s = (Inr (concat (map messageStrings ms')), s')"
  by (rule inPlace_run) (rule transformMessageStrings_run)

lemma TransformRequestStrings_run:
  "TransformRequestStrings fn req s = (None, req', s') \<Longrightarrow>
    runAll fn (requestStrings req) s = (Inr (requestStrings req'), s')"
  unfolding TransformRequestStrings_def requestStrings_def
  by (auto split: prod.splits sum.splits simp: liftFn_def
      dest!: messages_run)

lemma TransformResponseStrings_run:
  "TransformResponseStrings fn resp s = (None, resp', s') \<Longrightarrow>
    runAll fn (responseStrings resp) s = (Inr (responseStrings resp'), s')"
  unfolding TransformResponseStrings_def responseStrings_def
  by (auto split: prod.splits dest: transformMessageStrings_run)

lemma visitPart_run: "visitPart fn part s = (None, s') \<Longrightarrow> visitAll fn (partStrings part) s = (None, s')"
  by (auto simp: visitPart_def partStrings_def liftVisit_def split: cPart.splits option.splits prod.splits
      dest: visit_strings_run(1))

lemma visitCall_run: "visitCall fn call s = (None, s') \<Longrightarrow> visitAll fn (callStrings call) s = (None, s')"
  by (auto simp: visitCall_def callStrings_def dest: visit_strings_run(1))

lemma visitEach_run:
  assumes "\<And>x s s'. step x s = (None, s') \<Longrightarrow> visitAll fn (strs x) s = (None, s')"
  shows "visitEach step xs s = (None, s') \<Longrightarrow> visitAll fn (concat (map strs xs)) s = (None, s')"
  by (induction xs arbitrary: s) (auto split: prod.splits option.splits simp: visitAll_append[OF assms])

lemma visit_parts_run:
  "visitEach (visitPart fn) ps s = (None, s') \<Longrightarrow> visitAll fn (concat (map partStrings ps)) s = (None, s')"
  by (rule visitEach_run) (rule visitPart_run)

lemma visit_calls_run:
  "visitEach (visitCall fn) cs s = (None, s') \<Longrightarrow> visitAll fn (concat (map callStrings cs)) s = (None, s')"
  by (rule visitEach_run) (rule visitCall_run)

lemma visitMessageStrings_run:
  "visitMessageStrings fn msg s = (None, s') \<Longrightarrow> visitAll fn (messageStrings msg) s = (None, s')"
  unfolding visitMessageStrings_def messageStrings_def
  by (auto split: prod.splits option.splits simp: visitAll_append dest!: visit_parts_run visit_calls_run)

lemma visit_messages_run:
  "visitEach (visitMessageStrings fn) ms s = (None, s') \<Longrightarrow>
    visitAll fn (concat (map messageStrings ms)) s = (None, s')"
  by (rule visitEach_run) (rule visitMessageStrings_run)

lemma VisitRequestStrings_run:
  "VisitRequestStrings fn req s = (None, s') \<Longrightarrow> visitAll fn (requestStrings req) s = (None, s')"
  unfolding VisitRequestStrings_def requestStrings_def
  by (auto split: prod.splits option.splits simp: liftVisit_def dest: visit_messages_run)

lemma VisitResponseStrings_run:
  "VisitResponseStrings fn resp s = (None, s') \<Longrightarrow> visitAll fn (responseStrings resp) s = (None, s')"
  unfolding VisitResponseStrings_def responseStrings_def by (rule visitMessageStrings_run)

text \<open>
  A rewriter whose calls all keep a relation between the strings seen so far and the state,
  and a visitor whose calls all establish a fact: what holds after a whole traversal.
\<close>

lemma runAll_keys: "runAll fn xs s = (Inr ys, s') \<Longrightarrow> map fst ys = map fst xs"
  by (induction fn xs s arbitrary: ys rule: runAll.induct) (auto split: prod.splits sum.splits)

lemma runAll_invariant:
  assumes "\<And>key str x s s' ys. I ys s \<Longrightarrow> fn key str s = (Inr x, s') \<Longrightarrow> I (ys @ [(key, x)]) s'"
  shows "runAll fn xs s = (Inr ys, s') \<Longrightarrow> I zs s \<Longrightarrow> I (zs @ ys) s'"
proof (induction xs arbitrary: s ys zs)
  case (Cons p xs)
  obtain key str where p: "p = (key, str)" by (cases p)
  from Cons.prems(1) p obtain x s1 rest where
    c: "fn key str s = (Inr x, s1)" "runAll fn xs s1 = (Inr rest, s')" "ys = (key, x) # rest"
    by (auto split: prod.splits sum.splits)
  from Cons.IH[OF c(2) assms[OF Cons.prems(2) c(1)]] c(3) show ?case by simp
qed simp

lemma visitAll_invariant:
  assumes "\<And>key str s s' ys. I ys s \<Longrightarrow> fn key str s = (None, s') \<Longrightarrow> I (ys @ [(key, str)]) s'"
  shows "visitAll fn xs s = (None, s') \<Longrightarrow> I zs s \<Longrightarrow> I (zs @ xs) s'"
proof (induction xs arbitrary: s zs)
  case (Cons p xs)
  obtain key str where p: "p = (key, str)" by (cases p)
  from Cons.prems(1) p obtain s1 where c: "fn key str s = (None, s1)" "visitAll fn xs s1 = (None, s')"
    by (auto split: prod.splits option.splits)
  from Cons.IH[OF c(2) assms[OF Cons.prems(2) c(1)]] p show ?case by simp
qed simp

text \<open>The final states of traversals, successful or not, keep what every call of the callback keeps.\<close>

lemma transform_strings_keep:
  assumes "\<And>key str s r s'. I s \<Longrightarrow> fn key str s = (r, s') \<Longrightarrow> I s'"
  shows "transformStrings fn v key depth s = (r, s') \<Longrightarrow> I s \<Longrightarrow> I s'"
    "transformMembers fn members depth s = (rm, s') \<Longrightarrow> I s \<Longrightarrow> I s'"
    "transformItems fn items key depth s = (ri, s') \<Longrightarrow> I s \<Longrightarrow> I s'"
  using assms
proof (induction fn v key depth s and fn members depth s and fn items key depth s
    arbitrary: r s' and rm s' and ri s'
    rule: transformStrings_transformMembers_transformItems.induct)
  case (1 fn v key depth s)
  note run = 1(3)[unfolded transformStrings.simps[of fn v]]
  show ?case
  proof (cases "depth > maxStringTraversalDepth")
    case False
    show ?thesis
    proof (cases v)
      case (VMap members)
      with run False obtain rm where "transformMembers fn members (Suc depth) s = (rm, s')"
        by (auto split: prod.splits sum.splits)
      from 1(1)[OF False VMap this 1(4,5)] show ?thesis .
    next
      case (VSlice items)
      with run False obtain ri where "transformItems fn items key (Suc depth) s = (ri, s')"
        by (auto split: prod.splits sum.splits)
      from 1(2)[OF False VSlice this 1(4,5)] show ?thesis .
    qed (use run False 1(4,5) in \<open>auto split: prod.splits sum.splits\<close>)
  qed (use run 1(4) in simp)
next
  case (3 fn k child rest depth s)
  obtain r1 s1 where c: "transformStrings fn child k depth s = (r1, s1)" by fastforce
  have i: "I s1" using 3(1)[OF c 3(4,5)] .
  show ?case
  proof (cases r1)
    case (Inr child')
    with 3(3) c obtain r2 where "transformMembers fn rest depth s1 = (r2, s')"
      by (auto split: prod.splits sum.splits)
    from 3(2)[OF c[symmetric] Inr this i 3(5)] show ?thesis .
  qed (use 3(3) c i in simp)
next
  case (5 fn child rest key depth s)
  obtain r1 s1 where c: "transformStrings fn child key depth s = (r1, s1)" by fastforce
  have i: "I s1" using 5(1)[OF c 5(4,5)] .
  show ?case
  proof (cases r1)
    case (Inr child')
    with 5(3) c obtain r2 where "transformItems fn rest key depth s1 = (r2, s')"
      by (auto split: prod.splits sum.splits)
    from 5(2)[OF c[symmetric] Inr this i 5(5)] show ?thesis .
  qed (use 5(3) c i in simp)
qed auto

lemma visit_strings_keep:
  assumes "\<And>key str s. I s \<Longrightarrow> I (snd (fn key str s))"
  shows "I s \<Longrightarrow> I (snd (visitStrings fn v key depth s))"
    "I s \<Longrightarrow> I (snd (visitMembers fn members depth s))"
    "I s \<Longrightarrow> I (snd (visitItems fn items key depth s))"
  using assms
proof (induction fn v key depth s and fn members depth s and fn items key depth s
    rule: visitStrings_visitMembers_visitItems.induct)
  case (1 fn v key depth s)
  have str: "fn key x s = (r, s') \<Longrightarrow> I s'" for x r s' using 1(4)[OF 1(3), of key x] by simp
  show ?case
    using 1(1)[OF _ _ 1(3) 1(4)] 1(2)[OF _ _ 1(3) 1(4)] 1(3) str
    by (subst visitStrings.simps) (auto split: anyValue.split prod.split)
next
  case (3 fn k child rest depth s)
  obtain r s1 where c: "visitStrings fn child k depth s = (r, s1)" by fastforce
  have "I s1" using 3(1)[OF 3(3,4)] c by simp
  then show ?case using c 3(2)[OF c[symmetric]] 3(4) by (auto split: option.split)
next
  case (5 fn child rest key depth s)
  obtain r s1 where c: "visitStrings fn child key depth s = (r, s1)" by fastforce
  have "I s1" using 5(1)[OF 5(3,4)] c by simp
  then show ?case using c 5(2)[OF c[symmetric]] 5(4) by (auto split: option.split)
qed auto

text \<open>The same for whole requests and responses: what every call keeps, a traversal keeps, failing or not.\<close>

lemma inPlace_keep:
  assumes step: "\<And>x s r x' s'. step x s = (r, x', s') \<Longrightarrow> I s \<Longrightarrow> I s'"
  shows "inPlace step xs s = (r, xs', s') \<Longrightarrow> I s \<Longrightarrow> I s'"
proof (induction xs arbitrary: s r xs' s')
  case (Cons x xs)
  obtain q x1 s1 where x: "step x s = (q, x1, s1)" by (cases "step x s") auto
  obtain q' xs1 s2 where xs: "inPlace step xs s1 = (q', xs1, s2)" by (cases "inPlace step xs s1") auto
  note k = step[OF x Cons.prems(2)] and k' = Cons.IH[OF xs step[OF x Cons.prems(2)]]
  show ?case using Cons.prems(1) k k' x xs
    by (auto split: option.splits)
qed simp

lemma visitEach_keep:
  assumes step: "\<And>x s r s'. step x s = (r, s') \<Longrightarrow> I s \<Longrightarrow> I s'"
  shows "visitEach step xs s = (r, s') \<Longrightarrow> I s \<Longrightarrow> I s'"
proof (induction xs arbitrary: s r s')
  case (Cons x xs)
  obtain q s1 where x: "step x s = (q, s1)" by (cases "step x s")
  show ?case using Cons.IH[of s1] Cons.prems step[OF x Cons.prems(2)] x by (auto split: option.splits)
qed simp

locale kept_rewriter =
  fixes I :: "'s \<Rightarrow> bool" and fn :: "('e, 's) rewriter"
  assumes keeps_fn: "I s \<Longrightarrow> fn key str s = (r, s') \<Longrightarrow> I s'"
begin

lemma keeps_liftFn: "liftFn fn key str s = (r, s') \<Longrightarrow> I s \<Longrightarrow> I s'"
  using keeps_fn by (auto simp: liftFn_def split: prod.splits sum.splits)

lemma keeps_object: "transformObject fn input s = (r, s') \<Longrightarrow> I s \<Longrightarrow> I s'"
proof -
  assume run: "transformObject fn input s = (r, s')" and i: "I s"
  obtain q s1 where q: "transformStrings fn (VMap input) [] 0 s = (q, s1)" by fastforce
  have "I s1" by (rule transform_strings_keep(1)[of I fn, OF keeps_fn q i])
  with run q show ?thesis by (auto simp: transformObject_def split: sum.splits anyValue.splits)
qed

lemma keeps_part: "transformPart fn part s = (r, part', s') \<Longrightarrow> I s \<Longrightarrow> I s'"
  by (auto simp: transformPart_def split: cPart.splits option.splits prod.splits sum.splits
      dest: keeps_liftFn keeps_object)

lemma keeps_call: "transformCall fn call s = (r, call', s') \<Longrightarrow> I s \<Longrightarrow> I s'"
  by (auto simp: transformCall_def split: prod.splits sum.splits dest: keeps_object)

lemma keeps_parts: "inPlace (transformPart fn) ps s = (r, ps', s') \<Longrightarrow> I s \<Longrightarrow> I s'"
  by (rule inPlace_keep[where I = I]) (rule keeps_part)

lemma keeps_calls: "inPlace (transformCall fn) cs s = (r, cs', s') \<Longrightarrow> I s \<Longrightarrow> I s'"
  by (rule inPlace_keep[where I = I]) (rule keeps_call)

lemma keeps_message: "transformMessageStrings fn msg s = (r, msg', s') \<Longrightarrow> I s \<Longrightarrow> I s'"
  by (auto simp: transformMessageStrings_def split: prod.splits option.splits dest: keeps_parts keeps_calls)

lemma keeps_messages: "inPlace (transformMessageStrings fn) ms s = (r, ms', s') \<Longrightarrow> I s \<Longrightarrow> I s'"
  by (rule inPlace_keep[where I = I]) (rule keeps_message)

lemma keeps_request: "TransformRequestStrings fn req s = (r, req', s') \<Longrightarrow> I s \<Longrightarrow> I s'"
  by (auto simp: TransformRequestStrings_def split: prod.splits sum.splits dest: keeps_liftFn keeps_messages)

lemma keeps_response: "TransformResponseStrings fn resp s = (r, resp', s') \<Longrightarrow> I s \<Longrightarrow> I s'"
  by (auto simp: TransformResponseStrings_def split: prod.splits dest: keeps_message)

end

locale kept_visitor =
  fixes I :: "'s \<Rightarrow> bool" and fn :: "('e, 's) visitor"
  assumes keeps_fn: "I s \<Longrightarrow> fn key str s = (r, s') \<Longrightarrow> I s'"
begin

lemma keeps_liftVisit: "liftVisit fn key str s = (r, s') \<Longrightarrow> I s \<Longrightarrow> I s'"
  using keeps_fn by (auto simp: liftVisit_def split: prod.splits)

lemma keeps_value: "visitStrings fn v key depth s = (r, s') \<Longrightarrow> I s \<Longrightarrow> I s'"
  using visit_strings_keep(1)[of I fn s v key depth] keeps_fn by (metis prod.collapse snd_conv)

lemma keeps_visitPart: "visitPart fn part s = (r, s') \<Longrightarrow> I s \<Longrightarrow> I s'"
  by (auto simp: visitPart_def split: cPart.splits option.splits dest: keeps_liftVisit keeps_value)

lemma keeps_visitParts: "visitEach (visitPart fn) ps s = (r, s') \<Longrightarrow> I s \<Longrightarrow> I s'"
  by (rule visitEach_keep[where I = I]) (rule keeps_visitPart)

lemma keeps_visitCall: "visitCall fn call s = (r, s') \<Longrightarrow> I s \<Longrightarrow> I s'"
  by (auto simp: visitCall_def dest: keeps_value)

lemma keeps_visitCalls: "visitEach (visitCall fn) cs s = (r, s') \<Longrightarrow> I s \<Longrightarrow> I s'"
  by (rule visitEach_keep[where I = I]) (rule keeps_visitCall)

lemma keeps_visitMessage: "visitMessageStrings fn msg s = (r, s') \<Longrightarrow> I s \<Longrightarrow> I s'"
  by (auto simp: visitMessageStrings_def split: prod.splits option.splits dest: keeps_visitParts keeps_visitCalls)

lemma keeps_visitMessages: "visitEach (visitMessageStrings fn) ms s = (r, s') \<Longrightarrow> I s \<Longrightarrow> I s'"
  by (rule visitEach_keep[where I = I]) (rule keeps_visitMessage)

lemma keeps_visitRequest: "VisitRequestStrings fn req s = (r, s') \<Longrightarrow> I s \<Longrightarrow> I s'"
  by (auto simp: VisitRequestStrings_def split: prod.splits option.splits dest: keeps_liftVisit keeps_visitMessages)

lemma keeps_visitResponse: "VisitResponseStrings fn resp s = (r, s') \<Longrightarrow> I s \<Longrightarrow> I s'"
  by (auto simp: VisitResponseStrings_def dest: keeps_visitMessage)

end

end
