(* ===== verification/PrivacyService.thy ===== *)
theory PrivacyService
  imports PrivacyActions PrivacyWalk
begin

text \<open>
  The privacy service on the way in (\<open>internal/privacy/service.go\<close>): profile resolution, the
  strict and the standard transformation of a request, the verification that nothing
  sensitive is left, and receipts.

  A method of the service is a function of the service state with a sum as its result: a
  value, a privacy error or a panic. The state is what one request sees: the scope store, the
  state of the request, the service's counters, the trace of observer callbacks, and the
  variables its closures share (counters of labels, the ordinal of the string). The Go
  interfaces \<open>Classifier\<close> and \<open>technicalMapping\<close> are fields of the configuration, as in the
  source. Observers are assumed not to panic, durations are not measured, and the calls of a
  request to the store are taken one after the other.
\<close>

section \<open>Configuration and state\<close>

record classifierImpl =
  cl_Classify :: "string \<Rightarrow> string \<Rightarrow> Finding list"
  cl_Candidates :: "(string \<Rightarrow> string \<Rightarrow> Finding list) option"

record svcConfig =
  cf_env :: goEnv
  cf_crypto :: cryptoEnv
  cf_clock :: "nat \<Rightarrow> gotime"
  cf_busy :: "nat \<Rightarrow> bool"
  cf_lifecycleID :: nat
  cf_DefaultProfile :: Profile
  cf_RequestProfiles :: "Profile list"
  cf_AliasKey :: string
  cf_SecretAction :: Action
  cf_TechnicalAction :: Action
  cf_PIIEnabled :: bool
  cf_PIIMode :: Action
  cf_PIIHashKey :: string
  cf_PIIEncryptKey :: string
  cf_PIIEntityActions :: "(string, Action) gomap"
  cf_Recognizers :: "string list"
  cf_NEREnabled :: bool
  cf_Classifier :: "classifierImpl option"
  cf_SecretClassifier :: bool
  cf_mapper :: "nat \<Rightarrow> string \<Rightarrow> string \<Rightarrow> Provenance \<Rightarrow> gotime \<Rightarrow> ScopeStore
                \<Rightarrow> (store_err + string) \<times> mappingOutcome \<times> ScopeStore"

datatype svcEvent =
    EvRequest Profile string string string
  | EvTransformation Profile string Action
  | EvRestoration Profile string string
  | EvBlock Profile string string
  | EvResidual string string
  | EvReceipt Profile string
  | EvMapping string string
  | EvScope string
  | EvCapacity string
  | EvInternal string

record outboundAuthorization =
  oa_occurrences :: "authorizedOccurrence list"
  oa_preserved :: "authorizedOccurrence list"
  oa_finalArtifacts :: "authorizedOccurrence list"
  oa_restored :: "authorizedOccurrence list"

record svcState =
  sv_store :: ScopeStore
  sv_hasStore :: bool
  sv_stamped :: bool
  sv_req :: RequestState
  sv_closed :: bool
  sv_requestsProtected :: nat
  sv_requestsBlocked :: nat
  sv_lastErrorCode :: string
  sv_ticks :: nat
  sv_rands :: nat
  sv_events :: "svcEvent list"
  sv_counters :: "(string, nat) gomap"
  sv_next :: "(string, nat) gomap"
  sv_ordinal :: nat
  sv_auth :: outboundAuthorization

datatype svcFail = Fail privacyError | GoPanic

type_synonym 'a svc = "svcState \<Rightarrow> (svcFail + 'a) \<times> svcState"

definition sret :: "'a \<Rightarrow> 'a svc" where "sret x s = (Inr x, s)"

definition sthrow :: "privacyError \<Rightarrow> 'a svc" where "sthrow e s = (Inl (Fail e), s)"

definition sbind :: "'a svc \<Rightarrow> ('a \<Rightarrow> 'b svc) \<Rightarrow> 'b svc" where
  "sbind m f s = (case m s of (Inl e, s1) \<Rightarrow> (Inl e, s1) | (Inr x, s1) \<Rightarrow> f x s1)"

definition sget :: "(svcState \<Rightarrow> 'a) \<Rightarrow> 'a svc" where "sget f s = (Inr (f s), s)"

definition smodify :: "(svcState \<Rightarrow> svcState) \<Rightarrow> unit svc" where "smodify f s = (Inr (), f s)"

definition updReq :: "(RequestState \<Rightarrow> RequestState) \<Rightarrow> unit svc" where
  "updReq f = smodify (\<lambda>s. s\<lparr>sv_req := f (sv_req s)\<rparr>)"

definition observe :: "svcEvent \<Rightarrow> unit svc" where
  "observe e = smodify (\<lambda>s. s\<lparr>sv_events := sv_events s @ [e]\<rparr>)"

definition ofOption :: "'a option \<Rightarrow> 'a svc" where
  "ofOption x s = (case x of Some y \<Rightarrow> (Inr y, s) | None \<Rightarrow> (Inl GoPanic, s))"

text \<open>A method of the request state that may refuse.\<close>

definition tryReq :: "privacyError \<Rightarrow> (RequestState \<Rightarrow> RequestState option) \<Rightarrow> unit svc" where
  "tryReq e f s = (case f (sv_req s) of Some r \<Rightarrow> (Inr (), s\<lparr>sv_req := r\<rparr>) | None \<Rightarrow> (Inl (Fail e), s))"

lemma sbind_Inr:
  "sbind m f s = (Inr y, s') \<longleftrightarrow> (\<exists>x s1. m s = (Inr x, s1) \<and> f x s1 = (Inr y, s'))"
  by (auto simp: sbind_def split: prod.splits sum.splits)

lemmas svc_inr = sbind_Inr sret_def sthrow_def sget_def smodify_def updReq_def observe_def

definition internalError :: "string \<Rightarrow> privacyError" where "internalError stage = mkError CodeInternalError stage"

definition tokenCapacityError :: privacyError where
  "tokenCapacityError = capacityErrorAt ''token'' (errCapacityExceeded capacityRequest)"

section \<open>Profiles\<close>

definition containsProfile :: "Profile list \<Rightarrow> Profile \<Rightarrow> bool" where
  "containsProfile profiles want = list_ex (\<lambda>p. p = want) profiles"

definition resolveProfile :: "svcConfig \<Rightarrow> RequestState option \<Rightarrow> privacyError + Profile" where
  "resolveProfile cf state =
    (let requested = (case state of Some r \<Rightarrow> md_RequestedProfile (rs_metadata r) | None \<Rightarrow> [])
     in if requested \<noteq> [] then
          (if \<not> validProfile requested \<or> \<not> containsProfile (cf_RequestProfiles cf) requested
           then Inl (mkError CodeProfileUnavailable ''profile'')
           else if cf_DefaultProfile cf = ProfileStrict \<or> requested = ProfileStrict then Inr ProfileStrict
           else Inr (cf_DefaultProfile cf))
        else Inr (cf_DefaultProfile cf))"

definition contextState :: "svcState \<Rightarrow> RequestState option" where
  "contextState s = (if sv_stamped s then Some (sv_req s) else None)"

section \<open>Actions\<close>

definition strictAction :: "svcConfig \<Rightarrow> Finding \<Rightarrow> Action" where
  "strictAction cf f =
    (if f_Category f = CategorySecret then cf_SecretAction cf
     else case gm_get (cf_PIIEntityActions cf) (f_Entity f) of
       Some a \<Rightarrow> a
     | None \<Rightarrow> if f_Category f = CategoryTechnical then cf_TechnicalAction cf else cf_PIIMode cf)"

definition actionFor :: "svcConfig \<Rightarrow> string \<Rightarrow> Action" where
  "actionFor cf entity = (case gm_get (cf_PIIEntityActions cf) entity of Some a \<Rightarrow> a | None \<Rightarrow> cf_PIIMode cf)"

definition encryptActive :: "svcConfig \<Rightarrow> bool" where
  "encryptActive cf \<longleftrightarrow> cf_PIIMode cf = ActionEncrypt \<or> list_ex (\<lambda>(_, a). a = ActionEncrypt) (cf_PIIEntityActions cf)"

fun addEntities :: "svcConfig \<Rightarrow> string list \<Rightarrow> string list \<Rightarrow> string list" where
  "addEntities cf [] acc = acc"
| "addEntities cf (e # es) acc =
    (if e \<in> set acc \<or> actionFor cf e \<noteq> ActionEncrypt then addEntities cf es acc else addEntities cf es (acc @ [e]))"

definition decryptEntities :: "svcConfig \<Rightarrow> string list" where
  "decryptEntities cf = addEntities cf (cf_Recognizers cf @ (if cf_NEREnabled cf then [''PERSON'', ''LOCATION''] else [])) []"

text \<open>The number of a label: the same for the same entity and normalised text within a request.\<close>

definition labelCounter :: "svcConfig \<Rightarrow> string \<Rightarrow> string \<Rightarrow> nat svc" where
  "labelCounter cf entity original =
    (let key = entity @ ''|'' @ CanonicalForm (cf_env cf) original
     in sbind (sget sv_counters) (\<lambda>counters.
          case gm_get counters key of
            Some n \<Rightarrow> sret n
          | None \<Rightarrow>
              sbind (sget sv_next) (\<lambda>next.
                let n = Suc (case gm_get next entity of Some k \<Rightarrow> k | None \<Rightarrow> 0)
                in sbind (smodify (\<lambda>s. s\<lparr>sv_next := gm_put entity n next, sv_counters := gm_put key n counters\<rparr>))
                     (\<lambda>_. sret n))))"

definition secretHMACDomain :: string where "secretHMACDomain = ''otto-gateway/privacy/secret-label/v1''"

definition tick :: "svcConfig \<Rightarrow> gotime svc" where
  "tick cf s = (Inr (cf_clock cf (sv_ticks s)), s\<lparr>sv_ticks := Suc (sv_ticks s)\<rparr>)"

fun observeMany :: "nat \<Rightarrow> svcEvent \<Rightarrow> unit svc" where
  "observeMany 0 e = sret ()"
| "observeMany (Suc n) e = sbind (observe e) (\<lambda>_. observeMany n e)"

text \<open>The scopes that expired, and the one that was created.\<close>

definition observeScopeOutcome :: "bool \<Rightarrow> nat list \<Rightarrow> unit svc" where
  "observeScopeOutcome created expired =
    sbind (observeMany (length expired) (EvScope ''expired'')) (\<lambda>_. if created then observe (EvScope ''created'') else sret ())"

definition mapTechnicalObserved :: "svcConfig \<Rightarrow> nat \<Rightarrow> string \<Rightarrow> string \<Rightarrow> Provenance \<Rightarrow> (store_err + string) svc" where
  "mapTechnicalObserved cf lease entity original provenance =
    sbind (tick cf) (\<lambda>now s.
      case cf_mapper cf lease entity original provenance now (sv_store s) of
        (r, outcome, store) \<Rightarrow>
          sbind (smodify (\<lambda>s. s\<lparr>sv_store := store\<rparr>)) (\<lambda>_.
          sbind (observeScopeOutcome False (mo_expired outcome)) (\<lambda>_.
          sbind (if isl r then sret () else observe (EvMapping ''lookup'' (if mo_created outcome then ''miss'' else ''hit''))) (\<lambda>_.
          sbind (observeMany (unat (mo_collisions outcome)) (EvMapping ''insert'' ''collision'')) (\<lambda>_.
          sbind (if \<not> isl r \<and> mo_created outcome then observe (EvMapping ''insert'' ''pass'') else sret ()) (\<lambda>_.
          sret r))))) s)"

definition isCapacity :: "store_err \<Rightarrow> bool" where
  "isCapacity e = (case e of errCapacityExceeded _ \<Rightarrow> True | _ \<Rightarrow> False)"

definition strictReplacement ::
  "svcConfig \<Rightarrow> nat \<Rightarrow> Finding \<Rightarrow> string \<Rightarrow> (string \<times> Action \<times> occurrenceKind option) svc" where
  "strictReplacement cf lease f original =
    (let action = strictAction cf f; env = cf_env cf; cr = cf_crypto cf
     in case action of
       ActionPseudonymize \<Rightarrow>
         sbind (mapTechnicalObserved cf lease (f_Entity f) original ProvenanceInput) (\<lambda>r.
           case r of
             Inl e \<Rightarrow> sthrow (if isCapacity e then capacityErrorAt ''mapping'' e else internalError ''mapping'')
           | Inr mapped \<Rightarrow> sret (mapped, action, None))
     | ActionDrop \<Rightarrow> sret ([], action, None)
     | ActionEncrypt \<Rightarrow>
         sbind (sget sv_rands) (\<lambda>i.
         sbind (smodify (\<lambda>s. s\<lparr>sv_rands := Suc i\<rparr>)) (\<lambda>_.
           case EncryptValue cr i (cf_PIIEncryptKey cf) (f_Entity f) original of
             None \<Rightarrow> sthrow (internalError ''encrypt'')
           | Some token \<Rightarrow>
               (case ParseEncryptedToken token of
                  None \<Rightarrow> sthrow tokenCapacityError
                | Some (_, payload) \<Rightarrow>
                    sbind (tryReq tokenCapacityError (authorizeToken token)) (\<lambda>_.
                    sbind (tryReq tokenCapacityError (authorizeToken payload)) (\<lambda>_.
                      sret (token, action, Some OccOpaque))))))
     | ActionReplace \<Rightarrow>
         if f_Category f = CategorySecret then
           sbind (sget (\<lambda>s. md_ScopeID (rs_metadata (sv_req s)))) (\<lambda>scopeID.
             let label = OneWaySecretLabel cr (cf_AliasKey cf) (secretHMACDomain @ CHR 0x00 # scopeID) (f_Entity f) original
             in sbind (tryReq tokenCapacityError (authorizeToken label)) (\<lambda>_. sret (label, action, Some OccOpaque)))
         else
           sbind (labelCounter cf (f_Entity f) original) (\<lambda>counter.
             let replacement = ApplyAction env cr 0 action (f_Entity f) original counter (cf_PIIHashKey cf) (cf_PIIEncryptKey cf)
             in sbind (tryReq tokenCapacityError (authorizeToken replacement)) (\<lambda>_. sret (replacement, action, Some OccGeneral)))
     | ActionMask \<Rightarrow>
         sret (ApplyAction env cr 0 action (f_Entity f) original 0 (cf_PIIHashKey cf) (cf_PIIEncryptKey cf), action, None)
     | ActionHash \<Rightarrow>
         (let replacement = ApplyAction env cr 0 action (f_Entity f) original 0 (cf_PIIHashKey cf) (cf_PIIEncryptKey cf)
          in sbind (tryReq tokenCapacityError (authorizeToken replacement)) (\<lambda>_. sret (replacement, action, Some OccGeneral)))
     | ActionUnknown _ \<Rightarrow> sthrow (internalError ''action''))"

section \<open>The strict transformation of a string\<close>

definition strictClassifierCandidates :: "classifierImpl \<Rightarrow> string \<Rightarrow> string \<Rightarrow> Finding list" where
  "strictClassifierCandidates c key v =
    (case cl_Candidates c of Some f \<Rightarrow> f key v | None \<Rightarrow> cl_Classify c key v)"

definition configuredFindings :: "svcConfig \<Rightarrow> string \<Rightarrow> string \<Rightarrow> Finding list" where
  "configuredFindings cf key v =
    (case cf_Classifier cf of Some c \<Rightarrow> strictClassifierCandidates c key v | None \<Rightarrow> [])"

definition secretFindings :: "svcConfig \<Rightarrow> string \<Rightarrow> string \<Rightarrow> Finding list svc" where
  "secretFindings cf key v =
    (if cf_SecretClassifier cf then ofOption (Classify (cf_env cf) key v) else sret [])"

definition validFindingRange :: "Finding \<Rightarrow> string \<Rightarrow> bool" where
  "validFindingRange f v \<longleftrightarrow> f_Start f \<ge> 0 \<and> f_End f \<le> int (length v) \<and> f_Start f < f_End f"

definition findingText :: "string \<Rightarrow> Finding \<Rightarrow> string" where
  "findingText v f = substr v (nat (f_Start f)) (nat (f_End f))"

definition spliceText :: "Finding \<Rightarrow> string \<Rightarrow> string \<Rightarrow> string" where
  "spliceText f replacement t = take (nat (f_Start f)) t @ replacement @ drop (nat (f_End f)) t"

text \<open>
  The accepted findings are rewritten from the last one to the first; the loop gets them in
  that order and collects the rewrites in source order.
\<close>

type_synonym rewrite = "string \<times> occurrenceKind option"

fun rewriteLoop ::
  "svcConfig \<Rightarrow> nat \<Rightarrow> string \<Rightarrow> Finding list \<Rightarrow> string \<Rightarrow> rewrite list \<Rightarrow> (string \<times> rewrite list) svc" where
  "rewriteLoop cf lease v [] transformed rewrites = sret (transformed, rewrites)"
| "rewriteLoop cf lease v (f # fs) transformed rewrites =
    (if \<not> validFindingRange f v then sthrow (internalError ''classify'')
     else sbind (strictReplacement cf lease f (findingText v f)) (\<lambda>(replacement, action, kind).
          sbind (updReq addTransformed) (\<lambda>_.
          sbind (observe (EvTransformation ProfileStrict (f_Entity f) action)) (\<lambda>_.
            rewriteLoop cf lease v fs (spliceText f replacement transformed) ((replacement, kind) # rewrites)))))"

fun authorizeLoop :: "nat \<Rightarrow> int \<Rightarrow> (Finding \<times> rewrite) list \<Rightarrow> unit svc" where
  "authorizeLoop ordinal shift [] = sret ()"
| "authorizeLoop ordinal shift ((f, replacement, kind) # rest) =
    (let finalStart = f_Start f + shift; finalEnd = finalStart + int (length replacement)
     in sbind (case kind of
                 None \<Rightarrow> sret ()
               | Some k \<Rightarrow> tryReq tokenCapacityError (authorizeOccurrence ordinal finalStart finalEnd k))
          (\<lambda>_. authorizeLoop ordinal (shift + int (length replacement) - (f_End f - f_Start f)) rest))"

definition nextOrdinal :: "nat svc" where
  "nextOrdinal s = (Inr (sv_ordinal s), s\<lparr>sv_ordinal := Suc (sv_ordinal s)\<rparr>)"

definition transformInboundString :: "svcConfig \<Rightarrow> nat \<Rightarrow> string \<Rightarrow> string \<Rightarrow> string svc" where
  "transformInboundString cf lease key v =
    sbind nextOrdinal (\<lambda>ordinal.
      if v = [] then sret v
      else sbind (secretFindings cf key v) (\<lambda>secrets.
           sbind (ofOption (Arbitrate (secrets @ configuredFindings cf key v))) (\<lambda>accepted.
             if accepted = [] then sret v
             else sbind (rewriteLoop cf lease v (rev accepted) v []) (\<lambda>(transformed, rewrites).
                  sbind (authorizeLoop ordinal 0 (zip accepted rewrites)) (\<lambda>_. sret transformed)))))"

section \<open>Reserved tokens\<close>

record reservedToken =
  rt_start :: nat
  rt_end :: nat
  rt_kind :: occurrenceKind
  rt_valid :: bool

definition isTokenIdentifierByte :: "char \<Rightarrow> bool" where "isTokenIdentifierByte c = isWordA c"

definition hasReservedNamespacePrefix :: "string \<Rightarrow> string \<Rightarrow> bool" where
  "hasReservedNamespacePrefix v namespace =
    (if length v < length namespace \<or> \<not> equalFold (take (length namespace) v) namespace then False
     else if length v = length namespace then True
     else \<not> isTokenIdentifierByte (v ! length namespace))"

definition reservedPrivacyEntities :: "string list" where
  "reservedPrivacyEntities =
    [''Email'', ''IPv4'', ''IPv6'', ''SSN'', ''CreditCard'', ''USPhone'', ''SIP_URI'',
     ''IMEI'', ''IMSI'', ''MSISDN'', ''MAC_ADDRESS'', ''COORDINATES'', ''SITE'',
     ''USAddress'', ''USState'', ''USZIP'', ''PERSON'', ''LOCATION'']"

definition hasReservedEntityPrefix :: "svcConfig \<Rightarrow> string \<Rightarrow> bool" where
  "hasReservedEntityPrefix cf tail =
    list_ex (hasReservedNamespacePrefix tail)
      (reservedPrivacyEntities @ cf_Recognizers cf @ map fst (cf_PIIEntityActions cf))"

definition rFoldClass :: "(char \<Rightarrow> bool) \<Rightarrow> re" where
  "rFoldClass P = rAny [RCls P, rLit [CHR 0xC5, CHR 0xBF], rLit [CHR 0xE2, CHR 0x84, CHR 0xAA]]"

definition reservedTokenLikePrefix :: re where
  "reservedTokenLikePrefix = rSeq [RBegin, rFoldClass isAlphaA, RStar (rFoldClass isWordA),
     rAny [rSeq [rLit ''_'', RCls isDigitA], rSeq [rLit '':'', rFold ''h'', rLit ''-'']]]"

definition isLabelByte :: "char \<Rightarrow> bool" where "isLabelByte c \<longleftrightarrow> isUpperA c \<or> isDigitA c \<or> c = CHR ''_''"

definition replacementTokenPattern :: re where
  "replacementTokenPattern = rSeq [RBegin, rLit ''['', RCls isUpperA, RStar (RCls isLabelByte), rLit ''_'',
     RCls (\<lambda>c. isDigitA c \<and> c \<noteq> CHR ''0''), RStar (RCls isDigitA), rLit '']'', REnd]"

definition isHexA :: "char \<Rightarrow> bool" where
  "isHexA c \<longleftrightarrow> isDigitA c \<or> inRange CHR ''A'' CHR ''F'' c \<or> inRange CHR ''a'' CHR ''f'' c"

definition hashTokenPattern :: re where
  "hashTokenPattern = rSeq [RBegin, rLit ''['', RCls isUpperA, RStar (RCls isLabelByte), rLit '':h-'',
     rTimes 8 (RCls isHexA), rLit '']'', REnd]"

definition piiTokenPattern :: re where
  "piiTokenPattern = rSeq [RBegin, rLit ''[PII:'', rPlus (RCls isWordA), rLit '':'', rPlus (RCls isDashWord), rLit '']'', REnd]"

definition reservedTokenAt :: "string \<Rightarrow> nat \<Rightarrow> nat option \<Rightarrow> reservedToken" where
  "reservedTokenAt v start relativeClose =
    (let e = (case relativeClose of Some c \<Rightarrow> start + c + 2 | None \<Rightarrow> length v);
         raw = substr v start e;
         general = relativeClose \<noteq> None \<and> (matchString replacementTokenPattern raw \<or> matchString hashTokenPattern raw);
         opaque = matchString secretTokenPattern raw \<or> matchString piiTokenPattern raw;
         valid = (if opaque then relativeClose \<noteq> None else general)
     in \<lparr>rt_start = start, rt_end = e, rt_kind = (if opaque then OccOpaque else OccGeneral),
         rt_valid = (valid \<and> \<not> (e < length v \<and> (v ! e = CHR ''_'' \<or> v ! e = CHR '':'')))\<rparr>)"

lemma indexByte_bound: "indexByte s c = Some i \<Longrightarrow> i < length s"
  by (auto simp: indexByte_def Let_def split: if_splits)

function parseLoop :: "svcConfig \<Rightarrow> string \<Rightarrow> nat \<Rightarrow> reservedToken list" where
  "parseLoop cf v offset =
    (if offset \<ge> length v then []
     else case indexByte (drop offset v) CHR ''['' of
       None \<Rightarrow> []
     | Some relativeStart \<Rightarrow>
         let start = offset + relativeStart;
             tail = drop (start + 1) v;
             relativeClose = indexByte tail CHR '']'';
             reserved = hasReservedNamespacePrefix tail ''SECRET'' \<or> hasReservedNamespacePrefix tail ''PII''
                      \<or> matchString reservedTokenLikePrefix tail \<or> hasReservedEntityPrefix cf tail
         in if \<not> reserved then parseLoop cf v (start + 1)
            else reservedTokenAt v start relativeClose
                 # (case relativeClose of None \<Rightarrow> [] | Some c \<Rightarrow> parseLoop cf v (start + c + 2)))"
  by pat_completeness auto
termination by (relation "measure (\<lambda>(cf, v, offset). length v - offset)") auto

declare parseLoop.simps [simp del]

definition parseReservedTokens :: "svcConfig \<Rightarrow> string \<Rightarrow> reservedToken list" where
  "parseReservedTokens cf v = parseLoop cf v 0"

section \<open>Receipts, blocking\<close>

definition countersReceipt :: "Profile \<Rightarrow> string \<Rightarrow> string \<Rightarrow> string \<Rightarrow> RequestState \<Rightarrow> Receipt" where
  "countersReceipt profile scope coverage result r =
    \<lparr>rc_Version = 1, rc_Profile = profile, rc_Scope = scope, rc_Coverage = coverage, rc_Result = result,
     rc_Transformed = nat (rs_transformed r), rc_Restored = nat (rs_restored r), rc_Blocked = nat (rs_blocked r)\<rparr>"

definition blockInbound :: "string \<Rightarrow> 'a svc" where
  "blockInbound reason =
    sbind (updReq (addBlocked 1)) (\<lambda>_.
    sbind (smodify (\<lambda>s. s\<lparr>sv_requestsBlocked := Suc (sv_requestsBlocked s)\<rparr>)) (\<lambda>_.
    sbind (observe (EvBlock ProfileStrict ''input'' reason)) (\<lambda>_.
    sbind (tryReq (internalError ''receipt'')
             (\<lambda>r. setReceipt (countersReceipt ProfileStrict (md_ScopeID (rs_metadata r)) ''input'' ''block'' r) r)) (\<lambda>_.
    sbind (observe (EvReceipt ProfileStrict ''block'')) (\<lambda>_.
      sthrow (mkError CodeInputBlocked ''input''))))))"

definition residualBlock :: "Finding \<Rightarrow> 'a svc" where
  "residualBlock f = sbind (observe (EvResidual ''input'' (f_Entity f))) (\<lambda>_. blockInbound ''residual'')"

section \<open>The verification of a string\<close>

definition resolveSynthetic :: "svcConfig \<Rightarrow> nat \<Rightarrow> string \<Rightarrow> string \<Rightarrow> MappingEntry option svc" where
  "resolveSynthetic cf lease entity synthetic =
    sbind (tick cf) (\<lambda>now s.
      case ResolveSynthetic lease entity synthetic now (sv_store s) of (r, store) \<Rightarrow> (Inr r, s\<lparr>sv_store := store\<rparr>))"

definition resolveOriginal :: "svcConfig \<Rightarrow> nat \<Rightarrow> string \<Rightarrow> string \<Rightarrow> MappingEntry option svc" where
  "resolveOriginal cf lease entity original =
    sbind (tick cf) (\<lambda>now s.
      case ResolveOriginal lease entity original now (sv_store s) of (r, store) \<Rightarrow> (Inr r, s\<lparr>sv_store := store\<rparr>))"

definition sameArtifactIdentity :: "Finding \<Rightarrow> Finding \<Rightarrow> bool" where
  "sameArtifactIdentity a b \<longleftrightarrow> f_Entity a = f_Entity b \<and> f_Category a = f_Category b \<and> f_Kind a = f_Kind b
    \<and> f_Start a = f_Start b \<and> f_End a = f_End b"

definition expectedOpaqueArtifact :: "svcConfig \<Rightarrow> string \<Rightarrow> string \<Rightarrow> authorizedOccurrence \<Rightarrow> Finding \<Rightarrow> bool svc" where
  "expectedOpaqueArtifact cf key v occ f =
    (if \<not> cf_SecretClassifier cf \<or> oc_start occ < 0 \<or> oc_end occ > int (length v) then sret False
     else sbind (ofOption (goSlice v (oc_start occ) (oc_end occ))) (\<lambda>token.
          sbind (ofOption (Classify (cf_env cf) key token)) (\<lambda>artifacts.
            let relative = f\<lparr>f_Start := f_Start f - oc_start occ, f_End := f_End f - oc_start occ\<rparr>
            in sret (list_ex (\<lambda>a. sameArtifactIdentity a relative) artifacts))))"

fun verifyTokens :: "nat \<Rightarrow> reservedToken list \<Rightarrow> unit svc" where
  "verifyTokens ordinal [] = sret ()"
| "verifyTokens ordinal (t # ts) =
    sbind (sget sv_req) (\<lambda>r.
      if \<not> rt_valid t \<or> \<not> occurrenceAtKind ordinal (int (rt_start t)) (int (rt_end t)) (rt_kind t) r
      then blockInbound ''token'' else verifyTokens ordinal ts)"

fun verifyConfigured :: "nat \<Rightarrow> string \<Rightarrow> Finding list \<Rightarrow> unit svc" where
  "verifyConfigured ordinal v [] = sret ()"
| "verifyConfigured ordinal v (f # fs) =
    (if \<not> validFindingRange f v then sthrow (internalError ''verify'')
     else sbind (sget sv_req) (\<lambda>r.
          if occurrenceContainingIn ordinal (f_Start f) (f_End f) (rs_authorizedOccurrences r) \<noteq> None
          then residualBlock f else verifyConfigured ordinal v fs))"

definition verifyFinding ::
  "svcConfig \<Rightarrow> nat \<Rightarrow> nat \<Rightarrow> string \<Rightarrow> string \<Rightarrow> Finding list \<Rightarrow> Finding \<Rightarrow> unit svc" where
  "verifyFinding cf lease ordinal key v secrets f =
    (if \<not> validFindingRange f v then sthrow (internalError ''verify'')
     else sbind (sget sv_req) (\<lambda>r.
       case occurrenceContainingIn ordinal (f_Start f) (f_End f) (rs_authorizedOccurrences r) of
         Some occ \<Rightarrow>
           if oc_kind occ = OccOpaque \<and> f \<in> set secrets
           then sbind (expectedOpaqueArtifact cf key v occ f) (\<lambda>ok. if ok then sret () else residualBlock f)
           else residualBlock f
       | None \<Rightarrow>
           if f_Category f = CategoryTechnical
           then sbind (resolveSynthetic cf lease (f_Entity f) (findingText v f)) (\<lambda>entry.
                  case entry of
                    Some en \<Rightarrow> if me_Synthetic en = findingText v f \<and> me_Provenance en = ProvenanceInput
                               then sret () else residualBlock f
                  | None \<Rightarrow> residualBlock f)
           else residualBlock f))"

fun verifyFindings ::
  "svcConfig \<Rightarrow> nat \<Rightarrow> nat \<Rightarrow> string \<Rightarrow> string \<Rightarrow> Finding list \<Rightarrow> Finding list \<Rightarrow> unit svc" where
  "verifyFindings cf lease ordinal key v secrets [] = sret ()"
| "verifyFindings cf lease ordinal key v secrets (f # fs) =
    sbind (verifyFinding cf lease ordinal key v secrets f) (\<lambda>_. verifyFindings cf lease ordinal key v secrets fs)"

definition verifyInboundString :: "svcConfig \<Rightarrow> nat \<Rightarrow> string \<Rightarrow> string \<Rightarrow> unit svc" where
  "verifyInboundString cf lease key v =
    sbind nextOrdinal (\<lambda>ordinal.
    sbind (verifyTokens ordinal (parseReservedTokens cf v)) (\<lambda>_.
    sbind (verifyConfigured ordinal v (configuredFindings cf key v)) (\<lambda>_.
    sbind (secretFindings cf key v) (\<lambda>secrets.
    sbind (ofOption (Arbitrate (secrets @ configuredFindings cf key v))) (\<lambda>accepted.
      verifyFindings cf lease ordinal key v secrets accepted)))))"

section \<open>A request in the strict profile\<close>

definition asRewriter :: "(string \<Rightarrow> string \<Rightarrow> string svc) \<Rightarrow> (svcFail, svcState) rewriter" where
  "asRewriter f key v s = f key v s"

definition asVisitor :: "(string \<Rightarrow> string \<Rightarrow> unit svc) \<Rightarrow> (svcFail, svcState) visitor" where
  "asVisitor f key v s = (case f key v s of (Inl e, s1) \<Rightarrow> (Some e, s1) | (Inr _, s1) \<Rightarrow> (None, s1))"

text \<open>An error of a traversal: a privacy error is passed on, any other one becomes an internal error of the stage.\<close>

definition walkFail :: "string \<Rightarrow> svcFail walkErr \<Rightarrow> svcFail" where
  "walkFail stage e = (case e of Callback f \<Rightarrow> f | TooDeep \<Rightarrow> Fail (internalError stage))"

definition releaseLease :: "svcConfig \<Rightarrow> unit svc" where
  "releaseLease cf =
    sbind (sget (\<lambda>s. rs_lease (sv_req s))) (\<lambda>lease.
    sbind (updReq (\<lambda>r. r\<lparr>rs_lease := None\<rparr>)) (\<lambda>_.
      case lease of
        None \<Rightarrow> sret ()
      | Some l \<Rightarrow> sbind (tick cf) (\<lambda>now. smodify (\<lambda>s. s\<lparr>sv_store := lease_Release l now (sv_store s)\<rparr>))))"

definition transformInbound :: "svcConfig \<Rightarrow> cRequest \<Rightarrow> svcState \<Rightarrow> svcFail option \<times> cRequest \<times> svcState" where
  "transformInbound cf req s =
    (case rs_lease (sv_req s) of
       None \<Rightarrow> (Some (Fail (internalError ''transform'')), req, s)
     | Some lease \<Rightarrow>
         let s0 = s\<lparr>sv_counters := [], sv_next := [], sv_ordinal := 0\<rparr>
         in (case TransformRequestStrings (asRewriter (transformInboundString cf lease)) req s0 of
               (Some e, req1, s1) \<Rightarrow> (Some (walkFail ''transform'' e), req1, s1)
             | (None, req1, s1) \<Rightarrow>
                 (case VisitRequestStrings (asVisitor (verifyInboundString cf lease)) req1 (s1\<lparr>sv_ordinal := 0\<rparr>) of
                    (Some (Callback e), s2) \<Rightarrow> (Some e, req1, s2)
                  | (Some TooDeep, s2) \<Rightarrow> (Some (Fail (mkError [] [])), req1, s2)
                  | (None, s2) \<Rightarrow> (None, req1, s2\<lparr>sv_requestsProtected := Suc (sv_requestsProtected s2)\<rparr>))))"

definition scopeErrorOf :: "store_err \<Rightarrow> privacyError" where
  "scopeErrorOf e =
    (case e of
       errScopeClosed \<Rightarrow> mkError CodeScopeClosed ''scope''
     | errCapacityExceeded r \<Rightarrow> capacityErrorAt ''scope'' (errCapacityExceeded r)
     | _ \<Rightarrow> internalError ''scope'')"

definition base32Char :: "nat \<Rightarrow> char" where
  "base32Char n = (if n < 26 then char_of (97 + n) else char_of (24 + n))"

text \<open>Sixteen random bytes in lower-case base32 without padding: groups of five bits, the last one filled with zeros.\<close>

definition base32Lower :: "string \<Rightarrow> string" where
  "base32Lower bytes =
    (let bits = concat (map (\<lambda>c. map (\<lambda>k. odd ((of_char c :: nat) div 2 ^ (7 - k))) [0..<8]) bytes);
         groups = map (\<lambda>g. map (\<lambda>k. 5 * g + k < length bits \<and> bits ! (5 * g + k)) [0..<5]) [0..<(length bits + 4) div 5]
     in map (\<lambda>g. base32Char (foldl (\<lambda>acc b. 2 * acc + (if b then 1 else 0)) 0 g)) groups)"

definition generateScopeID :: "svcConfig \<Rightarrow> string option svc" where
  "generateScopeID cf =
    sbind (sget sv_rands) (\<lambda>i.
    sbind (smodify (\<lambda>s. s\<lparr>sv_rands := Suc i\<rparr>)) (\<lambda>_.
      sret (map_option (\<lambda>random. ''req-'' @ base32Lower random) (cr_rand (cf_crypto cf) i 16))))"

text \<open>Everything of \<open>beforeStrict\<close> up to the lease: afterwards the lease is owned by the request state.\<close>

definition acquireLease :: "svcConfig \<Rightarrow> unit svc" where
  "acquireLease cf =
    sbind (sget sv_closed) (\<lambda>closed.
    if closed then sthrow (mkError CodeScopeClosed ''scope'')
    else sbind (sget (\<lambda>s. sv_stamped s \<and> sv_hasStore s)) (\<lambda>ready.
    if \<not> ready then sthrow (mkError CodeRequestInvalid ''scope'')
    else sbind (sget (\<lambda>s. rs_invalidScope (sv_req s))) (\<lambda>invalid.
    if invalid then sthrow (mkError CodeRequestInvalid ''scope'')
    else sbind (sget (\<lambda>s. md_ScopeID (rs_metadata (sv_req s)))) (\<lambda>given.
    sbind (if given \<noteq> [] then sret given
           else sbind (generateScopeID cf) (\<lambda>r. case r of
                  None \<Rightarrow> sthrow (internalError ''scope'')
                | Some scopeID \<Rightarrow> sbind (updReq (setScopeID scopeID)) (\<lambda>_. sret scopeID))) (\<lambda>scopeID.
    sbind (tick cf) (\<lambda>now s.
      case acquireObserved (cf_busy cf) scopeID ProfileStrict now (sv_store s) of
        (r, expired, store) \<Rightarrow>
          sbind (smodify (\<lambda>s. s\<lparr>sv_store := store\<rparr>)) (\<lambda>_.
          sbind (observeScopeOutcome (case r of Inr (_, created) \<Rightarrow> created | Inl _ \<Rightarrow> False) expired) (\<lambda>_.
            case r of
              Inl e \<Rightarrow> sthrow (scopeErrorOf e)
            | Inr (lease, _) \<Rightarrow>
                sbind (sget (\<lambda>s. rs_lease (sv_req s))) (\<lambda>held.
                  if held \<noteq> None
                  then sbind (tick cf) (\<lambda>now'. sbind (smodify (\<lambda>s. s\<lparr>sv_store := lease_Release lease now' (sv_store s)\<rparr>))
                         (\<lambda>_. sthrow (internalError ''scope'')))
                  else updReq (\<lambda>r. r\<lparr>rs_lease := Some lease\<rparr>)))) s))))))"

definition beforeStrict :: "svcConfig \<Rightarrow> cRequest \<Rightarrow> svcState \<Rightarrow> svcFail option \<times> cRequest \<times> svcState" where
  "beforeStrict cf req s =
    (case acquireLease cf s of
       (Inl e, s1) \<Rightarrow> (Some e, req, s1)
     | (Inr _, s1) \<Rightarrow>
         let s2 = s1\<lparr>sv_req := (sv_req s1)\<lparr>rs_validatedReplay := False, rs_profile := ProfileStrict\<rparr>\<rparr>;
             replayRequested = cr_stream req \<or> rs_streamRequested (sv_req s2)
         in (case transformInbound cf (req\<lparr>cr_stream := False\<rparr>) s2 of
               (Some e, req1, s3) \<Rightarrow> (Some e, req1, snd (releaseLease cf s3))
             | (None, req1, s3) \<Rightarrow>
                 (None, req1, s3\<lparr>sv_req := (sv_req s3)\<lparr>rs_validatedReplay := replayRequested\<rparr>\<rparr>)))"

section \<open>A request in the standard profile\<close>

fun standardLoop :: "svcConfig \<Rightarrow> string \<Rightarrow> int \<Rightarrow> Finding list \<Rightarrow> string svc" where
  "standardLoop cf v cursor [] = ofOption (goSlice v cursor (int (length v)))"
| "standardLoop cf v cursor (f # fs) =
    (if f_Start f < cursor \<or> \<not> validFindingRange f v then standardLoop cf v cursor fs
     else let original = findingText v f; action = actionFor cf (f_Entity f)
          in sbind (labelCounter cf (f_Entity f) original) (\<lambda>counter.
             sbind (ofOption (goSlice v cursor (f_Start f))) (\<lambda>before.
             sbind (sget sv_rands) (\<lambda>i.
             sbind (smodify (\<lambda>s. if action = ActionEncrypt then s\<lparr>sv_rands := Suc i\<rparr> else s)) (\<lambda>_.
             sbind (smodify (\<lambda>s. if sv_stamped s then s\<lparr>sv_req := addTransformed (sv_req s)\<rparr> else s)) (\<lambda>_.
             sbind (observe (EvTransformation ProfileStandard (f_Entity f) action)) (\<lambda>_.
             sbind (standardLoop cf v (f_End f) fs) (\<lambda>rest.
               sret (before @ ApplyAction (cf_env cf) (cf_crypto cf) i action (f_Entity f) original counter
                                (cf_PIIHashKey cf) (cf_PIIEncryptKey cf) @ rest)))))))))"

definition transformStandardValue :: "svcConfig \<Rightarrow> string \<Rightarrow> string \<Rightarrow> string svc" where
  "transformStandardValue cf key v =
    (case cf_Classifier cf of
       None \<Rightarrow> sret v
     | Some c \<Rightarrow>
         if v = [] \<or> cl_Classify c key v = [] then sret v
         else standardLoop cf v 0 (sliceStable start_less (cl_Classify c key v)))"

text \<open>\<open>walkCompatibilityStrings\<close>: below the depth bound values are copied unchanged.\<close>

fun walkCompatibilityStrings :: "(string \<Rightarrow> string svc) \<Rightarrow> anyValue \<Rightarrow> nat \<Rightarrow> anyValue svc"
and walkCompatibilityMembers :: "(string \<Rightarrow> string svc) \<Rightarrow> valueMap \<Rightarrow> nat \<Rightarrow> valueMap svc"
and walkCompatibilityItems :: "(string \<Rightarrow> string svc) \<Rightarrow> anyValue list \<Rightarrow> nat \<Rightarrow> anyValue list svc"
where
  "walkCompatibilityStrings fn v depth s =
    (if depth > 64 then sret v s
     else case v of
       VStr str \<Rightarrow> sbind (fn str) (\<lambda>x. sret (VStr x)) s
     | VMap members \<Rightarrow> sbind (walkCompatibilityMembers fn members (Suc depth)) (\<lambda>x. sret (VMap x)) s
     | VSlice items \<Rightarrow> sbind (walkCompatibilityItems fn items (Suc depth)) (\<lambda>x. sret (VSlice x)) s
     | VOther n \<Rightarrow> sret v s)"
| "walkCompatibilityMembers fn [] depth s = sret [] s"
| "walkCompatibilityMembers fn ((k, child) # rest) depth s =
    sbind (walkCompatibilityStrings fn child depth) (\<lambda>child'.
    sbind (walkCompatibilityMembers fn rest depth) (\<lambda>rest'. sret ((k, child') # rest'))) s"
| "walkCompatibilityItems fn [] depth s = sret [] s"
| "walkCompatibilityItems fn (child # rest) depth s =
    sbind (walkCompatibilityStrings fn child depth) (\<lambda>child'.
    sbind (walkCompatibilityItems fn rest depth) (\<lambda>rest'. sret (child' # rest'))) s"

definition walkObject :: "(string \<Rightarrow> string \<Rightarrow> string svc) \<Rightarrow> valueMap \<Rightarrow> valueMap svc" where
  "walkObject fn input =
    sbind (walkCompatibilityStrings (fn []) (VMap input) 0) (\<lambda>v. case v of VMap m \<Rightarrow> sret m | _ \<Rightarrow> sret input)"

fun mapSvc :: "('a \<Rightarrow> 'b svc) \<Rightarrow> 'a list \<Rightarrow> 'b list svc" where
  "mapSvc f [] = sret []"
| "mapSvc f (x # xs) = sbind (f x) (\<lambda>y. sbind (mapSvc f xs) (\<lambda>ys. sret (y # ys)))"

definition transformStandardPart :: "(string \<Rightarrow> string \<Rightarrow> string svc) \<Rightarrow> cPart \<Rightarrow> cPart svc" where
  "transformStandardPart fn part =
    (case part of
       CText str \<Rightarrow> sbind (fn ''text'' str) (\<lambda>x. sret (CText x))
     | CToolUse (Some u) \<Rightarrow> sbind (walkObject fn (tu_input u)) (\<lambda>x. sret (CToolUse (Some (u\<lparr>tu_input := x\<rparr>))))
     | CToolResult (Some r) \<Rightarrow> sbind (fn ''content'' (tr_content r)) (\<lambda>x. sret (CToolResult (Some (r\<lparr>tr_content := x\<rparr>))))
     | _ \<Rightarrow> sret part)"

definition transformStandardMessage :: "(string \<Rightarrow> string \<Rightarrow> string svc) \<Rightarrow> bool \<Rightarrow> cMessage \<Rightarrow> cMessage svc" where
  "transformStandardMessage fn toolCalls msg =
    sbind (mapSvc (transformStandardPart fn) (cm_content msg)) (\<lambda>content.
    sbind (if toolCalls
           then mapSvc (\<lambda>c. sbind (walkObject fn (cc_arguments c)) (\<lambda>x. sret (c\<lparr>cc_arguments := x\<rparr>))) (cm_toolCalls msg)
           else sret (cm_toolCalls msg)) (\<lambda>calls.
      sret (msg\<lparr>cm_content := content, cm_toolCalls := calls\<rparr>)))"

definition transformStandardRequest :: "(string \<Rightarrow> string \<Rightarrow> string svc) \<Rightarrow> cRequest \<Rightarrow> cRequest svc" where
  "transformStandardRequest fn req =
    sbind (fn ''system'' (cr_system req)) (\<lambda>sys.
    sbind (mapSvc (transformStandardMessage fn False) (cr_messages req)) (\<lambda>msgs.
      sret (req\<lparr>cr_system := sys, cr_messages := msgs\<rparr>)))"

definition setStandardReceipt :: "string \<Rightarrow> unit svc" where
  "setStandardReceipt coverage =
    sbind (sget sv_stamped) (\<lambda>stamped.
      if \<not> stamped then sret ()
      else sbind (sget (\<lambda>s. setReceipt (countersReceipt ProfileStandard (md_ScopeID (rs_metadata (sv_req s))) coverage ''pass''
                                          (sv_req s)) (sv_req s))) (\<lambda>r.
             case r of
               None \<Rightarrow> sbind (observe (EvReceipt ProfileStandard ''error'')) (\<lambda>_. sthrow (internalError ''receipt''))
             | Some req \<Rightarrow> sbind (smodify (\<lambda>s. s\<lparr>sv_req := req\<rparr>)) (\<lambda>_. observe (EvReceipt ProfileStandard ''pass''))))"

definition requestMeta :: "svcState \<Rightarrow> string \<times> string" where
  "requestMeta s =
    (if sv_stamped s then (md_Surface (rs_metadata (sv_req s)), md_Workload (rs_metadata (sv_req s))) else ([], []))"

definition observeRequest :: "Profile \<Rightarrow> string \<Rightarrow> unit svc" where
  "observeRequest profile result =
    sbind (sget requestMeta) (\<lambda>(surface, workload). observe (EvRequest profile surface workload result))"

definition onState :: "(RequestState \<Rightarrow> RequestState) \<Rightarrow> unit svc" where
  "onState f = smodify (\<lambda>s. if sv_stamped s then s\<lparr>sv_req := f (sv_req s)\<rparr> else s)"

text \<open>A request whose transformation panics keeps what was rewritten in place; the model keeps the request as it came.\<close>

definition beforeStandard :: "svcConfig \<Rightarrow> cRequest \<Rightarrow> cRequest svc" where
  "beforeStandard cf req =
    sbind (onState (\<lambda>r. r\<lparr>rs_profile := ProfileStandard, rs_validatedReplay := False\<rparr>)) (\<lambda>_.
    let req0 = (if encryptActive cf \<and> cr_stream req then req\<lparr>cr_stream := False\<rparr> else req)
    in sbind (smodify (\<lambda>s. s\<lparr>sv_counters := [], sv_next := []\<rparr>)) (\<lambda>_.
       sbind (transformStandardRequest (transformStandardValue cf) req0) (\<lambda>req1.
       sbind (setStandardReceipt ''input'') (\<lambda>_.
       sbind (smodify (\<lambda>s. s\<lparr>sv_requestsProtected := Suc (sv_requestsProtected s)\<rparr>)) (\<lambda>_.
       sbind (observeRequest ProfileStandard ''pass'') (\<lambda>_.
       sbind (onState (\<lambda>r. r\<lparr>rs_standardInboundService := cf_lifecycleID cf\<rparr>)) (\<lambda>_.
         sret req1)))))))"

section \<open>Before\<close>

text \<open>The profile an error is reported under.\<close>

definition reportProfile :: "svcConfig \<Rightarrow> Profile \<Rightarrow> svcState \<Rightarrow> Profile" where
  "reportProfile cf resolved s =
    (let p1 = (if \<not> validProfile resolved \<and> sv_stamped s then rs_profile (sv_req s) else resolved);
         p2 = (if \<not> validProfile p1 then cf_DefaultProfile cf else p1)
     in if \<not> validProfile p2 then ProfileStandard else p2)"

definition finalizeInboundErrorReceipt :: "svcConfig \<Rightarrow> Profile \<Rightarrow> svcState \<Rightarrow> svcState" where
  "finalizeInboundErrorReceipt cf resolved s =
    (if \<not> sv_stamped s then s
     else let profile = reportProfile cf resolved s; r = sv_req s
          in case setReceiptIfEmpty (countersReceipt profile (failureReceiptScopeID r) ''input'' ''error'' r) r of
               None \<Rightarrow> s
             | Some (False, _) \<Rightarrow> s
             | Some (True, r') \<Rightarrow> snd (observe (EvReceipt profile ''error'') (s\<lparr>sv_req := r'\<rparr>)))"

definition capacityResourceName :: "privacyError \<Rightarrow> string" where
  "capacityResourceName e =
    (case pe_Cause e of
       Some (errCapacityExceeded capacityScope) \<Rightarrow> ''scope''
     | Some (errCapacityExceeded capacityPerScope) \<Rightarrow> ''per_scope''
     | Some (errCapacityExceeded capacityRequest) \<Rightarrow> ''per_scope''
     | _ \<Rightarrow> ''global'')"

definition observeRequestFailure :: "svcConfig \<Rightarrow> Profile \<Rightarrow> privacyError \<Rightarrow> svcState \<Rightarrow> svcState" where
  "observeRequestFailure cf resolved e s =
    (let profile = reportProfile cf resolved s;
         s1 = (case ErrorInfo e of Some (_, code) \<Rightarrow> s\<lparr>sv_lastErrorCode := code\<rparr> | None \<Rightarrow> s);
         result = (if pe_Code e = CodeInputBlocked \<or> pe_Code e = CodeOutputBlocked then ''block'' else ''error'');
         s2 = (if pe_Code e = CodeCapacityExceeded then snd (observe (EvCapacity (capacityResourceName e)) s1) else s1);
         s3 = (if pe_Code e = CodeInternalError then snd (observe (EvInternal (pe_Stage e)) s2) else s2)
     in snd (observeRequest profile result s3))"

definition recoverInboundPanic :: "svcConfig \<Rightarrow> svcState \<Rightarrow> svcState" where
  "recoverInboundPanic cf s =
    (let s1 = (if sv_stamped s then snd (releaseLease cf s) else s) in s1\<lparr>sv_lastErrorCode := CodeInternalError\<rparr>)"

text \<open>The deferred function of \<open>Before\<close>: a panic becomes an internal error; an error gets a receipt and is reported.\<close>

definition finishBefore ::
  "svcConfig \<Rightarrow> Profile \<Rightarrow> svcFail option \<Rightarrow> svcState \<Rightarrow> privacyError option \<times> svcState" where
  "finishBefore cf resolved r s =
    (case r of
       None \<Rightarrow> (None, s)
     | Some fail \<Rightarrow>
         let (e, s1) = (case fail of
                Fail e \<Rightarrow> (e, s)
              | GoPanic \<Rightarrow> (internalError ''input'', recoverInboundPanic cf s))
         in (Some e, observeRequestFailure cf resolved e (finalizeInboundErrorReceipt cf resolved s1)))"

definition Before :: "svcConfig \<Rightarrow> cRequest \<Rightarrow> svcState \<Rightarrow> privacyError option \<times> cRequest \<times> svcState" where
  "Before cf req s =
    (case resolveProfile cf (contextState s) of
       Inl e \<Rightarrow> (case finishBefore cf [] (Some (Fail e)) s of (r, s') \<Rightarrow> (r, req, s'))
     | Inr profile \<Rightarrow>
         if \<not> cf_PIIEnabled cf then (None, req, s)
         else if profile = ProfileStrict then
           (case beforeStrict cf req s of (f, req1, s1) \<Rightarrow>
              (case finishBefore cf profile f s1 of (r, s') \<Rightarrow> (r, req1, s')))
         else
           (case beforeStandard cf req s of
              (Inl f, s1) \<Rightarrow> (case finishBefore cf profile (Some f) s1 of (r, s') \<Rightarrow> (r, req, s'))
            | (Inr req1, s1) \<Rightarrow> (None, req1, s1)))"

end
