(* ===== verification/PrivacyOutbound.thy ===== *)
theory PrivacyOutbound
  imports PrivacyService
begin

text \<open>
  The privacy service on the way out (\<open>internal/privacy/service.go\<close>, \<open>After\<close>): the strict
  profile rewrites what the model generated, verifies the result, restores what this request
  replaced and checks the outcome, on a copy of the response; the standard profile restores
  encrypted tokens in place.
\<close>

section \<open>Tokens and aliases\<close>

text \<open>Whether an occurrence of a token covers a span; occurrences are searched from the left without overlap.\<close>

function coveredFrom :: "string \<Rightarrow> string \<Rightarrow> int \<Rightarrow> int \<Rightarrow> nat \<Rightarrow> bool" where
  "coveredFrom v token a b offset =
    (if token = [] \<or> offset \<ge> length v then False
     else if take (length token) (drop offset v) = token
     then (if a \<ge> int offset \<and> b \<le> int (offset + length token) then True
           else coveredFrom v token a b (offset + length token))
     else coveredFrom v token a b (Suc offset))"
  by pat_completeness auto
termination by (relation "measure (\<lambda>(v, token, a, b, offset). length v - offset)")
  (auto simp: not_le intro!: diff_less_mono2 dest: length_greater_0_conv [THEN iffD2])

declare coveredFrom.simps [simp del]

definition tokenFindingAuthorized :: "RequestState \<Rightarrow> string \<Rightarrow> Finding \<Rightarrow> bool" where
  "tokenFindingAuthorized r v f = list_ex (\<lambda>token. coveredFrom v token (f_Start f) (f_End f) 0) (rs_authorizedTokens r)"

text \<open>
  \<open>netip\<close> is the argument \<open>inRange\<close>: whether a text parses as an address inside one of the
  reserved networks.
\<close>

record netEnv =
  ne_in198 :: "string \<Rightarrow> bool"
  ne_inDB8 :: "string \<Rightarrow> bool"

definition trimSuffix :: "string \<Rightarrow> string \<Rightarrow> string" where
  "trimSuffix v t = (if length t \<le> length v \<and> drop (length v - length t) v = t then take (length v - length t) v else v)"

fun hasSub :: "string \<Rightarrow> string \<Rightarrow> bool" where
  "hasSub [] t \<longleftrightarrow> t = []"
| "hasSub (c # v) t \<longleftrightarrow> take (length t) (c # v) = t \<or> hasSub v t"

definition reservedTechnicalAlias :: "netEnv \<Rightarrow> string \<Rightarrow> string \<Rightarrow> bool" where
  "reservedTechnicalAlias net entity v =
    (if entity = ''IPv4'' then ne_in198 net (trimSuffix v ''/15'')
     else if entity = ''IPv6'' then ne_inDB8 net v
     else if entity = ''SIP_URI'' then hasSub v ''@gw.invalid''
     else if entity = ''SITE'' then hasSub v ''-SYN-''
     else False)"

definition restorationEntity :: "string \<Rightarrow> string" where
  "restorationEntity token =
    (if hasPrefix token ''[PII:'' then
       (case indexByte (drop 5 token) CHR '':'' of
          Some (Suc i) \<Rightarrow> take (Suc i) (drop 5 token)
        | _ \<Rightarrow> ''other'')
     else ''other'')"

definition bareEncryptedPayloadRE :: re where
  "bareEncryptedPayloadRE = rAtLeast 38 (RCls isDashWord)"

definition blockOutbound :: "string \<Rightarrow> 'a svc" where
  "blockOutbound reason =
    sbind (updReq (addBlocked 1)) (\<lambda>_.
    sbind (smodify (\<lambda>s. s\<lparr>sv_requestsBlocked := Suc (sv_requestsBlocked s)\<rparr>)) (\<lambda>_.
    sbind (observe (EvBlock ProfileStrict ''output'' reason)) (\<lambda>_.
      sthrow (mkError CodeOutputBlocked ''output''))))"

definition updAuth :: "(outboundAuthorization \<Rightarrow> outboundAuthorization) \<Rightarrow> unit svc" where
  "updAuth f = smodify (\<lambda>s. s\<lparr>sv_auth := f (sv_auth s)\<rparr>)"

definition occurrence :: "nat \<Rightarrow> int \<Rightarrow> int \<Rightarrow> occurrenceKind \<Rightarrow> authorizedOccurrence" where
  "occurrence ordinal a b k = \<lparr>oc_ordinal = ordinal, oc_start = a, oc_end = b, oc_kind = k\<rparr>"

section \<open>Rewriting what the model generated\<close>

fun checkReserved :: "string \<Rightarrow> reservedToken list \<Rightarrow> unit svc" where
  "checkReserved v [] = sret ()"
| "checkReserved v (t # ts) =
    (let raw = substr v (rt_start t) (rt_end t)
     in sbind (sget sv_req) (\<lambda>r.
          if \<not> rt_valid t \<or> \<not> tokenAuthorized raw r
          then sbind (observe (EvRestoration ProfileStrict (restorationEntity raw) ''rejected'')) (\<lambda>_. blockOutbound ''token'')
          else checkReserved v ts))"

datatype outRewrite = Unchanged | Rewritten string bool

text \<open>What happens to one finding: left alone, or replaced by a text that may have to be authorised.\<close>

definition outboundReplacement ::
  "svcConfig \<Rightarrow> netEnv \<Rightarrow> nat \<Rightarrow> Finding \<Rightarrow> string \<Rightarrow> (outRewrite \<times> Action) svc" where
  "outboundReplacement cf net lease f original =
    (case f_Category f of
       CategorySecret \<Rightarrow> blockOutbound ''secret''
     | CategoryTechnical \<Rightarrow>
         sbind (resolveSynthetic cf lease (f_Entity f) original) (\<lambda>syn.
           if (case syn of Some en \<Rightarrow> me_Synthetic en = original | None \<Rightarrow> False)
           then sret (Unchanged, ActionPseudonymize)
           else sbind (resolveOriginal cf lease (f_Entity f) original) (\<lambda>orig.
             if (case orig of Some en \<Rightarrow> me_Provenance en = ProvenanceInput | None \<Rightarrow> False)
             then blockOutbound ''original''
             else if reservedTechnicalAlias net (f_Entity f) original
             then sbind (observe (EvRestoration ProfileStrict (f_Entity f) ''rejected'')) (\<lambda>_. blockOutbound ''alias'')
             else sbind (mapTechnicalObserved cf lease (f_Entity f) original ProvenanceGenerated) (\<lambda>r.
                    case r of
                      Inl e \<Rightarrow> sthrow (if isCapacity e then capacityErrorAt ''mapping'' e else internalError ''mapping'')
                    | Inr mapped \<Rightarrow> sret (Rewritten mapped False, ActionPseudonymize))))
     | CategoryPersonal \<Rightarrow>
         sbind (labelCounter cf (f_Entity f) original) (\<lambda>counter.
           sret (Rewritten (ApplyAction (cf_env cf) (cf_crypto cf) 0 ActionReplace (f_Entity f) original counter [] []) True,
                 ActionReplace)))"

fun outboundLoop ::
  "svcConfig \<Rightarrow> netEnv \<Rightarrow> nat \<Rightarrow> string \<Rightarrow> Finding list \<Rightarrow> string \<Rightarrow> outRewrite list \<Rightarrow> (string \<times> outRewrite list) svc" where
  "outboundLoop cf net lease v [] transformed rewrites = sret (transformed, rewrites)"
| "outboundLoop cf net lease v (f # fs) transformed rewrites =
    (if \<not> validFindingRange f v then sthrow (internalError ''output'')
     else sbind (sget sv_req) (\<lambda>r.
       if tokenFindingAuthorized r v f then outboundLoop cf net lease v fs transformed (Unchanged # rewrites)
       else sbind (outboundReplacement cf net lease f (findingText v f)) (\<lambda>(rw, action).
         case rw of
           Unchanged \<Rightarrow> outboundLoop cf net lease v fs transformed (Unchanged # rewrites)
         | Rewritten replacement authorize \<Rightarrow>
             sbind (updReq addTransformed) (\<lambda>_.
             sbind (observe (EvTransformation ProfileStrict (f_Entity f) action)) (\<lambda>_.
               outboundLoop cf net lease v fs (spliceText f replacement transformed) (rw # rewrites))))))"

definition authorizeOutbound :: "nat \<Rightarrow> int \<Rightarrow> int \<Rightarrow> unit svc" where
  "authorizeOutbound ordinal a b =
    sbind (sget (\<lambda>s. length (oa_occurrences (sv_auth s)))) (\<lambda>n.
      if n \<ge> maxAuthorizedTokens then sthrow tokenCapacityError
      else updAuth (\<lambda>oa. oa\<lparr>oa_occurrences := oa_occurrences oa @ [occurrence ordinal a b OccGeneral]\<rparr>))"

fun authorizeOutboundLoop :: "nat \<Rightarrow> int \<Rightarrow> (Finding \<times> outRewrite) list \<Rightarrow> unit svc" where
  "authorizeOutboundLoop ordinal shift [] = sret ()"
| "authorizeOutboundLoop ordinal shift ((f, Unchanged) # rest) = authorizeOutboundLoop ordinal shift rest"
| "authorizeOutboundLoop ordinal shift ((f, Rewritten replacement authorize) # rest) =
    (let finalStart = f_Start f + shift; finalEnd = finalStart + int (length replacement)
     in sbind (if authorize then authorizeOutbound ordinal finalStart finalEnd else sret ())
          (\<lambda>_. authorizeOutboundLoop ordinal (shift + int (length replacement) - (f_End f - f_Start f)) rest))"

definition prepareOutboundString :: "svcConfig \<Rightarrow> netEnv \<Rightarrow> nat \<Rightarrow> string \<Rightarrow> string \<Rightarrow> string svc" where
  "prepareOutboundString cf net lease key v =
    sbind nextOrdinal (\<lambda>ordinal.
    sbind (checkReserved v (parseReservedTokens cf v)) (\<lambda>_.
    sbind (secretFindings cf key v) (\<lambda>secrets.
    sbind (ofOption (Arbitrate (secrets @ configuredFindings cf key v))) (\<lambda>accepted.
    sbind (outboundLoop cf net lease v (rev accepted) v []) (\<lambda>(transformed, rewrites).
    sbind (authorizeOutboundLoop ordinal 0 (zip accepted rewrites)) (\<lambda>_. sret transformed))))))"

section \<open>Verifying the rewritten response\<close>

fun verifyOutTokens :: "nat \<Rightarrow> string \<Rightarrow> reservedToken list \<Rightarrow> unit svc" where
  "verifyOutTokens ordinal v [] = sret ()"
| "verifyOutTokens ordinal v (t # ts) =
    (let raw = substr v (rt_start t) (rt_end t)
     in sbind (sget (\<lambda>s. tokenAuthorized raw (sv_req s))) (\<lambda>known.
        sbind (sget (\<lambda>s. occurrenceAtIn ordinal (int (rt_start t)) (int (rt_end t)) (oa_occurrences (sv_auth s)))) (\<lambda>placed.
          if \<not> rt_valid t \<or> \<not> known \<and> \<not> placed then blockOutbound ''token''
          else sbind (if known \<and> ParseEncryptedToken raw = None then
                        sbind (sget (\<lambda>s. length (oa_preserved (sv_auth s)))) (\<lambda>n.
                          if n \<ge> maxAuthorizedTokens then sthrow tokenCapacityError
                          else updAuth (\<lambda>oa. oa\<lparr>oa_preserved := oa_preserved oa
                                 @ [occurrence ordinal (int (rt_start t)) (int (rt_end t)) (rt_kind t)]\<rparr>))
                      else sret ()) (\<lambda>_. verifyOutTokens ordinal v ts))))"

fun verifyPayloads :: "string list \<Rightarrow> unit svc" where
  "verifyPayloads [] = sret ()"
| "verifyPayloads (p # ps) =
    sbind (sget (\<lambda>s. tokenAuthorized p (sv_req s))) (\<lambda>known.
      if \<not> known then sbind (observe (EvRestoration ProfileStrict ''other'' ''rejected'')) (\<lambda>_. blockOutbound ''token'')
      else verifyPayloads ps)"

definition outResidual :: "Finding \<Rightarrow> 'a svc" where
  "outResidual f = sbind (observe (EvResidual ''output'' (f_Entity f))) (\<lambda>_. blockOutbound ''residual'')"

fun verifyOutFindings :: "svcConfig \<Rightarrow> nat \<Rightarrow> nat \<Rightarrow> string \<Rightarrow> Finding list \<Rightarrow> unit svc" where
  "verifyOutFindings cf lease ordinal v [] = sret ()"
| "verifyOutFindings cf lease ordinal v (f # fs) =
    (if \<not> validFindingRange f v then sthrow (internalError ''output'')
     else sbind (sget (\<lambda>s. occurrenceContainingIn ordinal (f_Start f) (f_End f) (oa_occurrences (sv_auth s)) \<noteq> None
                            \<or> tokenFindingAuthorized (sv_req s) v f)) (\<lambda>covered.
       if covered then verifyOutFindings cf lease ordinal v fs
       else if f_Category f = CategoryTechnical
       then sbind (resolveSynthetic cf lease (f_Entity f) (findingText v f)) (\<lambda>syn.
              if (case syn of Some en \<Rightarrow> me_Synthetic en = findingText v f | None \<Rightarrow> False)
              then verifyOutFindings cf lease ordinal v fs else outResidual f)
       else outResidual f))"

definition barePayloads :: "string \<Rightarrow> string list" where
  "barePayloads v = map (\<lambda>(a, b, c). substr v a b) (findAll bareEncryptedPayloadRE v)"

definition verifyOutboundString :: "svcConfig \<Rightarrow> nat \<Rightarrow> string \<Rightarrow> string \<Rightarrow> unit svc" where
  "verifyOutboundString cf lease key v =
    sbind nextOrdinal (\<lambda>ordinal.
    sbind (verifyOutTokens ordinal v (parseReservedTokens cf v)) (\<lambda>_.
    sbind (verifyPayloads (barePayloads v)) (\<lambda>_.
    sbind (secretFindings cf key v) (\<lambda>secrets.
    sbind (ofOption (Arbitrate (secrets @ configuredFindings cf key v))) (\<lambda>accepted.
      verifyOutFindings cf lease ordinal v accepted)))))"

section \<open>Restoring\<close>

record restoration =
  re_start :: int
  re_end :: int
  re_replacement :: string
  re_entity :: string

text \<open>Wrapped tokens of this request that decrypt.\<close>

definition wrappedRestorations :: "svcConfig \<Rightarrow> RequestState \<Rightarrow> string \<Rightarrow> restoration list" where
  "wrappedRestorations cf r v =
    List.map_filter (\<lambda>(a, b, c).
        let token = substr v a b
        in if \<not> tokenAuthorized token r then None
           else case findFrom wrappedTokenRE token 0 of
             None \<Rightarrow> None
           | Some (_, _, c') \<Rightarrow>
               let entity = groupText token c' 1; payload = groupText token c' 2
               in if \<not> tokenAuthorized payload r then None
                  else case DecryptToken (cf_crypto cf) (cf_PIIEncryptKey cf) entity payload of
                    Inl _ \<Rightarrow> None
                  | Inr plaintext \<Rightarrow> Some \<lparr>re_start = int a, re_end = int b, re_replacement = plaintext, re_entity = entity\<rparr>)
      (findAll wrappedTokenRE v)"

fun firstDecrypting :: "svcConfig \<Rightarrow> string list \<Rightarrow> string \<Rightarrow> (string \<times> string) option" where
  "firstDecrypting cf [] payload = None"
| "firstDecrypting cf (e # es) payload =
    (case DecryptToken (cf_crypto cf) (cf_PIIEncryptKey cf) e payload of
       Inl _ \<Rightarrow> firstDecrypting cf es payload
     | Inr plaintext \<Rightarrow> Some (e, plaintext))"

definition bareRestorations :: "svcConfig \<Rightarrow> RequestState \<Rightarrow> (int \<times> int) list \<Rightarrow> string \<Rightarrow> restoration list" where
  "bareRestorations cf r wrapped v =
    List.map_filter (\<lambda>(a, b, c).
        if list_ex (\<lambda>(x, y). int a \<ge> x \<and> int b \<le> y) wrapped then None
        else let payload = substr v a b
             in if \<not> tokenAuthorized payload r then None
                else map_option (\<lambda>(e, plaintext). \<lparr>re_start = int a, re_end = int b, re_replacement = plaintext, re_entity = e\<rparr>)
                       (firstDecrypting cf (decryptEntities cf) payload))
      (findAll bareEncryptedPayloadRE v)"

fun technicalRestorations ::
  "svcConfig \<Rightarrow> nat \<Rightarrow> string \<Rightarrow> Finding list \<Rightarrow> restoration list \<Rightarrow> restoration list svc" where
  "technicalRestorations cf lease v [] acc = sret acc"
| "technicalRestorations cf lease v (f # fs) acc =
    (if f_Category f \<noteq> CategoryTechnical \<or> \<not> validFindingRange f v then technicalRestorations cf lease v fs acc
     else sbind (resolveSynthetic cf lease (f_Entity f) (findingText v f)) (\<lambda>syn.
       case syn of
         None \<Rightarrow> technicalRestorations cf lease v fs acc
       | Some en \<Rightarrow>
           if me_Provenance en \<noteq> ProvenanceInput \<or> me_Synthetic en \<noteq> findingText v f
              \<or> list_ex (\<lambda>x. f_Start f < re_end x \<and> re_start x < f_End f) acc
           then technicalRestorations cf lease v fs acc
           else technicalRestorations cf lease v fs
                  (acc @ [\<lparr>re_start = f_Start f, re_end = f_End f, re_replacement = me_Original en, re_entity = f_Entity f\<rparr>])))"

definition restorationLess :: "restoration \<Rightarrow> restoration \<Rightarrow> bool" where
  "restorationLess a b \<longleftrightarrow> re_start a < re_start b"

fun restorationsApart :: "restoration list \<Rightarrow> bool" where
  "restorationsApart (a # b # rest) \<longleftrightarrow> \<not> re_start b < re_end a \<and> restorationsApart (b # rest)"
| "restorationsApart _ \<longleftrightarrow> True"

definition spliceRestoration :: "restoration \<Rightarrow> string \<Rightarrow> string" where
  "spliceRestoration x t = take (nat (re_start x)) t @ re_replacement x @ drop (nat (re_end x)) t"

fun recordRestored :: "nat \<Rightarrow> int \<Rightarrow> restoration list \<Rightarrow> unit svc" where
  "recordRestored ordinal shift [] = sret ()"
| "recordRestored ordinal shift (x # xs) =
    (let finalStart = re_start x + shift; finalEnd = finalStart + int (length (re_replacement x))
     in sbind (sget (\<lambda>s. length (oa_restored (sv_auth s)))) (\<lambda>n.
        if n \<ge> maxAuthorizedTokens then sthrow tokenCapacityError
        else sbind (updAuth (\<lambda>oa. oa\<lparr>oa_restored := oa_restored oa @ [occurrence ordinal finalStart finalEnd OccGeneral]\<rparr>)) (\<lambda>_.
             sbind (updReq (addRestored 1)) (\<lambda>_.
             sbind (observe (EvRestoration ProfileStrict (re_entity x) ''pass'')) (\<lambda>_.
             sbind (observe (EvMapping ''restore'' ''pass'')) (\<lambda>_.
               recordRestored ordinal (shift + int (length (re_replacement x)) - (re_end x - re_start x)) xs))))))"

text \<open>An artifact of the rewritten text, moved by the restorations before it; \<open>None\<close> if one overlaps it.\<close>

fun translateArtifact :: "authorizedOccurrence \<Rightarrow> authorizedOccurrence \<Rightarrow> restoration list \<Rightarrow> authorizedOccurrence option" where
  "translateArtifact occ translated [] = Some translated"
| "translateArtifact occ translated (x # xs) =
    (if re_end x \<le> oc_start occ then
       (let delta = int (length (re_replacement x)) - (re_end x - re_start x)
        in translateArtifact occ (translated\<lparr>oc_start := oc_start translated + delta, oc_end := oc_end translated + delta\<rparr>) xs)
     else if re_start x < oc_end occ \<and> oc_start occ < re_end x then None
     else translateArtifact occ translated xs)"

fun translateLoop :: "nat \<Rightarrow> restoration list \<Rightarrow> authorizedOccurrence list \<Rightarrow> unit svc" where
  "translateLoop ordinal rs [] = sret ()"
| "translateLoop ordinal rs (occ # rest) =
    (if oc_ordinal occ \<noteq> ordinal then translateLoop ordinal rs rest
     else case translateArtifact occ occ rs of
       None \<Rightarrow> sthrow (internalError ''output'')
     | Some translated \<Rightarrow>
         sbind (sget (\<lambda>s. length (oa_finalArtifacts (sv_auth s)))) (\<lambda>n.
           if n \<ge> 2 * maxAuthorizedTokens then sthrow tokenCapacityError
           else sbind (updAuth (\<lambda>oa. oa\<lparr>oa_finalArtifacts := oa_finalArtifacts oa @ [translated]\<rparr>)) (\<lambda>_.
                  translateLoop ordinal rs rest)))"

definition gatherRestorations :: "svcConfig \<Rightarrow> nat \<Rightarrow> string \<Rightarrow> string \<Rightarrow> restoration list svc" where
  "gatherRestorations cf lease key v =
    sbind (sget sv_req) (\<lambda>r.
      let wrapped = wrappedRestorations cf r v;
          bare = bareRestorations cf r (map (\<lambda>x. (re_start x, re_end x)) wrapped) v
      in sbind (case cf_Classifier cf of
                  None \<Rightarrow> sret []
                | Some c \<Rightarrow> ofOption (Arbitrate (strictClassifierCandidates c key v))) (\<lambda>findings.
         sbind (technicalRestorations cf lease v findings (wrapped @ bare)) (\<lambda>rs.
           sret (sliceStable restorationLess rs))))"

definition restoreOutboundString :: "svcConfig \<Rightarrow> nat \<Rightarrow> string \<Rightarrow> string \<Rightarrow> string svc" where
  "restoreOutboundString cf lease key v =
    sbind nextOrdinal (\<lambda>ordinal.
    sbind (gatherRestorations cf lease key v) (\<lambda>rs.
      if \<not> restorationsApart rs then sthrow (internalError ''output'')
      else sbind (recordRestored ordinal 0 rs) (\<lambda>_.
           sbind (sget (\<lambda>s. oa_occurrences (sv_auth s) @ oa_preserved (sv_auth s))) (\<lambda>artifacts.
           sbind (translateLoop ordinal rs artifacts) (\<lambda>_.
             sret (foldr spliceRestoration rs v))))))"

section \<open>The final check\<close>

definition outboundIPv4Pattern :: re where
  "outboundIPv4Pattern = rSeq [RWordB, rTimes 3 (RSeq (rBetween 1 3 (RCls isDigitA)) (rLit ''.'')),
     rBetween 1 3 (RCls isDigitA), RWordB]"

fun integrityTokens :: "nat \<Rightarrow> reservedToken list \<Rightarrow> unit svc" where
  "integrityTokens ordinal [] = sret ()"
| "integrityTokens ordinal (t # ts) =
    sbind (sget (\<lambda>s. occurrenceAtIn ordinal (int (rt_start t)) (int (rt_end t)) (oa_finalArtifacts (sv_auth s))
                   \<or> occurrenceContainingIn ordinal (int (rt_start t)) (int (rt_end t)) (oa_restored (sv_auth s)) \<noteq> None)) (\<lambda>known.
      if \<not> rt_valid t \<or> \<not> known then blockOutbound ''integrity'' else integrityTokens ordinal ts)"

fun integrityAddresses :: "svcConfig \<Rightarrow> netEnv \<Rightarrow> nat \<Rightarrow> nat \<Rightarrow> string \<Rightarrow> (nat \<times> nat) list \<Rightarrow> unit svc" where
  "integrityAddresses cf net lease ordinal v [] = sret ()"
| "integrityAddresses cf net lease ordinal v ((a, b) # rest) =
    (let text = substr v a b
     in if \<not> ne_in198 net text then integrityAddresses cf net lease ordinal v rest
        else sbind (resolveSynthetic cf lease ''IPv4'' text) (\<lambda>syn.
             sbind (sget (\<lambda>s. occurrenceContainingIn ordinal (int a) (int b) (oa_restored (sv_auth s)) \<noteq> None)) (\<lambda>restored.
               if \<not> restored \<and> (case syn of None \<Rightarrow> True | Some en \<Rightarrow> me_Provenance en \<noteq> ProvenanceGenerated)
               then blockOutbound ''integrity'' else integrityAddresses cf net lease ordinal v rest)))"

definition integrityString :: "svcConfig \<Rightarrow> netEnv \<Rightarrow> nat \<Rightarrow> string \<Rightarrow> string \<Rightarrow> unit svc" where
  "integrityString cf net lease key v =
    sbind nextOrdinal (\<lambda>ordinal.
    sbind (integrityTokens ordinal (parseReservedTokens cf v)) (\<lambda>_.
      integrityAddresses cf net lease ordinal v (map (\<lambda>(a, b, c). (a, b)) (findAll outboundIPv4Pattern v))))"

section \<open>The strict response\<close>

definition emptyAuthorization :: outboundAuthorization where
  "emptyAuthorization = \<lparr>oa_occurrences = [], oa_preserved = [], oa_finalArtifacts = [], oa_restored = []\<rparr>"

definition resetOrdinal :: "svcState \<Rightarrow> svcState" where "resetOrdinal s = s\<lparr>sv_ordinal := 0\<rparr>"

text \<open>The four passes, each one over the result of the previous one.\<close>

definition transformOutbound :: "svcConfig \<Rightarrow> netEnv \<Rightarrow> cResponse \<Rightarrow> svcState \<Rightarrow> svcFail option \<times> cResponse \<times> svcState" where
  "transformOutbound cf net resp s =
    (case rs_lease (sv_req s) of
       None \<Rightarrow> (Some (Fail (internalError ''output'')), resp, s)
     | Some lease \<Rightarrow>
         (case TransformResponseStrings (asRewriter (prepareOutboundString cf net lease)) resp
                 (s\<lparr>sv_counters := [], sv_next := [], sv_ordinal := 0, sv_auth := emptyAuthorization\<rparr>) of
            (Some e, r1, s1) \<Rightarrow> (Some (walkFail ''output'' e), r1, s1)
          | (None, r1, s1) \<Rightarrow>
              (case VisitResponseStrings (asVisitor (verifyOutboundString cf lease)) r1 (resetOrdinal s1) of
                 (Some e, s2) \<Rightarrow> (Some (walkFail ''output'' e), r1, s2)
               | (None, s2) \<Rightarrow>
                   (case TransformResponseStrings (asRewriter (restoreOutboundString cf lease)) r1 (resetOrdinal s2) of
                      (Some (Callback GoPanic), r3, s3) \<Rightarrow> (Some GoPanic, r3, s3)
                    | (Some _, r3, s3) \<Rightarrow> (Some (Fail (internalError ''output'')), r3, s3)
                    | (None, r3, s3) \<Rightarrow>
                        (case VisitResponseStrings (asVisitor (integrityString cf net lease)) r3 (resetOrdinal s3) of
                           (Some e, s4) \<Rightarrow> (Some (walkFail ''output'' e), r3, s4)
                         | (None, s4) \<Rightarrow> (None, r3, s4))))))"

definition setStrictReceipt :: "string \<Rightarrow> unit svc" where
  "setStrictReceipt result =
    (let coverage = (if result = ''pass'' \<or> result = ''block'' then ''full'' else ''input'')
     in sbind (tryReq (internalError ''output'')
                 (\<lambda>r. setReceipt (countersReceipt ProfileStrict (md_ScopeID (rs_metadata r)) coverage result r) r)) (\<lambda>_.
        observe (EvReceipt ProfileStrict result)))"

text \<open>The copy of a response fails only on a value nested too deeply.\<close>

fun valueTooDeep :: "anyValue \<Rightarrow> nat \<Rightarrow> bool" and membersTooDeep :: "valueMap \<Rightarrow> nat \<Rightarrow> bool"
and itemsTooDeep :: "anyValue list \<Rightarrow> nat \<Rightarrow> bool"
where
  "valueTooDeep v depth =
    (if depth > maxStringTraversalDepth then True
     else case v of
       VStr str \<Rightarrow> False
     | VMap members \<Rightarrow> membersTooDeep members (Suc depth)
     | VSlice items \<Rightarrow> itemsTooDeep items (Suc depth)
     | VOther n \<Rightarrow> False)"
| "membersTooDeep [] depth = False"
| "membersTooDeep ((k, child) # rest) depth = (valueTooDeep child depth \<or> membersTooDeep rest depth)"
| "itemsTooDeep [] depth = False"
| "itemsTooDeep (child # rest) depth = (valueTooDeep child depth \<or> itemsTooDeep rest depth)"

declare valueTooDeep.simps [simp del]

definition cloneChatResponse :: "cResponse \<Rightarrow> cResponse option" where
  "cloneChatResponse resp =
    (if list_ex (\<lambda>p. case p of CToolUse (Some u) \<Rightarrow> valueTooDeep (VMap (tu_input u)) 0 | _ \<Rightarrow> False) (cm_content (cp_message resp))
      \<or> list_ex (\<lambda>c. valueTooDeep (VMap (cc_arguments c)) 0) (cm_toolCalls (cp_message resp))
     then None else Some resp)"

text \<open>The deferred functions of the strict branch, in the order they run: the error's receipt and report, then the lease.\<close>

definition finishStrictAfter ::
  "svcConfig \<Rightarrow> svcFail \<Rightarrow> svcState \<Rightarrow> privacyError option \<times> svcState" where
  "finishStrictAfter cf fail s =
    (let e = (case fail of Fail e \<Rightarrow> e | GoPanic \<Rightarrow> internalError ''output'');
         result = (if pe_Code e = CodeOutputBlocked then ''block'' else ''error'')
     in case setStrictReceipt result s of
          (Inl (Fail e'), s1) \<Rightarrow> (Some e', snd (releaseLease cf (observeRequestFailure cf ProfileStrict e' s1)))
        | (Inl GoPanic, s1) \<Rightarrow> (Some e, snd (releaseLease cf s1))
        | (Inr _, s1) \<Rightarrow> (Some e, snd (releaseLease cf (observeRequestFailure cf ProfileStrict e s1))))"

definition afterStrict ::
  "svcConfig \<Rightarrow> netEnv \<Rightarrow> cResponse option \<Rightarrow> svcState \<Rightarrow> privacyError option \<times> cResponse option \<times> svcState" where
  "afterStrict cf net resp s =
    (case resp of
       None \<Rightarrow>
         (case setStrictReceipt ''error'' s of
            (Inl fail, s1) \<Rightarrow> (case finishStrictAfter cf fail s1 of (r, s2) \<Rightarrow> (r, resp, s2))
          | (Inr _, s1) \<Rightarrow> (None, resp, snd (releaseLease cf (snd (observeRequest ProfileStrict ''error'' s1)))))
     | Some original \<Rightarrow>
         (case cloneChatResponse original of
            None \<Rightarrow> (case finishStrictAfter cf (Fail (internalError ''output'')) s of (r, s2) \<Rightarrow> (r, resp, s2))
          | Some working \<Rightarrow>
              (case transformOutbound cf net working s of
                 (Some fail, _, s1) \<Rightarrow> (case finishStrictAfter cf fail s1 of (r, s2) \<Rightarrow> (r, resp, s2))
               | (None, working', s1) \<Rightarrow>
                   (case setStrictReceipt ''pass'' s1 of
                      (Inl fail, s2) \<Rightarrow> (case finishStrictAfter cf fail s2 of (r, s3) \<Rightarrow> (r, resp, s3))
                    | (Inr _, s2) \<Rightarrow>
                        (None, Some working', snd (releaseLease cf (snd (observeRequest ProfileStrict ''pass'' s2))))))))"

section \<open>The standard response\<close>

definition restoreWrapped :: "svcConfig \<Rightarrow> string \<Rightarrow> (restoration list \<times> svcEvent list)" where
  "restoreWrapped cf v =
    (let found = map (\<lambda>(a, b, c).
           let token = substr v a b; entity = restorationEntity token
           in case findFrom wrappedTokenRE token 0 of
                None \<Rightarrow> (None, EvRestoration ProfileStandard entity ''miss'')
              | Some (_, _, c') \<Rightarrow>
                  (case DecryptToken (cf_crypto cf) (cf_PIIEncryptKey cf) (groupText token c' 1) (groupText token c' 2) of
                     Inl _ \<Rightarrow> (None, EvRestoration ProfileStandard entity ''miss'')
                   | Inr plaintext \<Rightarrow>
                       (Some \<lparr>re_start = int a, re_end = int b, re_replacement = plaintext, re_entity = entity\<rparr>,
                        EvRestoration ProfileStandard entity ''pass'')))
         (findAll wrappedTokenRE v)
     in (List.map_filter fst found, map snd found))"

definition restoreBare :: "svcConfig \<Rightarrow> string list \<Rightarrow> string \<Rightarrow> (restoration list \<times> svcEvent list)" where
  "restoreBare cf entities v =
    (let wrapped = map (\<lambda>(a, b, c). (a, b)) (findAll wrappedTokenRE v);
         found = List.map_filter (\<lambda>(a, b, c).
           if list_ex (\<lambda>(x, y). a \<ge> x \<and> b \<le> y) wrapped then None
           else case firstDecrypting cf entities (substr v a b) of
                  None \<Rightarrow> Some (None, EvRestoration ProfileStandard ''other'' ''miss'')
                | Some (e, plaintext) \<Rightarrow>
                    Some (if plaintext = [] then (None, EvRestoration ProfileStandard e ''miss'')
                          else (Some \<lparr>re_start = int a, re_end = int b, re_replacement = plaintext, re_entity = e\<rparr>,
                                EvRestoration ProfileStandard e ''pass'')))
         (findAll bareEncryptedPayloadRE v)
     in (List.map_filter fst found, map snd found))"

fun observeAll :: "svcEvent list \<Rightarrow> unit svc" where
  "observeAll [] = sret ()"
| "observeAll (e # es) = sbind (observe e) (\<lambda>_. observeAll es)"

definition restoreStandardValue :: "svcConfig \<Rightarrow> string list \<Rightarrow> string \<Rightarrow> string svc" where
  "restoreStandardValue cf entities v =
    (let (wrapped, ev1) = restoreWrapped cf v; (bare, ev2) = restoreBare cf entities v;
         rs = sliceStable restorationLess (wrapped @ bare)
     in sbind (observeAll (ev1 @ ev2)) (\<lambda>_.
        sbind (onState (\<lambda>r. foldr (\<lambda>_. addRestored 1) rs r)) (\<lambda>_.
          sret (foldr spliceRestoration rs v))))"

section \<open>After\<close>

definition After ::
  "svcConfig \<Rightarrow> netEnv \<Rightarrow> cResponse option \<Rightarrow> svcState \<Rightarrow> privacyError option \<times> cResponse option \<times> svcState" where
  "After cf net resp s =
    (if \<not> cf_PIIEnabled cf then (None, resp, s)
     else if sv_stamped s \<and> rs_profile (sv_req s) = ProfileStrict then
       (case beginAfter (sv_req s) of
          None \<Rightarrow> (None, resp, s)
        | Some r \<Rightarrow> afterStrict cf net resp (s\<lparr>sv_req := r\<rparr>))
     else case resp of
       None \<Rightarrow> (None, None, s)
     | Some original \<Rightarrow>
         if sv_stamped s \<and> \<not> standardInboundPassed (cf_lifecycleID cf) (sv_req s) then (None, resp, s)
         else (case (if encryptActive cf
                     then transformStandardMessage (\<lambda>_ v. restoreStandardValue cf (decryptEntities cf) v) True (cp_message original)
                     else sret (cp_message original)) s of
                 (Inl _, s1) \<Rightarrow> (Some (internalError ''output''), resp, s1)
               | (Inr msg, s1) \<Rightarrow>
                   (case setStandardReceipt ''input'' s1 of
                      (Inl (Fail e), s2) \<Rightarrow> (Some e, Some (original\<lparr>cp_message := msg\<rparr>), s2)
                    | (Inl GoPanic, s2) \<Rightarrow> (Some (internalError ''output''), resp, s2)
                    | (Inr _, s2) \<Rightarrow> (None, Some (original\<lparr>cp_message := msg\<rparr>), s2))))"

end
