(* ===== verification/PrivacyLifecycle.thy ===== *)
theory PrivacyLifecycle
  imports PrivacyOutbound
begin

text \<open>
  The life of the privacy service around its requests (\<open>internal/privacy/service.go\<close>,
  \<open>triage.go\<close>): construction, the reaper, the snapshot, access to traces, the trace summary,
  the triage capability and shutdown.
\<close>

section \<open>Construction\<close>

datatype newServiceErr = StoreConfigInvalid store_err | AliasKeyMissing

text \<open>
  A service without a clock of its own gets the wall clock, so the store always has one; the
  scope store and the mapper exist only when strict requests are allowed.
\<close>

definition NewService :: "svcConfig \<Rightarrow> StoreConfig \<Rightarrow> nat \<Rightarrow> newServiceErr + svcConfig \<times> ScopeStore option" where
  "NewService cf stores sequence =
    (let cf1 = cf\<lparr>cf_DefaultProfile := (if cf_DefaultProfile cf = [] then ProfileStandard else cf_DefaultProfile cf),
                  cf_RequestProfiles := (if cf_RequestProfiles cf = [] then [ProfileStandard] else cf_RequestProfiles cf),
                  cf_lifecycleID := sequence\<rparr>
     in if containsProfile (cf_RequestProfiles cf1) ProfileStrict then
          (case NewScopeStore stores True of
             Inl e \<Rightarrow> Inl (StoreConfigInvalid e)
           | Inr store \<Rightarrow> if cf_AliasKey cf = [] then Inl AliasKeyMissing else Inr (cf1, Some store))
        else Inr (cf1, None))"

text \<open>Durations are in nanoseconds.\<close>

definition reaperInterval :: "int \<Rightarrow> int" where
  "reaperInterval ttl =
    (let interval = (if ttl < 0 then - ((- ttl) div 2) else ttl div 2);
         atLeast = (if interval < 100000000 then 100000000 else interval)
     in if atLeast > 60000000000 then 60000000000 else atLeast)"

definition reaperTick :: "svcConfig \<Rightarrow> unit svc" where
  "reaperTick cf =
    sbind (tick cf) (\<lambda>now s.
      case reapExpiredObserved (cf_busy cf) now (sv_store s) of
        (store, expired) \<Rightarrow> observeScopeOutcome False expired (s\<lparr>sv_store := store\<rparr>))"

record SafeSnapshot =
  sp_DefaultProfile :: Profile
  sp_RequestProfiles :: "Profile list"
  sp_StrictAvailable :: bool
  sp_AliasKeyPresent :: bool
  sp_PIIEnabled :: bool
  sp_ScopesActive :: nat
  sp_RequestsInFlight :: nat
  sp_Entries :: int
  sp_OldestScopeAge :: int
  sp_RequestsProtected :: nat
  sp_RequestsBlocked :: nat
  sp_LastErrorCode :: string

text \<open>The fields that copy the configuration unchanged are left out.\<close>

definition svcSnapshot :: "svcConfig \<Rightarrow> gotime \<Rightarrow> svcState \<Rightarrow> SafeSnapshot" where
  "svcSnapshot cf now s =
    (let sn = Snapshot now (sv_store s)
     in \<lparr>sp_DefaultProfile = cf_DefaultProfile cf, sp_RequestProfiles = cf_RequestProfiles cf,
         sp_StrictAvailable = containsProfile (cf_RequestProfiles cf) ProfileStrict,
         sp_AliasKeyPresent = (cf_AliasKey cf \<noteq> []), sp_PIIEnabled = cf_PIIEnabled cf,
         sp_ScopesActive = (if sv_hasStore s then sn_ScopesActive sn else 0),
         sp_RequestsInFlight = (if sv_hasStore s then sn_RequestsInFlight sn else 0),
         sp_Entries = (if sv_hasStore s then sn_Entries sn else 0),
         sp_OldestScopeAge = (if sv_hasStore s then sn_OldestScopeAge sn else 0),
         sp_RequestsProtected = sv_requestsProtected s, sp_RequestsBlocked = sv_requestsBlocked s,
         sp_LastErrorCode = sv_lastErrorCode s\<rparr>)"

section \<open>Trace access, shutdown\<close>

definition AllowSensitiveTrace :: "svcConfig \<Rightarrow> svcState \<Rightarrow> bool" where
  "AllowSensitiveTrace cf s =
    (if \<not> sv_stamped s then False
     else if rs_profile (sv_req s) = ProfileStrict then False
     else if rs_profile (sv_req s) = ProfileStandard then True
     else resolveProfile cf (contextState s) = Inr ProfileStandard)"

definition svcClose :: "svcConfig \<Rightarrow> svcState \<Rightarrow> svcState" where
  "svcClose cf s =
    (if sv_closed s then s
     else let s1 = s\<lparr>sv_closed := True\<rparr>
          in if sv_hasStore s1
             then (case shutdownAndClear (\<lambda>k. cf_clock cf (sv_ticks s1 + k)) (sv_store s1) of
                     (summary, store) \<Rightarrow>
                       snd (observeMany (cs_Completed summary + cs_Closing summary) (EvScope ''closed'')
                              (s1\<lparr>sv_store := store, sv_ticks := sv_ticks s1 + length (st_scopes (sv_store s1))\<rparr>)))
             else s1)"

section \<open>Triage\<close>

definition ListScopes :: "svcState \<Rightarrow> ScopeInfo list" where
  "ListScopes s = (if sv_hasStore s then store_List (sv_store s) else [])"

definition InspectScope :: "string \<Rightarrow> svcState \<Rightarrow> (store_err + MappingEntry list) option" where
  "InspectScope scopeID s = (if sv_hasStore s then Some (Inspect scopeID (sv_store s)) else None)"

definition ClearScope :: "string \<Rightarrow> gotime \<Rightarrow> svcState \<Rightarrow> (store_err + ClearResult) option \<times> svcState" where
  "ClearScope scopeID now s =
    (if sv_hasStore s
     then (case Clear scopeID now (sv_store s) of (r, store) \<Rightarrow> (Some r, s\<lparr>sv_store := store\<rparr>))
     else (None, s))"

definition ClearAllScopes :: "(nat \<Rightarrow> gotime) \<Rightarrow> svcState \<Rightarrow> ClearResult \<times> svcState" where
  "ClearAllScopes clock s =
    (if sv_hasStore s
     then (case ClearAll clock (sv_store s) of
             (summary, store) \<Rightarrow>
               (if cs_Closing summary \<noteq> 0 then ClearClosing else ClearCompleted, s\<lparr>sv_store := store\<rparr>))
     else (ClearCompleted, s))"

end
