(* ===== verification/PrivacyServiceInv.thy ===== *)
theory PrivacyServiceInv
  imports PrivacyLifecycle
begin

text \<open>
  What the methods of the privacy service keep of its state. The locale \<open>svc_frame\<close> carries a
  preorder on service states through the monad; its instances say that rewriting a string
  only adds authorised tokens, and that verifying one changes neither authorisations nor
  aliases. The section on positions shows that the authorised occurrences of a rewritten
  string are where the replacements were put.
\<close>

section \<open>Accepted findings are disjoint\<close>

lemma acceptLoop_extends: "acceptLoop xs t acc = Some (acc', t') \<Longrightarrow> set acc \<subseteq> set acc'"
  by (induction xs t acc rule: acceptLoop.induct) (auto split: if_splits simp: bind_eq_Some_conv)

lemma mset_split_start:
  "mset (filter (\<lambda>x. f_Start x \<le> a) xs) + mset (filter (\<lambda>x. a < f_Start x) xs) = mset xs"
  by (induction xs) auto

lemma acceptLoop_apart:
  "acceptLoop xs t acc = Some (acc', t') \<Longrightarrow> interval_avl t \<Longrightarrow> spans_apart (interval_inorder t) \<Longrightarrow>
    mset (interval_inorder t) = mset acc \<Longrightarrow> list_all span_ok acc' \<Longrightarrow>
    spans_apart (interval_inorder t') \<and> mset (interval_inorder t') = mset acc' \<and> set acc \<subseteq> set acc'"
proof (induction xs arbitrary: t acc)
  case (Cons c xs)
  show ?case
  proof (cases "intervalOverlaps t c")
    case True
    with Cons show ?thesis by simp
  next
    case False
    obtain t1 where t1: "insertInterval t c = Some t1" "interval_avl t1"
      using insertInterval_avl[OF Cons.prems(2)] by blast
    have run: "acceptLoop xs t1 (acc @ [c]) = Some (acc', t')" using Cons.prems(1) False t1 by simp
    have c: "c \<in> set acc'" using acceptLoop_extends[OF run] by auto
    then have ok: "span_ok c" using Cons.prems(5) by (auto simp: list_all_iff)
    have none: "\<not> overlaps c x" if "x \<in> set (interval_inorder t)" for x
      using False intervalOverlaps_iff[OF Cons.prems(3), of c] that by blast
    have io: "interval_inorder t1 = filter (\<lambda>x. f_Start x \<le> f_Start c) (interval_inorder t)
        @ c # filter (\<lambda>x. f_Start c < f_Start x) (interval_inorder t)"
      using insertInterval_inorder[OF Cons.prems(2) t1(1) spans_apart_sorted[OF Cons.prems(3)]] .
    have "spans_apart (interval_inorder t1)"
      unfolding io using Cons.prems(3) ok none by (rule spans_apart_insert)
    moreover have "mset (interval_inorder t1) = mset (acc @ [c])"
      using Cons.prems(4) mset_split_start[of "f_Start c" "interval_inorder t"] by (simp add: io)
    ultimately show ?thesis using Cons.IH[OF run t1(2)] Cons.prems(5) by auto
  qed
qed auto

lemma start_sort_unique:
  assumes "mset xs = mset ys" "sorted_wrt (\<lambda>x y. \<not> start_less y x) xs" "spans_apart ys"
  shows "xs = ys"
proof (rule map_sorted_distinct_set_unique[of f_Start])
  have strict: "sorted_wrt (\<lambda>a b. f_Start a < f_Start b) ys"
  proof (rule sorted_wrt_mono_rel[rotated])
    show "sorted_wrt (\<lambda>a b. f_End a \<le> f_Start b) ys" using assms(3) by (simp add: spans_apart_def)
    fix a b assume "a \<in> set ys" "f_End a \<le> f_Start b"
    moreover from this(1) have "f_Start a < f_End a" using assms(3) by (simp add: spans_apart_def list_all_iff span_ok_def)
    ultimately show "f_Start a < f_Start b" by linarith
  qed
  then have "sorted_wrt (<) (map f_Start ys)" by (simp add: sorted_wrt_map)
  then have d: "distinct (map f_Start ys)" by (simp add: strict_sorted_iff)
  have e: "set xs = set ys" using assms(1) by (rule mset_eq_setD)
  show "inj_on f_Start (set xs \<union> set ys)" unfolding e using d by (simp add: distinct_map)
  show "sorted (map f_Start ys)" using spans_apart_sorted[OF assms(3)] .
  show "sorted (map f_Start xs)" using assms(2) by (simp add: sorted_map start_less_def not_less)
  show "distinct (map f_Start ys)" by (rule d)
  show "distinct (map f_Start xs)" using d e mset_eq_imp_distinct_iff[OF assms(1)] by (simp add: distinct_map)
  show "set xs = set ys" by (rule e)
qed

lemma Arbitrate_apart:
  assumes run: "Arbitrate findings = Some out" and ok: "list_all span_ok out"
  shows "spans_apart out"
proof -
  from run obtain acc t where r: "acceptLoop (sliceStable priority_less findings) INil [] = Some (acc, t)"
    and out: "out = sliceStable start_less acc" by (auto simp: Arbitrate_def)
  have okA: "list_all span_ok acc" using ok out by (simp add: list_all_iff)
  from acceptLoop_apart[OF r _ _ _ okA] have t: "spans_apart (interval_inorder t)" "mset (interval_inorder t) = mset acc"
    by (auto simp: spans_apart_def)
  have "out = interval_inorder t"
  proof (rule start_sort_unique)
    show "mset out = mset (interval_inorder t)" using t(2) out by simp
    show "sorted_wrt (\<lambda>x y. \<not> start_less y x) out" unfolding out by (rule start.sorted_sliceStable)
    show "spans_apart (interval_inorder t)" by (rule t(1))
  qed
  then show ?thesis using t(1) by simp
qed

section \<open>What a method keeps\<close>

definition keeps :: "(svcState \<Rightarrow> svcState \<Rightarrow> bool) \<Rightarrow> 'a svc \<Rightarrow> bool" where
  "keeps rel m \<longleftrightarrow> (\<forall>s. rel s (snd (m s)))"

lemma keepsD: "keeps rel m \<Longrightarrow> m s = (r, s') \<Longrightarrow> rel s s'"
  unfolding keeps_def by (metis snd_conv)

lemma keeps_smodify: "(\<And>s. rel s (f s)) \<Longrightarrow> keeps rel (smodify f)"
  by (simp add: keeps_def smodify_def)

locale svc_frame =
  fixes rel :: "svcState \<Rightarrow> svcState \<Rightarrow> bool"
  assumes refl_R: "rel s s"
    and trans_R: "rel a b \<Longrightarrow> rel b c \<Longrightarrow> rel a c"
begin

lemma keeps_sret: "keeps rel (sret x)"
  by (simp add: keeps_def sret_def refl_R)

lemma keeps_sthrow: "keeps rel (sthrow e)"
  by (simp add: keeps_def sthrow_def refl_R)

lemma keeps_sget: "keeps rel (sget f)"
  by (simp add: keeps_def sget_def refl_R)

lemma keeps_ofOption: "keeps rel (ofOption x)"
  by (simp add: keeps_def ofOption_def refl_R split: option.splits)

lemma keeps_sbind: "keeps rel m \<Longrightarrow> (\<And>x. keeps rel (f x)) \<Longrightarrow> keeps rel (sbind m f)"
  unfolding keeps_def sbind_def by (auto split: prod.splits sum.splits intro: trans_R dest: spec) (metis snd_conv trans_R)

lemma keeps_tryReq:
  assumes "\<And>s r. f (sv_req s) = Some r \<Longrightarrow> rel s (s\<lparr>sv_req := r\<rparr>)"
  shows "keeps rel (tryReq e f)"
  using assms by (auto simp: keeps_def tryReq_def refl_R split: option.splits)

lemma keeps_observeMany:
  assumes "\<And>s e. rel s (s\<lparr>sv_events := sv_events s @ [e]\<rparr>)"
  shows "keeps rel (observeMany n e)"
  by (induction n) (auto simp: observe_def intro!: keeps_sret keeps_sbind keeps_smodify assms)

lemmas keeps_monad = keeps_sret keeps_sthrow keeps_sget keeps_ofOption

end

subsection \<open>Rewriting a string only adds authorised tokens\<close>

definition grows :: "svcState \<Rightarrow> svcState \<Rightarrow> bool" where
  "grows s s' \<longleftrightarrow> rs_authorizedOccurrences (sv_req s') = rs_authorizedOccurrences (sv_req s)
    \<and> set (rs_authorizedTokens (sv_req s)) \<subseteq> set (rs_authorizedTokens (sv_req s'))
    \<and> sv_ordinal s' = sv_ordinal s \<and> rs_lease (sv_req s') = rs_lease (sv_req s)
    \<and> rs_profile (sv_req s') = rs_profile (sv_req s)"

interpretation gr: svc_frame grows
  by unfold_locales (auto simp: grows_def)

lemma grows_plain:
  "rs_authorizedOccurrences (sv_req s') = rs_authorizedOccurrences (sv_req s) \<Longrightarrow>
   rs_authorizedTokens (sv_req s') = rs_authorizedTokens (sv_req s) \<Longrightarrow> sv_ordinal s' = sv_ordinal s \<Longrightarrow>
   rs_lease (sv_req s') = rs_lease (sv_req s) \<Longrightarrow> rs_profile (sv_req s') = rs_profile (sv_req s) \<Longrightarrow> grows s s'"
  by (simp add: grows_def)

lemma grows_observe: "keeps grows (observe e)"
  unfolding observe_def by (rule keeps_smodify) (simp add: grows_plain)

lemma grows_authorizeToken: "keeps grows (tryReq e (authorizeToken t))"
  by (rule gr.keeps_tryReq) (auto simp: authorizeToken_def grows_def split: if_splits)

lemma grows_labelCounter: "keeps grows (labelCounter cf entity original)"
  unfolding labelCounter_def Let_def
  by (intro gr.keeps_sbind gr.keeps_sget) (auto split: option.splits intro!: gr.keeps_monad gr.keeps_sbind keeps_smodify grows_plain)

lemma grows_tick: "keeps grows (tick cf)"
  by (simp add: keeps_def tick_def grows_plain)

lemma grows_observeScopeOutcome: "keeps grows (observeScopeOutcome created expired)"
  unfolding observeScopeOutcome_def
  by (auto intro!: gr.keeps_sbind gr.keeps_observeMany grows_plain gr.keeps_sret grows_observe)

lemma keeps_outcome: "(\<And>a b c. keeps rel (h a b c)) \<Longrightarrow> keeps rel (\<lambda>s. case g s of (a, b, c) \<Rightarrow> h a b c s)"
  by (simp add: keeps_def split: prod.split)

lemma grows_smodify_store: "keeps grows (smodify (\<lambda>s. s\<lparr>sv_store := store\<rparr>))"
  by (rule keeps_smodify) (simp add: grows_plain)

lemma grows_observeMany: "keeps grows (observeMany n e)"
  by (rule gr.keeps_observeMany) (simp add: grows_plain)

lemma keeps_if: "keeps rel a \<Longrightarrow> keeps rel b \<Longrightarrow> keeps rel (if c then a else b)"
  by simp

lemmas grows_rules = gr.keeps_sbind gr.keeps_monad grows_tick grows_observe grows_observeMany grows_observeScopeOutcome
  grows_smodify_store grows_authorizeToken grows_labelCounter keeps_if

lemma grows_mapTechnical: "keeps grows (mapTechnicalObserved cf lease entity original provenance)"
  unfolding mapTechnicalObserved_def by (intro grows_rules keeps_outcome)

lemma grows_strictReplacement: "keeps grows (strictReplacement cf lease f original)"
proof -
  have rand: "keeps grows (smodify (\<lambda>s. s\<lparr>sv_rands := n\<rparr>))" for n
    by (rule keeps_smodify) (simp add: grows_plain)
  show ?thesis
    unfolding strictReplacement_def Let_def
    by (split Action.split, intro conjI impI allI;
        (intro grows_rules grows_mapTechnical rand | split option.split sum.split prod.split, intro conjI impI allI)+)
qed

section \<open>Where the replacements stand\<close>

type_synonym placedRewrite = "Finding \<times> rewrite"

text \<open>Findings from a position on, in order and without overlap.\<close>

fun findingChain :: "string \<Rightarrow> nat \<Rightarrow> Finding list \<Rightarrow> bool" where
  "findingChain v pos [] \<longleftrightarrow> True"
| "findingChain v pos (f # fs) \<longleftrightarrow> int pos \<le> f_Start f \<and> f_Start f < f_End f \<and> f_End f \<le> int (length v)
     \<and> findingChain v (nat (f_End f)) fs"

lemma chain_of_apart:
  "spans_apart fs \<Longrightarrow> list_all (\<lambda>f. validFindingRange f v) fs \<Longrightarrow> (\<And>f. f \<in> set fs \<Longrightarrow> int pos \<le> f_Start f) \<Longrightarrow>
    findingChain v pos fs"
proof (induction fs arbitrary: pos)
  case (Cons f fs)
  have "findingChain v (nat (f_End f)) fs"
    using Cons.prems by (intro Cons.IH) (auto simp: spans_apart_def validFindingRange_def)
  then show ?case using Cons.prems by (auto simp: validFindingRange_def)
qed simp

text \<open>The rewritten text, from left to right.\<close>

fun built :: "string \<Rightarrow> nat \<Rightarrow> placedRewrite list \<Rightarrow> string" where
  "built v pos [] = drop pos v"
| "built v pos ((f, r, k) # rest) = take (nat (f_Start f) - pos) (drop pos v) @ r @ built v (nat (f_End f)) rest"

definition spliceAll :: "placedRewrite list \<Rightarrow> string \<Rightarrow> string" where
  "spliceAll prs v = foldr (\<lambda>(f, r, k). spliceText f r) prs v"

lemma spliceAll_built:
  "findingChain v pos (map fst prs) \<Longrightarrow> pos \<le> length v \<Longrightarrow> spliceAll prs v = take pos v @ built v pos prs"
proof (induction prs arbitrary: pos)
  case (Cons p prs)
  obtain f r k where p: "p = (f, r, k)" by (cases p)
  define a b where ab: "a = nat (f_Start f)" "b = nat (f_End f)"
  have b: "pos \<le> a" "a < b" "b \<le> length v" using Cons.prems p by (auto simp: ab)
  have "spliceAll prs v = take b v @ built v b prs"
    using Cons.prems p b by (intro Cons.IH) (auto simp: ab)
  then have "spliceAll (p # prs) v = take a v @ r @ built v b prs"
    using b p by (simp add: spliceAll_def spliceText_def ab(1,2)[symmetric] min_def)
  also have "take a v = take pos v @ take (a - pos) (drop pos v)"
    using b by (metis le_add_diff_inverse take_add)
  finally show ?case using p by (simp add: ab)
qed (simp add: spliceAll_def)

lemma authorizeOccurrence_adds:
  "authorizeOccurrence ordinal a b k r = Some r' \<Longrightarrow>
    rs_authorizedOccurrences r' = rs_authorizedOccurrences r @ [\<lparr>oc_ordinal = ordinal, oc_start = a, oc_end = b, oc_kind = k\<rparr>]
    \<and> rs_authorizedTokens r' = rs_authorizedTokens r \<and> rs_lease r' = rs_lease r \<and> rs_profile r' = rs_profile r
    \<and> 0 \<le> a \<and> a < b"
  by (auto simp: authorizeOccurrence_def split: if_splits)

text \<open>An occurrence of a string whose text is one of the given replacements.\<close>

definition placedAt :: "nat \<Rightarrow> string \<Rightarrow> string set \<Rightarrow> authorizedOccurrence \<Rightarrow> bool" where
  "placedAt ordinal x texts occ \<longleftrightarrow> oc_ordinal occ = ordinal \<and> 0 \<le> oc_start occ \<and> oc_start occ < oc_end occ
     \<and> oc_end occ \<le> int (length x) \<and> substr x (nat (oc_start occ)) (nat (oc_end occ)) \<in> texts"

definition keptTexts :: "placedRewrite list \<Rightarrow> string set" where
  "keptTexts prs = {r. \<exists>f k. (f, r, Some k) \<in> set prs}"

lemma authorizeLoop_places:
  "authorizeLoop ordinal shift prs s = (Inr (), s') \<Longrightarrow> findingChain v pos (map fst prs) \<Longrightarrow> pos \<le> length v \<Longrightarrow>
    x = pre @ built v pos prs \<Longrightarrow> int (length pre) = int pos + shift \<Longrightarrow>
    (\<exists>new. rs_authorizedOccurrences (sv_req s') = rs_authorizedOccurrences (sv_req s) @ new
       \<and> (\<forall>occ \<in> set new. placedAt ordinal x (keptTexts prs) occ))
    \<and> rs_authorizedTokens (sv_req s') = rs_authorizedTokens (sv_req s) \<and> rs_lease (sv_req s') = rs_lease (sv_req s)
    \<and> sv_ordinal s' = sv_ordinal s \<and> rs_profile (sv_req s') = rs_profile (sv_req s)"
proof (induction prs arbitrary: shift s pos pre)
  case Nil
  then show ?case by (simp add: sret_def)
next
  case (Cons p prs)
  obtain f r k where p: "p = (f, r, k)" by (cases p)
  let ?b = "nat (f_End f)" and ?fs = "f_Start f + shift"
  define a where a: "a = nat (f_Start f)"
  let ?shift = "shift + int (length r) - (f_End f - f_Start f)"
  let ?mid = "take (a - pos) (drop pos v)"
  let ?m = "case k of None \<Rightarrow> sret () | Some k \<Rightarrow> tryReq tokenCapacityError (authorizeOccurrence ordinal ?fs (?fs + int (length r)) k)"
  have b: "pos \<le> a" "a < ?b" "?b \<le> length v" "findingChain v ?b (map fst prs)" "int a = f_Start f" "int ?b = f_End f"
    using Cons.prems(2) p by (auto simp: a)
  from Cons.prems(1) p obtain s1 where one: "?m s = (Inr (), s1)" and rest: "authorizeLoop ordinal ?shift prs s1 = (Inr (), s')"
    by (auto simp: sbind_Inr Let_def)
  have x: "x = (pre @ ?mid @ r) @ built v ?b prs" using Cons.prems(4) p by (simp add: a)
  have "a - pos \<le> length (drop pos v)" using b(2,3) by simp
  then have "length ?mid = a - pos" by simp
  then have "length (pre @ ?mid) = length pre + (a - pos)" by simp
  then have pre: "int (length (pre @ ?mid)) = ?fs" using Cons.prems(5) b(1,5) by simp
  then have len: "int (length (pre @ ?mid @ r)) = int ?b + ?shift" using b by simp
  have tx: "substr x (nat ?fs) (nat (?fs + int (length r))) = r"
    unfolding x substr_def pre[symmetric] by simp
  note IH = Cons.IH[OF rest b(4,3) x len]
  have mono: "keptTexts prs \<subseteq> keptTexts (p # prs)" by (auto simp: keptTexts_def)
  show ?case
  proof (cases k)
    case None
    then have "s1 = s" using one by (simp add: sret_def)
    then show ?thesis using IH mono by (fastforce simp: placedAt_def)
  next
    case (Some k')
    from one Some obtain r1 where r1: "authorizeOccurrence ordinal ?fs (?fs + int (length r)) k' (sv_req s) = Some r1"
      "s1 = s\<lparr>sv_req := r1\<rparr>" by (auto simp: tryReq_def split: option.splits)
    note adds = authorizeOccurrence_adds[OF r1(1)]
    have "placedAt ordinal x (keptTexts (p # prs)) \<lparr>oc_ordinal = ordinal, oc_start = ?fs, oc_end = ?fs + int (length r), oc_kind = k'\<rparr>"
      using adds tx x pre Some p by (auto simp: placedAt_def keptTexts_def)
    then show ?thesis using IH adds r1(2) mono by (fastforce simp: placedAt_def)
  qed
qed

section \<open>Rewriting a string\<close>

lemma tryReq_token:
  "tryReq e (authorizeToken t) s = (Inr u, s') \<Longrightarrow> t \<in> set (rs_authorizedTokens (sv_req s'))"
  by (auto simp: tryReq_def authorizeToken_def split: option.splits if_splits)

lemma tryReq_both:
  "tryReq e (authorizeToken t) s = (Inr u, s') \<Longrightarrow> t \<in> set (rs_authorizedTokens (sv_req s')) \<and> grows s s'"
  using tryReq_token keepsD[OF grows_authorizeToken] by blast

lemma strictReplacement_authorized:
  "strictReplacement cf lease f original s = (Inr (r, action, Some k), s') \<Longrightarrow> r \<in> set (rs_authorizedTokens (sv_req s'))"
proof (cases "strictAction cf f = ActionPseudonymize")
  case True
  moreover assume "strictReplacement cf lease f original s = (Inr (r, action, Some k), s')"
  ultimately obtain x s1 where "(case x of Inl e \<Rightarrow> sthrow (if isCapacity e then capacityErrorAt ''mapping'' e else internalError ''mapping'')
      | Inr mapped \<Rightarrow> sret (mapped, ActionPseudonymize, None)) s1 = (Inr (r, action, Some k), s')"
    by (auto simp: strictReplacement_def Let_def sbind_Inr)
  then show ?thesis by (cases x) (auto simp: sthrow_def sret_def)
next
  case False
  assume "strictReplacement cf lease f original s = (Inr (r, action, Some k), s')"
  with False show ?thesis
    unfolding strictReplacement_def Let_def
    by (cases "strictAction cf f")
      (auto simp: sbind_Inr sret_def sthrow_def sget_def smodify_def grows_def split: option.splits if_splits prod.splits
        dest!: tryReq_both)
qed

lemma rewriteLoop_run:
  "rewriteLoop cf lease v gs t acc s = (Inr (t', acc'), s') \<Longrightarrow>
    \<exists>ps. acc' = ps @ acc \<and> length ps = length gs \<and> t' = spliceAll (zip (rev gs) ps) t
      \<and> list_all (\<lambda>f. validFindingRange f v) gs \<and> grows s s'
      \<and> keptTexts (zip (rev gs) ps) \<subseteq> set (rs_authorizedTokens (sv_req s'))"
proof (induction gs arbitrary: t acc s)
  case Nil
  then show ?case by (auto simp: sret_def spliceAll_def keptTexts_def gr.refl_R)
next
  case (Cons f gs)
  from Cons.prems obtain r action kind s1 where valid: "validFindingRange f v"
    and one: "strictReplacement cf lease f (findingText v f) s = (Inr (r, action, kind), s1)"
    and rest: "rewriteLoop cf lease v gs (spliceText f r t) ((r, kind) # acc)
        (snd (observe (EvTransformation ProfileStrict (f_Entity f) action) (s1\<lparr>sv_req := addTransformed (sv_req s1)\<rparr>))) = (Inr (t', acc'), s')"
    by (auto simp: sbind_Inr updReq_def smodify_def observe_def sthrow_def split: if_splits)
  from Cons.IH[OF rest] obtain ps where ps: "acc' = ps @ (r, kind) # acc" "length ps = length gs"
    "t' = spliceAll (zip (rev gs) ps) (spliceText f r t)" "list_all (\<lambda>f. validFindingRange f v) gs"
    "keptTexts (zip (rev gs) ps) \<subseteq> set (rs_authorizedTokens (sv_req s'))"
    and g: "grows (snd (observe (EvTransformation ProfileStrict (f_Entity f) action) (s1\<lparr>sv_req := addTransformed (sv_req s1)\<rparr>))) s'"
    by auto
  have g1: "grows s s1" using keepsD[OF grows_strictReplacement one] .
  have g2: "grows s1 s'" using g by (simp add: observe_def smodify_def addTransformed_def grows_def)
  have z: "zip (rev (f # gs)) (ps @ [(r, kind)]) = zip (rev gs) ps @ [(f, r, kind)]"
    using ps(2) by (simp add: zip_append)
  have k: "r \<in> set (rs_authorizedTokens (sv_req s'))" if "kind = Some k" for k
    using strictReplacement_authorized[of cf lease f "findingText v f" s r action k s1] one that g2 by (auto simp: grows_def)
  have "keptTexts (zip (rev (f # gs)) (ps @ [(r, kind)])) \<subseteq> set (rs_authorizedTokens (sv_req s'))"
    unfolding z using ps(5) k by (auto simp: keptTexts_def)
  moreover have "t' = spliceAll (zip (rev (f # gs)) (ps @ [(r, kind)])) t"
    unfolding z using ps(3) by (simp add: spliceAll_def)
  moreover have "acc' = (ps @ [(r, kind)]) @ acc" "length (ps @ [(r, kind)]) = length (f # gs)" using ps by simp_all
  ultimately show ?case using valid ps(4) gr.trans_R[OF g1 g2]
    by (intro exI[of _ "ps @ [(r, kind)]"]) simp
qed

text \<open>A rewritten string: the new occurrences carry its ordinal and stand on text this request authorised.\<close>

definition rewroteString :: "nat \<Rightarrow> string \<Rightarrow> svcState \<Rightarrow> svcState \<Rightarrow> bool" where
  "rewroteString ordinal x s s' \<longleftrightarrow>
    (\<exists>new. rs_authorizedOccurrences (sv_req s') = rs_authorizedOccurrences (sv_req s) @ new
      \<and> (\<forall>occ \<in> set new. placedAt ordinal x (set (rs_authorizedTokens (sv_req s'))) occ))
    \<and> set (rs_authorizedTokens (sv_req s)) \<subseteq> set (rs_authorizedTokens (sv_req s'))
    \<and> rs_lease (sv_req s') = rs_lease (sv_req s) \<and> sv_ordinal s' = Suc (sv_ordinal s)
    \<and> rs_profile (sv_req s') = rs_profile (sv_req s)"

lemma placedAt_mono: "placedAt ordinal x texts occ \<Longrightarrow> texts \<subseteq> texts' \<Longrightarrow> placedAt ordinal x texts' occ"
  by (auto simp: placedAt_def)

lemma secretFindings_same: "secretFindings cf key v s = (Inr y, s') \<Longrightarrow> s' = s"
  by (auto simp: secretFindings_def ofOption_def sret_def split: if_splits option.splits)

lemma ofOption_Inr: "ofOption x s = (Inr y, s') \<longleftrightarrow> x = Some y \<and> s' = s"
  by (auto simp: ofOption_def split: option.splits)

lemma transformInboundString_run:
  assumes run: "transformInboundString cf lease key v s = (Inr x, s')"
  shows "rewroteString (sv_ordinal s) x s s'"
proof -
  let ?s = "s\<lparr>sv_ordinal := Suc (sv_ordinal s)\<rparr>"
  have plain: "rewroteString (sv_ordinal s) x s ?s" by (auto simp: rewroteString_def)
  from run have body: "(if v = [] then sret v
      else sbind (secretFindings cf key v) (\<lambda>secrets.
           sbind (ofOption (Arbitrate (secrets @ configuredFindings cf key v))) (\<lambda>accepted.
             if accepted = [] then sret v
             else sbind (rewriteLoop cf lease v (rev accepted) v []) (\<lambda>(transformed, rewrites).
                  sbind (authorizeLoop (sv_ordinal s) 0 (zip accepted rewrites)) (\<lambda>_. sret transformed))))) ?s = (Inr x, s')"
    by (simp add: transformInboundString_def nextOrdinal_def sbind_def)
  show ?thesis
  proof (cases "s' = ?s")
    case True
    with plain show ?thesis by simp
  next
    case False
    with body obtain secrets accepted transformed rws s1 s2 where
      acc: "Arbitrate (secrets @ configuredFindings cf key v) = Some accepted"
      and loop: "rewriteLoop cf lease v (rev accepted) v [] ?s = (Inr (transformed, rws), s2)"
      and auth: "authorizeLoop (sv_ordinal s) 0 (zip accepted rws) s2 = (Inr (), s')" and x: "x = transformed"
      by (auto simp: sbind_Inr sret_def ofOption_Inr dest!: secretFindings_same split: if_splits prod.splits)
    from rewriteLoop_run[OF loop] have l: "length rws = length accepted"
      "transformed = spliceAll (zip accepted rws) v" "list_all (\<lambda>f. validFindingRange f v) accepted" "grows ?s s2"
      "keptTexts (zip accepted rws) \<subseteq> set (rs_authorizedTokens (sv_req s2))"
      by auto
    have "list_all span_ok accepted" using l(3) by (auto simp: list_all_iff validFindingRange_def span_ok_def)
    then have "spans_apart accepted" using Arbitrate_apart[OF acc] by blast
    then have chain: "findingChain v 0 (map fst (zip accepted rws))"
      using l(1,3) by (auto intro!: chain_of_apart simp: list_all_iff validFindingRange_def)
    have "x = [] @ built v 0 (zip accepted rws)"
      using spliceAll_built[OF chain] x l(2) by simp
    from authorizeLoop_places[OF auth chain _ this] l(4,5) show ?thesis
      unfolding rewroteString_def grows_def by (fastforce intro: placedAt_mono)
  qed
qed

section \<open>Verifying a string\<close>

definition settled :: "svcState \<Rightarrow> svcState \<Rightarrow> bool" where
  "settled s s' \<longleftrightarrow> rs_authorizedOccurrences (sv_req s') = rs_authorizedOccurrences (sv_req s)
    \<and> rs_authorizedTokens (sv_req s') = rs_authorizedTokens (sv_req s)
    \<and> rs_lease (sv_req s') = rs_lease (sv_req s) \<and> rs_profile (sv_req s') = rs_profile (sv_req s)
    \<and> st_leases (sv_store s') = st_leases (sv_store s)
    \<and> (\<forall>p. ss_reverse (st_heap (sv_store s') ! p) = ss_reverse (st_heap (sv_store s) ! p))"

interpretation st: svc_frame settled
  by unfold_locales (auto simp: settled_def)

lemma touch_reverse: "ss_reverse (st_heap (touchLocked q now st) ! p) = ss_reverse (st_heap st ! p)"
  by (cases "q < length (st_heap st)") (auto simp: touchLocked_def upd_scope_def nth_list_update not_less list_update_beyond)

lemma touch_leases: "st_leases (touchLocked q now st) = st_leases st"
  by (simp add: touchLocked_def upd_scope_def)

lemma resolveSynthetic_run:
  "resolveSynthetic cf lease entity synthetic s = (r, s') \<Longrightarrow>
    settled s s' \<and> (\<forall>en. r = Inr (Some en) \<longrightarrow>
      gm_get (ss_reverse (st_heap (sv_store s) ! lease_ptr (sv_store s) lease)) (entity, synthetic) = Some en)"
  by (auto simp: resolveSynthetic_def sbind_def tick_def ResolveSynthetic_def settled_def touch_reverse touch_leases
      split: prod.splits if_splits option.splits)

lemma settled_alias:
  "settled s s' \<Longrightarrow> ss_reverse (st_heap (sv_store s') ! lease_ptr (sv_store s') lease)
    = ss_reverse (st_heap (sv_store s) ! lease_ptr (sv_store s) lease)"
  by (simp add: settled_def lease_ptr_def)

text \<open>Why a finding may stay: an opaque occurrence this request put there, or an alias of its own input.\<close>

definition explained :: "svcConfig \<Rightarrow> nat \<Rightarrow> nat \<Rightarrow> string \<Rightarrow> svcState \<Rightarrow> Finding \<Rightarrow> bool" where
  "explained cf lease ordinal v s f \<longleftrightarrow>
    (\<exists>occ \<in> set (rs_authorizedOccurrences (sv_req s)). oc_ordinal occ = ordinal \<and> oc_kind occ = OccOpaque
        \<and> oc_start occ \<le> f_Start f \<and> f_End f \<le> oc_end occ)
    \<or> (f_Category f = CategoryTechnical
       \<and> (\<exists>en. gm_get (ss_reverse (st_heap (sv_store s) ! lease_ptr (sv_store s) lease)) (f_Entity f, findingText v f) = Some en
            \<and> me_Synthetic en = findingText v f \<and> me_Provenance en = ProvenanceInput))"

lemma explained_settled: "settled s s' \<Longrightarrow> explained cf lease ordinal v s' f = explained cf lease ordinal v s f"
  by (simp add: explained_def settled_alias) (simp add: settled_def)

lemma verifyTokens_run:
  "verifyTokens ordinal ts s = (Inr u, s') \<Longrightarrow> s' = s
    \<and> (\<forall>t \<in> set ts. rt_valid t \<and> occurrenceAtKind ordinal (int (rt_start t)) (int (rt_end t)) (rt_kind t) (sv_req s))"
  by (induction ts) (auto simp: sbind_Inr sret_def sget_def blockInbound_def sthrow_def split: if_splits)

lemma residualBlock_fails: "residualBlock f s \<noteq> (Inr u, s')"
  by (simp add: residualBlock_def blockInbound_def sbind_Inr sthrow_def)

lemma verifyConfigured_run: "verifyConfigured ordinal v fs s = (Inr u, s') \<Longrightarrow> s' = s"
  by (induction fs) (auto simp: sbind_Inr sret_def sget_def sthrow_def residualBlock_fails split: if_splits)

lemma expectedOpaqueArtifact_same: "expectedOpaqueArtifact cf key v occ f s = (Inr y, s') \<Longrightarrow> s' = s"
  by (auto simp: expectedOpaqueArtifact_def sbind_Inr sret_def ofOption_Inr split: if_splits)

lemma occurrenceContainingIn_Some:
  "occurrenceContainingIn ordinal a b os = Some occ \<Longrightarrow> occ \<in> set os \<and> oc_ordinal occ = ordinal \<and> oc_start occ \<le> a \<and> b \<le> oc_end occ"
  by (auto simp: occurrenceContainingIn_def find_Some_iff)

lemma verifyFinding_run:
  assumes run: "verifyFinding cf lease ordinal key v secrets f s = (Inr u, s')"
  shows "settled s s' \<and> explained cf lease ordinal v s f"
proof (cases "occurrenceContainingIn ordinal (f_Start f) (f_End f) (rs_authorizedOccurrences (sv_req s))")
  case (Some occ)
  with run have "oc_kind occ = OccOpaque \<and> s' = s"
    by (auto simp: verifyFinding_def sbind_Inr sget_def sret_def sthrow_def residualBlock_fails split: if_splits
        dest: expectedOpaqueArtifact_same)
  with occurrenceContainingIn_Some[OF Some] show ?thesis by (auto simp: explained_def st.refl_R)
next
  case None
  with run obtain r where tech: "f_Category f = CategoryTechnical"
    and res: "resolveSynthetic cf lease (f_Entity f) (findingText v f) s = (Inr r, s')"
    and r: "\<exists>en. r = Some en \<and> me_Synthetic en = findingText v f \<and> me_Provenance en = ProvenanceInput"
    by (auto simp: verifyFinding_def sbind_Inr sget_def sret_def sthrow_def residualBlock_fails split: if_splits option.splits)
  from resolveSynthetic_run[OF res] r tech show ?thesis by (auto simp: explained_def)
qed

lemma verifyFindings_run:
  "verifyFindings cf lease ordinal key v secrets fs s = (Inr u, s') \<Longrightarrow>
    settled s s' \<and> (\<forall>f \<in> set fs. explained cf lease ordinal v s f)"
proof (induction fs arbitrary: s)
  case (Cons f fs)
  then obtain s1 u1 where one: "verifyFinding cf lease ordinal key v secrets f s = (Inr u1, s1)"
    and rest: "verifyFindings cf lease ordinal key v secrets fs s1 = (Inr u, s')" by (auto simp: sbind_Inr)
  note a = verifyFinding_run[OF one] and b = Cons.IH[OF rest]
  from a b have "settled s s'" using st.trans_R by blast
  moreover have "\<forall>g \<in> set fs. explained cf lease ordinal v s g"
    using a b explained_settled by blast
  ultimately show ?case using a by simp
qed (simp add: sret_def st.refl_R)

lemma resolveSynthetic_ordinal: "resolveSynthetic cf lease entity synthetic s = (r, s') \<Longrightarrow> sv_ordinal s' = sv_ordinal s"
  by (auto simp: resolveSynthetic_def sbind_def tick_def split: prod.splits)

lemma verifyFinding_ordinal: "verifyFinding cf lease ordinal key v secrets f s = (Inr u, s') \<Longrightarrow> sv_ordinal s' = sv_ordinal s"
  by (auto simp: verifyFinding_def sbind_Inr sget_def sret_def sthrow_def residualBlock_fails split: if_splits option.splits
      dest: expectedOpaqueArtifact_same resolveSynthetic_ordinal)

lemma verifyFindings_ordinal: "verifyFindings cf lease ordinal key v secrets fs s = (Inr u, s') \<Longrightarrow> sv_ordinal s' = sv_ordinal s"
  by (induction fs arbitrary: s) (auto simp: sbind_Inr sret_def dest: verifyFinding_ordinal)

text \<open>A verified string.\<close>

definition secretsOf :: "svcConfig \<Rightarrow> string \<Rightarrow> string \<Rightarrow> Finding list option" where
  "secretsOf cf key v = (if cf_SecretClassifier cf then Classify (cf_env cf) key v else Some [])"

definition inboundVerified :: "svcConfig \<Rightarrow> nat \<Rightarrow> nat \<Rightarrow> string \<Rightarrow> string \<Rightarrow> svcState \<Rightarrow> bool" where
  "inboundVerified cf lease ordinal key v s \<longleftrightarrow>
    (\<forall>t \<in> set (parseReservedTokens cf v). rt_valid t
       \<and> occurrenceAtKind ordinal (int (rt_start t)) (int (rt_end t)) (rt_kind t) (sv_req s))
    \<and> (\<exists>secrets accepted. secretsOf cf key v = Some secrets
        \<and> Arbitrate (secrets @ configuredFindings cf key v) = Some accepted
        \<and> (\<forall>f \<in> set accepted. explained cf lease ordinal v s f))"

lemma inboundVerified_settled: "settled s s' \<Longrightarrow> inboundVerified cf lease ordinal key v s' = inboundVerified cf lease ordinal key v s"
proof -
  assume st: "settled s s'"
  have occ: "occurrenceAtKind o1 a b k (sv_req s') = occurrenceAtKind o1 a b k (sv_req s)" for o1 a b k
    using st by (simp add: occurrenceAtKind_def settled_def)
  show ?thesis unfolding inboundVerified_def by (simp add: occ explained_settled[OF st])
qed

lemma secretFindings_run: "secretFindings cf key v s = (Inr secrets, s') \<Longrightarrow> s' = s \<and> secretsOf cf key v = Some secrets"
  by (auto simp: secretFindings_def secretsOf_def ofOption_Inr sret_def split: if_splits)

lemma verifyInboundString_run:
  assumes "verifyInboundString cf lease key v s = (Inr u, s')"
  shows "settled s s' \<and> sv_ordinal s' = Suc (sv_ordinal s) \<and> inboundVerified cf lease (sv_ordinal s) key v s"
proof -
  let ?s = "s\<lparr>sv_ordinal := Suc (sv_ordinal s)\<rparr>"
  from assms obtain s1 s2 s3 s4 secrets accepted where
    t: "verifyTokens (sv_ordinal s) (parseReservedTokens cf v) ?s = (Inr (), s1)"
    and c: "verifyConfigured (sv_ordinal s) v (configuredFindings cf key v) s1 = (Inr (), s2)"
    and k: "secretFindings cf key v s2 = (Inr secrets, s3)"
    and a: "Arbitrate (secrets @ configuredFindings cf key v) = Some accepted"
    and f: "verifyFindings cf lease (sv_ordinal s) key v secrets accepted s3 = (Inr u, s')"
    by (auto simp: verifyInboundString_def nextOrdinal_def sbind_Inr ofOption_Inr)
  note t = verifyTokens_run[OF t] and c = verifyConfigured_run[OF c] and k = secretFindings_run[OF k]
    and f' = verifyFindings_run[OF f]
  have s3: "s3 = ?s" using t c k by simp
  have st: "settled s ?s" by (simp add: settled_def)
  have "inboundVerified cf lease (sv_ordinal s) key v ?s"
    unfolding inboundVerified_def using t k a f' s3 by auto
  then show ?thesis using f' s3 st st.trans_R[OF st] inboundVerified_settled[OF st] verifyFindings_ordinal[OF f] by auto
qed

end
