(* ===== verification/PrivacyLeases.thy ===== *)
theory PrivacyLeases
  imports PrivacyServiceInv PrivacyStoreInv
begin

text \<open>
  Who holds a lease: the string rewriters and verifiers of the privacy service neither take
  nor give back leases, on any path, and a released lease stays released. The locales
  \<open>kept_rewriter\<close> and \<open>kept_visitor\<close> carry this to whole requests and responses.
\<close>

definition frameRel :: "bool \<Rightarrow> svcState \<Rightarrow> svcState \<Rightarrow> bool" where
  "frameRel tokens s s' \<longleftrightarrow> rs_lease (sv_req s') = rs_lease (sv_req s) \<and> st_leases (sv_store s') = st_leases (sv_store s)
    \<and> sv_stamped s' = sv_stamped s \<and> rs_afterStarted (sv_req s') = rs_afterStarted (sv_req s)
    \<and> rs_profile (sv_req s') = rs_profile (sv_req s)
    \<and> (tokens \<longrightarrow> rs_authorizedTokens (sv_req s') = rs_authorizedTokens (sv_req s))"

text \<open>On the way in tokens are authorised; on the way out no token is.\<close>

abbreviation leasesSame :: "svcState \<Rightarrow> svcState \<Rightarrow> bool" where "leasesSame \<equiv> frameRel False"

lemmas leasesSame_def = frameRel_def[of False, simplified]

interpretation ls: svc_frame "frameRel tokens" for tokens
  by unfold_locales (auto simp: frameRel_def)

lemma frameRel_leases: "frameRel tokens s s' \<Longrightarrow> leasesSame s s'"
  by (simp add: frameRel_def)

text \<open>The mapper creates aliases with a lease; it takes and releases none.\<close>

definition mapperKeepsLeases :: "svcConfig \<Rightarrow> bool" where
  "mapperKeepsLeases cf \<longleftrightarrow> (\<forall>l e t p now store. st_leases (snd (snd (cf_mapper cf l e t p now store))) = st_leases store)"

lemma ls_observe: "keeps (frameRel tokens) (observe e)"
  unfolding observe_def by (rule keeps_smodify) (simp add: frameRel_def)

lemma ls_observeMany: "keeps (frameRel tokens) (observeMany n e)"
  by (rule ls.keeps_observeMany) (simp add: frameRel_def)

lemma ls_scope: "keeps (frameRel tokens) (observeScopeOutcome created expired)"
  unfolding observeScopeOutcome_def by (intro ls.keeps_sbind ls_observeMany keeps_if ls_observe ls.keeps_sret)

lemma ls_tick: "keeps (frameRel tokens) (tick cf)"
  by (simp add: keeps_def tick_def frameRel_def)

lemma ls_nextOrdinal: "keeps (frameRel tokens) nextOrdinal"
  by (simp add: keeps_def nextOrdinal_def frameRel_def)

lemma ls_rand: "keeps (frameRel tokens) (smodify (\<lambda>s. s\<lparr>sv_rands := n\<rparr>))"
  by (rule keeps_smodify) (simp add: frameRel_def)

lemma ls_counted: "keeps (frameRel tokens) (smodify (\<lambda>s. s\<lparr>sv_requestsBlocked := Suc (sv_requestsBlocked s)\<rparr>))"
  by (rule keeps_smodify) (simp add: frameRel_def)

lemma ls_updReq:
  "(\<And>r. rs_lease (f r) = rs_lease r \<and> rs_afterStarted (f r) = rs_afterStarted r \<and> rs_profile (f r) = rs_profile r
     \<and> rs_authorizedTokens (f r) = rs_authorizedTokens r) \<Longrightarrow> keeps (frameRel tokens) (updReq f)"
  unfolding updReq_def by (rule keeps_smodify) (simp add: frameRel_def)

lemma ls_counters: "keeps (frameRel tokens) (updReq addTransformed)" "keeps (frameRel tokens) (updReq (addBlocked n))"
  "keeps (frameRel tokens) (updReq (addRestored n))"
  by (rule ls_updReq, simp add: addTransformed_def addBlocked_def addRestored_def)+

lemma ls_updAuth: "keeps (frameRel tokens) (updAuth f)"
  unfolding updAuth_def by (rule keeps_smodify) (simp add: frameRel_def)

lemma ls_tryReq:
  "(\<And>r r'. f r = Some r' \<Longrightarrow> rs_lease r' = rs_lease r \<and> rs_afterStarted r' = rs_afterStarted r \<and> rs_profile r' = rs_profile r
     \<and> (tokens \<longrightarrow> rs_authorizedTokens r' = rs_authorizedTokens r)) \<Longrightarrow> keeps (frameRel tokens) (tryReq e f)"
  by (rule ls.keeps_tryReq) (simp add: frameRel_def)

lemma ls_authorize: "keeps leasesSame (tryReq e (authorizeToken t))"
  "keeps (frameRel tokens) (tryReq e (authorizeOccurrence ordinal a b k))"
  by (rule ls_tryReq, auto simp: authorizeToken_def authorizeOccurrence_def split: if_splits)+

lemma ls_receipt: "keeps (frameRel tokens) (tryReq e (\<lambda>r. setReceipt (f r) r))"
  by (rule ls_tryReq) (auto simp: setReceipt_def)

lemma ls_labelCounter: "keeps (frameRel tokens) (labelCounter cf entity original)"
  unfolding labelCounter_def Let_def
  by (intro ls.keeps_sbind ls.keeps_sget)
    (auto split: option.splits intro!: ls.keeps_monad ls.keeps_sbind keeps_smodify simp: frameRel_def)

lemma ls_secretFindings: "keeps (frameRel tokens) (secretFindings cf key v)"
  unfolding secretFindings_def by (intro keeps_if ls.keeps_monad)

lemma keeps_pair: "(\<And>a b. keeps rel (h a b)) \<Longrightarrow> keeps rel (\<lambda>s. case g s of (a, b) \<Rightarrow> h a b s)"
  by (simp add: keeps_def split: prod.split)

lemma ls_resolve: "keeps (frameRel tokens) (resolveSynthetic cf lease entity x)" "keeps (frameRel tokens) (resolveOriginal cf lease entity x)"
  by (auto simp: keeps_def resolveSynthetic_def resolveOriginal_def sbind_def tick_def frameRel_def ResolveSynthetic_def
      ResolveOriginal_def touch_leases split: prod.splits option.splits if_splits)

lemmas ls_rules = ls.keeps_sbind ls.keeps_monad ls_observe ls_observeMany ls_scope ls_tick ls_nextOrdinal ls_rand ls_counted
  ls_counters ls_updAuth ls_authorize ls_receipt ls_labelCounter ls_secretFindings ls_resolve keeps_if

lemma ls_store_step:
  assumes "st_leases store = st_leases (sv_store s)" "keeps (frameRel tokens) m"
  shows "frameRel tokens s (snd (sbind (smodify (\<lambda>s. s\<lparr>sv_store := store\<rparr>)) (\<lambda>_. m) s))"
proof -
  have "frameRel tokens s (s\<lparr>sv_store := store\<rparr>)" using assms(1) by (simp add: frameRel_def)
  moreover have "frameRel tokens (s\<lparr>sv_store := store\<rparr>) (snd (m (s\<lparr>sv_store := store\<rparr>)))"
    using assms(2) by (simp add: keeps_def)
  ultimately show ?thesis using ls.trans_R by (simp add: sbind_def smodify_def)
qed

lemma ls_mapTechnical: "mapperKeepsLeases cf \<Longrightarrow> keeps (frameRel tokens) (mapTechnicalObserved cf lease entity original provenance)"
  unfolding mapTechnicalObserved_def
proof (intro ls.keeps_sbind ls_tick, unfold keeps_def, intro allI)
  fix now and s :: svcState
  assume m: "mapperKeepsLeases cf"
  obtain r outcome store where o: "cf_mapper cf lease entity original provenance now (sv_store s) = (r, outcome, store)"
    by (metis prod.exhaust)
  have leases: "st_leases store = st_leases (sv_store s)"
    using m[unfolded mapperKeepsLeases_def, rule_format, of lease entity original provenance now "sv_store s"] o by simp
  show "frameRel tokens s (snd (case cf_mapper cf lease entity original provenance now (sv_store s) of
        (r, outcome, store) \<Rightarrow>
          sbind (smodify (\<lambda>s. s\<lparr>sv_store := store\<rparr>)) (\<lambda>_.
          sbind (observeScopeOutcome False (mo_expired outcome)) (\<lambda>_.
          sbind (if isl r then sret () else observe (EvMapping ''lookup'' (if mo_created outcome then ''miss'' else ''hit''))) (\<lambda>_.
          sbind (observeMany (unat (mo_collisions outcome)) (EvMapping ''insert'' ''collision'')) (\<lambda>_.
          sbind (if \<not> isl r \<and> mo_created outcome then observe (EvMapping ''insert'' ''pass'') else sret ()) (\<lambda>_.
          sret r))))) s))"
    unfolding o prod.case by (rule ls_store_step[OF leases]) (intro ls_rules)
qed

section \<open>The way in\<close>

lemma ls_strictReplacement: "mapperKeepsLeases cf \<Longrightarrow> keeps leasesSame (strictReplacement cf lease f original)"
  unfolding strictReplacement_def Let_def
  by (split Action.split, intro conjI impI allI;
      (intro ls_rules ls_mapTechnical, assumption? | split option.split sum.split prod.split, intro conjI impI allI)+)

lemma ls_rewriteLoop: "mapperKeepsLeases cf \<Longrightarrow> keeps leasesSame (rewriteLoop cf lease v fs t acc)"
  by (induction fs arbitrary: t acc) (auto intro!: ls_rules ls_strictReplacement split: prod.split)

lemma ls_authorizeLoop: "keeps leasesSame (authorizeLoop ordinal shift prs)"
  by (induction ordinal shift prs rule: authorizeLoop.induct) (auto simp: Let_def intro!: ls_rules split: option.split)

lemma ls_transformInboundString: "mapperKeepsLeases cf \<Longrightarrow> keeps leasesSame (transformInboundString cf lease key v)"
  unfolding transformInboundString_def
  by (auto intro!: ls_rules ls_rewriteLoop ls_authorizeLoop split: prod.split)

lemma ls_block: "keeps leasesSame (blockInbound reason)" "keeps leasesSame (residualBlock f)"
  unfolding residualBlock_def blockInbound_def by (intro ls_rules)+

lemma ls_verifyTokens: "keeps leasesSame (verifyTokens ordinal ts)"
  by (induction ts) (auto intro!: ls_rules ls_block)

lemma ls_verifyConfigured: "keeps leasesSame (verifyConfigured ordinal v fs)"
  by (induction fs) (auto intro!: ls_rules ls_block)

lemma ls_expected: "keeps leasesSame (expectedOpaqueArtifact cf key v occ f)"
  unfolding expectedOpaqueArtifact_def Let_def by (intro ls_rules)

lemma ls_verifyFinding: "keeps leasesSame (verifyFinding cf lease ordinal key v secrets f)"
  unfolding verifyFinding_def
  by (auto intro!: ls_rules ls_block ls_expected split: option.split)

lemma ls_verifyInboundString: "keeps leasesSame (verifyInboundString cf lease key v)"
proof -
  have "keeps leasesSame (verifyFindings cf lease ordinal key v secrets fs)" for ordinal secrets fs
    by (induction fs) (auto intro!: ls_rules ls_verifyFinding)
  then show ?thesis
    unfolding verifyInboundString_def by (intro ls_rules ls_verifyTokens ls_verifyConfigured)
qed

text \<open>As rewriters and visitors.\<close>

definition leaseGuard :: "bool \<Rightarrow> svcConfig \<Rightarrow> svcState \<Rightarrow> svcState \<Rightarrow> bool" where
  "leaseGuard tokens cf s0 s \<longleftrightarrow> (mapperKeepsLeases cf \<longrightarrow> frameRel tokens s0 s)"

lemma leaseGuard_keep:
  "(mapperKeepsLeases cf \<Longrightarrow> keeps (frameRel tokens) m) \<Longrightarrow> leaseGuard tokens cf s0 s \<Longrightarrow> m s = (r, s') \<Longrightarrow>
    leaseGuard tokens cf s0 s'"
  unfolding leaseGuard_def by (metis keepsD ls.trans_R)

lemma asVisitor_run: "asVisitor f key str s = (r, s') \<Longrightarrow> \<exists>q. f key str s = (q, s')"
  by (auto simp: asVisitor_def split: prod.splits sum.splits)

interpretation inbound: kept_rewriter "leaseGuard False cf s0" "asRewriter (transformInboundString cf lease)" for cf s0 lease
  by unfold_locales (auto simp: asRewriter_def intro: leaseGuard_keep[OF ls_transformInboundString])

interpretation verifying: kept_visitor "leaseGuard False cf s0" "asVisitor (verifyInboundString cf lease)" for cf s0 lease
  by unfold_locales (auto dest!: asVisitor_run intro: leaseGuard_keep[OF ls_verifyInboundString])

section \<open>The way out\<close>

lemma ls_blockOutbound: "keeps (frameRel tokens) (blockOutbound reason)"
  unfolding blockOutbound_def by (intro ls_rules)

lemma ls_checkReserved: "keeps (frameRel tokens) (checkReserved v ts)"
  by (induction ts) (auto simp: Let_def intro!: ls_rules ls_blockOutbound)

lemma ls_outboundReplacement: "mapperKeepsLeases cf \<Longrightarrow> keeps (frameRel tokens) (outboundReplacement cf net lease f original)"
  unfolding outboundReplacement_def
  by (split Category.split, intro conjI impI allI;
      (intro ls_rules ls_mapTechnical ls_blockOutbound, assumption? | split option.split sum.split, intro conjI impI allI)+)

lemma ls_outboundLoop: "mapperKeepsLeases cf \<Longrightarrow> keeps (frameRel tokens) (outboundLoop cf net lease v fs t acc)"
  by (induction fs arbitrary: t acc)
    (auto intro!: ls_rules ls_outboundReplacement split: prod.split outRewrite.split)

lemma ls_authorizeOutboundLoop: "keeps (frameRel tokens) (authorizeOutboundLoop ordinal shift prs)"
  by (induction ordinal shift prs rule: authorizeOutboundLoop.induct)
    (auto simp: Let_def authorizeOutbound_def intro!: ls_rules)

lemma ls_prepareOutboundString: "mapperKeepsLeases cf \<Longrightarrow> keeps (frameRel tokens) (prepareOutboundString cf net lease key v)"
  unfolding prepareOutboundString_def
  by (auto intro!: ls_rules ls_checkReserved ls_outboundLoop ls_authorizeOutboundLoop split: prod.split)

lemma ls_verifyOutTokens: "keeps (frameRel tokens) (verifyOutTokens ordinal v ts)"
  by (induction ts) (auto simp: Let_def intro!: ls_rules ls_blockOutbound)

lemma ls_verifyPayloads: "keeps (frameRel tokens) (verifyPayloads ps)"
  by (induction ps) (auto intro!: ls_rules ls_blockOutbound)

lemma ls_verifyOutFindings: "keeps (frameRel tokens) (verifyOutFindings cf lease ordinal v fs)"
  by (induction fs) (auto simp: outResidual_def intro!: ls_rules ls_blockOutbound)

lemma ls_verifyOutboundString: "keeps (frameRel tokens) (verifyOutboundString cf lease key v)"
  unfolding verifyOutboundString_def by (intro ls_rules ls_verifyOutTokens ls_verifyPayloads ls_verifyOutFindings)

lemma ls_technicalRestorations: "keeps (frameRel tokens) (technicalRestorations cf lease v fs acc)"
  by (induction fs arbitrary: acc) (auto intro!: ls_rules split: option.split)

lemma ls_recordRestored: "keeps (frameRel tokens) (recordRestored ordinal shift rs)"
  by (induction rs arbitrary: shift) (auto simp: Let_def intro!: ls_rules)

lemma ls_translateLoop: "keeps (frameRel tokens) (translateLoop ordinal rs os)"
  by (induction os) (auto intro!: ls_rules split: option.split)

lemma ls_gatherRestorations: "keeps (frameRel tokens) (gatherRestorations cf lease key v)"
  unfolding gatherRestorations_def Let_def by (auto intro!: ls_rules ls_technicalRestorations split: option.split)

lemma ls_restoreOutboundString: "keeps (frameRel tokens) (restoreOutboundString cf lease key v)"
  unfolding restoreOutboundString_def by (intro ls_rules ls_gatherRestorations ls_recordRestored ls_translateLoop)

lemma ls_integrityString: "keeps (frameRel tokens) (integrityString cf net lease key v)"
proof -
  have "keeps (frameRel tokens) (integrityTokens ordinal ts)" for ordinal ts
    by (induction ts) (auto intro!: ls_rules ls_blockOutbound)
  moreover have "keeps (frameRel tokens) (integrityAddresses cf net lease ordinal v ps)" for ordinal ps
    by (induction ps) (auto simp: Let_def intro!: ls_rules ls_blockOutbound)
  ultimately show ?thesis unfolding integrityString_def by (intro ls_rules)
qed

interpretation preparing: kept_rewriter "leaseGuard True cf s0" "asRewriter (prepareOutboundString cf net lease)" for cf s0 net lease
  by unfold_locales (auto simp: asRewriter_def intro: leaseGuard_keep[OF ls_prepareOutboundString])

interpretation restoring: kept_rewriter "leaseGuard True cf s0" "asRewriter (restoreOutboundString cf lease)" for cf s0 lease
  by unfold_locales (auto simp: asRewriter_def intro: leaseGuard_keep[OF ls_restoreOutboundString])

interpretation outcheck: kept_visitor "leaseGuard True cf s0" "asVisitor (verifyOutboundString cf lease)" for cf s0 lease
  by unfold_locales (auto dest!: asVisitor_run intro: leaseGuard_keep[OF ls_verifyOutboundString])

interpretation integrity: kept_visitor "leaseGuard True cf s0" "asVisitor (integrityString cf net lease)" for cf s0 net lease
  by unfold_locales (auto dest!: asVisitor_run intro: leaseGuard_keep[OF ls_integrityString])

lemma leaseGuard_plain: "leaseGuard tokens cf s0 s \<Longrightarrow> frameRel tokens s s' \<Longrightarrow> leaseGuard tokens cf s0 s'"
  unfolding leaseGuard_def using ls.trans_R by blast

lemma transformInbound_leases:
  assumes m: "mapperKeepsLeases cf" and run: "transformInbound cf req s = (r, req', s')"
  shows "leasesSame s s'"
proof (cases "rs_lease (sv_req s)")
  case None
  with run show ?thesis by (simp add: transformInbound_def ls.refl_R)
next
  case (Some lease)
  let ?s0 = "s\<lparr>sv_counters := [], sv_next := [], sv_ordinal := 0\<rparr>"
  have g0: "leaseGuard False cf s ?s0" by (simp add: leaseGuard_def leasesSame_def)
  obtain q req1 s1 where tr: "TransformRequestStrings (asRewriter (transformInboundString cf lease)) req ?s0 = (q, req1, s1)"
    by (metis prod.exhaust)
  have g1: "leaseGuard False cf s s1" by (rule inbound.keeps_request[OF tr g0])
  obtain q' s2 where vis: "VisitRequestStrings (asVisitor (verifyInboundString cf lease)) req1 (s1\<lparr>sv_ordinal := 0\<rparr>) = (q', s2)"
    by fastforce
  have "leaseGuard False cf s (s1\<lparr>sv_ordinal := 0\<rparr>)" by (rule leaseGuard_plain[OF g1]) (simp add: leasesSame_def)
  then have g2: "leaseGuard False cf s s2" by (rule verifying.keeps_visitRequest[OF vis])
  have "leaseGuard False cf s (s2\<lparr>sv_requestsProtected := Suc (sv_requestsProtected s2)\<rparr>)"
    by (rule leaseGuard_plain[OF g2]) (simp add: leasesSame_def)
  with run Some tr vis g1 g2 have "leaseGuard False cf s s'"
    by (auto simp: transformInbound_def Let_def split: option.splits walkErr.splits)
  with m show ?thesis by (simp add: leaseGuard_def)
qed

lemma transformOutbound_leases:
  assumes m: "mapperKeepsLeases cf" and run: "transformOutbound cf net resp s = (r, resp', s')"
  shows "frameRel True s s'"
proof (cases "rs_lease (sv_req s)")
  case None
  with run show ?thesis by (simp add: transformOutbound_def ls.refl_R)
next
  case (Some lease)
  let ?s0 = "s\<lparr>sv_counters := [], sv_next := [], sv_ordinal := 0, sv_auth := emptyAuthorization\<rparr>"
  have reset: "leaseGuard True cf s x \<Longrightarrow> leaseGuard True cf s (resetOrdinal x)" for x
    by (erule leaseGuard_plain) (simp add: frameRel_def resetOrdinal_def)
  have g0: "leaseGuard True cf s ?s0" by (simp add: leaseGuard_def frameRel_def)
  obtain q1 r1 s1 where c1: "TransformResponseStrings (asRewriter (prepareOutboundString cf net lease)) resp ?s0 = (q1, r1, s1)"
    by (metis prod.exhaust)
  have g1: "leaseGuard True cf s s1" by (rule preparing.keeps_response[OF c1 g0])
  obtain q2 s2 where c2: "VisitResponseStrings (asVisitor (verifyOutboundString cf lease)) r1 (resetOrdinal s1) = (q2, s2)"
    by fastforce
  have g2: "leaseGuard True cf s s2" by (rule outcheck.keeps_visitResponse[OF c2 reset[OF g1]])
  obtain q3 r3 s3 where c3: "TransformResponseStrings (asRewriter (restoreOutboundString cf lease)) r1 (resetOrdinal s2) = (q3, r3, s3)"
    by (metis prod.exhaust)
  have g3: "leaseGuard True cf s s3" by (rule restoring.keeps_response[OF c3 reset[OF g2]])
  obtain q4 s4 where c4: "VisitResponseStrings (asVisitor (integrityString cf net lease)) r3 (resetOrdinal s3) = (q4, s4)"
    by fastforce
  have g4: "leaseGuard True cf s s4" by (rule integrity.keeps_visitResponse[OF c4 reset[OF g3]])
  have "s' \<in> {s1, s2, s3, s4}"
    using run Some c1 c2 c3 c4
    by (auto simp: transformOutbound_def split: option.splits walkErr.splits svcFail.splits)
  with g1 g2 g3 g4 m show ?thesis by (auto simp: leaseGuard_def)
qed

section \<open>Leases of the store\<close>

text \<open>The leases that are held.\<close>

definition liveLeases :: "ScopeStore \<Rightarrow> nat list" where
  "liveLeases store = filter (\<lambda>l. lockOperation l store) [0..<length (st_leases store)]"

lemma liveLeases_cong: "st_leases a = st_leases b \<Longrightarrow> liveLeases a = liveLeases b"
  by (simp add: liveLeases_def lockOperation_def)

lemma wipe_leases: "st_leases (wipeAndRemoveLocked p now store) = st_leases store"
  by (simp add: wipeAndRemoveLocked_def Let_def split: option.split)

lemma reapLoop_leases: "st_leases (fst (reapLoop busy now ps store)) = st_leases store"
  by (induction busy now ps store rule: reapLoop.induct)
    (auto simp: reapScope_def wipe_leases split: prod.splits)

lemma acquire_leases:
  assumes "acquireObserved busy scopeID profile now store = (r, expired, store')"
  shows "case r of Inl e \<Rightarrow> st_leases store' = st_leases store
    | Inr (l, created) \<Rightarrow> l = length (st_leases store) \<and> (\<exists>p. st_leases store' = st_leases store @ [(p, False)])"
proof -
  have reap: "reapAvailableExpiredLocked busy now x = (y, e) \<Longrightarrow> st_leases y = st_leases x" for x y e
    using reapLoop_leases[of busy now "map snd (st_scopes x)" x] by (simp add: reapAvailableExpiredLocked_def)
  show ?thesis
    using assms by (auto simp: acquireObserved_def acquire_retained_def acquire_create_def new_lease_def reapScope_def
        wipe_leases Let_def split: if_splits option.splits prod.splits dest: reap)
qed

lemma release_leases:
  assumes "l < length (st_leases store)"
  shows "st_leases (lease_Release l now store) = (st_leases store)[l := (lease_ptr store l, True)]"
proof (cases "snd (st_leases store ! l)")
  case True
  then have "st_leases store ! l = (lease_ptr store l, True)" by (simp add: lease_ptr_def prod_eq_iff)
  then have "(st_leases store)[l := (lease_ptr store l, True)] = st_leases store" by (metis list_update_id)
  with True show ?thesis by (simp add: lease_Release_def release_drop_def)
next
  case False
  then show ?thesis
    by (simp add: lease_Release_def release_drop_def Let_def finalizeClosed_def wipe_leases lease_ptr_def)
qed

lemma liveLeases_release:
  assumes "l < length (st_leases store)"
  shows "liveLeases (lease_Release l now store) = filter (\<lambda>k. k \<noteq> l) (liveLeases store)"
  unfolding liveLeases_def release_leases[OF assms] filter_filter
  by (rule filter_cong[OF arg_cong[where f = "\<lambda>n. [0..<n]"]])
    (use assms in \<open>auto simp: lockOperation_def release_leases[OF assms] nth_list_update split: if_splits\<close>)

lemma liveLeases_new:
  assumes "st_leases store' = st_leases store @ [(p, False)]"
  shows "liveLeases store' = liveLeases store @ [length (st_leases store)]"
proof -
  have "filter (\<lambda>l. lockOperation l store') [0..<length (st_leases store)] = liveLeases store"
    unfolding liveLeases_def by (rule filter_cong) (auto simp: lockOperation_def assms nth_append)
  then show ?thesis by (simp add: liveLeases_def assms) (simp add: lockOperation_def assms)
qed

end
