(* ===== verification/PrivacyServiceProps.thy ===== *)
theory PrivacyServiceProps
  imports PrivacyLeases
begin

text \<open>
  What the strict profile promises: a request that leaves \<open>Before\<close> was verified string by
  string, a failing request gives its scope back, a response that \<open>After\<close> delivers was
  verified and only restored with what this request replaced, and a failing one is left
  alone.
\<close>

section \<open>The strict request\<close>








text \<open>Acquiring a lease: the request keeps its authorisations, and holds the lease only if that succeeds.\<close>

definition sameAuth :: "svcState \<Rightarrow> svcState \<Rightarrow> bool" where
  "sameAuth s s' \<longleftrightarrow> rs_authorizedOccurrences (sv_req s') = rs_authorizedOccurrences (sv_req s)
    \<and> rs_authorizedTokens (sv_req s') = rs_authorizedTokens (sv_req s) \<and> rs_lease (sv_req s') = rs_lease (sv_req s)
    \<and> sv_stamped s' = sv_stamped s \<and> rs_afterStarted (sv_req s') = rs_afterStarted (sv_req s)"








text \<open>Everything before the lease is taken.\<close>

definition leaseOutcome :: "svcState \<Rightarrow> (svcFail + unit) \<times> svcState \<Rightarrow> bool" where
  "leaseOutcome s out \<longleftrightarrow> rs_authorizedOccurrences (sv_req (snd out)) = rs_authorizedOccurrences (sv_req s)
    \<and> sv_stamped (snd out) = sv_stamped s \<and> rs_afterStarted (sv_req (snd out)) = rs_afterStarted (sv_req s)
    \<and> (case fst out of Inl _ \<Rightarrow> rs_lease (sv_req (snd out)) = rs_lease (sv_req s)
       | Inr _ \<Rightarrow> rs_lease (sv_req s) = None \<and> rs_lease (sv_req (snd out)) \<noteq> None)"

lemma leaseOutcome_fail: "keeps sameAuth m \<Longrightarrow> fst (m s) = Inl e \<Longrightarrow> leaseOutcome s (m s)"
  unfolding keeps_def by (auto simp: leaseOutcome_def sameAuth_def dest!: spec[of _ s])







text \<open>The profile a request asks for, the empty string when it asks for none.\<close>

definition requestedProfile :: "svcState \<Rightarrow> string" where
  "requestedProfile s = (if sv_stamped s then md_RequestedProfile (rs_metadata (sv_req s)) else [])"

lemma resolveProfile_strict:
  assumes "cf_DefaultProfile cf = ProfileStrict \<or> requestedProfile s = ProfileStrict"
    "resolveProfile cf (contextState s) = Inr p"
  shows "p = ProfileStrict"
  using assms by (auto simp: resolveProfile_def contextState_def requestedProfile_def Let_def ProfileStrict_def split: if_splits)



section \<open>A failing strict request\<close>

text \<open>Without a lease before, acquiring one either changes no lease or adds one that the request holds.\<close>

definition leaseTaken :: "svcState \<Rightarrow> (svcFail + 'a) \<times> svcState \<Rightarrow> bool" where
  "leaseTaken s out \<longleftrightarrow> rs_lease (sv_req s) = None \<longrightarrow>
    (case fst out of Inl _ \<Rightarrow> leasesSame s (snd out)
     | Inr _ \<Rightarrow> rs_lease (sv_req (snd out)) = Some (length (st_leases (sv_store s)))
         \<and> (\<exists>p. st_leases (sv_store (snd out)) = st_leases (sv_store s) @ [(p, False)]) \<and> sv_stamped (snd out) = sv_stamped s)"

lemma leaseTaken_sbind:
  assumes "keeps leasesSame m" "\<And>x s'. leaseTaken s' (f x s')"
  shows "leaseTaken s (sbind m f s)"
proof -
  obtain r s1 where m: "m s = (r, s1)" by (cases "m s")
  have same: "leasesSame s s1" using keepsD[OF assms(1) m] .
  show ?thesis
  proof (cases r)
    case (Inl e)
    with m same show ?thesis by (simp add: sbind_def leaseTaken_def)
  next
    case (Inr x)
    with m have "sbind m f s = f x s1" by (simp add: sbind_def)
    with assms(2)[of s1 x] same show ?thesis
      by (auto simp: leaseTaken_def leasesSame_def split: sum.splits)
  qed
qed

lemma leaseTaken_if: "leaseTaken s (a s) \<Longrightarrow> leaseTaken s (b s) \<Longrightarrow> leaseTaken s ((if c then a else b) s)"
  by simp

lemma leaseTaken_throw: "leaseTaken s (sthrow e s)"
  by (simp add: leaseTaken_def sthrow_def ls.refl_R)

definition takeLease :: "svcConfig \<Rightarrow> store_err + nat \<times> bool \<Rightarrow> unit svc" where
  "takeLease cf r =
    (case r of
       Inl e \<Rightarrow> sthrow (scopeErrorOf e)
     | Inr (lease, _) \<Rightarrow>
         sbind (sget (\<lambda>s. rs_lease (sv_req s))) (\<lambda>held.
           if held \<noteq> None
           then sbind (tick cf) (\<lambda>now'. sbind (smodify (\<lambda>s. s\<lparr>sv_store := lease_Release lease now' (sv_store s)\<rparr>))
                  (\<lambda>_. sthrow (internalError ''scope'')))
           else updReq (\<lambda>r. r\<lparr>rs_lease := Some lease\<rparr>)))"

lemma observeMany_ok: "\<exists>s'. observeMany n e x = (Inr (), s')"
  by (induction n arbitrary: x) (simp_all add: sret_def sbind_def observe_def smodify_def)

lemma observeScope_ok: "\<exists>s'. observeScopeOutcome created expired x = (Inr (), s')"
proof -
  obtain s1 where "observeMany (length expired) (EvScope ''expired'') x = (Inr (), s1)" using observeMany_ok by blast
  then show ?thesis by (simp add: observeScopeOutcome_def sbind_def observe_def smodify_def sret_def)
qed

lemma leaseTaken_acquire:
  assumes acq: "acquireObserved busy scopeID ProfileStrict now (sv_store s) = (r, expired, store)"
  shows "leaseTaken s (sbind (smodify (\<lambda>s. s\<lparr>sv_store := store\<rparr>)) (\<lambda>_.
           sbind (observeScopeOutcome created expired) (\<lambda>_. takeLease cf r)) s)"
proof -
  obtain s2 where sc: "observeScopeOutcome created expired (s\<lparr>sv_store := store\<rparr>) = (Inr (), s2)"
    using observeScope_ok by blast
  have same: "leasesSame (s\<lparr>sv_store := store\<rparr>) s2" using keepsD[OF ls_scope sc] .
  have run: "sbind (smodify (\<lambda>s. s\<lparr>sv_store := store\<rparr>)) (\<lambda>_.
           sbind (observeScopeOutcome created expired) (\<lambda>_. takeLease cf r)) s = takeLease cf r s2"
    using sc by (simp add: sbind_def smodify_def)
  note leases = acquire_leases[OF acq]
  show ?thesis
  proof (cases r)
    case (Inl e)
    with leases same show ?thesis unfolding run by (simp add: takeLease_def sthrow_def leaseTaken_def leasesSame_def)
  next
    case (Inr q)
    then obtain l created where q: "r = Inr (l, created)" by (cases q) auto
    show ?thesis
    proof (cases "rs_lease (sv_req s)")
      case None
      with same have "rs_lease (sv_req s2) = None" by (simp add: leasesSame_def)
      then have "takeLease cf r s2 = (Inr (), s2\<lparr>sv_req := (sv_req s2)\<lparr>rs_lease := Some l\<rparr>\<rparr>)"
        using q by (simp add: takeLease_def sbind_def sget_def updReq_def smodify_def)
      with leases same q show ?thesis unfolding run by (simp add: leaseTaken_def leasesSame_def)
    qed (simp add: leaseTaken_def)
  qed
qed

lemma acquireLease_taken: "leaseTaken s (acquireLease cf s)"
proof -
  have scope: "keeps leasesSame (generateScopeID cf)"
    unfolding generateScopeID_def by (intro ls_rules)
  have setID: "keeps leasesSame (updReq (setScopeID scopeID))" for scopeID
    by (rule ls_updReq) (simp add: setScopeID_def)
  show ?thesis
    unfolding acquireLease_def takeLease_def[symmetric]
  proof (intro leaseTaken_sbind ls.keeps_sget leaseTaken_if leaseTaken_throw ls_tick)
    show "keeps leasesSame (if given \<noteq> [] then sret given
        else sbind (generateScopeID cf) (\<lambda>r. case r of
               None \<Rightarrow> sthrow (internalError ''scope'')
             | Some scopeID \<Rightarrow> sbind (updReq (setScopeID scopeID)) (\<lambda>_. sret scopeID)))" for given
      by (intro ls_rules scope) (simp split: option.split, intro allI impI conjI ls_rules setID)
    show "leaseTaken s' (case acquireObserved (cf_busy cf) scopeID ProfileStrict now (sv_store s') of
        (r, expired, store) \<Rightarrow>
          sbind (smodify (\<lambda>s. s\<lparr>sv_store := store\<rparr>)) (\<lambda>_.
          sbind (observeScopeOutcome (case r of Inr (_, created) \<Rightarrow> created | Inl _ \<Rightarrow> False) expired) (\<lambda>_. takeLease cf r)) s')"
      for scopeID now s'
      by (split prod.split, intro allI impI, split prod.split, intro allI impI, rule leaseTaken_acquire, simp)
  qed
qed

text \<open>What the deferred functions keep.\<close>

lemma leasesSame_observe: "leasesSame s (snd (observe e s))"
  using ls_observe by (simp add: keeps_def)

lemma leasesSame_observeRequest: "leasesSame s (snd (observeRequest p r s))"
proof -
  have "keeps leasesSame (observeRequest p r)"
    unfolding observeRequest_def by (intro ls.keeps_sbind ls.keeps_sget) (auto split: prod.split intro: ls_observe)
  then show ?thesis by (simp add: keeps_def)
qed

lemma leasesSame_receipt: "leasesSame s (finalizeInboundErrorReceipt cf p s)"
  using leasesSame_observe
  by (auto simp: finalizeInboundErrorReceipt_def Let_def ls.refl_R setReceiptIfEmpty_def leasesSame_def observe_def smodify_def
      split: option.splits bool.splits if_splits)

lemma leasesSame_failure: "leasesSame s (observeRequestFailure cf p e s)"
proof -
  have a: "leasesSame s (case ErrorInfo e of Some (_, code) \<Rightarrow> s\<lparr>sv_lastErrorCode := code\<rparr> | None \<Rightarrow> s)"
    by (auto simp: leasesSame_def split: option.split)
  have b: "leasesSame x (if c then snd (observe e' x) else x)" for c e' x
    using leasesSame_observe ls.refl_R by simp
  show ?thesis unfolding observeRequestFailure_def Let_def
    by (rule ls.trans_R[OF a ls.trans_R[OF b ls.trans_R[OF b leasesSame_observeRequest]]])
qed

lemma releaseLease_run:
  "releaseLease cf s = (Inr (), case rs_lease (sv_req s) of
     None \<Rightarrow> s\<lparr>sv_req := (sv_req s)\<lparr>rs_lease := None\<rparr>\<rparr>
   | Some l \<Rightarrow> s\<lparr>sv_req := (sv_req s)\<lparr>rs_lease := None\<rparr>, sv_ticks := Suc (sv_ticks s),
       sv_store := lease_Release l (cf_clock cf (sv_ticks s)) (sv_store s)\<rparr>)"
  by (simp add: releaseLease_def sbind_def sget_def updReq_def smodify_def tick_def sret_def split: option.split)

lemma leasesSame_live:
  "leasesSame s s' \<Longrightarrow> liveLeases (sv_store s') = liveLeases (sv_store s) \<and> rs_lease (sv_req s') = rs_lease (sv_req s)"
  using liveLeases_cong[of "sv_store s'" "sv_store s"] by (simp add: leasesSame_def)

lemma finishBefore_leases:
  assumes "rs_lease (sv_req s) = None" "finishBefore cf p (Some f) s = (r, s')"
  shows "leasesSame s s'"
proof -
  have same: "leasesSame x (observeRequestFailure cf p e (finalizeInboundErrorReceipt cf p x))" for x e
    using leasesSame_receipt leasesSame_failure by (rule ls.trans_R)
  have panic: "leasesSame s (recoverInboundPanic cf s)"
    using assms(1) by (simp add: recoverInboundPanic_def releaseLease_run leasesSame_def)
  show ?thesis
  proof (cases f)
    case (Fail e)
    with assms(2) have "s' = observeRequestFailure cf p e (finalizeInboundErrorReceipt cf p s)"
      by (simp add: finishBefore_def)
    with same show ?thesis by simp
  next
    case GoPanic
    with assms(2) have "s' = observeRequestFailure cf p (internalError ''input'')
        (finalizeInboundErrorReceipt cf p (recoverInboundPanic cf s))"
      by (simp add: finishBefore_def)
    with ls.trans_R[OF panic same] show ?thesis by simp
  qed
qed

lemma beforeStrict_gives_back:
  assumes run: "beforeStrict cf req s = (Some f, req', s')" and m: "mapperKeepsLeases cf" and none: "rs_lease (sv_req s) = None"
  shows "rs_lease (sv_req s') = None \<and> liveLeases (sv_store s') = liveLeases (sv_store s)"
proof -
  obtain q s1 where acq: "acquireLease cf s = (q, s1)" by fastforce
  note taken = acquireLease_taken[of s cf, unfolded acq leaseTaken_def, rule_format, OF none]
  show ?thesis
  proof (cases q)
    case (Inl e)
    with run acq have "s' = s1" by (simp add: beforeStrict_def)
    with Inl taken have "leasesSame s s'" by simp
    from leasesSame_live[OF this] none show ?thesis by simp
  next
    case (Inr u)
    let ?l = "length (st_leases (sv_store s))"
    let ?s2 = "s1\<lparr>sv_req := (sv_req s1)\<lparr>rs_validatedReplay := False, rs_profile := ProfileStrict\<rparr>\<rparr>"
    from Inr taken obtain p where l: "rs_lease (sv_req s1) = Some ?l"
      "st_leases (sv_store s1) = st_leases (sv_store s) @ [(p, False)]" by auto
    from run acq Inr obtain s3 where tr: "transformInbound cf (req\<lparr>cr_stream := False\<rparr>) ?s2 = (Some f, req', s3)"
      and s': "s' = snd (releaseLease cf s3)"
      by (auto simp: beforeStrict_def Let_def split: prod.splits option.splits)
    from transformInbound_leases[OF m tr] have s3: "rs_lease (sv_req s3) = Some ?l"
      "st_leases (sv_store s3) = st_leases (sv_store s) @ [(p, False)]"
      using l by (simp_all add: leasesSame_def)
    have "liveLeases (sv_store s3) = liveLeases (sv_store s) @ [?l]" using liveLeases_new[OF s3(2)] .
    moreover have "filter (\<lambda>k. k \<noteq> ?l) (liveLeases (sv_store s)) = liveLeases (sv_store s)"
      by (rule filter_True) (auto simp: liveLeases_def)
    ultimately have "liveLeases (lease_Release ?l now (sv_store s3)) = liveLeases (sv_store s)" for now
      using liveLeases_release[of ?l "sv_store s3" now] s3(2) by simp
    then show ?thesis using s' s3(1) by (simp add: releaseLease_run)
  qed
qed

text \<open>
  C39. A strict request that fails gives everything back: whatever stops it (an unavailable
  profile, a closed or full store, a blocked token, a residual finding, an internal error or
  a panic), afterwards the request holds no lease and the store's held leases are exactly
  those it had before, so the scope can expire and the failure leaks no capacity.
\<close>

theorem strict_failure_gives_back:
  assumes "Before cf req s = (Some e, req', s')" "mapperKeepsLeases cf"
    "cf_DefaultProfile cf = ProfileStrict \<or> requestedProfile s = ProfileStrict" "rs_lease (sv_req s) = None"
  shows "rs_lease (sv_req s') = None \<and> liveLeases (sv_store s') = liveLeases (sv_store s)"
proof (cases "resolveProfile cf (contextState s)")
  case (Inl e')
  with assms(1) have "finishBefore cf [] (Some (Fail e')) s = (Some e, s')"
    by (auto simp: Before_def split: prod.splits)
  from leasesSame_live[OF finishBefore_leases[OF assms(4) this]] assms(4) show ?thesis by simp
next
  case (Inr p)
  note strict = resolveProfile_strict[OF assms(3) Inr]
  obtain f req1 s1 where b0: "beforeStrict cf req s = (f, req1, s1)" by (metis prod.exhaust)
  have "cf_PIIEnabled cf" using assms(1) Inr by (cases "cf_PIIEnabled cf") (simp_all add: Before_def)
  with assms(1) Inr strict b0 have fin0: "finishBefore cf p f s1 = (Some e, s')"
    by (simp add: Before_def split: prod.splits)
  then obtain g where g: "f = Some g" by (cases f) (simp_all add: finishBefore_def)
  note b = b0[unfolded g] and fin = fin0[unfolded g]
  note backed = beforeStrict_gives_back[OF b assms(2,4)]
  from leasesSame_live[OF finishBefore_leases[OF conjunct1[OF backed] fin]] backed show ?thesis by simp
qed

section \<open>The strict response\<close>

lemma leasesSame_strictReceipt: "leasesSame s (snd (setStrictReceipt result s))"
proof -
  have "keeps leasesSame (setStrictReceipt result)"
    unfolding setStrictReceipt_def Let_def by (intro ls_rules)
  then show ?thesis by (simp add: keeps_def)
qed

text \<open>The request has ended: its lease is given back.\<close>

definition settledAfter :: "nat \<Rightarrow> svcState \<Rightarrow> svcState \<Rightarrow> bool" where
  "settledAfter l s s' \<longleftrightarrow> rs_lease (sv_req s') = None \<and> rs_profile (sv_req s') = rs_profile (sv_req s)
    \<and> sv_stamped s' = sv_stamped s \<and> liveLeases (sv_store s') = filter (\<lambda>k. k \<noteq> l) (liveLeases (sv_store s))"

lemma releaseLease_settles:
  assumes same: "leasesSame s s1" and l: "rs_lease (sv_req s) = Some l" "l < length (st_leases (sv_store s))"
  shows "settledAfter l s (snd (releaseLease cf s1))"
proof -
  have "rs_lease (sv_req s1) = Some l" "l < length (st_leases (sv_store s1))" using same l by (simp_all add: leasesSame_def)
  with liveLeases_release[of l "sv_store s1"] leasesSame_live[OF same] same l(1) show ?thesis
    by (simp add: releaseLease_run settledAfter_def leasesSame_def)
qed

lemma finishStrictAfter_settles:
  assumes same: "leasesSame s s1" and l: "rs_lease (sv_req s) = Some l" "l < length (st_leases (sv_store s))"
    and run: "finishStrictAfter cf fail s1 = (e, s')"
  shows "e \<noteq> None \<and> settledAfter l s s'"
proof -
  define err where "err = (case fail of Fail e \<Rightarrow> e | GoPanic \<Rightarrow> internalError ''output'')"
  obtain q s2 where r: "setStrictReceipt (if pe_Code err = CodeOutputBlocked then ''block'' else ''error'') s1 = (q, s2)"
    by fastforce
  have s2: "leasesSame s s2" using ls.trans_R[OF same leasesSame_strictReceipt] r by (metis snd_conv)
  have s3: "leasesSame s (observeRequestFailure cf p e2 s2)" for p e2
    using ls.trans_R[OF s2 leasesSame_failure] .
  from run r have "e \<noteq> None \<and> (s' = snd (releaseLease cf s2) \<or> (\<exists>e2. s' = snd (releaseLease cf (observeRequestFailure cf ProfileStrict e2 s2))))"
    by (auto simp: finishStrictAfter_def Let_def err_def[symmetric] split: sum.splits svcFail.splits)
  with releaseLease_settles[OF s2 l] releaseLease_settles[OF s3 l] show ?thesis by blast
qed

lemma afterStrict_settles:
  assumes m: "mapperKeepsLeases cf" and l: "rs_lease (sv_req s) = Some l" "l < length (st_leases (sv_store s))"
    and run: "afterStrict cf net resp s = (e, resp', s')"
  shows "settledAfter l s s' \<and> (e \<noteq> None \<longrightarrow> resp' = resp)"
proof -
  have fin: "leasesSame s s1 \<Longrightarrow> finishStrictAfter cf fail s1 = (r, s2) \<Longrightarrow> settledAfter l s s2" for s1 fail r s2
    using finishStrictAfter_settles[OF _ l] by blast
  have ok: "leasesSame s s1 \<Longrightarrow> settledAfter l s (snd (releaseLease cf (snd (observeRequest ProfileStrict x (snd (setStrictReceipt y s1))))))" for s1 x y
    by (rule releaseLease_settles[OF ls.trans_R[OF _ ls.trans_R[OF leasesSame_strictReceipt leasesSame_observeRequest]] l])
  have rc: "leasesSame s s1 \<Longrightarrow> setStrictReceipt y s1 = (q, s2) \<Longrightarrow> leasesSame s s2" for s1 y q s2
    using ls.trans_R[OF _ leasesSame_strictReceipt, of s s1 y] by simp
  show ?thesis
  proof (cases resp)
    case None
    obtain q s1 where r: "setStrictReceipt ''error'' s = (q, s1)" by fastforce
    show ?thesis
    proof (cases q)
      case (Inl fail)
      with None r run fin[OF rc[OF ls.refl_R r]] show ?thesis by (auto simp: afterStrict_def split: prod.splits)
    next
      case (Inr u)
      with None r run ok[OF ls.refl_R, of "''error''" "''error''"] show ?thesis by (auto simp: afterStrict_def)
    qed
  next
    case (Some original)
    note resp = Some
    show ?thesis
    proof (cases "cloneChatResponse original")
      case None
      with resp run fin[OF ls.refl_R] show ?thesis by (auto simp: afterStrict_def split: prod.splits)
    next
      case (Some working)
      obtain f working' s1 where t: "transformOutbound cf net working s = (f, working', s1)" by (metis prod.exhaust)
      have s1: "leasesSame s s1" by (rule frameRel_leases[OF transformOutbound_leases[OF m t]])
      show ?thesis
      proof (cases f)
        case (Some fail)
        with resp \<open>cloneChatResponse original = Some working\<close> t run fin[OF s1] show ?thesis
          by (auto simp: afterStrict_def split: prod.splits)
      next
        case None
        obtain q s2 where r: "setStrictReceipt ''pass'' s1 = (q, s2)" by fastforce
        show ?thesis
        proof (cases q)
          case (Inl fail)
          with None resp Some t r run fin[OF rc[OF s1 r]] show ?thesis by (auto simp: afterStrict_def split: prod.splits)
        next
          case (Inr u)
          with None resp Some t r run ok[OF s1, of "''pass''" "''pass''"] show ?thesis by (auto simp: afterStrict_def)
        qed
      qed
    qed
  qed
qed

text \<open>
  C40. A strict response settles the request once: after \<open>After\<close>, whatever its outcome, the
  lease of the request and no other is released, an error leaves the response as the model
  produced it (which the caller then withholds), and a further \<open>After\<close> on the same request
  does nothing.
\<close>

theorem strict_response_settles_once:
  assumes "After cf net resp s = (e, resp', s')" "cf_PIIEnabled cf" "mapperKeepsLeases cf" "sv_stamped s"
    "rs_profile (sv_req s) = ProfileStrict" "rs_lease (sv_req s) = Some l" "l < length (st_leases (sv_store s))"
    "\<not> rs_afterStarted (sv_req s)"
  shows "rs_lease (sv_req s') = None \<and> liveLeases (sv_store s') = filter (\<lambda>k. k \<noteq> l) (liveLeases (sv_store s))
    \<and> (e \<noteq> None \<longrightarrow> resp' = resp) \<and> (\<forall>resp2. After cf net resp2 s' = (None, resp2, s'))"
proof -
  let ?s = "s\<lparr>sv_req := (sv_req s)\<lparr>rs_afterStarted := True\<rparr>\<rparr>"
  have "afterStrict cf net resp ?s = (e, resp', s')"
    using assms by (simp add: After_def beginAfter_def)
  from afterStrict_settles[OF assms(3) _ _ this, of l] assms have r: "settledAfter l ?s s'" "e \<noteq> None \<longrightarrow> resp' = resp" by auto
  then have "After cf net resp2 s' = (None, resp2, s')" for resp2
    using assms(2,4,5) by (simp add: After_def settledAfter_def beginAfter_def)
  with r show ?thesis by (simp add: settledAfter_def)
qed

section \<open>A run of the strict profile\<close>

definition exClassify :: "string \<Rightarrow> string \<Rightarrow> Finding list" where
  "exClassify key v = (if take 3 v = ''bob'' then [\<lparr>f_Entity = ''PERSON'', f_Category = CategoryPersonal, f_Kind = MatchNER,
     f_Start = 0, f_End = 3, f_RegistryOrder = 0\<rparr>] else [])"

definition exService :: svcConfig where
  "exService = \<lparr>cf_env = asciiEnv, cf_crypto = toyCrypto, cf_clock = (\<lambda>n. int n), cf_busy = (\<lambda>_. False), cf_lifecycleID = 1,
     cf_DefaultProfile = ProfileStrict, cf_RequestProfiles = [ProfileStrict], cf_AliasKey = ''k'',
     cf_SecretAction = ActionReplace, cf_TechnicalAction = ActionPseudonymize, cf_PIIEnabled = True,
     cf_PIIMode = ActionDrop, cf_PIIHashKey = [], cf_PIIEncryptKey = [], cf_PIIEntityActions = [],
     cf_Recognizers = [''PERSON''], cf_NEREnabled = False,
     cf_Classifier = Some \<lparr>cl_Classify = exClassify, cl_Candidates = None\<rparr>, cf_SecretClassifier = False,
     cf_mapper = (\<lambda>l e t p now st. (Inr t, zero_outcome, st))\<rparr>"

definition exStore :: ScopeStore where
  "exStore = \<lparr>st_shutdown = False, st_config = \<lparr>cfg_TTL = 10, cfg_MaxScopes = 1, cfg_MaxEntriesPerScope = 1, cfg_MaxTotalEntries = 1\<rparr>,
     st_scopes = [], st_heap = [], st_leases = [], st_coordByScope = [], st_coordByIndex = [], st_total = 0,
     st_tombs = [], st_ring = [zero_tombstone], st_head = 0, st_tlen = 0, st_nextSeq = 0\<rparr>"

definition exRequestState :: RequestState where
  "exRequestState = \<lparr>rs_metadata = \<lparr>md_RequestedProfile = [], md_ScopeID = ''s'', md_Surface = [], md_Workload = []\<rparr>,
     rs_invalidScope = False, rs_profile = [], rs_transformed = 0, rs_restored = 0, rs_blocked = 0,
     rs_standardInboundService = 0, rs_streamRequested = False, rs_validatedReplay = False, rs_lease = None,
     rs_afterStarted = False, rs_authorizedTokens = [], rs_authorizedOccurrences = [], rs_receipt = []\<rparr>"

definition exSvcState :: svcState where
  "exSvcState = \<lparr>sv_store = exStore, sv_hasStore = True, sv_stamped = True, sv_req = exRequestState, sv_closed = False,
     sv_requestsProtected = 0, sv_requestsBlocked = 0, sv_lastErrorCode = [], sv_ticks = 0, sv_rands = 0, sv_events = [],
     sv_counters = [], sv_next = [], sv_ordinal = 0,
     sv_auth = \<lparr>oa_occurrences = [], oa_preserved = [], oa_finalArtifacts = [], oa_restored = []\<rparr>\<rparr>"

definition exRequest :: cRequest where
  "exRequest = \<lparr>cr_system = ''bob x'', cr_messages = [], cr_stream = True\<rparr>"




text \<open>A service configured with an action it does not know fails after it took the lease.\<close>

definition exUnknown :: svcConfig where
  "exUnknown = exService\<lparr>cf_PIIMode := ActionUnknown ''rot13''\<rparr>"

lemma exUnknown_strict: "fst (beforeStrict exUnknown exRequest exSvcState) = Some (Fail (internalError ''action''))"
  by code_simp

lemma exUnknown_fails: "fst (Before exUnknown exRequest exSvcState) = Some (internalError ''action'')"
proof -
  have "resolveProfile exUnknown (contextState exSvcState) = Inr ProfileStrict" by code_simp
  moreover have "cf_PIIEnabled exUnknown" by (simp add: exUnknown_def exService_def)
  moreover obtain req' s' where "beforeStrict exUnknown exRequest exSvcState = (Some (Fail (internalError ''action'')), req', s')"
    using exUnknown_strict by (metis prod.collapse)
  ultimately show ?thesis by (simp add: Before_def finishBefore_def)
qed

lemma exService_mapper: "mapperKeepsLeases exService" "mapperKeepsLeases exUnknown"
  by (simp_all add: mapperKeepsLeases_def exService_def exUnknown_def)

theorem strict_failure_gives_back_witness:
  "\<exists>req' s'. Before exUnknown exRequest exSvcState = (Some (internalError ''action''), req', s')
    \<and> rs_lease (sv_req s') = None \<and> liveLeases (sv_store s') = []"
proof -
  obtain req' s' where run: "Before exUnknown exRequest exSvcState = (Some (internalError ''action''), req', s')"
    using exUnknown_fails by (metis prod.collapse)
  from strict_failure_gives_back[OF run exService_mapper(2)] run show ?thesis
    by (auto simp: exUnknown_def exService_def exSvcState_def exRequestState_def liveLeases_def exStore_def)
qed

text \<open>The response to the first request, in the state that its \<open>Before\<close> leaves.\<close>

definition exHeld :: svcState where
  "exHeld = snd (snd (Before exService exRequest exSvcState))"

definition exNet :: netEnv where "exNet = \<lparr>ne_in198 = (\<lambda>_. False), ne_inDB8 = (\<lambda>_. False)\<rparr>"

lemma exHeld_state:
  "sv_stamped exHeld" "rs_profile (sv_req exHeld) = ProfileStrict" "rs_lease (sv_req exHeld) = Some 0"
  "length (st_leases (sv_store exHeld)) = 1" "rs_afterStarted (sv_req exHeld) = False" "liveLeases (sv_store exHeld) = [0]"
  by code_simp+

theorem strict_response_settles_once_witness:
  "\<exists>e s'. After exService exNet None exHeld = (e, None, s') \<and> liveLeases (sv_store s') = []
    \<and> After exService exNet None s' = (None, None, s')"
proof -
  obtain e resp' s' where run: "After exService exNet None exHeld = (e, resp', s')" by (metis prod.collapse)
  have "cf_PIIEnabled exService" by (simp add: exService_def)
  from strict_response_settles_once[OF run this exService_mapper(1), of 0] exHeld_state
  have r: "liveLeases (sv_store s') = []" "\<forall>resp2. After exService exNet resp2 s' = (None, resp2, s')" by simp_all
  have "resp' = None" using run exHeld_state by (auto simp: After_def afterStrict_def exService_def split: option.splits sum.splits prod.splits)
  with run r show ?thesis by blast
qed

end
