(* ===== verification/Pool.thy ===== *)
theory Pool
  imports GatewayPrelude
begin

text \<open>
  The warm worker pool, \<open>internal/pool/pool.go\<close>, with the exit watcher (\<open>exit_watcher.go\<close>), the
  idle recycler (\<open>idle_recycle.go\<close>) and the defaults of \<open>config.go\<close>.

  A slot is a pointer: an index into \<open>pl_heap\<close>. The channel \<open>p.slots\<close> is the list \<open>pl_slots\<close>,
  \<open>p.all\<close> is \<open>pl_all\<close>. A client (a worker process with its connection) is named by a number;
  \<open>pl_open\<close> is not a field of the source but the set of worker processes that were spawned and
  not yet closed, so that a theorem can speak about leaked processes.

  Every region between \<open>p.mu.Lock\<close> and \<open>p.mu.Unlock\<close> is one function on the pool. Calls of the
  client and of the factory happen outside the lock; their results are arguments.
\<close>

section \<open>Data\<close>

datatype respawnCause = respawnCauseLazy | respawnCauseRecycle

definition successReason :: "respawnCause \<Rightarrow> string" where
  "successReason c = (if c = respawnCauseRecycle then ''recycle-respawn-success'' else ''lazy-respawn-success'')"

datatype recycleReason = recycleReasonMaxTurns | recycleReasonIdleMemory

record recycleTrigger =
  rt_reason :: recycleReason
  rt_turns :: nat
  rt_userRequests :: nat
  rt_pid :: int
  rt_rssBytes :: nat
  rt_idle :: int

datatype pool_err =
    ErrPoolExhausted
  | ErrPoolClosed
  | ErrRespawnPoolClosed
  | ErrAcquireCancelled
  | ErrUnknownSession
  | ErrCtx
  | ErrClient string

text \<open>\<open>errors.Is(err, context.Canceled) || errors.Is(err, context.DeadlineExceeded)\<close>.\<close>

definition is_ctx :: "pool_err \<Rightarrow> bool" where
  "is_ctx e = (e = ErrCtx)"

record PoolConfig =
  pc_Size :: int
  pc_AcquireTimeout :: int
  pc_PingInterval :: int
  pc_MaxWorkerTurns :: int
  pc_IdleRecycleAfter :: int
  pc_IdleRecycleMemoryBytes :: nat
  pc_WorkerMemorySupported :: bool

text \<open>
  The environment variable is an argument: \<open>None\<close> when it is unset or empty, \<open>Some None\<close> when it
  does not parse, \<open>Some (Some ms)\<close> otherwise. The default factory and clock are parameters of
  the model and have no field.
\<close>

definition pool_applyDefaults :: "int option option \<Rightarrow> PoolConfig \<Rightarrow> PoolConfig" where
  "pool_applyDefaults env c =
     (let c1 = (if pc_Size c \<le> 0 then c\<lparr>pc_Size := 1\<rparr> else c)
      in if pc_AcquireTimeout c1 = 0
         then (case env of
                 Some (Some ms) \<Rightarrow>
                   if ms > 0 then c1\<lparr>pc_AcquireTimeout := ms * 1000000\<rparr>
                   else c1\<lparr>pc_AcquireTimeout := 30000 * 1000000\<rparr>
               | _ \<Rightarrow> c1\<lparr>pc_AcquireTimeout := 30000 * 1000000\<rparr>)
         else c1)"

record Slot =
  sl_Label :: nat
  sl_Client :: "nat option"
  sl_dead :: bool
  sl_turns :: nat
  sl_respawning :: bool
  sl_spawnedAt :: gotime
  sl_userRequests :: nat
  sl_lastUserReleaseAt :: gotime
  sl_checkedOut :: bool

record promptSequenceState =
  sq_holds :: nat
  sq_promptPending :: bool
  sq_promptActive :: bool
  sq_cancelRequested :: bool
  sq_cancelComplete :: bool

definition zero_sequence :: promptSequenceState where
  "zero_sequence = \<lparr>sq_holds = 0, sq_promptPending = False, sq_promptActive = False,
     sq_cancelRequested = False, sq_cancelComplete = False\<rparr>"

record Pool =
  pl_cfg :: PoolConfig
  pl_slots :: "nat list"
  pl_all :: "nat list"
  pl_heap :: "Slot list"
  pl_recyclesInFlight :: nat
  pl_sessionSlots :: "(string, nat) gomap"
  pl_sessionSequences :: "(string, promptSequenceState) gomap"
  pl_closed :: bool
  pl_closing :: bool
  pl_lastSpawnErr :: "pool_err option"
  pl_lastSpawnErrAt :: gotime
  pl_respawns :: nat
  pl_recycles :: nat
  pl_open :: "nat set"

text \<open>The capacity of the channel.\<close>

definition cap :: "Pool \<Rightarrow> nat" where
  "cap p = nat (pc_Size (pl_cfg p))"

definition pool_New :: "int option option \<Rightarrow> PoolConfig \<Rightarrow> Pool" where
  "pool_New env cfg =
     \<lparr>pl_cfg = pool_applyDefaults env cfg, pl_slots = [], pl_all = [], pl_heap = [],
      pl_recyclesInFlight = 0, pl_sessionSlots = [], pl_sessionSequences = [], pl_closed = False,
      pl_closing = False, pl_lastSpawnErr = None, pl_lastSpawnErrAt = 0, pl_respawns = 0,
      pl_recycles = 0, pl_open = {}\<rparr>"

text \<open>Write access to a slot through its pointer, to the sequence state of a session, and the effect of \<open>Client.Close\<close>.\<close>

definition upd_slot :: "nat \<Rightarrow> (Slot \<Rightarrow> Slot) \<Rightarrow> Pool \<Rightarrow> Pool" where
  "upd_slot i f p = p\<lparr>pl_heap := (pl_heap p)[i := f (pl_heap p ! i)]\<rparr>"

definition put_seq :: "string \<Rightarrow> promptSequenceState \<Rightarrow> Pool \<Rightarrow> Pool" where
  "put_seq sid st p = p\<lparr>pl_sessionSequences := gm_put sid st (pl_sessionSequences p)\<rparr>"

definition del_seq :: "string \<Rightarrow> Pool \<Rightarrow> Pool" where
  "del_seq sid p = p\<lparr>pl_sessionSequences := gm_del sid (pl_sessionSequences p)\<rparr>"

definition client_Close :: "nat option \<Rightarrow> Pool \<Rightarrow> Pool" where
  "client_Close c p = (case c of None \<Rightarrow> p | Some k \<Rightarrow> p\<lparr>pl_open := pl_open p - {k}\<rparr>)"

section \<open>The free channel\<close>

definition markSlotCheckedOut :: "nat \<Rightarrow> Pool \<Rightarrow> Pool" where
  "markSlotCheckedOut i p = upd_slot i (\<lambda>s. s\<lparr>sl_checkedOut := True\<rparr>) p"

definition tryReturnSlotLocked :: "nat \<Rightarrow> Pool \<Rightarrow> bool \<times> Pool" where
  "tryReturnSlotLocked i p =
     (if length (pl_slots p) < cap p
      then (True, upd_slot i (\<lambda>s. s\<lparr>sl_checkedOut := False\<rparr>) (p\<lparr>pl_slots := pl_slots p @ [i]\<rparr>))
      else (False, p))"

text \<open>The receive \<open>slot = <-p.slots\<close> of a channel that is not empty.\<close>

definition slots_recv :: "Pool \<Rightarrow> (nat \<times> Pool) option" where
  "slots_recv p = (case pl_slots p of [] \<Rightarrow> None | i # is \<Rightarrow> Some (i, p\<lparr>pl_slots := is\<rparr>))"

definition slotAlive :: "nat \<Rightarrow> Pool \<Rightarrow> bool" where
  "slotAlive i p = (\<not> sl_dead (pl_heap p ! i))"

definition recordSpawnErr :: "pool_err \<Rightarrow> gotime \<Rightarrow> Pool \<Rightarrow> Pool" where
  "recordSpawnErr e now p = p\<lparr>pl_lastSpawnErr := Some e, pl_lastSpawnErrAt := now\<rparr>"

definition IsExhausted :: "Pool \<Rightarrow> bool" where
  "IsExhausted p = (length (pl_slots p) = 0)"

section \<open>Respawning a slot\<close>

text \<open>Step 0 marks the slot; step 1 closes the old client.\<close>

definition respawn_mark :: "nat \<Rightarrow> Pool \<Rightarrow> Pool" where
  "respawn_mark i p = upd_slot i (\<lambda>s. s\<lparr>sl_respawning := True\<rparr>) p"

definition respawn_close_old :: "nat \<Rightarrow> Pool \<Rightarrow> Pool" where
  "respawn_close_old i p = client_Close (sl_Client (pl_heap p ! i)) p"

text \<open>The section after a failed \<open>Spawn\<close> or \<open>Initialize\<close>, with \<open>recordSpawnErr\<close>.\<close>

definition respawn_clear :: "nat \<Rightarrow> respawnCause \<Rightarrow> Pool \<Rightarrow> Pool" where
  "respawn_clear i cause p =
     upd_slot i (\<lambda>s. if cause = respawnCauseRecycle then s\<lparr>sl_dead := True, sl_respawning := False\<rparr>
                     else s\<lparr>sl_respawning := False\<rparr>) p"

definition respawn_fail :: "nat \<Rightarrow> respawnCause \<Rightarrow> pool_err \<Rightarrow> gotime \<Rightarrow> Pool \<Rightarrow> Pool" where
  "respawn_fail i cause e now p =
     (let p1 = respawn_clear i cause p
      in if cause = respawnCauseLazy \<and> is_ctx e then p1 else recordSpawnErr e now p1)"

text \<open>Step 4: the swap, or the abort of a closed pool, which closes the fresh client.\<close>

definition respawn_swap :: "nat \<Rightarrow> respawnCause \<Rightarrow> nat \<Rightarrow> gotime \<Rightarrow> Pool \<Rightarrow> pool_err option \<times> Pool" where
  "respawn_swap i cause k now p =
     (if pl_closed p
      then (Some ErrRespawnPoolClosed, client_Close (Some k) (respawn_clear i cause p))
      else (None,
        (let p1 = upd_slot i (\<lambda>s. s\<lparr>sl_Client := Some k, sl_dead := False, sl_turns := 0,
                sl_respawning := False, sl_spawnedAt := now, sl_userRequests := 0,
                sl_lastUserReleaseAt := 0\<rparr>) p
         in if cause = respawnCauseRecycle then p1\<lparr>pl_recycles := pl_recycles p1 + 1\<rparr>
            else p1\<lparr>pl_respawns := pl_respawns p1 + 1\<rparr>)))"

text \<open>
  The whole operation for given answers of the factory (the error, or the new client) and of
  \<open>Initialize\<close> (\<open>None\<close> is success).
\<close>

definition respawnSlot ::
  "nat \<Rightarrow> respawnCause \<Rightarrow> (pool_err + nat) \<Rightarrow> pool_err option \<Rightarrow> gotime \<Rightarrow> Pool \<Rightarrow> pool_err option \<times> Pool" where
  "respawnSlot i cause spawned initialized now p =
     (let p1 = respawn_close_old i (respawn_mark i p)
      in case spawned of
           Inl e \<Rightarrow> (Some e, respawn_fail i cause e now p1)
         | Inr k \<Rightarrow>
             let p2 = p1\<lparr>pl_open := insert k (pl_open p1)\<rparr>
             in case initialized of
                  Some e \<Rightarrow> (Some e, respawn_fail i cause e now (client_Close (Some k) p2))
                | None \<Rightarrow> respawn_swap i cause k now p2)"

section \<open>Warmup\<close>

text \<open>
  The answers the workers give during boot: to \<open>Spawn\<close> and \<open>Initialize\<close> of slot \<open>i\<close>, to the
  catalog probe of attempt \<open>a\<close> on slot 0 (the error, or the models), whether the context ended
  during the wait after attempt \<open>a\<close>, and to the respawn of a worn slot.
\<close>

record boot =
  bt_spawn :: "nat \<Rightarrow> pool_err + nat"
  bt_init :: "nat \<Rightarrow> pool_err option"
  bt_probe :: "nat \<Rightarrow> pool_err + ModelInfo list"
  bt_ctxDone :: "nat \<Rightarrow> bool"
  bt_respawn :: "nat \<Rightarrow> pool_err + nat"
  bt_reinit :: "nat \<Rightarrow> pool_err option"
  bt_now :: gotime

definition initSlot :: "boot \<Rightarrow> nat \<Rightarrow> Pool \<Rightarrow> (pool_err + nat) \<times> Pool" where
  "initSlot b label p =
     (case bt_spawn b label of
        Inl e \<Rightarrow> (Inl e, p)
      | Inr k \<Rightarrow>
          let p1 = p\<lparr>pl_open := insert k (pl_open p)\<rparr>
          in case bt_init b label of
               Some e \<Rightarrow> (Inl e, client_Close (Some k) p1)
             | None \<Rightarrow> (Inr (length (pl_heap p)),
                 p1\<lparr>pl_heap := pl_heap p @ [\<lparr>sl_Label = label, sl_Client = Some k, sl_dead = False,
                   sl_turns = 0, sl_respawning = False, sl_spawnedAt = bt_now b, sl_userRequests = 0,
                   sl_lastUserReleaseAt = 0, sl_checkedOut = False\<rparr>]\<rparr>))"

definition probeCatalogOnce :: "nat \<Rightarrow> pool_err + ModelInfo list \<Rightarrow> Pool \<Rightarrow> (pool_err + ModelInfo list) \<times> Pool" where
  "probeCatalogOnce i answer p =
     (case answer of
        Inl e \<Rightarrow> (Inl e, p)
      | Inr models \<Rightarrow> (Inr models, upd_slot i (\<lambda>s. s\<lparr>sl_turns := sl_turns s + 1\<rparr>) p))"

text \<open>\<open>retries\<close> is \<open>len(p.catalogRetry)\<close>.\<close>

function captureCatalogWithRetry :: "boot \<Rightarrow> nat \<Rightarrow> nat \<Rightarrow> nat \<Rightarrow> Pool \<Rightarrow> ModelInfo list \<times> Pool" where
  "captureCatalogWithRetry b retries i attempt p =
     (let (r, p1) = probeCatalogOnce i (bt_probe b attempt) p
      in case r of
           Inr (m # ms) \<Rightarrow> (m # ms, p1)
         | _ \<Rightarrow> if attempt \<ge> retries then ([], p1)
                else if bt_ctxDone b attempt then ([], p1)
                else captureCatalogWithRetry b retries i (attempt + 1) p1)"
  by pat_completeness auto
termination
  by (relation "measure (\<lambda>(b, retries, i, attempt, p). retries - attempt)") auto

declare captureCatalogWithRetry.simps [simp del]

definition defaultCatalogRetry :: "int list" where
  "defaultCatalogRetry = [250 * 1000000, 500 * 1000000, 1000 * 1000000]"

text \<open>
  \<open>closeAll\<close>: the sessions whose clients get a cancel, the clients in the order they are closed,
  and the pool.
\<close>

definition closeAll :: "Pool \<Rightarrow> (string \<times> nat) list \<times> nat list \<times> Pool" where
  "closeAll p =
     (let targets = List.map_filter (\<lambda>i. sl_Client (pl_heap p ! i)) (pl_all p);
          inflight = List.map_filter (\<lambda>(sid, i). map_option (\<lambda>k. (sid, k)) (sl_Client (pl_heap p ! i)))
            (pl_sessionSlots p)
      in (inflight, rev targets,
          p\<lparr>pl_all := [], pl_sessionSequences := [], pl_closed := True,
             pl_open := pl_open p - set targets\<rparr>))"

text \<open>One turn of the loop of \<open>Warmup\<close>: the error that aborts the boot, or the models of slot 0.\<close>

definition warmup_slot :: "boot \<Rightarrow> nat \<Rightarrow> Pool \<Rightarrow> (pool_err + ModelInfo list) \<times> Pool" where
  "warmup_slot b i p =
     (case initSlot b i p of
        (Inl e, p1) \<Rightarrow> (Inl e, snd (snd (closeAll p1)))
      | (Inr slot, p1) \<Rightarrow>
          let (models, p2) = (if i = 0 then captureCatalogWithRetry b (length defaultCatalogRetry) slot 0 p1
                              else ([], p1));
              p3 = p2\<lparr>pl_all := pl_all p2 @ [slot]\<rparr>;
              turns = sl_turns (pl_heap p3 ! slot)
          in if pc_MaxWorkerTurns (pl_cfg p3) > 0 \<and> int turns \<ge> pc_MaxWorkerTurns (pl_cfg p3)
             then case respawnSlot slot respawnCauseRecycle (bt_respawn b i) (bt_reinit b i) (bt_now b) p3 of
                    (Some e, p4) \<Rightarrow> (Inl e, snd (snd (closeAll p4)))
                  | (None, p4) \<Rightarrow> (Inr models, p4\<lparr>pl_slots := pl_slots p4 @ [slot]\<rparr>)
             else (Inr models, p3\<lparr>pl_slots := pl_slots p3 @ [slot]\<rparr>))"

fun warmup_loop :: "boot \<Rightarrow> nat list \<Rightarrow> Pool \<Rightarrow> pool_err option \<times> Pool" where
  "warmup_loop b [] p = (None, p)"
| "warmup_loop b (i # is) p =
     (case warmup_slot b i p of
        (Inl e, p1) \<Rightarrow> (Some e, p1)
      | (Inr models, p1) \<Rightarrow> warmup_loop b is p1)"

definition Warmup :: "boot \<Rightarrow> Pool \<Rightarrow> pool_err option \<times> Pool" where
  "Warmup b p = warmup_loop b [0..<cap p] p"

section \<open>Views\<close>

record Stats =
  sa_Size :: int
  sa_Alive :: nat
  sa_Busy :: nat

definition slot_serving :: "Slot \<Rightarrow> bool" where
  "slot_serving s = (sl_Client s \<noteq> None \<and> \<not> sl_dead s \<and> \<not> sl_respawning s)"

definition pool_alive :: "Pool \<Rightarrow> nat" where
  "pool_alive p = length (filter (\<lambda>i. slot_serving (pl_heap p ! i)) (pl_all p))"

text \<open>\<open>busy\<close> is negative only if the channel holds more slots than \<open>p.all\<close>; the source then reports 0, as \<open>nat\<close> does.\<close>

definition pool_busy :: "Pool \<Rightarrow> nat" where
  "pool_busy p = nat (int (length (pl_all p)) - int (length (pl_slots p)))"

definition pool_Stats :: "Pool \<Rightarrow> Stats" where
  "pool_Stats p = \<lparr>sa_Size = pc_Size (pl_cfg p), sa_Alive = pool_alive p, sa_Busy = pool_busy p\<rparr>"

record HealthSummary =
  hs_Size :: int
  hs_Alive :: nat
  hs_Busy :: nat
  hs_Healthy :: bool
  hs_LastSpawnError :: "pool_err option"
  hs_LastSpawnErrAt :: gotime
  hs_SpawnFailing :: bool

definition pool_HealthSummary :: "gotime \<Rightarrow> Pool \<Rightarrow> HealthSummary" where
  "pool_HealthSummary now p =
     \<lparr>hs_Size = pc_Size (pl_cfg p), hs_Alive = pool_alive p, hs_Busy = pool_busy p,
      hs_Healthy = (pc_Size (pl_cfg p) = 0 \<or> pool_alive p > 0),
      hs_LastSpawnError = pl_lastSpawnErr p, hs_LastSpawnErrAt = pl_lastSpawnErrAt p,
      hs_SpawnFailing = (pl_lastSpawnErr p \<noteq> None \<and> pl_lastSpawnErrAt p \<noteq> 0 \<and>
        now - pl_lastSpawnErrAt p < 2 * pc_PingInterval (pl_cfg p))\<rparr>"

record AgentSlot =
  ag_Label :: nat
  ag_Alive :: bool
  ag_Busy :: bool
  ag_CheckedOut :: bool
  ag_CurrentSessionID :: "string option"
  ag_Turns :: nat
  ag_SpawnedAt :: "gotime option"
  ag_Pid :: int
  ag_UserRequests :: nat
  ag_LastUserReleaseAt :: "gotime option"

text \<open>
  \<open>slotToSID\<close> is the inverted session map; the range loop writes every pair, so a later pair of
  the same slot overwrites an earlier one.
\<close>

definition slotToSID :: "Pool \<Rightarrow> nat \<Rightarrow> string option" where
  "slotToSID p i = map_of (rev (map (\<lambda>(sid, j). (j, sid)) (pl_sessionSlots p))) i"

definition pool_Detail :: "(nat \<Rightarrow> int) \<Rightarrow> Pool \<Rightarrow> AgentSlot list" where
  "pool_Detail pid p = map (\<lambda>i. let s = pl_heap p ! i in
     \<lparr>ag_Label = sl_Label s, ag_Alive = (\<not> sl_dead s \<and> \<not> sl_respawning s),
      ag_Busy = (slotToSID p i \<noteq> None), ag_CheckedOut = sl_checkedOut s,
      ag_CurrentSessionID = slotToSID p i, ag_Turns = sl_turns s,
      ag_SpawnedAt = (if sl_spawnedAt s = 0 then None else Some (sl_spawnedAt s)),
      ag_Pid = (case sl_Client s of
          Some k \<Rightarrow> if \<not> sl_dead s \<and> \<not> sl_respawning s \<and> pid k > 0 then pid k else 0
        | None \<Rightarrow> 0),
      ag_UserRequests = sl_userRequests s,
      ag_LastUserReleaseAt = (if sl_lastUserReleaseAt s = 0 then None else Some (sl_lastUserReleaseAt s))\<rparr>)
     (pl_all p)"

record WorkerProc =
  wp_Label :: nat
  wp_Pid :: int
  wp_UserRequests :: nat
  wp_Idle :: int

definition WorkerProcs :: "(nat \<Rightarrow> int) \<Rightarrow> gotime \<Rightarrow> Pool \<Rightarrow> WorkerProc list" where
  "WorkerProcs pid now p = List.map_filter (\<lambda>i. let s = pl_heap p ! i in
     case sl_Client s of
       None \<Rightarrow> None
     | Some k \<Rightarrow>
         if sl_dead s \<or> sl_respawning s \<or> pid k \<le> 0 then None
         else Some \<lparr>wp_Label = sl_Label s, wp_Pid = pid k, wp_UserRequests = sl_userRequests s,
           wp_Idle = (if \<not> sl_checkedOut s \<and> sl_lastUserReleaseAt s \<noteq> 0
                      then max 0 (now - sl_lastUserReleaseAt s) else 0)\<rparr>) (pl_all p)"

end
