(* ===== verification/PoolSessions.thy ===== *)
theory PoolSessions
  imports Pool
begin

text \<open>
  The session operations of the pool: \<open>NewSession\<close>, prompt sequences, \<open>Prompt\<close>, \<open>Cancel\<close>, the
  release and recycling of slots, \<open>Close\<close>, the exit watcher and the idle sweep. A section that takes the
  slot of a session out of the map returns it, and the caller goes on with
  \<open>completeSessionRelease\<close>.
\<close>

section \<open>NewSession\<close>

text \<open>Why a caller that found no free slot stopped waiting.\<close>

datatype park = ParkCtxDone | ParkClosing | ParkTimeout

definition newSession_acquire :: "park \<Rightarrow> Pool \<Rightarrow> (pool_err + nat) \<times> Pool" where
  "newSession_acquire w p =
     (case slots_recv p of
        Some (i, p1) \<Rightarrow> (Inr i, p1)
      | None \<Rightarrow> (Inl (case w of ParkCtxDone \<Rightarrow> ErrAcquireCancelled | ParkClosing \<Rightarrow> ErrPoolClosed
                    | ParkTimeout \<Rightarrow> ErrPoolExhausted), p))"

text \<open>The section after the receive: is the pool closed?\<close>

definition newSession_admit :: "nat \<Rightarrow> Pool \<Rightarrow> bool \<times> Pool" where
  "newSession_admit i p = (pl_closed p, upd_slot i (\<lambda>s. s\<lparr>sl_checkedOut := True\<rparr>) p)"

text \<open>The section after a failed respawn; the two arms of the source differ in the message.\<close>

definition newSession_requeueDead :: "nat \<Rightarrow> Pool \<Rightarrow> Pool" where
  "newSession_requeueDead i p =
     (if pl_closed p then p
      else snd (tryReturnSlotLocked i (upd_slot i (\<lambda>s. s\<lparr>sl_dead := True\<rparr>) p)))"

text \<open>The section after a failed \<open>session/new\<close>.\<close>

definition newSession_requeue :: "nat \<Rightarrow> Pool \<Rightarrow> Pool" where
  "newSession_requeue i p = (if \<not> pl_closed p then snd (tryReturnSlotLocked i p) else p)"

text \<open>The section after a successful \<open>session/new\<close>.\<close>

definition newSession_register :: "nat \<Rightarrow> string \<Rightarrow> Pool \<Rightarrow> (pool_err + string) \<times> Pool" where
  "newSession_register i sid p =
     (if pl_closed p then (Inl ErrPoolClosed, p)
      else (Inr sid, upd_slot i (\<lambda>s. s\<lparr>sl_turns := sl_turns s + 1, sl_userRequests := sl_userRequests s + 1\<rparr>)
              (p\<lparr>pl_sessionSlots := gm_put sid i (pl_sessionSlots p)\<rparr>)))"

definition newSession_call :: "nat \<Rightarrow> (pool_err + string) \<Rightarrow> Pool \<Rightarrow> (pool_err + string) \<times> Pool" where
  "newSession_call i answer p =
     (case answer of
        Inl e \<Rightarrow> (Inl e, newSession_requeue i p)
      | Inr sid \<Rightarrow> newSession_register i sid p)"

text \<open>The whole operation, for given answers of the factory and of the worker.\<close>

definition NewSession ::
  "park \<Rightarrow> (pool_err + nat) \<Rightarrow> pool_err option \<Rightarrow> (pool_err + string) \<Rightarrow> gotime \<Rightarrow> Pool
     \<Rightarrow> (pool_err + string) \<times> Pool" where
  "NewSession w spawned initialized answer now p =
     (case newSession_acquire w p of
        (Inl e, p1) \<Rightarrow> (Inl e, p1)
      | (Inr i, p1) \<Rightarrow>
          let (closed, p2) = newSession_admit i p1
          in if closed then (Inl ErrPoolClosed, p2)
             else if slotAlive i p2 then newSession_call i answer p2
             else case respawnSlot i respawnCauseLazy spawned initialized now p2 of
                    (Some e, p3) \<Rightarrow> (Inl e, newSession_requeueDead i p3)
                  | (None, p3) \<Rightarrow> newSession_call i answer p3)"

section \<open>Returning a slot\<close>

definition max_turns_trigger :: "nat \<Rightarrow> Pool \<Rightarrow> recycleTrigger option" where
  "max_turns_trigger i p =
     (let s = pl_heap p ! i
      in if pc_MaxWorkerTurns (pl_cfg p) > 0 \<and> int (sl_turns s) \<ge> pc_MaxWorkerTurns (pl_cfg p)
         then Some \<lparr>rt_reason = recycleReasonMaxTurns, rt_turns = sl_turns s,
                    rt_userRequests = sl_userRequests s, rt_pid = 0, rt_rssBytes = 0, rt_idle = 0\<rparr>
         else None)"

text \<open>\<open>Some trigger\<close>: the recycle goroutine is launched with the slot.\<close>

definition returnOrRecycle :: "nat \<Rightarrow> recycleTrigger option \<Rightarrow> Pool \<Rightarrow> recycleTrigger option \<times> Pool" where
  "returnOrRecycle i requested p =
     (if pl_closed p then (None, p)
      else case (case max_turns_trigger i p of Some t \<Rightarrow> Some t | None \<Rightarrow> requested) of
             None \<Rightarrow> (None, snd (tryReturnSlotLocked i p))
           | Some trigger \<Rightarrow>
               if pl_recyclesInFlight p > 0 then (None, snd (tryReturnSlotLocked i p))
               else (Some trigger, p\<lparr>pl_recyclesInFlight := Suc (pl_recyclesInFlight p)\<rparr>))"

definition releaseOrRecycle :: "nat \<Rightarrow> Pool \<Rightarrow> recycleTrigger option \<times> Pool" where
  "releaseOrRecycle i p = returnOrRecycle i (max_turns_trigger i p) p"

text \<open>The two sections of the recycle goroutine after the respawn, and the deferred decrement.\<close>

definition recycle_finish :: "nat \<Rightarrow> pool_err option \<Rightarrow> Pool \<Rightarrow> Pool" where
  "recycle_finish i err p =
     (if pl_closed p then (if err = None then client_Close (sl_Client (pl_heap p ! i)) p else p)
      else snd (tryReturnSlotLocked i
             (if err \<noteq> None then upd_slot i (\<lambda>s. s\<lparr>sl_dead := True\<rparr>) p else p)))"

definition recycle_done :: "Pool \<Rightarrow> Pool" where
  "recycle_done p = p\<lparr>pl_recyclesInFlight := pl_recyclesInFlight p - 1\<rparr>"

definition recycleSlot :: "nat \<Rightarrow> (pool_err + nat) \<Rightarrow> pool_err option \<Rightarrow> gotime \<Rightarrow> Pool \<Rightarrow> Pool" where
  "recycleSlot i spawned initialized now p =
     (if pl_closing p then recycle_done p
      else let (err, p1) = respawnSlot i respawnCauseRecycle spawned initialized now p
           in recycle_done (recycle_finish i err p1))"

definition release_stamp :: "nat \<Rightarrow> gotime \<Rightarrow> Pool \<Rightarrow> Pool" where
  "release_stamp i now p = upd_slot i (\<lambda>s. s\<lparr>sl_lastUserReleaseAt := now\<rparr>) p"

definition completeSessionRelease :: "nat option \<Rightarrow> gotime \<Rightarrow> Pool \<Rightarrow> recycleTrigger option \<times> Pool" where
  "completeSessionRelease slot now p =
     (case slot of
        None \<Rightarrow> (None, p)
      | Some i \<Rightarrow> releaseOrRecycle i (release_stamp i now p))"

section \<open>Prompt sequences\<close>

definition takeSessionSlotLocked :: "string \<Rightarrow> Pool \<Rightarrow> nat option \<times> Pool" where
  "takeSessionSlotLocked sid p =
     (case gm_get (pl_sessionSlots p) sid of
        None \<Rightarrow> (None, p)
      | Some i \<Rightarrow> (Some i, p\<lparr>pl_sessionSlots := gm_del sid (pl_sessionSlots p)\<rparr>))"

text \<open>\<open>delete(p.sessionSequences, sid)\<close> and then \<open>takeSessionSlotLocked\<close>.\<close>

definition drop_session :: "string \<Rightarrow> Pool \<Rightarrow> nat option \<times> Pool" where
  "drop_session sid p = takeSessionSlotLocked sid (del_seq sid p)"

definition seq_or_new :: "string \<Rightarrow> Pool \<Rightarrow> promptSequenceState" where
  "seq_or_new sid p = (case gm_get (pl_sessionSequences p) sid of Some st \<Rightarrow> st | None \<Rightarrow> zero_sequence)"

definition BeginPromptSequence :: "string \<Rightarrow> Pool \<Rightarrow> pool_err option \<times> Pool" where
  "BeginPromptSequence sid p =
     (if pl_closed p then (Some ErrPoolClosed, p)
      else if gm_get (pl_sessionSlots p) sid = None then (Some ErrUnknownSession, p)
      else let st = seq_or_new sid p
           in (None, put_seq sid (st\<lparr>sq_holds := Suc (sq_holds st)\<rparr>) p))"

definition finishPromptSequence :: "string \<Rightarrow> Pool \<Rightarrow> nat option \<times> Pool" where
  "finishPromptSequence sid p =
     (case gm_get (pl_sessionSequences p) sid of
        None \<Rightarrow> (None, p)
      | Some st \<Rightarrow>
          let st1 = (if sq_holds st > 0 then st\<lparr>sq_holds := sq_holds st - 1\<rparr> else st);
              p1 = put_seq sid st1 p
          in if sq_holds st1 > 0 \<or> sq_promptPending st1 \<or> sq_promptActive st1 then (None, p1)
             else drop_session sid p1)"

definition pool_SetModel :: "string \<Rightarrow> Pool \<Rightarrow> pool_err + nat" where
  "pool_SetModel sid p =
     (case gm_get (pl_sessionSlots p) sid of None \<Rightarrow> Inl ErrUnknownSession | Some i \<Rightarrow> Inr i)"

text \<open>The first section of \<open>Prompt\<close>: the slot whose client gets the prompt.\<close>

definition Prompt_start :: "string \<Rightarrow> Pool \<Rightarrow> (pool_err + nat) \<times> Pool" where
  "Prompt_start sid p =
     (case gm_get (pl_sessionSlots p) sid of
        None \<Rightarrow> (Inl ErrUnknownSession, p)
      | Some i \<Rightarrow> (Inr i, put_seq sid ((seq_or_new sid p)\<lparr>sq_promptPending := True\<rparr>) p))"

definition resolvePromptStart :: "string \<Rightarrow> bool \<Rightarrow> Pool \<Rightarrow> nat option \<times> Pool" where
  "resolvePromptStart sid succeeded p =
     (case gm_get (pl_sessionSequences p) sid of
        None \<Rightarrow> (None, p)
      | Some st0 \<Rightarrow>
          let st = st0\<lparr>sq_promptPending := False\<rparr>; p1 = put_seq sid st p
          in if sq_cancelRequested st \<and> \<not> sq_cancelComplete st then (None, p1)
             else if succeeded \<and> \<not> sq_cancelRequested st
             then (None, put_seq sid (st\<lparr>sq_promptActive := True\<rparr>) p)
             else if sq_holds st > 0 \<and> \<not> sq_cancelRequested st then (None, p1)
             else drop_session sid p1)"

text \<open>
  \<open>Prompt\<close> for a given answer of the client: the error, or the stream wrapper, whose one release
  is \<open>finishPromptForSession\<close>.
\<close>

definition Prompt :: "string \<Rightarrow> pool_err option \<Rightarrow> gotime \<Rightarrow> Pool \<Rightarrow> pool_err option \<times> recycleTrigger option \<times> Pool" where
  "Prompt sid answer now p =
     (case Prompt_start sid p of
        (Inl e, p1) \<Rightarrow> (Some e, None, p1)
      | (Inr i, p1) \<Rightarrow>
          let (slot, p2) = resolvePromptStart sid (answer = None) p1
          in (answer, completeSessionRelease slot now p2))"

definition finishPromptForSession :: "string \<Rightarrow> Pool \<Rightarrow> nat option \<times> Pool" where
  "finishPromptForSession sid p =
     (case gm_get (pl_sessionSequences p) sid of
        None \<Rightarrow> takeSessionSlotLocked sid p
      | Some st0 \<Rightarrow>
          let st = st0\<lparr>sq_promptActive := False\<rparr>; p1 = put_seq sid st p
          in if sq_holds st > 0 \<or> sq_promptPending st \<or> (sq_cancelRequested st \<and> \<not> sq_cancelComplete st)
             then (None, p1)
             else drop_session sid p1)"

text \<open>
  The first section of \<open>Cancel\<close>. The result says how the caller goes on: \<open>CancelPending c\<close> calls
  the client when \<open>c\<close> holds and then \<open>completePendingCancel\<close>; \<open>CancelTaken slot\<close> calls the client and
  releases the slot.
\<close>

datatype cancelNext = CancelPending bool | CancelTaken "nat option"

definition Cancel_start :: "string \<Rightarrow> Pool \<Rightarrow> cancelNext \<times> Pool" where
  "Cancel_start sid p =
     (case gm_get (pl_sessionSequences p) sid of
        Some st \<Rightarrow>
          if sq_promptPending st
          then (CancelPending (\<not> sq_cancelRequested st),
                put_seq sid (st\<lparr>sq_holds := 0, sq_cancelRequested := True\<rparr>) p)
          else (case drop_session sid p of (slot, p1) \<Rightarrow> (CancelTaken slot, p1))
      | None \<Rightarrow> (case drop_session sid p of (slot, p1) \<Rightarrow> (CancelTaken slot, p1)))"

definition completePendingCancel :: "string \<Rightarrow> Pool \<Rightarrow> nat option \<times> Pool" where
  "completePendingCancel sid p =
     (case gm_get (pl_sessionSequences p) sid of
        None \<Rightarrow> (None, p)
      | Some st0 \<Rightarrow>
          if \<not> sq_cancelRequested st0 then (None, p)
          else let st = st0\<lparr>sq_cancelComplete := True\<rparr>; p1 = put_seq sid st p
               in if sq_promptPending st then (None, p1) else drop_session sid p1)"

definition pool_Cancel :: "string \<Rightarrow> gotime \<Rightarrow> Pool \<Rightarrow> recycleTrigger option \<times> Pool" where
  "pool_Cancel sid now p =
     (case Cancel_start sid p of
        (CancelPending c, p1) \<Rightarrow>
          if c then (case completePendingCancel sid p1 of (slot, p2) \<Rightarrow> completeSessionRelease slot now p2)
          else (None, p1)
      | (CancelTaken slot, p1) \<Rightarrow> completeSessionRelease slot now p1)"

section \<open>Close, exit watcher, idle sweep\<close>

text \<open>\<open>Close\<close> signals, closes admission, joins the background work and then runs \<open>closeAll\<close>.\<close>

definition Close_signal :: "Pool \<Rightarrow> Pool" where
  "Close_signal p = p\<lparr>pl_closing := True\<rparr>"

definition Close_admission :: "Pool \<Rightarrow> Pool" where
  "Close_admission p = p\<lparr>pl_closed := True\<rparr>"

definition pool_Close :: "Pool \<Rightarrow> Pool" where
  "pool_Close p = snd (snd (closeAll (Close_admission (Close_signal p))))"

text \<open>The section of the watcher of client \<open>k\<close> on slot \<open>i\<close> when the client is done.\<close>

definition exitWatcher_done :: "nat \<Rightarrow> nat \<Rightarrow> Pool \<Rightarrow> Pool" where
  "exitWatcher_done i k p =
     (let s = pl_heap p ! i; planned = (sl_respawning s \<or> sl_Client s \<noteq> Some k)
      in if \<not> planned then upd_slot i (\<lambda>s. s\<lparr>sl_dead := True\<rparr>) p else p)"

definition idleSweepCadence :: "int \<Rightarrow> int" where
  "idleSweepCadence after =
     (let d = after div 4
      in if d < 1000000000 then 1000000000
         else if d > 30 * 1000000000 then 30 * 1000000000 else d)"

text \<open>
  The decision of \<open>inspectIdleWorker\<close>, from the section that snapshots the slot, the process id
  of its client and the reading of its memory: \<open>None\<close> is \<open>releaseOrRecycle\<close>, \<open>Some t\<close> is
  \<open>returnOrRecycle\<close> with trigger \<open>t\<close>.
\<close>

definition inspectIdleWorker ::
  "nat \<Rightarrow> (nat \<Rightarrow> int) \<Rightarrow> (int \<Rightarrow> nat option) option \<Rightarrow> gotime \<Rightarrow> Pool \<Rightarrow> recycleTrigger option" where
  "inspectIdleWorker i pidOf readMem now p =
     (let s = pl_heap p ! i; cfg = pl_cfg p;
          idle = max 0 (now - sl_lastUserReleaseAt s);
          pid = (case sl_Client s of Some k \<Rightarrow> pidOf k | None \<Rightarrow> 0)
      in if pl_closed p \<or> sl_dead s \<or> sl_respawning s \<or> sl_userRequests s = 0 \<or>
            sl_lastUserReleaseAt s = 0 \<or> idle < pc_IdleRecycleAfter cfg \<or>
            \<not> pc_WorkerMemorySupported cfg \<or> readMem = None
         then None
         else if pid \<le> 0 then None
         else case the readMem pid of
                None \<Rightarrow> None
              | Some rss \<Rightarrow>
                  if rss \<le> pc_IdleRecycleMemoryBytes cfg then None
                  else Some \<lparr>rt_reason = recycleReasonIdleMemory, rt_turns = sl_turns s,
                             rt_userRequests = sl_userRequests s, rt_pid = pid, rt_rssBytes = rss,
                             rt_idle = idle\<rparr>)"

end
