(* ===== verification/PoolSteps.thy ===== *)
theory PoolSteps
  imports PoolSessions
begin

text \<open>
  The pool with everything that runs on it. A state is the pool and the multiset of the
  activities that are under way: goroutines and callers, each at the point between two critical
  sections. \<open>own\<close> is the slot an activity holds. A step removes an activity, runs its next
  section and adds what comes after it, in any order, with any answers of workers and any
  clock, so that runs of \<open>pool_step\<close> are all interleavings.

  The rules assume of the environment: a client that the factory returns is a new object; a
  session identifier that a worker returns is not one the pool still knows; a caller
  does not start a second prompt on a session while the startup of one is outstanding. The joins of
  \<open>Close\<close> are the guard of \<open>step_closeAll\<close>.
\<close>

section \<open>Activities\<close>

datatype act =
    ANewGot nat
  | ANewCheck nat
  | ARespawn nat respawnCause
  | AInit nat respawnCause nat
  | ANewFail nat
  | ANewCall nat
  | ASequence string
  | APrompt string nat
  | AStream string
  | ACancelRPC string
  | ARelease nat
  | ASnap nat
  | AReturn nat "recycleTrigger option"
  | ARecycle nat
  | ARecycleEnd nat "pool_err option"
  | ARecycleDone
  | AIdleGot nat
  | AIdle nat
  | AProbeGot nat
  | AProbe nat

fun own :: "act \<Rightarrow> nat multiset" where
  "own (ANewGot i) = {#i#}"
| "own (ANewCheck i) = {#i#}"
| "own (ARespawn i c) = {#i#}"
| "own (AInit i c k) = {#i#}"
| "own (ANewFail i) = {#i#}"
| "own (ANewCall i) = {#i#}"
| "own (ASequence sid) = {#}"
| "own (APrompt sid i) = {#}"
| "own (AStream sid) = {#}"
| "own (ACancelRPC sid) = {#}"
| "own (ARelease i) = {#i#}"
| "own (ASnap i) = {#i#}"
| "own (AReturn i t) = {#i#}"
| "own (ARecycle i) = {#i#}"
| "own (ARecycleEnd i e) = {#i#}"
| "own ARecycleDone = {#}"
| "own (AIdleGot i) = {#i#}"
| "own (AIdle i) = {#i#}"
| "own (AProbeGot i) = {#i#}"
| "own (AProbe i) = {#i#}"

text \<open>The stages of a scheduled recycle, and everything \<open>Close\<close> joins before it tears down the clients.\<close>

fun recycling :: "act \<Rightarrow> bool" where
  "recycling (ARecycle i) = True"
| "recycling (ARespawn i c) = (c = respawnCauseRecycle)"
| "recycling (AInit i c k) = (c = respawnCauseRecycle)"
| "recycling (ARecycleEnd i e) = True"
| "recycling ARecycleDone = True"
| "recycling _ = False"

fun background :: "act \<Rightarrow> bool" where
  "background (AIdleGot i) = True"
| "background (AIdle i) = True"
| "background (AProbeGot i) = True"
| "background (AProbe i) = True"
| "background a = recycling a"

fun about :: "act \<Rightarrow> string option" where
  "about (ASequence sid) = Some sid"
| "about (APrompt sid i) = Some sid"
| "about (AStream sid) = Some sid"
| "about (ACancelRPC sid) = Some sid"
| "about _ = None"

definition after_respawn :: "respawnCause \<Rightarrow> nat \<Rightarrow> pool_err option \<Rightarrow> act" where
  "after_respawn c i e = (case c of
     respawnCauseLazy \<Rightarrow> (if e = None then ANewCall i else ANewFail i)
   | respawnCauseRecycle \<Rightarrow> ARecycleEnd i e)"

definition releasing :: "nat option \<Rightarrow> act multiset" where
  "releasing slot = (case slot of None \<Rightarrow> {#} | Some i \<Rightarrow> {#ARelease i#})"

type_synonym psys = "Pool \<times> act multiset"

definition fresh_client :: "nat \<Rightarrow> Pool \<Rightarrow> act multiset \<Rightarrow> bool" where
  "fresh_client k p A \<longleftrightarrow> k \<notin> pl_open p \<and> (\<forall>s \<in> set (pl_heap p). sl_Client s \<noteq> Some k) \<and>
     (\<forall>i c. AInit i c k \<notin># A)"

definition fresh_sid :: "string \<Rightarrow> Pool \<Rightarrow> act multiset \<Rightarrow> bool" where
  "fresh_sid sid p A \<longleftrightarrow> gm_get (pl_sessionSlots p) sid = None \<and> (\<forall>a \<in># A. about a \<noteq> Some sid)"

section \<open>Steps\<close>

inductive pool_step :: "psys \<Rightarrow> psys \<Rightarrow> bool" where
  step_recvNew: "slots_recv p = Some (i, p') \<Longrightarrow> pool_step (p, A) (p', add_mset (ANewGot i) A)"
| step_recvIdle: "slots_recv p = Some (i, p') \<Longrightarrow> pl_all p \<noteq> [] \<Longrightarrow> pool_step (p, A) (p', add_mset (AIdleGot i) A)"
| step_recvProbe: "slots_recv p = Some (i, p') \<Longrightarrow> pl_all p \<noteq> [] \<Longrightarrow> pool_step (p, A) (p', add_mset (AProbeGot i) A)"
| step_admit: "newSession_admit i p = (closed, p') \<Longrightarrow>
    pool_step (p, add_mset (ANewGot i) A) (p', if closed then A else add_mset (ANewCheck i) A)"
| step_alive: "slotAlive i p \<Longrightarrow> pool_step (p, add_mset (ANewCheck i) A) (p, add_mset (ANewCall i) A)"
| step_dead: "\<not> slotAlive i p \<Longrightarrow>
    pool_step (p, add_mset (ANewCheck i) A) (respawn_mark i p, add_mset (ARespawn i respawnCauseLazy) A)"
| step_spawn: "fresh_client k p (add_mset (ARespawn i c) A) \<Longrightarrow> p1 = respawn_close_old i p \<Longrightarrow>
    pool_step (p, add_mset (ARespawn i c) A) (p1\<lparr>pl_open := insert k (pl_open p1)\<rparr>, add_mset (AInit i c k) A)"
| step_spawnFail: "pool_step (p, add_mset (ARespawn i c) A)
    (respawn_fail i c e now (respawn_close_old i p), add_mset (after_respawn c i (Some e)) A)"
| step_initFail: "pool_step (p, add_mset (AInit i c k) A)
    (respawn_fail i c e now (client_Close (Some k) p), add_mset (after_respawn c i (Some e)) A)"
| step_swap: "respawn_swap i c k now p = (r, p') \<Longrightarrow>
    pool_step (p, add_mset (AInit i c k) A) (p', add_mset (after_respawn c i r) A)"
| step_newFail: "pool_step (p, add_mset (ANewFail i) A) (newSession_requeueDead i p, A)"
| step_callFail: "pool_step (p, add_mset (ANewCall i) A) (newSession_requeue i p, A)"
| step_register: "fresh_sid sid p A \<Longrightarrow> newSession_register i sid p = (r2, p') \<Longrightarrow>
    pool_step (p, add_mset (ANewCall i) A) (p', A)"
| step_begin: "BeginPromptSequence sid p = (None, p') \<Longrightarrow> pool_step (p, A) (p', add_mset (ASequence sid) A)"
| step_finish: "finishPromptSequence sid p = (slot, p') \<Longrightarrow>
    pool_step (p, add_mset (ASequence sid) A) (p', releasing slot + A)"
| step_prompt: "Prompt_start sid p = (Inr i, p') \<Longrightarrow> (\<forall>j. APrompt sid j \<notin># A) \<Longrightarrow>
    pool_step (p, A) (p', add_mset (APrompt sid i) A)"
| step_resolve: "resolvePromptStart sid succeeded p = (slot, p') \<Longrightarrow>
    pool_step (p, add_mset (APrompt sid i) A)
      (p', releasing slot + (if succeeded then add_mset (AStream sid) A else A))"
| step_stream: "finishPromptForSession sid p = (slot, p') \<Longrightarrow>
    pool_step (p, add_mset (AStream sid) A) (p', releasing slot + A)"
| step_cancelPending: "Cancel_start sid p = (CancelPending call, p') \<Longrightarrow>
    pool_step (p, A) (p', if call then add_mset (ACancelRPC sid) A else A)"
| step_cancelTaken: "Cancel_start sid p = (CancelTaken slot, p') \<Longrightarrow> pool_step (p, A) (p', releasing slot + A)"
| step_cancelRPC: "completePendingCancel sid p = (slot, p') \<Longrightarrow>
    pool_step (p, add_mset (ACancelRPC sid) A) (p', releasing slot + A)"
| step_release: "pool_step (p, add_mset (ARelease i) A) (release_stamp i now p, add_mset (ASnap i) A)"
| step_snap: "pool_step (p, add_mset (ASnap i) A) (p, add_mset (AReturn i (max_turns_trigger i p)) A)"
| step_return: "returnOrRecycle i t p = (r3, p') \<Longrightarrow>
    pool_step (p, add_mset (AReturn i t) A) (p', if r3 = None then A else add_mset (ARecycle i) A)"
| step_recycleDrop: "pl_closing p \<Longrightarrow> pool_step (p, add_mset (ARecycle i) A) (p, add_mset ARecycleDone A)"
| step_recycle: "\<not> pl_closing p \<Longrightarrow>
    pool_step (p, add_mset (ARecycle i) A) (respawn_mark i p, add_mset (ARespawn i respawnCauseRecycle) A)"
| step_recycleEnd: "pool_step (p, add_mset (ARecycleEnd i err) A) (recycle_finish i err p, add_mset ARecycleDone A)"
| step_recycleDone: "pool_step (p, add_mset ARecycleDone A) (recycle_done p, A)"
| step_idleMark: "pool_step (p, add_mset (AIdleGot i) A) (markSlotCheckedOut i p, add_mset (AIdle i) A)"
| step_idle: "inspectIdleWorker i pidOf readMem now p = t \<Longrightarrow>
    pool_step (p, add_mset (AIdle i) A) (p, add_mset (if t = None then ASnap i else AReturn i t) A)"
| step_probeMark: "pool_step (p, add_mset (AProbeGot i) A) (markSlotCheckedOut i p, add_mset (AProbe i) A)"
| step_probeDead: "\<not> slotAlive i p \<Longrightarrow> pool_step (p, add_mset (AProbe i) A) (p, add_mset (ASnap i) A)"
| step_probe: "slotAlive i p \<Longrightarrow> probeCatalogOnce i answer p = (r4, p') \<Longrightarrow>
    pool_step (p, add_mset (AProbe i) A) (p', add_mset (ASnap i) A)"
| step_watcher: "\<not> pl_closing p \<Longrightarrow> i < length (pl_heap p) \<Longrightarrow> pool_step (p, A) (exitWatcher_done i k p, A)"
| step_exit: "pool_step (p, A) (p\<lparr>pl_open := pl_open p - {k}\<rparr>, A)"
| step_signal: "pool_step (p, A) (Close_signal p, A)"
| step_admission: "pl_closing p \<Longrightarrow> pool_step (p, A) (Close_admission p, A)"
| step_closeAll: "pl_closing p \<Longrightarrow> pl_closed p \<Longrightarrow> (\<forall>a \<in># A. \<not> background a) \<Longrightarrow>
    pool_step (p, A) (snd (snd (closeAll p)), A)"

section \<open>Where the slots are\<close>

definition held :: "act multiset \<Rightarrow> nat multiset" where
  "held A = (\<Sum>a\<in>#A. own a)"

definition places :: "psys \<Rightarrow> nat multiset" where
  "places s = mset (pl_slots (fst s)) + mset (map snd (pl_sessionSlots (fst s))) + held (snd s)"

lemma held_simps [simp]:
  "held {#} = {#}" "held (add_mset a A) = own a + held A" "held (A + B) = held A + held B"
  by (simp_all add: held_def)

lemma held_releasing [simp]: "held (releasing slot) = (case slot of None \<Rightarrow> {#} | Some i \<Rightarrow> {#i#})"
  by (simp add: releasing_def split: option.split)

lemma own_after_respawn [simp]: "own (after_respawn c i e) = {#i#}"
  by (simp add: after_respawn_def split: respawnCause.split)

section \<open>What the sections change\<close>

lemma upd_slot_frame [simp]:
  "pl_cfg (upd_slot i f p) = pl_cfg p" "pl_slots (upd_slot i f p) = pl_slots p"
  "pl_all (upd_slot i f p) = pl_all p" "length (pl_heap (upd_slot i f p)) = length (pl_heap p)"
  "pl_recyclesInFlight (upd_slot i f p) = pl_recyclesInFlight p"
  "pl_sessionSlots (upd_slot i f p) = pl_sessionSlots p"
  "pl_sessionSequences (upd_slot i f p) = pl_sessionSequences p"
  "pl_closed (upd_slot i f p) = pl_closed p" "pl_closing (upd_slot i f p) = pl_closing p"
  "pl_open (upd_slot i f p) = pl_open p" "cap (upd_slot i f p) = cap p"
  by (simp_all add: upd_slot_def cap_def)

lemma upd_slot_heap:
  "j < length (pl_heap p) \<Longrightarrow> pl_heap (upd_slot i f p) ! j = (if j = i then f (pl_heap p ! i) else pl_heap p ! j)"
  by (simp add: upd_slot_def)

lemma put_seq_frame [simp]:
  "pl_cfg (put_seq sid st p) = pl_cfg p" "pl_slots (put_seq sid st p) = pl_slots p"
  "pl_all (put_seq sid st p) = pl_all p" "pl_heap (put_seq sid st p) = pl_heap p"
  "pl_recyclesInFlight (put_seq sid st p) = pl_recyclesInFlight p"
  "pl_sessionSlots (put_seq sid st p) = pl_sessionSlots p"
  "pl_closed (put_seq sid st p) = pl_closed p" "pl_closing (put_seq sid st p) = pl_closing p"
  "pl_open (put_seq sid st p) = pl_open p"
  "pl_sessionSequences (put_seq sid st p) = gm_put sid st (pl_sessionSequences p)"
  by (simp_all add: put_seq_def)

lemma del_seq_frame [simp]:
  "pl_cfg (del_seq sid p) = pl_cfg p" "pl_slots (del_seq sid p) = pl_slots p"
  "pl_all (del_seq sid p) = pl_all p" "pl_heap (del_seq sid p) = pl_heap p"
  "pl_recyclesInFlight (del_seq sid p) = pl_recyclesInFlight p"
  "pl_sessionSlots (del_seq sid p) = pl_sessionSlots p"
  "pl_closed (del_seq sid p) = pl_closed p" "pl_closing (del_seq sid p) = pl_closing p"
  "pl_open (del_seq sid p) = pl_open p"
  "pl_sessionSequences (del_seq sid p) = gm_del sid (pl_sessionSequences p)"
  by (simp_all add: del_seq_def)

lemma client_Close_frame [simp]:
  "pl_cfg (client_Close c p) = pl_cfg p" "pl_slots (client_Close c p) = pl_slots p"
  "pl_all (client_Close c p) = pl_all p" "pl_heap (client_Close c p) = pl_heap p"
  "pl_recyclesInFlight (client_Close c p) = pl_recyclesInFlight p"
  "pl_sessionSlots (client_Close c p) = pl_sessionSlots p"
  "pl_closed (client_Close c p) = pl_closed p" "pl_closing (client_Close c p) = pl_closing p"
  "pl_sessionSequences (client_Close c p) = pl_sessionSequences p" "cap (client_Close c p) = cap p"
  "pl_open (client_Close c p) = pl_open p - set_option c"
  by (simp_all add: client_Close_def cap_def split: option.split)

text \<open>Everything but the free channel, the sessions and their sequences.\<close>

definition same_rest :: "Pool \<Rightarrow> Pool \<Rightarrow> bool" where
  "same_rest p p' \<longleftrightarrow> pl_cfg p' = pl_cfg p \<and> pl_slots p' = pl_slots p \<and> pl_all p' = pl_all p \<and> pl_heap p' = pl_heap p \<and>
     pl_closed p' = pl_closed p \<and> pl_closing p' = pl_closing p \<and> pl_open p' = pl_open p \<and>
     pl_recyclesInFlight p' = pl_recyclesInFlight p"

text \<open>
  The session sections of one session: either they keep the session and write its sequence state,
  or they leave everything alone, or they take its slot and drop the state.
\<close>

datatype seq_effect = Kept promptSequenceState | Untouched | Taken

definition session_effect :: "string \<Rightarrow> seq_effect \<Rightarrow> nat option \<Rightarrow> Pool \<Rightarrow> Pool \<Rightarrow> bool" where
  "session_effect sid e slot p p' \<longleftrightarrow> same_rest p p' \<and> (case e of
     Kept st \<Rightarrow> slot = None \<and> pl_sessionSlots p' = pl_sessionSlots p \<and>
       pl_sessionSequences p' = gm_put sid st (pl_sessionSequences p)
   | Untouched \<Rightarrow> slot = None \<and> pl_sessionSlots p' = pl_sessionSlots p \<and>
       pl_sessionSequences p' = pl_sessionSequences p
   | Taken \<Rightarrow> slot = gm_get (pl_sessionSlots p) sid \<and> pl_sessionSlots p' = gm_del sid (pl_sessionSlots p) \<and>
       pl_sessionSequences p' = gm_del sid (pl_sessionSequences p))"

lemma gm_del_put: "gm_del k (gm_put k v m) = gm_del k m"
  by (induction m) auto

lemma drop_session_effect:
  "drop_session sid (put_seq sid st p) = (slot, p') \<Longrightarrow> session_effect sid Taken slot p p'"
  "drop_session sid p = (slot, p') \<Longrightarrow> session_effect sid Taken slot p p'"
  by (auto simp: drop_session_def takeSessionSlotLocked_def session_effect_def same_rest_def gm_del_absent
      gm_del_put split: option.splits)

lemma takeSession_effect:
  "gm_get (pl_sessionSequences p) sid = None \<Longrightarrow> takeSessionSlotLocked sid p = (slot, p') \<Longrightarrow>
     session_effect sid Taken slot p p'"
  by (auto simp: takeSessionSlotLocked_def session_effect_def same_rest_def gm_del_absent split: option.splits)

lemma Kept_effect: "session_effect sid (Kept st) None p (put_seq sid st p)"
  by (simp add: session_effect_def same_rest_def)

lemma Untouched_effect: "session_effect sid Untouched None p p"
  by (simp add: session_effect_def same_rest_def)

text \<open>The effect of each operation, with what decides it.\<close>

lemma finishPromptSequence_cases:
  assumes "finishPromptSequence sid p = (slot, p')"
  obtains (absent) "gm_get (pl_sessionSequences p) sid = None" "session_effect sid Untouched slot p p'"
  | (kept) st where "gm_get (pl_sessionSequences p) sid = Some st"
      "session_effect sid (Kept (st\<lparr>sq_holds := sq_holds st - 1\<rparr>)) slot p p'"
      "sq_holds st > 1 \<or> sq_promptPending st \<or> sq_promptActive st"
  | (taken) st where "gm_get (pl_sessionSequences p) sid = Some st" "session_effect sid Taken slot p p'"
      "sq_holds st \<le> 1" "\<not> sq_promptPending st" "\<not> sq_promptActive st"
proof (cases "gm_get (pl_sessionSequences p) sid")
  case None
  with assms show ?thesis by (intro absent) (auto simp: finishPromptSequence_def Untouched_effect)
next
  case (Some st)
  have st1: "(if sq_holds st > 0 then st\<lparr>sq_holds := sq_holds st - 1\<rparr> else st) = st\<lparr>sq_holds := sq_holds st - 1\<rparr>"
    by simp
  show ?thesis
  proof (cases "sq_holds st > 1 \<or> sq_promptPending st \<or> sq_promptActive st")
    case True
    with assms Some show ?thesis
      by (intro kept [OF Some]) (auto simp: finishPromptSequence_def st1 Let_def Kept_effect split: if_splits)
  next
    case False
    with assms Some show ?thesis
      by (intro taken [OF Some]) (auto simp: finishPromptSequence_def st1 Let_def split: if_splits dest: drop_session_effect)
  qed
qed

lemma resolvePromptStart_cases:
  assumes "resolvePromptStart sid succeeded p = (slot, p')"
  obtains (absent) "gm_get (pl_sessionSequences p) sid = None" "session_effect sid Untouched slot p p'"
  | (retained) st where "gm_get (pl_sessionSequences p) sid = Some st"
      "session_effect sid (Kept (st\<lparr>sq_promptPending := False\<rparr>)) slot p p'"
      "sq_cancelRequested st \<and> \<not> sq_cancelComplete st \<or> sq_holds st > 0"
  | (active) st where "gm_get (pl_sessionSequences p) sid = Some st" "succeeded"
      "session_effect sid (Kept (st\<lparr>sq_promptPending := False, sq_promptActive := True\<rparr>)) slot p p'"
  | (taken) st where "gm_get (pl_sessionSequences p) sid = Some st" "session_effect sid Taken slot p p'"
proof (cases "gm_get (pl_sessionSequences p) sid")
  case None
  with assms show ?thesis by (intro absent) (auto simp: resolvePromptStart_def Untouched_effect)
next
  case (Some st)
  show ?thesis
  proof (cases "sq_cancelRequested st \<and> \<not> sq_cancelComplete st \<or>
      \<not> succeeded \<and> sq_holds st > 0 \<and> \<not> sq_cancelRequested st")
    case True
    with assms Some show ?thesis
      by (intro retained [OF Some]) (auto simp: resolvePromptStart_def Let_def Kept_effect split: if_splits)
  next
    case outer: False
    show ?thesis
    proof (cases "succeeded \<and> \<not> sq_cancelRequested st")
      case True
      with assms Some outer show ?thesis
        by (intro active [OF Some]) (auto simp: resolvePromptStart_def Let_def Kept_effect split: if_splits)
    next
      case False
      with assms Some outer show ?thesis
        by (intro taken [OF Some])
          (auto simp: resolvePromptStart_def Let_def split: if_splits dest: drop_session_effect)
    qed
  qed
qed

lemma finishPromptForSession_cases:
  assumes "finishPromptForSession sid p = (slot, p')"
  obtains (kept) st where "gm_get (pl_sessionSequences p) sid = Some st"
      "session_effect sid (Kept (st\<lparr>sq_promptActive := False\<rparr>)) slot p p'"
      "sq_holds st > 0 \<or> sq_promptPending st \<or> sq_cancelRequested st \<and> \<not> sq_cancelComplete st"
  | (taken) "session_effect sid Taken slot p p'"
      "\<And>st. gm_get (pl_sessionSequences p) sid = Some st \<Longrightarrow> \<not> sq_promptPending st"
proof (cases "gm_get (pl_sessionSequences p) sid")
  case None
  with assms show ?thesis
    by (intro taken) (auto simp: finishPromptForSession_def dest: takeSession_effect)
next
  case (Some st)
  show ?thesis
  proof (cases "sq_holds st > 0 \<or> sq_promptPending st \<or> sq_cancelRequested st \<and> \<not> sq_cancelComplete st")
    case True
    with assms Some show ?thesis
      by (intro kept [OF Some]) (auto simp: finishPromptForSession_def Let_def Kept_effect split: if_splits)
  next
    case False
    with assms Some show ?thesis
      by (intro taken)
        (auto simp: finishPromptForSession_def Let_def split: if_splits dest: drop_session_effect)
  qed
qed

lemma completePendingCancel_cases:
  assumes "completePendingCancel sid p = (slot, p')"
  obtains (absent) "\<And>st. gm_get (pl_sessionSequences p) sid = Some st \<Longrightarrow> \<not> sq_cancelRequested st"
      "session_effect sid Untouched slot p p'"
  | (kept) st where "gm_get (pl_sessionSequences p) sid = Some st" "sq_promptPending st"
      "session_effect sid (Kept (st\<lparr>sq_cancelComplete := True\<rparr>)) slot p p'"
  | (taken) st where "gm_get (pl_sessionSequences p) sid = Some st" "\<not> sq_promptPending st"
      "session_effect sid Taken slot p p'"
proof (cases "\<exists>st. gm_get (pl_sessionSequences p) sid = Some st \<and> sq_cancelRequested st")
  case False
  with assms show ?thesis
    by (intro absent) (auto simp: completePendingCancel_def Untouched_effect split: option.splits)
next
  case True
  then obtain st where st: "gm_get (pl_sessionSequences p) sid = Some st" "sq_cancelRequested st" by blast
  show ?thesis
  proof (cases "sq_promptPending st")
    case True
    with assms st show ?thesis
      by (intro kept [OF st(1)]) (auto simp: completePendingCancel_def Let_def Kept_effect)
  next
    case False
    with assms st show ?thesis
      by (intro taken [OF st(1)]) (auto simp: completePendingCancel_def Let_def dest: drop_session_effect)
  qed
qed

lemma Cancel_start_cases:
  assumes "Cancel_start sid p = (next, p')"
  obtains (pending) st where "gm_get (pl_sessionSequences p) sid = Some st" "sq_promptPending st"
      "next = CancelPending (\<not> sq_cancelRequested st)"
      "session_effect sid (Kept (st\<lparr>sq_holds := 0, sq_cancelRequested := True\<rparr>)) None p p'"
  | (taken) slot where "next = CancelTaken slot" "session_effect sid Taken slot p p'"
      "\<And>st. gm_get (pl_sessionSequences p) sid = Some st \<Longrightarrow> \<not> sq_promptPending st"
proof (cases "\<exists>st. gm_get (pl_sessionSequences p) sid = Some st \<and> sq_promptPending st")
  case True
  then obtain st where st: "gm_get (pl_sessionSequences p) sid = Some st" "sq_promptPending st" by blast
  with assms show ?thesis by (intro pending [OF st]) (auto simp: Cancel_start_def Kept_effect)
next
  case False
  obtain slot p1 where "drop_session sid p = (slot, p1)" by fastforce
  with assms False show ?thesis
    by (intro taken) (auto simp: Cancel_start_def split: option.splits dest: drop_session_effect(2))
qed

end
