(* ===== verification/PoolInv.thy ===== *)
theory PoolInv
  imports PoolSteps
begin

text \<open>
  The invariant of the pool. Every slot is in one place: the free channel, one session, or the
  hands of one activity; while the pool is not closing no slot is lost. The flags of a slot agree with its
  place, at most one scheduled recycle is in flight, every prompt startup keeps its session,
  every sequence state has an activity that will resolve it, and every worker process that is
  running belongs to a slot or to a respawn under way.
\<close>

section \<open>Accounting of the slots\<close>

lemma effect_places:
  assumes "session_effect sid e slot p p'" "gm_ok (pl_sessionSlots p)"
  shows "places (p', releasing slot + A) = places (p, A)"
  using assms gm_values_del [OF assms(2), of sid]
  by (cases "gm_get (pl_sessionSlots p) sid")
    (auto simp: session_effect_def same_rest_def places_def gm_del_absent split: seq_effect.splits)

lemma tryReturn_room:
  "length (pl_slots p) < cap p \<Longrightarrow> places (snd (tryReturnSlotLocked i p), A) = add_mset i (places (p, A))"
  by (simp add: tryReturnSlotLocked_def places_def)

lemma tryReturn_fst: "fst (tryReturnSlotLocked i p) = (length (pl_slots p) < cap p)"
  by (simp add: tryReturnSlotLocked_def)

lemma places_cong:
  "pl_slots p' = pl_slots p \<Longrightarrow> pl_sessionSlots p' = pl_sessionSlots p \<Longrightarrow> held A' = held A \<Longrightarrow>
     places (p', A') = places (p, A)"
  by (simp add: places_def)

text \<open>A slot that an activity holds leaves room in the channel.\<close>

lemma held_room:
  assumes "places (p, add_mset a A) \<subseteq># mset [0..<cap p]" "own a = {#i#}"
  shows "length (pl_slots p) < cap p"
proof -
  have "size (places (p, add_mset a A)) \<le> cap p"
    using size_mset_mono [OF assms(1)] by simp
  with assms(2) show ?thesis by (simp add: places_def)
qed

lemma register_places:
  assumes "newSession_register i sid p = (r, p')" "gm_get (pl_sessionSlots p) sid = None" "\<not> pl_closed p"
  shows "places (p', A) = add_mset i (places (p, A))"
  using assms gm_values_put_fresh [OF assms(2), of i]
  by (auto simp: newSession_register_def places_def)

lemma respawn_frame [simp]:
  "pl_slots (respawn_mark i p) = pl_slots p" "pl_sessionSlots (respawn_mark i p) = pl_sessionSlots p"
  "pl_slots (respawn_close_old i p) = pl_slots p" "pl_sessionSlots (respawn_close_old i p) = pl_sessionSlots p"
  "pl_slots (respawn_clear i c p) = pl_slots p" "pl_sessionSlots (respawn_clear i c p) = pl_sessionSlots p"
  "pl_slots (respawn_fail i c e now p) = pl_slots p" "pl_sessionSlots (respawn_fail i c e now p) = pl_sessionSlots p"
  by (simp_all add: respawn_mark_def respawn_close_old_def respawn_clear_def respawn_fail_def
      recordSpawnErr_def Let_def)

lemma swap_frame:
  "respawn_swap i c k now p = (r, p') \<Longrightarrow> pl_slots p' = pl_slots p \<and> pl_sessionSlots p' = pl_sessionSlots p"
  by (auto simp: respawn_swap_def Let_def split: if_splits)

text \<open>
  A step keeps every slot in its one place or moves it to another; it loses one only in a pool
  that is closing.
\<close>

definition ends :: "Pool \<Rightarrow> bool" where
  "ends p \<longleftrightarrow> pl_closing p \<or> pl_closed p"

lemma step_places:
  assumes "pool_step s t" "places s \<subseteq># mset [0..<cap (fst s)]" "gm_ok (pl_sessionSlots (fst s))"
  shows "places t = places s \<or> ends (fst s) \<and> places t \<subseteq># places s"
  using assms
proof cases
  case (step_recvNew p i p' A)
  then show ?thesis by (auto simp: slots_recv_def places_def split: list.splits)
next
  case (step_recvIdle p i p' A)
  then show ?thesis by (auto simp: slots_recv_def places_def split: list.splits)
next
  case (step_recvProbe p i p' A)
  then show ?thesis by (auto simp: slots_recv_def places_def split: list.splits)
next
  case (step_admit i p closed p' A)
  then show ?thesis by (auto simp: newSession_admit_def places_def ends_def)
next
  case (step_swap i c k now p r p' A)
  then show ?thesis using swap_frame by (auto simp: places_def)
next
  case (step_newFail p i A)
  with assms(2) held_room [of p "ANewFail i" A i] show ?thesis
    by (auto simp: newSession_requeueDead_def ends_def tryReturn_room places_def tryReturnSlotLocked_def)
next
  case (step_callFail p i A)
  with assms(2) held_room [of p "ANewCall i" A i] show ?thesis
    by (auto simp: newSession_requeue_def ends_def places_def tryReturnSlotLocked_def)
next
  case (step_register sid p A i r2 p')
  show ?thesis
  proof (cases "pl_closed p")
    case True
    with step_register show ?thesis by (auto simp: newSession_register_def ends_def places_def)
  next
    case False
    with step_register register_places [of i sid p r2 p' A] show ?thesis
      by (auto simp: fresh_sid_def places_def)
  qed
next
  case (step_begin sid p p' A)
  then show ?thesis by (auto simp: BeginPromptSequence_def places_def Let_def split: if_splits)
next
  case (step_finish sid p slot p' A)
  from step_finish(3) obtain e where "session_effect sid e slot p p'"
    by (rule finishPromptSequence_cases) blast+
  from effect_places [OF this, of A] assms(3) step_finish show ?thesis by (auto simp: places_def)
next
  case (step_prompt sid p i p' A)
  then show ?thesis by (auto simp: Prompt_start_def places_def split: option.splits)
next
  case (step_resolve sid succeeded p slot p' i A)
  from step_resolve(3) obtain e where "session_effect sid e slot p p'"
    by (rule resolvePromptStart_cases) blast+
  from effect_places [OF this, of "if succeeded then add_mset (AStream sid) A else A"] assms(3) step_resolve
  show ?thesis by (auto simp: places_def)
next
  case (step_stream sid p slot p' A)
  from step_stream(3) obtain e where "session_effect sid e slot p p'"
    by (rule finishPromptForSession_cases) blast+
  from effect_places [OF this, of A] assms(3) step_stream show ?thesis by (auto simp: places_def)
next
  case (step_cancelPending sid p call p' A)
  from step_cancelPending(3) obtain e where "session_effect sid e None p p'"
    by (rule Cancel_start_cases) auto
  from effect_places [OF this, of A] assms(3) step_cancelPending show ?thesis by (auto simp: places_def)
next
  case (step_cancelTaken sid p slot p' A)
  from step_cancelTaken(3) obtain e where "session_effect sid e slot p p'"
    by (rule Cancel_start_cases) auto
  with assms(3) step_cancelTaken show ?thesis by (auto simp: effect_places)
next
  case (step_cancelRPC sid p slot p' A)
  from step_cancelRPC(3) obtain e where "session_effect sid e slot p p'"
    by (rule completePendingCancel_cases) blast+
  from effect_places [OF this, of A] assms(3) step_cancelRPC show ?thesis by (auto simp: places_def)
next
  case (step_return i t p r3 p' A)
  with assms(2) held_room [of p "AReturn i t" A i] show ?thesis
    by (auto simp: returnOrRecycle_def ends_def places_def tryReturnSlotLocked_def split: option.splits if_splits)
next
  case (step_recycleEnd p i err A)
  with assms(2) held_room [of p "ARecycleEnd i err" A i] show ?thesis
    by (auto simp: recycle_finish_def ends_def places_def tryReturnSlotLocked_def)
qed (auto simp: places_def ends_def respawn_swap_def release_stamp_def markSlotCheckedOut_def recycle_done_def
    probeCatalogOnce_def exitWatcher_done_def Close_signal_def Close_admission_def closeAll_def Let_def
    split: sum.splits if_splits)

section \<open>Flags of the slots\<close>

text \<open>An activity that has passed the section that marks its slot, and one that is replacing the worker.\<close>

fun marked :: "act \<Rightarrow> bool" where
  "marked (ANewGot i) = False"
| "marked (AIdleGot i) = False"
| "marked (AProbeGot i) = False"
| "marked a = True"

fun replacing :: "act \<Rightarrow> bool" where
  "replacing (ARespawn i c) = True"
| "replacing (AInit i c k) = True"
| "replacing a = False"

definition flags_inv :: "psys \<Rightarrow> bool" where
  "flags_inv s \<longleftrightarrow> (case s of (p, A) \<Rightarrow>
     (\<forall>i \<in> set (pl_slots p). \<not> sl_checkedOut (pl_heap p ! i) \<and> \<not> sl_respawning (pl_heap p ! i)) \<and>
     (\<forall>i \<in> set (map snd (pl_sessionSlots p)). sl_checkedOut (pl_heap p ! i) \<and> \<not> sl_respawning (pl_heap p ! i)) \<and>
     (\<forall>a \<in># A. \<forall>i \<in># own a. (marked a \<longrightarrow> sl_checkedOut (pl_heap p ! i)) \<and>
        sl_respawning (pl_heap p ! i) = replacing a))"

lemma flagsI:
  assumes "\<And>i. i \<in> set (pl_slots p) \<Longrightarrow> \<not> sl_checkedOut (pl_heap p ! i) \<and> \<not> sl_respawning (pl_heap p ! i)"
    "\<And>i. i \<in> set (map snd (pl_sessionSlots p)) \<Longrightarrow> sl_checkedOut (pl_heap p ! i) \<and> \<not> sl_respawning (pl_heap p ! i)"
    "\<And>a i. a \<in># A \<Longrightarrow> i \<in># own a \<Longrightarrow>
       (marked a \<longrightarrow> sl_checkedOut (pl_heap p ! i)) \<and> sl_respawning (pl_heap p ! i) = replacing a"
  shows "flags_inv (p, A)"
  unfolding flags_inv_def using assms by blast

lemma flagsD:
  assumes "flags_inv (p, A)"
  shows "\<And>i. i \<in> set (pl_slots p) \<Longrightarrow> \<not> sl_checkedOut (pl_heap p ! i) \<and> \<not> sl_respawning (pl_heap p ! i)"
    "\<And>i. i \<in> set (map snd (pl_sessionSlots p)) \<Longrightarrow> sl_checkedOut (pl_heap p ! i) \<and> \<not> sl_respawning (pl_heap p ! i)"
    "\<And>a i. a \<in># A \<Longrightarrow> i \<in># own a \<Longrightarrow>
       (marked a \<longrightarrow> sl_checkedOut (pl_heap p ! i)) \<and> sl_respawning (pl_heap p ! i) = replacing a"
  using assms unfolding flags_inv_def by blast+

text \<open>Nobody else has a slot that an activity holds.\<close>

definition exclusive :: "nat \<Rightarrow> Pool \<Rightarrow> act multiset \<Rightarrow> bool" where
  "exclusive i p A \<longleftrightarrow> i \<notin> set (pl_slots p) \<and> i \<notin> set (map snd (pl_sessionSlots p)) \<and> (\<forall>b \<in># A. i \<notin># own b)"

lemma held_mem: "b \<in># A \<Longrightarrow> i \<in># own b \<Longrightarrow> i \<in># held A"
  by (auto simp: held_def)

lemma held_exclusive:
  assumes sub: "places (p, add_mset a A) \<subseteq># mset [0..<n]" and own: "own a = {#i#}"
  shows "exclusive i p A \<and> i < n"
proof -
  have "places (p, add_mset a A) = add_mset i (places (p, A))" using own by (simp add: places_def)
  with sub have "count (add_mset i (places (p, A))) i \<le> count (mset [0..<n]) i"
    by (metis mset_subset_eq_count)
  moreover have "count (mset [0..<n]) i \<le> 1" by (simp add: count_mset_set')
  ultimately have "count (places (p, A)) i = 0" by simp
  then have "i \<notin># places (p, A)" by (simp add: not_in_iff)
  moreover have "i \<in># mset [0..<n]"
    using sub own by (metis \<open>places (p, add_mset a A) = add_mset i (places (p, A))\<close> mset_subset_eqD union_single_eq_member)
  ultimately show ?thesis by (auto simp: exclusive_def places_def dest: held_mem)
qed

text \<open>The three ways a slot in the hands of an activity goes on.\<close>

lemma flags_own:
  assumes "flags_inv (p, add_mset a A)" "exclusive i p A" "i < length (pl_heap p)"
    and "pl_slots p' = pl_slots p" "pl_sessionSlots p' = pl_sessionSlots p" "pl_heap p' = (pl_heap p)[i := v]"
    and "\<And>b j. b \<in># B \<Longrightarrow> j \<in># own b \<Longrightarrow> j = i \<and> (marked b \<longrightarrow> sl_checkedOut v) \<and> sl_respawning v = replacing b"
  shows "flags_inv (p', B + A)"
proof (rule flagsI)
  have ne: "j \<noteq> i" if "j \<in> set (pl_slots p) \<union> set (map snd (pl_sessionSlots p)) \<or> (\<exists>b \<in># A. j \<in># own b)" for j
    using assms(2) that unfolding exclusive_def by blast
  note f = flagsD [OF assms(1)]
  fix j assume "j \<in> set (pl_slots p')"
  with ne [of j] f(1) [of j] show "\<not> sl_checkedOut (pl_heap p' ! j) \<and> \<not> sl_respawning (pl_heap p' ! j)"
    by (simp add: assms(4,6))
next
  have ne: "j \<noteq> i" if "j \<in> set (map snd (pl_sessionSlots p))" for j
    using assms(2) that unfolding exclusive_def by blast
  fix j assume "j \<in> set (map snd (pl_sessionSlots p'))"
  with ne [of j] flagsD(2) [OF assms(1), of j]
  show "sl_checkedOut (pl_heap p' ! j) \<and> \<not> sl_respawning (pl_heap p' ! j)" by (simp add: assms(5,6))
next
  fix b j assume b: "b \<in># B + A" "j \<in># own b"
  show "(marked b \<longrightarrow> sl_checkedOut (pl_heap p' ! j)) \<and> sl_respawning (pl_heap p' ! j) = replacing b"
  proof (cases "b \<in># B")
    case True
    with assms(7) [OF True b(2)] assms(3) show ?thesis by (simp add: assms(6))
  next
    case False
    with b have "b \<in># A" by auto
    with assms(2) b(2) have "j \<noteq> i" unfolding exclusive_def by blast
    with flagsD(3) [OF assms(1), of b j] \<open>b \<in># A\<close> b(2) show ?thesis by (simp add: assms(6))
  qed
qed

lemma flags_free:
  assumes "flags_inv (p', A)"
    "pl_slots p'' = pl_slots p' @ [i]" "pl_sessionSlots p'' = pl_sessionSlots p'" "pl_heap p'' = pl_heap p'"
    "\<not> sl_checkedOut (pl_heap p' ! i)" "\<not> sl_respawning (pl_heap p' ! i)"
  shows "flags_inv (p'', A)"
proof (rule flagsI)
  fix j assume "j \<in> set (pl_slots p'')"
  then have "j \<in> set (pl_slots p') \<or> j = i" by (auto simp: assms(2))
  with flagsD(1) [OF assms(1)] assms(5,6)
  show "\<not> sl_checkedOut (pl_heap p'' ! j) \<and> \<not> sl_respawning (pl_heap p'' ! j)"
    by (auto simp: assms(4))
qed (use flagsD(2,3) [OF assms(1)] assms(3,4) in simp_all)

lemma flags_session:
  assumes "flags_inv (p', A)" "gm_get (pl_sessionSlots p') sid = None"
    "pl_slots p'' = pl_slots p'" "pl_sessionSlots p'' = gm_put sid i (pl_sessionSlots p')" "pl_heap p'' = pl_heap p'"
    "sl_checkedOut (pl_heap p' ! i)" "\<not> sl_respawning (pl_heap p' ! i)"
  shows "flags_inv (p'', A)"
proof (rule flagsI)
  fix j assume "j \<in> set (map snd (pl_sessionSlots p''))"
  then have "j \<in> set (map snd (pl_sessionSlots p')) \<or> j = i" by (auto simp: assms(4) gm_put_fresh [OF assms(2)])
  with flagsD(2) [OF assms(1)] assms(6,7)
  show "sl_checkedOut (pl_heap p'' ! j) \<and> \<not> sl_respawning (pl_heap p'' ! j)"
    by (auto simp: assms(5))
qed (use flagsD(1,3) [OF assms(1)] assms(3,5) in simp_all)

lemma flags_effect:
  assumes "flags_inv (p, B + A)" "session_effect sid e slot p p'"
  shows "flags_inv (p', releasing slot + A)"
proof -
  have sub: "set (map snd (pl_sessionSlots p')) \<subseteq> set (map snd (pl_sessionSlots p))"
    using assms(2) gm_set_del [of sid "pl_sessionSlots p"]
    by (auto simp: session_effect_def split: seq_effect.splits)
  have slot: "i \<in> set (map snd (pl_sessionSlots p))" if "slot = Some i" for i
  proof -
    have "gm_get (pl_sessionSlots p) sid = Some i"
      using assms(2) that by (auto simp: session_effect_def split: seq_effect.splits)
    from map_of_SomeD [OF this] show ?thesis by force
  qed
  have "pl_slots p' = pl_slots p" "pl_heap p' = pl_heap p"
    using assms(2) by (auto simp: session_effect_def same_rest_def)
  note same = this
  show ?thesis
  proof (rule flagsI)
    fix j assume "j \<in> set (map snd (pl_sessionSlots p'))"
    with sub have "j \<in> set (map snd (pl_sessionSlots p))" by blast
    from flagsD(2) [OF assms(1) this]
    show "sl_checkedOut (pl_heap p' ! j) \<and> \<not> sl_respawning (pl_heap p' ! j)" by (simp add: same)
  next
    fix b j assume b: "b \<in># releasing slot + A" "j \<in># own b"
    show "(marked b \<longrightarrow> sl_checkedOut (pl_heap p' ! j)) \<and> sl_respawning (pl_heap p' ! j) = replacing b"
    proof (cases "b \<in># A")
      case True
      then have "b \<in># B + A" by simp
      from flagsD(3) [OF assms(1) this b(2)] show ?thesis by (simp add: same)
    next
      case False
      with b have "slot = Some j" "b = ARelease j" by (auto simp: releasing_def split: option.splits)
      with flagsD(2) [OF assms(1) slot] show ?thesis by (simp add: same)
    qed
  qed (use flagsD(1) [OF assms(1)] same in simp)
qed

text \<open>A step of an activity on the slot it holds, when the slot stays in its hands.\<close>

lemma flags_hold:
  assumes "flags_inv (p, add_mset a A)" "exclusive i p A" "i < length (pl_heap p)" "own a = {#i#}"
    and "pl_slots p' = pl_slots p" "pl_sessionSlots p' = pl_sessionSlots p" "pl_heap p' = (pl_heap p)[i := v]"
    and "own b = {#i#} \<or> own b = {#}" "own b = {#i#} \<Longrightarrow> (marked b \<longrightarrow> sl_checkedOut v) \<and> sl_respawning v = replacing b"
  shows "flags_inv (p', add_mset b A)"
proof -
  have "flags_inv (p', {#b#} + A)" by (rule flags_own [OF assms(1-3,5-7)]) (use assms(8,9) in auto)
  then show ?thesis by simp
qed

lemma flags_mono:
  assumes "flags_inv (p, C)" "pl_slots p' = pl_slots p" "pl_sessionSlots p' = pl_sessionSlots p"
    "pl_heap p' = pl_heap p" "\<And>x. x \<in># A \<Longrightarrow> x \<in># C \<or> own x = {#}"
  shows "flags_inv (p', A)"
proof (rule flagsI)
  fix b i assume b: "b \<in># A" "i \<in># own b"
  with assms(5) [OF b(1)] have "b \<in># C" by auto
  from flagsD(3) [OF assms(1) this b(2)]
  show "(marked b \<longrightarrow> sl_checkedOut (pl_heap p' ! i)) \<and> sl_respawning (pl_heap p' ! i) = replacing b"
    by (simp add: assms(4))
qed (use flagsD(1,2) [OF assms(1)] assms(2-4) in simp_all)

lemma flags_tryReturn:
  assumes "flags_inv (p, add_mset a A)" "exclusive i p A" "i < length (pl_heap p)" "own a = {#i#}"
    and "\<not> replacing a" "length (pl_slots p) < cap p" "\<And>x. x \<in># B \<Longrightarrow> own x = {#}"
    and "f = (\<lambda>s. s) \<or> f = (\<lambda>s. s\<lparr>sl_dead := True\<rparr>)"
  shows "flags_inv (snd (tryReturnSlotLocked i (upd_slot i f p)), B + A)"
proof -
  let ?v = "(f (pl_heap p ! i))\<lparr>sl_checkedOut := False\<rparr>"
  let ?p = "p\<lparr>pl_heap := (pl_heap p)[i := ?v]\<rparr>"
  have "sl_respawning (pl_heap p ! i) = replacing a" using flagsD(3) [OF assms(1), of a i] assms(4) by simp
  with assms(5,8) have v: "\<not> sl_respawning ?v" by auto
  have "flags_inv (?p, B + A)" by (rule flags_own [OF assms(1-3)]) (use assms(7) in auto)
  then show ?thesis
    by (rule flags_free) (use assms v in \<open>auto simp: tryReturnSlotLocked_def upd_slot_def cap_def\<close>)
qed

lemma upd_slot_id: "upd_slot i (\<lambda>s. s) p = p"
  by (simp add: upd_slot_def)

text \<open>The places part of the invariant.\<close>

definition acct_inv :: "psys \<Rightarrow> bool" where
  "acct_inv s \<longleftrightarrow> (case s of (p, A) \<Rightarrow>
     length (pl_heap p) = cap p \<and> places (p, A) \<subseteq># mset [0..<cap p] \<and>
     (\<not> ends p \<longrightarrow> places (p, A) = mset [0..<cap p]) \<and>
     gm_ok (pl_sessionSlots p) \<and> gm_ok (pl_sessionSequences p) \<and>
     (pl_closed p \<longrightarrow> pl_closing p) \<and>
     (pl_all p = [0..<cap p] \<or> pl_closed p \<and> pl_all p = []))"

lemma acctD:
  assumes "acct_inv (p, A)"
  shows "length (pl_heap p) = cap p" "places (p, A) \<subseteq># mset [0..<cap p]"
    "\<not> ends p \<Longrightarrow> places (p, A) = mset [0..<cap p]"
    "gm_ok (pl_sessionSlots p)" "gm_ok (pl_sessionSequences p)" "pl_closed p \<Longrightarrow> pl_closing p"
    "pl_all p = [0..<cap p] \<or> pl_closed p \<and> pl_all p = []"
  using assms by (auto simp: acct_inv_def)

lemma acct_owner:
  assumes "acct_inv (p, add_mset a A)" "own a = {#i#}"
  shows "exclusive i p A" "i < length (pl_heap p)" "length (pl_slots p) < cap p"
  using held_exclusive [OF acctD(2) [OF assms(1)] assms(2)] held_room [OF acctD(2) [OF assms(1)] assms(2)]
    acctD(1) [OF assms(1)] by auto

text \<open>The fields the places part mentions besides the places.\<close>

lemma effect_fields:
  "session_effect sid e slot p p' \<Longrightarrow> gm_ok (pl_sessionSlots p) \<Longrightarrow> gm_ok (pl_sessionSequences p) \<Longrightarrow>
     gm_ok (pl_sessionSlots p') \<and> gm_ok (pl_sessionSequences p') \<and> same_rest p p'"
  by (auto simp: session_effect_def split: seq_effect.splits)

lemma step_fields:
  assumes "pool_step s t" "acct_inv s"
  shows "cap (fst t) = cap (fst s) \<and> length (pl_heap (fst t)) = length (pl_heap (fst s)) \<and>
    gm_ok (pl_sessionSlots (fst t)) \<and> gm_ok (pl_sessionSequences (fst t)) \<and>
    (pl_closed (fst s) \<longrightarrow> pl_closed (fst t)) \<and> (pl_closing (fst s) \<longrightarrow> pl_closing (fst t)) \<and>
    (pl_closed (fst t) \<longrightarrow> pl_closing (fst t)) \<and>
    (pl_all (fst t) = pl_all (fst s) \<or> pl_closed (fst t) \<and> pl_all (fst t) = [])"
proof -
  note ok = acctD(4,5,6) [of "fst s" "snd s"]
  have eff: "cap p' = cap p \<and> length (pl_heap p') = length (pl_heap p) \<and>
      gm_ok (pl_sessionSlots p') \<and> gm_ok (pl_sessionSequences p') \<and> pl_closed p' = pl_closed p \<and>
      pl_closing p' = pl_closing p \<and> pl_all p' = pl_all p"
    if "session_effect sid e slot p p'" "fst s = p" for sid e slot p p'
    using effect_fields [OF that(1)] ok assms(2) that(2) by (auto simp: same_rest_def cap_def)
  show ?thesis
    using assms(1)
  proof cases
    case (step_finish sid p slot p' A)
    from step_finish(3) obtain e where "session_effect sid e slot p p'"
      by (rule finishPromptSequence_cases) blast+
    from eff [OF this] step_finish ok assms(2) show ?thesis by auto
  next
    case (step_resolve sid succeeded p slot p' i A)
    from step_resolve(3) obtain e where "session_effect sid e slot p p'"
      by (rule resolvePromptStart_cases) blast+
    from eff [OF this] step_resolve ok assms(2) show ?thesis by auto
  next
    case (step_stream sid p slot p' A)
    from step_stream(3) obtain e where "session_effect sid e slot p p'"
      by (rule finishPromptForSession_cases) blast+
    from eff [OF this] step_stream ok assms(2) show ?thesis by auto
  next
    case (step_cancelPending sid p call p' A)
    from step_cancelPending(3) obtain e where "session_effect sid e None p p'"
      by (rule Cancel_start_cases) auto
    from eff [OF this] step_cancelPending ok assms(2) show ?thesis by auto
  next
    case (step_cancelTaken sid p slot p' A)
    from step_cancelTaken(3) obtain e where "session_effect sid e slot p p'"
      by (rule Cancel_start_cases) auto
    from eff [OF this] step_cancelTaken ok assms(2) show ?thesis by auto
  next
    case (step_cancelRPC sid p slot p' A)
    from step_cancelRPC(3) obtain e where "session_effect sid e slot p p'"
      by (rule completePendingCancel_cases) blast+
    from eff [OF this] step_cancelRPC ok assms(2) show ?thesis by auto
  qed (use ok assms(2) in \<open>auto simp: slots_recv_def newSession_admit_def respawn_mark_def respawn_close_old_def
      respawn_clear_def respawn_fail_def respawn_swap_def recordSpawnErr_def newSession_requeueDead_def newSession_requeue_def
      newSession_register_def BeginPromptSequence_def Prompt_start_def release_stamp_def returnOrRecycle_def
      tryReturnSlotLocked_def recycle_finish_def recycle_done_def markSlotCheckedOut_def probeCatalogOnce_def
      exitWatcher_done_def Close_signal_def Close_admission_def closeAll_def Let_def cap_def
      split: list.splits if_splits option.splits sum.splits\<close>)
qed

lemma step_acct:
  assumes "pool_step s t" "acct_inv s"
  shows "acct_inv t"
proof -
  obtain p A p' A' where st: "s = (p, A)" "t = (p', A')" by (cases s, cases t) auto
  note a = acctD [OF assms(2) [unfolded st(1)]]
  note f = step_fields [OF assms, unfolded st fst_conv]
  have pl: "places (p', A') = places (p, A) \<or> ends p \<and> places (p', A') \<subseteq># places (p, A)"
    using step_places [OF assms(1)] a(2,4) unfolding st by simp
  have "\<not> ends p' \<Longrightarrow> \<not> ends p" using f by (auto simp: ends_def)
  moreover have "places (p', A') \<subseteq># mset [0..<cap p']"
    using pl a(2) f by (metis subset_mset.order_trans)
  ultimately show ?thesis
    unfolding st(2) acct_inv_def using pl a f by auto
qed

text \<open>Every step keeps the flags in agreement with the places.\<close>

lemma upd_slot_at: "pl_heap (upd_slot i f p) = (pl_heap p)[i := f (pl_heap p ! i)]"
  by (simp add: upd_slot_def)

lemma flags_own_slot:
  assumes "flags_inv (p, add_mset a A)" "own a = {#i#}"
  shows "marked a \<Longrightarrow> sl_checkedOut (pl_heap p ! i)" "sl_respawning (pl_heap p ! i) = replacing a"
  using flagsD(3) [OF assms(1), of a i] assms(2) by auto

lemma flags_upd:
  assumes "acct_inv (p, add_mset a A)" "flags_inv (p, add_mset a A)" "own a = {#i#}" "own b = {#i#}"
    and "pl_slots p' = pl_slots p" "pl_sessionSlots p' = pl_sessionSlots p" "pl_heap p' = pl_heap (upd_slot i f p)"
    and "marked b \<Longrightarrow> sl_checkedOut (f (pl_heap p ! i))" "sl_respawning (f (pl_heap p ! i)) = replacing b"
  shows "flags_inv (p', add_mset b A)"
  by (rule flags_hold [OF assms(2) acct_owner(1,2) [OF assms(1,3)] assms(3,5,6), where v = "f (pl_heap p ! i)"])
    (use assms in \<open>auto simp: upd_slot_at\<close>)

lemma flags_recv:
  assumes "slots_recv p = Some (i, p')" "flags_inv (p, A)" "own a = {#i#}" "\<not> marked a" "\<not> replacing a"
  shows "flags_inv (p', add_mset a A)"
proof -
  have p: "pl_slots p = i # pl_slots p'" "pl_sessionSlots p' = pl_sessionSlots p" "pl_heap p' = pl_heap p"
    using assms(1) by (auto simp: slots_recv_def split: list.splits)
  show ?thesis
  proof (rule flagsI)
    fix b j assume b: "b \<in># add_mset a A" "j \<in># own b"
    show "(marked b \<longrightarrow> sl_checkedOut (pl_heap p' ! j)) \<and> sl_respawning (pl_heap p' ! j) = replacing b"
    proof (cases "b = a")
      case True
      with b assms(3-5) flagsD(1) [OF assms(2), of i] p show ?thesis by simp
    next
      case False
      with b have "b \<in># A" by simp
      from flagsD(3) [OF assms(2) this b(2)] show ?thesis by (simp add: p(3))
    qed
  qed (use flagsD(1,2) [OF assms(2)] p in simp_all)
qed

lemma flags_back:
  assumes "acct_inv (p, add_mset a A)" "flags_inv (p, add_mset a A)" "own a = {#i#}" "\<not> replacing a"
    "\<And>x. x \<in># B \<Longrightarrow> own x = {#}" "f = (\<lambda>s. s) \<or> f = (\<lambda>s. s\<lparr>sl_dead := True\<rparr>)"
  shows "flags_inv (snd (tryReturnSlotLocked i (upd_slot i f p)), B + A)"
  using flags_tryReturn [OF assms(2) acct_owner(1,2) [OF assms(1,3)] assms(3,4) acct_owner(3) [OF assms(1,3)] assms(5,6)] .

lemma after_respawn_marked [simp]: "marked (after_respawn c i e)" "\<not> replacing (after_respawn c i e)"
  by (simp_all add: after_respawn_def split: respawnCause.split)

lemma flags_dead:
  assumes "flags_inv (p, A)" "i < length (pl_heap p)"
  shows "flags_inv (upd_slot i (\<lambda>s. s\<lparr>sl_dead := True\<rparr>) p, A)"
proof -
  have "sl_checkedOut (pl_heap (upd_slot i (\<lambda>s. s\<lparr>sl_dead := True\<rparr>) p) ! j) = sl_checkedOut (pl_heap p ! j)"
    "sl_respawning (pl_heap (upd_slot i (\<lambda>s. s\<lparr>sl_dead := True\<rparr>) p) ! j) = sl_respawning (pl_heap p ! j)" for j
    using assms(2) by (simp_all add: upd_slot_at nth_list_update)
  then show ?thesis using flagsD [OF assms(1)] by (intro flagsI) simp_all
qed

lemma flags_register:
  assumes inv: "acct_inv (p, add_mset a A)" "flags_inv (p, add_mset a A)" "own a = {#i#}" "marked a" "\<not> replacing a"
    and r: "newSession_register i sid p = (r, p')" "gm_get (pl_sessionSlots p) sid = None" "\<not> pl_closed p"
  shows "flags_inv (p', A)"
proof -
  let ?f = "\<lambda>s. s\<lparr>sl_turns := sl_turns s + 1, sl_userRequests := sl_userRequests s + 1\<rparr>"
  note own = flags_own_slot [OF inv(2,3)] and ex = acct_owner [OF inv(1,3)]
  have "flags_inv (upd_slot i ?f p, {#} + A)"
    by (rule flags_own [OF inv(2) ex(1,2), where v = "?f (pl_heap p ! i)"]) (simp_all add: upd_slot_at)
  then have "flags_inv (upd_slot i ?f p, A)" by simp
  then show ?thesis
    by (rule flags_session [where sid = sid and i = i])
      (use r own inv(4,5) ex(2) in \<open>auto simp: newSession_register_def upd_slot_heap upd_slot_def\<close>)
qed

text \<open>An activity goes on with its slot unchanged, or with one of the two flags set.\<close>

lemma flags_keep:
  assumes "acct_inv (p, add_mset a A)" "flags_inv (p, add_mset a A)" "own a = {#i#}" "own b = {#i#}"
    "marked a" "replacing b = replacing a"
    "pl_slots p' = pl_slots p" "pl_sessionSlots p' = pl_sessionSlots p" "pl_heap p' = pl_heap p"
  shows "flags_inv (p', add_mset b A)"
  by (rule flags_upd [OF assms(1-4,7,8), where f = "\<lambda>s. s"])
    (use assms flags_own_slot [OF assms(2,3)] in \<open>simp_all add: upd_slot_id\<close>)

lemma flags_mark:
  assumes "acct_inv (p, add_mset a A)" "flags_inv (p, add_mset a A)" "own a = {#i#}" "own b = {#i#}"
    "\<not> replacing a" "\<not> replacing b"
  shows "flags_inv (markSlotCheckedOut i p, add_mset b A)"
  by (rule flags_upd [OF assms(1-4), where f = "\<lambda>s. s\<lparr>sl_checkedOut := True\<rparr>"])
    (use assms flags_own_slot(2) [OF assms(2,3)] in \<open>simp_all add: markSlotCheckedOut_def\<close>)

lemma flags_respawn:
  assumes "acct_inv (p, add_mset a A)" "flags_inv (p, add_mset a A)" "own a = {#i#}" "marked a"
  shows "flags_inv (respawn_mark i p, add_mset (ARespawn i c) A)"
  by (rule flags_upd [OF assms(1-3), where f = "\<lambda>s. s\<lparr>sl_respawning := True\<rparr>"])
    (use flags_own_slot(1) [OF assms(2,3)] assms(4) in \<open>simp_all add: respawn_mark_def\<close>)

lemma flags_fail:
  assumes "acct_inv (p, add_mset a A)" "flags_inv (p, add_mset a A)" "own a = {#i#}" "marked a"
    "pl_slots p1 = pl_slots p" "pl_sessionSlots p1 = pl_sessionSlots p" "pl_heap p1 = pl_heap p"
  shows "flags_inv (respawn_fail i c e now p1, add_mset (after_respawn c i (Some e)) A)"
  by (rule flags_upd [OF assms(1-3), where f = "\<lambda>s. if c = respawnCauseRecycle
        then s\<lparr>sl_dead := True, sl_respawning := False\<rparr> else s\<lparr>sl_respawning := False\<rparr>"])
    (use flags_own_slot(1) [OF assms(2,3)] assms(4-7) in
      \<open>simp_all add: respawn_fail_def respawn_clear_def recordSpawnErr_def upd_slot_def Let_def\<close>)

lemma step_flags:
  assumes "pool_step s t" "acct_inv s" "flags_inv s"
  shows "flags_inv t"
  using assms
proof cases
  case (step_recvNew p i p' A)
  then show ?thesis using flags_recv [of p i p' A "ANewGot i"] assms by simp
next
  case (step_recvIdle p i p' A)
  then show ?thesis using flags_recv [of p i p' A "AIdleGot i"] assms by simp
next
  case (step_recvProbe p i p' A)
  then show ?thesis using flags_recv [of p i p' A "AProbeGot i"] assms by simp
next
  case (step_admit i p closed p' A)
  let ?f = "\<lambda>s. s\<lparr>sl_checkedOut := True\<rparr>"
  have inv: "acct_inv (p, add_mset (ANewGot i) A)" "flags_inv (p, add_mset (ANewGot i) A)"
    using step_admit assms by auto
  note own = flags_own_slot [OF inv(2)] and ex = acct_owner [OF inv(1)]
  have "flags_inv (p', {#} + A)"
    by (rule flags_own [OF inv(2) ex(1,2), where v = "?f (pl_heap p ! i)"])
      (use step_admit in \<open>auto simp: newSession_admit_def upd_slot_at\<close>)
  moreover have "flags_inv (p', add_mset (ANewCheck i) A)"
    by (rule flags_upd [OF inv, where f = ?f]) (use step_admit own(2) in \<open>auto simp: newSession_admit_def\<close>)
  ultimately show ?thesis using step_admit by auto
next
  case (step_swap i c k now p r p' A)
  have inv: "acct_inv (p, add_mset (AInit i c k) A)" "flags_inv (p, add_mset (AInit i c k) A)"
    using step_swap assms by auto
  note own = flags_own_slot [OF inv(2)]
  obtain f where "pl_heap p' = pl_heap (upd_slot i f p)" "sl_checkedOut (f (pl_heap p ! i))"
      "\<not> sl_respawning (f (pl_heap p ! i))"
    using step_swap(3) own(1)
    by (cases "pl_closed p") (fastforce simp: respawn_swap_def respawn_clear_def Let_def split: if_splits)+
  then show ?thesis
    unfolding step_swap(2) using swap_frame [OF step_swap(3)] by (intro flags_upd [OF inv]) auto
next
  case (step_newFail p i A)
  have inv: "acct_inv (p, add_mset (ANewFail i) A)" "flags_inv (p, add_mset (ANewFail i) A)"
    using step_newFail assms by auto
  show ?thesis
    using flags_back [OF inv, of i "{#}" "\<lambda>s. s\<lparr>sl_dead := True\<rparr>"] flags_mono [OF inv(2), of p A] step_newFail(2)
    by (simp add: newSession_requeueDead_def)
next
  case (step_callFail p i A)
  have inv: "acct_inv (p, add_mset (ANewCall i) A)" "flags_inv (p, add_mset (ANewCall i) A)"
    using step_callFail assms by auto
  show ?thesis
    using flags_back [OF inv, of i "{#}" "\<lambda>s. s"] flags_mono [OF inv(2), of p A] step_callFail(2)
    by (simp add: newSession_requeue_def upd_slot_id)
next
  case (step_register sid p A i r2 p')
  have inv: "acct_inv (p, add_mset (ANewCall i) A)" "flags_inv (p, add_mset (ANewCall i) A)"
    using step_register assms by auto
  show ?thesis
  proof (cases "pl_closed p")
    case True
    with step_register flags_mono [OF inv(2), of p A] show ?thesis by (auto simp: newSession_register_def)
  next
    case False
    with step_register show ?thesis
      using flags_register [OF inv, of i sid r2 p'] by (simp add: fresh_sid_def)
  qed
next
  case (step_finish sid p slot p' A)
  from step_finish(3) obtain e where "session_effect sid e slot p p'"
    by (rule finishPromptSequence_cases) blast+
  then show ?thesis unfolding step_finish(2) by (rule flags_effect [rotated, of _ _ _ _ _ "{#ASequence sid#}"])
    (use step_finish(1) assms(3) in simp)
next
  case (step_resolve sid succeeded p slot p' i A)
  from step_resolve(3) obtain e where e: "session_effect sid e slot p p'"
    by (rule resolvePromptStart_cases) blast+
  have "flags_inv (p, {#} + (if succeeded then add_mset (AStream sid) A else A))"
    by (rule flags_mono [OF assms(3) [unfolded step_resolve(1)]]) (auto split: if_splits)
  from flags_effect [OF this e] show ?thesis unfolding step_resolve(2) .
next
  case (step_stream sid p slot p' A)
  from step_stream(3) obtain e where "session_effect sid e slot p p'"
    by (rule finishPromptForSession_cases) blast+
  then show ?thesis unfolding step_stream(2) by (rule flags_effect [rotated, of _ _ _ _ _ "{#AStream sid#}"])
    (use step_stream(1) assms(3) in simp)
next
  case (step_cancelPending sid p call p' A)
  from step_cancelPending(3) obtain e where e: "session_effect sid e None p p'"
    by (rule Cancel_start_cases) auto
  have "flags_inv (p, {#} + (if call then add_mset (ACancelRPC sid) A else A))"
    by (rule flags_mono [OF assms(3) [unfolded step_cancelPending(1)]]) (auto split: if_splits)
  from flags_effect [OF this e] show ?thesis unfolding step_cancelPending(2) by (simp add: releasing_def)
next
  case (step_cancelTaken sid p slot p' A)
  from step_cancelTaken(3) obtain e where "session_effect sid e slot p p'"
    by (rule Cancel_start_cases) auto
  then show ?thesis unfolding step_cancelTaken(2) by (rule flags_effect [rotated, of _ _ _ _ _ "{#}"])
    (use step_cancelTaken(1) assms(3) in simp)
next
  case (step_cancelRPC sid p slot p' A)
  from step_cancelRPC(3) obtain e where "session_effect sid e slot p p'"
    by (rule completePendingCancel_cases) blast+
  then show ?thesis unfolding step_cancelRPC(2) by (rule flags_effect [rotated, of _ _ _ _ _ "{#ACancelRPC sid#}"])
    (use step_cancelRPC(1) assms(3) in simp)
next
  case (step_return i t p r3 p' A)
  have inv: "acct_inv (p, add_mset (AReturn i t) A)" "flags_inv (p, add_mset (AReturn i t) A)"
    using step_return assms by auto
  have "flags_inv (q, add_mset (ARecycle i) A)" if "pl_heap q = pl_heap p" "pl_slots q = pl_slots p"
    "pl_sessionSlots q = pl_sessionSlots p" for q
    by (rule flags_upd [OF inv, where f = "\<lambda>s. s"]) (use that flags_own_slot [OF inv(2)] in \<open>auto simp: upd_slot_id\<close>)
  then show ?thesis
    using flags_back [OF inv, of i "{#}" "\<lambda>s. s"] flags_mono [OF inv(2), of p A] step_return(2,3)
    by (auto simp: returnOrRecycle_def upd_slot_id split: if_splits option.splits)
next
  case (step_recycleEnd p i err A)
  have inv: "acct_inv (p, add_mset (ARecycleEnd i err) A)" "flags_inv (p, add_mset (ARecycleEnd i err) A)"
    using step_recycleEnd assms by auto
  have "flags_inv (q, add_mset ARecycleDone A)" if "pl_heap q = pl_heap p" "pl_slots q = pl_slots p"
    "pl_sessionSlots q = pl_sessionSlots p" for q
    by (rule flags_mono [OF inv(2)]) (use that in auto)
  then show ?thesis
    using flags_back [OF inv, of i "{#ARecycleDone#}" "\<lambda>s. s"] flags_back [OF inv, of i "{#ARecycleDone#}" "\<lambda>s. s\<lparr>sl_dead := True\<rparr>"]
      step_recycleEnd(2)
    by (simp add: recycle_finish_def upd_slot_id)
next
  case (step_watcher p i A k)
  then show ?thesis
    using flags_dead [of p A i] assms by (simp add: exitWatcher_done_def Let_def)
next
  case (step_alive i p A)
  then show ?thesis using flags_keep [of p "ANewCheck i" A i "ANewCall i" p] assms by simp
next
  case (step_dead i p A)
  then show ?thesis using flags_respawn [of p "ANewCheck i" A i] assms by simp
next
  case (step_spawn k p i c A p1)
  then show ?thesis
    using flags_keep [of p "ARespawn i c" A i "AInit i c k" "p1\<lparr>pl_open := insert k (pl_open p1)\<rparr>"] assms
    by (simp add: respawn_close_old_def)
next
  case (step_spawnFail p i c A e now)
  then show ?thesis
    using flags_fail [of p "ARespawn i c" A i "respawn_close_old i p" c e now] assms
    by (simp add: respawn_close_old_def)
next
  case (step_initFail p i c k A e now)
  then show ?thesis
    using flags_fail [of p "AInit i c k" A i "client_Close (Some k) p" c e now] assms by simp
next
  case (step_begin sid p p' A)
  then show ?thesis
    using assms by (auto intro!: flags_mono [of p A] simp: BeginPromptSequence_def Let_def split: if_splits)
next
  case (step_prompt sid p i p' A)
  then show ?thesis
    using assms by (auto intro!: flags_mono [of p A] simp: Prompt_start_def split: option.splits)
next
  case (step_release p i A now)
  then show ?thesis
    using flags_upd [of p "ARelease i" A i "ASnap i" "release_stamp i now p" "\<lambda>s. s\<lparr>sl_lastUserReleaseAt := now\<rparr>"] assms
      flags_own_slot [of p "ARelease i" A i]
    by (simp add: release_stamp_def)
next
  case (step_snap p i A)
  then show ?thesis
    using flags_keep [of p "ASnap i" A i "AReturn i (max_turns_trigger i p)" p] assms by simp
next
  case (step_recycle p i A)
  then show ?thesis using flags_respawn [of p "ARecycle i" A i] assms by simp
next
  case (step_idleMark p i A)
  then show ?thesis using flags_mark [of p "AIdleGot i" A i "AIdle i"] assms by simp
next
  case (step_idle i pidOf readMem now p t A)
  then show ?thesis
    using flags_keep [of p "AIdle i" A i "if t = None then ASnap i else AReturn i t" p] assms by simp
next
  case (step_probeMark p i A)
  then show ?thesis using flags_mark [of p "AProbeGot i" A i "AProbe i"] assms by simp
next
  case (step_probeDead i p A)
  then show ?thesis using flags_keep [of p "AProbe i" A i "ASnap i" p] assms by simp
next
  case (step_probe i p answer r4 p' A)
  then show ?thesis
    using flags_upd [of p "AProbe i" A i "ASnap i" p' "\<lambda>s. s\<lparr>sl_turns := sl_turns s + 1\<rparr>"]
      flags_keep [of p "AProbe i" A i "ASnap i" p] flags_own_slot [of p "AProbe i" A i] assms
    by (auto simp: probeCatalogOnce_def split: sum.splits)
next
  case (step_recycleDrop p i A)
  show ?thesis
    unfolding step_recycleDrop(2) by (rule flags_mono [OF assms(3) [unfolded step_recycleDrop(1)]]) auto
next
  case (step_recycleDone p A)
  then show ?thesis
    using flags_mono [of p "add_mset ARecycleDone A" "recycle_done p" A] assms by (simp add: recycle_done_def)
next
  case (step_exit p A k)
  then show ?thesis using flags_mono [of p A "p\<lparr>pl_open := pl_open p - {k}\<rparr>" A] assms by simp
next
  case (step_signal p A)
  then show ?thesis using flags_mono [of p A "Close_signal p" A] assms by (simp add: Close_signal_def)
next
  case (step_admission p A)
  then show ?thesis using flags_mono [of p A "Close_admission p" A] assms by (simp add: Close_admission_def)
next
  case (step_closeAll p A)
  then show ?thesis
    using flags_mono [of p A "snd (snd (closeAll p))" A] assms by (simp add: closeAll_def Let_def)
qed

section \<open>One recycle at a time\<close>

definition recycle_inv :: "psys \<Rightarrow> bool" where
  "recycle_inv s \<longleftrightarrow> (case s of (p, A) \<Rightarrow>
     pl_recyclesInFlight p = size (filter_mset recycling A) \<and> pl_recyclesInFlight p \<le> 1)"

lemma recycling_after [simp]: "recycling (after_respawn c i e) = (c = respawnCauseRecycle)"
  by (simp add: after_respawn_def split: respawnCause.split)

lemma recycling_releasing [simp]: "filter_mset recycling (releasing slot) = {#}"
  by (simp add: releasing_def split: option.split)

lemma effect_recycles: "session_effect sid e slot p p' \<Longrightarrow> pl_recyclesInFlight p' = pl_recyclesInFlight p"
  by (simp add: session_effect_def same_rest_def)

lemma section_recycles [simp]:
  "pl_recyclesInFlight (snd (tryReturnSlotLocked i p)) = pl_recyclesInFlight p"
  "pl_recyclesInFlight (respawn_mark i p) = pl_recyclesInFlight p"
  "pl_recyclesInFlight (respawn_close_old i p) = pl_recyclesInFlight p"
  "pl_recyclesInFlight (respawn_fail i c e now p) = pl_recyclesInFlight p"
  "pl_recyclesInFlight (newSession_requeueDead i p) = pl_recyclesInFlight p"
  "pl_recyclesInFlight (newSession_requeue i p) = pl_recyclesInFlight p"
  "pl_recyclesInFlight (recycle_finish i err p) = pl_recyclesInFlight p"
  "pl_recyclesInFlight (markSlotCheckedOut i p) = pl_recyclesInFlight p"
  "pl_recyclesInFlight (release_stamp i now p) = pl_recyclesInFlight p"
  "pl_recyclesInFlight (exitWatcher_done i k p) = pl_recyclesInFlight p"
  "pl_recyclesInFlight (Close_signal p) = pl_recyclesInFlight p"
  "pl_recyclesInFlight (Close_admission p) = pl_recyclesInFlight p"
  "pl_recyclesInFlight (snd (snd (closeAll p))) = pl_recyclesInFlight p"
  by (simp_all add: tryReturnSlotLocked_def respawn_mark_def respawn_close_old_def respawn_fail_def respawn_clear_def
      recordSpawnErr_def newSession_requeueDead_def newSession_requeue_def recycle_finish_def
      markSlotCheckedOut_def release_stamp_def exitWatcher_done_def Close_signal_def Close_admission_def
      closeAll_def Let_def)

lemma return_recycles:
  "returnOrRecycle i t p = (r, p') \<Longrightarrow>
     if r = None then pl_recyclesInFlight p' = pl_recyclesInFlight p
     else pl_recyclesInFlight p = 0 \<and> pl_recyclesInFlight p' = 1"
  by (auto simp: returnOrRecycle_def split: if_splits option.splits)

lemma step_recycle_inv:
  assumes "pool_step s t" "recycle_inv s"
  shows "recycle_inv t"
  using assms
proof cases
  case (step_swap i c k now p r p' A)
  have "pl_recyclesInFlight p' = pl_recyclesInFlight p"
    using step_swap(3) by (auto simp: respawn_swap_def respawn_clear_def Let_def split: if_splits)
  with step_swap assms show ?thesis by (simp add: recycle_inv_def)
next
  case (step_finish sid p slot p' A)
  from step_finish(3) obtain e where "session_effect sid e slot p p'"
    by (rule finishPromptSequence_cases) blast+
  with step_finish assms show ?thesis by (simp add: recycle_inv_def effect_recycles)
next
  case (step_resolve sid succeeded p slot p' i A)
  from step_resolve(3) obtain e where "session_effect sid e slot p p'"
    by (rule resolvePromptStart_cases) blast+
  with step_resolve assms show ?thesis by (simp add: recycle_inv_def effect_recycles)
next
  case (step_stream sid p slot p' A)
  from step_stream(3) obtain e where "session_effect sid e slot p p'"
    by (rule finishPromptForSession_cases) blast+
  with step_stream assms show ?thesis by (simp add: recycle_inv_def effect_recycles)
next
  case (step_cancelPending sid p call p' A)
  from step_cancelPending(3) obtain e where "session_effect sid e None p p'"
    by (rule Cancel_start_cases) auto
  with step_cancelPending assms show ?thesis by (simp add: recycle_inv_def effect_recycles)
next
  case (step_cancelTaken sid p slot p' A)
  from step_cancelTaken(3) obtain e where "session_effect sid e slot p p'"
    by (rule Cancel_start_cases) auto
  with step_cancelTaken assms show ?thesis by (simp add: recycle_inv_def effect_recycles)
next
  case (step_cancelRPC sid p slot p' A)
  from step_cancelRPC(3) obtain e where "session_effect sid e slot p p'"
    by (rule completePendingCancel_cases) blast+
  with step_cancelRPC assms show ?thesis by (simp add: recycle_inv_def effect_recycles)
next
  case (step_return i t p r3 p' A)
  with assms return_recycles [OF step_return(3)] show ?thesis
    by (cases "r3 = None") (simp_all add: recycle_inv_def)
next
  case (step_register sid p A i r2 p')
  with assms show ?thesis by (auto simp: recycle_inv_def newSession_register_def split: if_splits)
next
  case (step_begin sid p p' A)
  with assms show ?thesis by (auto simp: recycle_inv_def BeginPromptSequence_def Let_def split: if_splits)
next
  case (step_prompt sid p i p' A)
  with assms show ?thesis by (auto simp: recycle_inv_def Prompt_start_def split: option.splits)
next
  case (step_probe i p answer r4 p' A)
  with assms show ?thesis by (auto simp: recycle_inv_def probeCatalogOnce_def split: sum.splits)
qed (auto simp: recycle_inv_def slots_recv_def newSession_admit_def recycle_done_def split: list.splits if_splits)

end
