(* ===== verification/PoolSeqInv.thy ===== *)
theory PoolSeqInv
  imports PoolInv
begin

text \<open>
  The sequence states and the worker processes. For each session: a sequence state exists only
  while the session does; each of its marks (holds, pending, active, cancel under way) has an
  activity that will clear it, and at least one mark is set, so that somebody will release the slot;
  the startup of a prompt keeps its session. For the processes: every running process is the client
  of a slot that \<open>Close\<close> will still see, or of a respawn under way that will close it itself.
\<close>

section \<open>Sequence states\<close>

definition mine :: "string \<Rightarrow> act multiset \<Rightarrow> act multiset" where
  "mine sid A = filter_mset (\<lambda>a. about a = Some sid) A"

fun starting :: "act \<Rightarrow> bool" where
  "starting (APrompt sid i) = True"
| "starting a = False"

definition seq_ok :: "string \<Rightarrow> promptSequenceState \<Rightarrow> act multiset \<Rightarrow> bool" where
  "seq_ok sid st M \<longleftrightarrow>
     sq_holds st \<le> count M (ASequence sid) \<and>
     (sq_promptPending st \<longrightarrow> (\<exists>i. APrompt sid i \<in># M)) \<and>
     (sq_promptActive st \<longrightarrow> AStream sid \<in># M) \<and>
     (sq_cancelRequested st \<and> \<not> sq_cancelComplete st \<longrightarrow> ACancelRPC sid \<in># M) \<and>
     (sq_holds st > 0 \<or> sq_promptPending st \<or> sq_promptActive st \<or>
      sq_cancelRequested st \<and> \<not> sq_cancelComplete st)"

definition session_ok :: "Pool \<Rightarrow> string \<Rightarrow> act multiset \<Rightarrow> bool" where
  "session_ok p sid M \<longleftrightarrow>
     (\<forall>st. gm_get (pl_sessionSequences p) sid = Some st \<longrightarrow>
        gm_get (pl_sessionSlots p) sid \<noteq> None \<and> seq_ok sid st M) \<and>
     (\<forall>i. APrompt sid i \<in># M \<and> pl_all p \<noteq> [] \<longrightarrow> gm_get (pl_sessionSlots p) sid = Some i \<and>
        (\<exists>st. gm_get (pl_sessionSequences p) sid = Some st \<and> sq_promptPending st)) \<and>
     size (filter_mset starting M) \<le> 1"

definition seq_inv :: "psys \<Rightarrow> bool" where
  "seq_inv s \<longleftrightarrow> (\<forall>sid. session_ok (fst s) sid (mine sid (snd s)))"

lemma mine_simps [simp]:
  "mine sid {#} = {#}" "mine sid (A + B) = mine sid A + mine sid B"
  "about a = Some sid \<Longrightarrow> mine sid (add_mset a A) = add_mset a (mine sid A)"
  "about a \<noteq> Some sid \<Longrightarrow> mine sid (add_mset a A) = mine sid A"
  by (simp_all add: mine_def)

lemma mine_releasing [simp]: "mine sid (releasing slot) = {#}"
  by (simp add: releasing_def split: option.split)

lemma about_after [simp]: "about (after_respawn c i e) = None"
  by (simp add: after_respawn_def split: respawnCause.split)

lemma session_ok_cong:
  assumes "gm_get (pl_sessionSequences p') sid = gm_get (pl_sessionSequences p) sid"
    "gm_get (pl_sessionSlots p') sid = gm_get (pl_sessionSlots p) sid" "pl_all p' = pl_all p"
  shows "session_ok p' sid M = session_ok p sid M"
  unfolding session_ok_def assms by simp

text \<open>A step that touches neither sessions nor their activities.\<close>

lemma seq_same:
  assumes "seq_inv (p, A)" "pl_sessionSequences p' = pl_sessionSequences p" "pl_sessionSlots p' = pl_sessionSlots p"
    "pl_all p' = pl_all p" "\<And>sid. mine sid A' = mine sid A"
  shows "seq_inv (p', A')"
  using assms(1) session_ok_cong [of p' _ p] assms(2-5) by (simp add: seq_inv_def)

text \<open>A step of one session.\<close>

lemma seq_one:
  assumes "seq_inv (p, A)" "session_effect sid0 e slot p p'"
    "\<And>sid. sid \<noteq> sid0 \<Longrightarrow> mine sid A' = mine sid A" "session_ok p' sid0 (mine sid0 A')"
  shows "seq_inv (p', A')"
proof -
  have "session_ok p' sid (mine sid A')" for sid
  proof (cases "sid = sid0")
    case False
    have "session_ok p' sid (mine sid A) = session_ok p sid (mine sid A)"
      by (rule session_ok_cong) (use assms(2) False in \<open>auto simp: session_effect_def same_rest_def split: seq_effect.splits\<close>)
    with assms(1,3) False show ?thesis by (simp add: seq_inv_def)
  qed (use assms(4) in simp)
  then show ?thesis by (simp add: seq_inv_def)
qed

text \<open>The new state of the session after each kind of effect.\<close>

lemma ok_taken:
  assumes "session_effect sid Taken slot p p'" "pl_all p \<noteq> [] \<Longrightarrow> filter_mset starting M = {#}"
    "size (filter_mset starting M) \<le> 1"
  shows "session_ok p' sid M"
proof -
  have "\<not> (APrompt sid i \<in># M \<and> pl_all p' \<noteq> [])" for i
  proof
    assume "APrompt sid i \<in># M \<and> pl_all p' \<noteq> []"
    then have "APrompt sid i \<in># filter_mset starting M" "pl_all p \<noteq> []"
      using assms(1) by (auto simp: session_effect_def same_rest_def)
    with assms(2) show False by (metis empty_iff set_mset_empty)
  qed
  with assms(1,3) show ?thesis by (auto simp: session_ok_def session_effect_def)
qed

lemma ok_kept:
  assumes "session_effect sid (Kept st) slot p p'" "gm_get (pl_sessionSlots p) sid \<noteq> None" "seq_ok sid st M"
    "\<And>i. APrompt sid i \<in># M \<Longrightarrow> pl_all p \<noteq> [] \<Longrightarrow> gm_get (pl_sessionSlots p) sid = Some i \<and> sq_promptPending st"
    "size (filter_mset starting M) \<le> 1"
  shows "session_ok p' sid M"
  using assms by (auto simp: session_ok_def session_effect_def same_rest_def)

lemma ok_untouched:
  assumes "session_effect sid Untouched slot p p'" "session_ok p sid M"
  shows "session_ok p' sid M"
  using session_ok_cong [of p' sid p M] assms by (auto simp: session_effect_def same_rest_def)

lemma sessionD:
  assumes "seq_inv (p, A)"
  shows "gm_get (pl_sessionSequences p) sid = Some st \<Longrightarrow> gm_get (pl_sessionSlots p) sid \<noteq> None"
    "gm_get (pl_sessionSequences p) sid = Some st \<Longrightarrow> seq_ok sid st (mine sid A)"
    "APrompt sid i \<in># mine sid A \<Longrightarrow> pl_all p \<noteq> [] \<Longrightarrow> gm_get (pl_sessionSlots p) sid = Some i \<and>
       (\<exists>st. gm_get (pl_sessionSequences p) sid = Some st \<and> sq_promptPending st)"
    "size (filter_mset starting (mine sid A)) \<le> 1"
  using assms unfolding seq_inv_def session_ok_def by auto

lemma mine_mem: "about a = Some sid \<Longrightarrow> a \<in># mine sid A \<longleftrightarrow> a \<in># A"
  by (simp add: mine_def)

lemma no_starting:
  assumes "\<And>i. APrompt sid i \<notin># mine sid A"
  shows "filter_mset starting (mine sid A) = {#}"
proof -
  have "\<not> starting a" if "a \<in># mine sid A" for a
    using that assms by (cases a) (auto simp: mine_def)
  then show ?thesis by simp
qed

text \<open>Whoever resolves a session that has no pending mark finds no startup under way.\<close>

lemma no_pending:
  assumes "seq_inv (p, add_mset a A)" "\<not> starting a" "about a = Some sid" "pl_all p \<noteq> []"
    "\<And>st. gm_get (pl_sessionSequences p) sid = Some st \<Longrightarrow> \<not> sq_promptPending st"
  shows "filter_mset starting (mine sid A) = {#}"
proof (rule no_starting)
  fix i
  show "APrompt sid i \<notin># mine sid A"
    using sessionD(3) [OF assms(1), of sid i] assms(2-5) by auto
qed

lemma starting_le:
  assumes "seq_inv (p, add_mset a A)" "about a = Some sid"
  shows "size (filter_mset starting (mine sid A)) \<le> 1"
proof -
  have "mine sid A \<subseteq># mine sid (add_mset a A)" using assms(2) by simp
  from size_mset_mono [OF multiset_filter_mono [OF this]] sessionD(4) [OF assms(1), of sid]
  show ?thesis by (rule order_trans)
qed

lemma ok_absent:
  assumes "seq_inv (p, add_mset a A)" "about a = Some sid" "\<not> starting a"
    "gm_get (pl_sessionSequences p) sid = None"
  shows "session_ok p sid (mine sid A)"
  using starting_le [OF assms(1,2)] sessionD(3) [OF assms(1), of sid] assms(2-4)
  by (auto simp: session_ok_def)

lemma step_seq_finish:
  assumes inv: "seq_inv (p, add_mset (ASequence sid) A)" and f: "finishPromptSequence sid p = (slot, p')"
  shows "seq_inv (p', releasing slot + A)"
proof -
  have other: "mine sid' (releasing slot + A) = mine sid' (add_mset (ASequence sid) A)" if "sid' \<noteq> sid" for sid'
    using that by simp
  note D = sessionD [OF inv, of sid] and le = starting_le [OF inv, of sid]
  from f show ?thesis
  proof (cases rule: finishPromptSequence_cases)
    case absent
    show ?thesis
      by (rule seq_one [OF inv absent(2) other], simp, simp, rule ok_untouched [OF absent(2)])
        (use ok_absent [OF inv] absent in simp)
  next
    case (kept st)
    show ?thesis
    proof (rule seq_one [OF inv kept(2) other], simp, simp, rule ok_kept [OF kept(2)])
      show "seq_ok sid (st\<lparr>sq_holds := sq_holds st - 1\<rparr>) (mine sid A)"
        using D(2) [OF kept(1)] kept(3) by (auto simp: seq_ok_def)
    qed (use D(1,3) kept(1) le in auto)
  next
    case (taken st)
    show ?thesis
      by (rule seq_one [OF inv taken(2) other], simp, simp, rule ok_taken [OF taken(2)])
        (use no_pending [OF inv] taken le in auto)
  qed
qed

lemma step_seq_stream:
  assumes inv: "seq_inv (p, add_mset (AStream sid) A)" and f: "finishPromptForSession sid p = (slot, p')"
  shows "seq_inv (p', releasing slot + A)"
proof -
  have other: "mine sid' (releasing slot + A) = mine sid' (add_mset (AStream sid) A)" if "sid' \<noteq> sid" for sid'
    using that by simp
  note D = sessionD [OF inv, of sid] and le = starting_le [OF inv, of sid]
  from f show ?thesis
  proof (cases rule: finishPromptForSession_cases)
    case (kept st)
    show ?thesis
    proof (rule seq_one [OF inv kept(2) other], simp, simp, rule ok_kept [OF kept(2)])
      show "seq_ok sid (st\<lparr>sq_promptActive := False\<rparr>) (mine sid A)"
        using D(2) [OF kept(1)] kept(3) by (auto simp: seq_ok_def)
    qed (use D(1,3) kept(1) le in auto)
  next
    case taken
    show ?thesis
      by (rule seq_one [OF inv taken(1) other], simp, simp, rule ok_taken [OF taken(1)])
        (use no_pending [OF inv] taken(2) le in auto)
  qed
qed

lemma step_seq_cancelRPC:
  assumes inv: "seq_inv (p, add_mset (ACancelRPC sid) A)" and f: "completePendingCancel sid p = (slot, p')"
  shows "seq_inv (p', releasing slot + A)"
proof -
  have other: "mine sid' (releasing slot + A) = mine sid' (add_mset (ACancelRPC sid) A)" if "sid' \<noteq> sid" for sid'
    using that by simp
  note D = sessionD [OF inv, of sid] and le = starting_le [OF inv, of sid]
  from f show ?thesis
  proof (cases rule: completePendingCancel_cases)
    case absent
    have "session_ok p sid (mine sid A)"
      using D le absent(1) by (auto simp: session_ok_def seq_ok_def)
    then show ?thesis
      by (intro seq_one [OF inv absent(2) other]) (simp_all add: ok_untouched [OF absent(2)])
  next
    case (kept st)
    show ?thesis
    proof (rule seq_one [OF inv kept(3) other], simp, simp, rule ok_kept [OF kept(3)])
      show "seq_ok sid (st\<lparr>sq_cancelComplete := True\<rparr>) (mine sid A)"
        using D(2) [OF kept(1)] kept(2) by (auto simp: seq_ok_def)
    qed (use D(1,3) kept(1) le in auto)
  next
    case (taken st)
    show ?thesis
      by (rule seq_one [OF inv taken(3) other], simp, simp, rule ok_taken [OF taken(3)])
        (use no_pending [OF inv] taken(1,2) le in auto)
  qed
qed

lemma step_seq_resolve:
  assumes inv: "seq_inv (p, add_mset (APrompt sid i) A)" and f: "resolvePromptStart sid succeeded p = (slot, p')"
  defines "B \<equiv> if succeeded then add_mset (AStream sid) A else A"
  shows "seq_inv (p', releasing slot + B)"
proof -
  have other: "mine sid' (releasing slot + B) = mine sid' (add_mset (APrompt sid i) A)" if "sid' \<noteq> sid" for sid'
    using that by (simp add: B_def)
  have B: "mine sid B = (if succeeded then add_mset (AStream sid) (mine sid A) else mine sid A)"
    by (simp add: B_def)
  note D = sessionD [OF inv, of sid]
  have "size (filter_mset starting (mine sid A)) = 0" using D(4) by simp
  then have "filter_mset starting (mine sid A) = {#}" by simp
  then have none: "filter_mset starting (mine sid B) = {#}" unfolding B by simp
  have le: "size (filter_mset starting (mine sid B)) \<le> 1" unfolding none by simp
  have noprompt: "APrompt sid j \<notin># mine sid B" for j
  proof
    assume "APrompt sid j \<in># mine sid B"
    then have "APrompt sid j \<in># filter_mset starting (mine sid B)" by simp
    with none show False by (metis empty_iff set_mset_empty)
  qed
  from f show ?thesis
  proof (cases rule: resolvePromptStart_cases)
    case absent
    have "session_ok p sid (mine sid B)" using absent(1) noprompt le by (simp add: session_ok_def)
    then show ?thesis
      by (intro seq_one [OF inv absent(2) other]) (simp_all add: ok_untouched [OF absent(2)])
  next
    case (retained st)
    have "seq_ok sid (st\<lparr>sq_promptPending := False\<rparr>) (mine sid B)"
      using D(2) [OF retained(1)] retained(3) unfolding B by (auto simp: seq_ok_def)
    then have "session_ok p' sid (mine sid B)"
      using noprompt le D(1) [OF retained(1)] by (intro ok_kept [OF retained(2)]) simp_all
    then show ?thesis by (intro seq_one [OF inv retained(2) other]) simp_all
  next
    case (active st)
    have "seq_ok sid (st\<lparr>sq_promptPending := False, sq_promptActive := True\<rparr>) (mine sid B)"
      using D(2) [OF active(1)] active(2) unfolding B by (auto simp: seq_ok_def)
    then have "session_ok p' sid (mine sid B)"
      using noprompt le D(1) [OF active(1)] by (intro ok_kept [OF active(3)]) simp_all
    then show ?thesis by (intro seq_one [OF inv active(3) other]) simp_all
  next
    case (taken st)
    have "session_ok p' sid (mine sid B)" by (rule ok_taken [OF taken(2) none le])
    then show ?thesis by (intro seq_one [OF inv taken(2) other]) simp_all
  qed
qed

lemma step_seq_cancelTaken:
  assumes inv: "seq_inv (p, A)" and f: "Cancel_start sid p = (CancelTaken slot, p')"
  shows "seq_inv (p', releasing slot + A)"
proof -
  from f obtain slot' where t: "slot' = slot" "session_effect sid Taken slot' p p'"
    "\<And>st. gm_get (pl_sessionSequences p) sid = Some st \<Longrightarrow> \<not> sq_promptPending st"
    by (rule Cancel_start_cases) auto
  have "filter_mset starting (mine sid A) = {#}" if "pl_all p \<noteq> []"
    using that sessionD(3) [OF inv, of sid] t(3) by (intro no_starting) blast
  with t sessionD(4) [OF inv, of sid] show ?thesis
    by (intro seq_one [OF inv t(2)]) (simp_all add: ok_taken [OF t(2)])
qed

lemma step_seq_cancelPending:
  assumes inv: "seq_inv (p, A)" and f: "Cancel_start sid p = (CancelPending call, p')"
  shows "seq_inv (p', if call then add_mset (ACancelRPC sid) A else A)"
proof -
  from f obtain st where st: "gm_get (pl_sessionSequences p) sid = Some st" "sq_promptPending st"
    "call = (\<not> sq_cancelRequested st)"
    "session_effect sid (Kept (st\<lparr>sq_holds := 0, sq_cancelRequested := True\<rparr>)) None p p'"
    by (rule Cancel_start_cases) auto
  let ?B = "if call then add_mset (ACancelRPC sid) A else A"
  note D = sessionD [OF inv, of sid]
  have B: "mine sid ?B = (if call then add_mset (ACancelRPC sid) (mine sid A) else mine sid A)" by simp
  have "seq_ok sid (st\<lparr>sq_holds := 0, sq_cancelRequested := True\<rparr>) (mine sid ?B)"
    unfolding B using D(2) [OF st(1)] st(2,3) by (auto simp: seq_ok_def)
  moreover have "size (filter_mset starting (mine sid ?B)) \<le> 1" using D(4) unfolding B by simp
  moreover have "gm_get (pl_sessionSlots p) sid = Some i" if "APrompt sid i \<in># mine sid ?B" "pl_all p \<noteq> []" for i
    using D(3) [of i] that unfolding B by (simp split: if_splits)
  ultimately have "session_ok p' sid (mine sid ?B)"
    using D(1) [OF st(1)] st(2) by (intro ok_kept [OF st(4)]) simp_all
  then show ?thesis by (intro seq_one [OF inv st(4)]) simp_all
qed

lemma seq_or_new_ok:
  assumes "seq_inv (p, A)" "gm_get (pl_sessionSequences p) sid = None \<or> seq_or_new sid p = st"
  shows "sq_holds (seq_or_new sid p) \<le> count (mine sid A) (ASequence sid) \<and>
    (sq_promptPending (seq_or_new sid p) \<longrightarrow> (\<exists>i. APrompt sid i \<in># mine sid A)) \<and>
    (sq_promptActive (seq_or_new sid p) \<longrightarrow> AStream sid \<in># mine sid A) \<and>
    (sq_cancelRequested (seq_or_new sid p) \<and> \<not> sq_cancelComplete (seq_or_new sid p) \<longrightarrow> ACancelRPC sid \<in># mine sid A)"
  using sessionD(2) [OF assms(1), of sid]
  by (cases "gm_get (pl_sessionSequences p) sid") (auto simp: seq_or_new_def zero_sequence_def seq_ok_def)

lemma step_seq_begin:
  assumes inv: "seq_inv (p, A)" and f: "BeginPromptSequence sid p = (None, p')"
  shows "seq_inv (p', add_mset (ASequence sid) A)"
proof -
  let ?st = "(seq_or_new sid p)\<lparr>sq_holds := Suc (sq_holds (seq_or_new sid p))\<rparr>"
  have p': "p' = put_seq sid ?st p" and some: "gm_get (pl_sessionSlots p) sid \<noteq> None"
    using f by (auto simp: BeginPromptSequence_def Let_def split: if_splits)
  have e: "session_effect sid (Kept ?st) None p p'" unfolding p' by (rule Kept_effect)
  have "seq_ok sid ?st (mine sid (add_mset (ASequence sid) A))"
    using seq_or_new_ok [OF inv, of sid] by (auto simp: seq_ok_def)
  moreover have "gm_get (pl_sessionSlots p) sid = Some i \<and> sq_promptPending ?st"
    if "APrompt sid i \<in># mine sid A" "pl_all p \<noteq> []" for i
    using sessionD(3) [OF inv that] by (auto simp: seq_or_new_def)
  ultimately have "session_ok p' sid (mine sid (add_mset (ASequence sid) A))"
    using some sessionD(4) [OF inv, of sid] by (intro ok_kept [OF e]) auto
  then show ?thesis by (intro seq_one [OF inv e]) simp_all
qed

lemma step_seq_prompt:
  assumes inv: "seq_inv (p, A)" and f: "Prompt_start sid p = (Inr i, p')" "\<forall>j. APrompt sid j \<notin># A"
  shows "seq_inv (p', add_mset (APrompt sid i) A)"
proof -
  let ?st = "(seq_or_new sid p)\<lparr>sq_promptPending := True\<rparr>"
  have p': "p' = put_seq sid ?st p" and some: "gm_get (pl_sessionSlots p) sid = Some i"
    using f(1) by (auto simp: Prompt_start_def split: option.splits)
  have e: "session_effect sid (Kept ?st) None p p'" unfolding p' by (rule Kept_effect)
  have no: "APrompt sid j \<notin># mine sid A" for j using f(2) by (simp add: mine_mem)
  have "seq_ok sid ?st (mine sid (add_mset (APrompt sid i) A))"
    using seq_or_new_ok [OF inv, of sid] by (auto simp: seq_ok_def)
  then have "session_ok p' sid (mine sid (add_mset (APrompt sid i) A))"
    using some no no_starting [of sid A] by (intro ok_kept [OF e]) auto
  then show ?thesis by (intro seq_one [OF inv e]) simp_all
qed

lemma step_seq_register:
  assumes inv: "seq_inv (p, add_mset (ANewCall i) A)" and fresh: "fresh_sid sid p A"
    and f: "newSession_register i sid p = (r, p')"
  shows "seq_inv (p', A)"
proof -
  have inv': "seq_inv (p, A)" using inv by (simp add: seq_inv_def)
  have "mine sid A = {#}" using fresh by (auto simp: fresh_sid_def mine_def)
  moreover have "gm_get (pl_sessionSequences p) sid = None"
    using sessionD(1) [OF inv', of sid] fresh by (cases "gm_get (pl_sessionSequences p) sid") (auto simp: fresh_sid_def)
  ultimately have "session_ok p' sid (mine sid A)"
    using f by (auto simp: session_ok_def newSession_register_def split: if_splits)
  moreover have "session_ok p' sid' (mine sid' A)" if "sid' \<noteq> sid" for sid'
  proof -
    have "session_ok p' sid' (mine sid' A) = session_ok p sid' (mine sid' A)"
      by (rule session_ok_cong) (use f that in \<open>auto simp: newSession_register_def split: if_splits\<close>)
    with inv' show ?thesis by (simp add: seq_inv_def)
  qed
  ultimately have "session_ok p' sid' (mine sid' A)" for sid' by (cases "sid' = sid") simp_all
  then show ?thesis by (simp add: seq_inv_def)
qed

lemma step_seq_closeAll:
  assumes "seq_inv (p, A)"
  shows "seq_inv (snd (snd (closeAll p)), A)"
  using sessionD(4) [OF assms] by (simp add: seq_inv_def session_ok_def closeAll_def Let_def)

lemma section_sessions [simp]:
  "pl_sessionSequences (respawn_mark i p) = pl_sessionSequences p" "pl_all (respawn_mark i p) = pl_all p"
  "pl_sessionSequences (respawn_close_old i p) = pl_sessionSequences p" "pl_all (respawn_close_old i p) = pl_all p"
  "pl_sessionSequences (respawn_fail i c e now p) = pl_sessionSequences p" "pl_all (respawn_fail i c e now p) = pl_all p"
  "pl_sessionSequences (snd (tryReturnSlotLocked i p)) = pl_sessionSequences p"
  "pl_sessionSlots (snd (tryReturnSlotLocked i p)) = pl_sessionSlots p" "pl_all (snd (tryReturnSlotLocked i p)) = pl_all p"
  by (simp_all add: respawn_mark_def respawn_close_old_def respawn_fail_def respawn_clear_def recordSpawnErr_def
      tryReturnSlotLocked_def Let_def)

lemma step_seq:
  assumes "pool_step s t" "seq_inv s"
  shows "seq_inv t"
  using assms
proof cases
  case (step_finish sid p slot p' A)
  with assms show ?thesis using step_seq_finish by simp
next
  case (step_resolve sid succeeded p slot p' i A)
  with assms show ?thesis using step_seq_resolve by simp
next
  case (step_stream sid p slot p' A)
  with assms show ?thesis using step_seq_stream by simp
next
  case (step_cancelPending sid p call p' A)
  with assms show ?thesis using step_seq_cancelPending by simp
next
  case (step_cancelTaken sid p slot p' A)
  with assms show ?thesis using step_seq_cancelTaken by simp
next
  case (step_cancelRPC sid p slot p' A)
  with assms show ?thesis using step_seq_cancelRPC by simp
next
  case (step_begin sid p p' A)
  with assms show ?thesis using step_seq_begin by simp
next
  case (step_prompt sid p i p' A)
  with assms show ?thesis using step_seq_prompt by simp
next
  case (step_register sid p A i r2 p')
  with assms show ?thesis using step_seq_register by simp
next
  case (step_closeAll p A)
  with assms show ?thesis using step_seq_closeAll by simp
next
  case (step_recvNew p i p' A)
  then show ?thesis
    using seq_same [of p A p' "add_mset (ANewGot i) A"] assms by (auto simp: slots_recv_def split: list.splits)
next
  case (step_recvIdle p i p' A)
  then show ?thesis
    using seq_same [of p A p' "add_mset (AIdleGot i) A"] assms by (auto simp: slots_recv_def split: list.splits)
next
  case (step_recvProbe p i p' A)
  then show ?thesis
    using seq_same [of p A p' "add_mset (AProbeGot i) A"] assms by (auto simp: slots_recv_def split: list.splits)
next
  case (step_admit i p closed p' A)
  then show ?thesis
    using seq_same [of p "add_mset (ANewGot i) A" p' "if closed then A else add_mset (ANewCheck i) A"] assms
    by (auto simp: newSession_admit_def)
next
  case (step_swap i c k now p r p' A)
  then show ?thesis
    using seq_same [of p "add_mset (AInit i c k) A" p' "add_mset (after_respawn c i r) A"] assms
    by (auto simp: respawn_swap_def respawn_clear_def Let_def split: if_splits)
next
  case (step_return i t p r3 p' A)
  then show ?thesis
    using seq_same [of p "add_mset (AReturn i t) A" p' "if r3 = None then A else add_mset (ARecycle i) A"] assms
    by (auto simp: returnOrRecycle_def split: if_splits option.splits)
next
  case (step_probe i p answer r4 p' A)
  then show ?thesis
    using seq_same [of p "add_mset (AProbe i) A" p' "add_mset (ASnap i) A"] assms
    by (auto simp: probeCatalogOnce_def split: sum.splits)
qed (use assms(2) in \<open>simp_all add: seq_inv_def session_ok_def newSession_requeueDead_def
    newSession_requeue_def release_stamp_def recycle_finish_def recycle_done_def markSlotCheckedOut_def
    exitWatcher_done_def Close_signal_def Close_admission_def Let_def\<close>)

section \<open>Worker processes\<close>

definition open_inv :: "psys \<Rightarrow> bool" where
  "open_inv s \<longleftrightarrow> (case s of (p, A) \<Rightarrow>
     (\<forall>k \<in> pl_open p. (\<exists>i \<in> set (pl_all p). sl_Client (pl_heap p ! i) = Some k) \<or> (\<exists>i c. AInit i c k \<in># A)) \<and>
     (\<forall>i c k k'. AInit i c k \<in># A \<longrightarrow> sl_Client (pl_heap p ! i) = Some k' \<longrightarrow> k' \<notin> pl_open p))"

lemma openI:
  assumes "\<And>k. k \<in> pl_open p \<Longrightarrow>
      (\<exists>i \<in> set (pl_all p). sl_Client (pl_heap p ! i) = Some k) \<or> (\<exists>i c. AInit i c k \<in># A)"
    "\<And>i c k k'. AInit i c k \<in># A \<Longrightarrow> sl_Client (pl_heap p ! i) = Some k' \<Longrightarrow> k' \<notin> pl_open p"
  shows "open_inv (p, A)"
  unfolding open_inv_def using assms by blast

lemma openD:
  assumes "open_inv (p, A)"
  shows "\<And>k. k \<in> pl_open p \<Longrightarrow>
      (\<exists>i \<in> set (pl_all p). sl_Client (pl_heap p ! i) = Some k) \<or> (\<exists>i c. AInit i c k \<in># A)"
    "\<And>i c k k'. AInit i c k \<in># A \<Longrightarrow> sl_Client (pl_heap p ! i) = Some k' \<Longrightarrow> k' \<notin> pl_open p"
  using assms unfolding open_inv_def by blast+

lemma open_same:
  assumes "open_inv (p, A)" "pl_open p' \<subseteq> pl_open p" "pl_all p' = pl_all p"
    "\<And>j. sl_Client (pl_heap p' ! j) = sl_Client (pl_heap p ! j)"
    "\<And>i c k. AInit i c k \<in># A' \<longleftrightarrow> AInit i c k \<in># A"
  shows "open_inv (p', A')"
proof (rule openI)
  fix k assume "k \<in> pl_open p'"
  with assms(2) have "k \<in> pl_open p" by blast
  from openD(1) [OF assms(1) this]
  show "(\<exists>i \<in> set (pl_all p'). sl_Client (pl_heap p' ! i) = Some k) \<or> (\<exists>i c. AInit i c k \<in># A')"
    by (simp add: assms(3-5))
next
  fix i c k k' assume "AInit i c k \<in># A'" "sl_Client (pl_heap p' ! i) = Some k'"
  with openD(2) [OF assms(1), of i c k k'] assms(2,4,5) show "k' \<notin> pl_open p'" by auto
qed

text \<open>Sections that leave the clients of the slots alone.\<close>

lemma upd_slot_client:
  "(\<And>s. sl_Client (f s) = sl_Client s) \<Longrightarrow> sl_Client (pl_heap (upd_slot i f p) ! j) = sl_Client (pl_heap p ! j)"
  by (cases "i < length (pl_heap p)") (auto simp: upd_slot_def nth_list_update list_update_beyond)

lemma section_client [simp]:
  "sl_Client (pl_heap (respawn_mark i p) ! j) = sl_Client (pl_heap p ! j)"
  "sl_Client (pl_heap (respawn_close_old i p) ! j) = sl_Client (pl_heap p ! j)"
  "sl_Client (pl_heap (respawn_clear i c p) ! j) = sl_Client (pl_heap p ! j)"
  "sl_Client (pl_heap (respawn_fail i c e now p) ! j) = sl_Client (pl_heap p ! j)"
  "sl_Client (pl_heap (snd (tryReturnSlotLocked i p)) ! j) = sl_Client (pl_heap p ! j)"
  "sl_Client (pl_heap (newSession_requeueDead i p) ! j) = sl_Client (pl_heap p ! j)"
  "sl_Client (pl_heap (newSession_requeue i p) ! j) = sl_Client (pl_heap p ! j)"
  "sl_Client (pl_heap (markSlotCheckedOut i p) ! j) = sl_Client (pl_heap p ! j)"
  "sl_Client (pl_heap (release_stamp i now p) ! j) = sl_Client (pl_heap p ! j)"
  "sl_Client (pl_heap (recycle_finish i err p) ! j) = sl_Client (pl_heap p ! j)"
  "sl_Client (pl_heap (exitWatcher_done i k p) ! j) = sl_Client (pl_heap p ! j)"
proof -
  note u = upd_slot_client
  show mark: "sl_Client (pl_heap (respawn_mark i p) ! j) = sl_Client (pl_heap p ! j)"
    unfolding respawn_mark_def by (rule u) simp
  show "sl_Client (pl_heap (respawn_close_old i p) ! j) = sl_Client (pl_heap p ! j)"
    by (simp add: respawn_close_old_def)
  show clear: "sl_Client (pl_heap (respawn_clear i c p) ! j) = sl_Client (pl_heap p ! j)" for c p
    unfolding respawn_clear_def by (rule u) simp
  show "sl_Client (pl_heap (respawn_fail i c e now p) ! j) = sl_Client (pl_heap p ! j)"
    using clear by (simp add: respawn_fail_def recordSpawnErr_def Let_def)
  show ret: "sl_Client (pl_heap (snd (tryReturnSlotLocked i p)) ! j) = sl_Client (pl_heap p ! j)" for p
    using u [of "\<lambda>s. s\<lparr>sl_checkedOut := False\<rparr>" i "p\<lparr>pl_slots := pl_slots p @ [i]\<rparr>" j]
    by (simp add: tryReturnSlotLocked_def)
  have dead: "sl_Client (pl_heap (upd_slot i (\<lambda>s. s\<lparr>sl_dead := True\<rparr>) p) ! j) = sl_Client (pl_heap p ! j)"
    by (rule u) simp
  show "sl_Client (pl_heap (newSession_requeueDead i p) ! j) = sl_Client (pl_heap p ! j)"
    "sl_Client (pl_heap (newSession_requeue i p) ! j) = sl_Client (pl_heap p ! j)"
    "sl_Client (pl_heap (recycle_finish i err p) ! j) = sl_Client (pl_heap p ! j)"
    "sl_Client (pl_heap (exitWatcher_done i k p) ! j) = sl_Client (pl_heap p ! j)"
    using dead ret by (simp_all add: newSession_requeueDead_def newSession_requeue_def recycle_finish_def
        exitWatcher_done_def Let_def)
  show "sl_Client (pl_heap (markSlotCheckedOut i p) ! j) = sl_Client (pl_heap p ! j)"
    unfolding markSlotCheckedOut_def by (rule u) simp
  show "sl_Client (pl_heap (release_stamp i now p) ! j) = sl_Client (pl_heap p ! j)"
    unfolding release_stamp_def by (rule u) simp
qed

lemma respawn_clear_frame [simp]:
  "pl_open (respawn_clear i c p) = pl_open p" "pl_all (respawn_clear i c p) = pl_all p"
  by (simp_all add: respawn_clear_def)

lemma AInit_after [simp]: "AInit i c k \<noteq> after_respawn c' i' e" "after_respawn c' i' e \<noteq> AInit i c k"
  by (auto simp: after_respawn_def split: respawnCause.splits if_splits)

lemma AInit_releasing [simp]: "AInit i c k \<notin># releasing slot"
  by (simp add: releasing_def split: option.split)

lemma effect_open:
  assumes "open_inv (p, A)" "session_effect sid e slot p p'" "\<And>i c k. AInit i c k \<in># A' \<longleftrightarrow> AInit i c k \<in># A"
  shows "open_inv (p', A')"
  by (rule open_same [OF assms(1)]) (use assms(2,3) in \<open>auto simp: session_effect_def same_rest_def\<close>)

lemma spawn_open:
  assumes inv: "acct_inv (p, add_mset (ARespawn i c) A)" "open_inv (p, add_mset (ARespawn i c) A)"
    and fresh: "fresh_client k p (add_mset (ARespawn i c) A)" and p1: "p1 = respawn_close_old i p"
  shows "open_inv (p1\<lparr>pl_open := insert k (pl_open p1)\<rparr>, add_mset (AInit i c k) A)"
proof (rule openI)
  have o: "pl_open p1 = pl_open p - set_option (sl_Client (pl_heap p ! i))" "pl_heap p1 = pl_heap p" "pl_all p1 = pl_all p"
    by (simp_all add: p1 respawn_close_old_def)
  {
    fix k' assume "k' \<in> pl_open (p1\<lparr>pl_open := insert k (pl_open p1)\<rparr>)"
    then have "k' = k \<or> k' \<in> pl_open p" using o by auto
    then show "(\<exists>j \<in> set (pl_all (p1\<lparr>pl_open := insert k (pl_open p1)\<rparr>)).
        sl_Client (pl_heap (p1\<lparr>pl_open := insert k (pl_open p1)\<rparr>) ! j) = Some k') \<or>
        (\<exists>j c'. AInit j c' k' \<in># add_mset (AInit i c k) A)"
      using openD(1) [OF inv(2), of k'] by (auto simp: o)
  next
    fix j c' k1 k' assume a: "AInit j c' k1 \<in># add_mset (AInit i c k) A"
      "sl_Client (pl_heap (p1\<lparr>pl_open := insert k (pl_open p1)\<rparr>) ! j) = Some k'"
    have j: "j < length (pl_heap p)"
    proof (cases "j = i")
      case True
      then show ?thesis using acct_owner(2) [OF inv(1), of i] by simp
    next
      case False
      with a(1) have "AInit j c' k1 \<in># A" by auto
      then have "j \<in># places (p, add_mset (ARespawn i c) A)" by (auto simp: places_def dest: held_mem)
      then have "j \<in># mset [0..<cap p]" using acctD(2) [OF inv(1)] by (metis mset_subset_eqD)
      then show ?thesis using acctD(1) [OF inv(1)] by simp
    qed
    with a(2) have "sl_Client (pl_heap p ! j) = Some k'" "k' \<noteq> k"
      using fresh o by (auto simp: fresh_client_def)
    moreover have "k' \<notin> pl_open p \<or> j = i"
      using openD(2) [OF inv(2), of j c' k1 k'] a(1) calculation by auto
    ultimately show "k' \<notin> pl_open (p1\<lparr>pl_open := insert k (pl_open p1)\<rparr>)" using o by auto
  }
qed

text \<open>A respawn that gives up closes the client it had spawned.\<close>

lemma open_forget:
  assumes inv: "open_inv (p, add_mset (AInit i c k) A)" and "pl_open p' = pl_open p - {k}" "pl_all p' = pl_all p"
    "\<And>j. sl_Client (pl_heap p' ! j) = sl_Client (pl_heap p ! j)" "\<And>j c' k'. b \<noteq> AInit j c' k'"
  shows "open_inv (p', add_mset b A)"
proof (rule openI)
  fix k' assume "k' \<in> pl_open p'"
  with openD(1) [OF inv, of k'] assms(2-4)
  show "(\<exists>j \<in> set (pl_all p'). sl_Client (pl_heap p' ! j) = Some k') \<or> (\<exists>j c'. AInit j c' k' \<in># add_mset b A)"
    by auto
next
  fix j c' k1 k' assume a: "AInit j c' k1 \<in># add_mset b A" "sl_Client (pl_heap p' ! j) = Some k'"
  with assms(5) have "AInit j c' k1 \<in># A" by auto
  with openD(2) [OF inv, of j c' k1 k'] a(2) assms(2,4) show "k' \<notin> pl_open p'" by auto
qed

lemma swap_open:
  assumes inv: "acct_inv (p, add_mset (AInit i c k) A)" "open_inv (p, add_mset (AInit i c k) A)"
    and swap: "respawn_swap i c k now p = (r, p')"
  shows "open_inv (p', add_mset (after_respawn c i r) A)"
proof (cases "pl_closed p")
  case True
  then have p': "pl_open p' = pl_open p - {k}" "pl_all p' = pl_all p"
    "\<And>j. sl_Client (pl_heap p' ! j) = sl_Client (pl_heap p ! j)"
    using swap by (auto simp: respawn_swap_def)
  show ?thesis by (rule open_forget [OF inv(2) p']) simp
next
  case False
  note ex = acct_owner [OF inv(1), of i]
  have p': "pl_open p' = pl_open p" "pl_all p' = pl_all p"
    "\<And>j. sl_Client (pl_heap p' ! j) = (if j = i then Some k else sl_Client (pl_heap p ! j))"
    using swap False ex(2) by (auto simp: respawn_swap_def Let_def upd_slot_def nth_list_update split: if_splits)
  have i: "i \<in> set (pl_all p')" using False acctD(1,7) [OF inv(1)] ex(2) p'(2) by auto
  show ?thesis
  proof (rule openI)
    fix k' assume k': "k' \<in> pl_open p'"
    have "sl_Client (pl_heap p ! i) \<noteq> Some k'" using openD(2) [OF inv(2), of i c k k'] k' p'(1) by auto
    note old = this
    consider j where "j \<in> set (pl_all p)" "sl_Client (pl_heap p ! j) = Some k'" | "k' = k" | j c' where "AInit j c' k' \<in># A"
      using openD(1) [OF inv(2), of k'] k' p'(1) by auto
    then show "(\<exists>j \<in> set (pl_all p'). sl_Client (pl_heap p' ! j) = Some k') \<or>
        (\<exists>j c'. AInit j c' k' \<in># add_mset (after_respawn c i r) A)"
    proof cases
      case 1
      with old have "j \<noteq> i" by auto
      with 1 have "sl_Client (pl_heap p' ! j) = Some k'" by (simp add: p'(3))
      with 1 show ?thesis by (auto simp: p'(2))
    next
      case 2
      with i p'(3) [of i] show ?thesis by auto
    next
      case 3
      then show ?thesis by auto
    qed
  next
    fix j c' k1 k' assume a: "AInit j c' k1 \<in># add_mset (after_respawn c i r) A" "sl_Client (pl_heap p' ! j) = Some k'"
    then have "AInit j c' k1 \<in># A" by auto
    moreover from this have "j \<noteq> i" using ex(1) by (auto simp: exclusive_def)
    ultimately show "k' \<notin> pl_open p'" using openD(2) [OF inv(2), of j c' k1 k'] a(2) p' by simp
  qed
qed

lemma initFail_open:
  assumes "open_inv (p, add_mset (AInit i c k) A)"
  shows "open_inv (respawn_fail i c e now (client_Close (Some k) p), add_mset (after_respawn c i (Some e)) A)"
  by (rule open_forget [OF assms]) (simp_all add: respawn_fail_def recordSpawnErr_def Let_def)

lemma closeAll_open:
  assumes "open_inv (p, A)"
  shows "open_inv (snd (snd (closeAll p)), A)"
proof (rule openI)
  fix k assume "k \<in> pl_open (snd (snd (closeAll p)))"
  then have "k \<in> pl_open p" "\<And>i. i \<in> set (pl_all p) \<Longrightarrow> sl_Client (pl_heap p ! i) \<noteq> Some k"
    by (auto simp: closeAll_def Let_def set_map_filter_iff)
  with openD(1) [OF assms, of k]
  show "(\<exists>i \<in> set (pl_all (snd (snd (closeAll p)))). sl_Client (pl_heap (snd (snd (closeAll p))) ! i) = Some k) \<or>
      (\<exists>i c. AInit i c k \<in># A)" by auto
next
  fix i c k k' assume "AInit i c k \<in># A" "sl_Client (pl_heap (snd (snd (closeAll p))) ! i) = Some k'"
  with openD(2) [OF assms, of i c k k'] show "k' \<notin> pl_open (snd (snd (closeAll p)))"
    by (simp add: closeAll_def Let_def)
qed

lemma section_open [simp]:
  "pl_open (respawn_mark i p) = pl_open p" "pl_open (snd (tryReturnSlotLocked i p)) = pl_open p"
  "pl_open (newSession_requeueDead i p) = pl_open p" "pl_all (newSession_requeueDead i p) = pl_all p"
  "pl_open (newSession_requeue i p) = pl_open p" "pl_all (newSession_requeue i p) = pl_all p"
  "pl_open (respawn_fail i c e now p) = pl_open p"
  "pl_open (markSlotCheckedOut i p) = pl_open p" "pl_all (markSlotCheckedOut i p) = pl_all p"
  "pl_open (release_stamp i now p) = pl_open p" "pl_all (release_stamp i now p) = pl_all p"
  "pl_open (exitWatcher_done i k p) = pl_open p" "pl_all (exitWatcher_done i k p) = pl_all p"
  "pl_open (recycle_done p) = pl_open p" "pl_all (recycle_done p) = pl_all p" "pl_heap (recycle_done p) = pl_heap p"
  "pl_open (Close_signal p) = pl_open p" "pl_all (Close_signal p) = pl_all p" "pl_heap (Close_signal p) = pl_heap p"
  "pl_open (Close_admission p) = pl_open p" "pl_all (Close_admission p) = pl_all p"
  "pl_heap (Close_admission p) = pl_heap p"
  by (simp_all add: respawn_mark_def tryReturnSlotLocked_def newSession_requeueDead_def newSession_requeue_def
      respawn_fail_def recordSpawnErr_def markSlotCheckedOut_def release_stamp_def exitWatcher_done_def recycle_done_def
      Close_signal_def Close_admission_def Let_def)

lemma step_open:
  assumes "pool_step s t" "acct_inv s" "open_inv s"
  shows "open_inv t"
  using assms
proof cases
  case (step_spawn k p i c A p1)
  with assms show ?thesis using spawn_open by simp
next
  case (step_swap i c k now p r p' A)
  with assms show ?thesis using swap_open by simp
next
  case (step_initFail p i c k A e now)
  with assms show ?thesis using initFail_open by simp
next
  case (step_closeAll p A)
  with assms show ?thesis using closeAll_open by simp
next
  case (step_recvNew p i p' A)
  then show ?thesis
    using assms(3) open_same [of p A p' "add_mset (ANewGot i) A"] by (auto simp: slots_recv_def split: list.splits)
next
  case (step_recvIdle p i p' A)
  then show ?thesis
    using assms(3) open_same [of p A p' "add_mset (AIdleGot i) A"] by (auto simp: slots_recv_def split: list.splits)
next
  case (step_recvProbe p i p' A)
  then show ?thesis
    using assms(3) open_same [of p A p' "add_mset (AProbeGot i) A"] by (auto simp: slots_recv_def split: list.splits)
next
  case (step_admit i p closed p' A)
  then show ?thesis
    using assms(3) open_same [of p "add_mset (ANewGot i) A" p' "if closed then A else add_mset (ANewCheck i) A"]
      upd_slot_client [of "\<lambda>s. s\<lparr>sl_checkedOut := True\<rparr>" i p]
    by (auto simp: newSession_admit_def)
next
  case (step_register sid p A i r2 p')
  then show ?thesis
    using assms(3) open_same [of p "add_mset (ANewCall i) A" p' A]
      upd_slot_client [of "\<lambda>s. s\<lparr>sl_turns := sl_turns s + 1, sl_userRequests := sl_userRequests s + 1\<rparr>" i
        "p\<lparr>pl_sessionSlots := gm_put sid i (pl_sessionSlots p)\<rparr>"]
    by (auto simp: newSession_register_def split: if_splits)
next
  case (step_begin sid p p' A)
  then show ?thesis
    using assms(3) open_same [of p A p' "add_mset (ASequence sid) A"]
    by (auto simp: BeginPromptSequence_def Let_def split: if_splits)
next
  case (step_prompt sid p i p' A)
  then show ?thesis
    using assms(3) open_same [of p A p' "add_mset (APrompt sid i) A"]
    by (auto simp: Prompt_start_def split: option.splits)
next
  case (step_finish sid p slot p' A)
  from step_finish(3) obtain e where "session_effect sid e slot p p'"
    by (rule finishPromptSequence_cases) blast+
  with step_finish assms(3) show ?thesis
    using effect_open [of p "add_mset (ASequence sid) A" sid e slot p' "releasing slot + A"] by auto
next
  case (step_resolve sid succeeded p slot p' i A)
  from step_resolve(3) obtain e where "session_effect sid e slot p p'"
    by (rule resolvePromptStart_cases) blast+
  with step_resolve assms(3) show ?thesis
    using effect_open [of p "add_mset (APrompt sid i) A" sid e slot p'
        "releasing slot + (if succeeded then add_mset (AStream sid) A else A)"] by auto
next
  case (step_stream sid p slot p' A)
  from step_stream(3) obtain e where "session_effect sid e slot p p'"
    by (rule finishPromptForSession_cases) blast+
  with step_stream assms(3) show ?thesis
    using effect_open [of p "add_mset (AStream sid) A" sid e slot p' "releasing slot + A"] by auto
next
  case (step_cancelPending sid p call p' A)
  from step_cancelPending(3) obtain e where "session_effect sid e None p p'"
    by (rule Cancel_start_cases) auto
  with step_cancelPending assms(3) show ?thesis
    using effect_open [of p A sid e None p' "if call then add_mset (ACancelRPC sid) A else A"] by auto
next
  case (step_cancelTaken sid p slot p' A)
  from step_cancelTaken(3) obtain e where "session_effect sid e slot p p'"
    by (rule Cancel_start_cases) auto
  with step_cancelTaken assms(3) show ?thesis
    using effect_open [of p A sid e slot p' "releasing slot + A"] by auto
next
  case (step_cancelRPC sid p slot p' A)
  from step_cancelRPC(3) obtain e where "session_effect sid e slot p p'"
    by (rule completePendingCancel_cases) blast+
  with step_cancelRPC assms(3) show ?thesis
    using effect_open [of p "add_mset (ACancelRPC sid) A" sid e slot p' "releasing slot + A"] by auto
next
  case (step_return i t p r3 p' A)
  then show ?thesis
    using assms(3) open_same [of p "add_mset (AReturn i t) A" p' "if r3 = None then A else add_mset (ARecycle i) A"]
    by (auto simp: returnOrRecycle_def split: if_splits option.splits)
next
  case (step_probe i p answer r4 p' A)
  then show ?thesis
    using assms(3) open_same [of p "add_mset (AProbe i) A" p' "add_mset (ASnap i) A"]
      upd_slot_client [of "\<lambda>s. s\<lparr>sl_turns := sl_turns s + 1\<rparr>" i p]
    by (auto simp: probeCatalogOnce_def split: sum.splits)
next
  case (step_recycleEnd p i err A)
  have "pl_open (recycle_finish i err p) \<subseteq> pl_open p" "pl_all (recycle_finish i err p) = pl_all p"
    by (auto simp: recycle_finish_def)
  then show ?thesis
    using assms(3) step_recycleEnd open_same [of p "add_mset (ARecycleEnd i err) A" "recycle_finish i err p" "add_mset ARecycleDone A"]
    by auto
qed (use assms(3) in \<open>auto intro: open_same simp: respawn_close_old_def\<close>)

end
