(* ===== verification/PoolBoot.thy ===== *)
theory PoolBoot
  imports PoolSeqInv
begin

text \<open>
  The boot of the pool establishes the invariant, or leaves no worker process behind; and the
  invariant as a whole, its interpretation as an \<open>invariant_system\<close>, and the monotone relation
  that says what a closed pool never does again.
\<close>

section \<open>Warmup\<close>

definition fresh_slot :: "Slot \<Rightarrow> bool" where
  "fresh_slot s \<longleftrightarrow> \<not> sl_checkedOut s \<and> \<not> sl_respawning s \<and> \<not> sl_dead s"

text \<open>The pool after the first \<open>n\<close> turns of the loop.\<close>

definition boot_inv :: "nat \<Rightarrow> Pool \<Rightarrow> bool" where
  "boot_inv n p \<longleftrightarrow> pl_slots p = [0..<n] \<and> pl_all p = [0..<n] \<and> length (pl_heap p) = n \<and>
     (\<forall>s \<in> set (pl_heap p). fresh_slot s) \<and> pl_sessionSlots p = [] \<and> pl_sessionSequences p = [] \<and>
     \<not> pl_closed p \<and> \<not> pl_closing p \<and> pl_recyclesInFlight p = 0 \<and>
     (\<forall>k \<in> pl_open p. \<exists>s \<in> set (pl_heap p). sl_Client s = Some k)"

lemma capture_turns:
  "captureCatalogWithRetry b retries i attempt p = (models, p') \<Longrightarrow>
     \<exists>n. p' = upd_slot i (\<lambda>s. s\<lparr>sl_turns := n\<rparr>) p"
proof (induction b retries i attempt p arbitrary: models p' rule: captureCatalogWithRetry.induct)
  case (1 b retries i attempt p)
  obtain r p1 where pr: "probeCatalogOnce i (bt_probe b attempt) p = (r, p1)" by fastforce
  then have p1: "\<exists>n. p1 = upd_slot i (\<lambda>s. s\<lparr>sl_turns := n\<rparr>) p"
    by (auto simp: probeCatalogOnce_def upd_slot_def split: sum.splits intro: exI [of _ "sl_turns (pl_heap p ! i)"])
  have twice: "\<exists>m. upd_slot i (\<lambda>s. s\<lparr>sl_turns := n'\<rparr>) p1 = upd_slot i (\<lambda>s. s\<lparr>sl_turns := m\<rparr>) p" for n'
    using p1 by (cases "i < length (pl_heap p)") (auto simp: upd_slot_def list_update_beyond)
  show ?case
  proof (cases "p' = p1")
    case True
    with p1 show ?thesis by simp
  next
    case False
    with "1.prems" pr have more: "\<not> attempt \<ge> retries" "\<not> bt_ctxDone b attempt"
        "captureCatalogWithRetry b retries i (attempt + 1) p1 = (models, p')" "r = Inr [] \<or> (\<exists>e. r = Inl e)"
      by (subst (asm) captureCatalogWithRetry.simps; auto split: sum.splits list.splits if_splits)+
    have "\<exists>n. p' = upd_slot i (\<lambda>s. s\<lparr>sl_turns := n\<rparr>) p1"
      using "1.IH" pr more by (cases r) auto
    with twice show ?thesis by metis
  qed
qed

text \<open>The pool of a turn after the slot was published in \<open>p.all\<close>, before it enters the channel.\<close>

definition boot_mid :: "nat \<Rightarrow> Pool \<Rightarrow> bool" where
  "boot_mid n p \<longleftrightarrow> pl_slots p = [0..<n] \<and> pl_all p = [0..<Suc n] \<and> length (pl_heap p) = Suc n \<and>
     (\<forall>j \<le> n. fresh_slot (pl_heap p ! j)) \<and> pl_sessionSlots p = [] \<and> pl_sessionSequences p = [] \<and>
     \<not> pl_closed p \<and> \<not> pl_closing p \<and> pl_recyclesInFlight p = 0 \<and>
     (\<forall>k \<in> pl_open p. \<exists>j \<le> n. sl_Client (pl_heap p ! j) = Some k)"

lemma boot_publish:
  assumes "boot_mid n p"
  shows "boot_inv (Suc n) (p\<lparr>pl_slots := pl_slots p @ [n]\<rparr>)"
proof -
  have "\<exists>s \<in> set (pl_heap p). sl_Client s = Some k" if "k \<in> pl_open p" for k
    using assms that by (metis boot_mid_def less_Suc_eq_le nth_mem)
  moreover have "fresh_slot s" if "s \<in> set (pl_heap p)" for s
    using assms that by (auto simp: boot_mid_def in_set_conv_nth less_Suc_eq_le)
  ultimately show ?thesis using assms by (simp add: boot_mid_def boot_inv_def)
qed

lemma boot_respawn:
  assumes mid: "boot_mid n p" and r: "respawnSlot n respawnCauseRecycle spawned initialized now p = (None, p')"
  shows "boot_mid n p' \<and> pl_cfg p' = pl_cfg p"
proof -
  have n: "n < length (pl_heap p)" "\<not> pl_closed p" using mid by (auto simp: boot_mid_def)
  obtain k where k: "spawned = Inr k" "initialized = None"
    using r by (auto simp: respawnSlot_def Let_def split: sum.splits option.splits)
  let ?p2 = "respawn_close_old n (respawn_mark n p)"
  have "respawn_swap n respawnCauseRecycle k now (?p2\<lparr>pl_open := insert k (pl_open ?p2)\<rparr>) = (None, p')"
    using r k by (simp add: respawnSlot_def Let_def)
  then have p': "pl_slots p' = pl_slots p" "pl_all p' = pl_all p" "pl_sessionSlots p' = pl_sessionSlots p"
      "pl_sessionSequences p' = pl_sessionSequences p" "\<not> pl_closed p'" "pl_closing p' = pl_closing p"
      "pl_recyclesInFlight p' = pl_recyclesInFlight p" "pl_cfg p' = pl_cfg p"
      "length (pl_heap p') = length (pl_heap p)"
      "pl_open p' = insert k (pl_open p - set_option (sl_Client (pl_heap p ! n)))"
      "\<And>j. j \<noteq> n \<Longrightarrow> pl_heap p' ! j = pl_heap p ! j" "sl_Client (pl_heap p' ! n) = Some k"
      "\<not> sl_dead (pl_heap p' ! n)" "\<not> sl_respawning (pl_heap p' ! n)"
      "sl_checkedOut (pl_heap p' ! n) = sl_checkedOut (pl_heap p ! n)"
    using n by (auto simp: respawn_swap_def respawn_close_old_def respawn_mark_def upd_slot_def Let_def split: if_splits)
  have "fresh_slot (pl_heap p' ! j)" if "j \<le> n" for j
    using mid that p'(11) [of j] p'(13-15) by (cases "j = n") (auto simp: boot_mid_def fresh_slot_def)
  moreover have "\<exists>j \<le> n. sl_Client (pl_heap p' ! j) = Some k'" if "k' \<in> pl_open p'" for k'
  proof (cases "k' = k")
    case True
    with p'(12) show ?thesis by auto
  next
    case False
    with that p'(10) have "k' \<in> pl_open p" "sl_Client (pl_heap p ! n) \<noteq> Some k'" by auto
    with mid obtain j where "j \<le> n" "sl_Client (pl_heap p ! j) = Some k'" "j \<noteq> n"
      unfolding boot_mid_def by metis
    with p'(11) show ?thesis by metis
  qed
  ultimately show ?thesis using mid p'(1-9) by (simp add: boot_mid_def)
qed

lemma boot_init:
  assumes inv: "boot_inv n p" and i: "initSlot b n p = (Inr slot, p1)"
    and m: "(if n = 0 then captureCatalogWithRetry b r slot 0 p1 else ([], p1)) = (models, p2)"
  shows "slot = n \<and> boot_mid n (p2\<lparr>pl_all := pl_all p2 @ [slot]\<rparr>) \<and> pl_cfg p2 = pl_cfg p"
proof -
  have len: "length (pl_heap p) = n" using inv by (simp add: boot_inv_def)
  obtain k s where p1: "slot = n" "p1 = p\<lparr>pl_open := insert k (pl_open p), pl_heap := pl_heap p @ [s]\<rparr>"
    "sl_Client s = Some k" "fresh_slot s"
    using i len by (auto simp: initSlot_def Let_def fresh_slot_def split: sum.splits option.splits)
  have same: "p1 = upd_slot n (\<lambda>x. x\<lparr>sl_turns := sl_turns s\<rparr>) p1" by (simp add: p1(2) upd_slot_def len [symmetric])
  have "\<exists>t. p2 = upd_slot n (\<lambda>s. s\<lparr>sl_turns := t\<rparr>) p1"
  proof (cases "n = 0")
    case True
    with m capture_turns [of b r slot 0 p1] p1(1) show ?thesis by simp
  next
    case False
    with m same show ?thesis by auto
  qed
  then obtain t where p2: "p2 = upd_slot n (\<lambda>s. s\<lparr>sl_turns := t\<rparr>) p1" by blast
  have heap: "pl_heap p2 = pl_heap p @ [s\<lparr>sl_turns := t\<rparr>]"
    by (simp add: p2 p1(2) upd_slot_def list_update_append len [symmetric])
  have "fresh_slot (pl_heap p2 ! j)" if "j \<le> n" for j
    using that inv p1(4) len unfolding heap
    by (cases "j = n") (auto simp: boot_inv_def fresh_slot_def nth_append)
  moreover have "\<exists>j \<le> n. sl_Client (pl_heap p2 ! j) = Some k'" if "k' \<in> pl_open p2" for k'
  proof (cases "k' = k")
    case True
    then show ?thesis using len p1(3) unfolding heap by (intro exI [of _ n]) (simp add: nth_append)
  next
    case False
    with that have "k' \<in> pl_open p" by (simp add: p2 p1(2))
    with inv obtain j where "j < n" "sl_Client (pl_heap p ! j) = Some k'"
      unfolding boot_inv_def by (metis in_set_conv_nth)
    then show ?thesis using len unfolding heap by (intro exI [of _ j]) (simp add: nth_append)
  qed
  ultimately show ?thesis
    using inv len p1(1) heap by (simp add: boot_inv_def boot_mid_def p2 p1(2))
qed

lemma warmup_slot_ok:
  assumes inv: "boot_inv n p" and w: "warmup_slot b n p = (Inr models, p')"
  shows "boot_inv (Suc n) p' \<and> pl_cfg p' = pl_cfg p"
proof -
  obtain slot p1 where i: "initSlot b n p = (Inr slot, p1)"
    using w by (auto simp: warmup_slot_def split: prod.splits sum.splits)
  obtain ms p2 where m: "(if n = 0 then captureCatalogWithRetry b (length defaultCatalogRetry) slot 0 p1 else ([], p1)) = (ms, p2)"
    by (metis surj_pair)
  note b = boot_init [OF inv i m]
  let ?p3 = "p2\<lparr>pl_all := pl_all p2 @ [slot]\<rparr>"
  show ?thesis
  proof (cases "pc_MaxWorkerTurns (pl_cfg ?p3) > 0 \<and> int (sl_turns (pl_heap ?p3 ! slot)) \<ge> pc_MaxWorkerTurns (pl_cfg ?p3)")
    case True
    then obtain p4 where r: "respawnSlot slot respawnCauseRecycle (bt_respawn b n) (bt_reinit b n) (bt_now b) ?p3 = (None, p4)"
        "p' = p4\<lparr>pl_slots := pl_slots p4 @ [slot]\<rparr>"
      using w i m by (auto simp: warmup_slot_def Let_def split: prod.splits option.splits)
    with b boot_respawn [of n ?p3] boot_publish [of n p4] show ?thesis by auto
  next
    case False
    with w i m have "p' = ?p3\<lparr>pl_slots := pl_slots ?p3 @ [slot]\<rparr>"
      by (auto simp: warmup_slot_def Let_def split: prod.splits)
    with b boot_publish [of n ?p3] show ?thesis by auto
  qed
qed

text \<open>A turn that fails closes every worker there is.\<close>

lemma closeAll_closes:
  assumes "\<And>k. k \<in> pl_open p \<Longrightarrow> \<exists>i \<in> set (pl_all p). sl_Client (pl_heap p ! i) = Some k"
  shows "pl_open (snd (snd (closeAll p))) = {} \<and> pl_closed (snd (snd (closeAll p)))"
  using assms by (auto simp: closeAll_def Let_def set_map_filter_iff)

lemma respawn_error_open:
  assumes "respawnSlot i respawnCauseRecycle spawned initialized now p = (Some e, p')" "\<not> pl_closed p"
  shows "pl_open p' \<subseteq> pl_open p \<and> pl_all p' = pl_all p \<and> (\<forall>j. sl_Client (pl_heap p' ! j) = sl_Client (pl_heap p ! j))"
proof -
  let ?p1 = "respawn_close_old i (respawn_mark i p)"
  have sub: "pl_open ?p1 \<subseteq> pl_open p" "\<not> pl_closed ?p1"
    using assms(2) by (auto simp: respawn_close_old_def respawn_mark_def)
  have "respawn_swap i respawnCauseRecycle k now (?p1\<lparr>pl_open := insert k (pl_open ?p1)\<rparr>) \<noteq> (Some e, p')" for k
    using sub(2) by (simp add: respawn_swap_def)
  with assms(1) obtain q where q: "p' = respawn_fail i respawnCauseRecycle e now q" "pl_open q \<subseteq> pl_open ?p1"
      "pl_all q = pl_all ?p1" "pl_heap q = pl_heap ?p1"
    by (auto simp: respawnSlot_def Let_def split: sum.splits option.splits)
  with sub(1) show ?thesis by auto
qed

lemma warmup_slot_fail:
  assumes inv: "boot_inv n p" and w: "warmup_slot b n p = (Inl e, p')"
  shows "pl_open p' = {} \<and> pl_closed p'"
proof (cases "fst (initSlot b n p)")
  case (Inl e')
  then obtain p1 where i: "initSlot b n p = (Inl e', p1)" by (metis prod.collapse)
  then have p1: "pl_open p1 \<subseteq> pl_open p" "pl_all p1 = pl_all p" "pl_heap p1 = pl_heap p"
    by (auto simp: initSlot_def Let_def split: sum.splits option.splits)
  have "\<exists>i \<in> set (pl_all p1). sl_Client (pl_heap p1 ! i) = Some k" if "k \<in> pl_open p1" for k
  proof -
    have "k \<in> pl_open p" using that p1(1) by blast
    with inv obtain j where "j < n" "sl_Client (pl_heap p ! j) = Some k"
      unfolding boot_inv_def by (metis in_set_conv_nth)
    with inv p1 show ?thesis by (auto simp: boot_inv_def)
  qed
  from closeAll_closes [OF this] w i show ?thesis by (simp add: warmup_slot_def)
next
  case (Inr slot)
  then obtain p1 where i: "initSlot b n p = (Inr slot, p1)" by (metis prod.collapse)
  obtain ms p2 where m: "(if n = 0 then captureCatalogWithRetry b (length defaultCatalogRetry) slot 0 p1 else ([], p1)) = (ms, p2)"
    by (metis surj_pair)
  note b = boot_init [OF inv i m]
  let ?p3 = "p2\<lparr>pl_all := pl_all p2 @ [slot]\<rparr>"
  have mid: "boot_mid n ?p3" using b by blast
  obtain p4 where r: "respawnSlot slot respawnCauseRecycle (bt_respawn b n) (bt_reinit b n) (bt_now b) ?p3 = (Some e, p4)"
      "p' = snd (snd (closeAll p4))"
    using w i m by (auto simp: warmup_slot_def Let_def split: prod.splits option.splits if_splits)
  have "\<not> pl_closed ?p3" using mid by (simp add: boot_mid_def)
  note r4 = respawn_error_open [OF r(1) this]
  have "\<exists>i \<in> set (pl_all p4). sl_Client (pl_heap p4 ! i) = Some k" if "k \<in> pl_open p4" for k
  proof -
    have "k \<in> pl_open ?p3" using that r4 by blast
    with mid obtain j where "j \<le> n" "sl_Client (pl_heap ?p3 ! j) = Some k" unfolding boot_mid_def by blast
    with mid r4 show ?thesis by (metis (no_types, lifting) atLeastLessThan_iff boot_mid_def le0 less_Suc_eq_le set_upt)
  qed
  from closeAll_closes [OF this] r(2) show ?thesis by simp
qed

lemma warmup_loop_boot:
  "boot_inv n p \<Longrightarrow> warmup_loop b [n..<m] p = (r, p') \<Longrightarrow> n \<le> m \<Longrightarrow>
     if r = None then boot_inv m p' \<and> pl_cfg p' = pl_cfg p else pl_open p' = {} \<and> pl_closed p'"
proof (induction "m - n" arbitrary: n p)
  case 0
  then show ?case by simp
next
  case (Suc d)
  then have n: "n < m" "d = m - Suc n" by auto
  obtain x p1 where w: "warmup_slot b n p = (x, p1)" by fastforce
  have up: "[n..<m] = n # [Suc n..<m]" using n by (simp add: upt_conv_Cons)
  show ?case
  proof (cases x)
    case (Inl e)
    with Suc.prems w up warmup_slot_fail [of n p b e p1] show ?thesis by auto
  next
    case (Inr models)
    with w warmup_slot_ok [OF Suc.prems(1)] have p1: "boot_inv (Suc n) p1" "pl_cfg p1 = pl_cfg p" by auto
    have "warmup_loop b [Suc n..<m] p1 = (r, p')" using Suc.prems(2) w Inr up by simp
    from Suc.hyps(1) [OF n(2) p1(1) this] n(1) p1(2) show ?thesis by simp
  qed
qed

lemma boot_new: "boot_inv 0 (pool_New env cfg)"
  by (simp add: boot_inv_def pool_New_def)

lemma cap_new: "0 < cap (pool_New env cfg)"
  by (simp add: cap_def pool_New_def pool_applyDefaults_def Let_def split: option.split)

section \<open>The invariant of the running pool\<close>

definition pool_inv :: "psys \<Rightarrow> bool" where
  "pool_inv s \<longleftrightarrow> acct_inv s \<and> flags_inv s \<and> recycle_inv s \<and> seq_inv s \<and> open_inv s \<and> 0 < cap (fst s)"

definition pool_start :: "psys \<Rightarrow> bool" where
  "pool_start s \<longleftrightarrow> snd s = {#} \<and> (\<exists>env cfg b. Warmup b (pool_New env cfg) = (None, fst s))"

lemma pool_invD:
  assumes "pool_inv s"
  shows "acct_inv s" "flags_inv s" "recycle_inv s" "seq_inv s" "open_inv s" "0 < cap (fst s)"
  using assms by (simp_all add: pool_inv_def)

lemma pool_start_inv:
  assumes "pool_start s"
  shows "pool_inv s"
proof -
  obtain p where s: "s = (p, {#})" using assms by (metis pool_start_def prod.collapse)
  obtain env cfg b where w: "warmup_loop b [0..<cap (pool_New env cfg)] (pool_New env cfg) = (None, p)"
    using assms by (auto simp: pool_start_def s Warmup_def)
  note b = warmup_loop_boot [OF boot_new w]
  have cap: "cap p = cap (pool_New env cfg)" "boot_inv (cap p) p" using b by (auto simp: cap_def)
  let ?n = "cap p"
  have "acct_inv s"
    using cap(2) by (simp add: s acct_inv_def boot_inv_def places_def)
  moreover have "flags_inv s"
    unfolding s by (rule flagsI) (use cap(2) in \<open>auto simp: boot_inv_def fresh_slot_def\<close>)
  moreover have "recycle_inv s" "seq_inv s"
    using cap(2) by (simp_all add: s recycle_inv_def seq_inv_def session_ok_def boot_inv_def)
  moreover have "open_inv s"
    unfolding s
  proof (rule openI)
    fix k assume "k \<in> pl_open p"
    with cap(2) obtain j where "j < ?n" "sl_Client (pl_heap p ! j) = Some k"
      unfolding boot_inv_def by (metis in_set_conv_nth)
    with cap(2) show "(\<exists>i \<in> set (pl_all p). sl_Client (pl_heap p ! i) = Some k) \<or> (\<exists>i c. AInit i c k \<in># {#})"
      by (auto simp: boot_inv_def)
  qed simp
  ultimately show ?thesis using cap_new [of env cfg] cap(1) by (simp add: pool_inv_def s)
qed

lemma pool_step_inv:
  assumes "pool_inv s" "pool_step s t"
  shows "pool_inv t"
  using pool_invD [OF assms(1)] assms(2) step_acct step_flags step_recycle_inv step_seq step_open step_fields
  by (simp add: pool_inv_def)

interpretation pool_sys: invariant_system pool_start pool_step pool_inv
  by unfold_locales (auto intro: pool_start_inv pool_step_inv)

section \<open>What a closing pool never does again\<close>

definition pool_le :: "psys \<Rightarrow> psys \<Rightarrow> bool" where
  "pool_le s t \<longleftrightarrow> pl_cfg (fst t) = pl_cfg (fst s) \<and>
     (pl_closing (fst s) \<longrightarrow> pl_closing (fst t)) \<and> (pl_closed (fst s) \<longrightarrow> pl_closed (fst t)) \<and>
     (pl_closed (fst s) \<longrightarrow> set (pl_slots (fst t)) \<subseteq> set (pl_slots (fst s)) \<and>
        (\<forall>sid. gm_get (pl_sessionSlots (fst s)) sid = None \<longrightarrow> gm_get (pl_sessionSlots (fst t)) sid = None) \<and>
        (pl_all (fst s) = [] \<longrightarrow> pl_all (fst t) = []))"

lemma pool_le_refl: "pool_le s s"
  by (simp add: pool_le_def)

lemma pool_le_trans: "pool_le s t \<Longrightarrow> pool_le t u \<Longrightarrow> pool_le s u"
  unfolding pool_le_def by auto

lemma effect_le: "session_effect sid e slot p p' \<Longrightarrow> pool_le (p, A) (p', A')"
  by (auto simp: pool_le_def session_effect_def same_rest_def split: seq_effect.splits)

lemma step_le:
  assumes "pool_step s t"
  shows "pool_le s t"
  using assms
proof cases
  case (step_finish sid p slot p' A)
  then show ?thesis using effect_le by (auto elim!: finishPromptSequence_cases)
next
  case (step_resolve sid succeeded p slot p' i A)
  then show ?thesis using effect_le by (auto elim!: resolvePromptStart_cases)
next
  case (step_stream sid p slot p' A)
  then show ?thesis using effect_le by (auto elim!: finishPromptForSession_cases)
next
  case (step_cancelPending sid p call p' A)
  then show ?thesis using effect_le by (auto elim!: Cancel_start_cases)
next
  case (step_cancelTaken sid p slot p' A)
  then show ?thesis using effect_le by (auto elim!: Cancel_start_cases)
next
  case (step_cancelRPC sid p slot p' A)
  then show ?thesis using effect_le by (auto elim!: completePendingCancel_cases)
qed (auto simp: pool_le_def slots_recv_def newSession_admit_def respawn_mark_def respawn_close_old_def respawn_clear_def
    respawn_fail_def respawn_swap_def recordSpawnErr_def newSession_requeueDead_def newSession_requeue_def
    newSession_register_def BeginPromptSequence_def Prompt_start_def release_stamp_def returnOrRecycle_def
    tryReturnSlotLocked_def recycle_finish_def recycle_done_def markSlotCheckedOut_def probeCatalogOnce_def
    exitWatcher_done_def Close_signal_def Close_admission_def closeAll_def Let_def
    split: list.splits if_splits option.splits sum.splits)

interpretation pool_mono: monotone_system pool_start pool_step pool_inv pool_le
  by unfold_locales (auto intro: pool_le_refl pool_le_trans step_le)

end
