(* ===== verification/PoolProps.thy ===== *)
theory PoolProps
  imports PoolBoot
begin

text \<open>
  The properties of the pool, over every run of \<open>pool_step\<close> from a pool that \<open>Warmup\<close> built, and
  the concrete runs that witness them.
\<close>

section \<open>Lemmas\<close>

lemma reachable_pool_inv: "pool_start s0 \<Longrightarrow> pool_step\<^sup>*\<^sup>* s0 s \<Longrightarrow> pool_inv s"
  by (rule pool_sys.reachable_inv)

lemma places_mem_disjoint:
  assumes "acct_inv (p, A)" "gm_get (pl_sessionSlots p) sid = Some i"
  shows "i \<notin> set (pl_slots p)"
proof
  assume free: "i \<in> set (pl_slots p)"
  from map_of_SomeD [OF assms(2)] have sess: "i \<in># mset (map snd (pl_sessionSlots p))" by force
  have "mset (pl_slots p) + mset (map snd (pl_sessionSlots p)) \<subseteq># mset [0..<cap p]"
    using acctD(2) [OF assms(1)] unfolding places_def fst_conv
    by (meson mset_subset_eq_add_left subset_mset.order_trans)
  from mset_subset_eq_count [OF this, of i]
  have "count (mset (pl_slots p)) i + count (mset (map snd (pl_sessionSlots p))) i \<le> count (mset [0..<cap p]) i"
    by simp
  moreover have "count (mset [0..<cap p]) i \<le> 1" by (simp add: count_mset_set')
  moreover have "0 < count (mset (pl_slots p)) i" using free by simp
  moreover have "0 < count (mset (map snd (pl_sessionSlots p))) i"
    using sess unfolding count_greater_zero_iff .
  ultimately show False by linarith
qed

lemma session_flags:
  assumes "flags_inv (p, A)" "gm_get (pl_sessionSlots p) sid = Some i"
  shows "sl_checkedOut (pl_heap p ! i) \<and> \<not> sl_respawning (pl_heap p ! i)"
proof -
  from map_of_SomeD [OF assms(2)] have "i \<in> set (map snd (pl_sessionSlots p))" by force
  with flagsD(2) [OF assms(1)] show ?thesis by blast
qed

lemma NewSession_closed: "pl_closed p \<Longrightarrow> \<exists>e. fst (NewSession w spawned initialized answer now p) = Inl e"
  by (auto simp: NewSession_def newSession_acquire_def slots_recv_def newSession_admit_def split: list.splits)

text \<open>A caller that fails puts its slot back.\<close>

lemma tryReturn_slots:
  "length (pl_slots p) < cap p \<Longrightarrow> pl_slots (snd (tryReturnSlotLocked i p)) = pl_slots p @ [i]"
  by (simp add: tryReturnSlotLocked_def)

lemma respawnSlot_frame:
  "respawnSlot i c spawned initialized now p = (r, p') \<Longrightarrow>
     pl_slots p' = pl_slots p \<and> pl_sessionSlots p' = pl_sessionSlots p \<and> cap p' = cap p \<and> pl_closed p' = pl_closed p"
  by (auto simp: respawnSlot_def respawn_mark_def respawn_close_old_def respawn_fail_def respawn_clear_def respawn_swap_def
      recordSpawnErr_def Let_def cap_def split: sum.splits option.splits if_splits)

lemma NewSession_error:
  assumes "NewSession w spawned initialized answer now p = (Inl e, p')" "\<not> pl_closed p" "length (pl_slots p) \<le> cap p"
  shows "mset (pl_slots p') = mset (pl_slots p) \<and> pl_sessionSlots p' = pl_sessionSlots p"
proof (cases "pl_slots p")
  case Nil
  with assms(1) show ?thesis by (auto simp: NewSession_def newSession_acquire_def slots_recv_def)
next
  case (Cons i "is")
  let ?p1 = "p\<lparr>pl_slots := is\<rparr>"
  let ?p2 = "upd_slot i (\<lambda>s. s\<lparr>sl_checkedOut := True\<rparr>) ?p1"
  have room: "length (pl_slots ?p2) < cap ?p2" using assms(3) Cons by (simp add: cap_def)
  have call: "mset (pl_slots q) = mset (pl_slots p) \<and> pl_sessionSlots q = pl_sessionSlots p"
    if "newSession_call i answer p2 = (Inl e, q)" "pl_slots p2 = is" "pl_sessionSlots p2 = pl_sessionSlots p"
      "cap p2 = cap p" "\<not> pl_closed p2" for p2 q
    using that Cons assms(3) tryReturn_slots [of p2 i]
    by (auto simp: newSession_call_def newSession_requeue_def newSession_register_def split: sum.splits)
  have dead: "mset (pl_slots (newSession_requeueDead i p3)) = mset (pl_slots p) \<and>
      pl_sessionSlots (newSession_requeueDead i p3) = pl_sessionSlots p"
    if "pl_slots p3 = is" "pl_sessionSlots p3 = pl_sessionSlots p" "cap p3 = cap p" "\<not> pl_closed p3" for p3
    using that Cons assms(3) tryReturn_slots [of "upd_slot i (\<lambda>s. s\<lparr>sl_dead := True\<rparr>) p3" i]
    by (simp add: newSession_requeueDead_def)
  have p2: "pl_slots ?p2 = is" "pl_sessionSlots ?p2 = pl_sessionSlots p" "cap ?p2 = cap p" "\<not> pl_closed ?p2"
    using assms(2) by (simp_all add: cap_def)
  have acq: "newSession_acquire w p = (Inr i, ?p1)"
    using Cons by (simp add: newSession_acquire_def slots_recv_def)
  show ?thesis
  proof (cases "slotAlive i ?p2")
    case True
    with assms(1,2) acq have "newSession_call i answer ?p2 = (Inl e, p')"
      by (simp add: NewSession_def newSession_admit_def)
    with call p2 show ?thesis by blast
  next
    case False
    obtain r p3 where r: "respawnSlot i respawnCauseLazy spawned initialized now ?p2 = (r, p3)" by fastforce
    note f = respawnSlot_frame [OF r]
    show ?thesis
    proof (cases r)
      case None
      with False assms(1,2) acq r have "newSession_call i answer p3 = (Inl e, p')"
        by (simp add: NewSession_def newSession_admit_def)
      with call [of p3 p'] f p2 show ?thesis by simp
    next
      case (Some e')
      with False assms(1,2) acq r have "p' = newSession_requeueDead i p3"
        by (simp add: NewSession_def newSession_admit_def)
      with dead [of p3] f p2 show ?thesis by simp
    qed
  qed
qed

section \<open>A concrete run\<close>

definition demo_pcfg :: PoolConfig where
  "demo_pcfg = \<lparr>pc_Size = 2, pc_AcquireTimeout = 0, pc_PingInterval = 10, pc_MaxWorkerTurns = 3,
     pc_IdleRecycleAfter = 0, pc_IdleRecycleMemoryBytes = 0, pc_WorkerMemorySupported = True\<rparr>"

definition demo_boot :: boot where
  "demo_boot = \<lparr>bt_spawn = (\<lambda>i. Inr i), bt_init = (\<lambda>_. None), bt_probe = (\<lambda>_. Inr [\<lparr>mi_ID = ''auto'', mi_Name = ''Auto''\<rparr>]),
     bt_ctxDone = (\<lambda>_. False), bt_respawn = (\<lambda>i. Inr (i + 100)), bt_reinit = (\<lambda>_. None), bt_now = 1\<rparr>"

definition demo_bad_boot :: boot where
  "demo_bad_boot = demo_boot\<lparr>bt_init := (\<lambda>i. if i = 1 then Some ErrCtx else None)\<rparr>"

definition demo_p0 :: Pool where "demo_p0 = snd (Warmup demo_boot (pool_New None demo_pcfg))"

definition demo_p1 :: Pool where "demo_p1 = snd (the (slots_recv demo_p0))"

definition demo_p2 :: Pool where "demo_p2 = snd (newSession_admit 0 demo_p1)"

definition demo_p3 :: Pool where "demo_p3 = snd (newSession_register 0 ''sid'' demo_p2)"

definition demo_p4 :: Pool where "demo_p4 = snd (BeginPromptSequence ''sid'' demo_p3)"

definition demo_p5 :: Pool where "demo_p5 = snd (Prompt_start ''sid'' demo_p4)"

definition demo_p6 :: Pool where "demo_p6 = snd (Cancel_start ''sid'' demo_p5)"

definition demo_p7 :: Pool where "demo_p7 = snd (resolvePromptStart ''sid'' False demo_p6)"

definition demo_p8 :: Pool where "demo_p8 = release_stamp 0 9 (snd (finishPromptSequence ''sid'' demo_p7))"

definition demo_p9 :: Pool where "demo_p9 = snd (returnOrRecycle 0 None demo_p8)"

lemma demo_pool_start: "pool_start (demo_p0, {#})"
proof -
  have "Warmup demo_boot (pool_New None demo_pcfg) = (None, demo_p0)" by code_simp
  then show ?thesis by (auto simp: pool_start_def)
qed

lemma demo_session: "pool_step\<^sup>*\<^sup>* (demo_p0, {#}) (demo_p3, {#})"
proof -
  have "pool_step (demo_p0, {#}) (demo_p1, {#ANewGot 0#})"
    by (rule step_recvNew) code_simp
  moreover have "pool_step (demo_p1, {#ANewGot 0#}) (demo_p2, {#ANewCheck 0#})"
  proof -
    have "newSession_admit 0 demo_p1 = (False, demo_p2)" by code_simp
    from step_admit [OF this, of "{#}"] show ?thesis by simp
  qed
  moreover have "pool_step (demo_p2, {#ANewCheck 0#}) (demo_p2, {#ANewCall 0#})"
    by (rule step_alive) code_simp
  moreover have "pool_step (demo_p2, {#ANewCall 0#}) (demo_p3, {#})"
  proof (rule step_register)
    show "fresh_sid ''sid'' demo_p2 {#}" by code_simp
    show "newSession_register 0 ''sid'' demo_p2 = (Inr ''sid'', demo_p3)" by code_simp
  qed
  ultimately show ?thesis by (meson converse_rtranclp_into_rtranclp rtranclp.rtrancl_refl)
qed

lemma demo_held_sequence: "pool_step\<^sup>*\<^sup>* (demo_p0, {#}) (demo_p4, {#ASequence ''sid''#})"
proof -
  have "BeginPromptSequence ''sid'' demo_p3 = (None, demo_p4)" by code_simp
  from step_begin [OF this] demo_session show ?thesis by (rule rtranclp.rtrancl_into_rtrancl [rotated])
qed

lemma demo_starting: "pool_step\<^sup>*\<^sup>* (demo_p0, {#}) (demo_p5, {#APrompt ''sid'' 0, ASequence ''sid''#})"
proof -
  have "Prompt_start ''sid'' demo_p4 = (Inr 0, demo_p5)" by code_simp
  then have "pool_step (demo_p4, {#ASequence ''sid''#}) (demo_p5, {#APrompt ''sid'' 0, ASequence ''sid''#})"
    by (rule step_prompt) simp
  with demo_held_sequence show ?thesis by (rule rtranclp.rtrancl_into_rtrancl)
qed

lemma demo_cancelling:
  "pool_step\<^sup>*\<^sup>* (demo_p0, {#}) (demo_p6, {#APrompt ''sid'' 0, ASequence ''sid'', ACancelRPC ''sid''#})"
proof -
  have "Cancel_start ''sid'' demo_p5 = (CancelPending True, demo_p6)" by code_simp
  from step_cancelPending [OF this, of "{#APrompt ''sid'' 0, ASequence ''sid''#}"]
  have "pool_step (demo_p5, {#APrompt ''sid'' 0, ASequence ''sid''#})
      (demo_p6, {#APrompt ''sid'' 0, ASequence ''sid'', ACancelRPC ''sid''#})" by (simp add: add_mset_commute)
  with demo_starting show ?thesis by (rule rtranclp.rtrancl_into_rtrancl)
qed

lemma demo_resolved:
  "pool_step\<^sup>*\<^sup>* (demo_p0, {#}) (demo_p7, {#ASequence ''sid'', ACancelRPC ''sid''#})"
proof -
  have "resolvePromptStart ''sid'' False demo_p6 = (None, demo_p7)" by code_simp
  from step_resolve [OF this, of 0 "{#ASequence ''sid'', ACancelRPC ''sid''#}"]
  have "pool_step (demo_p6, {#APrompt ''sid'' 0, ASequence ''sid'', ACancelRPC ''sid''#})
      (demo_p7, {#ASequence ''sid'', ACancelRPC ''sid''#})" by (simp add: releasing_def)
  with demo_cancelling show ?thesis by (rule rtranclp.rtrancl_into_rtrancl)
qed

lemma demo_taken:
  "pool_step\<^sup>*\<^sup>* (demo_p0, {#})
    (snd (finishPromptSequence ''sid'' demo_p7), {#ARelease 0, ACancelRPC ''sid''#})"
proof -
  have "finishPromptSequence ''sid'' demo_p7 = (Some 0, snd (finishPromptSequence ''sid'' demo_p7))" by code_simp
  from step_finish [OF this, of "{#ACancelRPC ''sid''#}"]
  have "pool_step (demo_p7, {#ASequence ''sid'', ACancelRPC ''sid''#})
      (snd (finishPromptSequence ''sid'' demo_p7), {#ARelease 0, ACancelRPC ''sid''#})"
    by (simp add: releasing_def add_mset_commute)
  with demo_resolved show ?thesis by (rule rtranclp.rtrancl_into_rtrancl)
qed

lemma demo_returning: "pool_step\<^sup>*\<^sup>* (demo_p0, {#}) (demo_p8, {#AReturn 0 None, ACancelRPC ''sid''#})"
proof -
  have "max_turns_trigger 0 demo_p8 = None" by code_simp
  with step_snap [of demo_p8 0 "{#ACancelRPC ''sid''#}"]
  have snap: "pool_step (demo_p8, {#ASnap 0, ACancelRPC ''sid''#}) (demo_p8, {#AReturn 0 None, ACancelRPC ''sid''#})"
    by simp
  have "pool_step (snd (finishPromptSequence ''sid'' demo_p7), {#ARelease 0, ACancelRPC ''sid''#})
      (demo_p8, {#ASnap 0, ACancelRPC ''sid''#})"
    unfolding demo_p8_def by (rule step_release)
  with demo_taken have "pool_step\<^sup>*\<^sup>* (demo_p0, {#}) (demo_p8, {#ASnap 0, ACancelRPC ''sid''#})"
    by (rule rtranclp.rtrancl_into_rtrancl)
  then show ?thesis using snap by (rule rtranclp.rtrancl_into_rtrancl)
qed

lemma demo_released_early: "pool_step\<^sup>*\<^sup>* (demo_p0, {#}) (demo_p9, {#ACancelRPC ''sid''#})"
proof -
  have "returnOrRecycle 0 None demo_p8 = (None, demo_p9)" by code_simp
  from step_return [OF this, of "{#ACancelRPC ''sid''#}"]
  have "pool_step (demo_p8, {#AReturn 0 None, ACancelRPC ''sid''#}) (demo_p9, {#ACancelRPC ''sid''#})" by simp
  with demo_returning show ?thesis by (rule rtranclp.rtrancl_into_rtrancl)
qed

lemma demo_closed:
  "pool_step\<^sup>*\<^sup>* (demo_p0, {#}) (Close_admission (Close_signal demo_p0), {#})"
  "pool_step\<^sup>*\<^sup>* (demo_p0, {#}) (pool_Close demo_p0, {#})"
proof -
  have "pool_step (demo_p0, {#}) (Close_signal demo_p0, {#})" by (rule step_signal)
  moreover have "pool_step (Close_signal demo_p0, {#}) (Close_admission (Close_signal demo_p0), {#})"
    by (rule step_admission) (simp add: Close_signal_def)
  ultimately show 1: "pool_step\<^sup>*\<^sup>* (demo_p0, {#}) (Close_admission (Close_signal demo_p0), {#})" by simp
  have "pool_step (Close_admission (Close_signal demo_p0), {#}) (pool_Close demo_p0, {#})"
    unfolding pool_Close_def by (rule step_closeAll) (simp_all add: Close_signal_def Close_admission_def)
  with 1 show "pool_step\<^sup>*\<^sup>* (demo_p0, {#}) (pool_Close demo_p0, {#})" by (rule rtranclp.rtrancl_into_rtrancl)
qed


text \<open>An idle sweep takes both slots and finds the worker of slot 0 too big.\<close>

definition demo_r1 :: Pool where "demo_r1 = snd (the (slots_recv (snd (the (slots_recv demo_p9)))))"

definition demo_r2 :: Pool where "demo_r2 = markSlotCheckedOut 0 demo_r1"

definition demo_trigger :: "recycleTrigger option" where
  "demo_trigger = inspectIdleWorker 0 (\<lambda>k. int k + 7) (Some (\<lambda>_. Some 5)) 20 demo_r2"

definition demo_r3 :: Pool where "demo_r3 = snd (returnOrRecycle 0 demo_trigger demo_r2)"

lemma demo_recycling:
  "pool_step\<^sup>*\<^sup>* (demo_p0, {#}) (demo_r3, {#ARecycle 0, AIdleGot 1, ACancelRPC ''sid''#})"
proof -
  let ?B = "{#AIdleGot 1, ACancelRPC ''sid''#}" and ?q = "snd (the (slots_recv demo_p9))"
  have 1: "slots_recv demo_p9 = Some (1, ?q)" "pl_all demo_p9 \<noteq> []" "slots_recv ?q = Some (0, demo_r1)" "pl_all ?q \<noteq> []"
    by code_simp+
  have 2: "demo_trigger \<noteq> None" "returnOrRecycle 0 demo_trigger demo_r2 = (demo_trigger, demo_r3)" by code_simp+
  have "pool_step (demo_p9, {#ACancelRPC ''sid''#}) (?q, ?B)" using 1(1,2) by (rule step_recvIdle)
  with demo_released_early have "pool_step\<^sup>*\<^sup>* (demo_p0, {#}) (?q, ?B)" by (rule rtranclp.rtrancl_into_rtrancl)
  moreover have "pool_step (?q, ?B) (demo_r1, add_mset (AIdleGot 0) ?B)" using 1(3,4) by (rule step_recvIdle)
  ultimately have "pool_step\<^sup>*\<^sup>* (demo_p0, {#}) (demo_r1, add_mset (AIdleGot 0) ?B)" by (rule rtranclp.rtrancl_into_rtrancl)
  moreover have "pool_step (demo_r1, add_mset (AIdleGot 0) ?B) (demo_r2, add_mset (AIdle 0) ?B)"
    unfolding demo_r2_def by (rule step_idleMark)
  ultimately have "pool_step\<^sup>*\<^sup>* (demo_p0, {#}) (demo_r2, add_mset (AIdle 0) ?B)" by (rule rtranclp.rtrancl_into_rtrancl)
  moreover have "pool_step (demo_r2, add_mset (AIdle 0) ?B) (demo_r2, add_mset (AReturn 0 demo_trigger) ?B)"
    using step_idle [OF demo_trigger_def [symmetric], of ?B] 2(1) by simp
  ultimately have "pool_step\<^sup>*\<^sup>* (demo_p0, {#}) (demo_r2, add_mset (AReturn 0 demo_trigger) ?B)"
    by (rule rtranclp.rtrancl_into_rtrancl)
  moreover have "pool_step (demo_r2, add_mset (AReturn 0 demo_trigger) ?B) (demo_r3, add_mset (ARecycle 0) ?B)"
    using step_return [OF 2(2), of ?B] 2(1) by simp
  ultimately show ?thesis by (rule rtranclp.rtrancl_into_rtrancl)
qed

lemma demo_sequence_state: "\<exists>st. gm_get (pl_sessionSequences demo_p4) ''sid'' = Some st"
proof -
  have "gm_get (pl_sessionSequences demo_p4) ''sid'' \<noteq> None" by code_simp
  then show ?thesis by simp
qed

section \<open>Properties\<close>

text \<open>
  C6. Every slot is in one place. In every state the pool reaches, whatever workers answer and
  however requests, cancels, recycles, probes and shutdown interleave, the free channel, the
  session map and the slots that callers and goroutines hold are together a part of the slots
  \<open>0..<cap\<close>, each at most once; as long as the pool is not closing they are all of them, so
  that no slot is lost or handed out twice.
\<close>

theorem pool_slot_accounting:
  assumes "pool_start s0" "pool_step\<^sup>*\<^sup>* s0 (p, A)"
  shows "mset (pl_slots p) + mset (map snd (pl_sessionSlots p)) + held A \<subseteq># mset [0..<cap p] \<and>
    (\<not> pl_closing p \<and> \<not> pl_closed p \<longrightarrow>
      mset (pl_slots p) + mset (map snd (pl_sessionSlots p)) + held A = mset [0..<cap p])"
  using acctD(2,3) [OF pool_invD(1) [OF reachable_pool_inv [OF assms]]]
  by (simp_all add: places_def ends_def)

theorem pool_slot_accounting_witness:
  "mset (pl_slots demo_p5) + mset (map snd (pl_sessionSlots demo_p5)) + held {#APrompt ''sid'' 0, ASequence ''sid''#}
     = mset [0..<cap demo_p5] \<and> pl_slots demo_p5 = [1] \<and> pl_sessionSlots demo_p5 = [(''sid'', 0)]"
proof -
  have "\<not> pl_closing demo_p5 \<and> \<not> pl_closed demo_p5" "pl_slots demo_p5 = [1]" "pl_sessionSlots demo_p5 = [(''sid'', 0)]"
    by code_simp+
  with pool_slot_accounting [OF demo_pool_start demo_starting] show ?thesis by simp
qed

text \<open>
  A slot is never dropped on its way back. Whoever holds a slot in a state the pool reaches
  finds room in the free channel: the non-blocking send of \<open>tryReturnSlotLocked\<close> takes its first
  branch, and the slot is then free and not marked as checked out.
\<close>

theorem pool_return_never_drops:
  assumes "pool_start s0" "pool_step\<^sup>*\<^sup>* s0 (p, add_mset a A)" "own a = {#i#}"
  shows "\<exists>p'. tryReturnSlotLocked i p = (True, p') \<and> pl_slots p' = pl_slots p @ [i] \<and>
    \<not> sl_checkedOut (pl_heap p' ! i)"
proof -
  note inv = pool_invD(1) [OF reachable_pool_inv [OF assms(1,2)]]
  from acct_owner(2,3) [OF inv assms(3)] show ?thesis by (simp add: tryReturnSlotLocked_def upd_slot_def)
qed

theorem pool_return_never_drops_witness:
  "\<exists>p'. tryReturnSlotLocked 0 demo_p8 = (True, p') \<and> pl_slots p' = [1, 0] \<and> \<not> sl_checkedOut (pl_heap p' ! 0)"
proof -
  have "pl_slots demo_p8 = [1]" by code_simp
  with pool_return_never_drops [OF demo_pool_start demo_returning, of 0] show ?thesis by simp
qed

text \<open>
  C7. At most one worker is being recycled at any time: the counter of recycles in flight is at
  most one and is exactly the number of recycle goroutines that have been launched and have not
  finished, in every interleaving of releases, idle sweeps and shutdown.
\<close>

theorem pool_one_recycle:
  assumes "pool_start s0" "pool_step\<^sup>*\<^sup>* s0 (p, A)"
  shows "pl_recyclesInFlight p = size (filter_mset recycling A) \<and> size (filter_mset recycling A) \<le> 1"
  using pool_invD(3) [OF reachable_pool_inv [OF assms]] by (simp add: recycle_inv_def)

theorem pool_one_recycle_witness:
  "pl_recyclesInFlight demo_r3 = 1 \<and> size (filter_mset recycling {#ARecycle 0, AIdleGot 1, ACancelRPC ''sid''#}) \<le> 1"
  using pool_one_recycle [OF demo_pool_start demo_recycling] by simp

text \<open>
  C8. While the startup of a prompt is outstanding its session stays: until \<open>closeAll\<close> has run the
  session map still binds the session to the slot whose client got the prompt, the pending mark
  is set, the slot is not in the free channel, it is checked out and nobody is respawning it. A
  cancel, a failed sequence or a recycle that happens meanwhile cannot take the slot away.
\<close>

theorem prompt_startup_keeps_session:
  assumes "pool_start s0" "pool_step\<^sup>*\<^sup>* s0 (p, A)" "APrompt sid i \<in># A" "pl_all p \<noteq> []"
  shows "gm_get (pl_sessionSlots p) sid = Some i \<and>
    (\<exists>st. gm_get (pl_sessionSequences p) sid = Some st \<and> sq_promptPending st) \<and>
    i \<notin> set (pl_slots p) \<and> sl_checkedOut (pl_heap p ! i) \<and> \<not> sl_respawning (pl_heap p ! i)"
proof -
  note inv = pool_invD [OF reachable_pool_inv [OF assms(1,2)]]
  have "APrompt sid i \<in># mine sid A" using assms(3) by (simp add: mine_mem)
  from sessionD(3) [OF inv(4) this assms(4)]
  have "gm_get (pl_sessionSlots p) sid = Some i"
    "\<exists>st. gm_get (pl_sessionSequences p) sid = Some st \<and> sq_promptPending st" by auto
  with places_mem_disjoint [OF inv(1)] session_flags [OF inv(2)] show ?thesis by blast
qed

theorem prompt_startup_keeps_session_witness:
  "gm_get (pl_sessionSlots demo_p6) ''sid'' = Some 0 \<and>
   (\<exists>st. gm_get (pl_sessionSequences demo_p6) ''sid'' = Some st \<and> sq_promptPending st) \<and>
   0 \<notin> set (pl_slots demo_p6) \<and> sl_checkedOut (pl_heap demo_p6 ! 0) \<and> \<not> sl_respawning (pl_heap demo_p6 ! 0)"
proof -
  have "pl_all demo_p6 \<noteq> []" by code_simp
  with prompt_startup_keeps_session [OF demo_pool_start demo_cancelling] show ?thesis by simp
qed

text \<open>
  No session is stuck: as long as a session has a sequence state it has a slot, and somebody
  is under way who will resolve it: a sequence that holds it, a prompt that is starting, a stream
  that is being read or a cancel whose client call has not returned. The flags of the state say
  which one.
\<close>

theorem sequence_has_resolver:
  assumes "pool_start s0" "pool_step\<^sup>*\<^sup>* s0 (p, A)" "gm_get (pl_sessionSequences p) sid = Some st"
  shows "gm_get (pl_sessionSlots p) sid \<noteq> None \<and> (\<exists>a. a \<in># A \<and> about a = Some sid) \<and> sq_holds st \<le> count A (ASequence sid) \<and>
      (sq_promptPending st \<longrightarrow> (\<exists>i. APrompt sid i \<in># A)) \<and> (sq_promptActive st \<longrightarrow> AStream sid \<in># A) \<and>
      (sq_cancelRequested st \<and> \<not> sq_cancelComplete st \<longrightarrow> ACancelRPC sid \<in># A)"
proof -
  note inv = pool_invD(4) [OF reachable_pool_inv [OF assms(1,2)]]
  have slot: "gm_get (pl_sessionSlots p) sid \<noteq> None" by (rule sessionD(1) [OF inv assms(3)])
  have ok: "seq_ok sid st (mine sid A)" by (rule sessionD(2) [OF inv assms(3)])
  have cnt: "count (mine sid A) (ASequence sid) = count A (ASequence sid)" by (simp add: mine_def)
  have "mine sid A \<noteq> {#}" using ok by (auto simp: seq_ok_def)
  then obtain a where "a \<in># mine sid A" by blast
  then have "\<exists>a. a \<in># A \<and> about a = Some sid" by (auto simp: mine_def)
  then show ?thesis
    using slot ok cnt by (auto simp: seq_ok_def mine_def)
qed

theorem sequence_has_resolver_witness:
  "gm_get (pl_sessionSlots demo_p4) ''sid'' \<noteq> None \<and> (\<exists>a. a \<in># {#ASequence ''sid''#} \<and> about a = Some ''sid'')"
proof -
  obtain st where st: "gm_get (pl_sessionSequences demo_p4) ''sid'' = Some st"
    using demo_sequence_state by blast
  from sequence_has_resolver [OF demo_pool_start demo_held_sequence st] show ?thesis by simp
qed


text \<open>
  C9. A closed pool stays closed: from any state in which admission is closed, whatever happens
  afterwards, the pool is still closed, the free channel has got no slot back, no session has
  appeared, and a \<open>NewSession\<close> is refused.
\<close>

theorem closed_pool_final:
  assumes "pool_start s0" "pool_step\<^sup>*\<^sup>* s0 s" "pl_closed (fst s)" "pool_step\<^sup>*\<^sup>* s t"
  shows "pl_closed (fst t) \<and> set (pl_slots (fst t)) \<subseteq> set (pl_slots (fst s)) \<and>
    (gm_get (pl_sessionSlots (fst s)) sid = None \<longrightarrow> gm_get (pl_sessionSlots (fst t)) sid = None) \<and>
    (\<exists>e. fst (NewSession w spawned initialized answer now (fst t)) = Inl e)"
  using pool_mono.run_rel [OF assms(4) reachable_pool_inv [OF assms(1,2)]] assms(3) NewSession_closed
  by (auto simp: pool_le_def)

theorem closed_pool_final_witness:
  "pl_closed (pool_Close demo_p0) \<and>
   (\<exists>e. fst (NewSession ParkTimeout (Inr 7) None (Inr ''s'') 3 (pool_Close demo_p0)) = Inl e)"
proof -
  let ?c = "Close_admission (Close_signal demo_p0)"
  have c: "pl_closed (fst (?c, {#}))" by (simp add: Close_admission_def)
  have "pool_step (?c, {#}) (pool_Close demo_p0, {#})"
    unfolding pool_Close_def by (rule step_closeAll) (simp_all add: Close_signal_def Close_admission_def)
  from closed_pool_final [OF demo_pool_start demo_closed(1) c r_into_rtranclp [of pool_step, OF this]]
  show ?thesis by simp
qed

text \<open>
  C10. \<open>Close\<close> leaks no worker process: once \<open>closeAll\<close> has run and no respawn is still waiting
  for the \<open>Initialize\<close> of a fresh worker, no spawned worker process is left open. A respawn
  that is still waiting owns the only processes there are, and its next section closes its
  client: the pool after that section has one process less.
\<close>

theorem close_leaks_no_worker:
  assumes "pool_start s0" "pool_step\<^sup>*\<^sup>* s0 (p, A)" "pl_all p = []"
  shows "(\<forall>k. k \<in> pl_open p \<longrightarrow> (\<exists>i c. AInit i c k \<in># A \<and>
      (\<forall>now. fst (respawn_swap i c k now p) = Some ErrRespawnPoolClosed \<and>
         pl_open (snd (respawn_swap i c k now p)) = pl_open p - {k}))) \<and>
    ((\<forall>i c k. AInit i c k \<notin># A) \<longrightarrow> pl_open p = {})"
proof -
  note inv = pool_invD [OF reachable_pool_inv [OF assms(1,2)]]
  have closed: "pl_closed p" using acctD(7) [OF inv(1)] inv(6) assms(3) by (metis fst_conv upt_conv_Cons list.distinct(1))
  have init: "\<exists>i c. AInit i c k \<in># A" if "k \<in> pl_open p" for k
    using openD(1) [OF inv(5) that] assms(3) by auto
  have "fst (respawn_swap i c k now p) = Some ErrRespawnPoolClosed \<and>
      pl_open (snd (respawn_swap i c k now p)) = pl_open p - {k}" for i c k now
    using closed by (simp add: respawn_swap_def)
  then have "\<forall>k. k \<in> pl_open p \<longrightarrow> (\<exists>i c. AInit i c k \<in># A \<and>
      (\<forall>now. fst (respawn_swap i c k now p) = Some ErrRespawnPoolClosed \<and>
         pl_open (snd (respawn_swap i c k now p)) = pl_open p - {k}))"
    using init by metis
  moreover have "(\<forall>i c k. AInit i c k \<notin># A) \<longrightarrow> pl_open p = {}" using init by blast
  ultimately show ?thesis ..
qed

theorem close_leaks_no_worker_witness:
  "pl_open (pool_Close demo_p0) = {} \<and> pl_open demo_p0 = {0, 1}"
proof -
  have "pl_all (pool_Close demo_p0) = []" "pl_open demo_p0 = {0, 1}" by code_simp+
  with close_leaks_no_worker [OF demo_pool_start demo_closed(2)] show ?thesis by simp
qed

text \<open>
  \<open>Warmup\<close> starts the whole pool or nothing: for any answers of the workers, either it
  succeeds and exactly the slots \<open>0..<Size\<close> are free, alive and registered, or it reports the
  error and every worker process it spawned has been closed.
\<close>

theorem warmup_all_or_nothing:
  "case Warmup b (pool_New env cfg) of
     (None, p) \<Rightarrow> pl_slots p = [0..<cap p] \<and> pl_all p = [0..<cap p] \<and> 0 < cap p \<and>
       \<not> pl_closed p \<and>
       list_all (\<lambda>s. \<not> sl_dead s \<and> \<not> sl_respawning s \<and> \<not> sl_checkedOut s) (pl_heap p)
   | (Some e, p) \<Rightarrow> pl_open p = {} \<and> pl_closed p"
proof (cases "Warmup b (pool_New env cfg)")
  case (Pair r p)
  then have w: "warmup_loop b [0..<cap (pool_New env cfg)] (pool_New env cfg) = (r, p)" by (simp add: Warmup_def)
  note boot = warmup_loop_boot [OF boot_new w]
  show ?thesis
  proof (cases r)
    case None
    with boot have inv: "boot_inv (cap (pool_New env cfg)) p" and cap: "cap p = cap (pool_New env cfg)"
      by (simp_all add: cap_def)
    have "list_all (\<lambda>s. \<not> sl_dead s \<and> \<not> sl_respawning s \<and> \<not> sl_checkedOut s) (pl_heap p)"
      using inv by (auto simp: boot_inv_def fresh_slot_def list_all_iff)
    then show ?thesis using inv cap cap_new [of env cfg] None Pair by (simp add: boot_inv_def)
  next
    case (Some e)
    with boot Pair show ?thesis by simp
  qed
qed

text \<open>
  The busy count of \<open>Stats\<close> is exact: while the pool is not closing, \<open>Busy\<close> is the number
  of open sessions plus the number of slots that callers and goroutines hold, and \<open>Busy\<close> never
  exceeds \<open>Size\<close>.
\<close>

theorem pool_stats_busy:
  assumes "pool_start s0" "pool_step\<^sup>*\<^sup>* s0 (p, A)" "\<not> pl_closing p" "\<not> pl_closed p"
  shows "sa_Busy (pool_Stats p) = length (pl_sessionSlots p) + size (held A) \<and>
    int (sa_Busy (pool_Stats p)) \<le> sa_Size (pool_Stats p)"
proof -
  note inv = pool_invD(1) [OF reachable_pool_inv [OF assms(1,2)]]
  have "mset (pl_slots p) + mset (map snd (pl_sessionSlots p)) + held A = mset [0..<cap p]"
    using acctD(3) [OF inv] assms(3,4) by (simp add: ends_def places_def)
  from arg_cong [OF this, of size]
  have n: "length (pl_slots p) + length (pl_sessionSlots p) + size (held A) = cap p" by simp
  have "pl_all p = [0..<cap p]" using acctD(7) [OF inv] assms(4) by blast
  then have len: "length (pl_all p) = cap p" by simp
  have "0 < cap p" using pool_invD(6) [OF reachable_pool_inv [OF assms(1,2)]] by simp
  then have size: "pc_Size (pl_cfg p) = int (cap p)" by (simp add: cap_def)
  show ?thesis unfolding pool_Stats_def pool_busy_def using n len size by simp
qed

theorem pool_stats_busy_witness:
  "sa_Busy (pool_Stats demo_r3) = length (pl_sessionSlots demo_r3) + size (held {#ARecycle 0, AIdleGot 1, ACancelRPC ''sid''#})
   \<and> sa_Busy (pool_Stats demo_r3) = 2"
proof -
  have "\<not> pl_closing demo_r3" "\<not> pl_closed demo_r3" "sa_Busy (pool_Stats demo_r3) = 2" by code_simp+
  with pool_stats_busy [OF demo_pool_start demo_recycling] show ?thesis by simp
qed

text \<open>
  \<open>finishPromptSequence\<close> can free a slot while a cancel of its session is still talking to
  the worker. A cancel during the startup of a prompt leaves the session to be released when its
  client call returns; \<open>resolvePromptStart\<close> and \<open>finishPromptForSession\<close> wait for that, but
  \<open>finishPromptSequence\<close> does not. There is a run in which the startup fails, the sequence
  ends, and the slot is back in the free channel although the call of the cancel has not
  returned.
\<close>

theorem finish_releases_during_cancel:
  "\<exists>s0 p A. pool_start s0 \<and> pool_step\<^sup>*\<^sup>* s0 (p, A) \<and> A = {#ACancelRPC ''sid''#} \<and>
     gm_get (pl_sessionSlots p) ''sid'' = None \<and> 0 \<in> set (pl_slots p) \<and> \<not> sl_checkedOut (pl_heap p ! 0)"
proof -
  have "gm_get (pl_sessionSlots demo_p9) ''sid'' = None" "0 \<in> set (pl_slots demo_p9)"
    "\<not> sl_checkedOut (pl_heap demo_p9 ! 0)" by code_simp+
  with demo_pool_start demo_released_early show ?thesis by blast
qed

text \<open>
  \<open>NewSession\<close> that fails gives its slot back: on a pool that is not closed every error path
  (no free slot, a respawn that fails, a worker that refuses the session) leaves the same slots
  in the free channel and registers no session.
\<close>

theorem newSession_error_restores:
  assumes "pool_start s0" "pool_step\<^sup>*\<^sup>* s0 (p, A)" "\<not> pl_closed p"
    "NewSession w spawned initialized answer now p = (Inl e, p')"
  shows "mset (pl_slots p') = mset (pl_slots p) \<and> pl_sessionSlots p' = pl_sessionSlots p"
proof -
  note inv = pool_invD(1) [OF reachable_pool_inv [OF assms(1,2)]]
  have "mset (pl_slots p) \<subseteq># mset [0..<cap p]"
    using acctD(2) [OF inv] unfolding places_def fst_conv
    by (meson mset_subset_eq_add_left subset_mset.order_trans)
  from size_mset_mono [OF this] have "length (pl_slots p) \<le> cap p" by simp
  with NewSession_error [OF assms(4,3)] show ?thesis .
qed

theorem newSession_error_restores_witness:
  "mset (pl_slots (snd (NewSession ParkTimeout (Inr 7) None (Inl (ErrClient ''refused'')) 3 demo_p3))) = {#1#}"
proof -
  have "\<not> pl_closed demo_p3" "pl_slots demo_p3 = [1]"
    "NewSession ParkTimeout (Inr 7) None (Inl (ErrClient ''refused'')) 3 demo_p3 =
      (Inl (ErrClient ''refused''), snd (NewSession ParkTimeout (Inr 7) None (Inl (ErrClient ''refused'')) 3 demo_p3))"
    by code_simp+
  with newSession_error_restores [OF demo_pool_start demo_session] show ?thesis by simp
qed

text \<open>
  The exit watcher tells a planned teardown from a crash: for a slot that is being respawned,
  or whose client is already another one, the exit of the watched client changes nothing; for
  the current client of a slot that is not being respawned it marks the slot dead and the session
  map and the free channel keep it; the next \<open>NewSession\<close> that receives the slot respawns it before
  it calls the worker, so that it fails when the factory fails whatever the worker would answer.
\<close>

theorem exit_watcher_marks_crashes_only:
  assumes "i < length (pl_heap p)"
  shows "(if sl_respawning (pl_heap p ! i) \<or> sl_Client (pl_heap p ! i) \<noteq> Some k
      then exitWatcher_done i k p = p
      else \<not> slotAlive i (exitWatcher_done i k p) \<and>
        pl_slots (exitWatcher_done i k p) = pl_slots p \<and>
        pl_sessionSlots (exitWatcher_done i k p) = pl_sessionSlots p \<and>
        (\<forall>w spawned initialized answer now q. pl_slots p = i # q \<and> \<not> pl_closed p \<longrightarrow>
           fst (NewSession w (Inl spawned) initialized answer now (exitWatcher_done i k p)) = Inl spawned))"
  using assms
  by (auto simp: exitWatcher_done_def slotAlive_def upd_slot_heap NewSession_def newSession_acquire_def slots_recv_def
      newSession_admit_def respawnSlot_def Let_def upd_slot_def)

theorem exit_watcher_marks_crashes_only_witness:
  "\<not> slotAlive 1 (exitWatcher_done 1 1 demo_p3) \<and> exitWatcher_done 1 0 demo_p3 = demo_p3"
proof -
  have h: "1 < length (pl_heap demo_p3)" "\<not> sl_respawning (pl_heap demo_p3 ! 1)" "sl_Client (pl_heap demo_p3 ! 1) = Some 1"
    by code_simp+
  from exit_watcher_marks_crashes_only [OF h(1), of 1] exit_watcher_marks_crashes_only [OF h(1), of 0] h(2,3)
  show ?thesis by simp
qed

end
