(* ===== verification/ModelCatalog.thy ===== *)
theory ModelCatalog
  imports PoolSessions
begin

text \<open>
  The model catalog of the pool: the store of \<open>internal/pool/catalog.go\<close> and the refresh of
  \<open>internal/pool/catalog_refresh.go\<close>. Strings are lists of bytes. A set of identifiers (a Go
  \<open>map[string]struct{}\<close>) is a set. Admission and the run of a refresh work on the pool and
  on the fields that guard refreshes, the record \<open>catalogSys\<close>; the answer of the worker and the
  readings of the clock are arguments.
\<close>

section \<open>strings.TrimSpace\<close>

text \<open>The UTF-8 encodings of the runes for which \<open>unicode.IsSpace\<close> holds.\<close>

definition space_encodings :: "string list" where
  "space_encodings =
    [[CHR 0x09], [CHR 0x0A], [CHR 0x0B], [CHR 0x0C], [CHR 0x0D], [CHR 0x20], [CHR 0xC2, CHR 0x85],
     [CHR 0xC2, CHR 0xA0], [CHR 0xE1, CHR 0x9A, CHR 0x80], [CHR 0xE2, CHR 0x80, CHR 0x80],
     [CHR 0xE2, CHR 0x80, CHR 0x81], [CHR 0xE2, CHR 0x80, CHR 0x82], [CHR 0xE2, CHR 0x80, CHR 0x83],
     [CHR 0xE2, CHR 0x80, CHR 0x84], [CHR 0xE2, CHR 0x80, CHR 0x85], [CHR 0xE2, CHR 0x80, CHR 0x86],
     [CHR 0xE2, CHR 0x80, CHR 0x87], [CHR 0xE2, CHR 0x80, CHR 0x88], [CHR 0xE2, CHR 0x80, CHR 0x89],
     [CHR 0xE2, CHR 0x80, CHR 0x8A], [CHR 0xE2, CHR 0x80, CHR 0xA8], [CHR 0xE2, CHR 0x80, CHR 0xA9],
     [CHR 0xE2, CHR 0x80, CHR 0xAF], [CHR 0xE2, CHR 0x81, CHR 0x9F], [CHR 0xE3, CHR 0x80, CHR 0x80]]"

text \<open>Drop members of \<open>seqs\<close> from the front as long as there are any.\<close>

definition lead :: "string list \<Rightarrow> string \<Rightarrow> string option" where
  "lead seqs s = find (\<lambda>e. take (length e) s = e \<and> e \<noteq> []) seqs"

lemma lead_Some: "lead seqs s = Some e \<Longrightarrow> e \<in> set seqs \<and> e \<noteq> [] \<and> s = e @ drop (length e) s"
  unfolding lead_def find_Some_iff by (metis append_take_drop_id nth_mem)

function strip_lead :: "string list \<Rightarrow> string \<Rightarrow> string" where
  "strip_lead seqs s = (case lead seqs s of None \<Rightarrow> s | Some e \<Rightarrow> strip_lead seqs (drop (length e) s))"
  by pat_completeness auto
termination
proof (relation "measure (\<lambda>(seqs, s). length s)")
  fix seqs s e
  assume "lead seqs s = Some e"
  from lead_Some [OF this] have "0 < length e" "s = e @ drop (length e) s" by auto
  then have "length (drop (length e) s) < length s" by (metis add_less_same_cancel2 length_append less_add_same_cancel2)
  then show "((seqs, drop (length e) s), (seqs, s)) \<in> measure (\<lambda>(seqs, s). length s)" by simp
qed simp

declare strip_lead.simps [simp del]

definition TrimSpace :: "string \<Rightarrow> string" where
  "TrimSpace s = rev (strip_lead (map rev space_encodings) (rev (strip_lead space_encodings s)))"

section \<open>The store\<close>

datatype CatalogOutcome =
    CatalogStartup
  | CatalogUnchanged
  | CatalogExpanded
  | CatalogMetadataUpdated
  | CatalogPendingShrink
  | CatalogShrinkConfirmed
  | CatalogSkippedBusy
  | CatalogFailed
  | CatalogCancelled

datatype catalogErr = errInvalidCatalog | errEmptyCatalog

text \<open>\<open>ct_lastOutcome\<close> is \<open>None\<close> for the empty string of a store that saw nothing yet.\<close>

record catalogStore =
  ct_models :: "ModelInfo list"
  ct_generation :: "64 word"
  ct_interval :: int
  ct_inProgress :: bool
  ct_lastAttemptAt :: gotime
  ct_lastSuccessAt :: gotime
  ct_lastUpdatedAt :: gotime
  ct_nextAttemptAt :: gotime
  ct_lastOutcome :: "CatalogOutcome option"
  ct_pendingCandidate :: "ModelInfo list"
  ct_pendingRemovals :: nat

record CatalogRefreshResult =
  rr_Outcome :: "CatalogOutcome option"
  rr_PreviousCount :: nat
  rr_CandidateCount :: nat
  rr_PublishedCount :: nat
  rr_PendingRemovals :: nat
  rr_RetryAfter :: int

definition newCatalogStore :: "int \<Rightarrow> catalogStore" where
  "newCatalogStore interval =
     \<lparr>ct_models = [], ct_generation = 0, ct_interval = interval, ct_inProgress = False, ct_lastAttemptAt = 0,
      ct_lastSuccessAt = 0, ct_lastUpdatedAt = 0, ct_nextAttemptAt = 0, ct_lastOutcome = None,
      ct_pendingCandidate = [], ct_pendingRemovals = 0\<rparr>"

text \<open>The loop of \<open>normalizeCatalog\<close>: \<open>seen\<close> and \<open>acc\<close> are the set and the slice built so far.\<close>

fun normalize_loop :: "ModelInfo list \<Rightarrow> string set \<Rightarrow> ModelInfo list \<Rightarrow> catalogErr + ModelInfo list" where
  "normalize_loop [] seen acc = Inr acc"
| "normalize_loop (m # ms) seen acc =
     (let m1 = \<lparr>mi_ID = TrimSpace (mi_ID m), mi_Name = TrimSpace (mi_Name m)\<rparr>
      in if mi_ID m1 = [] then Inl errInvalidCatalog
         else if mi_ID m1 = ''auto'' then normalize_loop ms seen acc
         else if mi_ID m1 \<in> seen then normalize_loop ms seen acc
         else normalize_loop ms (insert (mi_ID m1) seen) (acc @ [m1]))"

definition normalizeCatalog :: "ModelInfo list \<Rightarrow> catalogErr + ModelInfo list" where
  "normalizeCatalog models =
     (case normalize_loop models {} [] of
        Inl e \<Rightarrow> Inl e
      | Inr [] \<Rightarrow> Inl errEmptyCatalog
      | Inr (m # ms) \<Rightarrow> Inr (m # ms))"

definition catalogIDs :: "ModelInfo list \<Rightarrow> string set" where
  "catalogIDs models = set (map mi_ID models)"

definition countMissing :: "string set \<Rightarrow> string set \<Rightarrow> nat" where
  "countMissing left right = card (left - right)"

definition catalogMetadataEqual :: "ModelInfo list \<Rightarrow> ModelInfo list \<Rightarrow> bool" where
  "catalogMetadataEqual published candidate =
     (if length published \<noteq> length candidate then False
      else let byID = foldl (\<lambda>b m. gm_put (mi_ID m) m b) [] published
           in list_all (\<lambda>m. gm_get byID (mi_ID m) = Some m) candidate)"

definition mergeCatalogAdditions :: "ModelInfo list \<Rightarrow> ModelInfo list \<Rightarrow> ModelInfo list" where
  "mergeCatalogAdditions published candidate =
     candidate @ filter (\<lambda>m. mi_ID m \<notin> catalogIDs candidate) published"

definition catalogSortedIDs :: "ModelInfo list \<Rightarrow> string list" where
  "catalogSortedIDs models = sort (map mi_ID models)"

definition catalogIDSetEqual :: "ModelInfo list \<Rightarrow> ModelInfo list \<Rightarrow> bool" where
  "catalogIDSetEqual left right = (catalogSortedIDs left = catalogSortedIDs right)"

definition nextCatalogAttempt :: "gotime \<Rightarrow> int \<Rightarrow> gotime" where
  "nextCatalogAttempt at interval = (if interval \<le> 0 then 0 else at + interval)"

definition publishLocked :: "ModelInfo list \<Rightarrow> gotime \<Rightarrow> catalogStore \<Rightarrow> catalogStore" where
  "publishLocked models at s =
     s\<lparr>ct_models := models, ct_generation := ct_generation s + 1, ct_lastUpdatedAt := at\<rparr>"

definition stageShrinkLocked :: "ModelInfo list \<Rightarrow> catalogStore \<Rightarrow> catalogStore" where
  "stageShrinkLocked candidate s =
     s\<lparr>ct_pendingCandidate := candidate,
        ct_pendingRemovals := countMissing (catalogIDs (ct_models s)) (catalogIDs candidate)\<rparr>"

definition clearPendingLocked :: "catalogStore \<Rightarrow> catalogStore" where
  "clearPendingLocked s = s\<lparr>ct_pendingCandidate := [], ct_pendingRemovals := 0\<rparr>"

definition resultLocked :: "CatalogOutcome \<Rightarrow> nat \<Rightarrow> nat \<Rightarrow> catalogStore \<Rightarrow> CatalogRefreshResult" where
  "resultLocked outcome previousCount candidateCount s =
     \<lparr>rr_Outcome = Some outcome, rr_PreviousCount = previousCount, rr_CandidateCount = candidateCount,
      rr_PublishedCount = length (ct_models s), rr_PendingRemovals = ct_pendingRemovals s, rr_RetryAfter = 0\<rparr>"

definition catalog_initialize :: "ModelInfo list \<Rightarrow> gotime \<Rightarrow> catalogStore \<Rightarrow> catalogStore" where
  "catalog_initialize models at s =
     (let s1 = s\<lparr>ct_lastAttemptAt := at, ct_nextAttemptAt := nextCatalogAttempt at (ct_interval s)\<rparr>
      in case normalizeCatalog models of
           Inl e \<Rightarrow> s1\<lparr>ct_lastOutcome := Some CatalogFailed\<rparr>
         | Inr candidate \<Rightarrow>
             clearPendingLocked (s1\<lparr>ct_models := candidate, ct_generation := ct_generation s1 + 1,
               ct_lastSuccessAt := at, ct_lastUpdatedAt := at, ct_lastOutcome := Some CatalogStartup\<rparr>))"

text \<open>The switch over a valid candidate: the outcome and the store.\<close>

definition reconcile_switch :: "ModelInfo list \<Rightarrow> gotime \<Rightarrow> catalogStore \<Rightarrow> CatalogOutcome \<times> catalogStore" where
  "reconcile_switch candidate completedAt s =
     (let publishedIDs = catalogIDs (ct_models s); candidateIDs = catalogIDs candidate;
          publishedMissing = countMissing publishedIDs candidateIDs;
          candidateAdditions = countMissing candidateIDs publishedIDs
      in if publishedMissing = 0 \<and> candidateAdditions = 0
         then (let s1 = clearPendingLocked s
               in if catalogMetadataEqual (ct_models s1) candidate then (CatalogUnchanged, s1)
                  else (CatalogMetadataUpdated, publishLocked candidate completedAt s1))
         else if publishedMissing = 0
         then (CatalogExpanded, publishLocked candidate completedAt (clearPendingLocked s))
         else if candidateAdditions = 0 \<and> catalogIDSetEqual (ct_pendingCandidate s) candidate
         then (CatalogShrinkConfirmed, clearPendingLocked (publishLocked candidate completedAt s))
         else (CatalogPendingShrink,
               stageShrinkLocked candidate
                 (if candidateAdditions > 0
                  then publishLocked (mergeCatalogAdditions (ct_models s) candidate) completedAt s else s)))"

definition reconcileCompleted ::
  "ModelInfo list \<Rightarrow> gotime \<Rightarrow> gotime \<Rightarrow> catalogStore \<Rightarrow> CatalogRefreshResult \<times> catalogErr option \<times> catalogStore" where
  "reconcileCompleted models attemptAt completedAt s =
     (let previousCount = length (ct_models s);
          s1 = s\<lparr>ct_lastAttemptAt := attemptAt, ct_nextAttemptAt := nextCatalogAttempt attemptAt (ct_interval s)\<rparr>
      in case normalizeCatalog models of
           Inl e \<Rightarrow>
             (let s2 = s1\<lparr>ct_lastOutcome := Some CatalogFailed\<rparr>
              in (resultLocked CatalogFailed previousCount 0 s2, Some e, s2))
         | Inr candidate \<Rightarrow>
             (let (outcome, s2) = reconcile_switch candidate completedAt (s1\<lparr>ct_lastSuccessAt := completedAt\<rparr>);
                  s3 = s2\<lparr>ct_lastOutcome := Some outcome\<rparr>
              in (resultLocked outcome previousCount (length candidate) s3, None, s3)))"

definition catalog_reconcile :: "ModelInfo list \<Rightarrow> gotime \<Rightarrow> catalogStore \<Rightarrow> CatalogRefreshResult \<times> catalogErr option \<times> catalogStore" where
  "catalog_reconcile models at s = reconcileCompleted models at at s"

definition recordRefreshOutcome :: "CatalogOutcome \<Rightarrow> gotime \<Rightarrow> catalogStore \<Rightarrow> CatalogRefreshResult \<times> catalogStore" where
  "recordRefreshOutcome outcome at s =
     (let s1 = s\<lparr>ct_lastAttemptAt := at, ct_lastOutcome := Some outcome\<rparr>
      in (resultLocked outcome (length (ct_models s1)) 0 s1, s1))"

definition setInProgress :: "bool \<Rightarrow> catalogStore \<Rightarrow> catalogStore" where
  "setInProgress b s = s\<lparr>ct_inProgress := b\<rparr>"

definition setNextAttempt :: "gotime \<Rightarrow> catalogStore \<Rightarrow> catalogStore" where
  "setNextAttempt at s = s\<lparr>ct_nextAttemptAt := at\<rparr>"

definition nextCatalogCadenceAfter :: "gotime \<Rightarrow> gotime \<Rightarrow> int \<Rightarrow> gotime" where
  "nextCatalogCadenceAfter tickAt completedAt interval =
     (if interval \<le> 0 then 0
      else let nextDeadline = tickAt + interval
           in if nextDeadline > completedAt then nextDeadline
              else nextDeadline + ((completedAt - nextDeadline) div interval + 1) * interval)"

section \<open>Refresh\<close>

datatype catalogRefreshSource = catalogRefreshLazy | catalogRefreshScheduled | catalogRefreshManual

record catalogRefreshAdmission =
  ca_source :: catalogRefreshSource
  ca_attemptAt :: gotime

datatype refreshCause =
    ErrCatalogRefreshInProgress
  | ErrCatalogRefreshBusy
  | ErrCatalogRefreshCooldown
  | ErrCatalogRefreshUnavailable
  | CauseProbe pool_err
  | CauseCatalog catalogErr

text \<open>A bare cause, or a \<open>CatalogRefreshError\<close> with its \<open>RetryAfter\<close>.\<close>

datatype refreshError = Bare refreshCause | CatalogRefreshError refreshCause int

record catalogSys =
  cy_pool :: Pool
  cy_store :: catalogStore
  cy_probing :: bool
  cy_lastManual :: gotime
  cy_nextAttempt :: gotime

definition catalogManualCooldown :: int where
  "catalogManualCooldown = 30 * 1000000000"

definition catalogBusyRetryAfter :: int where
  "catalogBusyRetryAfter = 1000000000"

definition catalogProbeTimeout :: int where
  "catalogProbeTimeout = 10 * 1000000000"

definition manualCooldownErrorLocked :: "gotime \<Rightarrow> catalogSys \<Rightarrow> refreshError option" where
  "manualCooldownErrorLocked now y =
     (if cy_lastManual y = 0 then None
      else let elapsed = now - cy_lastManual y
           in if elapsed \<ge> catalogManualCooldown then None
              else let retryAfter = catalogManualCooldown - elapsed
                   in Some (CatalogRefreshError ErrCatalogRefreshCooldown
                        (if retryAfter > catalogManualCooldown then catalogManualCooldown else retryAfter)))"

definition admitCatalogRefresh ::
  "catalogRefreshSource \<Rightarrow> gotime \<Rightarrow> catalogSys \<Rightarrow> (refreshError + catalogRefreshAdmission) \<times> catalogSys" where
  "admitCatalogRefresh source now y =
     (case (if source = catalogRefreshManual then manualCooldownErrorLocked now y else None) of
        Some e \<Rightarrow> (Inl e, y)
      | None \<Rightarrow>
          if cy_probing y then (Inl (CatalogRefreshError ErrCatalogRefreshInProgress catalogProbeTimeout), y)
          else if pl_closed (cy_pool y)
          then (Inl (CatalogRefreshError ErrCatalogRefreshUnavailable catalogBusyRetryAfter), y\<lparr>cy_probing := False\<rparr>)
          else (Inr \<lparr>ca_source = source, ca_attemptAt = now\<rparr>,
                y\<lparr>cy_probing := True,
                  cy_lastManual := (if source = catalogRefreshManual then now else cy_lastManual y),
                  cy_store := setInProgress True (cy_store y)\<rparr>))"

definition catalogRefreshTerminalError :: "catalogRefreshAdmission \<Rightarrow> refreshCause option \<Rightarrow> int \<Rightarrow> refreshError option" where
  "catalogRefreshTerminalError admission cause retryAfter =
     (case cause of
        None \<Rightarrow> None
      | Some e \<Rightarrow> if ca_source admission \<noteq> catalogRefreshManual then Some (Bare e)
                  else Some (CatalogRefreshError e retryAfter))"

definition catalogAdmissionRetryAfter :: "catalogRefreshAdmission \<Rightarrow> gotime \<Rightarrow> int" where
  "catalogAdmissionRetryAfter admission now =
     (if ca_source admission \<noteq> catalogRefreshManual then catalogBusyRetryAfter
      else let retryAfter = ca_attemptAt admission + catalogManualCooldown - now
           in if retryAfter \<le> 0 then 0
              else if retryAfter > catalogManualCooldown then catalogManualCooldown else retryAfter)"

definition reconcileCatalog ::
  "ModelInfo list \<Rightarrow> gotime \<Rightarrow> gotime \<Rightarrow> catalogSys \<Rightarrow> CatalogRefreshResult \<times> catalogErr option \<times> catalogSys" where
  "reconcileCatalog models attemptAt completedAt y =
     (let (result, err, s1) = reconcileCompleted models attemptAt completedAt (cy_store y)
      in (result, err, y\<lparr>cy_store := setNextAttempt (cy_nextAttempt y) s1\<rparr>))"

definition zero_result :: CatalogRefreshResult where
  "zero_result = \<lparr>rr_Outcome = None, rr_PreviousCount = 0, rr_CandidateCount = 0, rr_PublishedCount = 0,
     rr_PendingRemovals = 0, rr_RetryAfter = 0\<rparr>"

text \<open>The work on the received slot \<open>i\<close>, up to the deferred calls.\<close>

definition refresh_probe ::
  "catalogRefreshAdmission \<Rightarrow> (pool_err + ModelInfo list) \<Rightarrow> pool_err option \<Rightarrow> pool_err option \<Rightarrow> gotime \<Rightarrow> gotime \<Rightarrow> nat \<Rightarrow> catalogSys
     \<Rightarrow> CatalogRefreshResult \<times> refreshError option \<times> catalogSys" where
  "refresh_probe admission answer ctxErr lifecycleErr completedAt now i y =
     (let retry = catalogAdmissionRetryAfter admission now
      in if \<not> slotAlive i (cy_pool y)
         then (let (result, s1) = recordRefreshOutcome CatalogFailed (ca_attemptAt admission) (cy_store y)
               in (result\<lparr>rr_RetryAfter := retry\<rparr>,
                   catalogRefreshTerminalError admission (Some ErrCatalogRefreshUnavailable) retry, y\<lparr>cy_store := s1\<rparr>))
         else (case probeCatalogOnce i answer (cy_pool y) of
                 (Inl probeErr, p1) \<Rightarrow>
                   (let (outcome, returnedErr) = (case ctxErr of
                            Some e \<Rightarrow> (CatalogCancelled, e)
                          | None \<Rightarrow> (case lifecycleErr of Some e \<Rightarrow> (CatalogCancelled, e) | None \<Rightarrow> (CatalogFailed, probeErr)));
                        (result, s1) = recordRefreshOutcome outcome (ca_attemptAt admission) (cy_store y);
                        result1 = (if ca_source admission = catalogRefreshManual then result\<lparr>rr_RetryAfter := retry\<rparr> else result)
                    in (result1, catalogRefreshTerminalError admission (Some (CauseProbe returnedErr)) (rr_RetryAfter result1),
                        y\<lparr>cy_pool := p1, cy_store := s1\<rparr>))
               | (Inr models, p1) \<Rightarrow>
                   (let (result, err, y1) = reconcileCatalog models (ca_attemptAt admission) completedAt (y\<lparr>cy_pool := p1\<rparr>)
                    in if ca_source admission = catalogRefreshManual
                       then (result\<lparr>rr_RetryAfter := retry\<rparr>,
                             catalogRefreshTerminalError admission (map_option CauseCatalog err) retry, y1)
                       else (result, map_option (Bare \<circ> CauseCatalog) err, y1))))"

text \<open>
  The whole run: \<open>recvSlot\<close> is the non-blocking receive; the deferred calls release the slot,
  clear the progress flag and end the single flight. The recycle trigger is the one
  \<open>releaseOrRecycle\<close> launches. \<open>completedAt\<close> and \<open>now\<close> are the readings of the clock for the
  completion of the observation and for the remaining cooldown.
\<close>

definition refresh_end :: "catalogSys \<Rightarrow> catalogSys" where
  "refresh_end y = y\<lparr>cy_store := setInProgress False (cy_store y), cy_probing := False\<rparr>"

definition runCatalogRefresh ::
  "catalogRefreshAdmission \<Rightarrow> (pool_err + ModelInfo list) \<Rightarrow> pool_err option \<Rightarrow> pool_err option \<Rightarrow> gotime \<Rightarrow> gotime \<Rightarrow> catalogSys
     \<Rightarrow> CatalogRefreshResult \<times> refreshError option \<times> recycleTrigger option \<times> catalogSys" where
  "runCatalogRefresh admission answer ctxErr lifecycleErr completedAt now y =
     (case slots_recv (cy_pool y) of
        None \<Rightarrow>
          (case ca_source admission of
             catalogRefreshScheduled \<Rightarrow>
               (let (result, s1) = recordRefreshOutcome CatalogSkippedBusy (ca_attemptAt admission) (cy_store y)
                in (result, None, None, refresh_end (y\<lparr>cy_store := s1\<rparr>)))
           | catalogRefreshManual \<Rightarrow>
               (let retry = catalogAdmissionRetryAfter admission now
                in (zero_result\<lparr>rr_RetryAfter := retry\<rparr>,
                    catalogRefreshTerminalError admission (Some ErrCatalogRefreshBusy) retry, None, refresh_end y))
           | catalogRefreshLazy \<Rightarrow> (zero_result, None, None, refresh_end y))
      | Some (i, p1) \<Rightarrow>
          (let (result, err, y1) = refresh_probe admission answer ctxErr lifecycleErr completedAt now i
                 (y\<lparr>cy_pool := markSlotCheckedOut i p1\<rparr>);
               (trigger, p2) = releaseOrRecycle i (cy_pool y1)
           in (result, err, trigger, refresh_end (y1\<lparr>cy_pool := p2\<rparr>))))"

definition refreshModelCatalog ::
  "catalogRefreshSource \<Rightarrow> gotime \<Rightarrow> (pool_err + ModelInfo list) \<Rightarrow> pool_err option \<Rightarrow> pool_err option \<Rightarrow> gotime \<Rightarrow> gotime \<Rightarrow> catalogSys
     \<Rightarrow> CatalogRefreshResult \<times> refreshError option \<times> recycleTrigger option \<times> catalogSys" where
  "refreshModelCatalog source now answer ctxErr lifecycleErr completedAt retryNow y =
     (case admitCatalogRefresh source now y of
        (Inl e, y1) \<Rightarrow> (zero_result, Some e, None, y1)
      | (Inr admission, y1) \<Rightarrow> runCatalogRefresh admission answer ctxErr lifecycleErr completedAt retryNow y1)"

definition setCatalogNextAttempt :: "gotime \<Rightarrow> catalogSys \<Rightarrow> catalogSys" where
  "setCatalogNextAttempt at y = y\<lparr>cy_nextAttempt := at, cy_store := setNextAttempt at (cy_store y)\<rparr>"

text \<open>One tick of \<open>catalogRefreshLoop\<close>; the deadline is what the timer is reset to.\<close>

definition catalogRefreshTick ::
  "gotime \<Rightarrow> gotime \<Rightarrow> (pool_err + ModelInfo list) \<Rightarrow> pool_err option \<Rightarrow> gotime \<Rightarrow> gotime \<Rightarrow> gotime \<Rightarrow> catalogSys
     \<Rightarrow> gotime \<times> recycleTrigger option \<times> catalogSys" where
  "catalogRefreshTick tickAt now answer lifecycleErr observedAt retryNow completedAt y =
     (let (result, err, trigger, y1) = refreshModelCatalog catalogRefreshScheduled now answer None lifecycleErr observedAt retryNow y;
          nextDeadline = nextCatalogCadenceAfter tickAt completedAt (ct_interval (cy_store y1))
      in (nextDeadline, trigger, setCatalogNextAttempt nextDeadline y1))"

text \<open>\<open>Models\<close>: the published catalog, and the admission of a lazy probe when it is empty.\<close>

definition Models :: "gotime \<Rightarrow> catalogSys \<Rightarrow> ModelInfo list \<times> catalogRefreshAdmission option \<times> catalogSys" where
  "Models now y =
     (let models = ct_models (cy_store y)
      in if models = []
         then (case admitCatalogRefresh catalogRefreshLazy now y of
                 (Inl e, y1) \<Rightarrow> (models, None, y1)
               | (Inr admission, y1) \<Rightarrow> (models, Some admission, y1))
         else (models, None, y))"

end
