(* ===== verification/ModelCatalogProps.thy ===== *)
theory ModelCatalogProps
  imports ModelCatalog
begin

text \<open>
  The properties of the model catalog: a removal is published only when two successive valid
  observations agree on it, additions are published at once, and refreshes are single-flight and
  rate-limited.
\<close>

section \<open>TrimSpace\<close>

lemma strip_lead_None: "lead seqs s = None \<Longrightarrow> strip_lead seqs s = s"
  by (simp add: strip_lead.simps)

lemma strip_lead_fixed: "lead seqs (strip_lead seqs s) = None"
proof (induction seqs s rule: strip_lead.induct)
  case (1 seqs s)
  then show ?case by (cases "lead seqs s") (simp_all add: strip_lead.simps [of seqs s])
qed

lemma strip_lead_suffix: "\<exists>t. s = t @ strip_lead seqs s"
proof (induction seqs s rule: strip_lead.induct)
  case (1 seqs s)
  show ?case
  proof (cases "lead seqs s")
    case None
    then show ?thesis by (simp add: strip_lead_None)
  next
    case (Some e)
    with 1 obtain t where "drop (length e) s = t @ strip_lead seqs (drop (length e) s)" by blast
    with lead_Some [OF Some] have "s = (e @ t) @ strip_lead seqs (drop (length e) s)" by (metis append_assoc)
    then show ?thesis using Some by (metis option.simps(5) strip_lead.simps)
  qed
qed

lemma lead_append: "lead seqs (s @ t) = None \<Longrightarrow> lead seqs s = None"
  unfolding lead_def find_None_iff by (metis append_eq_conv_conj append_assoc append_take_drop_id)

lemma TrimSpace_idem: "TrimSpace (TrimSpace s) = TrimSpace s"
proof -
  let ?a = "strip_lead space_encodings s" and ?E = "map rev space_encodings"
  let ?b = "strip_lead ?E (rev ?a)"
  obtain t where "rev ?a = t @ ?b" using strip_lead_suffix by blast
  then have "?a = rev ?b @ rev t" by (metis rev_append rev_rev_ident)
  with strip_lead_fixed have "lead space_encodings (rev ?b) = None" by (metis lead_append)
  then have "strip_lead space_encodings (rev ?b) = rev ?b" by (rule strip_lead_None)
  moreover have "strip_lead ?E ?b = ?b" by (rule strip_lead_None, rule strip_lead_fixed)
  ultimately show ?thesis by (simp add: TrimSpace_def)
qed

section \<open>Normalized catalogs\<close>

definition catalog_ok :: "ModelInfo list \<Rightarrow> bool" where
  "catalog_ok ms \<longleftrightarrow> distinct (map mi_ID ms) \<and>
     (\<forall>m \<in> set ms. mi_ID m \<noteq> [] \<and> mi_ID m \<noteq> ''auto'' \<and> TrimSpace (mi_ID m) = mi_ID m \<and> TrimSpace (mi_Name m) = mi_Name m)"

lemma normalize_loop_ok:
  "normalize_loop ms seen acc = Inr r \<Longrightarrow> catalog_ok acc \<Longrightarrow> seen = catalogIDs acc \<Longrightarrow> catalog_ok r"
proof (induction ms seen acc rule: normalize_loop.induct)
  case (2 m ms seen acc)
  let ?m1 = "\<lparr>mi_ID = TrimSpace (mi_ID m), mi_Name = TrimSpace (mi_Name m)\<rparr>"
  consider "mi_ID ?m1 = ''auto'' \<or> mi_ID ?m1 \<in> seen" | "mi_ID ?m1 \<noteq> []" "mi_ID ?m1 \<noteq> ''auto''" "mi_ID ?m1 \<notin> seen"
    using 2 by (auto simp: Let_def split: if_splits)
  then show ?case
  proof cases
    case 1
    with 2 show ?thesis by (auto simp: Let_def split: if_splits)
  next
    case new: 2
    have "catalog_ok (acc @ [?m1])" "insert (mi_ID ?m1) seen = catalogIDs (acc @ [?m1])"
      using "2.prems"(2,3) new by (auto simp: catalog_ok_def catalogIDs_def TrimSpace_idem)
    with 2 new show ?thesis by (simp add: Let_def)
  qed
qed auto

lemma normalizeCatalog_ok: "normalizeCatalog ms = Inr c \<Longrightarrow> catalog_ok c \<and> c \<noteq> []"
  using normalize_loop_ok [of ms "{}" "[]"]
  by (auto simp: normalizeCatalog_def catalog_ok_def catalogIDs_def split: sum.splits list.splits)

lemma normalize_loop_ids:
  "normalize_loop ms seen acc = Inr r \<Longrightarrow> seen = catalogIDs acc \<Longrightarrow>
     catalogIDs r = catalogIDs acc \<union> (TrimSpace ` mi_ID ` set ms - {''auto''})"
proof (induction ms seen acc rule: normalize_loop.induct)
  case (2 m ms seen acc)
  then show ?case by (auto simp: Let_def catalogIDs_def split: if_splits)
qed (auto simp: catalogIDs_def)

lemma normalize_loop_err: "normalize_loop ms seen acc = Inl e \<Longrightarrow> e = errInvalidCatalog \<and> [] \<in> TrimSpace ` mi_ID ` set ms"
  by (induction ms seen acc rule: normalize_loop.induct) (auto simp: Let_def split: if_splits)

lemma normalize_loop_blank: "[] \<in> TrimSpace ` mi_ID ` set ms \<Longrightarrow> normalize_loop ms seen acc = Inl errInvalidCatalog"
  by (induction ms seen acc rule: normalize_loop.induct) (auto simp: Let_def)

lemma idset_equal:
  assumes "catalogIDSetEqual l r"
  shows "catalogIDs l = catalogIDs r"
  using assms unfolding catalogIDSetEqual_def catalogSortedIDs_def catalogIDs_def by (metis set_sort)

lemma idset_equal_refl [simp]: "catalogIDSetEqual c c"
  by (simp add: catalogIDSetEqual_def)

lemma finite_ids [simp]: "finite (catalogIDs ms)"
  by (simp add: catalogIDs_def)

lemma missing_zero: "finite A \<Longrightarrow> countMissing A B = 0 \<longleftrightarrow> A \<subseteq> B"
  by (auto simp: countMissing_def)

lemma missing_pos: "finite A \<Longrightarrow> 0 < countMissing A B \<longleftrightarrow> \<not> A \<subseteq> B"
  by (metis missing_zero neq0_conv)

lemma merge_ids [simp]: "catalogIDs (mergeCatalogAdditions p c) = catalogIDs p \<union> catalogIDs c"
  by (auto simp: mergeCatalogAdditions_def catalogIDs_def)

lemma merge_ok: "catalog_ok p \<Longrightarrow> catalog_ok c \<Longrightarrow> catalog_ok (mergeCatalogAdditions p c)"
  by (auto simp: catalog_ok_def mergeCatalogAdditions_def catalogIDs_def distinct_map_filter) (metis imageI)

section \<open>The invariant of the store\<close>

definition catalog_inv :: "catalogStore \<Rightarrow> bool" where
  "catalog_inv s \<longleftrightarrow> catalog_ok (ct_models s) \<and> catalog_ok (ct_pendingCandidate s) \<and>
     ct_pendingRemovals s = (if ct_pendingCandidate s = [] then 0
        else countMissing (catalogIDs (ct_models s)) (catalogIDs (ct_pendingCandidate s))) \<and>
     (ct_pendingCandidate s \<noteq> [] \<longrightarrow> catalogIDs (ct_pendingCandidate s) \<subset> catalogIDs (ct_models s))"

text \<open>The switch, by its cases.\<close>

lemma reconcile_switch_cases:
  assumes "reconcile_switch c at s = (out, s')"
  obtains (same) "catalogIDs (ct_models s) = catalogIDs c" "ct_pendingCandidate s' = []" "ct_pendingRemovals s' = 0"
      "ct_models s' = ct_models s \<or> ct_models s' = c"
  | (expanded) "out = CatalogExpanded" "catalogIDs (ct_models s) \<subset> catalogIDs c" "ct_pendingCandidate s' = []"
      "ct_pendingRemovals s' = 0" "ct_models s' = c"
  | (confirmed) "out = CatalogShrinkConfirmed" "catalogIDs c \<subset> catalogIDs (ct_models s)"
      "catalogIDSetEqual (ct_pendingCandidate s) c"
      "ct_models s' = c" "ct_pendingCandidate s' = []" "ct_pendingRemovals s' = 0"
  | (staged) "out = CatalogPendingShrink" "\<not> catalogIDs (ct_models s) \<subseteq> catalogIDs c"
      "catalogIDs (ct_models s') = catalogIDs (ct_models s) \<union> catalogIDs c"
      "ct_models s' = ct_models s \<or> ct_models s' = mergeCatalogAdditions (ct_models s) c"
      "ct_pendingCandidate s' = c" "ct_pendingRemovals s' = countMissing (catalogIDs (ct_models s')) (catalogIDs c)"
      "\<not> (catalogIDs c \<subseteq> catalogIDs (ct_models s) \<and> catalogIDSetEqual (ct_pendingCandidate s) c)"
proof -
  let ?P = "catalogIDs (ct_models s)" and ?C = "catalogIDs c"
  note defs = reconcile_switch_def Let_def clearPendingLocked_def publishLocked_def stageShrinkLocked_def missing_zero missing_pos
  consider "?P = ?C" | "?P \<subset> ?C" | "\<not> ?P \<subseteq> ?C" "?C \<subseteq> ?P" "catalogIDSetEqual (ct_pendingCandidate s) c"
    | "\<not> ?P \<subseteq> ?C" "\<not> (?C \<subseteq> ?P \<and> catalogIDSetEqual (ct_pendingCandidate s) c)" by blast
  then show thesis
  proof cases
    case 1
    with assms show ?thesis by (intro same) (auto simp: defs split: if_splits)
  next
    case 2
    with assms show ?thesis by (intro expanded) (auto simp: defs split: if_splits)
  next
    case 3
    with assms show ?thesis by (intro confirmed) (auto simp: defs split: if_splits)
  next
    case 4
    with assms show ?thesis by (intro staged) (auto simp: defs split: if_splits)
  qed
qed

text \<open>One completed observation.\<close>

definition observe :: "ModelInfo list \<times> gotime \<times> gotime \<Rightarrow> catalogStore \<Rightarrow> catalogStore" where
  "observe ob s = (case ob of (models, attemptAt, completedAt) \<Rightarrow> snd (snd (reconcileCompleted models attemptAt completedAt s)))"

lemma observe_invalid:
  assumes "normalizeCatalog ms = Inl e"
  shows "ct_models (observe (ms, a, t) s) = ct_models s" "ct_pendingCandidate (observe (ms, a, t) s) = ct_pendingCandidate s"
    "ct_pendingRemovals (observe (ms, a, t) s) = ct_pendingRemovals s" "ct_generation (observe (ms, a, t) s) = ct_generation s"
  using assms by (simp_all add: observe_def reconcileCompleted_def Let_def)

lemma observe_valid:
  assumes "normalizeCatalog ms = Inr c"
  obtains out s0 s' where "reconcile_switch c t s0 = (out, s')" "ct_models s0 = ct_models s"
    "ct_pendingCandidate s0 = ct_pendingCandidate s" "observe (ms, a, t) s = s'\<lparr>ct_lastOutcome := Some out\<rparr>"
proof -
  let ?s0 = "s\<lparr>ct_lastAttemptAt := a, ct_nextAttemptAt := nextCatalogAttempt a (ct_interval s), ct_lastSuccessAt := t\<rparr>"
  obtain out s' where sw: "reconcile_switch c t ?s0 = (out, s')" by fastforce
  show thesis
    by (rule that [OF sw]) (use assms sw in \<open>simp_all add: observe_def reconcileCompleted_def Let_def\<close>)
qed

lemma observe_inv:
  assumes "catalog_inv s"
  shows "catalog_inv (observe ob s)"
proof -
  obtain ms a t where ob: "ob = (ms, a, t)" by (cases ob)
  show ?thesis
  proof (cases "normalizeCatalog ms")
    case (Inl e)
    with assms show ?thesis by (simp add: ob catalog_inv_def observe_invalid)
  next
    case (Inr c)
    note c = normalizeCatalog_ok [OF Inr]
    have e: "catalog_ok []" by (simp add: catalog_ok_def)
    obtain out s0 s' where sw: "reconcile_switch c t s0 = (out, s')" and s0: "ct_models s0 = ct_models s"
      "ct_pendingCandidate s0 = ct_pendingCandidate s" and obs: "observe (ms, a, t) s = s'\<lparr>ct_lastOutcome := Some out\<rparr>"
      by (rule observe_valid [OF Inr])
    have ok: "catalog_ok (ct_models s0)" using assms s0 by (simp add: catalog_inv_def)
    from sw show ?thesis
    proof (cases rule: reconcile_switch_cases)
      case staged
      then show ?thesis unfolding ob obs using c ok merge_ok by (auto simp: catalog_inv_def)
    qed (use c ok e in \<open>auto simp: ob obs catalog_inv_def\<close>)
  qed
qed

text \<open>After a valid observation either nothing is pending or the observation is.\<close>

lemma observe_pending:
  assumes "normalizeCatalog ms = Inr c"
  shows "ct_pendingCandidate (observe (ms, a, t) s) \<in> {[], c} \<and> catalogIDs c \<subseteq> catalogIDs (ct_models (observe (ms, a, t) s))"
proof -
  obtain out s0 s' where sw: "reconcile_switch c t s0 = (out, s')"
    and obs: "observe (ms, a, t) s = s'\<lparr>ct_lastOutcome := Some out\<rparr>"
    by (rule observe_valid [OF assms])
  from sw show ?thesis by (cases rule: reconcile_switch_cases) (auto simp: obs)
qed

text \<open>The valid observations of a history, normalized, oldest first.\<close>

definition valid_observations :: "(ModelInfo list \<times> gotime \<times> gotime) list \<Rightarrow> ModelInfo list list" where
  "valid_observations obs =
     List.map_filter (\<lambda>(ms, a, t). case normalizeCatalog ms of Inl e \<Rightarrow> None | Inr c \<Rightarrow> Some c) obs"

definition catalog_boot :: "ModelInfo list \<Rightarrow> gotime \<Rightarrow> int \<Rightarrow> catalogStore" where
  "catalog_boot ms at interval = catalog_initialize ms at (newCatalogStore interval)"

definition catalog_after :: "ModelInfo list \<Rightarrow> gotime \<Rightarrow> int \<Rightarrow> (ModelInfo list \<times> gotime \<times> gotime) list \<Rightarrow> catalogStore" where
  "catalog_after ms at interval obs = fold observe obs (catalog_boot ms at interval)"

lemma boot_catalog_inv: "catalog_inv (catalog_boot ms at iv)" "ct_pendingCandidate (catalog_boot ms at iv) = []"
  using normalizeCatalog_ok
  by (auto simp: catalog_boot_def catalog_initialize_def newCatalogStore_def catalog_inv_def catalog_ok_def
      clearPendingLocked_def Let_def split: sum.splits)

lemma after_inv: "catalog_inv (catalog_after ms at iv obs)"
  unfolding catalog_after_def
  by (induction obs rule: rev_induct) (simp_all add: boot_catalog_inv observe_inv)

lemma after_pending:
  "ct_pendingCandidate (catalog_after ms at iv obs) \<noteq> [] \<Longrightarrow>
     valid_observations obs \<noteq> [] \<and> ct_pendingCandidate (catalog_after ms at iv obs) = last (valid_observations obs)"
proof (induction obs rule: rev_induct)
  case Nil
  then show ?case by (simp add: catalog_after_def boot_catalog_inv)
next
  case (snoc ob obs)
  obtain m a t where ob: "ob = (m, a, t)" by (cases ob)
  have after: "catalog_after ms at iv (obs @ [ob]) = observe (m, a, t) (catalog_after ms at iv obs)"
    by (simp add: catalog_after_def ob)
  show ?case
  proof (cases "normalizeCatalog m")
    case (Inl e)
    have v: "valid_observations (obs @ [ob]) = valid_observations obs"
      using Inl by (simp add: valid_observations_def ob List.map_filter_def)
    from snoc.prems have "ct_pendingCandidate (catalog_after ms at iv obs) \<noteq> []"
      unfolding after observe_invalid(2) [OF Inl] .
    from snoc.IH [OF this] show ?thesis unfolding after observe_invalid(2) [OF Inl] v .
  next
    case (Inr c)
    have "valid_observations (obs @ [ob]) = valid_observations obs @ [c]"
      using Inr by (simp add: valid_observations_def ob List.map_filter_def)
    with snoc.prems observe_pending [OF Inr, of a t "catalog_after ms at iv obs"] show ?thesis
      unfolding after by auto
  qed
qed

section \<open>Refreshes\<close>

lemma refresh_probe_manual: "refresh_probe ad an ce le t n i y = (r, e, y') \<Longrightarrow> cy_lastManual y' = cy_lastManual y"
  by (auto simp: refresh_probe_def reconcileCatalog_def Let_def split: if_splits prod.splits sum.splits)

lemma run_manual: "cy_lastManual (snd (snd (snd (runCatalogRefresh ad an ce le t n y)))) = cy_lastManual y"
proof (cases "slots_recv (cy_pool y)")
  case None
  then show ?thesis
    by (simp add: runCatalogRefresh_def refresh_end_def Let_def split: catalogRefreshSource.split prod.split)
next
  case (Some ip)
  obtain i p1 where ip: "ip = (i, p1)" by fastforce
  let ?y = "y\<lparr>cy_pool := markSlotCheckedOut i p1\<rparr>"
  obtain r e y1 where p: "refresh_probe ad an ce le t n i ?y = (r, e, y1)" by (metis prod_cases3)
  from refresh_probe_manual [OF this] show ?thesis
    using Some ip p by (simp add: runCatalogRefresh_def refresh_end_def split: prod.split)
qed

text \<open>
  The sections of concurrent refreshes: an admission, which is one section under the manual
  lock, and the run of the admitted refresh up to its deferred calls. Between them the pool may
  change in any way. The second component is the refresh in flight, the third the clock
  readings of the manual refreshes that were admitted, in order.
\<close>

inductive refresh_step ::
  "catalogSys \<times> catalogRefreshAdmission option \<times> gotime list \<Rightarrow>
   catalogSys \<times> catalogRefreshAdmission option \<times> gotime list \<Rightarrow> bool" where
  step_admit: "0 < now \<Longrightarrow> admitCatalogRefresh source now y = (Inr ad, y') \<Longrightarrow>
    refresh_step (y, c, log) (y', Some ad, if source = catalogRefreshManual then log @ [now] else log)"
| step_refuse: "0 < now \<Longrightarrow> admitCatalogRefresh source now y = (Inl e, y') \<Longrightarrow>
    refresh_step (y, c, log) (y', c, log)"
| step_run: "runCatalogRefresh ad answer ctxErr lifecycleErr completedAt now y = (result, err, trigger, y') \<Longrightarrow>
    refresh_step (y, Some ad, log) (y', None, log)"
| step_pool: "refresh_step (y, c, log) (y\<lparr>cy_pool := p\<rparr>, c, log)"

lemma run_step:
  "refresh_step (y, Some ad, log)
     (snd (snd (snd (runCatalogRefresh ad answer ctxErr lifecycleErr completedAt now y))), None, log)"
  by (cases "runCatalogRefresh ad answer ctxErr lifecycleErr completedAt now y") (auto intro: step_run)

definition refresh_start :: "catalogSys \<times> catalogRefreshAdmission option \<times> gotime list \<Rightarrow> bool" where
  "refresh_start = (\<lambda>(y, c, log). \<not> cy_probing y \<and> cy_lastManual y = 0 \<and> c = None \<and> log = [])"

definition refresh_inv :: "catalogSys \<times> catalogRefreshAdmission option \<times> gotime list \<Rightarrow> bool" where
  "refresh_inv = (\<lambda>(y, c, log). cy_probing y = (c \<noteq> None) \<and>
     sorted_wrt (\<lambda>a b. a + catalogManualCooldown \<le> b) log \<and> (\<forall>a \<in> set log. 0 < a \<and> a \<le> cy_lastManual y) \<and>
     cy_lastManual y = (if log = [] then 0 else last log))"

lemma admit_cases:
  assumes "admitCatalogRefresh source now y = (r, y')"
  obtains (refused) e where "r = Inl e" "cy_probing y' = cy_probing y" "cy_lastManual y' = cy_lastManual y"
  | (admitted) "r = Inr \<lparr>ca_source = source, ca_attemptAt = now\<rparr>" "\<not> cy_probing y" "cy_probing y'"
      "cy_lastManual y' = (if source = catalogRefreshManual then now else cy_lastManual y)"
      "source = catalogRefreshManual \<Longrightarrow> manualCooldownErrorLocked now y = None"
  using assms by (auto simp: admitCatalogRefresh_def split: option.splits if_splits)

lemma cooldown_over:
  "manualCooldownErrorLocked now y = None \<Longrightarrow> cy_lastManual y \<noteq> 0 \<Longrightarrow>
     cy_lastManual y + catalogManualCooldown \<le> now"
  by (auto simp: manualCooldownErrorLocked_def Let_def split: if_splits)

lemma run_probing: "\<not> cy_probing (snd (snd (snd (runCatalogRefresh ad an ce le t n y))))"
  by (simp add: runCatalogRefresh_def refresh_end_def Let_def split: catalogRefreshSource.split prod.split option.split)

lemma refresh_step_inv:
  assumes "refresh_inv x" "refresh_step x x'"
  shows "refresh_inv x'"
  using assms(2)
proof cases
  case (step_admit now source y ad y' c log)
  from step_admit(4) show ?thesis
  proof (cases rule: admit_cases)
    case admitted
    show ?thesis
    proof (cases "source = catalogRefreshManual")
      case False
      with assms(1) admitted step_admit show ?thesis by (auto simp: refresh_inv_def)
    next
      case True
      have gap: "a + catalogManualCooldown \<le> now" if "a \<in> set log" for a
        using cooldown_over [OF admitted(5) [OF True]] assms(1) step_admit(1) that by (force simp: refresh_inv_def)
      then have "a \<le> now" if "a \<in> set log" for a
        using that by (force simp: catalogManualCooldown_def)
      with gap True assms(1) admitted step_admit show ?thesis
        by (auto simp: refresh_inv_def sorted_wrt_append)
    qed
  qed simp
next
  case (step_refuse now source y e y' c log)
  from step_refuse(4) show ?thesis
    by (cases rule: admit_cases) (use assms(1) step_refuse in \<open>auto simp: refresh_inv_def\<close>)
next
  case (step_run ad answer ctxErr lifecycleErr completedAt now y result err trigger y' log)
  with run_manual [of ad answer ctxErr lifecycleErr completedAt now y]
    run_probing [of ad answer ctxErr lifecycleErr completedAt now y] assms(1)
  show ?thesis by (cases "log = []") (auto simp: refresh_inv_def)
next
  case step_pool
  with assms(1) show ?thesis by (auto simp: refresh_inv_def)
qed

interpretation refresh_sys: invariant_system refresh_start refresh_step refresh_inv
proof unfold_locales
  show "refresh_start x \<Longrightarrow> refresh_inv x" for x by (auto simp: refresh_start_def refresh_inv_def)
qed (rule refresh_step_inv)

section \<open>Properties\<close>

definition demo_model :: "string \<Rightarrow> ModelInfo" where "demo_model s = \<lparr>mi_ID = s, mi_Name = s\<rparr>"

text \<open>
  C11. A model disappears from the published catalog only after two observations agree. Whatever
  the workers report, in whatever order, if a published identifier is gone after an observation
  then that observation is valid and lacks it, the valid observation before it had exactly the
  same set of identifiers, and the catalog that is published is the confirming one. Invalid
  observations in between do not count.
\<close>

theorem catalog_removal_confirmed:
  assumes "m \<in> catalogIDs (ct_models (catalog_after boot at interval obs))"
    "m \<notin> catalogIDs (ct_models (observe (ms, a, t) (catalog_after boot at interval obs)))"
  shows "\<exists>c. normalizeCatalog ms = Inr c \<and> m \<notin> catalogIDs c \<and> valid_observations obs \<noteq> [] \<and>
    catalogIDs (last (valid_observations obs)) = catalogIDs c \<and>
    ct_models (observe (ms, a, t) (catalog_after boot at interval obs)) = c"
proof (cases "normalizeCatalog ms")
  case (Inl e)
  with assms observe_invalid(1) [OF Inl, of a t "catalog_after boot at interval obs"] show ?thesis by simp
next
  case (Inr c)
  let ?s = "catalog_after boot at interval obs"
  obtain out s0 s' where sw: "reconcile_switch c t s0 = (out, s')" and s0: "ct_models s0 = ct_models ?s"
    "ct_pendingCandidate s0 = ct_pendingCandidate ?s" and obs: "observe (ms, a, t) ?s = s'\<lparr>ct_lastOutcome := Some out\<rparr>"
    by (rule observe_valid [OF Inr])
  from sw show ?thesis
  proof (cases rule: reconcile_switch_cases)
    case confirmed
    have "catalogIDs c \<noteq> {}" using normalizeCatalog_ok [OF Inr] by (simp add: catalogIDs_def)
    with idset_equal [OF confirmed(3)] have "ct_pendingCandidate ?s \<noteq> []" by (auto simp: s0 catalogIDs_def)
    from after_pending [OF this] idset_equal [OF confirmed(3)] assms(2) confirmed(4) Inr obs
    show ?thesis by (simp add: s0)
  qed (use assms s0 obs in auto)
qed

theorem catalog_removal_confirmed_witness:
  "\<exists>c. normalizeCatalog [demo_model ''a''] = Inr c \<and> ''b'' \<notin> catalogIDs c \<and>
     valid_observations [([demo_model '' a ''], 2, 3), ([], 4, 5)] \<noteq> [] \<and>
     catalogIDs (last (valid_observations [([demo_model '' a ''], 2, 3), ([], 4, 5)])) = catalogIDs c \<and>
     ct_models (observe ([demo_model ''a''], 6, 7)
       (catalog_after [demo_model ''a'', demo_model ''b''] 1 10 [([demo_model '' a ''], 2, 3), ([], 4, 5)])) = c"
proof (rule catalog_removal_confirmed)
  show "''b'' \<in> catalogIDs (ct_models (catalog_after [demo_model ''a'', demo_model ''b''] 1 10
      [([demo_model '' a ''], 2, 3), ([], 4, 5)]))" by code_simp
  show "''b'' \<notin> catalogIDs (ct_models (observe ([demo_model ''a''], 6, 7)
      (catalog_after [demo_model ''a'', demo_model ''b''] 1 10 [([demo_model '' a ''], 2, 3), ([], 4, 5)])))" by code_simp
qed

text \<open>
  The published catalog follows the workers: after any valid observation every identifier it
  has is published at once, and a catalog that is observed twice in a row is published exactly,
  whatever was published before.
\<close>

theorem catalog_follows_workers:
  assumes "normalizeCatalog ms = Inr c"
  shows "catalogIDs c \<subseteq> catalogIDs (ct_models (observe (ms, a, t) s)) \<and>
    catalogIDs (ct_models (observe (ms, a', t') (observe (ms, a, t) s))) = catalogIDs c"
proof -
  let ?s1 = "observe (ms, a, t) s"
  note first = observe_pending [OF assms, of a t s]
  obtain o1 s0 s' where sw1: "reconcile_switch c t s0 = (o1, s')" and obs1: "?s1 = s'\<lparr>ct_lastOutcome := Some o1\<rparr>"
    by (rule observe_valid [OF assms])
  obtain o2 s0' s'' where sw2: "reconcile_switch c t' s0' = (o2, s'')" and s0': "ct_models s0' = ct_models ?s1"
    "ct_pendingCandidate s0' = ct_pendingCandidate ?s1"
    and obs2: "observe (ms, a', t') ?s1 = s''\<lparr>ct_lastOutcome := Some o2\<rparr>"
    by (rule observe_valid [OF assms])
  have pend: "catalogIDs (ct_models ?s1) = catalogIDs c \<or> ct_pendingCandidate ?s1 = c"
    unfolding obs1 using sw1
  proof (cases rule: reconcile_switch_cases)
    case same
    from same(4) show "catalogIDs (ct_models (s'\<lparr>ct_lastOutcome := Some o1\<rparr>)) = catalogIDs c \<or>
        ct_pendingCandidate (s'\<lparr>ct_lastOutcome := Some o1\<rparr>) = c" using same(1) by (elim disjE) simp_all
  qed simp_all
  from sw2 have "catalogIDs (ct_models (observe (ms, a', t') ?s1)) = catalogIDs c"
  proof (cases rule: reconcile_switch_cases)
    case same
    from same(4) show ?thesis using same(1) unfolding obs2 by (elim disjE) simp_all
  next
    case staged
    from pend show ?thesis
    proof
      assume "catalogIDs (ct_models ?s1) = catalogIDs c"
      with staged(2) s0'(1) show ?thesis by simp
    next
      assume "ct_pendingCandidate ?s1 = c"
      with staged(7) first s0' show ?thesis by simp
    qed
  qed (simp_all add: obs2)
  with first show ?thesis by blast
qed

theorem catalog_follows_workers_witness:
  "catalogIDs (ct_models (observe ([demo_model ''x''], 4, 5) (observe ([demo_model ''x''], 2, 3)
     (catalog_boot [demo_model ''a'', demo_model ''b''] 1 10)))) = catalogIDs [demo_model ''x'']"
proof -
  have "normalizeCatalog [demo_model ''x''] = Inr [demo_model ''x'']" by code_simp
  from catalog_follows_workers [OF this, of 2 3 "catalog_boot [demo_model ''a'', demo_model ''b''] 1 10" 4 5]
  show ?thesis by simp
qed

text \<open>
  \<open>normalizeCatalog\<close> on every branch: it fails with \<open>errInvalidCatalog\<close> exactly when some
  identifier is blank after trimming, with \<open>errEmptyCatalog\<close> exactly when otherwise only
  \<open>auto\<close> is left, and else its result has each trimmed identifier other than \<open>auto\<close> once,
  with trimmed names.
\<close>

theorem normalizeCatalog_spec:
  "case normalizeCatalog ms of
     Inl errInvalidCatalog \<Rightarrow> [] \<in> TrimSpace ` mi_ID ` set ms
   | Inl errEmptyCatalog \<Rightarrow> [] \<notin> TrimSpace ` mi_ID ` set ms \<and> TrimSpace ` mi_ID ` set ms \<subseteq> {''auto''}
   | Inr c \<Rightarrow> [] \<notin> TrimSpace ` mi_ID ` set ms \<and> distinct (map mi_ID c) \<and>
       catalogIDs c = TrimSpace ` mi_ID ` set ms - {''auto''} \<and> catalogIDs c \<noteq> {} \<and>
       list_all (\<lambda>m. TrimSpace (mi_ID m) = mi_ID m \<and> TrimSpace (mi_Name m) = mi_Name m) c"
proof (cases "normalize_loop ms {} []")
  case (Inl e)
  with normalize_loop_err [OF Inl] show ?thesis by (simp add: normalizeCatalog_def)
next
  case (Inr r)
  have nb: "[] \<notin> TrimSpace ` mi_ID ` set ms"
  proof
    assume "[] \<in> TrimSpace ` mi_ID ` set ms"
    from normalize_loop_blank [OF this, of "{}" "[]"] Inr show False by simp
  qed
  have ids: "catalogIDs r = TrimSpace ` mi_ID ` set ms - {''auto''}"
    using normalize_loop_ids [OF Inr] by (simp add: catalogIDs_def)
  show ?thesis
  proof (cases r)
    case Nil
    then have "normalizeCatalog ms = Inl errEmptyCatalog" using Inr by (simp add: normalizeCatalog_def)
    moreover have "TrimSpace ` mi_ID ` set ms \<subseteq> {''auto''}" using ids Nil by (auto simp: catalogIDs_def)
    ultimately show ?thesis using nb by simp
  next
    case (Cons x xs)
    then have c: "normalizeCatalog ms = Inr r" using Inr by (simp add: normalizeCatalog_def)
    from normalizeCatalog_ok [OF c] have "distinct (map mi_ID r)" "catalogIDs r \<noteq> {}"
      "list_all (\<lambda>m. TrimSpace (mi_ID m) = mi_ID m \<and> TrimSpace (mi_Name m) = mi_Name m) r"
      by (auto simp: catalog_ok_def catalogIDs_def list_all_iff)
    with c nb ids show ?thesis by simp
  qed
qed

text \<open>
  C12. Manual refreshes are rate-limited and single-flight. In every interleaving of admissions
  (manual, scheduled, lazy), of the runs they admit and of pool activity, with any answers of
  the workers and any clock, the manual refreshes that were admitted are at least 30 seconds
  apart; while a refresh is in flight every admission is refused. A refusal for the cooldown
  carries a delay between one nanosecond and 30 seconds, and when the clock has not gone
  backwards the cooldown is over after that delay.
\<close>

theorem manual_refresh_cooldown:
  assumes "refresh_start x0" "refresh_step\<^sup>*\<^sup>* x0 (y, c, log)"
  shows "sorted_wrt (\<lambda>a b. a + 30 * 1000000000 \<le> b) log \<and>
    (c \<noteq> None \<longrightarrow> (\<forall>source now. \<exists>e. fst (admitCatalogRefresh source now y) = Inl e)) \<and>
    (manualCooldownErrorLocked t y = Some (CatalogRefreshError k d) \<longrightarrow> 0 < d \<and> d \<le> 30 * 1000000000 \<and>
      (cy_lastManual y \<le> t \<longrightarrow> manualCooldownErrorLocked (t + d) y = None))"
proof -
  have inv: "refresh_inv (y, c, log)" using assms by (rule refresh_sys.reachable_inv)
  then have "sorted_wrt (\<lambda>a b. a + 30 * 1000000000 \<le> b) log"
    by (simp add: refresh_inv_def catalogManualCooldown_def)
  moreover have "\<exists>e. fst (admitCatalogRefresh source now y) = Inl e" if "c \<noteq> None" for source now
  proof (cases "admitCatalogRefresh source now y")
    case (Pair r y')
    then show ?thesis
    proof (cases rule: admit_cases)
      case admitted
      with that inv show ?thesis by (simp add: refresh_inv_def)
    qed (simp add: Pair)
  qed
  ultimately show ?thesis
    by (auto simp: manualCooldownErrorLocked_def catalogManualCooldown_def Let_def split: if_splits)
qed

definition demo_sys :: catalogSys where
  "demo_sys = \<lparr>cy_pool = pool_New None \<lparr>pc_Size = 1, pc_AcquireTimeout = 0, pc_PingInterval = 10, pc_MaxWorkerTurns = 0,
       pc_IdleRecycleAfter = 0, pc_IdleRecycleMemoryBytes = 0, pc_WorkerMemorySupported = False\<rparr>,
     cy_store = newCatalogStore 0, cy_probing = False, cy_lastManual = 0, cy_nextAttempt = 0\<rparr>"

definition demo_admit :: "gotime \<Rightarrow> catalogSys \<Rightarrow> catalogSys" where
  "demo_admit now y = snd (admitCatalogRefresh catalogRefreshManual now y)"

definition demo_run :: "gotime \<Rightarrow> catalogSys \<Rightarrow> catalogSys" where
  "demo_run now y = snd (snd (snd (runCatalogRefresh \<lparr>ca_source = catalogRefreshManual, ca_attemptAt = now\<rparr>
     (Inr []) None None (now + 1) (now + 2) y)))"

text \<open>Two manual refreshes run one after the other; the second is admitted after the cooldown.\<close>

definition demo_sys2 :: catalogSys where
  "demo_sys2 = demo_admit 30000000005 (demo_run 5 (demo_admit 5 demo_sys))"

lemma demo_refreshes:
  "refresh_step\<^sup>*\<^sup>* (demo_sys, None, []) (demo_sys2, Some \<lparr>ca_source = catalogRefreshManual, ca_attemptAt = 30000000005\<rparr>,
     [5, 30000000005])"
proof -
  let ?ad = "\<lambda>t. \<lparr>ca_source = catalogRefreshManual, ca_attemptAt = t\<rparr>"
  have admit: "refresh_step (y, c, log) (demo_admit now y, Some (?ad now), log @ [now])"
    if "0 < now" "fst (admitCatalogRefresh catalogRefreshManual now y) = Inr (?ad now)" for now y c log
    using step_admit [OF that(1), of catalogRefreshManual y "?ad now" "demo_admit now y" c log] that(2)
    by (simp add: demo_admit_def prod_eq_iff)
  have 1: "refresh_step (demo_sys, None, []) (demo_admit 5 demo_sys, Some (?ad 5), [5])"
    by (rule admit [of 5 demo_sys None "[]", simplified]) code_simp
  have 2: "refresh_step (demo_admit 5 demo_sys, Some (?ad 5), [5]) (demo_run 5 (demo_admit 5 demo_sys), None, [5])"
    unfolding demo_run_def
    by (rule run_step)
  have 3: "refresh_step (demo_run 5 (demo_admit 5 demo_sys), None, [5])
      (demo_sys2, Some (?ad 30000000005), [5, 30000000005])"
    unfolding demo_sys2_def
    by (rule admit [of 30000000005 "demo_run 5 (demo_admit 5 demo_sys)" None "[5]", simplified]) code_simp
  from 1 2 3 show ?thesis by (meson converse_rtranclp_into_rtranclp rtranclp.rtrancl_refl)
qed

theorem manual_refresh_cooldown_witness:
  "(5 :: int) + 30 * 1000000000 \<le> 30000000005 \<and>
   (\<exists>e. fst (admitCatalogRefresh catalogRefreshLazy 30000000006 demo_sys2) = Inl e)"
proof -
  have "refresh_start (demo_sys, None, [])" by (simp add: refresh_start_def demo_sys_def)
  from manual_refresh_cooldown [OF this demo_refreshes] show ?thesis by simp
qed

text \<open>
  The scheduler keeps its cadence: for a positive interval the next deadline lies strictly
  after the completion of the refresh, it is the tick plus a positive multiple of the interval,
  and it is the first such deadline, so missed ticks are skipped and never run twice.
\<close>

theorem catalog_cadence:
  assumes "0 < interval" "tickAt \<le> completedAt"
  shows "completedAt < nextCatalogCadenceAfter tickAt completedAt interval \<and>
    nextCatalogCadenceAfter tickAt completedAt interval - interval \<le> completedAt \<and>
    (\<exists>k > 0. nextCatalogCadenceAfter tickAt completedAt interval = tickAt + k * interval)"
proof (cases "tickAt + interval > completedAt")
  case True
  with assms show ?thesis by (auto simp: nextCatalogCadenceAfter_def intro: exI [of _ 1])
next
  case False
  let ?q = "(completedAt - (tickAt + interval)) div interval"
  have q: "nextCatalogCadenceAfter tickAt completedAt interval = tickAt + (?q + 2) * interval"
    using False assms(1) by (simp add: nextCatalogCadenceAfter_def Let_def algebra_simps)
  have pos: "0 \<le> ?q" using False assms(1) by (simp add: pos_imp_zdiv_nonneg_iff)
  let ?d = "completedAt - (tickAt + interval)"
  obtain q r where qr: "?q = q" "?d mod interval = r" by blast
  then have "?d = q * interval + r" "0 \<le> r" "r < interval"
    using assms(1) by (metis div_mult_mod_eq, metis pos_mod_sign, metis pos_mod_bound)
  moreover have "(q + 2) * interval = q * interval + 2 * interval" by (simp add: distrib_right)
  ultimately show ?thesis unfolding q qr(1) using pos qr(1) by (auto intro: exI [of _ "q + 2"])
qed

theorem catalog_cadence_witness:
  "35 < nextCatalogCadenceAfter 0 35 10 \<and> nextCatalogCadenceAfter 0 35 10 - 10 \<le> 35"
  using catalog_cadence [of 10 0 35] by simp

end
