(* ===== verification/SessionRegistry.thy ===== *)
theory SessionRegistry
  imports Complex_Main GatewayPrelude
begin

text \<open>
  The registry of dedicated sessions, \<open>internal/session\<close>: \<open>registry.go\<close>, \<open>reaper.go\<close>,
  \<open>stats.go\<close>, \<open>entry_acp.go\<close> and the defaults of \<open>config.go\<close>.

  An entry is a pointer: an index into \<open>rg_heap\<close>. Its mutex is the flag \<open>en_locked\<close>, its channel
  \<open>ready\<close> is the flag \<open>en_ready\<close> (true when closed). A client is a number; \<open>rg_open\<close> is not a
  field of the source but the set of worker processes that were spawned and neither closed nor
  exited. Every region under \<open>r.mu\<close> is one function; what runs outside the lock, with the answers of
  the workers as arguments, is a function of its own. Context percentages are rationals.
\<close>

text \<open>The library's rewriting of \<open>map_of\<close> to membership comes back with \<open>Complex_Main\<close>; lookups stay lookups.\<close>

declare map_of_eq_Some_iff [simp del] Some_eq_map_of_iff [simp del]

section \<open>Data\<close>

datatype session_err = ErrSessionNotFound | ErrSessionMaxExceeded | ErrRegistryClosed

record SessionConfig =
  sc_TTL :: int
  sc_TickInterval :: int
  sc_MaxSessions :: int
  sc_RecyclePct :: rat

definition session_applyDefaults :: "SessionConfig \<Rightarrow> SessionConfig" where
  "session_applyDefaults c =
     (let c1 = (if sc_TTL c \<le> 0 then c\<lparr>sc_TTL := 30 * 60 * 1000000000\<rparr> else c);
          c2 = (if sc_TickInterval c1 \<le> 0 then c1\<lparr>sc_TickInterval := 60 * 1000000000\<rparr> else c1)
      in if sc_MaxSessions c2 \<le> 0 then c2\<lparr>sc_MaxSessions := 32\<rparr> else c2)"

record Entry =
  en_Client :: "nat option"
  en_SessionID :: string
  en_lastUsed :: gotime
  en_lastCtxPct :: rat
  en_LastModel :: string
  en_Dead :: bool
  en_creating :: bool
  en_ready :: bool
  en_locked :: bool

record Registry =
  rg_cfg :: SessionConfig
  rg_entries :: "(string, nat) gomap"
  rg_heap :: "Entry list"
  rg_closed :: bool
  rg_closing :: bool
  rg_reaped :: nat
  rg_created :: nat
  rg_recycled :: nat
  rg_open :: "nat set"

definition session_New :: "SessionConfig \<Rightarrow> Registry" where
  "session_New cfg =
     \<lparr>rg_cfg = session_applyDefaults cfg, rg_entries = [], rg_heap = [], rg_closed = False, rg_closing = False,
      rg_reaped = 0, rg_created = 0, rg_recycled = 0, rg_open = {}\<rparr>"

text \<open>Write access through a pointer, and the effect of \<open>Client.Close\<close>.\<close>

definition upd_entry :: "nat \<Rightarrow> (Entry \<Rightarrow> Entry) \<Rightarrow> Registry \<Rightarrow> Registry" where
  "upd_entry e f r = r\<lparr>rg_heap := (rg_heap r)[e := f (rg_heap r ! e)]\<rparr>"

definition close_client :: "nat option \<Rightarrow> Registry \<Rightarrow> Registry" where
  "close_client c r = r\<lparr>rg_open := rg_open r - set_option c\<rparr>"

section \<open>Entries\<close>

definition setCtxPct :: "nat \<Rightarrow> rat \<Rightarrow> Registry \<Rightarrow> Registry" where
  "setCtxPct e pct r = upd_entry e (\<lambda>en. en\<lparr>en_lastCtxPct := pct\<rparr>) r"

definition closeReady :: "nat \<Rightarrow> Registry \<Rightarrow> Registry" where
  "closeReady e r = upd_entry e (\<lambda>en. en\<lparr>en_ready := True\<rparr>) r"

definition MarkUsed :: "nat \<Rightarrow> gotime \<Rightarrow> Registry \<Rightarrow> Registry" where
  "MarkUsed e now r = upd_entry e (\<lambda>en. en\<lparr>en_lastUsed := now\<rparr>) r"

definition mu_Lock :: "nat \<Rightarrow> Registry \<Rightarrow> Registry" where
  "mu_Lock e r = upd_entry e (\<lambda>en. en\<lparr>en_locked := True\<rparr>) r"

definition mu_Unlock :: "nat \<Rightarrow> Registry \<Rightarrow> Registry" where
  "mu_Unlock e r = upd_entry e (\<lambda>en. en\<lparr>en_locked := False\<rparr>) r"

text \<open>\<open>answer\<close> is the error of the worker; the first component says whether the worker was called.\<close>

definition entry_SetModel :: "nat \<Rightarrow> string \<Rightarrow> 'e option \<Rightarrow> Registry \<Rightarrow> bool \<times> 'e option \<times> Registry" where
  "entry_SetModel e modelID answer r =
     (if modelID = en_LastModel (rg_heap r ! e) then (False, None, r)
      else case answer of
             Some err \<Rightarrow> (True, Some err, r)
           | None \<Rightarrow> (True, None, upd_entry e (\<lambda>en. en\<lparr>en_LastModel := modelID\<rparr>) r))"

section \<open>Get\<close>

text \<open>How a turn of the loop of \<open>Get\<close> ends.\<close>

datatype getNext = GetErr session_err | GetWait nat | GetRecycle nat | GetHit nat | GetCreate nat

text \<open>The gate and the installation of the placeholder.\<close>

definition get_install :: "string \<Rightarrow> Registry \<Rightarrow> getNext \<times> Registry" where
  "get_install sid r =
     (if int (length (rg_entries r)) \<ge> sc_MaxSessions (rg_cfg r) then (GetErr ErrSessionMaxExceeded, r)
      else (GetCreate (length (rg_heap r)),
            r\<lparr>rg_heap := rg_heap r @ [\<lparr>en_Client = None, en_SessionID = [], en_lastUsed = 0, en_lastCtxPct = 0,
                en_LastModel = [], en_Dead = False, en_creating = True, en_ready = False, en_locked = False\<rparr>],
              rg_entries := gm_put sid (length (rg_heap r)) (rg_entries r)\<rparr>))"

definition session_Get :: "string \<Rightarrow> gotime \<Rightarrow> Registry \<Rightarrow> getNext \<times> Registry" where
  "session_Get sid now r =
     (if rg_closed r then (GetErr ErrRegistryClosed, r)
      else case gm_get (rg_entries r) sid of
             None \<Rightarrow> get_install sid r
           | Some e \<Rightarrow>
               let en = rg_heap r ! e
               in if en_Dead en then get_install sid (r\<lparr>rg_entries := gm_del sid (rg_entries r)\<rparr>)
                  else if en_creating en then (GetWait e, r)
                  else if sc_RecyclePct (rg_cfg r) > 0 \<and> en_lastCtxPct en \<ge> sc_RecyclePct (rg_cfg r) \<and> \<not> en_locked en
                  then (GetRecycle e,
                        (mu_Lock e r)\<lparr>rg_entries := gm_del sid (rg_entries r), rg_recycled := rg_recycled r + 1\<rparr>)
                  else (GetHit e, upd_entry e (\<lambda>en. en\<lparr>en_lastUsed := now\<rparr>) r))"

definition shortSid :: "string \<Rightarrow> string" where
  "shortSid sid = (if length sid \<le> 8 then sid else take 8 sid)"

section \<open>createEntry\<close>

definition resolve_cwd :: "('e + string) \<Rightarrow> string \<Rightarrow> 'e + string" where
  "resolve_cwd getwd cwd = (if cwd = [] then getwd else Inr cwd)"

text \<open>The section of \<open>publishError\<close>; then \<open>ready\<close> and the client, if there is one, are closed.\<close>

definition publishError :: "string \<Rightarrow> nat \<Rightarrow> Registry \<Rightarrow> Registry" where
  "publishError sid e r =
     (if gm_get (rg_entries r) sid = Some e then r\<lparr>rg_entries := gm_del sid (rg_entries r)\<rparr> else r)"

definition abandon :: "nat \<Rightarrow> nat option \<Rightarrow> Registry \<Rightarrow> Registry" where
  "abandon e c r = close_client c (closeReady e r)"

text \<open>The publishing section: false when the placeholder is no longer in the map.\<close>

definition publish :: "string \<Rightarrow> nat \<Rightarrow> nat \<Rightarrow> string \<Rightarrow> gotime \<Rightarrow> Registry \<Rightarrow> bool \<times> Registry" where
  "publish sid e k sessionID now r =
     (if gm_get (rg_entries r) sid \<noteq> Some e then (False, r)
      else (True, upd_entry e (\<lambda>en. en\<lparr>en_Client := Some k, en_SessionID := sessionID, en_lastUsed := now,
              en_creating := False\<rparr>) r))"

definition published :: "nat \<Rightarrow> Registry \<Rightarrow> Registry" where
  "published e r = (closeReady e r)\<lparr>rg_created := rg_created r + 1\<rparr>"

section \<open>watchEntry, Delete, Close\<close>

definition watchEntry :: "string \<Rightarrow> nat \<Rightarrow> Registry \<Rightarrow> Registry" where
  "watchEntry sid e r =
     close_client (en_Client (rg_heap r ! e))
       (if gm_get (rg_entries r) sid = Some e
        then upd_entry e (\<lambda>en. en\<lparr>en_Dead := True\<rparr>) (r\<lparr>rg_entries := gm_del sid (rg_entries r)\<rparr>)
        else r)"

definition delete_section :: "string \<Rightarrow> Registry \<Rightarrow> (session_err + nat) \<times> Registry" where
  "delete_section sid r =
     (case gm_get (rg_entries r) sid of
        None \<Rightarrow> (Inl ErrSessionNotFound, r)
      | Some e \<Rightarrow> (Inr e, r\<lparr>rg_entries := gm_del sid (rg_entries r)\<rparr>))"

text \<open>\<open>closeErr\<close>: whether \<open>Client.Close\<close> reported an error; then \<open>ready\<close> is left alone.\<close>

definition delete_finish :: "nat \<Rightarrow> bool \<Rightarrow> Registry \<Rightarrow> Registry" where
  "delete_finish e closeErr r =
     (let en = rg_heap r ! e; r1 = close_client (en_Client en) r
      in if en_Client en \<noteq> None \<and> closeErr then r1
         else if en_creating en then closeReady e r1 else r1)"

definition close_section :: "Registry \<Rightarrow> nat list \<times> Registry" where
  "close_section r = (map snd (rg_entries r), r\<lparr>rg_closed := True, rg_entries := []\<rparr>)"

definition close_signal :: "Registry \<Rightarrow> Registry" where
  "close_signal r = r\<lparr>rg_closing := True\<rparr>"

definition close_entry :: "nat \<Rightarrow> Registry \<Rightarrow> Registry" where
  "close_entry e r =
     (case en_Client (rg_heap r ! e) of None \<Rightarrow> closeReady e r | Some k \<Rightarrow> close_client (Some k) r)"

section \<open>The reaper\<close>

definition reap_snapshot :: "Registry \<Rightarrow> (string \<times> nat) list" where
  "reap_snapshot r = filter (\<lambda>(sid, e). \<not> en_creating (rg_heap r ! e)) (rg_entries r)"

definition reap_expired :: "gotime \<Rightarrow> nat \<Rightarrow> Registry \<Rightarrow> bool" where
  "reap_expired now e r = (en_lastUsed (rg_heap r ! e) < now - sc_TTL (rg_cfg r))"

definition reap_remove :: "string \<Rightarrow> nat \<Rightarrow> Registry \<Rightarrow> Registry" where
  "reap_remove sid e r =
     (if gm_get (rg_entries r) sid = Some e
      then upd_entry e (\<lambda>en. en\<lparr>en_Dead := True\<rparr>)
             (r\<lparr>rg_entries := gm_del sid (rg_entries r), rg_reaped := rg_reaped r + 1\<rparr>)
      else r)"

text \<open>One entry of an iteration when nothing else runs, and the whole iteration.\<close>

definition reap_one :: "gotime \<Rightarrow> string \<times> nat \<Rightarrow> Registry \<Rightarrow> Registry" where
  "reap_one now es r =
     (case es of (sid, e) \<Rightarrow>
        if en_locked (rg_heap r ! e) then r
        else let r1 = mu_Lock e r
             in mu_Unlock e
                  (if reap_expired now e r1 then reap_remove sid e (close_client (en_Client (rg_heap r1 ! e)) r1)
                   else r1))"

definition reapOnce :: "gotime \<Rightarrow> Registry \<Rightarrow> Registry" where
  "reapOnce now r = fold (reap_one now) (reap_snapshot r) r"

section \<open>Views\<close>

definition session_Stats :: "Registry \<Rightarrow> nat" where
  "session_Stats r = length (rg_entries r)"

record SessionDetail =
  sd_ID :: string
  sd_Alive :: bool
  sd_Busy :: bool
  sd_LastUsed :: gotime
  sd_Model :: "string option"

definition session_Detail :: "Registry \<Rightarrow> SessionDetail list" where
  "session_Detail r = map (\<lambda>(sid, e). let en = rg_heap r ! e; free = (\<not> en_creating en \<and> \<not> en_locked en) in
     \<lparr>sd_ID = sid, sd_Alive = (\<not> en_Dead en), sd_Busy = (\<not> free),
      sd_LastUsed = (if free then en_lastUsed en else 0),
      sd_Model = (if free \<and> en_LastModel en \<noteq> [] then Some (en_LastModel en) else None)\<rparr>) (rg_entries r)"

end
