(* ===== verification/SessionSteps.thy ===== *)
theory SessionSteps
  imports SessionRegistry
begin

text \<open>
  The registry with everything that runs on it: a state is the registry and the multiset of the
  activities under way, each at the point between two sections. The runs of \<open>reg_step\<close> are
  all interleavings of requests, deletions, watchers, the reaper and shutdown, for any answers of workers
  and any readings of the clock. The one assumption on the environment is that a client
  the factory returns is a new object. \<open>Close\<close> waits for the goroutines in its wait group: the
  guard of \<open>reg_closeWait\<close>; a watcher that is not yet registered there (\<open>RPublished\<close>) is not waited for.
\<close>

section \<open>Activities\<close>

datatype ract =
    RGet string
  | RWait string nat
  | RRecycle string nat
  | RRecycled string nat
  | RCreate string nat
  | RInit string nat nat
  | RAbandon nat "nat option"
  | RPublished string nat nat
  | RHold string nat
  | RStream string nat
  | RWatch string nat nat
  | RDelete nat
  | RReaper
  | RReap gotime "(string \<times> nat) list"
  | RReapHas gotime string nat "(string \<times> nat) list"
  | RReapClose gotime string nat "(string \<times> nat) list"
  | RReapDel gotime string nat "(string \<times> nat) list"
  | RClosing "nat list"
  | RCloseWait "nat list"
  | RCloseAll "nat list"

text \<open>The entry whose mutex an activity holds, the entry it is creating, and the entries whose clients it will close.\<close>

fun locks :: "ract \<Rightarrow> nat option" where
  "locks (RRecycle sid e) = Some e"
| "locks (RRecycled sid e) = Some e"
| "locks (RStream sid e) = Some e"
| "locks (RReapHas now sid e es) = Some e"
| "locks (RReapClose now sid e es) = Some e"
| "locks (RReapDel now sid e es) = Some e"
| "locks _ = None"

fun creates :: "ract \<Rightarrow> nat option" where
  "creates (RCreate sid e) = Some e"
| "creates (RInit sid e k) = Some e"
| "creates (RAbandon e c) = Some e"
| "creates (RPublished sid e k) = Some e"
| "creates _ = None"

fun closes :: "ract \<Rightarrow> nat set" where
  "closes (RRecycle sid e) = {e}"
| "closes (RDelete e) = {e}"
| "closes (RReapClose now sid e es) = {e}"
| "closes (RClosing es) = set es"
| "closes (RCloseWait es) = set es"
| "closes (RCloseAll es) = set es"
| "closes _ = {}"

text \<open>The client an activity has spawned and not yet handed to an entry.\<close>

fun carries :: "ract \<Rightarrow> nat option" where
  "carries (RInit sid e k) = Some k"
| "carries (RAbandon e c) = c"
| "carries _ = None"

fun waitGroup :: "ract \<Rightarrow> bool" where
  "waitGroup (RWatch sid e k) = True"
| "waitGroup RReaper = True"
| "waitGroup (RReap now es) = True"
| "waitGroup (RReapHas now sid e es) = True"
| "waitGroup (RReapClose now sid e es) = True"
| "waitGroup (RReapDel now sid e es) = True"
| "waitGroup _ = False"

fun after_get :: "string \<Rightarrow> getNext \<Rightarrow> ract multiset" where
  "after_get sid (GetErr err) = {#}"
| "after_get sid (GetWait e) = {#RWait sid e#}"
| "after_get sid (GetRecycle e) = {#RRecycle sid e#}"
| "after_get sid (GetHit e) = {#RHold sid e#}"
| "after_get sid (GetCreate e) = {#RCreate sid e#}"

type_synonym rsys = "Registry \<times> ract multiset"

definition new_client :: "nat \<Rightarrow> Registry \<Rightarrow> ract multiset \<Rightarrow> bool" where
  "new_client k r A \<longleftrightarrow> k \<notin> rg_open r \<and> (\<forall>en \<in> set (rg_heap r). en_Client en \<noteq> Some k) \<and>
     (\<forall>a \<in># A. carries a \<noteq> Some k)"

section \<open>Steps\<close>

inductive reg_step :: "rsys \<Rightarrow> rsys \<Rightarrow> bool" where
  reg_request: "reg_step (r, A) (r, add_mset (RGet sid) A)"
| reg_get: "session_Get sid now r = (nx, r') \<Longrightarrow> reg_step (r, add_mset (RGet sid) A) (r', after_get sid nx + A)"
| reg_woken: "en_ready (rg_heap r ! e) \<Longrightarrow> reg_step (r, add_mset (RWait sid e) A) (r, add_mset (RGet sid) A)"
| reg_giveUp: "reg_step (r, add_mset (RWait sid e) A) (r, A)"
| reg_recycle: "reg_step (r, add_mset (RRecycle sid e) A)
    (close_client (en_Client (rg_heap r ! e)) r, add_mset (RRecycled sid e) A)"
| reg_recycled: "reg_step (r, add_mset (RRecycled sid e) A) (mu_Unlock e r, add_mset (RGet sid) A)"
| reg_spawn: "new_client k r (add_mset (RCreate sid e) A) \<Longrightarrow>
    reg_step (r, add_mset (RCreate sid e) A) (r\<lparr>rg_open := insert k (rg_open r)\<rparr>, add_mset (RInit sid e k) A)"
| reg_spawnFail: "reg_step (r, add_mset (RCreate sid e) A) (publishError sid e r, add_mset (RAbandon e None) A)"
| reg_initFail: "reg_step (r, add_mset (RInit sid e k) A) (publishError sid e r, add_mset (RAbandon e (Some k)) A)"
| reg_publish: "publish sid e k sessionID now r = (True, r') \<Longrightarrow>
    reg_step (r, add_mset (RInit sid e k) A) (r', add_mset (RPublished sid e k) A)"
| reg_lost: "publish sid e k sessionID now r = (False, r') \<Longrightarrow>
    reg_step (r, add_mset (RInit sid e k) A) (r', add_mset (RAbandon e (Some k)) A)"
| reg_abandon: "reg_step (r, add_mset (RAbandon e c) A) (abandon e c r, A)"
| reg_published: "reg_step (r, add_mset (RPublished sid e k) A) (published e r, {#RHold sid e, RWatch sid e k#} + A)"
| reg_lock: "\<not> en_locked (rg_heap r ! e) \<Longrightarrow>
    reg_step (r, add_mset (RHold sid e) A) (mu_Lock e r, add_mset (RStream sid e) A)"
| reg_setModel: "entry_SetModel e modelID (answer :: unit option) r = (called, err, r') \<Longrightarrow>
    reg_step (r, add_mset (RStream sid e) A) (r', add_mset (RStream sid e) A)"
| reg_done: "reg_step (r, add_mset (RStream sid e) A) (mu_Unlock e (MarkUsed e now r), A)"
| reg_ctxPct: "e < length (rg_heap r) \<Longrightarrow> reg_step (r, A) (setCtxPct e pct r, A)"
| reg_exit: "reg_step (r, A) (r\<lparr>rg_open := rg_open r - {k}\<rparr>, A)"
| reg_watch: "k \<notin> rg_open r \<Longrightarrow> reg_step (r, add_mset (RWatch sid e k) A) (watchEntry sid e r, A)"
| reg_watchEnd: "rg_closing r \<Longrightarrow> reg_step (r, add_mset (RWatch sid e k) A) (r, A)"
| reg_deleteMiss: "delete_section sid r = (Inl err, r') \<Longrightarrow> reg_step (r, A) (r', A)"
| reg_delete: "delete_section sid r = (Inr e, r') \<Longrightarrow> reg_step (r, A) (r', add_mset (RDelete e) A)"
| reg_deleted: "reg_step (r, add_mset (RDelete e) A) (delete_finish e closeErr r, A)"
| reg_tick: "reg_step (r, add_mset RReaper A) (r, add_mset (RReap now (reap_snapshot r)) A)"
| reg_reaperEnd: "rg_closing r \<Longrightarrow> reg_step (r, add_mset RReaper A) (r, A)"
| reg_reapNext: "reg_step (r, add_mset (RReap now []) A) (r, add_mset RReaper A)"
| reg_reapBusy: "en_locked (rg_heap r ! e) \<Longrightarrow>
    reg_step (r, add_mset (RReap now ((sid, e) # es)) A) (r, add_mset (RReap now es) A)"
| reg_reapLock: "\<not> en_locked (rg_heap r ! e) \<Longrightarrow>
    reg_step (r, add_mset (RReap now ((sid, e) # es)) A) (mu_Lock e r, add_mset (RReapHas now sid e es) A)"
| reg_reapFresh: "\<not> reap_expired now e r \<Longrightarrow>
    reg_step (r, add_mset (RReapHas now sid e es) A) (mu_Unlock e r, add_mset (RReap now es) A)"
| reg_reapExpired: "reap_expired now e r \<Longrightarrow>
    reg_step (r, add_mset (RReapHas now sid e es) A) (r, add_mset (RReapClose now sid e es) A)"
| reg_reapClose: "reg_step (r, add_mset (RReapClose now sid e es) A)
    (close_client (en_Client (rg_heap r ! e)) r, add_mset (RReapDel now sid e es) A)"
| reg_reapDel: "reg_step (r, add_mset (RReapDel now sid e es) A) (mu_Unlock e (reap_remove sid e r), add_mset (RReap now es) A)"
| reg_close: "\<not> rg_closed r \<Longrightarrow> close_section r = (es, r') \<Longrightarrow> reg_step (r, A) (r', add_mset (RClosing es) A)"
| reg_closeSignal: "reg_step (r, add_mset (RClosing es) A) (close_signal r, add_mset (RCloseWait es) A)"
| reg_closeWait: "(\<forall>a \<in># A. \<not> waitGroup a) \<Longrightarrow>
    reg_step (r, add_mset (RCloseWait es) A) (r, add_mset (RCloseAll es) A)"
| reg_closeEntry: "reg_step (r, add_mset (RCloseAll (e # es)) A) (close_entry e r, add_mset (RCloseAll es) A)"
| reg_closed: "reg_step (r, add_mset (RCloseAll []) A) (r, A)"

definition reg_start :: "rsys \<Rightarrow> bool" where
  "reg_start s \<longleftrightarrow> (\<exists>cfg. s = (session_New cfg, {#RReaper#}))"

section \<open>What the sections change\<close>

lemma upd_entry_frame [simp]:
  "rg_cfg (upd_entry e f r) = rg_cfg r" "rg_entries (upd_entry e f r) = rg_entries r"
  "rg_closed (upd_entry e f r) = rg_closed r" "rg_closing (upd_entry e f r) = rg_closing r"
  "rg_open (upd_entry e f r) = rg_open r" "length (rg_heap (upd_entry e f r)) = length (rg_heap r)"
  "rg_heap (upd_entry e f r) = (rg_heap r)[e := f (rg_heap r ! e)]"
  by (simp_all add: upd_entry_def)

lemma close_client_frame [simp]:
  "rg_cfg (close_client c r) = rg_cfg r" "rg_entries (close_client c r) = rg_entries r"
  "rg_closed (close_client c r) = rg_closed r" "rg_closing (close_client c r) = rg_closing r"
  "rg_heap (close_client c r) = rg_heap r" "rg_open (close_client c r) = rg_open r - set_option c"
  by (simp_all add: close_client_def)

lemma upd_at: "j < length xs \<Longrightarrow> xs[i := x] ! j = (if i = j then x else xs ! j)"
  by (cases "i < length xs") (auto simp: nth_list_update list_update_beyond)

lemmas entry_ops = setCtxPct_def closeReady_def MarkUsed_def mu_Lock_def mu_Unlock_def

end
