(* ===== verification/SessionInv.thy ===== *)
theory SessionInv
  imports SessionSteps
begin

text \<open>
  The invariant of the registry and its preservation by every step: the map is bounded and holds
  only live entries; every mutex has at most one holder; every placeholder has exactly one
  creator; every open worker process is in the map or in the hands of an activity that closes it.
\<close>

section \<open>The invariant\<close>

definition map_inv :: "Registry \<Rightarrow> bool" where
  "map_inv r \<longleftrightarrow> gm_ok (rg_entries r) \<and> int (length (rg_entries r)) \<le> sc_MaxSessions (rg_cfg r) \<and>
     (\<forall>sid e. gm_get (rg_entries r) sid = Some e \<longrightarrow> e < length (rg_heap r) \<and> \<not> en_Dead (rg_heap r ! e)) \<and>
     (\<forall>sid sid' e. gm_get (rg_entries r) sid = Some e \<and> gm_get (rg_entries r) sid' = Some e \<longrightarrow> sid = sid') \<and>
     (rg_closed r \<longrightarrow> rg_entries r = []) \<and>
     (\<forall>en \<in> set (rg_heap r). en_creating en = (en_Client en = None))"

definition here :: "Registry \<Rightarrow> nat \<Rightarrow> bool" where
  "here r e \<longleftrightarrow> e < length (rg_heap r) \<and> \<not> en_creating (rg_heap r ! e)"

fun act_ok :: "Registry \<Rightarrow> ract \<Rightarrow> bool" where
  "act_ok r (RWait sid e) = (e < length (rg_heap r))"
| "act_ok r (RRecycle sid e) = here r e"
| "act_ok r (RRecycled sid e) = here r e"
| "act_ok r (RCreate sid e) = (e < length (rg_heap r))"
| "act_ok r (RInit sid e k) = (e < length (rg_heap r))"
| "act_ok r (RAbandon e c) = (e < length (rg_heap r))"
| "act_ok r (RPublished sid e k) = (e < length (rg_heap r) \<and> en_Client (rg_heap r ! e) = Some k)"
| "act_ok r (RHold sid e) = here r e"
| "act_ok r (RStream sid e) = here r e"
| "act_ok r (RWatch sid e k) = (e < length (rg_heap r) \<and> en_Client (rg_heap r ! e) = Some k)"
| "act_ok r (RDelete e) = (e < length (rg_heap r))"
| "act_ok r (RReap now es) = (\<forall>(sid, e) \<in> set es. here r e)"
| "act_ok r (RReapHas now sid e es) = (here r e \<and> (\<forall>(sid, e) \<in> set es. here r e))"
| "act_ok r (RReapClose now sid e es) = (here r e \<and> (\<forall>(sid, e) \<in> set es. here r e))"
| "act_ok r (RReapDel now sid e es) = (here r e \<and> (\<forall>(sid, e) \<in> set es. here r e) \<and>
     (\<forall>k. en_Client (rg_heap r ! e) = Some k \<longrightarrow> k \<notin> rg_open r))"
| "act_ok r (RClosing es) = (\<forall>e \<in> set es. e < length (rg_heap r))"
| "act_ok r (RCloseWait es) = (\<forall>e \<in> set es. e < length (rg_heap r))"
| "act_ok r (RCloseAll es) = (\<forall>e \<in> set es. e < length (rg_heap r))"
| "act_ok r a = True"

definition holders :: "nat \<Rightarrow> ract multiset \<Rightarrow> nat" where
  "holders e A = size (filter_mset (\<lambda>a. locks a = Some e) A)"

definition makers :: "nat \<Rightarrow> ract multiset \<Rightarrow> nat" where
  "makers e A = size (filter_mset (\<lambda>a. creates a = Some e) A)"

lemma holders_simps [simp]:
  "holders e {#} = 0" "holders e (A + B) = holders e A + holders e B"
  "holders e (add_mset a A) = (if locks a = Some e then Suc (holders e A) else holders e A)"
  by (simp_all add: holders_def)

lemma makers_simps [simp]:
  "makers e {#} = 0" "makers e (A + B) = makers e A + makers e B"
  "makers e (add_mset a A) = (if creates a = Some e then Suc (makers e A) else makers e A)"
  by (simp_all add: makers_def)

definition lock_inv :: "rsys \<Rightarrow> bool" where
  "lock_inv s \<longleftrightarrow> (\<forall>e. holders e (snd s) =
     (if e < length (rg_heap (fst s)) \<and> en_locked (rg_heap (fst s) ! e) then 1 else 0))"

fun building :: "ract \<Rightarrow> nat option" where
  "building (RCreate sid e) = Some e"
| "building (RInit sid e k) = Some e"
| "building _ = None"

definition create_inv :: "rsys \<Rightarrow> bool" where
  "create_inv s \<longleftrightarrow> (\<forall>e. makers e (snd s) \<le> 1 \<and>
       (e < length (rg_heap (fst s)) \<and> \<not> en_ready (rg_heap (fst s) ! e) \<longrightarrow> makers e (snd s) = 1)) \<and>
     (\<forall>a \<in># snd s. \<forall>e. building a = Some e \<longrightarrow> en_creating (rg_heap (fst s) ! e))"

text \<open>Who answers for an open worker process.\<close>

definition kept_by :: "nat \<Rightarrow> rsys \<Rightarrow> bool" where
  "kept_by k s \<longleftrightarrow>
     (\<exists>sid e. gm_get (rg_entries (fst s)) sid = Some e \<and> en_Client (rg_heap (fst s) ! e) = Some k) \<or>
     (\<exists>a \<in># snd s. carries a = Some k \<or> (\<exists>e \<in> closes a. en_Client (rg_heap (fst s) ! e) = Some k))"

definition worker_inv :: "rsys \<Rightarrow> bool" where
  "worker_inv s \<longleftrightarrow> (\<forall>k \<in> rg_open (fst s). kept_by k s)"

definition reg_inv :: "rsys \<Rightarrow> bool" where
  "reg_inv s \<longleftrightarrow> map_inv (fst s) \<and> (\<forall>a \<in># snd s. act_ok (fst s) a) \<and> lock_inv s \<and> create_inv s \<and> worker_inv s"

section \<open>Growth of the heap\<close>

text \<open>
  Steps only add entries, publish placeholders and close clients; what an activity knows about its
  entry stays true.
\<close>

definition reg_ext :: "Registry \<Rightarrow> Registry \<Rightarrow> bool" where
  "reg_ext r r' \<longleftrightarrow> length (rg_heap r) \<le> length (rg_heap r') \<and>
     (\<forall>e < length (rg_heap r). (\<not> en_creating (rg_heap r ! e) \<longrightarrow> \<not> en_creating (rg_heap r' ! e)) \<and>
        (\<forall>k. en_Client (rg_heap r ! e) = Some k \<longrightarrow> en_Client (rg_heap r' ! e) = Some k \<and> (k \<notin> rg_open r \<longrightarrow> k \<notin> rg_open r')))"

lemma reg_ext_refl [simp]: "reg_ext r r"
  by (simp add: reg_ext_def)

lemma here_ext: "reg_ext r r' \<Longrightarrow> here r e \<Longrightarrow> here r' e"
  by (auto simp: reg_ext_def here_def)

lemma present_client:
  assumes "map_inv r" "here r e"
  obtains k where "en_Client (rg_heap r ! e) = Some k"
  using assms by (auto simp: map_inv_def here_def)

lemma act_ok_ext:
  assumes "reg_ext r r'" "map_inv r" "act_ok r a"
  shows "act_ok r' a"
proof -
  have lt: "e < length (rg_heap r')" if "e < length (rg_heap r)" for e
    using assms(1) that by (auto simp: reg_ext_def)
  have cl: "en_Client (rg_heap r' ! e) = Some k" if "e < length (rg_heap r)" "en_Client (rg_heap r ! e) = Some k" for e k
    using assms(1) that by (auto simp: reg_ext_def)
  show ?thesis
  proof (cases a)
    case (RReapDel now sid e es)
    with assms(3) have h: "here r e" by simp
    from present_client [OF assms(2) this] obtain k where k: "en_Client (rg_heap r ! e) = Some k" .
    have e: "e < length (rg_heap r)" using h by (simp add: here_def)
    from k RReapDel assms(3) have "k \<notin> rg_open r" by simp
    with e k assms(1) have "en_Client (rg_heap r' ! e) = Some k" "k \<notin> rg_open r'" by (auto simp: reg_ext_def)
    with RReapDel assms(3) here_ext [OF assms(1)] show ?thesis by auto
  qed (use assms(3) lt cl here_ext [OF assms(1)] in auto)
qed

lemma step_ext:
  assumes "reg_step s t" "reg_inv s"
  shows "reg_ext (fst s) (fst t)"
  using assms(1)
proof cases
  case (reg_get sid now r nx r' A)
  then show ?thesis
    by (auto simp: session_Get_def get_install_def Let_def reg_ext_def entry_ops nth_append upd_at
        split: if_splits option.splits)
next
  case (reg_publish sid e k sessionID now r r' A)
  have "map_inv r" "e < length (rg_heap r)" "en_creating (rg_heap r ! e)"
    using assms(2) reg_publish(1) by (auto simp: reg_inv_def create_inv_def)
  then have "en_Client (rg_heap r ! e) = None" by (auto simp: map_inv_def)
  with reg_publish show ?thesis
    by (auto simp: publish_def reg_ext_def upd_at split: if_splits)
next
  case (reg_spawn k r sid e A)
  then show ?thesis by (auto simp: reg_ext_def new_client_def)
qed (auto simp: publishError_def publish_def abandon_def published_def entry_SetModel_def watchEntry_def delete_section_def
    delete_finish_def reap_remove_def close_section_def close_signal_def close_entry_def entry_ops Let_def
    reg_ext_def upd_at split: if_splits option.splits)

section \<open>Preservation\<close>

lemma invD:
  assumes "reg_inv (r, A)"
  shows "map_inv r" "\<And>a. a \<in># A \<Longrightarrow> act_ok r a" "lock_inv (r, A)" "create_inv (r, A)" "worker_inv (r, A)"
  using assms by (auto simp: reg_inv_def)

text \<open>The map.\<close>

lemma set_upd: "en \<in> set (rg_heap (upd_entry e f r)) \<Longrightarrow>
    en \<in> set (rg_heap r) \<or> e < length (rg_heap r) \<and> en = f (rg_heap r ! e)"
  by (cases "e < length (rg_heap r)") (auto dest: set_update_subset_insert [THEN subsetD] simp: list_update_beyond)

text \<open>An update that keeps the flags the map depends on, except that it may mark an entry that is not in the map.\<close>

lemma map_upd:
  assumes "map_inv r" "\<And>en. en_creating (f en) = en_creating en" "\<And>en. en_Client (f en) = en_Client en"
    "(\<forall>en. en_Dead (f en) = en_Dead en) \<or> (\<forall>sid. gm_get (rg_entries r) sid \<noteq> Some e)"
  shows "map_inv (upd_entry e f r)"
proof -
  have "en_creating en = (en_Client en = None)" if "en \<in> set (rg_heap (upd_entry e f r))" for en
    using set_upd [OF that] assms(1-3) by (auto simp: map_inv_def)
  moreover have "\<not> en_Dead (rg_heap (upd_entry e f r) ! e')" if "gm_get (rg_entries r) sid = Some e'" for sid e'
    using assms(1,4) that by (cases "e' = e") (auto simp: map_inv_def upd_at)
  ultimately show ?thesis using assms(1) unfolding map_inv_def by simp
qed

lemma delete_le: "length (gm_del k m) \<le> length m"
  by (simp add: AList.delete_eq)

lemma map_del [intro]: "map_inv r \<Longrightarrow> map_inv (r\<lparr>rg_entries := gm_del sid (rg_entries r)\<rparr>)"
  using delete_le [of sid "rg_entries r"] by (auto simp: map_inv_def)

lemma map_cong:
  assumes "map_inv r" "rg_cfg r' = rg_cfg r" "rg_entries r' = rg_entries r" "rg_heap r' = rg_heap r" "rg_closed r' = rg_closed r"
  shows "map_inv r'"
  using assms(1) unfolding map_inv_def assms(2-5) .

lemma map_fields [simp]:
  "map_inv (close_client c r) = map_inv r" "map_inv (r\<lparr>rg_open := X\<rparr>) = map_inv r"
  "map_inv (close_signal r) = map_inv r" "map_inv (r\<lparr>rg_created := n\<rparr>) = map_inv r"
  "map_inv (r\<lparr>rg_recycled := n\<rparr>) = map_inv r" "map_inv (r\<lparr>rg_reaped := n\<rparr>) = map_inv r"
  by (simp_all add: map_inv_def close_signal_def)

lemma map_soft [simp, intro]:
  assumes "map_inv r"
  shows "map_inv (setCtxPct e pct r)" "map_inv (closeReady e r)" "map_inv (MarkUsed e now r)" "map_inv (mu_Lock e r)"
    "map_inv (mu_Unlock e r)" "map_inv (upd_entry e (\<lambda>en. en\<lparr>en_LastModel := m\<rparr>) r)"
    "map_inv (upd_entry e (\<lambda>en. en\<lparr>en_lastUsed := now\<rparr>) r)"
  using assms by (auto simp: entry_ops intro: map_upd)

lemma map_install:
  assumes m: "map_inv r" and "\<not> rg_closed r" "gm_get (rg_entries r) sid = None" and g: "get_install sid r = (nx, r')"
  shows "map_inv r'"
proof (cases "int (length (rg_entries r)) \<ge> sc_MaxSessions (rg_cfg r)")
  case False
  let ?n = "length (rg_heap r)"
  have len: "length (gm_put sid ?n (rg_entries r)) = Suc (length (rg_entries r))"
    using assms(3) by (simp add: gm_put_fresh)
  have lt: "e < ?n \<and> \<not> en_Dead (rg_heap r ! e)" if "gm_get (rg_entries r) sid' = Some e" for sid' e
    using m that by (simp add: map_inv_def)
  have inj: "sid1 = sid2" if "gm_get (gm_put sid ?n (rg_entries r)) sid1 = Some e"
    "gm_get (gm_put sid ?n (rg_entries r)) sid2 = Some e" for sid1 sid2 e
    using that m lt [of sid1 e] lt [of sid2 e] by (auto simp: map_inv_def split: if_splits)
  have at: "e < Suc ?n \<and> \<not> en_Dead (rg_heap r' ! e)" if "gm_get (gm_put sid ?n (rg_entries r)) sid' = Some e" for sid' e
    using that g False lt [of sid' e] by (cases "sid' = sid") (auto simp: get_install_def nth_append)
  have r': "rg_entries r' = gm_put sid ?n (rg_entries r)" "rg_cfg r' = rg_cfg r" "\<not> rg_closed r'"
    "length (rg_heap r') = Suc ?n"
    using g False assms(2) by (auto simp: get_install_def)
  have heap: "\<forall>en \<in> set (rg_heap r'). en_creating en = (en_Client en = None)"
    using g False m by (auto simp: get_install_def map_inv_def)
  have ok: "gm_ok (rg_entries r')" unfolding r' using m by (auto simp: map_inv_def)
  show ?thesis
    unfolding map_inv_def
  proof (intro conjI allI impI)
    show "int (length (rg_entries r')) \<le> sc_MaxSessions (rg_cfg r')" using False len by (simp add: r')
    show "gm_ok (rg_entries r')" by (rule ok)
    show "\<forall>en \<in> set (rg_heap r'). en_creating en = (en_Client en = None)" by (rule heap)
    show "rg_entries r' = []" if "rg_closed r'" using that r'(3) by simp
    show "e < length (rg_heap r')" "\<not> en_Dead (rg_heap r' ! e)" if "gm_get (rg_entries r') sid' = Some e" for sid' e
      using at [of sid' e] that r' by simp_all
    show "sid1 = sid2" if "gm_get (rg_entries r') sid1 = Some e \<and> gm_get (rg_entries r') sid2 = Some e" for sid1 sid2 e
      using inj [of sid1 e sid2] that r' by simp
  qed
qed (use assms in \<open>auto simp: get_install_def\<close>)

lemma map_mark:
  assumes "map_inv r" "gm_get (rg_entries r) sid = Some e"
  shows "map_inv (upd_entry e (\<lambda>en. en\<lparr>en_Dead := True\<rparr>) (r\<lparr>rg_entries := gm_del sid (rg_entries r)\<rparr>))"
proof (rule map_upd)
  show "map_inv (r\<lparr>rg_entries := gm_del sid (rg_entries r)\<rparr>)" using assms(1) by blast
  show "(\<forall>en. en_Dead (en\<lparr>en_Dead := True\<rparr>) = en_Dead en) \<or>
      (\<forall>sid'. gm_get (rg_entries (r\<lparr>rg_entries := gm_del sid (rg_entries r)\<rparr>)) sid' \<noteq> Some e)"
    using assms by (auto simp: map_inv_def)
qed simp_all

lemma map_get:
  assumes "map_inv r" "session_Get sid now r = (nx, r')"
  shows "map_inv r'"
proof (cases "rg_closed r")
  case False
  show ?thesis
  proof (cases "gm_get (rg_entries r) sid")
    case None
    with assms False map_install show ?thesis by (auto simp: session_Get_def)
  next
    case (Some e)
    then have nd: "\<not> en_Dead (rg_heap r ! e)" using assms(1) by (auto simp: map_inv_def)
    have "map_inv ((mu_Lock e r)\<lparr>rg_entries := gm_del sid (rg_entries r), rg_recycled := n\<rparr>)" for n
      by (rule map_cong [OF map_del [OF map_soft(4) [OF assms(1), of e], of sid]]) (simp_all add: mu_Lock_def)
    with assms Some False nd show ?thesis
      by (auto simp: session_Get_def Let_def split: if_splits)
  qed
qed (use assms in \<open>auto simp: session_Get_def\<close>)

lemma map_publish:
  assumes "map_inv r" "publish sid e k sessionID now r = (b, r')"
  shows "map_inv r'"
proof (cases "gm_get (rg_entries r) sid = Some e")
  case True
  let ?f = "\<lambda>en. en\<lparr>en_Client := Some k, en_SessionID := sessionID, en_lastUsed := now, en_creating := False\<rparr>"
  have r': "r' = upd_entry e ?f r" using assms(2) True by (simp add: publish_def)
  have "en_creating en = (en_Client en = None)" if "en \<in> set (rg_heap (upd_entry e ?f r))" for en
    using set_upd [OF that] assms(1) by (auto simp: map_inv_def)
  moreover have "\<not> en_Dead (rg_heap (upd_entry e ?f r) ! e')" if "gm_get (rg_entries r) sid' = Some e'" for sid' e'
    using assms(1) that by (auto simp: map_inv_def upd_at)
  ultimately show ?thesis using assms(1) unfolding map_inv_def r' by simp
qed (use assms in \<open>simp add: publish_def\<close>)

lemma step_map:
  assumes "reg_step s t" "reg_inv s"
  shows "map_inv (fst t)"
proof -
  have m: "map_inv (fst s)" using assms(2) by (simp add: reg_inv_def)
  show ?thesis
    using assms(1)
  proof cases
    case (reg_get sid now r nx r' A)
    with m map_get show ?thesis by simp
  next
    case (reg_publish sid e k sessionID now r r' A)
    with m map_publish show ?thesis by simp
  next
    case (reg_watch k r sid e A)
    have "map_inv (if gm_get (rg_entries r) sid = Some e
        then upd_entry e (\<lambda>en. en\<lparr>en_Dead := True\<rparr>) (r\<lparr>rg_entries := gm_del sid (rg_entries r)\<rparr>) else r)"
      using m reg_watch(1) map_mark [of r sid e] by simp
    with reg_watch(2) show ?thesis by (simp add: watchEntry_def)
  next
    case (reg_reapDel r now sid e es A)
    have "map_inv (reap_remove sid e r)"
      using m reg_reapDel(1) map_cong [OF map_mark [of r sid e], of "reap_remove sid e r"]
      by (simp add: reap_remove_def)
    with reg_reapDel(2) show ?thesis by simp
  next
    case (reg_close r es r' A)
    with m show ?thesis by (auto simp: close_section_def map_inv_def)
  qed (use m in \<open>auto simp: publishError_def publish_def abandon_def published_def entry_SetModel_def delete_section_def
    delete_finish_def close_entry_def Let_def split: if_splits option.splits\<close>)
qed

text \<open>What activities know about their entries.\<close>

lemma map_lookup:
  assumes "map_inv r" "gm_get (rg_entries r) sid = Some e"
  shows "e < length (rg_heap r)" "\<not> en_Dead (rg_heap r ! e)"
  using assms by (auto simp: map_inv_def)

lemma map_values: "map_inv r \<Longrightarrow> (sid, e) \<in> set (rg_entries r) \<Longrightarrow> e < length (rg_heap r)"
  using map_lookup(1) by (metis gm_set_iff map_inv_def)

lemma get_acts:
  assumes m: "map_inv r" and g: "session_Get sid now r = (nx, r')" and a: "a \<in># after_get sid nx"
  shows "act_ok r' a"
proof (cases "gm_get (rg_entries r) sid")
  case None
  with g a show ?thesis by (auto simp: session_Get_def get_install_def split: if_splits)
next
  case (Some e)
  note e = map_lookup [OF m Some]
  from g a Some e show ?thesis
    by (auto simp: session_Get_def Let_def here_def mu_Lock_def split: if_splits)
qed

lemma step_acts:
  assumes st: "reg_step s t" and inv: "reg_inv s"
  shows "\<forall>a \<in># snd t. act_ok (fst t) a"
proof -
  note ext = step_ext [OF assms]
  have m: "map_inv (fst s)" using inv by (simp add: reg_inv_def)
  have old: "act_ok (fst t) a" if "a \<in># snd s" for a
    using act_ok_ext [OF ext m] inv that by (simp add: reg_inv_def)
  have was: "act_ok (fst s) a" if "a \<in># snd s" for a using inv that by (simp add: reg_inv_def)
  show ?thesis
    using st
  proof cases
    case (reg_get sid now r nx r' A)
    with old m get_acts [of r sid now nx r'] show ?thesis by auto
  next
    case (reg_tick r A now)
    have "here r e" if "(sid, e) \<in> set (reap_snapshot r)" for sid e
      using that m map_values [of r sid e] reg_tick(1) by (auto simp: reap_snapshot_def here_def)
    with old reg_tick show ?thesis by auto
  next
    case (reg_close r es r' A)
    have "e < length (rg_heap r)" if "e \<in> set (map snd (rg_entries r))" for e
      using that m map_values [of r _ e] reg_close(1) by auto
    with old reg_close show ?thesis by (auto simp: close_section_def)
  next
    case (reg_delete sid r e r' A)
    with old m map_lookup [of r sid e] show ?thesis by (auto simp: delete_section_def split: option.splits)
  next
    case (reg_publish sid e k sessionID now r r' A)
    with old [of "RInit sid e k"] old show ?thesis by (auto simp: publish_def split: if_splits)
  next
    case (reg_reapClose r now sid e es A)
    with old [of "RReapClose now sid e es"] old show ?thesis by auto
  next
    case (reg_published r sid e k A)
    have p: "act_ok r (RPublished sid e k)" using was [of "RPublished sid e k"] reg_published(1) by simp
    with m reg_published(1) have "here r e" by (auto simp: here_def map_inv_def)
    from here_ext [OF ext] this p old [of "RPublished sid e k"] old reg_published show ?thesis by auto
  qed (use old in \<open>force+\<close>)
qed

text \<open>Mutexes.\<close>

lemma step_locks:
  assumes st: "reg_step s t" and inv: "reg_inv s"
  shows "lock_inv t"
proof -
  have l: "holders e (snd s) = (if e < length (rg_heap (fst s)) \<and> en_locked (rg_heap (fst s) ! e) then 1 else 0)" for e
    using inv by (simp add: reg_inv_def lock_inv_def)
  have was: "act_ok (fst s) a" if "a \<in># snd s" for a using inv that by (simp add: reg_inv_def)
  have m: "map_inv (fst s)" using inv by (simp add: reg_inv_def)
  have "holders e (snd t) = (if e < length (rg_heap (fst t)) \<and> en_locked (rg_heap (fst t) ! e) then 1 else 0)" for e
    using st
  proof cases
    case (reg_get sid now r nx r' A)
    show ?thesis
    proof (cases "gm_get (rg_entries r) sid")
      case None
      with reg_get l [of e] show ?thesis
        by (auto simp: session_Get_def get_install_def nth_append less_Suc_eq split: if_splits)
    next
      case (Some e')
      with m reg_get(1) have "e' < length (rg_heap r)" "\<not> en_Dead (rg_heap r ! e')" using map_lookup by auto
      with Some reg_get l [of e] show ?thesis
        by (auto simp: session_Get_def Let_def mu_Lock_def upd_at split: if_splits)
    qed
  next
    case (reg_recycled r sid e' A)
    with was [of "RRecycled sid e'"] l [of e] show ?thesis by (auto simp: entry_ops upd_at here_def split: if_splits)
  next
    case (reg_done r sid e' A now)
    with was [of "RStream sid e'"] l [of e] show ?thesis by (auto simp: entry_ops upd_at here_def split: if_splits)
  next
    case (reg_lock r e' sid A)
    with was [of "RHold sid e'"] l [of e] show ?thesis by (auto simp: entry_ops upd_at here_def split: if_splits)
  next
    case (reg_reapLock r e' now sid es A)
    with was [of "RReap now ((sid, e') # es)"] l [of e] show ?thesis
      by (auto simp: entry_ops upd_at here_def split: if_splits)
  next
    case (reg_reapFresh now e' r sid es A)
    with was [of "RReapHas now sid e' es"] l [of e] show ?thesis by (auto simp: entry_ops upd_at here_def split: if_splits)
  next
    case (reg_reapDel r now sid e' es A)
    with was [of "RReapDel now sid e' es"] l [of e] show ?thesis
      by (auto simp: entry_ops upd_at here_def reap_remove_def split: if_splits)
  qed (use l [of e] in \<open>auto simp: publishError_def publish_def abandon_def published_def entry_SetModel_def watchEntry_def
    delete_section_def delete_finish_def close_section_def close_signal_def close_entry_def entry_ops Let_def upd_at
    split: if_splits option.splits\<close>)
  then show ?thesis by (simp add: lock_inv_def)
qed

text \<open>Placeholders and their creators.\<close>

lemma makers_out:
  assumes "\<And>a. a \<in># A \<Longrightarrow> act_ok r a" "length (rg_heap r) \<le> e"
  shows "makers e A = 0"
proof -
  have "creates a \<noteq> Some e" if "a \<in># A" for a
    using assms(1) [OF that] assms(2) by (cases a) auto
  then show ?thesis by (simp add: makers_def)
qed

lemma makers_in: "a \<in># A \<Longrightarrow> creates a = Some e \<Longrightarrow> 0 < makers e A"
  unfolding makers_def by (metis (mono_tags, lifting) filter_mset_eq_conv gr0I mem_Collect_eq set_mset_filter size_eq_0_iff_empty empty_iff set_mset_empty)

lemma building_creates: "building a = Some e \<Longrightarrow> creates a = Some e"
  by (cases a) auto

lemma createI:
  assumes "\<And>e. makers e A \<le> 1" "\<And>e. e < length (rg_heap r) \<Longrightarrow> \<not> en_ready (rg_heap r ! e) \<Longrightarrow> makers e A = 1"
    "\<And>a e. a \<in># A \<Longrightarrow> building a = Some e \<Longrightarrow> en_creating (rg_heap r ! e)"
  shows "create_inv (r, A)"
  using assms by (auto simp: create_inv_def)

lemma createD:
  assumes "create_inv (r, A)"
  shows "makers e A \<le> 1" "e < length (rg_heap r) \<Longrightarrow> \<not> en_ready (rg_heap r ! e) \<Longrightarrow> makers e A = 1"
    "a \<in># A \<Longrightarrow> building a = Some e \<Longrightarrow> en_creating (rg_heap r ! e)"
  using assms by (auto simp: create_inv_def)

text \<open>A step that moves no creator, completes no placeholder and opens no \<open>ready\<close>.\<close>

lemma create_same:
  assumes "create_inv s" "\<And>e. makers e (snd t) = makers e (snd s)"
    "\<And>a e. a \<in># snd t \<Longrightarrow> building a = Some e \<Longrightarrow> a \<in># snd s"
    "length (rg_heap (fst t)) = length (rg_heap (fst s))"
    "\<And>e. e < length (rg_heap (fst s)) \<Longrightarrow> en_ready (rg_heap (fst s) ! e) \<Longrightarrow> en_ready (rg_heap (fst t) ! e)"
    "\<And>e. en_creating (rg_heap (fst t) ! e) = en_creating (rg_heap (fst s) ! e)"
  shows "create_inv t"
proof -
  obtain r A r' A' where p: "s = (r, A)" "t = (r', A')" by (cases s, cases t) auto
  note c = assms(1) [unfolded p] and q = assms(2-6) [unfolded p fst_conv snd_conv]
  show ?thesis
    unfolding p
  proof (rule createI)
    show "makers e A' \<le> 1" for e using createD(1) [OF c] q(1) by simp
    show "makers e A' = 1" if "e < length (rg_heap r')" "\<not> en_ready (rg_heap r' ! e)" for e
      using createD(2) [OF c, of e] q(1,3) q(4) [of e] that by auto
    show "en_creating (rg_heap r' ! e)" if "a \<in># A'" "building a = Some e" for a e
      using createD(3) [OF c] q(2) [OF that] q(5) that by simp
  qed
qed

lemma upd_creating [simp]:
  assumes "\<And>en. en_creating (f en) = en_creating en"
  shows "en_creating ((rg_heap r)[e := f (rg_heap r ! e)] ! e') = en_creating (rg_heap r ! e')"
  using assms by (cases "e < length (rg_heap r)") (auto simp: nth_list_update list_update_beyond)

lemma create_install:
  assumes c: "create_inv (r, add_mset (RGet sid) A)" and ok: "\<And>a. a \<in># A \<Longrightarrow> act_ok r a"
    and "get_install sid r = (nx, r')"
  shows "create_inv (r', after_get sid nx + A)"
proof (cases "int (length (rg_entries r)) \<ge> sc_MaxSessions (rg_cfg r)")
  case True
  with assms show ?thesis by (auto simp: get_install_def create_inv_def split: if_splits)
next
  case False
  let ?n = "length (rg_heap r)"
  have nx: "nx = GetCreate ?n" and len: "length (rg_heap r') = Suc ?n"
    and new: "en_creating (rg_heap r' ! ?n)" and old: "\<And>e. e < ?n \<Longrightarrow> rg_heap r' ! e = rg_heap r ! e"
    using assms(3) False by (auto simp: get_install_def nth_append)
  have out: "makers e A = 0" if "?n \<le> e" for e using makers_out [of A r e] ok that by auto
  have lt: "e < ?n" if "a \<in># A" "building a = Some e" for a e
    using out [of e] makers_in [OF that(1) building_creates [OF that(2)]] by (cases "e < ?n") auto
  have D: "makers e A \<le> 1" "e < ?n \<Longrightarrow> \<not> en_ready (rg_heap r ! e) \<Longrightarrow> makers e A = 1" for e
    using createD(1,2) [OF c, of e] by auto
  show ?thesis
    unfolding nx
  proof (rule createI)
    show "makers e (after_get sid (GetCreate ?n) + A) \<le> 1" for e
      using D(1) [of e] out [of e] by auto
    show "makers e (after_get sid (GetCreate ?n) + A) = 1" if "e < length (rg_heap r')" "\<not> en_ready (rg_heap r' ! e)" for e
      using that D(2) [of e] out [of e] old [of e] len by (cases "e = ?n") auto
    show "en_creating (rg_heap r' ! e)" if "a \<in># after_get sid (GetCreate ?n) + A" "building a = Some e" for a e
      using that new old [of e] lt [of a e] createD(3) [OF c, of a e] by auto
  qed
qed

lemma create_get:
  assumes "create_inv (r, add_mset (RGet sid) A)" "\<And>a. a \<in># A \<Longrightarrow> act_ok r a" "map_inv r"
    "session_Get sid now r = (nx, r')"
  shows "create_inv (r', after_get sid nx + A)"
proof (cases "gm_get (rg_entries r) sid")
  case None
  then have "rg_closed r \<and> nx = GetErr ErrRegistryClosed \<and> r' = r \<or> get_install sid r = (nx, r')"
    using assms(4) by (auto simp: session_Get_def split: if_splits)
  then show ?thesis
  proof
    assume "rg_closed r \<and> nx = GetErr ErrRegistryClosed \<and> r' = r"
    with assms(1) show ?thesis by (auto simp: create_inv_def split: if_splits)
  qed (rule create_install [OF assms(1,2)])
next
  case (Some e)
  note e = map_lookup [OF assms(3) Some]
  show ?thesis
    by (rule create_same [OF assms(1)])
      (use assms(4) Some e in \<open>auto simp: session_Get_def Let_def mu_Lock_def upd_at split: if_splits\<close>)
qed

lemma step_create:
  assumes st: "reg_step s t" and inv: "reg_inv s"
  shows "create_inv t"
proof -
  have c: "create_inv s" and m: "map_inv (fst s)" and ok: "\<And>a. a \<in># snd s \<Longrightarrow> act_ok (fst s) a"
    using inv by (auto simp: reg_inv_def)
  show ?thesis
    using st
  proof cases
    case (reg_get sid now r nx r' A)
    with c m ok create_get [of r sid A now nx r'] show ?thesis by auto
  next
    case (reg_spawn k r sid e A)
    then show ?thesis using c by (auto simp: create_inv_def)
  next
    case (reg_spawnFail r sid e A)
    then show ?thesis using c by (auto simp: create_inv_def publishError_def)
  next
    case (reg_initFail r sid e k A)
    then show ?thesis using c by (auto simp: create_inv_def publishError_def)
  next
    case (reg_lost sid e k sessionID now r r' A)
    then show ?thesis using c by (auto simp: create_inv_def publish_def split: if_splits)
  next
    case (reg_publish sid e k sessionID now r r' A)
    have e: "e < length (rg_heap r)" using ok [of "RInit sid e k"] reg_publish(1) by simp
    have "building a \<noteq> Some e" if "a \<in># A" for a
      using createD(1) [OF c [unfolded reg_publish(1)], of e] makers_in [OF that building_creates, of e] by auto
    with c reg_publish e show ?thesis
      by (auto simp: create_inv_def publish_def upd_at split: if_splits) (metis nth_list_update_neq)+
  next
    case (reg_abandon r e k A)
    have e: "e < length (rg_heap r)" using ok [of "RAbandon e k"] reg_abandon(1) by simp
    show ?thesis
      unfolding reg_abandon(2)
    proof (rule createI)
      note D = createD [OF c [unfolded reg_abandon(1)]]
      show "makers e' A \<le> 1" for e' using D(1) [of e'] by (auto split: if_splits)
      show "makers e' A = 1" if "e' < length (rg_heap (abandon e k r))" "\<not> en_ready (rg_heap (abandon e k r) ! e')" for e'
        using that D(2) [of e'] e by (auto simp: abandon_def closeReady_def upd_at split: if_splits)
      show "en_creating (rg_heap (abandon e k r) ! e')" if "a \<in># A" "building a = Some e'" for a e'
        using that D(3) [of a e'] by (simp add: abandon_def closeReady_def)
    qed
  next
    case (reg_published r sid e k A)
    have e: "e < length (rg_heap r)" using ok [of "RPublished sid e k"] reg_published(1) by simp
    show ?thesis
      unfolding reg_published(2)
    proof (rule createI)
      note D = createD [OF c [unfolded reg_published(1)]]
      show "makers e' ({#RHold sid e, RWatch sid e k#} + A) \<le> 1" for e' using D(1) [of e'] by (auto split: if_splits)
      show "makers e' ({#RHold sid e, RWatch sid e k#} + A) = 1"
        if "e' < length (rg_heap (published e r))" "\<not> en_ready (rg_heap (published e r) ! e')" for e'
        using that D(2) [of e'] e by (auto simp: published_def closeReady_def upd_at split: if_splits)
      show "en_creating (rg_heap (published e r) ! e')" if "a \<in># {#RHold sid e, RWatch sid e k#} + A" "building a = Some e'" for a e'
        using that D(3) [of a e'] by (auto simp: published_def closeReady_def)
    qed
  next
    case (reg_done r sid e A now)
    have "e < length (rg_heap r)" using ok [of "RStream sid e"] reg_done(1) by (simp add: here_def)
    then show ?thesis
      by (intro create_same [OF c]) (auto simp: reg_done entry_ops nth_list_update)
  qed (rule create_same [OF c]; force simp: entry_SetModel_def watchEntry_def delete_section_def delete_finish_def
      reap_remove_def close_section_def close_signal_def close_entry_def entry_ops Let_def upd_at
      split: if_splits option.splits)+
qed

text \<open>Worker processes.\<close>

lemma act_range:
  "act_ok r a \<Longrightarrow> e \<in> closes a \<Longrightarrow> e < length (rg_heap r)"
  by (cases a) (auto simp: here_def)

lemma kept_step:
  assumes "kept_by k (r, A)" "reg_ext r r'" "map_inv r" "\<And>a. a \<in># A \<Longrightarrow> act_ok r a"
    "\<And>sid e. gm_get (rg_entries r) sid = Some e \<Longrightarrow> en_Client (rg_heap r ! e) = Some k \<Longrightarrow>
       (\<exists>sid'. gm_get (rg_entries r') sid' = Some e) \<or> (\<exists>a \<in># A'. e \<in> closes a)"
    "\<And>a. a \<in># A \<Longrightarrow> carries a = Some k \<Longrightarrow> kept_by k (r', A')"
    "\<And>a e. a \<in># A \<Longrightarrow> e \<in> closes a \<Longrightarrow> en_Client (rg_heap r ! e) = Some k \<Longrightarrow> \<exists>a' \<in># A'. e \<in> closes a'"
  shows "kept_by k (r', A')"
proof -
  have client: "en_Client (rg_heap r' ! e) = Some k" if "e < length (rg_heap r)" "en_Client (rg_heap r ! e) = Some k" for e
    using assms(2) that by (auto simp: reg_ext_def)
  from assms(1) consider (mapped) sid e where "gm_get (rg_entries r) sid = Some e" "en_Client (rg_heap r ! e) = Some k"
    | (carried) a where "a \<in># A" "carries a = Some k"
    | (closing) a e where "a \<in># A" "e \<in> closes a" "en_Client (rg_heap r ! e) = Some k"
    by (auto simp: kept_by_def)
  then show ?thesis
  proof cases
    case mapped
    with assms(5) client [of e] map_lookup(1) [OF assms(3)] show ?thesis unfolding kept_by_def fst_conv snd_conv by metis
  next
    case carried
    with assms(6) show ?thesis by blast
  next
    case closing
    with assms(7) client [of e] act_range [OF assms(4)] show ?thesis unfolding kept_by_def fst_conv snd_conv by metis
  qed
qed

lemma kept_carry: "a \<in># A \<Longrightarrow> carries a = Some k \<Longrightarrow> kept_by k (r, A)"
  by (auto simp: kept_by_def)

text \<open>The map stays, and the activities that answer for workers stay or hand over to others that do.\<close>

lemma kept_same:
  assumes "kept_by k (r, A)" "reg_ext r r'" "map_inv r" "\<And>a. a \<in># A \<Longrightarrow> act_ok r a"
    "rg_entries r' = rg_entries r"
    "\<And>a. a \<in># A \<Longrightarrow> carries a = None \<and> closes a = {} \<or> a \<in># A' \<or>
       (\<exists>a' \<in># A'. carries a' = carries a \<and> closes a' = closes a)"
  shows "kept_by k (r', A')"
proof (rule kept_step [OF assms(1-4)])
  show "kept_by k (r', A')" if "a \<in># A" "carries a = Some k" for a
    using assms(6) [OF that(1)] that(2) kept_carry by (metis option.distinct(1))
  show "\<exists>a' \<in># A'. e \<in> closes a'" if "a \<in># A" "e \<in> closes a" for a e
    using assms(6) [OF that(1)] that(2) by blast
qed (use assms(5) in auto)

text \<open>One activity goes, and the workers it answered for are closed.\<close>

lemma kept_gone:
  assumes "kept_by k (r, add_mset b A)" "reg_ext r r'" "map_inv r" "\<And>a. a \<in># add_mset b A \<Longrightarrow> act_ok r a"
    "rg_entries r' = rg_entries r" "A \<subseteq># A'"
    "carries b \<noteq> Some k" "\<And>e. e \<in> closes b \<Longrightarrow> en_Client (rg_heap r ! e) = Some k \<Longrightarrow> \<exists>a' \<in># A'. e \<in> closes a'"
  shows "kept_by k (r', A')"
proof (rule kept_step [OF assms(1-4)])
  show "kept_by k (r', A')" if "a \<in># add_mset b A" "carries a = Some k" for a
    using that assms(6,7) kept_carry [of a A' k r'] by (auto dest: mset_subset_eqD)
  show "\<exists>a' \<in># A'. e \<in> closes a'" if "a \<in># add_mset b A" "e \<in> closes a" "en_Client (rg_heap r ! e) = Some k" for a e
    using that assms(6,8) by (auto dest: mset_subset_eqD)
qed (use assms(5) in auto)

text \<open>One session leaves the map.\<close>

lemma kept_unmapped:
  assumes "kept_by k (r, A)" "reg_ext r r'" "map_inv r" "\<And>a. a \<in># A \<Longrightarrow> act_ok r a"
    "\<And>sid'. sid' \<noteq> sid \<Longrightarrow> gm_get (rg_entries r') sid' = gm_get (rg_entries r) sid'"
    "\<And>e. gm_get (rg_entries r) sid = Some e \<Longrightarrow> en_Client (rg_heap r ! e) = Some k \<Longrightarrow>
       gm_get (rg_entries r') sid = Some e \<or> (\<exists>a \<in># A'. e \<in> closes a)"
    "\<And>a. a \<in># A \<Longrightarrow> carries a = None \<and> closes a = {} \<or> a \<in># A' \<or>
       (\<exists>a' \<in># A'. carries a' = carries a \<and> closes a' = closes a)"
  shows "kept_by k (r', A')"
proof (rule kept_step [OF assms(1-4)])
  show "(\<exists>sid'. gm_get (rg_entries r') sid' = Some e) \<or> (\<exists>a \<in># A'. e \<in> closes a)"
    if "gm_get (rg_entries r) sid' = Some e" "en_Client (rg_heap r ! e) = Some k" for sid' e
    using that assms(5) [of sid'] assms(6) [of e] by (cases "sid' = sid") auto
  show "kept_by k (r', A')" if "a \<in># A" "carries a = Some k" for a
    using assms(7) [OF that(1)] that(2) kept_carry by (metis option.distinct(1))
  show "\<exists>a' \<in># A'. e \<in> closes a'" if "a \<in># A" "e \<in> closes a" for a e
    using assms(7) [OF that(1)] that(2) by blast
qed

lemma fresh_carried:
  assumes "reg_step (r, A) (r', A')" "k \<in> rg_open r'" "k \<notin> rg_open r"
  shows "\<exists>a \<in># A'. carries a = Some k"
  using assms(1)
proof cases
  case (reg_get sid now nx B)
  with assms(2,3) show ?thesis
    by (auto simp: session_Get_def get_install_def Let_def mu_Lock_def split: if_splits option.splits)
qed (use assms(2,3) in \<open>auto simp: publishError_def publish_def abandon_def published_def
    entry_SetModel_def watchEntry_def delete_section_def delete_finish_def reap_remove_def close_section_def
    close_signal_def close_entry_def entry_ops Let_def split: if_splits option.splits\<close>)

lemma step_kept:
  assumes st: "reg_step (r, A) (r', A')" and inv: "reg_inv (r, A)" and old: "kept_by k (r, A)" and k: "k \<in> rg_open r'"
  shows "kept_by k (r', A')"
proof -
  note m = invD(1) [OF inv] and ok = invD(2) [OF inv] and ext = step_ext [OF st inv, unfolded fst_conv]
  note same = kept_same [OF old ext m ok] and unmapped = kept_unmapped [OF old ext m ok]
  show ?thesis
    using st
  proof cases
    case (reg_get sid now nx B)
    have dead: "\<not> en_Dead (rg_heap r ! e)" if "gm_get (rg_entries r) sid = Some e" for e
      using map_lookup [OF m that] by simp
    show ?thesis
      by (rule unmapped [of sid])
        (use reg_get dead in \<open>auto simp: session_Get_def get_install_def Let_def mu_Lock_def split: if_splits option.splits\<close>)
  next
    case (reg_publish sid e k' sessionID now B)
    have e: "e < length (rg_heap r)" using ok [of "RInit sid e k'"] reg_publish(1) by simp
    have r': "gm_get (rg_entries r) sid = Some e" "rg_entries r' = rg_entries r" "en_Client (rg_heap r' ! e) = Some k'"
      using reg_publish(3) e by (auto simp: publish_def split: if_splits)
    show ?thesis
    proof (cases "k = k'")
      case True
      with r' show ?thesis unfolding kept_by_def fst_conv by metis
    next
      case False
      show ?thesis
        by (rule kept_gone [OF old [unfolded reg_publish(1)] ext m])
          (use False r'(2) reg_publish ok in auto)
    qed
  next
    case (reg_recycle sid e B)
    show ?thesis
      by (rule kept_gone [OF old [unfolded reg_recycle(1)] ext m]) (use k reg_recycle ok in auto)
  next
    case (reg_reapClose now sid e es B)
    show ?thesis
      by (rule kept_gone [OF old [unfolded reg_reapClose(1)] ext m]) (use k reg_reapClose ok in auto)
  next
    case (reg_deleted e closeErr)
    show ?thesis
      by (rule kept_gone [OF old [unfolded reg_deleted(1)] ext m])
        (use k reg_deleted ok in \<open>auto simp: delete_finish_def closeReady_def Let_def split: if_splits\<close>)
  next
    case (reg_abandon e c)
    show ?thesis
      by (rule kept_gone [OF old [unfolded reg_abandon(1)] ext m])
        (use k reg_abandon ok in \<open>auto simp: abandon_def closeReady_def\<close>)
  next
    case (reg_closeEntry e es B)
    show ?thesis
      by (rule kept_gone [OF old [unfolded reg_closeEntry(1)] ext m])
        (use k reg_closeEntry ok in \<open>auto simp: close_entry_def closeReady_def split: option.splits\<close>)
  next
    case (reg_spawnFail sid e B)
    have "en_creating (rg_heap r ! e)" using invD(4) [OF inv] reg_spawnFail(1) by (auto simp: create_inv_def)
    with m ok [of "RCreate sid e"] reg_spawnFail(1) have "en_Client (rg_heap r ! e) = None" by (auto simp: map_inv_def)
    then show ?thesis
      by (intro unmapped [of sid]) (use reg_spawnFail in \<open>auto simp: publishError_def split: if_splits\<close>)
  next
    case (reg_initFail sid e k' B)
    have "en_creating (rg_heap r ! e)" using invD(4) [OF inv] reg_initFail(1) by (auto simp: create_inv_def)
    with m ok [of "RInit sid e k'"] reg_initFail(1) have "en_Client (rg_heap r ! e) = None" by (auto simp: map_inv_def)
    then show ?thesis
      by (intro unmapped [of sid]) (use reg_initFail in \<open>auto simp: publishError_def split: if_splits\<close>)
  next
    case (reg_watch k' sid e)
    show ?thesis
      by (rule unmapped [of sid])
        (use reg_watch ok [of "RWatch sid e k'"] k in \<open>auto simp: watchEntry_def split: if_splits\<close>)
  next
    case (reg_reapDel now sid e es B)
    show ?thesis
      by (rule unmapped [of sid])
        (use reg_reapDel ok [of "RReapDel now sid e es"] k in \<open>auto simp: reap_remove_def mu_Unlock_def split: if_splits\<close>)
  next
    case (reg_delete sid e)
    show ?thesis
      by (rule unmapped [of sid]) (use reg_delete in \<open>auto simp: delete_section_def split: option.splits\<close>)
  next
    case (reg_close es)
    show ?thesis
    proof (rule kept_step [OF old ext m ok])
      show "(\<exists>sid'. gm_get (rg_entries r') sid' = Some e) \<or> (\<exists>a \<in># A'. e \<in> closes a)"
        if "gm_get (rg_entries r) sid = Some e" for sid e
        using map_of_SomeD [OF that] reg_close by (force simp: close_section_def)
    qed (use reg_close in \<open>auto intro: kept_carry\<close>)
  qed (rule same; auto simp: publish_def published_def entry_SetModel_def delete_section_def close_signal_def entry_ops
      split: if_splits option.splits)+
qed

lemma step_workers:
  assumes st: "reg_step s t" and inv: "reg_inv s"
  shows "worker_inv t"
proof -
  obtain r A r' A' where p: "s = (r, A)" "t = (r', A')" by (cases s, cases t) auto
  have "kept_by k (r', A')" if k: "k \<in> rg_open r'" for k
  proof (cases "k \<in> rg_open r")
    case True
    then have "kept_by k (r, A)" using invD(5) [OF inv [unfolded p]] by (auto simp: worker_inv_def)
    with step_kept st inv k p show ?thesis by blast
  next
    case False
    from fresh_carried [OF st [unfolded p] k False] show ?thesis by (auto intro: kept_carry)
  qed
  then show ?thesis by (simp add: worker_inv_def p)
qed

section \<open>The system\<close>

lemma reg_start_inv:
  assumes "reg_start s"
  shows "reg_inv s"
proof -
  obtain cfg where s: "s = (session_New cfg, {#RReaper#})" using assms by (auto simp: reg_start_def)
  have "0 \<le> sc_MaxSessions (session_applyDefaults cfg)" by (simp add: session_applyDefaults_def Let_def)
  then show ?thesis
    by (simp add: s reg_inv_def map_inv_def lock_inv_def create_inv_def worker_inv_def session_New_def)
qed

lemma reg_step_inv: "reg_inv s \<Longrightarrow> reg_step s t \<Longrightarrow> reg_inv t"
  using step_map step_acts step_locks step_create step_workers unfolding reg_inv_def [of t] by blast

interpretation reg_sys: invariant_system reg_start reg_step reg_inv
  by unfold_locales (auto intro: reg_start_inv reg_step_inv)

end
