(* ===== verification/SessionProps.thy ===== *)
theory SessionProps
  imports SessionInv
begin

text \<open>
  The properties of the session registry over every run of \<open>reg_step\<close>, and the concrete run that
  witnesses them.
\<close>

section \<open>Lemmas\<close>

lemma reachable_reg_inv: "reg_start s0 \<Longrightarrow> reg_step\<^sup>*\<^sup>* s0 s \<Longrightarrow> reg_inv s"
  by (rule reg_sys.reachable_inv)

lemma holders_mem:
  assumes "a \<in># A" "locks a = Some e"
  shows "0 < holders e A"
proof -
  have "a \<in># filter_mset (\<lambda>a. locks a = Some e) A" using assms by simp
  then show ?thesis unfolding holders_def by (metis gr0I multi_member_split size_add_mset size_eq_Suc_imp_eq_union Zero_not_Suc)
qed

lemma holders_two:
  assumes "a \<in># A" "b \<in># A" "locks a = Some e" "locks b = Some e" "a \<noteq> b"
  shows "2 \<le> holders e A"
proof -
  obtain B where B: "A = add_mset a B" using assms(1) by (metis mset_add)
  with assms(2,5) have "b \<in># B" by auto
  from holders_mem [OF this assms(4)] show ?thesis using assms(3) by (simp add: B)
qed

section \<open>A concrete run\<close>

definition demo_scfg :: SessionConfig where
  "demo_scfg = \<lparr>sc_TTL = 10, sc_TickInterval = 5, sc_MaxSessions = 2, sc_RecyclePct = 80\<rparr>"

definition demo_s0 :: Registry where "demo_s0 = session_New demo_scfg"
definition demo_s1 :: Registry where "demo_s1 = snd (session_Get ''s'' 1 demo_s0)"
definition demo_s2 :: Registry where "demo_s2 = demo_s1\<lparr>rg_open := insert 7 (rg_open demo_s1)\<rparr>"
definition demo_s3 :: Registry where "demo_s3 = snd (publish ''s'' 0 7 ''acp'' 2 demo_s2)"
definition demo_s4 :: Registry where "demo_s4 = published 0 demo_s3"
definition demo_s5 :: Registry where "demo_s5 = mu_Lock 0 demo_s4"
definition demo_s6 :: Registry where "demo_s6 = mu_Unlock 0 (MarkUsed 0 3 demo_s5)"
definition demo_s7 :: Registry where "demo_s7 = mu_Lock 0 demo_s6"
definition demo_s8 :: Registry where "demo_s8 = snd (session_Get ''s'' 15 demo_s7)"
definition demo_s9 :: Registry where "demo_s9 = close_client (Some 7) demo_s8"
definition demo_s10 :: Registry where "demo_s10 = mu_Unlock 0 (reap_remove ''s'' 0 demo_s9)"

abbreviation reg_run :: "Registry \<Rightarrow> ract multiset \<Rightarrow> bool" where
  "reg_run r A \<equiv> reg_step\<^sup>*\<^sup>* (demo_s0, {#RReaper#}) (r, A)"

lemma reg_run_step: "reg_run r A \<Longrightarrow> reg_step (r, A) (r', A') \<Longrightarrow> reg_run r' A'"
  by (rule rtranclp.rtrancl_into_rtrancl)

lemma demo_reg_start: "reg_start (demo_s0, {#RReaper#})"
  by (auto simp: reg_start_def demo_s0_def)

lemma demo_created: "reg_run demo_s1 {#RCreate ''s'' 0, RReaper#}"
proof -
  have 1: "reg_run demo_s0 {#RGet ''s'', RReaper#}" by (rule r_into_rtranclp, rule reg_request)
  have "session_Get ''s'' 1 demo_s0 = (GetCreate 0, demo_s1)" by code_simp
  from reg_run_step [OF 1 reg_get [OF this, of "{#RReaper#}"]] show ?thesis by (simp add: add_mset_commute)
qed

lemma demo_waiting: "reg_run demo_s1 {#RWait ''s'' 0, RCreate ''s'' 0, RReaper#}"
proof -
  have 1: "reg_run demo_s1 {#RGet ''s'', RCreate ''s'' 0, RReaper#}" by (rule reg_run_step [OF demo_created reg_request])
  have "session_Get ''s'' 1 demo_s1 = (GetWait 0, demo_s1)" by code_simp
  from reg_run_step [OF 1 reg_get [OF this, of "{#RCreate ''s'' 0, RReaper#}"]] show ?thesis by (simp add: add_mset_commute)
qed

lemma demo_streaming: "reg_run demo_s5 {#RStream ''s'' 0, RWatch ''s'' 0 7, RReaper#}"
proof -
  have "new_client 7 demo_s1 {#RCreate ''s'' 0, RReaper#}" by code_simp
  from reg_run_step [OF demo_created reg_spawn [OF this]]
  have 1: "reg_run demo_s2 {#RInit ''s'' 0 7, RReaper#}" unfolding demo_s2_def .
  have "publish ''s'' 0 7 ''acp'' 2 demo_s2 = (True, demo_s3)" by code_simp
  from reg_run_step [OF 1 reg_publish [OF this]] have 2: "reg_run demo_s3 {#RPublished ''s'' 0 7, RReaper#}" .
  have 3: "reg_run demo_s4 {#RHold ''s'' 0, RWatch ''s'' 0 7, RReaper#}"
    using reg_run_step [OF 2 reg_published] unfolding demo_s4_def by (simp add: add_mset_commute)
  have "\<not> en_locked (rg_heap demo_s4 ! 0)" by code_simp
  from reg_run_step [OF 3 reg_lock [OF this]] show ?thesis unfolding demo_s5_def .
qed

lemma demo_idle: "reg_run demo_s6 {#RWatch ''s'' 0 7, RReaper#}"
  using reg_run_step [OF demo_streaming reg_done [of _ _ _ _ 3]] unfolding demo_s6_def .

lemma demo_reaping: "reg_run demo_s7 {#RReapClose 14 ''s'' 0 [], RWatch ''s'' 0 7#}"
proof -
  have snap: "reap_snapshot demo_s6 = [(''s'', 0)]" by code_simp
  have "reg_run demo_s6 {#RReaper, RWatch ''s'' 0 7#}" using demo_idle by (simp add: add_mset_commute)
  from reg_run_step [OF this reg_tick [of _ _ 14]] have 1: "reg_run demo_s6 {#RReap 14 [(''s'', 0)], RWatch ''s'' 0 7#}"
    unfolding snap .
  have "\<not> en_locked (rg_heap demo_s6 ! 0)" by code_simp
  from reg_run_step [OF 1 reg_reapLock [OF this]]
  have 2: "reg_run demo_s7 {#RReapHas 14 ''s'' 0 [], RWatch ''s'' 0 7#}" unfolding demo_s7_def .
  have "reap_expired 14 0 demo_s7" by code_simp
  from reg_run_step [OF 2 reg_reapExpired [OF this]] show ?thesis .
qed

lemma demo_handed_out: "reg_run demo_s8 {#RReapClose 14 ''s'' 0 [], RHold ''s'' 0, RWatch ''s'' 0 7#}"
proof -
  have 1: "reg_run demo_s7 {#RGet ''s'', RReapClose 14 ''s'' 0 [], RWatch ''s'' 0 7#}"
    by (rule reg_run_step [OF demo_reaping reg_request])
  have "session_Get ''s'' 15 demo_s7 = (GetHit 0, demo_s8)" by code_simp
  from reg_run_step [OF 1 reg_get [OF this]] show ?thesis by (simp add: add_mset_commute)
qed

lemma demo_reaped: "reg_run demo_s10 {#RReap 14 [], RHold ''s'' 0, RWatch ''s'' 0 7#}"
proof -
  have c: "en_Client (rg_heap demo_s8 ! 0) = Some 7" by code_simp
  from reg_run_step [OF demo_handed_out reg_reapClose]
  have "reg_run demo_s9 {#RReapDel 14 ''s'' 0 [], RHold ''s'' 0, RWatch ''s'' 0 7#}" unfolding c demo_s9_def .
  from reg_run_step [OF this reg_reapDel] show ?thesis unfolding demo_s10_def .
qed

section \<open>Properties\<close>

text \<open>
  C13. The registry never holds more than \<open>MaxSessions\<close> sessions, whatever requests, deletions,
  crashes and reaps interleave; every session in the map points to an allocated entry of its
  own, and that entry is not marked dead, so the branch of \<open>Get\<close> that replaces dead entries is never taken.
\<close>

theorem session_bound:
  assumes "reg_start s0" "reg_step\<^sup>*\<^sup>* s0 (r, A)"
  shows "int (session_Stats r) \<le> sc_MaxSessions (rg_cfg r) \<and> distinct (map fst (rg_entries r)) \<and>
    distinct (map snd (rg_entries r)) \<and>
    (gm_get (rg_entries r) sid = Some e \<longrightarrow> e < length (rg_heap r) \<and> \<not> en_Dead (rg_heap r ! e))"
proof -
  have m: "map_inv r" using reachable_reg_inv [OF assms] by (simp add: reg_inv_def)
  have "distinct (map snd (rg_entries r))"
  proof -
    have "inj_on snd (set (rg_entries r))"
      using m unfolding inj_on_def map_inv_def by (metis gm_set_iff prod.collapse)
    moreover have "distinct (rg_entries r)" using m by (simp add: map_inv_def distinct_map)
    ultimately show ?thesis by (simp add: distinct_map)
  qed
  with m show ?thesis by (auto simp: map_inv_def session_Stats_def)
qed

theorem session_bound_witness:
  "int (session_Stats demo_s8) \<le> sc_MaxSessions (rg_cfg demo_s8) \<and> \<not> en_Dead (rg_heap demo_s8 ! 0)"
proof -
  have "gm_get (rg_entries demo_s8) ''s'' = Some 0" by code_simp
  with session_bound [OF demo_reg_start demo_handed_out, of "''s''" 0] show ?thesis by simp
qed

text \<open>
  C14. The registry leaks no worker process. Every worker that was spawned and is still running
  belongs to a session in the map, or to a creation, a recycle, a deletion, a reap or the
  shutdown under way that will hand it over or close it; after \<open>Close\<close> and when none of these is
  under way any more, no worker runs.
\<close>

theorem session_no_leak:
  assumes "reg_start s0" "reg_step\<^sup>*\<^sup>* s0 (r, A)"
  shows "(k \<in> rg_open r \<longrightarrow>
      (\<exists>sid e. gm_get (rg_entries r) sid = Some e \<and> en_Client (rg_heap r ! e) = Some k) \<or>
      (\<exists>a. a \<in># A \<and> (carries a = Some k \<or> (\<exists>e. e \<in> closes a \<and> en_Client (rg_heap r ! e) = Some k)))) \<and>
    (rg_closed r \<and> filter_mset (\<lambda>a. carries a \<noteq> None \<or> closes a \<noteq> {}) A = {#} \<longrightarrow> rg_open r = {})"
proof -
  have w: "worker_inv (r, A)" and m: "map_inv r" using reachable_reg_inv [OF assms] by (auto simp: reg_inv_def)
  have kept: "(\<exists>sid e. gm_get (rg_entries r) sid = Some e \<and> en_Client (rg_heap r ! e) = Some k) \<or>
      (\<exists>a \<in># A. carries a = Some k \<or> (\<exists>e \<in> closes a. en_Client (rg_heap r ! e) = Some k))" if "k \<in> rg_open r" for k
    using w that by (simp add: worker_inv_def kept_by_def)
  have "rg_open r = {}" if "rg_closed r" "filter_mset (\<lambda>a. carries a \<noteq> None \<or> closes a \<noteq> {}) A = {#}"
  proof -
    have none: "carries a = None \<and> closes a = {}" if "a \<in># A" for a
      using \<open>filter_mset _ A = {#}\<close> that by (metis (mono_tags, lifting) empty_iff filter_mset_eq_conv set_mset_empty mem_Collect_eq set_mset_filter)
    have "rg_entries r = []" using m that(1) by (simp add: map_inv_def)
    with kept none show ?thesis by fastforce
  qed
  with kept show ?thesis by blast
qed

theorem session_no_leak_witness:
  "(\<exists>a. a \<in># {#RReapClose 14 ''s'' 0 [], RHold ''s'' 0, RWatch ''s'' 0 7#} \<and>
     (carries a = Some 7 \<or> (\<exists>e. e \<in> closes a \<and> en_Client (rg_heap demo_s8 ! e) = Some 7))) \<or>
   (\<exists>sid e. gm_get (rg_entries demo_s8) sid = Some e \<and> en_Client (rg_heap demo_s8 ! e) = Some 7)"
proof -
  have "7 \<in> rg_open demo_s8" by code_simp
  with session_no_leak [OF demo_reg_start demo_handed_out, of 7] show ?thesis by blast
qed

text \<open>
  A request that waits for a racing creation is always woken, and a session is spawned once.
  Every entry has at most one creation under way; as long as the \<open>ready\<close> channel a caller
  waits on is open that creation is under way, and each of its two ends, publishing and giving
  up, closes the channel.
\<close>

theorem session_waiter_woken:
  assumes "reg_start s0" "reg_step\<^sup>*\<^sup>* s0 (r, A)" "RWait sid e \<in># A" "\<not> en_ready (rg_heap r ! e)"
  shows "size (filter_mset (\<lambda>a. creates a = Some e) A) = 1 \<and>
    en_ready (rg_heap (published e r) ! e) \<and> en_ready (rg_heap (abandon e c r) ! e)"
proof -
  have inv: "reg_inv (r, A)" using reachable_reg_inv [OF assms(1,2)] .
  have e: "e < length (rg_heap r)" using invD(2) [OF inv assms(3)] by simp
  from createD(2) [OF invD(4) [OF inv] e assms(4)] e show ?thesis
    by (simp add: makers_def published_def abandon_def closeReady_def)
qed

theorem session_waiter_woken_witness:
  "size (filter_mset (\<lambda>a. creates a = Some 0) {#RWait ''s'' 0, RCreate ''s'' 0, RReaper#}) = 1 \<and>
   en_ready (rg_heap (published 0 demo_s1) ! 0)"
proof -
  have "\<not> en_ready (rg_heap demo_s1 ! 0)" by code_simp
  with session_waiter_woken [OF demo_reg_start demo_waiting, of "''s''" 0] show ?thesis by simp
qed

text \<open>
  C15. A session that is streaming is left alone: while a handler holds the mutex of an entry, no
  recycle and no reap is tearing it down, a \<open>Get\<close> of its session never recycles it whatever
  its context percentage, and the reaper passes over it whatever its age.
\<close>

theorem session_stream_protected:
  assumes "reg_start s0" "reg_step\<^sup>*\<^sup>* s0 (r, A)" "RStream sid e \<in># A"
  shows "RRecycle sid' e \<notin># A \<and> RReapClose now sid' e es \<notin># A \<and> RReapDel now sid' e es \<notin># A \<and>
    en_Client (rg_heap r ! e) \<noteq> None \<and> fst (session_Get sid' now r) \<noteq> GetRecycle e \<and> reap_one now (sid', e) r = r"
proof -
  have inv: "reg_inv (r, A)" using reachable_reg_inv [OF assms(1,2)] .
  have h: "here r e" using invD(2) [OF inv assms(3)] by simp
  have one: "holders e A \<le> 1" and l: "0 < holders e A \<longrightarrow> en_locked (rg_heap r ! e)"
    using invD(3) [OF inv] by (auto simp: lock_inv_def)
  have locked: "en_locked (rg_heap r ! e)" using l holders_mem [OF assms(3)] by simp
  have other: "a \<notin># A" if "locks a = Some e" "a \<noteq> RStream sid e" for a
    using holders_two [OF assms(3) _ _ that(1)] that(2) one by fastforce
  obtain k where "en_Client (rg_heap r ! e) = Some k" using present_client [OF invD(1) [OF inv] h] .
  moreover have "fst (session_Get sid' now r) \<noteq> GetRecycle e"
    using locked by (auto simp: session_Get_def get_install_def Let_def split: option.splits)
  ultimately show ?thesis using locked other by (simp add: reap_one_def)
qed

theorem session_stream_protected_witness:
  "en_Client (rg_heap demo_s5 ! 0) \<noteq> None \<and> reap_one 100 (''s'', 0) demo_s5 = demo_s5"
  using session_stream_protected [OF demo_reg_start demo_streaming, of "''s''" 0 "''s''" 100 "[]"] by simp

text \<open>
  C16. No nil dereference: every entry that is handed out, recycled or reaped has its client, so
  the calls on \<open>Client\<close> outside the lock are safe; and after \<open>Close\<close>, when the map is nil, \<open>Get\<close>
  is refused before it assigns into the map.
\<close>

theorem session_no_nil_panic:
  assumes "reg_start s0" "reg_step\<^sup>*\<^sup>* s0 (r, A)"
  shows "(RHold sid e \<in># A \<or> RStream sid e \<in># A \<or> RRecycle sid e \<in># A \<or> RReapClose now sid e es \<in># A \<longrightarrow>
      en_Client (rg_heap r ! e) \<noteq> None) \<and>
    (rg_closed r \<longrightarrow> session_Get sid now r = (GetErr ErrRegistryClosed, r) \<and> rg_entries r = [])"
proof -
  have inv: "reg_inv (r, A)" using reachable_reg_inv [OF assms] .
  have "en_Client (rg_heap r ! e) \<noteq> None" if "a \<in># A" "act_ok r a \<Longrightarrow> here r e" for a
    using present_client [OF invD(1) [OF inv], of e] invD(2) [OF inv that(1)] that(2) by (metis option.distinct(1))
  moreover have "rg_closed r \<longrightarrow> rg_entries r = []" using invD(1) [OF inv] by (simp add: map_inv_def)
  ultimately show ?thesis by (fastforce simp: session_Get_def)
qed

theorem session_no_nil_panic_witness:
  "en_Client (rg_heap demo_s7 ! 0) \<noteq> None"
  using session_no_nil_panic [OF demo_reg_start demo_reaping, of "''s''" 0 14 "[]"] by simp

text \<open>
  The refresh of the timestamp in \<open>Get\<close> does not close the window between the reaper and a
  handler. There is a run in which the reaper finds an idle session expired, a \<open>Get\<close> then hands out
  that session with a fresh timestamp, and the reaper goes on to close its worker, to mark the
  entry dead and to unlock it: the handler that got the entry takes the mutex of a session whose
  worker is gone, although no deletion, crash or shutdown happened.
\<close>

theorem reap_after_handoff:
  "\<exists>s0 r A. reg_start s0 \<and> reg_step\<^sup>*\<^sup>* s0 (r, A) \<and> RHold ''s'' 0 \<in># A \<and> \<not> reap_expired 14 0 r \<and>
     en_Client (rg_heap r ! 0) = Some 7 \<and> 7 \<notin> rg_open r \<and> en_Dead (rg_heap r ! 0) \<and> \<not> en_locked (rg_heap r ! 0)"
proof -
  have "\<not> reap_expired 14 0 demo_s10" "en_Client (rg_heap demo_s10 ! 0) = Some 7" "7 \<notin> rg_open demo_s10"
    "en_Dead (rg_heap demo_s10 ! 0)" "\<not> en_locked (rg_heap demo_s10 ! 0)" by code_simp+
  moreover have "RHold ''s'' 0 \<in># {#RReap 14 [], RHold ''s'' 0, RWatch ''s'' 0 7#}" by simp
  ultimately show ?thesis using demo_reg_start demo_reaped by blast
qed

end
