(* ===== verification/AcpClient.thy ===== *)
theory AcpClient
  imports AcpDispatcher
begin

text \<open>
  The ACP client (internal/acp/client.go): its request methods, the reader, writer and ping goroutines, and shutdown.
  Each section between two synchronisation points is a function on the record \<open>Client\<close>, and \<open>client_step\<close>
  interleaves any number of requests with the goroutines and one \<open>Close\<close>, for any frames the worker sends.
  A stream is named by the response channel of its prompt; closing a stream is the value \<open>callResult\<close> its waiter ends with, and
  what \<open>close\<close> then does is the subject of \<open>AcpStream\<close>. Request contexts end at any time.
  \<open>nextID.Add\<close> and \<open>register\<close> are one section: nothing else reads the counter.
\<close>

section \<open>Data\<close>

datatype rpcCall = Initialize | NewSession string | Ping | SetModel string string | PromptCall string

datatype outbound = OutRequest "64 word" rpcCall | OutCancel string

datatype callResult =
    ResOk
  | ResSession string
  | ResStop StopReason
  | ResErr acp_err

record Client =
  cl_disp :: dispatcher
  cl_nextID :: "64 word"
  cl_writeCh :: "outbound list"
  cl_wire :: "outbound list"
  cl_ctxDone :: bool
  cl_activeStream :: "nat option"
  cl_caps :: PromptCapabilities
  cl_models :: "ModelInfo list"
  cl_closeOnce :: bool
  cl_ioClosed :: bool

definition writeCap :: nat where "writeCap = 16"

definition newClient :: Client where
  "newClient = \<lparr>cl_disp = newDispatcher, cl_nextID = 0, cl_writeCh = [], cl_wire = [], cl_ctxDone = False, cl_activeStream = None,
     cl_caps = \<lparr>pc_Image = False, pc_Audio = False, pc_EmbeddedContext = False\<rparr>, cl_models = [],
     cl_closeOnce = False, cl_ioClosed = False\<rparr>"

section \<open>Helpers of the request methods\<close>

fun firstNonEmpty :: "string list \<Rightarrow> string" where
  "firstNonEmpty [] = []"
| "firstNonEmpty (v # vs) = (if v \<noteq> [] then v else firstNonEmpty vs)"

definition parseStopReason :: "string \<Rightarrow> StopReason" where
  "parseStopReason s =
     (if s = ''end_turn'' then StopEndTurn
      else if s = ''max_tokens'' then StopMaxTokens
      else if s = ''max_turn_requests'' then StopMaxTurnRequests
      else if s = ''refusal'' then StopRefusal
      else if s = ''cancelled'' then StopCancelled
      else StopUnknown)"

definition upd_disp :: "(dispatcher \<Rightarrow> dispatcher) \<Rightarrow> Client \<Rightarrow> Client" where
  "upd_disp g c = c\<lparr>cl_disp := g (cl_disp c)\<rparr>"

section \<open>Requests\<close>

definition call_register :: "Client \<Rightarrow> 64 word \<times> nat \<times> Client" where
  "call_register c = (let i = cl_nextID c + 1; (ch, d) = disp_register i (cl_disp c)
     in (i, ch, c\<lparr>cl_nextID := i, cl_disp := d\<rparr>))"

text \<open>The three arms of the select in \<open>send\<close>.\<close>

definition send_accept :: "outbound \<Rightarrow> Client \<Rightarrow> Client" where
  "send_accept m c = c\<lparr>cl_writeCh := cl_writeCh c @ [m]\<rparr>"

definition send_cancel :: "64 word \<Rightarrow> Client \<Rightarrow> Client" where
  "send_cancel i c = upd_disp (disp_cancel i) c"

definition sendNotification :: "outbound \<Rightarrow> Client \<Rightarrow> Client" where
  "sendNotification m c = (if length (cl_writeCh c) < writeCap then send_accept m c else c)"

text \<open>What a failing frame means to the caller.\<close>

definition frameErr :: "rpcFrame \<Rightarrow> acp_err option" where
  "frameErr f = (case rf_Error f of None \<Rightarrow> None
     | Some (code, msg) \<Rightarrow> Some (if code = closeSentinelCode then ErrClientClosed else ErrRpc code msg))"

definition initialize_frame :: "rpcFrame \<Rightarrow> Client \<Rightarrow> callResult \<times> Client" where
  "initialize_frame f c = (case frameErr f of Some e \<Rightarrow> (ResErr e, c)
     | None \<Rightarrow> (case rf_Result f of
           None \<Rightarrow> (ResOk, c\<lparr>cl_caps := \<lparr>pc_Image = False, pc_Audio = False, pc_EmbeddedContext = False\<rparr>\<rparr>)
         | Some None \<Rightarrow> (ResErr ErrBadResult, c)
         | Some (Some r) \<Rightarrow> (ResOk, c\<lparr>cl_caps := wr_caps r\<rparr>)))"

definition newSession_frame :: "rpcFrame \<Rightarrow> Client \<Rightarrow> callResult \<times> Client" where
  "newSession_frame f c = (case frameErr f of Some e \<Rightarrow> (ResErr e, c)
     | None \<Rightarrow> (case rf_Result f of
           Some (Some r) \<Rightarrow>
             (let sid = firstNonEmpty [wr_SessionID r, wr_ID r]
              in if sid = [] then (ResErr ErrMissingSessionID, c)
                 else (ResSession sid, c\<lparr>cl_models := wr_models r\<rparr>))
         | _ \<Rightarrow> (ResErr ErrBadResult, c)))"

definition ping_frame :: "rpcFrame \<Rightarrow> callResult" where
  "ping_frame f = (if frameErr f = Some ErrClientClosed then ResErr ErrClientClosed else ResOk)"

definition setModel_frame :: "rpcFrame \<Rightarrow> callResult" where
  "setModel_frame f = (case frameErr f of Some e \<Rightarrow> ResErr e | None \<Rightarrow> ResOk)"

definition clearActive :: "nat \<Rightarrow> Client \<Rightarrow> Client" where
  "clearActive ch c = (if cl_activeStream c = Some ch then c\<lparr>cl_activeStream := None\<rparr> else c)"

text \<open>The arms of \<open>awaitPromptResult\<close>; the value is what the stream is closed with.\<close>

definition await_frame :: "nat \<Rightarrow> rpcFrame \<Rightarrow> Client \<Rightarrow> callResult \<times> Client" where
  "await_frame ch f c = (case frameErr f of Some e \<Rightarrow> (ResErr e, clearActive ch c)
     | None \<Rightarrow> (ResStop (case rf_Result f of Some (Some r) \<Rightarrow> parseStopReason (wr_StopReason r) | _ \<Rightarrow> StopUnknown), clearActive ch c))"

definition await_ctx :: "string \<Rightarrow> nat \<Rightarrow> Client \<Rightarrow> callResult \<times> Client" where
  "await_ctx sid ch c = (ResErr ErrCtxDone, sendNotification (OutCancel sid) (clearActive ch c))"

fun call_frame :: "rpcCall \<Rightarrow> nat \<Rightarrow> rpcFrame \<Rightarrow> Client \<Rightarrow> callResult \<times> Client" where
  "call_frame Initialize ch f c = initialize_frame f c"
| "call_frame (NewSession cwd) ch f c = newSession_frame f c"
| "call_frame Ping ch f c = (ping_frame f, c)"
| "call_frame (SetModel sid mid) ch f c = (setModel_frame f, c)"
| "call_frame (PromptCall sid) ch f c = await_frame ch f c"

fun call_ctx :: "rpcCall \<Rightarrow> nat \<Rightarrow> Client \<Rightarrow> callResult \<times> Client" where
  "call_ctx (PromptCall sid) ch c = await_ctx sid ch c"
| "call_ctx _ ch c = (ResErr ErrCtxDone, c)"

text \<open>A prompt publishes its stream before it sends, and withdraws it when the send fails.\<close>

definition prompt_publish :: "nat \<Rightarrow> Client \<Rightarrow> Client" where
  "prompt_publish ch c = c\<lparr>cl_activeStream := Some ch\<rparr>"

fun send_failed :: "rpcCall \<Rightarrow> 64 word \<Rightarrow> Client \<Rightarrow> Client" where
  "send_failed (PromptCall sid) i c = (send_cancel i (send_cancel i c))\<lparr>cl_activeStream := None\<rparr>"
| "send_failed _ i c = send_cancel i c"

definition failPending :: "Client \<Rightarrow> Client" where
  "failPending c = upd_disp (drainAll ''acp: client closed'') c"

definition ctx_cancel :: "Client \<Rightarrow> Client" where
  "ctx_cancel c = c\<lparr>cl_ctxDone := True\<rparr>"

definition writer_write :: "Client \<Rightarrow> Client" where
  "writer_write c = (case cl_writeCh c of [] \<Rightarrow> c | m # ms \<Rightarrow> c\<lparr>cl_writeCh := ms, cl_wire := cl_wire c @ [m]\<rparr>)"

section \<open>Steps\<close>

datatype cact =
    CPublish rpcCall "64 word" nat
  | CSend rpcCall "64 word" nat
  | CSpawn rpcCall "64 word" nat
  | CWait rpcCall "64 word" nat
  | CDefer rpcCall "64 word" nat callResult
  | CRead
  | CRoute nat rpcFrame
  | CFail
  | CCleanup
  | CExit
  | CWriter
  | CPinger
  | KDrain
  | KCloseIO
  | KWait
  | KDone

fun afterRegister :: "rpcCall \<Rightarrow> 64 word \<Rightarrow> nat \<Rightarrow> cact" where
  "afterRegister (PromptCall sid) i ch = CPublish (PromptCall sid) i ch"
| "afterRegister k i ch = CSend k i ch"

text \<open>An accepted prompt has yet to start its waiter; a prompt that is not sent has no deferred section.\<close>

fun afterSend :: "rpcCall \<Rightarrow> 64 word \<Rightarrow> nat \<Rightarrow> cact" where
  "afterSend (PromptCall sid) i ch = CSpawn (PromptCall sid) i ch"
| "afterSend k i ch = CWait k i ch"

fun afterSendFail :: "rpcCall \<Rightarrow> 64 word \<Rightarrow> nat \<Rightarrow> acp_err \<Rightarrow> cact multiset" where
  "afterSendFail (PromptCall sid) i ch e = {#}"
| "afterSendFail k i ch e = {#CDefer k i ch (ResErr e)#}"

text \<open>The goroutines in the client's wait group.\<close>

fun inWaitGroup :: "cact \<Rightarrow> bool" where
  "inWaitGroup (CWait (PromptCall sid) i ch) = True"
| "inWaitGroup (CDefer (PromptCall sid) i ch r) = True"
| "inWaitGroup CRead = True"
| "inWaitGroup (CRoute ch f) = True"
| "inWaitGroup CFail = True"
| "inWaitGroup CCleanup = True"
| "inWaitGroup CExit = True"
| "inWaitGroup CWriter = True"
| "inWaitGroup CPinger = True"
| "inWaitGroup _ = False"

type_synonym csys = "Client \<times> cact multiset"

inductive client_step :: "csys \<Rightarrow> csys \<Rightarrow> bool" where
  cs_register: "call_register c = (i, ch, c') \<Longrightarrow> client_step (c, A) (c', add_mset (afterRegister k i ch) A)"
| cs_publish: "client_step (c, add_mset (CPublish k i ch) A) (prompt_publish ch c, add_mset (CSend k i ch) A)"
| cs_send: "length (cl_writeCh c) < writeCap \<Longrightarrow>
    client_step (c, add_mset (CSend k i ch) A) (send_accept (OutRequest i k) c, add_mset (afterSend k i ch) A)"
| cs_spawn: "client_step (c, add_mset (CSpawn k i ch) A) (c, add_mset (CWait k i ch) A)"
| cs_sendCtx: "client_step (c, add_mset (CSend k i ch) A) (send_failed k i c, afterSendFail k i ch ErrCtxDone + A)"
| cs_sendClosed: "cl_ctxDone c \<Longrightarrow>
    client_step (c, add_mset (CSend k i ch) A) (send_failed k i c, afterSendFail k i ch ErrClientClosed + A)"
| cs_frame: "dp_chans (cl_disp c) ! ch = f # fs \<Longrightarrow> call_frame k ch f (upd_disp (chan_recv ch) c) = (r, c') \<Longrightarrow>
    client_step (c, add_mset (CWait k i ch) A) (c', add_mset (CDefer k i ch r) A)"
| cs_ctx: "call_ctx k ch c = (r, c') \<Longrightarrow>
    client_step (c, add_mset (CWait k i ch) A) (c', add_mset (CDefer k i ch r) A)"
| cs_defer: "client_step (c, add_mset (CDefer k i ch r) A) (send_cancel i c, A)"
| cs_cancel: "client_step (c, A) (sendNotification (OutCancel sid) c, A)"
| cs_notif: "disp_route f (cl_disp c) = (RouteNotif, d) \<Longrightarrow> client_step (c, add_mset CRead A) (c, add_mset CRead A)"
| cs_notifFail: "disp_route f (cl_disp c) = (RouteNotif, d) \<Longrightarrow>
    client_step (c, add_mset CRead A) (ctx_cancel c, add_mset CRead A)"
| cs_drop: "disp_route f (cl_disp c) = (RouteDrop, d) \<Longrightarrow>
    client_step (c, add_mset CRead A) (c\<lparr>cl_disp := d\<rparr>, add_mset CRead A)"
| cs_route: "disp_route f (cl_disp c) = (RouteSend ch, d) \<Longrightarrow>
    client_step (c, add_mset CRead A) (c\<lparr>cl_disp := d\<rparr>, add_mset (CRoute ch f) A)"
| cs_deliver: "\<not> chan_full ch (cl_disp c) \<Longrightarrow>
    client_step (c, add_mset (CRoute ch f) A) (upd_disp (chan_send ch f) c, add_mset CRead A)"
| cs_eof: "client_step (c, add_mset CRead A) (c, add_mset CFail A)"
| cs_fail: "client_step (c, add_mset CFail A) (failPending c, add_mset CCleanup A)"
| cs_cleanup: "client_step (c, add_mset CCleanup A) (c\<lparr>cl_activeStream := None\<rparr>, add_mset CExit A)"
| cs_exit: "client_step (c, add_mset CExit A) (ctx_cancel c, A)"
| cs_write: "client_step (c, add_mset CWriter A) (writer_write c, add_mset CWriter A)"
| cs_writeFail: "client_step (c, add_mset CWriter A) (ctx_cancel (c\<lparr>cl_writeCh := tl (cl_writeCh c)\<rparr>), A)"
| cs_writeEnd: "cl_ctxDone c \<Longrightarrow> cl_writeCh c = [] \<Longrightarrow> client_step (c, add_mset CWriter A) (c, A)"
| cs_pingEscalate: "client_step (c, add_mset CPinger A) (ctx_cancel c, A)"
| cs_pingEnd: "cl_ctxDone c \<Longrightarrow> client_step (c, add_mset CPinger A) (c, A)"
| cs_close: "\<not> cl_closeOnce c \<Longrightarrow> client_step (c, A) (ctx_cancel (c\<lparr>cl_closeOnce := True\<rparr>), add_mset KDrain A)"
| cs_closeDrain: "client_step (c, add_mset KDrain A) (failPending c, add_mset KCloseIO A)"
| cs_closeIO: "client_step (c, add_mset KCloseIO A) (c\<lparr>cl_ioClosed := True\<rparr>, add_mset KWait A)"
| cs_closeWait: "(\<forall>a \<in># A. \<not> inWaitGroup a) \<Longrightarrow> client_step (c, add_mset KWait A) (c, add_mset KDone A)"

definition client_boot :: "cact multiset" where
  "client_boot = {#CRead, CWriter, CPinger#}"

definition client_start :: "csys \<Rightarrow> bool" where
  "client_start x \<longleftrightarrow> x = (newClient, client_boot)"


section \<open>The ping loop\<close>

text \<open>
  One liveness cycle: a gap of more than two intervals since the last tick means the machine slept, and this cycle
  does not ping. The loop is run on the ticks with their clock readings and the answers to their pings.
\<close>

datatype pingErr = PingCanceled | PingClosed | PingFailed

datatype tickEffect = TickSkipped | TickAlive | TickStopped | TickEscalated

definition pingTick :: "gotime \<Rightarrow> gotime \<Rightarrow> gotime \<Rightarrow> pingErr option \<Rightarrow> gotime \<times> bool \<times> tickEffect" where
  "pingTick interval now lastTick answer =
     (if now - lastTick > 2 * interval then (now, False, TickSkipped)
      else case answer of
          None \<Rightarrow> (now, False, TickAlive)
        | Some PingFailed \<Rightarrow> (now, True, TickEscalated)
        | Some _ \<Rightarrow> (now, True, TickStopped))"

fun pingLoop :: "gotime \<Rightarrow> (gotime \<times> pingErr option) list \<Rightarrow> gotime \<Rightarrow> tickEffect list" where
  "pingLoop interval [] lastTick = []"
| "pingLoop interval ((now, answer) # ts) lastTick =
     (case pingTick interval now lastTick answer of
        (lastTick', stop, e) \<Rightarrow> e # (if stop then [] else pingLoop interval ts lastTick'))"

text \<open>The guard is one-shot: a worker that still fails at the tick after a skipped one is torn down.\<close>

lemma ping_guard_one_shot:
  assumes "now - lastTick > 2 * interval" "now' - now \<le> 2 * interval"
  shows "pingLoop interval ((now, answer) # (now', Some PingFailed) # ts) lastTick = [TickSkipped, TickEscalated]"
  using assms by (simp add: pingTick_def)

end
