(* ===== verification/AcpClientInv.thy ===== *)
theory AcpClientInv
  imports AcpClient
begin

text \<open>
  The invariant of the ACP client's request table: which activity owns which response channel, what each channel may hold, and that a request
  which still waits is in the table, about to be served by the reader, or already has its frame. It holds as long as
  the 64-bit request counter has not wrapped, i.e. for fewer than \<open>2 ^ 64\<close> requests on one client.
\<close>

section \<open>Who owns a channel\<close>

fun live :: "cact \<Rightarrow> (64 word \<times> nat) option" where
  "live (CPublish k i ch) = Some (i, ch)"
| "live (CSend k i ch) = Some (i, ch)"
| "live (CSpawn k i ch) = Some (i, ch)"
| "live (CWait k i ch) = Some (i, ch)"
| "live _ = None"

fun owns :: "cact \<Rightarrow> (64 word \<times> nat) option" where
  "owns (CDefer k i ch r) = Some (i, ch)"
| "owns a = live a"

fun routes :: "cact \<Rightarrow> (nat \<times> rpcFrame) option" where
  "routes (CRoute ch f) = Some (ch, f)"
| "routes _ = None"

fun readerAct :: "cact \<Rightarrow> bool" where
  "readerAct CRead = True"
| "readerAct (CRoute ch f) = True"
| "readerAct CFail = True"
| "readerAct CCleanup = True"
| "readerAct CExit = True"
| "readerAct _ = False"

definition owned :: "cact multiset \<Rightarrow> nat multiset" where
  "owned A = image_mset (\<lambda>a. snd (the (owns a))) (filter_mset (\<lambda>a. owns a \<noteq> None) A)"

definition routing :: "cact multiset \<Rightarrow> nat multiset" where
  "routing A = image_mset (\<lambda>a. fst (the (routes a))) (filter_mset (\<lambda>a. routes a \<noteq> None) A)"

definition idOf :: "nat \<Rightarrow> 64 word" where
  "idOf ch = of_nat (Suc ch)"

lemma owned_simps [simp]:
  "owned {#} = {#}" "owned (add_mset a A) = (case owns a of None \<Rightarrow> owned A | Some (i, ch) \<Rightarrow> add_mset ch (owned A))"
  by (auto simp: owned_def split: option.splits)

lemma routing_simps [simp]:
  "routing {#} = {#}" "routing (add_mset a A) = (case routes a of None \<Rightarrow> routing A | Some (ch, f) \<Rightarrow> add_mset ch (routing A))"
  by (auto simp: routing_def split: option.splits)

lemma owned_mem: "a \<in># A \<Longrightarrow> owns a = Some (i, ch) \<Longrightarrow> ch \<in># owned A"
  unfolding owned_def by (force simp: image_iff)

lemma live_owns: "live a = Some x \<Longrightarrow> owns a = Some x"
  by (cases a) auto

lemma live_mem: "a \<in># A \<Longrightarrow> live a = Some (i, ch) \<Longrightarrow> ch \<in># owned A"
  using owned_mem live_owns by blast

lemma routing_mem: "a \<in># A \<Longrightarrow> routes a = Some (ch, f) \<Longrightarrow> ch \<in># routing A"
  unfolding routing_def by (force simp: image_iff)

lemma unat_of_nat64: "m < 2 ^ 64 \<Longrightarrow> unat (of_nat m :: 64 word) = m"
  by (simp add: unsigned_of_nat take_bit_nat_eq_self)

lemma idOf_inj: "Suc a < 2 ^ 64 \<Longrightarrow> Suc b < 2 ^ 64 \<Longrightarrow> idOf a = idOf b \<Longrightarrow> a = b"
  unfolding idOf_def by (metis Suc_inject unat_of_nat64)

section \<open>Invariant\<close>

definition answers :: "nat \<Rightarrow> rpcFrame \<Rightarrow> bool" where
  "answers ch f \<longleftrightarrow> unmarshalUint64 (rf_ID f) = Some (idOf ch)"

definition chans_ok :: "rpcFrame list list \<Rightarrow> bool" where
  "chans_ok cs \<longleftrightarrow> (\<forall>ch < length cs. length (cs ! ch) \<le> 1 \<and>
     (\<forall>f \<in> set (cs ! ch). frameErr f = Some ErrClientClosed \<or> answers ch f))"

definition pending_ok :: "(64 word \<times> nat) list \<Rightarrow> rpcFrame list list \<Rightarrow> nat multiset \<Rightarrow> bool" where
  "pending_ok p cs R \<longleftrightarrow> gm_ok p \<and> (\<forall>(i, ch) \<in> set p. i = idOf ch \<and> ch < length cs \<and> cs ! ch = [] \<and> ch \<notin># R)"

definition routes_ok :: "rpcFrame list list \<Rightarrow> cact multiset \<Rightarrow> bool" where
  "routes_ok cs A \<longleftrightarrow> (\<forall>a \<in># A. \<forall>ch f. routes a = Some (ch, f) \<longrightarrow> ch < length cs \<and> cs ! ch = [] \<and> answers ch f)"

definition owners_ok :: "nat \<Rightarrow> cact multiset \<Rightarrow> bool" where
  "owners_ok n A \<longleftrightarrow> (\<forall>ch. count (owned A) ch \<le> 1) \<and> (\<forall>a \<in># A. \<forall>i ch. owns a = Some (i, ch) \<longrightarrow> i = idOf ch \<and> ch < n)"

definition served :: "(64 word \<times> nat) list \<Rightarrow> rpcFrame list list \<Rightarrow> nat multiset \<Rightarrow> nat \<Rightarrow> bool" where
  "served p cs R ch \<longleftrightarrow> gm_get p (idOf ch) = Some ch \<or> ch \<in># R \<or> cs ! ch \<noteq> []"

definition live_ok :: "(64 word \<times> nat) list \<Rightarrow> rpcFrame list list \<Rightarrow> cact multiset \<Rightarrow> bool" where
  "live_ok p cs A \<longleftrightarrow> (\<forall>a \<in># A. \<forall>i ch. live a = Some (i, ch) \<longrightarrow> served p cs (routing A) ch)"

definition readers :: "cact multiset \<Rightarrow> nat" where
  "readers A = size (filter_mset readerAct A)"

definition one_reader :: "cact multiset \<Rightarrow> bool" where
  "one_reader A \<longleftrightarrow> readers A \<le> 1"

definition table_inv :: "dispatcher \<Rightarrow> cact multiset \<Rightarrow> bool" where
  "table_inv d A \<longleftrightarrow> chans_ok (dp_chans d) \<and> pending_ok (dp_pending d) (dp_chans d) (routing A) \<and>
     routes_ok (dp_chans d) A \<and> owners_ok (length (dp_chans d)) A \<and> live_ok (dp_pending d) (dp_chans d) A \<and>
     one_reader A"

definition client_inv :: "csys \<Rightarrow> bool" where
  "client_inv x \<longleftrightarrow> cl_nextID (fst x) = of_nat (length (dp_chans (cl_disp (fst x)))) \<and>
     (length (dp_chans (cl_disp (fst x))) < 2 ^ 64 \<longrightarrow> table_inv (cl_disp (fst x)) (snd x))"

lemma client_start_inv: "client_start x \<Longrightarrow> client_inv x"
  by (auto simp: client_start_def client_inv_def newClient_def newDispatcher_def client_boot_def table_inv_def chans_ok_def
      pending_ok_def routes_ok_def owners_ok_def live_ok_def one_reader_def readers_def)

lemmas table_defs = table_inv_def chans_ok_def pending_ok_def routes_ok_def owners_ok_def live_ok_def


section \<open>Changes of the activities\<close>

lemma readers_add [simp]: "readers (add_mset a A) = (if readerAct a then Suc (readers A) else readers A)"
  by (simp add: readers_def)

lemma one_reader_swap: "one_reader (add_mset a A) \<Longrightarrow> (readerAct b \<Longrightarrow> readerAct a) \<Longrightarrow> one_reader (add_mset b A)"
  by (cases "readerAct a"; cases "readerAct b") (simp_all add: one_reader_def)

lemma one_reader_drop: "one_reader (add_mset a A) \<Longrightarrow> one_reader A"
  by (cases "readerAct a") (simp_all add: one_reader_def)

lemma count_owned_le: "count (owned A) ch \<le> count (owned (add_mset a A)) ch"
  by (cases "owns a") auto

lemma owners_drop:
  assumes "owners_ok n (add_mset a A)"
  shows "owners_ok n A"
proof -
  have "count (owned A) ch \<le> 1" for ch
    using assms count_owned_le [of A ch a] unfolding owners_ok_def by (meson le_trans)
  then show ?thesis using assms unfolding owners_ok_def by simp
qed

lemma table_swap:
  assumes "table_inv d (add_mset a A)" "owns b = owns a" "live b = live a \<or> live b = None"
    "routes a = None" "routes b = None" "readerAct b \<Longrightarrow> readerAct a"
  shows "table_inv d (add_mset b A)"
  using assms one_reader_swap [of a A b] by (auto simp: table_defs split: if_splits)

lemma table_drop:
  assumes "table_inv d (add_mset a A)" "routes a = None"
  shows "table_inv d A"
  using assms one_reader_drop [of a A] owners_drop [of _ a A]
  by (auto simp: table_inv_def pending_ok_def routes_ok_def live_ok_def)

lemma table_add:
  assumes "table_inv d A" "owns b = None" "routes b = None" "\<not> readerAct b"
  shows "table_inv d (add_mset b A)"
  using assms by (auto simp: table_defs one_reader_def dest: live_owns)

section \<open>Changes of the table\<close>

lemma chan_ops [simp]:
  "dp_pending (chan_send ch f d) = dp_pending d" "dp_pending (chan_recv ch d) = dp_pending d"
  "dp_chans (disp_cancel i d) = dp_chans d" "dp_pending (disp_cancel i d) = gm_del i (dp_pending d)"
  "length (dp_chans (chan_send ch f d)) = length (dp_chans d)" "length (dp_chans (chan_recv ch d)) = length (dp_chans d)"
  by (simp_all add: chan_send_def chan_recv_def disp_cancel_def)


text \<open>Two activities that own channels do not own the same one, and different channels have different ids.\<close>

lemma owner_alone:
  assumes "owners_ok n (add_mset b A)" "owns b = Some (i, ch)" "a \<in># A" "owns a = Some (j, ch')"
  shows "ch' \<noteq> ch"
proof
  assume "ch' = ch"
  then have "ch \<in># owned A" using assms(3,4) owned_mem by blast
  then have "0 < count (owned A) ch" by simp
  moreover have "count (owned (add_mset b A)) ch \<le> 1" using assms(1) unfolding owners_ok_def by blast
  ultimately show False using assms(2) by (simp add: count_eq_zero_iff)
qed

lemma other_id:
  assumes "n < 2 ^ 64" "ch < n" "ch' < n" "ch' \<noteq> ch"
  shows "idOf ch' \<noteq> idOf ch"
  using assms idOf_inj [of ch' ch] by force

lemma served_del:
  "served p cs R ch \<Longrightarrow> i \<noteq> idOf ch \<Longrightarrow> served (gm_del i p) cs R ch"
  by (auto simp: served_def)

lemma pending_del: "pending_ok p cs R \<Longrightarrow> pending_ok (gm_del i p) cs R"
  using gm_set_del [of i p] by (auto simp: pending_ok_def)

lemma table_cancel:
  assumes "table_inv d (add_mset b A)" "length (dp_chans d) < 2 ^ 64" "owns b = Some (i, ch)" "live b = None"
  shows "table_inv (disp_cancel i d) (add_mset b A)"
proof -
  let ?n = "length (dp_chans d)"
  have own: "owners_ok ?n (add_mset b A)" using assms(1) by (simp add: table_inv_def)
  then have i: "i = idOf ch" "ch < ?n" using assms(3) by (auto simp: owners_ok_def)
  have "live_ok (gm_del i (dp_pending d)) (dp_chans d) (add_mset b A)"
    unfolding live_ok_def
  proof (intro ballI allI impI)
    fix a j ch' assume a: "a \<in># add_mset b A" "live a = Some (j, ch')"
    then have A: "a \<in># A" using assms(4) by auto
    have "ch' < ?n" using own a live_owns unfolding owners_ok_def by blast
    moreover have "ch' \<noteq> ch" using owner_alone [OF own assms(3) A] a live_owns by blast
    ultimately have "i \<noteq> idOf ch'" using other_id [OF assms(2)] i by metis
    moreover have "served (dp_pending d) (dp_chans d) (routing (add_mset b A)) ch'"
      using assms(1) a unfolding table_inv_def live_ok_def by blast
    ultimately show "served (gm_del i (dp_pending d)) (dp_chans d) (routing (add_mset b A)) ch'" by (rule served_del [rotated])
  qed
  then show ?thesis using assms(1) pending_del unfolding table_inv_def chan_ops by blast
qed

lemma table_recv:
  assumes "table_inv d (add_mset b A)" "owns b = Some (i, ch)" "live b = None" "dp_chans d ! ch \<noteq> []"
  shows "table_inv (chan_recv ch d) (add_mset b A)"
proof -
  let ?n = "length (dp_chans d)" and ?cs = "dp_chans (chan_recv ch d)"
  have own: "owners_ok ?n (add_mset b A)" using assms(1) by (simp add: table_inv_def)
  then have ch: "ch < ?n" using assms(2) by (auto simp: owners_ok_def)
  then have cs: "?cs ! j = (if j = ch then [] else dp_chans d ! j)" if "j < ?n" for j
    using that assms(1,4) by (cases "dp_chans d ! ch") (auto simp: chan_recv_def table_inv_def chans_ok_def nth_list_update)
  have "live_ok (dp_pending d) ?cs (add_mset b A)"
    unfolding live_ok_def
  proof (intro ballI allI impI)
    fix a j ch' assume a: "a \<in># add_mset b A" "live a = Some (j, ch')"
    then have A: "a \<in># A" using assms(3) by auto
    have "ch' < ?n" using own a live_owns unfolding owners_ok_def by blast
    moreover have "ch' \<noteq> ch" using owner_alone [OF own assms(2) A] a live_owns by blast
    moreover have "served (dp_pending d) (dp_chans d) (routing (add_mset b A)) ch'"
      using assms(1) a unfolding table_inv_def live_ok_def by blast
    ultimately show "served (dp_pending d) ?cs (routing (add_mset b A)) ch'" by (simp add: served_def cs)
  qed
  moreover have "chans_ok ?cs" using assms(1) by (simp add: table_inv_def chans_ok_def cs)
  moreover have "pending_ok (dp_pending d) ?cs (routing (add_mset b A))" "routes_ok ?cs (add_mset b A)"
    using assms(1) by (auto simp: table_inv_def pending_ok_def routes_ok_def cs)
  ultimately show ?thesis using assms(1) by (simp add: table_inv_def)
qed


lemma fresh_owner:
  assumes "owners_ok n A"
  shows "n \<notin># owned A"
  using assms unfolding owners_ok_def owned_def by auto

lemma fresh_routing: "routes_ok cs A \<Longrightarrow> length cs \<notin># routing A"
  unfolding routes_ok_def routing_def by auto

lemma table_register:
  assumes "table_inv d A" "Suc (length (dp_chans d)) < 2 ^ 64" "disp_register (idOf (length (dp_chans d))) d = (ch, d')"
    "owns b = Some (idOf ch, ch)" "routes b = None" "\<not> readerAct b"
  shows "table_inv d' (add_mset b A)"
proof -
  let ?n = "length (dp_chans d)"
  have ch: "ch = ?n" and d': "dp_chans d' = dp_chans d @ [[]]" "dp_pending d' = gm_put (idOf ?n) ?n (dp_pending d)"
    using assms(3) by (auto simp: disp_register_def)
  have keys: "idOf j \<noteq> idOf ?n" if "j < ?n" for j
    using other_id [of "Suc ?n" ?n j] that assms(2) by simp
  have chans: "chans_ok (dp_chans d')"
    using assms(1) unfolding table_inv_def chans_ok_def by (simp add: d'(1) nth_append less_Suc_eq)
  have fresh: "gm_get (dp_pending d) (idOf ?n) = None"
    using assms(1) keys unfolding table_inv_def pending_ok_def by (force simp: map_of_eq_None_iff)
  then have "set (dp_pending d') = insert (idOf ?n, ?n) (set (dp_pending d))" by (simp add: d' gm_put_fresh)
  then have pend: "pending_ok (dp_pending d') (dp_chans d') (routing (add_mset b A))"
    using assms(1,5) fresh_routing [of "dp_chans d" A]
    by (auto simp: table_inv_def pending_ok_def d' nth_append)
  have rts: "routes_ok (dp_chans d') (add_mset b A)"
    using assms(1,5) by (auto simp: table_inv_def routes_ok_def d' nth_append)
  have ow: "owners_ok ?n A" using assms(1) by (simp add: table_inv_def)
  have own: "owners_ok (length (dp_chans d')) (add_mset b A)"
    using ow fresh_owner [OF ow] assms(4) unfolding owners_ok_def
    by (auto simp: d'(1) ch less_Suc_eq count_eq_zero_iff)
  have liv: "live_ok (dp_pending d') (dp_chans d') (add_mset b A)"
    unfolding live_ok_def
  proof (intro ballI allI impI)
    fix a j c assume a: "a \<in># add_mset b A" "live a = Some (j, c)"
    show "served (dp_pending d') (dp_chans d') (routing (add_mset b A)) c"
    proof (cases "a = b")
      case True
      then show ?thesis using a assms(4) live_owns [of a] by (auto simp: served_def d' ch)
    next
      case False
      then have A: "a \<in># A" using a by simp
      then have c: "c < ?n" using ow a live_owns unfolding owners_ok_def by blast
      have "served (dp_pending d) (dp_chans d) (routing A) c" using assms(1) A a unfolding table_inv_def live_ok_def by blast
      then show ?thesis using c keys [OF c] assms(5) by (auto simp: served_def d' nth_append)
    qed
  qed
  show ?thesis using chans pend rts own liv assms(1,6) by (simp add: table_inv_def one_reader_def)
qed


lemma table_route:
  assumes "table_inv d (add_mset CRead A)" "disp_route f d = (RouteSend ch, d')"
  shows "table_inv d' (add_mset (CRoute ch f) A)"
proof -
  obtain num where num: "unmarshalUint64 (rf_ID f) = Some num" "gm_get (dp_pending d) num = Some ch"
      and d': "d' = d\<lparr>dp_pending := gm_del num (dp_pending d)\<rparr>"
    using assms(2) by (auto simp: disp_route_def split: if_splits option.splits)
  have p: "pending_ok (dp_pending d) (dp_chans d) (routing A)" using assms(1) by (simp add: table_inv_def)
  have mem: "(num, ch) \<in> set (dp_pending d)" using num(2) by (rule map_of_SomeD)
  then have i: "num = idOf ch" "ch < length (dp_chans d)" "dp_chans d ! ch = []" "ch \<notin># routing A"
    using p by (auto simp: pending_ok_def)
  have "pending_ok (gm_del num (dp_pending d)) (dp_chans d) (add_mset ch (routing A))"
  proof -
    have "(j, ch) \<notin> set (gm_del num (dp_pending d))" for j
    proof
      assume j: "(j, ch) \<in> set (gm_del num (dp_pending d))"
      then have "j = num" using p i(1) gm_set_del [of num "dp_pending d"] by (auto simp: pending_ok_def)
      then have "num \<in> set (map fst (gm_del num (dp_pending d)))" using j by force
      then show False by (simp only: gm_keys_del) simp
    qed
    then show ?thesis using pending_del [OF p, of num] by (auto simp: pending_ok_def)
  qed
  moreover have "live_ok (gm_del num (dp_pending d)) (dp_chans d) (add_mset (CRoute ch f) A)"
    unfolding live_ok_def
  proof (intro ballI allI impI)
    fix a j c assume a: "a \<in># add_mset (CRoute ch f) A" "live a = Some (j, c)"
    then have "served (dp_pending d) (dp_chans d) (routing A) c"
      using assms(1) unfolding table_inv_def live_ok_def by auto
    then show "served (gm_del num (dp_pending d)) (dp_chans d) (routing (add_mset (CRoute ch f) A)) c"
      using num(2) by (auto simp: served_def)
  qed
  ultimately show ?thesis
    using assms(1) i num(1) by (auto simp: table_inv_def d' routes_ok_def owners_ok_def answers_def one_reader_def)
qed

lemma table_deliver:
  assumes "table_inv d (add_mset (CRoute ch f) A)"
  shows "table_inv (chan_send ch f d) (add_mset CRead A)"
proof -
  have ch: "ch < length (dp_chans d)" "dp_chans d ! ch = []" "answers ch f"
    using assms by (auto simp: table_inv_def routes_ok_def)
  have cs: "dp_chans (chan_send ch f d) ! j = (if j = ch then [f] else dp_chans d ! j)" if "j < length (dp_chans d)" for j
    using that ch by (simp add: chan_send_def nth_list_update)
  have none: "routes a = None" if "a \<in># A" for a
  proof -
    have "readers A = 0" using assms by (simp add: table_inv_def one_reader_def)
    then have "\<not> readerAct a" using that by (auto simp: readers_def)
    then show ?thesis by (cases a) auto
  qed
  then have r: "routing A = {#}" by (auto simp: routing_def)
  have pend: "pending_ok (dp_pending d) (dp_chans (chan_send ch f d)) (routing A)"
    using assms by (auto simp: table_inv_def pending_ok_def r cs)
  have liv: "live_ok (dp_pending d) (dp_chans (chan_send ch f d)) (add_mset CRead A)"
    unfolding live_ok_def
  proof (intro ballI allI impI)
    fix a j c assume a: "a \<in># add_mset CRead A" "live a = Some (j, c)"
    then have A: "a \<in># A" by auto
    then have "c < length (dp_chans d)" using assms a live_owns unfolding table_inv_def owners_ok_def by fastforce
    moreover have "served (dp_pending d) (dp_chans d) (add_mset ch (routing A)) c"
      using assms A a unfolding table_inv_def live_ok_def by fastforce
    ultimately show "served (dp_pending d) (dp_chans (chan_send ch f d)) (routing (add_mset CRead A)) c"
      using ch by (auto simp: served_def cs r)
  qed
  show ?thesis
    using assms pend liv ch none by (auto simp: table_inv_def chans_ok_def routes_ok_def owners_ok_def one_reader_def cs)
qed


text \<open>
  Draining finds every channel of the table empty, so each waiting request gets the sentinel and the
  \<open>default\<close> arm of the select is not taken.
\<close>

lemma drain_loop_effect:
  assumes "distinct (map snd es)" "\<forall>(i, ch) \<in> set es. ch < length (dp_chans d) \<and> dp_chans d ! ch = []"
  shows "dp_pending (drain_loop f es d) = fold (\<lambda>e p. gm_del (fst e) p) es (dp_pending d) \<and>
    length (dp_chans (drain_loop f es d)) = length (dp_chans d) \<and>
    (\<forall>j < length (dp_chans d). dp_chans (drain_loop f es d) ! j = (if j \<in> snd ` set es then [f] else dp_chans d ! j))"
  using assms
proof (induction es arbitrary: d)
  case (Cons e es)
  obtain i ch where e: "e = (i, ch)" by force
  let ?d = "disp_cancel i (chan_send ch f d)"
  have ch: "ch < length (dp_chans d)" "dp_chans d ! ch = []" using Cons.prems(2) e by auto
  have cs: "dp_chans (chan_send ch f d) ! j = (if j = ch then [f] else dp_chans d ! j)" if "j < length (dp_chans d)" for j
    using that ch by (simp add: chan_send_def nth_list_update)
  have n: "ch \<notin> snd ` set es" using Cons.prems(1) e by auto
  have "c < length (dp_chans ?d) \<and> dp_chans ?d ! c = []" if "(k, c) \<in> set es" for k c
  proof -
    have "c \<noteq> ch" using n that by force
    moreover have "c < length (dp_chans d)" "dp_chans d ! c = []" using Cons.prems(2) that by auto
    ultimately show ?thesis using cs [of c] by simp
  qed
  then have "\<forall>(i, c) \<in> set es. c < length (dp_chans ?d) \<and> dp_chans ?d ! c = []" by blast
  then have "dp_pending (drain_loop f es ?d) = fold (\<lambda>e p. gm_del (fst e) p) es (gm_del i (dp_pending d)) \<and>
    length (dp_chans (drain_loop f es ?d)) = length (dp_chans d) \<and>
    (\<forall>j < length (dp_chans d). dp_chans (drain_loop f es ?d) ! j = (if j \<in> snd ` set es then [f] else dp_chans ?d ! j))"
    using Cons.IH [of ?d] Cons.prems(1) by (simp add: e)
  moreover have "drain_loop f (e # es) d = drain_loop f es ?d" using ch by (simp add: e chan_full_def)
  ultimately show ?case using n by (auto simp: e cs)
qed simp

lemma fold_del_none: "set (map fst p) \<subseteq> fst ` set es \<Longrightarrow> fold (\<lambda>e p. gm_del (fst e) p) es p = []"
proof (induction es arbitrary: p)
  case (Cons e es)
  have "set (map fst (gm_del (fst e) p)) \<subseteq> fst ` set es" using Cons.prems unfolding gm_keys_del by auto
  then show ?case using Cons.IH by simp
qed simp

lemma drainAll_effect:
  assumes "pending_ok (dp_pending d) (dp_chans d) R" "length (dp_chans d) < 2 ^ 64"
  shows "dp_pending (drainAll msg d) = [] \<and> length (dp_chans (drainAll msg d)) = length (dp_chans d) \<and>
    (\<forall>j < length (dp_chans d). dp_chans (drainAll msg d) ! j =
       (if gm_get (dp_pending d) (idOf j) = Some j then [sentinel msg] else dp_chans d ! j))"
proof -
  have ok: "gm_ok (dp_pending d)" and ent: "(i, ch) \<in> set (dp_pending d) \<Longrightarrow> i = idOf ch \<and> ch < length (dp_chans d) \<and> dp_chans d ! ch = []" for i ch
    using assms(1) by (auto simp: pending_ok_def)
  have "map fst (dp_pending d) = map idOf (map snd (dp_pending d))"
    using ent by (auto intro!: map_cong [THEN trans] simp: comp_def)
  then have "distinct (map idOf (map snd (dp_pending d)))" using ok by (simp only:)
  then have "distinct (map snd (dp_pending d))" using distinct_map by blast
  moreover have "j \<in> snd ` set (dp_pending d) \<longleftrightarrow> gm_get (dp_pending d) (idOf j) = Some j" for j
  proof
    assume "j \<in> snd ` set (dp_pending d)"
    then obtain i where "(i, j) \<in> set (dp_pending d)" by auto
    then show "gm_get (dp_pending d) (idOf j) = Some j" using ent ok by (metis map_of_is_SomeI)
  qed (force dest: map_of_SomeD)
  moreover have "\<forall>(i, ch) \<in> set (dp_pending d). ch < length (dp_chans d) \<and> dp_chans d ! ch = []" using ent by blast
  moreover have "fold (\<lambda>e p. gm_del (fst e) p) (dp_pending d) (dp_pending d) = []" by (rule fold_del_none) simp
  ultimately show ?thesis
    using drain_loop_effect [of "dp_pending d" d "sentinel msg"] unfolding drainAll_def by simp
qed


lemma sentinel_err [simp]: "frameErr (sentinel msg) = Some ErrClientClosed"
  by (simp add: sentinel_def frameErr_def)

lemma table_drain:
  assumes "table_inv d A" "length (dp_chans d) < 2 ^ 64"
  shows "table_inv (drainAll msg d) A"
proof -
  let ?d = "drainAll msg d"
  have p: "pending_ok (dp_pending d) (dp_chans d) (routing A)" using assms(1) by (simp add: table_inv_def)
  have e: "dp_pending ?d = []" "length (dp_chans ?d) = length (dp_chans d)"
    and cs: "\<And>j. j < length (dp_chans d) \<Longrightarrow> dp_chans ?d ! j =
       (if gm_get (dp_pending d) (idOf j) = Some j then [sentinel msg] else dp_chans d ! j)"
    using drainAll_effect [OF p assms(2)] by auto
  have "chans_ok (dp_chans ?d)" using assms(1) by (auto simp: table_inv_def chans_ok_def e cs)
  moreover have "routes_ok (dp_chans ?d) A"
    unfolding routes_ok_def
  proof (intro ballI allI impI)
    fix a ch f assume a: "a \<in># A" "routes a = Some (ch, f)"
    then have r: "ch < length (dp_chans d)" "dp_chans d ! ch = []" "answers ch f"
      using assms(1) unfolding table_inv_def routes_ok_def by blast+
    have "ch \<in># routing A" using a routing_mem by blast
    then have "gm_get (dp_pending d) (idOf ch) \<noteq> Some ch"
      using p by (auto simp: pending_ok_def dest: map_of_SomeD)
    then show "ch < length (dp_chans ?d) \<and> dp_chans ?d ! ch = [] \<and> answers ch f" using r e cs by simp
  qed
  moreover have "live_ok (dp_pending ?d) (dp_chans ?d) A"
    unfolding live_ok_def
  proof (intro ballI allI impI)
    fix a i ch assume a: "a \<in># A" "live a = Some (i, ch)"
    then have "ch < length (dp_chans d)" using assms(1) live_owns unfolding table_inv_def owners_ok_def by blast
    moreover have "served (dp_pending d) (dp_chans d) (routing A) ch" using assms(1) a unfolding table_inv_def live_ok_def by blast
    ultimately show "served (dp_pending ?d) (dp_chans ?d) (routing A) ch" by (auto simp: served_def cs)
  qed
  ultimately show ?thesis using assms(1) by (simp add: table_inv_def pending_ok_def e)
qed

section \<open>Every step\<close>

lemma client_disp_frame [simp]:
  "cl_disp (send_accept m c) = cl_disp c" "cl_nextID (send_accept m c) = cl_nextID c"
  "cl_disp (sendNotification m c) = cl_disp c" "cl_nextID (sendNotification m c) = cl_nextID c"
  "cl_disp (clearActive ch c) = cl_disp c" "cl_nextID (clearActive ch c) = cl_nextID c"
  "cl_disp (prompt_publish ch c) = cl_disp c" "cl_nextID (prompt_publish ch c) = cl_nextID c"
  "cl_disp (ctx_cancel c) = cl_disp c" "cl_nextID (ctx_cancel c) = cl_nextID c"
  "cl_disp (writer_write c) = cl_disp c" "cl_nextID (writer_write c) = cl_nextID c"
  "cl_disp (upd_disp g c) = g (cl_disp c)" "cl_nextID (upd_disp g c) = cl_nextID c"
  "cl_disp (send_cancel i c) = disp_cancel i (cl_disp c)" "cl_nextID (send_cancel i c) = cl_nextID c"
  "cl_disp (failPending c) = drainAll ''acp: client closed'' (cl_disp c)" "cl_nextID (failPending c) = cl_nextID c"
  by (simp_all add: send_accept_def sendNotification_def clearActive_def prompt_publish_def ctx_cancel_def writer_write_def
      upd_disp_def send_cancel_def failPending_def split: list.split)

lemma call_frame_disp: "call_frame k ch f c = (r, c') \<Longrightarrow> cl_disp c' = cl_disp c \<and> cl_nextID c' = cl_nextID c"
  by (cases k) (auto simp: initialize_frame_def newSession_frame_def await_frame_def Let_def split: option.splits if_splits)

lemma call_ctx_disp: "call_ctx k ch c = (r, c') \<Longrightarrow> cl_disp c' = cl_disp c \<and> cl_nextID c' = cl_nextID c"
  by (cases k) (auto simp: await_ctx_def)

lemma cancel_twice [simp]: "disp_cancel i (disp_cancel i d) = disp_cancel i d"
  by (simp add: disp_cancel_def gm_del_absent)

lemma send_failed_disp [simp]: "cl_disp (send_failed k i c) = disp_cancel i (cl_disp c)" "cl_nextID (send_failed k i c) = cl_nextID c"
  by (cases k; simp)+

lemma afterRegister_acts [simp]:
  "owns (afterRegister k i ch) = Some (i, ch)" "live (afterRegister k i ch) = Some (i, ch)"
  "routes (afterRegister k i ch) = None" "\<not> readerAct (afterRegister k i ch)"
  by (cases k; simp)+

lemma afterSend_acts [simp]:
  "owns (afterSend k i ch) = Some (i, ch)" "live (afterSend k i ch) = Some (i, ch)"
  "routes (afterSend k i ch) = None" "\<not> readerAct (afterSend k i ch)"
  by (cases k; simp)+


lemma drain_loop_length [simp]: "length (dp_chans (drain_loop f es d)) = length (dp_chans d)"
  by (induction f es d rule: drain_loop.induct) simp_all

lemma drainAll_length [simp]: "length (dp_chans (drainAll msg d)) = length (dp_chans d)"
  by (simp add: drainAll_def)

lemma route_chans: "disp_route f d = (r, d') \<Longrightarrow> dp_chans d' = dp_chans d"
  by (auto simp: disp_route_def split: if_splits option.splits)

lemma route_drop: "disp_route f d = (RouteDrop, d') \<Longrightarrow> d' = d"
  by (auto simp: disp_route_def split: if_splits option.splits)

lemma client_inv_pair: "client_inv (c, A) \<longleftrightarrow> cl_nextID c = of_nat (length (dp_chans (cl_disp c))) \<and>
     (length (dp_chans (cl_disp c)) < 2 ^ 64 \<longrightarrow> table_inv (cl_disp c) A)"
  by (simp add: client_inv_def)

text \<open>A section that leaves the number of channels alone keeps the invariant if it keeps \<open>table_inv\<close>.\<close>

lemma client_inv_keep:
  assumes "client_inv (c, A)" "cl_nextID c' = cl_nextID c" "length (dp_chans (cl_disp c')) = length (dp_chans (cl_disp c))"
    "table_inv (cl_disp c) A \<Longrightarrow> length (dp_chans (cl_disp c)) < 2 ^ 64 \<Longrightarrow> table_inv (cl_disp c') A'"
  shows "client_inv (c', A')"
  using assms by (simp add: client_inv_pair)

lemma table_fail:
  assumes "table_inv d (add_mset (CSend k i ch) A)" "length (dp_chans d) < 2 ^ 64"
  shows "table_inv (disp_cancel i d) (afterSendFail k i ch e + A)"
proof -
  have "table_inv d (add_mset (CDefer k i ch (ResErr e)) A)" using assms(1) by (rule table_swap) simp_all
  then have "table_inv (disp_cancel i d) (add_mset (CDefer k i ch (ResErr e)) A)" using assms(2) by (rule table_cancel) simp_all
  then show ?thesis by (cases k) (auto intro: table_drop)
qed

lemma register_length: "disp_register i d = (ch, d') \<Longrightarrow> ch = length (dp_chans d) \<and> length (dp_chans d') = Suc (length (dp_chans d))"
  by (auto simp: disp_register_def)

lemma step_register_inv:
  assumes "client_inv (c, A)" "call_register c = (i, ch, c')"
  shows "client_inv (c', add_mset (afterRegister k i ch) A)"
proof -
  let ?n = "length (dp_chans (cl_disp c))"
  have i: "i = idOf ?n" using assms by (auto simp: call_register_def client_inv_pair idOf_def Let_def split: prod.splits)
  then have reg: "disp_register (idOf ?n) (cl_disp c) = (ch, cl_disp c')" and nx: "cl_nextID c' = idOf ?n"
    using assms(2) by (auto simp: call_register_def Let_def split: prod.splits)
  then have ch: "ch = ?n" "length (dp_chans (cl_disp c')) = Suc ?n" using register_length [OF reg] by simp_all
  have "table_inv (cl_disp c') (add_mset (afterRegister k i ch) A)" if "Suc ?n < 2 ^ 64"
  proof (rule table_register [OF _ that reg])
    show "table_inv (cl_disp c) A" using assms(1) that by (simp add: client_inv_pair)
  qed (simp_all add: i ch)
  then show ?thesis using nx ch by (simp add: client_inv_pair idOf_def)
qed


lemma client_step_inv: "client_step x y \<Longrightarrow> client_inv x \<Longrightarrow> client_inv y"
proof (induction rule: client_step.induct)
  case (cs_register c i ch c' A k)
  then show ?case by (blast intro: step_register_inv)
next
  case (cs_publish c k i ch A)
  then show ?case by (rule client_inv_keep) (auto elim: table_swap)
next
  case (cs_send c k i ch A)
  then show ?case by (intro client_inv_keep [OF cs_send(2)]) (auto elim: table_swap)
next
  case (cs_spawn c k i ch A)
  then show ?case by (rule client_inv_keep) (auto elim: table_swap)
next
  case (cs_sendCtx c k i ch A)
  then show ?case by (rule client_inv_keep) (auto intro: table_fail)
next
  case (cs_sendClosed c k i ch A)
  then show ?case by (intro client_inv_keep [OF cs_sendClosed(2)]) (auto intro: table_fail)
next
  case (cs_frame c ch f fs k r c' i A)
  have d: "cl_disp c' = chan_recv ch (cl_disp c)" "cl_nextID c' = cl_nextID c" using call_frame_disp [OF cs_frame(2)] by simp_all
  show ?case
  proof (rule client_inv_keep [OF cs_frame(3)])
    assume "table_inv (cl_disp c) (add_mset (CWait k i ch) A)"
    then have "table_inv (cl_disp c) (add_mset (CDefer k i ch r) A)" by (rule table_swap) simp_all
    then show "table_inv (cl_disp c') (add_mset (CDefer k i ch r) A)"
      unfolding d by (rule table_recv) (simp_all add: cs_frame(1))
  qed (simp_all add: d)
next
  case (cs_ctx k ch c r c' i A)
  show ?case using call_ctx_disp [OF cs_ctx(1)] by (intro client_inv_keep [OF cs_ctx(2)]) (auto elim: table_swap)
next
  case (cs_defer c k i ch r A)
  have "table_inv (disp_cancel i d) A" if "table_inv d (add_mset (CDefer k i ch r) A)" "length (dp_chans d) < 2 ^ 64" for d
    by (rule table_drop [OF table_cancel [OF that]]) simp_all
  with cs_defer show ?case by (intro client_inv_keep [OF cs_defer]) simp_all
next
  case (cs_cancel c A sid)
  then show ?case by (rule client_inv_keep) simp_all
next
  case (cs_notifFail f c d A)
  then show ?case by (intro client_inv_keep [OF cs_notifFail(2)]) simp_all
next
  case (cs_drop f c d A)
  then show ?case using route_drop [OF cs_drop(1)] by simp
next
  case (cs_route f c ch d A)
  show ?case
    using table_route [OF _ cs_route(1)] route_chans [OF cs_route(1)] by (intro client_inv_keep [OF cs_route(2)]) simp_all
next
  case (cs_deliver ch c f A)
  then show ?case by (intro client_inv_keep [OF cs_deliver(2)]) (simp_all add: table_deliver)
next
  case (cs_eof c A)
  then show ?case by (rule client_inv_keep) (auto elim: table_swap)
next
  case (cs_fail c A)
  have "table_inv (drainAll m d) (add_mset CCleanup A)"
    if "table_inv d (add_mset CFail A)" "length (dp_chans d) < 2 ^ 64" for d m
    by (rule table_drain [OF table_swap [OF that(1)] that(2)]) simp_all
  with cs_fail show ?case by (intro client_inv_keep [OF cs_fail]) simp_all
next
  case (cs_cleanup c A)
  then show ?case by (rule client_inv_keep) (auto elim: table_swap)
next
  case (cs_exit c A)
  then show ?case by (rule client_inv_keep) (auto elim: table_drop)
next
  case (cs_write c A)
  then show ?case by (rule client_inv_keep) simp_all
next
  case (cs_writeFail c A)
  then show ?case by (rule client_inv_keep) (auto elim: table_drop)
next
  case (cs_writeEnd c A)
  then show ?case by (intro client_inv_keep [OF cs_writeEnd(3)]) (auto elim: table_drop)
next
  case (cs_pingEscalate c A)
  then show ?case by (rule client_inv_keep) (auto elim: table_drop)
next
  case (cs_pingEnd c A)
  then show ?case by (intro client_inv_keep [OF cs_pingEnd(2)]) (auto elim: table_drop)
next
  case (cs_close c A)
  then show ?case by (intro client_inv_keep [OF cs_close(2)]) (auto intro: table_add)
next
  case (cs_closeDrain c A)
  have "table_inv (drainAll m d) (add_mset KCloseIO A)"
    if "table_inv d (add_mset KDrain A)" "length (dp_chans d) < 2 ^ 64" for d m
    by (rule table_drain [OF table_swap [OF that(1)] that(2)]) simp_all
  with cs_closeDrain show ?case by (intro client_inv_keep [OF cs_closeDrain]) simp_all
next
  case (cs_closeIO c A)
  then show ?case by (rule client_inv_keep) (auto elim: table_swap)
next
  case (cs_closeWait A c)
  then show ?case by (intro client_inv_keep [OF cs_closeWait(2)]) (auto elim: table_swap)
qed

interpretation client_sys: invariant_system client_start client_step client_inv
  by unfold_locales (auto intro: client_start_inv client_step_inv)

end
