(* ===== verification/AcpClientProps.thy ===== *)
theory AcpClientProps
  imports AcpClientInv
begin

text \<open>
  What callers of the ACP client can rely on: a request is answered with its own response, the reader is never blocked by
  a caller, and a request that waits when the client fails is woken. The last property exhibits a request that is
  admitted after the client has failed and is never woken.
\<close>

section \<open>Runs\<close>

lemma client_run_inv: "client_step\<^sup>*\<^sup>* (newClient, client_boot) x \<Longrightarrow> client_inv x"
  by (rule client_sys.reachable_inv [OF _, of "(newClient, client_boot)"]) (simp_all add: client_start_def)

lemma client_run_table:
  "client_step\<^sup>*\<^sup>* (newClient, client_boot) (c, A) \<Longrightarrow> length (dp_chans (cl_disp c)) < 2 ^ 64 \<Longrightarrow> table_inv (cl_disp c) A"
  using client_run_inv [of "(c, A)"] by (simp add: client_inv_pair)

section \<open>A sample run\<close>

text \<open>A ping is registered, sent, answered and the answer delivered.\<close>

definition sample_req :: Client where
  "sample_req = snd (snd (call_register newClient))"

definition sample_wait :: Client where
  "sample_wait = send_accept (OutRequest 1 Ping) sample_req"

definition sample_answer :: rpcFrame where
  "sample_answer = \<lparr>rf_ID = ''1'', rf_Method = [], rf_Result = None, rf_Error = None\<rparr>"

definition sample_got :: Client where
  "sample_got = upd_disp (chan_send 0 sample_answer) (upd_disp (disp_cancel 1) sample_wait)"

lemma sample_waiting: "client_step\<^sup>*\<^sup>* (newClient, client_boot) (sample_wait, add_mset (CWait Ping 1 0) client_boot)"
proof -
  have 1: "client_step (newClient, client_boot) (sample_req, add_mset (CSend Ping 1 0) client_boot)"
    using cs_register [of newClient 1 0 sample_req client_boot Ping]
    by (simp add: sample_req_def call_register_def newClient_def newDispatcher_def disp_register_def Let_def)
  have 2: "client_step (sample_req, add_mset (CSend Ping 1 0) client_boot) (sample_wait, add_mset (CWait Ping 1 0) client_boot)"
    using cs_send [of sample_req Ping 1 0 client_boot]
    by (simp add: sample_wait_def sample_req_def call_register_def newClient_def newDispatcher_def disp_register_def Let_def writeCap_def)
  show ?thesis by (meson 1 2 rtranclp.rtrancl_into_rtrancl rtranclp.rtrancl_refl)
qed

lemma sample_wait_disp: "cl_disp sample_wait = \<lparr>dp_pending = [(1, 0)], dp_chans = [[]]\<rparr>"
  by (simp add: sample_wait_def sample_req_def call_register_def newClient_def newDispatcher_def disp_register_def Let_def)

lemma sample_answered:
  "client_step\<^sup>*\<^sup>* (newClient, client_boot) (sample_got, {#CRead, CWait Ping 1 0, CWriter, CPinger#})"
proof -
  let ?A = "{#CWait Ping 1 0, CWriter, CPinger#}"
  let ?c = "sample_wait\<lparr>cl_disp := (cl_disp sample_wait)\<lparr>dp_pending := gm_del 1 (dp_pending (cl_disp sample_wait))\<rparr>\<rparr>"
  have 0: "add_mset (CWait Ping 1 0) client_boot = add_mset CRead ?A" by (simp add: client_boot_def add_mset_commute)
  have 1: "client_step (sample_wait, add_mset CRead ?A) (?c, add_mset (CRoute 0 sample_answer) ?A)"
    by (rule cs_route)
      (simp add: disp_route_def sample_wait_disp sample_answer_def hasID_def unmarshalUint64_def isDigit_def digitOf_def)
  have 2: "client_step (?c, add_mset (CRoute 0 sample_answer) ?A) (upd_disp (chan_send 0 sample_answer) ?c, add_mset CRead ?A)"
    by (rule cs_deliver) (simp add: chan_full_def sample_wait_disp)
  have 3: "upd_disp (chan_send 0 sample_answer) ?c = sample_got"
    by (simp add: sample_got_def upd_disp_def disp_cancel_def)
  show ?thesis
    using sample_waiting 1 2 unfolding 0 3 by (meson rtranclp.rtrancl_into_rtrancl)
qed

section \<open>Properties\<close>

text \<open>
  C19. A request is answered with its own response. In every reachable state with fewer than \<open>2 ^ 64\<close> requests made, the
  channel of a waiting request holds at most one frame, and that frame is the sentinel of a closing client or a
  response whose id is the id of the request.
\<close>

theorem response_to_its_request:
  assumes "client_step\<^sup>*\<^sup>* (newClient, client_boot) (c, A)" "length (dp_chans (cl_disp c)) < 2 ^ 64"
    "CWait k i ch \<in># A" "f \<in> set (dp_chans (cl_disp c) ! ch)"
  shows "dp_chans (cl_disp c) ! ch = [f] \<and> (frameErr f = Some ErrClientClosed \<or> unmarshalUint64 (rf_ID f) = Some i)"
proof -
  note T = client_run_table [OF assms(1,2)]
  have ch: "i = idOf ch" "ch < length (dp_chans (cl_disp c))"
    using T assms(3) unfolding table_inv_def owners_ok_def by (metis owns.simps(5) live.simps(4))+
  then have "length (dp_chans (cl_disp c) ! ch) \<le> 1" "frameErr f = Some ErrClientClosed \<or> answers ch f"
    using T assms(4) unfolding table_inv_def chans_ok_def by blast+
  then show ?thesis using assms(4) ch(1) by (cases "dp_chans (cl_disp c) ! ch") (auto simp: answers_def)
qed

theorem response_to_its_request_witness:
  "dp_chans (cl_disp sample_got) ! 0 = [sample_answer] \<and>
   (frameErr sample_answer = Some ErrClientClosed \<or> unmarshalUint64 (rf_ID sample_answer) = Some 1)"
proof (rule response_to_its_request [OF sample_answered])
  show "length (dp_chans (cl_disp sample_got)) < 2 ^ 64" by (simp add: sample_got_def sample_wait_disp)
  show "CWait Ping 1 0 \<in># {#CRead, CWait Ping 1 0, CWriter, CPinger#}" by simp
  show "sample_answer \<in> set (dp_chans (cl_disp sample_got) ! 0)" by (simp add: sample_got_def sample_wait_disp chan_send_def disp_cancel_def)
qed

text \<open>
  C20. Failing the client wakes every request. In every reachable state with fewer than \<open>2 ^ 64\<close> requests made, the reader can
  deliver the frame it is routing without blocking, and after \<open>failPending\<close> every request that waits has a frame in
  its channel, or the reader is about to deliver one.
\<close>

theorem fail_pending_wakes:
  assumes "client_step\<^sup>*\<^sup>* (newClient, client_boot) (c, A)" "length (dp_chans (cl_disp c)) < 2 ^ 64" "CWait k i ch \<in># A"
  shows "dp_chans (cl_disp (failPending c)) ! ch \<noteq> [] \<or> (\<exists>f. CRoute ch f \<in># A \<and> \<not> chan_full ch (cl_disp c))"
proof -
  note T = client_run_table [OF assms(1,2)]
  have p: "pending_ok (dp_pending (cl_disp c)) (dp_chans (cl_disp c)) (routing A)" using T by (simp add: table_inv_def)
  have ch: "ch < length (dp_chans (cl_disp c))"
    using T assms(3) unfolding table_inv_def owners_ok_def by (metis owns.simps(5) live.simps(4))
  have s: "served (dp_pending (cl_disp c)) (dp_chans (cl_disp c)) (routing A) ch"
    using T assms(3) unfolding table_inv_def live_ok_def by (metis live.simps(4))
  show ?thesis
  proof (cases "ch \<in># routing A")
    case True
    then obtain a where a: "a \<in># A" "routes a \<noteq> None" "ch = fst (the (routes a))" by (auto simp: routing_def)
    then obtain f where f: "a = CRoute ch f" by (cases a) auto
    then have "routes a = Some (ch, f)" by simp
    moreover have "routes_ok (dp_chans (cl_disp c)) A" using T by (simp add: table_inv_def)
    ultimately have "dp_chans (cl_disp c) ! ch = []" using a(1) unfolding routes_ok_def by blast
    then show ?thesis using a(1) unfolding f chan_full_def by blast
  next
    case False
    then show ?thesis using s ch drainAll_effect [OF p assms(2)] by (auto simp: served_def)
  qed
qed

theorem fail_pending_wakes_witness: "dp_chans (cl_disp (failPending sample_wait)) ! 0 \<noteq> []"
proof -
  have "length (dp_chans (cl_disp sample_wait)) < 2 ^ 64" by (simp add: sample_wait_disp)
  from fail_pending_wakes [OF sample_waiting this, of Ping 1 0] show ?thesis by (auto simp: client_boot_def)
qed

section \<open>A request after the failure\<close>

text \<open>The reader is gone and \<open>Close\<close> has drained the table: from here on no frame is put into an existing channel.\<close>

definition unserved :: "nat \<Rightarrow> csys \<Rightarrow> bool" where
  "unserved ch x \<longleftrightarrow> (\<forall>a \<in># snd x. \<not> readerAct a \<and> a \<noteq> KDrain) \<and> cl_closeOnce (fst x) \<and>
     ch < length (dp_chans (cl_disp (fst x))) \<and> dp_chans (cl_disp (fst x)) ! ch = []"

lemma closeOnce_frame [simp]:
  "cl_closeOnce (send_accept m c) = cl_closeOnce c" "cl_closeOnce (sendNotification m c) = cl_closeOnce c"
  "cl_closeOnce (clearActive ch c) = cl_closeOnce c" "cl_closeOnce (prompt_publish ch c) = cl_closeOnce c"
  "cl_closeOnce (ctx_cancel c) = cl_closeOnce c" "cl_closeOnce (writer_write c) = cl_closeOnce c"
  "cl_closeOnce (upd_disp g c) = cl_closeOnce c" "cl_closeOnce (send_cancel i c) = cl_closeOnce c"
  by (simp_all add: send_accept_def sendNotification_def clearActive_def prompt_publish_def ctx_cancel_def writer_write_def
      upd_disp_def send_cancel_def split: list.split)

lemma call_closeOnce:
  "call_frame k ch f c = (r, c') \<Longrightarrow> cl_closeOnce c' = cl_closeOnce c"
  "call_ctx k ch c = (r, c') \<Longrightarrow> cl_closeOnce c' = cl_closeOnce c"
  "cl_closeOnce (send_failed k i c) = cl_closeOnce c"
  by (cases k; auto simp: initialize_frame_def newSession_frame_def await_frame_def await_ctx_def Let_def split: option.splits if_splits)+

lemma afterSendFail_acts [simp]: "a \<in># afterSendFail k i ch e \<Longrightarrow> \<not> readerAct a" "KDrain \<notin># afterSendFail k i ch e"
  by (cases k; auto)+

lemma recv_other: "ch' \<noteq> ch \<or> xs = [] \<Longrightarrow> dp_chans d ! ch = xs \<Longrightarrow> xs = [] \<Longrightarrow> dp_chans (chan_recv ch' d) ! ch = []"
  by (cases "ch' < length (dp_chans d)") (auto simp: chan_recv_def nth_list_update list_update_beyond)

lemma afterRegister_drain [simp]: "afterRegister k i ch \<noteq> KDrain" "afterSend k i ch \<noteq> KDrain"
  by (cases k; simp)+

lemma unserved_step: "client_step x y \<Longrightarrow> unserved ch x \<Longrightarrow> unserved ch y"
proof (induction rule: client_step.induct)
  case (cs_register c i ch' c' A k)
  then show ?case
    by (auto simp: unserved_def call_register_def disp_register_def Let_def nth_append)
next
  case (cs_frame c ch' f fs k r c' i A)
  then show ?case
    using call_frame_disp [OF cs_frame(2)] call_closeOnce(1) [OF cs_frame(2)] by (auto simp: unserved_def intro: recv_other)
next
  case (cs_ctx k ch' c r c' i A)
  then show ?case
    using call_ctx_disp [OF cs_ctx(1)] call_closeOnce(2) [OF cs_ctx(1)] by (auto simp: unserved_def)
qed (auto simp: unserved_def call_closeOnce)

lemma unserved_run: "client_step\<^sup>*\<^sup>* x y \<Longrightarrow> unserved ch x \<Longrightarrow> unserved ch y"
  by (induction rule: rtranclp_induct) (auto intro: unserved_step)

text \<open>The client after the worker died and \<open>Close\<close> failed the pending requests.\<close>

definition dead_client :: Client where
  "dead_client = failPending (ctx_cancel ((ctx_cancel ((failPending newClient)\<lparr>cl_activeStream := None\<rparr>))\<lparr>cl_closeOnce := True\<rparr>))"

lemma dead_run: "client_step\<^sup>*\<^sup>* (newClient, client_boot) (dead_client, {#KCloseIO#})"
proof -
  let ?c1 = "failPending newClient" and ?c2 = "(failPending newClient)\<lparr>cl_activeStream := None\<rparr>"
  let ?c3 = "ctx_cancel ?c2" and ?c4 = "ctx_cancel ((ctx_cancel ?c2)\<lparr>cl_closeOnce := True\<rparr>)"
  have 1: "client_step (newClient, client_boot) (newClient, add_mset CFail {#CWriter, CPinger#})"
    unfolding client_boot_def by (rule cs_eof)
  have 2: "client_step (newClient, add_mset CFail {#CWriter, CPinger#}) (?c1, add_mset CCleanup {#CWriter, CPinger#})" by (rule cs_fail)
  have 3: "client_step (?c1, add_mset CCleanup {#CWriter, CPinger#}) (?c2, add_mset CExit {#CWriter, CPinger#})" by (rule cs_cleanup)
  have 4: "client_step (?c2, add_mset CExit {#CWriter, CPinger#}) (?c3, {#CWriter, CPinger#})" by (rule cs_exit)
  have 5: "client_step (?c3, {#CWriter, CPinger#}) (?c3, {#CPinger#})"
    by (rule cs_writeEnd) (simp_all add: ctx_cancel_def failPending_def upd_disp_def newClient_def)
  have 6: "client_step (?c3, {#CPinger#}) (?c3, {#})" by (rule cs_pingEnd) (simp add: ctx_cancel_def)
  have 7: "client_step (?c3, {#}) (?c4, {#KDrain#})"
    by (rule cs_close) (simp add: ctx_cancel_def failPending_def upd_disp_def newClient_def)
  have 8: "client_step (?c4, {#KDrain#}) (dead_client, {#KCloseIO#})" unfolding dead_client_def by (rule cs_closeDrain)
  show ?thesis by (meson 1 2 3 4 5 6 7 8 rtranclp.rtrancl_into_rtrancl rtranclp.rtrancl_refl)
qed


text \<open>
  C21. A prompt that is admitted after the client has failed is never woken. There is a run in which the worker has died, the reader
  has failed the pending requests and exited, \<open>Close\<close> has failed them again, and the prompt's \<open>send\<close> picks the
  write queue although the client context is done; \<open>Close\<close> then waits for the prompt's goroutine, and in no
  continuation does a frame reach it: both wait until the request context of the prompt ends.
\<close>

theorem late_prompt_never_woken:
  "\<exists>c A. client_step\<^sup>*\<^sup>* (newClient, client_boot) (c, A) \<and> A = {#KWait, CWait (PromptCall sid) 1 0#} \<and> cl_ctxDone c \<and>
     (\<forall>c' A'. client_step\<^sup>*\<^sup>* (c, A) (c', A') \<longrightarrow> dp_chans (cl_disp c') ! 0 = [])"
proof -
  let ?k = "PromptCall sid"
  let ?c1 = "snd (snd (call_register dead_client))"
  let ?c2 = "prompt_publish 0 ?c1"
  let ?c3 = "send_accept (OutRequest 1 ?k) ?c2"
  let ?c4 = "?c3\<lparr>cl_ioClosed := True\<rparr>"
  have d: "cl_disp dead_client = newDispatcher" "cl_nextID dead_client = 0" "cl_writeCh dead_client = []"
      "cl_ctxDone dead_client" "cl_closeOnce dead_client"
    by (simp_all add: dead_client_def failPending_def ctx_cancel_def upd_disp_def newClient_def drainAll_def newDispatcher_def)
  have r: "call_register dead_client = (1, 0, ?c1)"
    using d by (simp add: call_register_def disp_register_def newDispatcher_def Let_def)
  have 1: "client_step (dead_client, {#KCloseIO#}) (?c1, {#CPublish ?k 1 0, KCloseIO#})"
    using cs_register [OF r, of "{#KCloseIO#}" ?k] by simp
  have 2: "client_step (?c1, {#CPublish ?k 1 0, KCloseIO#}) (?c2, {#CSend ?k 1 0, KCloseIO#})" by (rule cs_publish)
  have 3: "client_step (?c2, {#CSend ?k 1 0, KCloseIO#}) (?c3, {#CSpawn ?k 1 0, KCloseIO#})"
    using cs_send [of ?c2 ?k 1 0 "{#KCloseIO#}"] d
    by (simp add: prompt_publish_def call_register_def disp_register_def Let_def writeCap_def)
  have 4: "client_step (?c3, {#CSpawn ?k 1 0, KCloseIO#}) (?c3, {#KCloseIO, CWait ?k 1 0#})"
    using cs_spawn [of ?c3 ?k 1 0 "{#KCloseIO#}"] by (simp add: add_mset_commute)
  have 5: "client_step (?c3, {#KCloseIO, CWait ?k 1 0#}) (?c4, {#KWait, CWait ?k 1 0#})" by (rule cs_closeIO)
  have run: "client_step\<^sup>*\<^sup>* (newClient, client_boot) (?c4, {#KWait, CWait ?k 1 0#})"
    using dead_run [THEN rtranclp.rtrancl_into_rtrancl, OF 1, THEN rtranclp.rtrancl_into_rtrancl, OF 2,
        THEN rtranclp.rtrancl_into_rtrancl, OF 3, THEN rtranclp.rtrancl_into_rtrancl, OF 4,
        THEN rtranclp.rtrancl_into_rtrancl, OF 5] .
  have u: "unserved 0 (?c4, {#KWait, CWait ?k 1 0#})"
    using d by (simp add: unserved_def send_accept_def prompt_publish_def call_register_def disp_register_def newDispatcher_def Let_def)
  have "dp_chans (cl_disp c') ! 0 = []" if "client_step\<^sup>*\<^sup>* (?c4, {#KWait, CWait ?k 1 0#}) (c', A')" for c' A'
    using unserved_run [OF that u] by (simp add: unserved_def)
  moreover have "cl_ctxDone ?c4"
    using d by (simp add: send_accept_def prompt_publish_def call_register_def Let_def disp_register_def)
  ultimately show ?thesis using run by blast
qed

theorem late_prompt_never_woken_witness:
  "\<exists>c. client_step\<^sup>*\<^sup>* (newClient, client_boot) (c, {#KWait, CWait (PromptCall ''s1'') 1 0#}) \<and> dp_chans (cl_disp c) ! 0 = []"
  using late_prompt_never_woken [of "''s1''"] by blast

end
