(* ===== verification/AcpHandler.thy ===== *)
theory AcpHandler
  imports AcpClient
begin

text \<open>
  What the reader does with the worker's notifications and requests (internal/acp/translate.go and \<open>handleNotification\<close> in
  internal/acp/client.go). The handler is a function of the decoded parameters and of the active stream; what it
  does outside the stream is the list of its effects in order. Decoding is \<open>encoding/json\<close>: the model starts
  from the decoded struct, and a body that does not decode is \<open>None\<close>. Strings are ASCII. Values of tool arguments are kept
  as their JSON text; metering values are of any type with a zero and an addition, as \<open>float64\<close> is. The
  optional hooks are installed: each of their calls is an effect.
\<close>

section \<open>Strings\<close>

definition isUpper :: "char \<Rightarrow> bool" where
  "isUpper c \<longleftrightarrow> 65 \<le> (of_char c :: nat) \<and> (of_char c :: nat) \<le> 90"

definition lowerChar :: "char \<Rightarrow> char" where
  "lowerChar c = (if isUpper c then char_of (of_char c + (32 :: nat)) else c)"

definition toLower :: "string \<Rightarrow> string" where
  "toLower s = map lowerChar s"

fun isPrefix :: "string \<Rightarrow> string \<Rightarrow> bool" where
  "isPrefix [] t = True"
| "isPrefix (c # s) [] = False"
| "isPrefix (c # s) (d # t) = (c = d \<and> isPrefix s t)"

fun contains :: "string \<Rightarrow> string \<Rightarrow> bool" where
  "contains [] sub = (sub = [])"
| "contains (c # s) sub = (isPrefix sub (c # s) \<or> contains s sub)"

fun joinLines :: "string list \<Rightarrow> string" where
  "joinLines [] = []"
| "joinLines [s] = s"
| "joinLines (s # t # ts) = s @ [CHR 0x0A] @ joinLines (t # ts)"

section \<open>Session updates\<close>

datatype contentWire = ContentAbsent | ContentText string | ContentString string | ContentNull | ContentOther

record sessionUpdateBody =
  sb_SessionUpdate :: string
  sb_Type :: string
  sb_Content :: contentWire
  sb_Text :: string
  sb_ToolCallID :: string
  sb_Title :: string
  sb_Kind :: string
  sb_Args :: "(string \<times> string) list"
  sb_RawInput :: "(string \<times> string) list"
  sb_Output :: string
  sb_Entries :: "string list"

text \<open>\<open>su_Update\<close> is absent, present but malformed, or the wrapped body; \<open>su_flat\<close> holds the flat fields.\<close>

record sessionUpdateParams =
  su_SessionID :: string
  su_Update :: "sessionUpdateBody option option"
  su_flat :: sessionUpdateBody

datatype Chunk =
    TextChunk string
  | ThoughtChunk string
  | ToolCallChunk string string "(string \<times> string) list"
  | PlanChunk string

fun camelLoop :: "bool \<Rightarrow> string \<Rightarrow> string" where
  "camelLoop first [] = []"
| "camelLoop first (c # s) = (if \<not> first \<and> isUpper c then [CHR ''_''] else []) @ [lowerChar c] @ camelLoop False s"

definition normalizeUpdateType :: "string \<Rightarrow> string" where
  "normalizeUpdateType s = (if s = [] then [] else if CHR ''_'' \<in> set s then toLower s else camelLoop True s)"

definition extractContent :: "sessionUpdateBody \<Rightarrow> string" where
  "extractContent body = (case sb_Content body of
       ContentText t \<Rightarrow> t
     | ContentString s \<Rightarrow> s
     | ContentNull \<Rightarrow> []
     | _ \<Rightarrow> sb_Text body)"

definition joinPlanEntries :: "string list \<Rightarrow> string" where
  "joinPlanEntries entries = (if entries = [] then [] else joinLines entries)"

definition translateBody :: "sessionUpdateBody \<Rightarrow> Chunk" where
  "translateBody body =
     (let discriminator = normalizeUpdateType (firstNonEmpty [sb_SessionUpdate body, sb_Type body]);
          content = extractContent body
      in if discriminator = ''agent_message_chunk'' then TextChunk content
         else if discriminator = ''agent_thought_chunk'' then ThoughtChunk content
         else if discriminator = ''tool_call'' \<or> discriminator = ''tool_call_chunk'' then
           ToolCallChunk (sb_ToolCallID body) (firstNonEmpty [sb_Kind body, sb_Title body, ''unknown''])
             (if sb_Args body = [] then sb_RawInput body else sb_Args body)
         else if discriminator = ''tool_call_update'' then ThoughtChunk (firstNonEmpty [sb_Output body, content])
         else if discriminator = ''plan'' then PlanChunk (joinPlanEntries (sb_Entries body))
         else TextChunk content)"

definition translateUpdate :: "sessionUpdateParams \<Rightarrow> Chunk option" where
  "translateUpdate u = (case su_Update u of
       None \<Rightarrow> Some (translateBody (su_flat u))
     | Some None \<Rightarrow> None
     | Some (Some body) \<Rightarrow> Some (translateBody body))"

section \<open>Permissions\<close>

record permissionOption =
  po_OptionID :: string
  po_Kind :: string

definition optionText :: "permissionOption \<Rightarrow> string" where
  "optionText opt = toLower (po_Kind opt @ '' '' @ po_OptionID opt)"

definition pickRejectOption :: "permissionOption list \<Rightarrow> string" where
  "pickRejectOption opts =
     (case find (\<lambda>opt. contains (optionText opt) ''reject'' \<and> contains (optionText opt) ''always'') opts of
        Some opt \<Rightarrow> po_OptionID opt
      | None \<Rightarrow> (case find (\<lambda>opt. contains (optionText opt) ''reject'') opts of
            Some opt \<Rightarrow> po_OptionID opt
          | None \<Rightarrow> ''reject_always''))"

section \<open>Usage notifications\<close>

record 'n meteringEntry =
  me_Value :: 'n
  me_Unit :: string
  me_UnitPlural :: string

record 'n metadataParams =
  md_ContextUsagePercentage :: "'n option"
  md_MeteringUsage :: "'n meteringEntry list option"
  md_TurnDurationMs :: "int option"

fun sumCredits :: "'n::{zero, plus} meteringEntry list \<Rightarrow> 'n \<Rightarrow> 'n" where
  "sumCredits [] acc = acc"
| "sumCredits (e # es) acc =
     sumCredits es (if me_Unit e = ''credit'' \<or> me_UnitPlural e = ''credits'' then acc + me_Value e else acc)"

section \<open>The handler\<close>

datatype 'n notif =
    RequestPermission "permissionOption list"
  | SessionUpdate "sessionUpdateParams option"
  | KiroMetadata "'n metadataParams option"
  | ServerInitialized "string option"
  | ServerInitFailure "string option"
  | OtherMethod

datatype 'n effect =
    WritePermission string string bool
  | CancelClient
  | QueueCancel string
  | PushChunk Chunk
  | OnContextPct 'n
  | OnTurnMeter 'n int 'n bool
  | OnMCPInit string bool

record handlerConfig =
  hc_MaxToolDenials :: int

definition maxDenialsOf :: "handlerConfig \<Rightarrow> int" where
  "maxDenialsOf cfg = (if hc_MaxToolDenials cfg \<le> 0 then 4 else hc_MaxToolDenials cfg)"

text \<open>The argument \<open>written\<close> says whether the direct write of the response succeeds.\<close>

definition handlePermission ::
  "handlerConfig \<Rightarrow> bool \<Rightarrow> string \<Rightarrow> permissionOption list \<Rightarrow> Chunk Stream option \<Rightarrow> 'n effect list \<times> Chunk Stream option" where
  "handlePermission cfg written frameID opts s =
     (if frameID = [] \<or> frameID = ''null'' then ([], s)
      else case s of
          Some st \<Rightarrow>
            if denyTools st then
              (let (denialCount, st') = recordDenial st;
                   breaker = int denialCount \<ge> maxDenialsOf cfg
               in if \<not> written then ([CancelClient], Some st')
                  else ([WritePermission frameID (pickRejectOption opts) False]
                        @ (if breaker then [QueueCancel (stream_SessionID st')] else []), Some st'))
            else (if written then [WritePermission frameID ''allow_always'' True] else [CancelClient], s)
        | None \<Rightarrow> (if written then [WritePermission frameID ''allow_always'' True] else [CancelClient], s))"

definition crossSession :: "sessionUpdateParams \<Rightarrow> 'c Stream \<Rightarrow> bool" where
  "crossSession u st \<longleftrightarrow> stream_SessionID st \<noteq> [] \<and> su_SessionID u \<noteq> [] \<and> su_SessionID u \<noteq> stream_SessionID st"

definition handleUpdate :: "sessionUpdateParams option \<Rightarrow> 'c Stream option \<Rightarrow> 'n effect list" where
  "handleUpdate p s = (case p of None \<Rightarrow> []
     | Some u \<Rightarrow> (case translateUpdate u of None \<Rightarrow> []
         | Some chunk \<Rightarrow> (case s of None \<Rightarrow> []
             | Some st \<Rightarrow> if crossSession u st then [] else [PushChunk chunk])))"

definition handleMetadata :: "'n::{zero, plus} metadataParams option \<Rightarrow> 'n effect list" where
  "handleMetadata p = (case p of None \<Rightarrow> []
     | Some meta \<Rightarrow>
         (case md_ContextUsagePercentage meta of Some pct \<Rightarrow> [OnContextPct pct] | None \<Rightarrow> [])
         @ (case md_MeteringUsage meta of None \<Rightarrow> []
            | Some usage \<Rightarrow> [OnTurnMeter (sumCredits usage 0)
                (case md_TurnDurationMs meta of Some ms \<Rightarrow> ms | None \<Rightarrow> 0)
                (case md_ContextUsagePercentage meta of Some pct \<Rightarrow> pct | None \<Rightarrow> 0)
                (md_ContextUsagePercentage meta \<noteq> None)]))"

definition handleMCPInit :: "string option \<Rightarrow> bool \<Rightarrow> 'n effect list" where
  "handleMCPInit p ok = (case p of None \<Rightarrow> [] | Some server \<Rightarrow> [OnMCPInit server ok])"

fun handleNotification ::
  "handlerConfig \<Rightarrow> bool \<Rightarrow> string \<Rightarrow> 'n::{zero, plus} notif \<Rightarrow> Chunk Stream option \<Rightarrow> 'n effect list \<times> Chunk Stream option" where
  "handleNotification cfg written frameID (RequestPermission opts) s = handlePermission cfg written frameID opts s"
| "handleNotification cfg written frameID (SessionUpdate p) s = (handleUpdate p s, s)"
| "handleNotification cfg written frameID (KiroMetadata p) s = (handleMetadata p, s)"
| "handleNotification cfg written frameID (ServerInitialized p) s = (handleMCPInit p True, s)"
| "handleNotification cfg written frameID (ServerInitFailure p) s = (handleMCPInit p False, s)"
| "handleNotification cfg written frameID OtherMethod s = ([], s)"

section \<open>A turn\<close>

text \<open>
  The notifications of one turn, handled one after the other with the same active stream. Each
  comes with the outcome of the direct write of an answer to it; a write that fails cancels the
  client context, and the frames that the read loop still delivers are handled all the same.
\<close>

fun handleTurn ::
  "handlerConfig \<Rightarrow> (bool \<times> string \<times> 'n::{zero, plus} notif) list \<Rightarrow> Chunk Stream \<Rightarrow> 'n effect list \<times> Chunk Stream" where
  "handleTurn cfg [] st = ([], st)"
| "handleTurn cfg ((written, frameID, n) # ns) st =
     (let (es, s') = handleNotification cfg written frameID n (Some st);
          (es', st') = handleTurn cfg ns (the s')
      in (es @ es', st'))"


section \<open>What a turn does\<close>

text \<open>The permission requests with a usable id, each with the outcome of the write of its answer.\<close>

definition requests :: "(bool \<times> string \<times> 'n notif) list \<Rightarrow> (bool \<times> string) list" where
  "requests ns = map (\<lambda>(w, i, n). (w, i)) (filter (\<lambda>(w, i, n). i \<noteq> [] \<and> i \<noteq> ''null'' \<and> (case n of RequestPermission opts \<Rightarrow> True | _ \<Rightarrow> False)) ns)"

fun turnChunk :: "string \<Rightarrow> 'n notif \<Rightarrow> Chunk option" where
  "turnChunk sid (SessionUpdate (Some u)) =
     (if sid \<noteq> [] \<and> su_SessionID u \<noteq> [] \<and> su_SessionID u \<noteq> sid then None else translateUpdate u)"
| "turnChunk sid _ = None"

definition responses :: "'n effect list \<Rightarrow> (string \<times> bool) list" where
  "responses es = List.map_filter (\<lambda>e. case e of WritePermission i opt g \<Rightarrow> Some (i, g) | _ \<Rightarrow> None) es"

definition cancels :: "'n effect list \<Rightarrow> string list" where
  "cancels es = List.map_filter (\<lambda>e. case e of QueueCancel sid \<Rightarrow> Some sid | _ \<Rightarrow> None) es"

definition clientCancels :: "'n effect list \<Rightarrow> nat" where
  "clientCancels es = length (filter (\<lambda>e. case e of CancelClient \<Rightarrow> True | _ \<Rightarrow> False) es)"

definition pushes :: "'n effect list \<Rightarrow> Chunk list" where
  "pushes es = List.map_filter (\<lambda>e. case e of PushChunk c \<Rightarrow> Some c | _ \<Rightarrow> None) es"

lemma map_filter_append: "List.map_filter f (xs @ ys) = List.map_filter f xs @ List.map_filter f ys"
  by (simp add: List.map_filter_def)

lemma effect_lists [simp]:
  "responses [] = []" "cancels [] = []" "pushes [] = []" "clientCancels [] = 0"
  "responses (es @ es') = responses es @ responses es'" "cancels (es @ es') = cancels es @ cancels es'"
  "pushes (es @ es') = pushes es @ pushes es'" "clientCancels (es @ es') = clientCancels es + clientCancels es'"
  "responses (e # es) = (case e of WritePermission i opt g \<Rightarrow> [(i, g)] | _ \<Rightarrow> []) @ responses es"
  "cancels (e # es) = (case e of QueueCancel sid \<Rightarrow> [sid] | _ \<Rightarrow> []) @ cancels es"
  "pushes (e # es) = (case e of PushChunk c \<Rightarrow> [c] | _ \<Rightarrow> []) @ pushes es"
  "clientCancels (e # es) = (case e of CancelClient \<Rightarrow> 1 | _ \<Rightarrow> 0) + clientCancels es"
  by (simp_all add: responses_def cancels_def pushes_def clientCancels_def map_filter_append List.map_filter_simps split: effect.split)

lemma requests_simps [simp]:
  "requests [] = []"
  "requests ((w, i, n) # ns) = (if i \<noteq> [] \<and> i \<noteq> ''null'' \<and> (case n of RequestPermission opts \<Rightarrow> True | _ \<Rightarrow> False) then [(w, i)] else []) @ requests ns"
  by (simp_all add: requests_def)

text \<open>One notification, by what it may change.\<close>

lemma other_effects:
  assumes "\<forall>opts. n \<noteq> RequestPermission opts" "handleNotification cfg w i n (Some st) = (es, s')"
  shows "s' = Some st \<and> responses es = [] \<and> cancels es = [] \<and> clientCancels es = 0 \<and>
    pushes es = (case turnChunk (stream_SessionID st) n of None \<Rightarrow> [] | Some c \<Rightarrow> [c])"
  using assms
  by (cases n)
    (auto simp: handleUpdate_def handleMetadata_def handleMCPInit_def crossSession_def split: option.splits if_splits)

lemma permission_effects:
  assumes "handleNotification cfg w i (RequestPermission opts :: 'n::{zero, plus} notif) (Some st) = (es, s')"
    "i \<noteq> []" "i \<noteq> ''null''"
  shows "s' = Some (if denyTools st then snd (recordDenial st) else st) \<and> pushes es = [] \<and>
    responses es = (if w then [(i, \<not> denyTools st)] else []) \<and> clientCancels es = (if w then 0 else 1) \<and>
    cancels es = (if w \<and> denyTools st \<and> int (st_denialCount st) + 1 \<ge> maxDenialsOf cfg then [stream_SessionID st] else [])"
  using assms by (auto simp: handlePermission_def recordDenial_def stream_SessionID_def Let_def split: if_splits)

lemma unanswerable_effects:
  "handleNotification cfg w i (RequestPermission opts) s = (es, s') \<Longrightarrow> i = [] \<or> i = ''null'' \<Longrightarrow> es = [] \<and> s' = s"
  by (auto simp: handlePermission_def)

lemma recordDenial_frame [simp]:
  "denyTools (snd (recordDenial st)) = denyTools st" "stream_SessionID (snd (recordDenial st)) = stream_SessionID st"
  "st_denialCount (snd (recordDenial st)) = Suc (st_denialCount st)"
  by (simp_all add: recordDenial_def denyTools_def stream_SessionID_def)

definition turn_spec ::
  "handlerConfig \<Rightarrow> (bool \<times> string \<times> 'n notif) list \<Rightarrow> Chunk Stream \<Rightarrow> 'n effect list \<Rightarrow> Chunk Stream \<Rightarrow> bool" where
  "turn_spec cfg ns st es st' \<longleftrightarrow>
     responses es = map (\<lambda>x. (snd x, \<not> denyTools st)) (filter fst (requests ns)) \<and>
     clientCancels es = length (filter (\<lambda>x. \<not> fst x) (requests ns)) \<and>
     cancels es = (if denyTools st
       then map (\<lambda>_. stream_SessionID st)
         (filter fst (drop (nat (maxDenialsOf cfg - 1 - int (st_denialCount st))) (requests ns))) else []) \<and>
     pushes es = List.map_filter (\<lambda>x. turnChunk (stream_SessionID st) (snd (snd x))) ns \<and>
     st_denialCount st' = st_denialCount st + (if denyTools st then length (requests ns) else 0)"

lemma drop_threshold:
  "filter fst (drop (nat (m - 1 - int k)) ((w, i) # xs)) =
     (if w \<and> int k + 1 \<ge> m then [(w, i)] else []) @ filter fst (drop (nat (m - 1 - int (Suc k))) xs)"
proof (cases "int k + 1 \<ge> m")
  case True
  then have "nat (m - 1 - int k) = 0" "nat (m - 1 - int (Suc k)) = 0" by auto
  with True show ?thesis by simp
next
  case False
  then have "nat (m - 1 - int k) = Suc (nat (m - 1 - int (Suc k)))" by auto
  with False show ?thesis by simp
qed

lemma handleTurn_spec: "handleTurn cfg ns st = (es, st') \<Longrightarrow> turn_spec cfg ns st es st'"
proof (induction ns arbitrary: st es)
  case Nil
  then show ?case by (simp add: turn_spec_def List.map_filter_simps)
next
  case (Cons x ns)
  obtain w i n where x: "x = (w, i, n)" by (rule prod_cases3)
  obtain es1 s1 where h: "handleNotification cfg w i n (Some st) = (es1, s1)" by force
  obtain es2 where t: "handleTurn cfg ns (the s1) = (es2, st')" and es: "es = es1 @ es2"
    using Cons.prems by (auto simp: x h Let_def split: prod.splits)
  note IH = Cons.IH [OF t, unfolded turn_spec_def]
  show ?case
  proof (cases "\<exists>opts. n = RequestPermission opts")
    case False
    then show ?thesis
      using other_effects [OF _ h] IH
      by (cases n) (auto simp: turn_spec_def x es List.map_filter_simps split: option.splits)
  next
    case True
    then obtain opts where n: "n = RequestPermission opts" by blast
    show ?thesis
    proof (cases "i = [] \<or> i = ''null''")
      case True
      then show ?thesis using unanswerable_effects [OF h [unfolded n]] IH
        by (auto simp: turn_spec_def x n es List.map_filter_simps)
    next
      case False
      then have i: "i \<noteq> []" "i \<noteq> ''null''" by auto
      note P = permission_effects [OF h [unfolded n] i]
      show ?thesis
      proof (cases "denyTools st")
        case False
        then show ?thesis using P IH i by (simp add: turn_spec_def x n es List.map_filter_simps)
      next
        case True
        then show ?thesis using P IH i
          by (simp add: turn_spec_def x n es List.map_filter_simps drop_threshold del: drop.simps of_nat_Suc)
      qed
    qed
  qed
qed

section \<open>Spellings of an update type\<close>

definition isLower :: "char \<Rightarrow> bool" where
  "isLower c \<longleftrightarrow> 97 \<le> (of_char c :: nat) \<and> (of_char c :: nat) \<le> 122"

definition upperChar :: "char \<Rightarrow> char" where
  "upperChar c = char_of (of_char c - (32 :: nat))"

fun capitalize :: "string \<Rightarrow> string" where
  "capitalize [] = []"
| "capitalize (c # s) = upperChar c # s"

fun snake :: "string list \<Rightarrow> string" where
  "snake [] = []"
| "snake [w] = w"
| "snake (w # v # ws) = w @ [CHR ''_''] @ snake (v # ws)"

definition isWord :: "string \<Rightarrow> bool" where
  "isWord w \<longleftrightarrow> w \<noteq> [] \<and> list_all isLower w"

lemma upper_of_lower:
  assumes "isLower c"
  shows "isUpper (upperChar c)" "lowerChar (upperChar c) = c" "upperChar c \<noteq> CHR ''_''"
proof -
  have n: "97 \<le> (of_char c :: nat)" "(of_char c :: nat) \<le> 122" using assms by (simp_all add: isLower_def)
  then have u: "(of_char (upperChar c) :: nat) = of_char c - 32" by (simp add: upperChar_def)
  then show up: "isUpper (upperChar c)" unfolding isUpper_def u using n by linarith
  have "char_of (of_char (upperChar c) + (32 :: nat)) = c" using n u by simp
  then show "lowerChar (upperChar c) = c" using up by (simp add: lowerChar_def)
  show "upperChar c \<noteq> CHR ''_''"
  proof
    assume "upperChar c = CHR ''_''"
    then have "(of_char (upperChar c) :: nat) = 95" by simp
    then show False using u n by simp
  qed
qed

lemma lower_fixed:
  assumes "isLower c"
  shows "\<not> isUpper c" "lowerChar c = c" "c \<noteq> CHR ''_''"
  using assms by (auto simp: isLower_def isUpper_def lowerChar_def)

lemma camelLoop_word: "list_all isLower w \<Longrightarrow> camelLoop False (w @ s) = w @ camelLoop False s"
  by (induction w) (auto simp: lower_fixed)

lemma camelLoop_capital: "isWord w \<Longrightarrow> camelLoop first (capitalize w @ s) = (if first then [] else [CHR ''_'']) @ w @ camelLoop False s"
  by (cases w) (auto simp: isWord_def upper_of_lower camelLoop_word)

lemma camelLoop_rest: "list_all isWord ws \<Longrightarrow> camelLoop False (concat (map capitalize ws)) = concat (map (\<lambda>w. CHR ''_'' # w) ws)"
  by (induction ws) (auto simp: camelLoop_capital)

lemma snake_concat: "snake (w # ws) = w @ concat (map (\<lambda>w. CHR ''_'' # w) ws)"
  by (induction ws arbitrary: w) auto

lemma camelLoop_camel: "list_all isWord (w # ws) \<Longrightarrow> camelLoop True (concat (map capitalize (w # ws))) = snake (w # ws)"
  by (simp add: camelLoop_capital camelLoop_rest snake_concat)

lemma no_underscore: "list_all isWord ws \<Longrightarrow> CHR ''_'' \<notin> set (concat (map capitalize ws))"
proof (induction ws)
  case (Cons w ws)
  then obtain c s where w: "w = c # s" "isLower c" "list_all isLower s" by (cases w) (auto simp: isWord_def)
  have "CHR ''_'' \<notin> set s" using w(3) lower_fixed(3) unfolding list_all_iff by blast
  moreover have "upperChar c \<noteq> CHR ''_''" using w(2) by (rule upper_of_lower(3))
  ultimately have "CHR ''_'' \<notin> set (capitalize w)" unfolding w(1) by simp
  with Cons show ?case by simp
qed simp

lemma toLower_word: "isWord w \<Longrightarrow> toLower w = w" "isWord w \<Longrightarrow> toLower (capitalize w) = w"
proof -
  show "toLower w = w" if "isWord w"
    using that unfolding toLower_def isWord_def by (induction w) (auto simp: lower_fixed)
  then show "toLower (capitalize w) = w" if "isWord w"
    using that by (cases w) (auto simp: toLower_def isWord_def upper_of_lower lower_fixed list_all_iff intro!: map_idI)
qed

lemma toLower_snake: "list_all isWord ws \<Longrightarrow> toLower (snake (map capitalize ws)) = snake ws"
    "list_all isWord ws \<Longrightarrow> toLower (snake ws) = snake ws"
proof -
  have u: "toLower (s @ CHR ''_'' # t) = toLower s @ CHR ''_'' # toLower t" for s t
    by (simp add: toLower_def lowerChar_def isUpper_def)
  show "toLower (snake (map capitalize ws)) = snake ws" if "list_all isWord ws"
    using that by (induction ws rule: snake.induct) (auto simp: toLower_word u toLower_def [of "[]"])
  show "toLower (snake ws) = snake ws" if "list_all isWord ws"
    using that by (induction ws rule: snake.induct) (auto simp: toLower_word u toLower_def [of "[]"])
qed

lemma normalize_underscore: "CHR ''_'' \<in> set s \<Longrightarrow> normalizeUpdateType s = toLower s"
  by (auto simp: normalizeUpdateType_def)

section \<open>Properties\<close>

text \<open>
  C22. What a turn does with the worker's notifications, whatever writes of answers succeed. A
  permission request with a usable id is answered once, in order, on its own id, with a denial
  exactly if the turn denies built-in tools, when the write of the answer succeeds; each write
  that fails cancels the client instead. All denials are counted; from the denial that reaches
  the limit on, each answered one also asks the worker to cancel the session; and the stream is
  given exactly the translated chunks of the well-formed updates that do not carry another
  session's id.
\<close>

theorem turn_effects:
  "let (es, st) = handleTurn cfg ns (setDenyBuiltinTools deny (newStream sid)) in
     responses es = map (\<lambda>x. (snd x, \<not> deny)) (filter fst (requests ns)) \<and>
     clientCancels es = length (filter (\<lambda>x. \<not> fst x) (requests ns)) \<and>
     cancels es = (if deny then map (\<lambda>_. sid) (filter fst (drop (nat (maxDenialsOf cfg - 1)) (requests ns))) else []) \<and>
     pushes es = List.map_filter (\<lambda>x. turnChunk sid (snd (snd x))) ns \<and>
     st_denialCount st = (if deny then length (requests ns) else 0)"
proof (cases "handleTurn cfg ns (setDenyBuiltinTools deny (newStream sid))")
  case (Pair es st)
  define s0 :: "Chunk Stream" where "s0 = setDenyBuiltinTools deny (newStream sid)"
  have s0: "denyTools s0 = deny" "st_denialCount s0 = 0" "stream_SessionID s0 = sid"
    by (simp_all add: s0_def setDenyBuiltinTools_def denyTools_def stream_SessionID_def newStream_def)
  have run: "handleTurn cfg ns s0 = (es, st)" using Pair by (simp add: s0_def)
  have "turn_spec cfg ns s0 es st" using run by (rule handleTurn_spec)
  then show ?thesis
    unfolding s0_def [symmetric] run turn_spec_def s0 Let_def split by simp
qed

text \<open>
  The spellings of an update type are equivalent. A name of at least two lower-case words is normalised to its snake_case form
  whether it is written in CamelCase, in snake_case or in Mixed_Snake_Case.
\<close>

theorem update_type_spellings:
  assumes "list_all isWord (w # v # ws)"
  shows "normalizeUpdateType (concat (map capitalize (w # v # ws))) = snake (w # v # ws) \<and>
    normalizeUpdateType (snake (w # v # ws)) = snake (w # v # ws) \<and>
    normalizeUpdateType (snake (map capitalize (w # v # ws))) = snake (w # v # ws)"
proof -
  let ?ws = "w # v # ws"
  have "concat (map capitalize ?ws) \<noteq> []" using assms by (cases w) (auto simp: isWord_def)
  then have "normalizeUpdateType (concat (map capitalize ?ws)) = snake ?ws"
    using no_underscore [OF assms] camelLoop_camel [OF assms] unfolding normalizeUpdateType_def by metis
  moreover have "CHR ''_'' \<in> set (snake ?ws)" "CHR ''_'' \<in> set (snake (map capitalize ?ws))" by simp_all
  then have "normalizeUpdateType (snake ?ws) = snake ?ws" "normalizeUpdateType (snake (map capitalize ?ws)) = snake ?ws"
    using normalize_underscore toLower_snake [OF assms] by metis+
  ultimately show ?thesis by blast
qed

theorem update_type_spellings_witness:
  "normalizeUpdateType ''AgentMessageChunk'' = ''agent_message_chunk'' \<and> normalizeUpdateType ''Agent_Message_Chunk'' = ''agent_message_chunk''"
proof -
  have "list_all isWord [''agent'', ''message'', ''chunk'']" by (simp add: isWord_def isLower_def)
  moreover have "upperChar (CHR ''a'') = CHR ''A''" "upperChar (CHR ''m'') = CHR ''M''" "upperChar (CHR ''c'') = CHR ''C''"
    by code_simp+
  ultimately show ?thesis using update_type_spellings [of "''agent''" "''message''" "[''chunk'']"] by simp
qed

end
