(* ===== verification/ToolCalls.thy ===== *)
theory ToolCalls
  imports GatewayPrelude
begin

text \<open>
  Resolution and deduplication of the tool calls a worker emits (internal/engine/toolcall_resolve.go). The arguments of a
  call are a JSON object, kept as the list of its members sorted by key, so that equal objects are equal lists;
  \<open>canonicalArgs\<close> renders equal objects to equal text and different ones to different text, and the deduplication key is the name
  with the arguments themselves.
\<close>

section \<open>Data\<close>

type_synonym toolArgs = "(string \<times> string) list"

record ToolCall =
  tc_ID :: string
  tc_Name :: string
  tc_Arguments :: toolArgs

section \<open>Resolution\<close>

definition toolOffered :: "string \<Rightarrow> string list \<Rightarrow> bool" where
  "toolOffered name tools \<longleftrightarrow> name \<in> set tools"

text \<open>The tools are given by their names; the result is the name to surface, or \<open>None\<close> for a call that is dropped.\<close>

definition ResolveNativeToolName :: "string \<Rightarrow> string list \<Rightarrow> (string, string) gomap \<Rightarrow> string option" where
  "ResolveNativeToolName name tools aliases =
     (if tools = [] then Some name
      else if toolOffered name tools then Some name
      else case gm_get aliases name of
          Some alias \<Rightarrow> if toolOffered alias tools then Some alias else None
        | None \<Rightarrow> None)"

section \<open>Deduplication\<close>

text \<open>Step 1: the body of the loop that merges by id, with the list merged so far and the index of each id.\<close>

definition mergeInto :: "nat \<Rightarrow> ToolCall \<Rightarrow> ToolCall list \<Rightarrow> ToolCall list" where
  "mergeInto idx c merged =
     (let m = merged ! idx;
          m1 = (if tc_Arguments m = [] \<and> tc_Arguments c \<noteq> [] then m\<lparr>tc_Arguments := tc_Arguments c\<rparr> else m);
          m2 = (if tc_Name m1 = [] then m1\<lparr>tc_Name := tc_Name c\<rparr> else m1)
      in merged[idx := m2])"

fun mergeByID :: "ToolCall list \<Rightarrow> (string, nat) gomap \<Rightarrow> ToolCall list \<Rightarrow> ToolCall list" where
  "mergeByID [] byID merged = merged"
| "mergeByID (c # cs) byID merged =
     (if tc_ID c \<noteq> []
      then case gm_get byID (tc_ID c) of
          Some idx \<Rightarrow> mergeByID cs byID (mergeInto idx c merged)
        | None \<Rightarrow> mergeByID cs (gm_put (tc_ID c) (length merged) byID) (merged @ [c])
      else mergeByID cs byID (merged @ [c]))"

text \<open>Step 2: the first call of every name and arguments.\<close>

definition callKey :: "ToolCall \<Rightarrow> string \<times> toolArgs" where
  "callKey c = (tc_Name c, tc_Arguments c)"

fun dropDuplicates :: "ToolCall list \<Rightarrow> (string \<times> toolArgs) list \<Rightarrow> ToolCall list" where
  "dropDuplicates [] seen = []"
| "dropDuplicates (c # cs) seen =
     (if callKey c \<in> set seen then dropDuplicates cs seen else c # dropDuplicates cs (callKey c # seen))"

definition DedupToolCalls :: "ToolCall list \<Rightarrow> ToolCall list" where
  "DedupToolCalls calls = dropDuplicates (mergeByID calls [] []) []"

section \<open>What is left\<close>

definition ids :: "ToolCall list \<Rightarrow> string list" where
  "ids cs = filter (\<lambda>i. i \<noteq> []) (map tc_ID cs)"

text \<open>The index finds the position of each id that was seen.\<close>

definition index_ok :: "(string, nat) gomap \<Rightarrow> ToolCall list \<Rightarrow> bool" where
  "index_ok byID merged \<longleftrightarrow>
     (\<forall>i. gm_get byID i = None \<longrightarrow> i = [] \<or> i \<notin> set (ids merged)) \<and>
     (\<forall>i n. gm_get byID i = Some n \<longrightarrow> i \<noteq> [] \<and> n < length merged \<and> tc_ID (merged ! n) = i)"

lemma mergeInto_ids: "idx < length merged \<Longrightarrow> map tc_ID (mergeInto idx c merged) = map tc_ID merged"
  by (simp add: mergeInto_def Let_def map_update list_update_same_conv)

lemma ids_append [simp]: "ids (cs @ ds) = ids cs @ ids ds"
  by (simp add: ids_def)

lemma ids_map: "map tc_ID cs = map tc_ID ds \<Longrightarrow> ids cs = ids ds"
  by (simp add: ids_def)

lemma index_merge:
  assumes "index_ok byID merged" "gm_get byID i = Some idx"
  shows "index_ok byID (mergeInto idx c merged)"
proof -
  have idx: "idx < length merged" using assms by (auto simp: index_ok_def)
  note m = mergeInto_ids [OF idx, of c]
  have len: "length (mergeInto idx c merged) = length merged" using m by (metis length_map)
  have "tc_ID (mergeInto idx c merged ! n) = tc_ID (merged ! n)" if "n < length merged" for n
    using m that len by (metis nth_map)
  then show ?thesis using assms(1) by (simp add: index_ok_def ids_map [OF m] len)
qed

lemma index_new: "index_ok byID merged \<Longrightarrow> tc_ID c \<noteq> [] \<Longrightarrow> index_ok (gm_put (tc_ID c) (length merged) byID) (merged @ [c])"
  by (auto simp: index_ok_def ids_def nth_append intro: less_SucI)

lemma index_anonymous: "index_ok byID merged \<Longrightarrow> tc_ID c = [] \<Longrightarrow> index_ok byID (merged @ [c])"
  by (auto simp: index_ok_def ids_def nth_append intro: less_SucI)

lemma mergeByID_distinct:
  "index_ok byID merged \<Longrightarrow> distinct (ids merged) \<Longrightarrow> distinct (ids (mergeByID cs byID merged))"
proof (induction cs byID merged rule: mergeByID.induct)
  case (2 c cs byID merged)
  show ?case
  proof (cases "tc_ID c = []")
    case True
    have "distinct (ids (merged @ [c]))" using 2(5) True by (simp add: ids_def)
    then show ?thesis using 2(3) [OF _ index_anonymous [OF 2(4) True]] True by simp
  next
    case named: False
    show ?thesis
    proof (cases "gm_get byID (tc_ID c)")
      case None
      then have "tc_ID c \<notin> set (ids merged)" using 2(4) named by (auto simp: index_ok_def)
      then have "distinct (ids (merged @ [c]))" using 2(5) named by (simp add: ids_def)
      then show ?thesis using 2(1) [OF named None index_new [OF 2(4) named]] named None by simp
    next
      case (Some idx)
      have "ids (mergeInto idx c merged) = ids merged"
        using 2(4) Some by (intro ids_map mergeInto_ids) (simp add: index_ok_def)
      then show ?thesis using 2(2) [OF named Some index_merge [OF 2(4) Some]] 2(5) named Some by simp
    qed
  qed
qed simp

lemma mergeByID_id:
  "index_ok byID merged \<Longrightarrow> distinct (ids (merged @ cs)) \<Longrightarrow> mergeByID cs byID merged = merged @ cs"
proof (induction cs byID merged rule: mergeByID.induct)
  case (2 c cs byID merged)
  have d: "distinct (ids ((merged @ [c]) @ cs))" using 2(5) by simp
  show ?case
  proof (cases "tc_ID c = []")
    case True
    then show ?thesis using 2(3) [OF _ index_anonymous [OF 2(4) True] d] by simp
  next
    case named: False
    have "tc_ID c \<notin> set (ids merged)" using 2(5) named by (auto simp: ids_def)
    moreover have "tc_ID c \<in> set (ids merged)" if "gm_get byID (tc_ID c) = Some n" for n
      using 2(4) that named by (auto simp: index_ok_def ids_def image_iff) (metis nth_mem)
    ultimately have "gm_get byID (tc_ID c) = None" by (cases "gm_get byID (tc_ID c)") auto
    then show ?thesis using 2(1) [OF named _ index_new [OF 2(4) named] d] named by simp
  qed
qed simp

lemma dropDuplicates_keys:
  "distinct (map callKey (dropDuplicates cs seen)) \<and> set (map callKey (dropDuplicates cs seen)) \<inter> set seen = {} \<and>
   set (map callKey cs) \<subseteq> set seen \<union> set (map callKey (dropDuplicates cs seen))"
  by (induction cs seen rule: dropDuplicates.induct) auto

lemma dropDuplicates_id: "distinct (map callKey cs) \<Longrightarrow> set (map callKey cs) \<inter> set seen = {} \<Longrightarrow> dropDuplicates cs seen = cs"
  by (induction cs seen rule: dropDuplicates.induct) auto

lemma dropDuplicates_ids: "distinct (ids cs) \<Longrightarrow> distinct (ids (dropDuplicates cs seen)) \<and> set (ids (dropDuplicates cs seen)) \<subseteq> set (ids cs)"
proof (induction cs seen rule: dropDuplicates.induct)
  case (2 c cs seen)
  have "ids (c # cs) = (if tc_ID c = [] then [] else [tc_ID c]) @ ids cs" by (simp add: ids_def)
  moreover have "ids (c # dropDuplicates cs s) = (if tc_ID c = [] then [] else [tc_ID c]) @ ids (dropDuplicates cs s)" for s
    by (simp add: ids_def)
  ultimately show ?case using 2 by auto
qed simp

section \<open>Properties\<close>

text \<open>
  Deduplication leaves at most one call per id and at most one call per name and arguments, loses no name and arguments of the calls
  merged by id, and is idempotent.
\<close>

theorem dedup_normal_form:
  "distinct (ids (DedupToolCalls calls)) \<and> distinct (map callKey (DedupToolCalls calls)) \<and>
   set (map callKey (DedupToolCalls calls)) = set (map callKey (mergeByID calls [] [])) \<and>
   DedupToolCalls (DedupToolCalls calls) = DedupToolCalls calls"
proof -
  have e: "index_ok [] []" by (simp add: index_ok_def ids_def)
  have "distinct (ids (mergeByID calls [] []))" using mergeByID_distinct [OF e] by (simp add: ids_def)
  then have i: "distinct (ids (DedupToolCalls calls))" by (simp add: DedupToolCalls_def dropDuplicates_ids)
  have k: "distinct (map callKey (DedupToolCalls calls))" using dropDuplicates_keys by (simp add: DedupToolCalls_def)
  have sub: "set (dropDuplicates cs s) \<subseteq> set cs" for cs s by (induction cs s rule: dropDuplicates.induct) auto
  have "set (map callKey (DedupToolCalls calls)) = set (map callKey (mergeByID calls [] []))"
    using dropDuplicates_keys [of "mergeByID calls [] []" "[]"] sub [of "mergeByID calls [] []" "[]"]
    by (auto simp: DedupToolCalls_def)
  moreover have "DedupToolCalls (DedupToolCalls calls) = DedupToolCalls calls"
    using mergeByID_id [OF e, of "DedupToolCalls calls"] i dropDuplicates_id [OF k, of "[]"]
    by (simp add: DedupToolCalls_def [of "DedupToolCalls calls"])
  ultimately show ?thesis using i k by blast
qed

end
