(* ===== verification/AnthropicSse.thy ===== *)
theory AnthropicSse
  imports ToolCalls AcpStream
begin

text \<open>
  The streaming emitter of the Anthropic surface (internal/adapter/anthropic/sse.go). The record \<open>sseEmitter\<close> is the
  struct with, in place of the response writer, the list of events written so far and the number of further
  writes that succeed (a client may go away at any point). A method returns whether it failed and the emitter.
  Payloads are kept as data: a tool's \<open>partial_json\<close> is its arguments, \<open>[]\<close> for \<open>{}\<close>. The extraction of
  wrapped calls from text (internal/engine/coerce.go) is an argument, \<open>sv_extract\<close>: everything here holds for any function there.
\<close>

section \<open>Data\<close>

datatype ChunkKind = ChunkKindText | ChunkKindThought | ChunkKindToolCall | ChunkKindPlan

text \<open>A chunk's payload pointer may be nil: the payload is an option.\<close>

datatype canonChunk =
    CkText "string option"
  | CkThought "string option"
  | CkToolCall "ToolCall option"
  | CkPlan "string option"

fun kindOf :: "canonChunk \<Rightarrow> ChunkKind" where
  "kindOf (CkText t) = ChunkKindText"
| "kindOf (CkThought t) = ChunkKindThought"
| "kindOf (CkToolCall t) = ChunkKindToolCall"
| "kindOf (CkPlan t) = ChunkKindPlan"

datatype blockHeader = TextHeader | ThinkingHeader | ToolUseHeader string string

text \<open>\<open>InputJSONNull\<close> is a \<open>partial_json\<close> that is not an object: the text \<open>null\<close>.\<close>

datatype blockDelta = TextDelta string | ThinkingDelta string | InputJSONDelta toolArgs | InputJSONNull

datatype sseEvent =
    MessageStart string
  | ContentBlockStart nat blockHeader
  | ContentBlockDelta nat blockDelta
  | ContentBlockStop nat
  | MessageDelta "string option"
  | MessageStop
  | Ping
  | ErrorEvent string

record sseEnv =
  sv_tools :: "string list"
  sv_aliases :: "(string, string) gomap"
  sv_extract :: "string \<Rightarrow> ToolCall list"

record sseEmitter =
  em_out :: "sseEvent list"
  em_writes :: "nat option"
  em_blockIndex :: nat
  em_currentKind :: ChunkKind
  em_blockOpen :: bool
  em_buffering :: bool
  em_bufferDecided :: bool
  em_bufferConsumed :: bool
  em_bufferedText :: string
  em_toolUseEmitted :: bool
  em_pendingToolUseFlush :: bool
  em_aggText :: string
  em_aggThought :: string
  em_aggToolParts :: "ToolCall list"
  em_aggToolCalls :: "ToolCall list"

type_synonym sseMethod = "sseEmitter \<Rightarrow> bool \<times> sseEmitter"

definition newEmitter :: "nat option \<Rightarrow> sseEmitter" where
  "newEmitter writes = \<lparr>em_out = [], em_writes = writes, em_blockIndex = 0, em_currentKind = ChunkKindText, em_blockOpen = False,
     em_buffering = False, em_bufferDecided = False, em_bufferConsumed = False, em_bufferedText = [], em_toolUseEmitted = False,
     em_pendingToolUseFlush = False, em_aggText = [], em_aggThought = [], em_aggToolParts = [], em_aggToolCalls = []\<rparr>"

text \<open>\<open>err := f(); if err != nil { return err }; g()\<close>\<close>

definition andThen :: "sseMethod \<Rightarrow> sseMethod \<Rightarrow> sseMethod" where
  "andThen f g e = (case f e of (True, e') \<Rightarrow> (True, e') | (False, e') \<Rightarrow> g e')"

definition modify :: "(sseEmitter \<Rightarrow> sseEmitter) \<Rightarrow> sseMethod" where
  "modify f e = (False, f e)"

definition skip :: sseMethod where
  "skip e = (False, e)"

section \<open>Writing\<close>

definition writeEvent :: "sseEvent \<Rightarrow> sseMethod" where
  "writeEvent ev e = (if em_writes e = Some 0 then (True, e)
     else (False, e\<lparr>em_out := em_out e @ [ev], em_writes := map_option (\<lambda>n. n - 1) (em_writes e)\<rparr>))"

definition maxStreamingCoerceBytes :: nat where "maxStreamingCoerceBytes = 1048576"

definition flushPendingToolUseIfNeeded :: sseMethod where
  "flushPendingToolUseIfNeeded e =
     (if \<not> em_pendingToolUseFlush e then (False, e)
      else let e1 = e\<lparr>em_pendingToolUseFlush := False\<rparr>
           in if em_currentKind e1 \<noteq> ChunkKindToolCall then (False, e1)
              else writeEvent (ContentBlockDelta (em_blockIndex e1) (InputJSONDelta [])) e1)"

definition writeStop :: sseMethod where
  "writeStop e = writeEvent (ContentBlockStop (em_blockIndex e)) e"

text \<open>Step 2 of \<open>applyChunk\<close>, shared by \<open>emitTextRaw\<close> and \<open>finalizeBufferedText\<close>.\<close>

definition closeBlock :: sseMethod where
  "closeBlock = andThen flushPendingToolUseIfNeeded (andThen writeStop
     (modify (\<lambda>e. e\<lparr>em_blockIndex := em_blockIndex e + 1, em_blockOpen := False\<rparr>)))"

text \<open>Step 3.\<close>

definition openBlock :: "ChunkKind \<Rightarrow> blockHeader \<Rightarrow> sseMethod" where
  "openBlock kind header e = andThen (writeEvent (ContentBlockStart (em_blockIndex e) header))
     (modify (\<lambda>e. let e1 = e\<lparr>em_currentKind := kind, em_blockOpen := True\<rparr>
                 in if kind = ChunkKindToolCall then e1\<lparr>em_toolUseEmitted := True, em_pendingToolUseFlush := True\<rparr> else e1)) e"

definition writeDelta :: "blockDelta \<Rightarrow> sseMethod" where
  "writeDelta d e = writeEvent (ContentBlockDelta (em_blockIndex e) d) e"

definition transition :: "ChunkKind \<Rightarrow> blockHeader \<Rightarrow> sseMethod" where
  "transition kind header = andThen
     (\<lambda>e. if em_blockOpen e \<and> em_currentKind e \<noteq> kind then closeBlock e else (False, e))
     (\<lambda>e. if \<not> em_blockOpen e then openBlock kind header e else (False, e))"

definition addTool :: "ToolCall \<Rightarrow> sseEmitter \<Rightarrow> sseEmitter" where
  "addTool c e = e\<lparr>em_aggToolParts := em_aggToolParts e @ [c], em_aggToolCalls := em_aggToolCalls e @ [c]\<rparr>"

definition emitTextRaw :: "string \<Rightarrow> sseMethod" where
  "emitTextRaw text = andThen (transition ChunkKindText TextHeader) (andThen (writeDelta (TextDelta text))
     (modify (\<lambda>e. e\<lparr>em_aggText := em_aggText e @ text\<rparr>)))"

definition flushBufferedTextAsText :: sseMethod where
  "flushBufferedTextAsText e =
     (if em_bufferedText e = [] then (False, e\<lparr>em_buffering := False\<rparr>)
      else andThen (emitTextRaw (em_bufferedText e))
        (modify (\<lambda>e. e\<lparr>em_bufferedText := [], em_bufferConsumed := True, em_buffering := False\<rparr>)) e)"

definition emitCoercedToolUse :: "ToolCall \<Rightarrow> sseMethod" where
  "emitCoercedToolUse call e = andThen (writeEvent (ContentBlockStart (em_blockIndex e) (ToolUseHeader (tc_ID call) (tc_Name call))))
     (andThen (writeDelta (InputJSONDelta (tc_Arguments call))) (andThen writeStop
       (modify (\<lambda>e. addTool call (e\<lparr>em_blockIndex := em_blockIndex e + 1\<rparr>))))) e"

fun emitCoerced :: "ToolCall list \<Rightarrow> sseMethod" where
  "emitCoerced [] = skip"
| "emitCoerced (c # cs) = andThen (emitCoercedToolUse c) (emitCoerced cs)"

definition consumeBuffer :: "sseEmitter \<Rightarrow> sseEmitter" where
  "consumeBuffer e = e\<lparr>em_bufferConsumed := True, em_bufferedText := [], em_buffering := False\<rparr>"

definition finalizeBufferedText :: "sseEnv \<Rightarrow> sseMethod" where
  "finalizeBufferedText v e =
     (if \<not> em_buffering e \<or> em_bufferedText e = [] then (False, e)
      else let calls = (if sv_tools v \<noteq> [] then sv_extract v (em_bufferedText e) else [])
           in andThen (\<lambda>e. if em_blockOpen e then closeBlock e else (False, e))
             (\<lambda>e. if calls \<noteq> []
                  then andThen
                    (\<lambda>e. if \<not> em_toolUseEmitted e
                         then andThen (emitCoerced calls) (modify (\<lambda>e. e\<lparr>em_toolUseEmitted := True\<rparr>)) e else (False, e))
                    (modify consumeBuffer) e
                  else flushBufferedTextAsText e) e)"

section \<open>One chunk\<close>

definition resolveChunk :: "sseEnv \<Rightarrow> canonChunk \<Rightarrow> canonChunk option" where
  "resolveChunk v c = (case c of
       CkToolCall (Some tc) \<Rightarrow>
         (case ResolveNativeToolName (tc_Name tc) (sv_tools v) (sv_aliases v) of
            None \<Rightarrow> None | Some name \<Rightarrow> Some (CkToolCall (Some (tc\<lparr>tc_Name := name\<rparr>))))
     | _ \<Rightarrow> Some c)"

text \<open>A thinking delta or a tool call resolves the buffered text first.\<close>

definition resolveBoundary :: "sseEnv \<Rightarrow> canonChunk \<Rightarrow> sseMethod" where
  "resolveBoundary v c e =
     (if (case c of CkThought (Some t) \<Rightarrow> True | CkToolCall (Some t) \<Rightarrow> True | _ \<Rightarrow> False) \<and> em_buffering e \<and> em_bufferedText e \<noteq> []
      then andThen
        (\<lambda>e. if kindOf c = ChunkKindToolCall \<and> sv_extract v (em_bufferedText e) \<noteq> []
             then (False, consumeBuffer e) else finalizeBufferedText v e)
        (modify (\<lambda>e. e\<lparr>em_buffering := False\<rparr>)) e
      else (False, e))"

text \<open>Steps 1 to 4 of \<open>applyChunk\<close>.\<close>

definition emitToolDelta :: "ToolCall \<Rightarrow> sseMethod" where
  "emitToolDelta tc e =
     (if tc_Arguments tc = [] \<or> \<not> em_pendingToolUseFlush e then (False, e)
      else andThen (writeDelta (InputJSONDelta (tc_Arguments tc)))
        (modify (\<lambda>e. addTool tc (e\<lparr>em_pendingToolUseFlush := False\<rparr>))) e)"

fun emitChunk :: "canonChunk \<Rightarrow> sseMethod" where
  "emitChunk (CkText t) = andThen (transition ChunkKindText TextHeader) (case t of None \<Rightarrow> skip
     | Some s \<Rightarrow> andThen (writeDelta (TextDelta s)) (modify (\<lambda>e. e\<lparr>em_aggText := em_aggText e @ s\<rparr>)))"
| "emitChunk (CkThought t) = andThen (transition ChunkKindThought ThinkingHeader) (case t of None \<Rightarrow> skip
     | Some s \<Rightarrow> andThen (writeDelta (ThinkingDelta s)) (modify (\<lambda>e. e\<lparr>em_aggThought := em_aggThought e @ s\<rparr>)))"
| "emitChunk (CkToolCall None) = skip"
| "emitChunk (CkToolCall (Some tc)) = andThen (transition ChunkKindToolCall (ToolUseHeader (tc_ID tc) (tc_Name tc))) (emitToolDelta tc)"
| "emitChunk (CkPlan t) = skip"

definition bufferText :: "sseEnv \<Rightarrow> string \<Rightarrow> sseEmitter \<Rightarrow> bool" where
  "bufferText v s e \<longleftrightarrow> sv_tools v \<noteq> [] \<and> \<not> em_bufferDecided e \<and>
     length (em_bufferedText e) + length s \<le> maxStreamingCoerceBytes"

definition applyText :: "sseEnv \<Rightarrow> string \<Rightarrow> sseMethod" where
  "applyText v s e =
     (if bufferText v s e then (False, e\<lparr>em_buffering := True, em_bufferedText := em_bufferedText e @ s\<rparr>)
      else andThen
        (\<lambda>e. if em_buffering e
             then andThen flushBufferedTextAsText (modify (\<lambda>e. e\<lparr>em_bufferDecided := True\<rparr>)) e else (False, e))
        (emitChunk (CkText (Some s))) e)"

definition applyChunk :: "sseEnv \<Rightarrow> canonChunk \<Rightarrow> sseMethod" where
  "applyChunk v c e = (case resolveChunk v c of
       None \<Rightarrow> (False, e)
     | Some (CkText (Some s)) \<Rightarrow> applyText v s e
     | Some c' \<Rightarrow> andThen (resolveBoundary v c') (emitChunk c') e)"

section \<open>The stream\<close>

datatype ContentPart = PartText string | PartThinking string | PartToolUse ToolCall

text \<open>The response; the role is always the assistant's. The streaming path leaves the model empty.\<close>

record ChatResponse =
  cr_Model :: string
  cr_Content :: "ContentPart list"
  cr_ToolCalls :: "ToolCall list"
  cr_StopReason :: StopReason

definition aggregatedResponse :: "StopReason \<Rightarrow> sseEmitter \<Rightarrow> ChatResponse" where
  "aggregatedResponse stop e =
     (let text = em_aggText e @ (if em_buffering e \<and> \<not> em_bufferConsumed e then em_bufferedText e else [])
      in \<lparr>cr_Model = [],
          cr_Content = (if text \<noteq> [] \<or> em_aggToolParts e = [] then [PartText text] else [])
            @ (if em_aggThought e \<noteq> [] then [PartThinking (em_aggThought e)] else [])
            @ map PartToolUse (em_aggToolParts e),
          cr_ToolCalls = em_aggToolCalls e, cr_StopReason = stop\<rparr>)"

definition mapStopReason :: "StopReason \<Rightarrow> string option" where
  "mapStopReason s = (case s of
       StopEndTurn \<Rightarrow> Some ''end_turn''
     | StopMaxTokens \<Rightarrow> Some ''max_tokens''
     | StopMaxTurnRequests \<Rightarrow> Some ''max_tokens''
     | StopRefusal \<Rightarrow> Some ''refusal''
     | StopCancelled \<Rightarrow> Some ''end_turn''
     | _ \<Rightarrow> None)"

text \<open>\<open>writeSSEError\<close> and the closing writes of \<open>finalizeStream\<close> ignore failures.\<close>

definition bestEffort :: "sseMethod \<Rightarrow> sseEmitter \<Rightarrow> sseEmitter" where
  "bestEffort f e = snd (f e)"

definition writeSSEError :: "string \<Rightarrow> sseEmitter \<Rightarrow> sseEmitter" where
  "writeSSEError msg = bestEffort (writeEvent (ErrorEvent msg))"

definition closeAtEnd :: "sseEmitter \<Rightarrow> sseEmitter" where
  "closeAtEnd e = (if em_blockOpen e then bestEffort writeStop (bestEffort flushPendingToolUseIfNeeded e) else e)"

datatype sseEnd = EndOk | EndResultErr | EndIdle | EndDisconnect | EndWriteErr

text \<open>The result of the stream is an error or the stop reason; a nil result reads as \<open>StopUnknown\<close>.\<close>

definition finalizeStream :: "sseEnv \<Rightarrow> acp_err + StopReason \<Rightarrow> sseEmitter \<Rightarrow> sseEnd \<times> ChatResponse \<times> sseEmitter" where
  "finalizeStream v res e = (case res of
       Inl err \<Rightarrow> (let e1 = writeSSEError ''stream terminated'' (closeAtEnd e)
                  in (EndResultErr, aggregatedResponse StopUnknown e1, e1))
     | Inr stop \<Rightarrow>
         (case finalizeBufferedText v e of
            (True, e1) \<Rightarrow> (EndWriteErr, aggregatedResponse StopUnknown e1, e1)
          | (False, e1) \<Rightarrow>
              (let e2 = closeAtEnd e1;
                   reason = (if em_toolUseEmitted e2 then Some ''tool_use'' else mapStopReason stop)
               in case andThen (writeEvent (MessageDelta reason)) (writeEvent MessageStop) e2 of
                    (True, e3) \<Rightarrow> (EndWriteErr, aggregatedResponse stop e3, e3)
                  | (False, e3) \<Rightarrow> (EndOk, aggregatedResponse stop e3, e3))))"

datatype sseInput = InChunk canonChunk | InTick | InIdle | InDisconnect | InClosed "acp_err + StopReason"

text \<open>The select loop on the inputs in the order they win; \<open>None\<close> is a loop that still waits.\<close>

fun runSSEEmitterLoop :: "sseEnv \<Rightarrow> sseInput list \<Rightarrow> sseEmitter \<Rightarrow> (sseEnd \<times> ChatResponse) option \<times> sseEmitter" where
  "runSSEEmitterLoop v [] e = (None, e)"
| "runSSEEmitterLoop v (InDisconnect # xs) e = (Some (EndDisconnect, aggregatedResponse StopUnknown e), e)"
| "runSSEEmitterLoop v (InIdle # xs) e =
     (let e1 = writeSSEError ''upstream stream idle'' e in (Some (EndIdle, aggregatedResponse StopUnknown e1), e1))"
| "runSSEEmitterLoop v (InTick # xs) e = (case writeEvent Ping e of
       (True, e1) \<Rightarrow> (Some (EndWriteErr, aggregatedResponse StopUnknown e1), e1)
     | (False, e1) \<Rightarrow> runSSEEmitterLoop v xs e1)"
| "runSSEEmitterLoop v (InClosed res # xs) e =
     (case finalizeStream v res e of (fin, resp, e1) \<Rightarrow> (Some (fin, resp), e1))"
| "runSSEEmitterLoop v (InChunk c # xs) e = (case applyChunk v c e of
       (True, e1) \<Rightarrow> (Some (EndWriteErr, aggregatedResponse StopUnknown e1), e1)
     | (False, e1) \<Rightarrow> runSSEEmitterLoop v xs e1)"

definition runSSEEmitter :: "sseEnv \<Rightarrow> string \<Rightarrow> nat option \<Rightarrow> sseInput list \<Rightarrow> (sseEnd \<times> ChatResponse) option \<times> sseEmitter" where
  "runSSEEmitter v model writes xs = (case writeEvent (MessageStart model) (newEmitter writes) of
       (True, e) \<Rightarrow> (Some (EndWriteErr, aggregatedResponse StopUnknown e), e)
     | (False, e) \<Rightarrow> runSSEEmitterLoop v xs e)"


section \<open>The non-streaming path\<close>

text \<open>
  \<open>collectAnthropicChatFromRun\<close> on a run that ends well (collect.go): the loop, deduplication of the native calls, extraction
  of wrapped calls and the assembly. The argument \<open>model\<close> is the request's, \<open>genID\<close> is the identifier made up for a call without one.
\<close>

record collectAcc =
  ca_text :: string
  ca_thought :: string
  ca_calls :: "ToolCall list"

definition collectChunk :: "sseEnv \<Rightarrow> (nat \<Rightarrow> string) \<Rightarrow> canonChunk \<Rightarrow> collectAcc \<Rightarrow> collectAcc" where
  "collectChunk v genID c acc = (case c of
       CkText (Some s) \<Rightarrow> acc\<lparr>ca_text := ca_text acc @ s\<rparr>
     | CkThought (Some s) \<Rightarrow> acc\<lparr>ca_thought := ca_thought acc @ s\<rparr>
     | CkToolCall (Some tc) \<Rightarrow>
         (case ResolveNativeToolName (tc_Name tc) (sv_tools v) (sv_aliases v) of
            None \<Rightarrow> acc
          | Some name \<Rightarrow> acc\<lparr>ca_calls := ca_calls acc
              @ [tc\<lparr>tc_ID := (if tc_ID tc = [] then genID (length (ca_calls acc)) else tc_ID tc), tc_Name := name\<rparr>]\<rparr>)
     | _ \<Rightarrow> acc)"

definition assembleAnthropicChatResponse :: "string \<Rightarrow> string \<Rightarrow> string \<Rightarrow> ToolCall list \<Rightarrow> StopReason \<Rightarrow> ChatResponse" where
  "assembleAnthropicChatResponse model text thinking calls stop =
     \<lparr>cr_Model = model,
      cr_Content = (if text \<noteq> [] \<or> calls = [] then [PartText text] else [])
        @ (if thinking \<noteq> [] then [PartThinking thinking] else []) @ map PartToolUse calls,
      cr_ToolCalls = calls, cr_StopReason = stop\<rparr>"

definition collectAnthropicChatFromRun :: "sseEnv \<Rightarrow> string \<Rightarrow> (nat \<Rightarrow> string) \<Rightarrow> canonChunk list \<Rightarrow> StopReason \<Rightarrow> ChatResponse" where
  "collectAnthropicChatFromRun v model genID cs stop =
     (let acc = fold (collectChunk v genID) cs \<lparr>ca_text = [], ca_thought = [], ca_calls = []\<rparr>;
          native = DedupToolCalls (ca_calls acc);
          coerced = (if sv_tools v \<noteq> [] \<and> native = [] then sv_extract v (ca_text acc) else [])
      in if coerced \<noteq> [] then assembleAnthropicChatResponse model [] (ca_thought acc) coerced stop
         else assembleAnthropicChatResponse model (ca_text acc) (ca_thought acc) native stop)"

end
