(* ===== verification/AnthropicSseProps.thy ===== *)
theory AnthropicSseProps
  imports AnthropicSse "HOL-Library.Sublist"
begin

text \<open>
  What the Anthropic emitter writes. \<open>wireStep\<close> is the grammar of an Anthropic event stream as its clients parse it: one
  open content block at a time, indices without gaps, deltas of the kind of their block, exactly one
  \<open>input_json_delta\<close> per tool block, and \<open>tool_use\<close> as the stop reason exactly if a tool block was sent. The methods
  of the emitter are verified against it by triples over its sequencing \<open>andThen\<close>, with every write allowed to fail.
\<close>

section \<open>The grammar\<close>

datatype wire =
    WStart
  | WIdle nat bool
  | WOpen nat blockHeader nat bool
  | WEnding
  | WDone
  | WDead

fun isTool :: "blockHeader \<Rightarrow> bool" where
  "isTool (ToolUseHeader i n) = True"
| "isTool _ = False"

fun deltaFits :: "blockHeader \<Rightarrow> blockDelta \<Rightarrow> bool" where
  "deltaFits TextHeader (TextDelta s) = True"
| "deltaFits ThinkingHeader (ThinkingDelta s) = True"
| "deltaFits (ToolUseHeader i n) (InputJSONDelta a) = True"
| "deltaFits _ _ = False"

fun wireStep :: "wire \<Rightarrow> sseEvent \<Rightarrow> wire option" where
  "wireStep WStart (MessageStart m) = Some (WIdle 0 False)"
| "wireStep (WIdle n t) (ContentBlockStart i h) = (if i = n then Some (WOpen n h 0 (t \<or> isTool h)) else None)"
| "wireStep (WIdle n t) Ping = Some (WIdle n t)"
| "wireStep (WIdle n t) (ErrorEvent m) = Some WDead"
| "wireStep (WIdle n t) (MessageDelta r) = (if (r = Some ''tool_use'') = t then Some WEnding else None)"
| "wireStep (WOpen n h k t) (ContentBlockDelta i d) =
     (if i = n \<and> deltaFits h d \<and> (isTool h \<longrightarrow> k = 0) then Some (WOpen n h (k + 1) t) else None)"
| "wireStep (WOpen n h k t) (ContentBlockStop i) = (if i = n \<and> (isTool h \<longrightarrow> k = 1) then Some (WIdle (n + 1) t) else None)"
| "wireStep (WOpen n h k t) Ping = Some (WOpen n h k t)"
| "wireStep (WOpen n h k t) (ErrorEvent m) = Some WDead"
| "wireStep WEnding MessageStop = Some WDone"
| "wireStep _ _ = None"

fun wireRun :: "wire \<Rightarrow> sseEvent list \<Rightarrow> wire option" where
  "wireRun w [] = Some w"
| "wireRun w (ev # evs) = (case wireStep w ev of None \<Rightarrow> None | Some w' \<Rightarrow> wireRun w' evs)"

lemma wireRun_append: "wireRun w (evs @ evs') = (case wireRun w evs of None \<Rightarrow> None | Some w' \<Rightarrow> wireRun w' evs')"
  by (induction evs arbitrary: w) (auto split: option.splits)

section \<open>Triples\<close>

text \<open>
  \<open>ok P e\<close>: what was written is accepted, and the grammar's state and the emitter are related by \<open>P\<close>. After a failed write
  the client is gone: what was written is still accepted, and no write succeeds any more.
\<close>

definition ok :: "(wire \<Rightarrow> sseEmitter \<Rightarrow> bool) \<Rightarrow> sseEmitter \<Rightarrow> bool" where
  "ok P e \<longleftrightarrow> (\<exists>w. wireRun WStart (em_out e) = Some w \<and> P w e)"

definition dead :: "sseEmitter \<Rightarrow> bool" where
  "dead e \<longleftrightarrow> (\<exists>w. wireRun WStart (em_out e) = Some w) \<and> em_writes e = Some 0"

definition tri :: "(wire \<Rightarrow> sseEmitter \<Rightarrow> bool) \<Rightarrow> sseMethod \<Rightarrow> (wire \<Rightarrow> sseEmitter \<Rightarrow> bool) \<Rightarrow> bool" where
  "tri P f Q \<longleftrightarrow> (\<forall>e. ok P e \<longrightarrow> (case f e of (True, e') \<Rightarrow> dead e' | (False, e') \<Rightarrow> ok Q e'))"

lemma ok_weaken: "ok P e \<Longrightarrow> (\<And>w. P w e \<Longrightarrow> Q w e) \<Longrightarrow> ok Q e"
  by (auto simp: ok_def)

lemma triD: "tri P f Q \<Longrightarrow> ok P e \<Longrightarrow> (case f e of (True, e') \<Rightarrow> dead e' | (False, e') \<Rightarrow> ok Q e')"
  by (simp add: tri_def)

lemma tri_weaken:
  assumes "tri P f Q" "\<And>w e. P' w e \<Longrightarrow> P w e" "\<And>w e. Q w e \<Longrightarrow> Q' w e"
  shows "tri P' f Q'"
  unfolding tri_def
proof (intro allI impI)
  fix e assume "ok P' e"
  then have "ok P e" by (rule ok_weaken) (rule assms(2))
  note * = triD [OF assms(1) this]
  obtain b e' where fe: "f e = (b, e')" by force
  show "case f e of (True, e') \<Rightarrow> dead e' | (False, e') \<Rightarrow> ok Q' e'"
  proof (cases b)
    case True
    then show ?thesis using * by (simp add: fe)
  next
    case False
    then have "ok Q e'" using * by (simp add: fe)
    then have "ok Q' e'" by (rule ok_weaken) (rule assms(3))
    then show ?thesis using False by (simp add: fe)
  qed
qed

lemma tri_andThen:
  assumes "tri P f Q" "tri Q g R"
  shows "tri P (andThen f g) R"
  unfolding tri_def
proof (intro allI impI)
  fix e assume "ok P e"
  note * = triD [OF assms(1) this]
  obtain b e' where fe: "f e = (b, e')" by force
  show "case andThen f g e of (True, e') \<Rightarrow> dead e' | (False, e') \<Rightarrow> ok R e'"
  proof (cases b)
    case True
    then show ?thesis using * by (simp add: fe andThen_def)
  next
    case False
    then have "ok Q e'" using * by (simp add: fe)
    note triD [OF assms(2) this]
    then show ?thesis using False by (simp add: fe andThen_def)
  qed
qed

lemma tri_modify:
  assumes "\<And>w e. P w e \<Longrightarrow> Q w (g e)" "\<And>e. em_out (g e) = em_out e" "\<And>e. em_writes (g e) = em_writes e"
  shows "tri P (modify g) Q"
  using assms by (auto simp: tri_def modify_def ok_def)

lemma tri_skip: "(\<And>w e. P w e \<Longrightarrow> Q w e) \<Longrightarrow> tri P (\<lambda>e. (False, e)) Q"
  by (auto simp: tri_def ok_def)

lemma tri_if:
  assumes "tri (\<lambda>w e. P w e \<and> c e) f Q" "tri (\<lambda>w e. P w e \<and> \<not> c e) g Q"
  shows "tri P (\<lambda>e. if c e then f e else g e) Q"
  unfolding tri_def
proof (intro allI impI)
  fix e assume "ok P e"
  then have "c e \<Longrightarrow> ok (\<lambda>w e. P w e \<and> c e) e" "\<not> c e \<Longrightarrow> ok (\<lambda>w e. P w e \<and> \<not> c e) e" by (auto simp: ok_def)
  then show "case (if c e then f e else g e) of (True, e') \<Rightarrow> dead e' | (False, e') \<Rightarrow> ok Q e'"
    using assms unfolding tri_def by (cases "c e") auto
qed

lemma tri_write:
  assumes "\<And>w e. P w e \<Longrightarrow> \<exists>w'. wireStep w (ev e) = Some w' \<and> Q w' e"
    "\<And>w e out n. Q w (e\<lparr>em_out := out, em_writes := n\<rparr>) = Q w e"
  shows "tri P (\<lambda>e. writeEvent (ev e) e) Q"
  unfolding tri_def
proof (intro allI impI)
  fix e assume "ok P e"
  then obtain w where w: "wireRun WStart (em_out e) = Some w" "P w e" by (auto simp: ok_def)
  show "case writeEvent (ev e) e of (True, e') \<Rightarrow> dead e' | (False, e') \<Rightarrow> ok Q e'"
  proof (cases "em_writes e = Some 0")
    case True
    then show ?thesis using w(1) by (simp add: writeEvent_def dead_def)
  next
    case False
    then obtain w' where "wireStep w (ev e) = Some w'" "Q w' e" using w(2) assms(1) by blast
    then show ?thesis using w(1) False by (simp add: writeEvent_def ok_def wireRun_append assms(2))
  qed
qed

section \<open>The methods\<close>

definition headerKind :: "blockHeader \<Rightarrow> ChunkKind" where
  "headerKind h = (case h of TextHeader \<Rightarrow> ChunkKindText | ThinkingHeader \<Rightarrow> ChunkKindThought | ToolUseHeader i n \<Rightarrow> ChunkKindToolCall)"

text \<open>How the emitter's fields describe the state of the stream.\<close>

definition closedAt :: "wire \<Rightarrow> sseEmitter \<Rightarrow> bool" where
  "closedAt w e \<longleftrightarrow> w = WIdle (em_blockIndex e) (em_toolUseEmitted e) \<and> \<not> em_blockOpen e \<and> \<not> em_pendingToolUseFlush e"

definition openAt :: "wire \<Rightarrow> sseEmitter \<Rightarrow> bool" where
  "openAt w e \<longleftrightarrow> (\<exists>h k. w = WOpen (em_blockIndex e) h k (em_toolUseEmitted e) \<and> em_blockOpen e \<and> headerKind h = em_currentKind e \<and>
     (isTool h \<longrightarrow> em_toolUseEmitted e \<and> k = (if em_pendingToolUseFlush e then 0 else 1)) \<and>
     (\<not> isTool h \<longrightarrow> \<not> em_pendingToolUseFlush e))"

definition inStream :: "wire \<Rightarrow> sseEmitter \<Rightarrow> bool" where
  "inStream w e \<longleftrightarrow> closedAt w e \<or> openAt w e"

lemma isTool_kind: "isTool h \<longleftrightarrow> headerKind h = ChunkKindToolCall"
  by (cases h) (auto simp: headerKind_def)

lemmas wire_rel = closedAt_def openAt_def

lemma rel_frame [simp]:
  "closedAt w (e\<lparr>em_out := out, em_writes := n\<rparr>) = closedAt w e" "openAt w (e\<lparr>em_out := out, em_writes := n\<rparr>) = openAt w e"
  "closedAt w (e\<lparr>em_aggText := s\<rparr>) = closedAt w e" "openAt w (e\<lparr>em_aggText := s\<rparr>) = openAt w e"
  "closedAt w (e\<lparr>em_aggThought := s\<rparr>) = closedAt w e" "openAt w (e\<lparr>em_aggThought := s\<rparr>) = openAt w e"
  "closedAt w (e\<lparr>em_buffering := b\<rparr>) = closedAt w e" "openAt w (e\<lparr>em_buffering := b\<rparr>) = openAt w e"
  "closedAt w (e\<lparr>em_bufferDecided := b\<rparr>) = closedAt w e" "openAt w (e\<lparr>em_bufferDecided := b\<rparr>) = openAt w e"
  "closedAt w (e\<lparr>em_buffering := b, em_bufferedText := s\<rparr>) = closedAt w e" "openAt w (e\<lparr>em_buffering := b, em_bufferedText := s\<rparr>) = openAt w e"
  "closedAt w (consumeBuffer e) = closedAt w e" "openAt w (consumeBuffer e) = openAt w e"
  "closedAt w (addTool c e) = closedAt w e" "openAt w (addTool c e) = openAt w e"
  "closedAt w (e\<lparr>em_bufferedText := [], em_bufferConsumed := True, em_buffering := False\<rparr>) = closedAt w e"
  "openAt w (e\<lparr>em_bufferedText := [], em_bufferConsumed := True, em_buffering := False\<rparr>) = openAt w e"
  by (simp_all add: wire_rel consumeBuffer_def addTool_def)

lemma em_frame [simp]:
  "em_out (consumeBuffer e) = em_out e" "em_writes (consumeBuffer e) = em_writes e"
  "em_out (addTool c e) = em_out e" "em_writes (addTool c e) = em_writes e"
  by (simp_all add: consumeBuffer_def addTool_def)

text \<open>A block is closed after its tool delta has been flushed.\<close>

definition flushed :: "wire \<Rightarrow> sseEmitter \<Rightarrow> bool" where
  "flushed w e \<longleftrightarrow> openAt w e \<and> \<not> em_pendingToolUseFlush e"

definition stopped :: "wire \<Rightarrow> sseEmitter \<Rightarrow> bool" where
  "stopped w e \<longleftrightarrow> w = WIdle (em_blockIndex e + 1) (em_toolUseEmitted e) \<and> \<not> em_pendingToolUseFlush e"

lemma tri_flush: "tri openAt flushPendingToolUseIfNeeded flushed"
  unfolding tri_def
proof (intro allI impI)
  fix e assume "ok openAt e"
  then obtain w where w: "wireRun WStart (em_out e) = Some w" "openAt w e" by (auto simp: ok_def)
  show "case flushPendingToolUseIfNeeded e of (True, e') \<Rightarrow> dead e' | (False, e') \<Rightarrow> ok flushed e'"
  proof (cases "em_pendingToolUseFlush e")
    case True
    then obtain h where h: "w = WOpen (em_blockIndex e) h 0 (em_toolUseEmitted e)" "isTool h" "em_blockOpen e"
        "headerKind h = em_currentKind e" "em_toolUseEmitted e"
      using w(2) by (auto simp: openAt_def)
    then have k: "em_currentKind e = ChunkKindToolCall" using isTool_kind by simp
    obtain i n where "h = ToolUseHeader i n" using h(2) by (cases h) auto
    then show ?thesis using w(1) True h k
      by (auto simp: flushPendingToolUseIfNeeded_def writeEvent_def ok_def dead_def flushed_def openAt_def wireRun_append Let_def)
  next
    case False
    then show ?thesis using w by (auto simp: flushPendingToolUseIfNeeded_def ok_def flushed_def)
  qed
qed

lemma tri_stop: "tri flushed writeStop stopped"
proof -
  have "tri flushed (\<lambda>e. writeEvent (ContentBlockStop (em_blockIndex e)) e) stopped"
    by (rule tri_write) (auto simp: flushed_def stopped_def openAt_def)
  then show ?thesis by (simp add: writeStop_def [abs_def])
qed

lemma tri_closeBlock: "tri openAt closeBlock closedAt"
  unfolding closeBlock_def
  by (rule tri_andThen [OF tri_flush tri_andThen [OF tri_stop tri_modify]]) (auto simp: stopped_def closedAt_def)

lemma tri_openBlock:
  assumes "headerKind h = kind"
  shows "tri closedAt (openBlock kind h) (\<lambda>w e. openAt w e \<and> em_currentKind e = kind)"
proof -
  let ?M = "\<lambda>w e. w = WOpen (em_blockIndex e) h 0 (em_toolUseEmitted e \<or> isTool h) \<and> \<not> em_pendingToolUseFlush e"
  have "tri closedAt (\<lambda>e. writeEvent (ContentBlockStart (em_blockIndex e) h) e) ?M"
    by (rule tri_write) (auto simp: closedAt_def)
  moreover have "tri ?M (modify (\<lambda>e. let e1 = e\<lparr>em_currentKind := kind, em_blockOpen := True\<rparr>
      in if kind = ChunkKindToolCall then e1\<lparr>em_toolUseEmitted := True, em_pendingToolUseFlush := True\<rparr> else e1))
      (\<lambda>w e. openAt w e \<and> em_currentKind e = kind)"
    by (rule tri_modify) (use assms isTool_kind [of h] in \<open>auto simp: openAt_def Let_def\<close>)
  ultimately have "tri closedAt (andThen (\<lambda>e. writeEvent (ContentBlockStart (em_blockIndex e) h) e)
      (modify (\<lambda>e. let e1 = e\<lparr>em_currentKind := kind, em_blockOpen := True\<rparr>
      in if kind = ChunkKindToolCall then e1\<lparr>em_toolUseEmitted := True, em_pendingToolUseFlush := True\<rparr> else e1)))
      (\<lambda>w e. openAt w e \<and> em_currentKind e = kind)"
    by (rule tri_andThen)
  then show ?thesis by (simp add: tri_def openBlock_def andThen_def)
qed

lemma tri_transition:
  assumes "headerKind h = kind"
  shows "tri inStream (transition kind h) (\<lambda>w e. openAt w e \<and> em_currentKind e = kind)"
  unfolding transition_def
proof (rule tri_andThen)
  let ?Q = "\<lambda>w e. closedAt w e \<or> openAt w e \<and> em_currentKind e = kind"
  show "tri inStream (\<lambda>e. if em_blockOpen e \<and> em_currentKind e \<noteq> kind then closeBlock e else (False, e)) ?Q"
    by (rule tri_if [OF tri_weaken [OF tri_closeBlock] tri_skip]) (auto simp: inStream_def wire_rel)
  show "tri ?Q (\<lambda>e. if \<not> em_blockOpen e then openBlock kind h e else (False, e)) (\<lambda>w e. openAt w e \<and> em_currentKind e = kind)"
    by (rule tri_if [OF tri_weaken [OF tri_openBlock [OF assms]] tri_skip]) (auto simp: wire_rel)
qed


lemma tri_arg: "(\<And>x. tri P (f x) Q) \<Longrightarrow> tri P (\<lambda>e. f (g e) e) Q"
  by (simp add: tri_def)

lemma tri_eq: "(\<And>e. f e = g e) \<Longrightarrow> tri P g Q \<Longrightarrow> tri P f Q"
  by (simp add: tri_def)

lemma tri_skip': "(\<And>w e. P w e \<Longrightarrow> Q w e) \<Longrightarrow> tri P skip Q"
  using tri_skip [of P Q] by (simp add: skip_def [abs_def])

lemma headerKind_simps [simp]:
  "headerKind TextHeader = ChunkKindText" "headerKind ThinkingHeader = ChunkKindThought"
  "headerKind (ToolUseHeader i n) = ChunkKindToolCall"
  by (simp_all add: headerKind_def)

lemma headerKind_text: "headerKind h = ChunkKindText \<longleftrightarrow> h = TextHeader" "headerKind h = ChunkKindThought \<longleftrightarrow> h = ThinkingHeader"
  by (cases h; simp)+

lemma tri_textDelta:
  "tri (\<lambda>w e. openAt w e \<and> em_currentKind e = ChunkKindText) (writeDelta (TextDelta s)) openAt"
  "tri (\<lambda>w e. openAt w e \<and> em_currentKind e = ChunkKindThought) (writeDelta (ThinkingDelta s)) openAt"
  unfolding writeDelta_def [abs_def]
  by (rule tri_write; auto simp: openAt_def headerKind_text)+

lemma tri_inputDelta:
  "tri (\<lambda>w e. openAt w e \<and> em_currentKind e = ChunkKindToolCall \<and> em_pendingToolUseFlush e)
     (andThen (writeDelta (InputJSONDelta a)) (modify (\<lambda>e. addTool tc (e\<lparr>em_pendingToolUseFlush := False\<rparr>)))) openAt"
proof (rule tri_andThen)
  let ?M = "\<lambda>w e. openAt w (e\<lparr>em_pendingToolUseFlush := False\<rparr>)"
  show "tri (\<lambda>w e. openAt w e \<and> em_currentKind e = ChunkKindToolCall \<and> em_pendingToolUseFlush e)
      (writeDelta (InputJSONDelta a)) ?M"
    unfolding writeDelta_def [abs_def]
  proof (rule tri_write)
    fix w e assume "openAt w e \<and> em_currentKind e = ChunkKindToolCall \<and> em_pendingToolUseFlush e"
    then obtain h where h: "w = WOpen (em_blockIndex e) h 0 (em_toolUseEmitted e)" "headerKind h = ChunkKindToolCall"
        "em_blockOpen e" "em_toolUseEmitted e" "em_currentKind e = ChunkKindToolCall"
      by (auto simp: openAt_def)
    then obtain i n where "h = ToolUseHeader i n" by (cases h) auto
    then show "\<exists>w'. wireStep w (ContentBlockDelta (em_blockIndex e) (InputJSONDelta a)) = Some w' \<and> ?M w' e"
      using h by (simp add: openAt_def)
  qed (simp add: openAt_def)
  show "tri ?M (modify (\<lambda>e. addTool tc (e\<lparr>em_pendingToolUseFlush := False\<rparr>))) openAt"
    by (rule tri_modify) simp_all
qed

lemma tri_emitTextRaw: "tri inStream (emitTextRaw s) inStream"
  unfolding emitTextRaw_def
  by (rule tri_andThen [OF tri_transition tri_andThen [OF tri_textDelta(1) tri_modify]]) (auto simp: inStream_def)

lemma tri_flushBufferedText: "tri inStream flushBufferedTextAsText inStream"
proof -
  have "tri inStream (\<lambda>e. if em_bufferedText e = [] then modify (\<lambda>e. e\<lparr>em_buffering := False\<rparr>) e
      else andThen (emitTextRaw (em_bufferedText e))
        (modify (\<lambda>e. e\<lparr>em_bufferedText := [], em_bufferConsumed := True, em_buffering := False\<rparr>)) e) inStream"
  proof (rule tri_if)
    show "tri (\<lambda>w e. inStream w e \<and> em_bufferedText e = []) (modify (\<lambda>e. e\<lparr>em_buffering := False\<rparr>)) inStream"
      by (rule tri_modify) (auto simp: inStream_def wire_rel)
    show "tri (\<lambda>w e. inStream w e \<and> em_bufferedText e \<noteq> []) (\<lambda>e. andThen (emitTextRaw (em_bufferedText e))
        (modify (\<lambda>e. e\<lparr>em_bufferedText := [], em_bufferConsumed := True, em_buffering := False\<rparr>)) e) inStream"
      by (rule tri_arg, rule tri_weaken [OF tri_andThen [OF tri_emitTextRaw tri_modify]]) (auto simp: inStream_def wire_rel)
  qed
  then show ?thesis by (rule tri_eq [rotated]) (simp add: flushBufferedTextAsText_def modify_def)
qed

text \<open>While coerced calls are written the flag is still unset: the grammar has seen a tool block before the emitter notes it.\<close>

definition idleAt :: "bool \<Rightarrow> wire \<Rightarrow> sseEmitter \<Rightarrow> bool" where
  "idleAt t w e \<longleftrightarrow> w = WIdle (em_blockIndex e) t \<and> \<not> em_blockOpen e \<and> \<not> em_pendingToolUseFlush e"

lemma tri_coercedToolUse: "tri (\<lambda>w e. \<exists>t. idleAt t w e) (emitCoercedToolUse c) (idleAt True)"
proof -
  let ?q = "\<lambda>e. \<not> em_blockOpen e \<and> \<not> em_pendingToolUseFlush e"
  let ?h = "ToolUseHeader (tc_ID c) (tc_Name c)"
  let ?A = "\<lambda>k w e. w = WOpen (em_blockIndex e) ?h k True \<and> ?q e"
  have 1: "tri (\<lambda>w e. \<exists>t. idleAt t w e) (\<lambda>e. writeEvent (ContentBlockStart (em_blockIndex e) ?h) e) (?A 0)"
    by (rule tri_write) (auto simp: idleAt_def)
  have 2: "tri (?A 0) (writeDelta (InputJSONDelta (tc_Arguments c))) (?A 1)"
    unfolding writeDelta_def [abs_def] by (rule tri_write) auto
  have 3: "tri (?A 1) writeStop (\<lambda>w e. w = WIdle (em_blockIndex e + 1) True \<and> ?q e)"
    unfolding writeStop_def [abs_def] by (rule tri_write) auto
  have 4: "tri (\<lambda>w e. w = WIdle (em_blockIndex e + 1) True \<and> ?q e)
      (modify (\<lambda>e. addTool c (e\<lparr>em_blockIndex := em_blockIndex e + 1\<rparr>))) (idleAt True)"
    by (rule tri_modify) (auto simp: idleAt_def addTool_def)
  show ?thesis
    by (rule tri_eq [OF _ tri_andThen [OF 1 tri_andThen [OF 2 tri_andThen [OF 3 4]]]])
      (simp add: emitCoercedToolUse_def andThen_def)
qed

lemma tri_emitCoerced: "tri (idleAt True) (emitCoerced cs) (idleAt True)"
proof (induction cs)
  case Nil
  show ?case by (simp add: tri_skip')
next
  case (Cons c cs)
  have "tri (idleAt True) (emitCoercedToolUse c) (idleAt True)"
    by (rule tri_weaken [OF tri_coercedToolUse]) auto
  then show ?case using Cons tri_andThen by simp
qed

lemma tri_emitCoerced_first:
  assumes "cs \<noteq> []"
  shows "tri closedAt (emitCoerced cs) (idleAt True)"
proof -
  obtain c ds where cs: "cs = c # ds" using assms by (cases cs) auto
  have "tri closedAt (emitCoercedToolUse c) (idleAt True)"
    by (rule tri_weaken [OF tri_coercedToolUse]) (auto simp: idleAt_def closedAt_def)
  then show ?thesis using tri_emitCoerced [of ds] tri_andThen by (simp add: cs)
qed

lemma tri_closeOpen: "tri inStream (\<lambda>e. if em_blockOpen e then closeBlock e else (False, e)) closedAt"
  by (rule tri_if [OF tri_weaken [OF tri_closeBlock] tri_skip]) (auto simp: inStream_def wire_rel)

lemma tri_finalizeBufferedText: "tri inStream (finalizeBufferedText v) inStream"
proof -
  let ?body = "\<lambda>calls. andThen (\<lambda>e. if em_blockOpen e then closeBlock e else (False, e))
    (\<lambda>e. if calls \<noteq> []
      then andThen (\<lambda>e. if \<not> em_toolUseEmitted e
          then andThen (emitCoerced calls) (modify (\<lambda>e. e\<lparr>em_toolUseEmitted := True\<rparr>)) e else (False, e))
        (modify consumeBuffer) e
      else flushBufferedTextAsText e)"
  have "tri inStream (?body calls) inStream" for calls
  proof (cases "calls = []")
    case True
    have "tri inStream (andThen (\<lambda>e. if em_blockOpen e then closeBlock e else (False, e)) flushBufferedTextAsText) inStream"
      by (rule tri_andThen [OF tri_closeOpen tri_weaken [OF tri_flushBufferedText]]) (auto simp: inStream_def)
    then show ?thesis by (simp add: True)
  next
    case False
    let ?emit = "andThen (emitCoerced calls) (modify (\<lambda>e. e\<lparr>em_toolUseEmitted := True\<rparr>))"
    have co: "tri closedAt ?emit closedAt"
      by (rule tri_andThen [OF tri_emitCoerced_first [OF False] tri_modify]) (auto simp: idleAt_def closedAt_def)
    have "tri closedAt (\<lambda>e. if \<not> em_toolUseEmitted e then ?emit e else (False, e)) closedAt"
      by (rule tri_if [OF tri_weaken [OF co] tri_skip]) auto
    then have "tri closedAt (andThen (\<lambda>e. if \<not> em_toolUseEmitted e then ?emit e else (False, e)) (modify consumeBuffer)) inStream"
      by (rule tri_andThen [OF _ tri_modify]) (auto simp: inStream_def)
    then have "tri inStream (andThen (\<lambda>e. if em_blockOpen e then closeBlock e else (False, e))
        (andThen (\<lambda>e. if \<not> em_toolUseEmitted e then ?emit e else (False, e)) (modify consumeBuffer))) inStream"
      by (rule tri_andThen [OF tri_closeOpen])
    then show ?thesis by (simp add: False)
  qed
  then have "tri inStream (\<lambda>e. if \<not> em_buffering e \<or> em_bufferedText e = [] then (False, e)
      else ?body (if sv_tools v \<noteq> [] then sv_extract v (em_bufferedText e) else []) e) inStream"
  proof (intro tri_if)
    assume body: "\<And>calls. tri inStream (?body calls) inStream"
    show "tri (\<lambda>w e. inStream w e \<and> (\<not> em_buffering e \<or> em_bufferedText e = [])) (\<lambda>e. (False, e)) inStream"
      by (rule tri_skip) simp
    have "tri inStream (\<lambda>e. ?body (if sv_tools v \<noteq> [] then sv_extract v (em_bufferedText e) else []) e) inStream"
      by (rule tri_arg [of inStream ?body inStream "\<lambda>e. if sv_tools v \<noteq> [] then sv_extract v (em_bufferedText e) else []"]) (rule body)
    then show "tri (\<lambda>w e. inStream w e \<and> \<not> (\<not> em_buffering e \<or> em_bufferedText e = []))
        (\<lambda>e. ?body (if sv_tools v \<noteq> [] then sv_extract v (em_bufferedText e) else []) e) inStream"
      by (rule tri_weaken) simp_all
  qed
  then show ?thesis by (rule tri_eq [rotated]) (simp add: finalizeBufferedText_def Let_def)
qed


section \<open>Chunks and the end\<close>

lemma tri_emitToolDelta: "tri (\<lambda>w e. openAt w e \<and> em_currentKind e = ChunkKindToolCall) (emitToolDelta tc) inStream"
proof -
  have "tri (\<lambda>w e. openAt w e \<and> em_currentKind e = ChunkKindToolCall)
      (\<lambda>e. if tc_Arguments tc = [] \<or> \<not> em_pendingToolUseFlush e then (False, e)
         else andThen (writeDelta (InputJSONDelta (tc_Arguments tc))) (modify (\<lambda>e. addTool tc (e\<lparr>em_pendingToolUseFlush := False\<rparr>))) e) inStream"
    by (rule tri_if [OF tri_skip tri_weaken [OF tri_inputDelta]]) (auto simp: inStream_def)
  then show ?thesis by (rule tri_eq [rotated]) (simp add: emitToolDelta_def)
qed

lemma tri_emitChunk: "tri inStream (emitChunk c) inStream"
proof (cases c)
  case (CkText t)
  have "tri inStream (emitChunk (CkText (Some s))) inStream" for s
    unfolding emitChunk.simps option.case
    by (rule tri_andThen [OF tri_transition tri_andThen [OF tri_textDelta(1) tri_modify]]) (auto simp: inStream_def)
  moreover have "tri inStream (emitChunk (CkText None)) inStream"
    unfolding emitChunk.simps option.case by (rule tri_andThen [OF tri_transition tri_skip']) (auto simp: inStream_def)
  ultimately show ?thesis by (cases t) (simp_all only: CkText)
next
  case (CkThought t)
  have "tri inStream (emitChunk (CkThought (Some s))) inStream" for s
    unfolding emitChunk.simps option.case
    by (rule tri_andThen [OF tri_transition tri_andThen [OF tri_textDelta(2) tri_modify]]) (auto simp: inStream_def)
  moreover have "tri inStream (emitChunk (CkThought None)) inStream"
    unfolding emitChunk.simps option.case by (rule tri_andThen [OF tri_transition tri_skip']) (auto simp: inStream_def)
  ultimately show ?thesis by (cases t) (simp_all only: CkThought)
next
  case (CkToolCall t)
  show ?thesis
  proof (cases t)
    case None
    then show ?thesis by (simp add: CkToolCall tri_skip')
  next
    case (Some tc)
    have "tri inStream (emitChunk (CkToolCall (Some tc))) inStream"
      unfolding emitChunk.simps by (rule tri_andThen [OF tri_transition tri_emitToolDelta]) simp
    then show ?thesis by (simp add: CkToolCall Some)
  qed
next
  case (CkPlan t)
  then show ?thesis by (simp add: tri_skip')
qed

lemma tri_resolveBoundary: "tri inStream (resolveBoundary v c) inStream"
proof -
  let ?b = "\<lambda>e. (case c of CkThought (Some t) \<Rightarrow> True | CkToolCall (Some t) \<Rightarrow> True | _ \<Rightarrow> False) \<and> em_buffering e \<and> em_bufferedText e \<noteq> []"
  have 1: "tri inStream (\<lambda>e. if kindOf c = ChunkKindToolCall \<and> sv_extract v (em_bufferedText e) \<noteq> []
      then modify consumeBuffer e else finalizeBufferedText v e) inStream"
  proof (rule tri_if)
    have "tri inStream (modify consumeBuffer) inStream" by (rule tri_modify) (auto simp: inStream_def)
    then show "tri (\<lambda>w e. inStream w e \<and> (kindOf c = ChunkKindToolCall \<and> sv_extract v (em_bufferedText e) \<noteq> [])) (modify consumeBuffer) inStream"
      by (rule tri_weaken) simp_all
    show "tri (\<lambda>w e. inStream w e \<and> \<not> (kindOf c = ChunkKindToolCall \<and> sv_extract v (em_bufferedText e) \<noteq> [])) (finalizeBufferedText v) inStream"
      by (rule tri_weaken [OF tri_finalizeBufferedText]) simp_all
  qed
  have "tri inStream (andThen (\<lambda>e. if kindOf c = ChunkKindToolCall \<and> sv_extract v (em_bufferedText e) \<noteq> []
      then modify consumeBuffer e else finalizeBufferedText v e) (modify (\<lambda>e. e\<lparr>em_buffering := False\<rparr>))) inStream"
    by (rule tri_andThen [OF 1 tri_modify]) (auto simp: inStream_def)
  note 2 = this
  have "tri inStream (\<lambda>e. if ?b e then andThen (\<lambda>e. if kindOf c = ChunkKindToolCall \<and> sv_extract v (em_bufferedText e) \<noteq> []
      then modify consumeBuffer e else finalizeBufferedText v e) (modify (\<lambda>e. e\<lparr>em_buffering := False\<rparr>)) e else (False, e)) inStream"
    by (rule tri_if [OF tri_weaken [OF 2] tri_skip]) auto
  then show ?thesis by (rule tri_eq [rotated]) (simp add: resolveBoundary_def modify_def cong: if_cong)
qed

lemma tri_applyText: "tri inStream (applyText v s) inStream"
proof -
  have 1: "tri inStream (andThen flushBufferedTextAsText (modify (\<lambda>e. e\<lparr>em_bufferDecided := True\<rparr>))) inStream"
    by (rule tri_andThen [OF tri_flushBufferedText tri_modify]) (auto simp: inStream_def)
  have "tri inStream (\<lambda>e. if em_buffering e
      then andThen flushBufferedTextAsText (modify (\<lambda>e. e\<lparr>em_bufferDecided := True\<rparr>)) e else (False, e)) inStream"
    by (rule tri_if [OF tri_weaken [OF 1] tri_skip]) auto
  then have 2: "tri inStream (andThen (\<lambda>e. if em_buffering e
      then andThen flushBufferedTextAsText (modify (\<lambda>e. e\<lparr>em_bufferDecided := True\<rparr>)) e else (False, e)) (emitChunk (CkText (Some s)))) inStream"
    by (rule tri_andThen [OF _ tri_emitChunk])
  have 3: "tri inStream (\<lambda>e. modify (\<lambda>e. e\<lparr>em_buffering := True, em_bufferedText := em_bufferedText e @ s\<rparr>) e) inStream"
    by (rule tri_modify) (auto simp: inStream_def)
  have "tri inStream (\<lambda>e. if bufferText v s e then modify (\<lambda>e. e\<lparr>em_buffering := True, em_bufferedText := em_bufferedText e @ s\<rparr>) e
      else andThen (\<lambda>e. if em_buffering e
        then andThen flushBufferedTextAsText (modify (\<lambda>e. e\<lparr>em_bufferDecided := True\<rparr>)) e else (False, e)) (emitChunk (CkText (Some s))) e) inStream"
    by (rule tri_if [OF tri_weaken [OF 3] tri_weaken [OF 2]]) auto
  then show ?thesis by (rule tri_eq [rotated]) (simp add: applyText_def modify_def)
qed

lemma tri_applyChunk: "tri inStream (applyChunk v c) inStream"
proof (cases "resolveChunk v c")
  case None
  then show ?thesis by (simp add: applyChunk_def [abs_def] tri_skip)
next
  case (Some c')
  have "tri inStream (andThen (resolveBoundary v c') (emitChunk c')) inStream"
    by (rule tri_andThen [OF tri_resolveBoundary tri_emitChunk])
  then show ?thesis
    by (cases c') (auto simp: applyChunk_def [abs_def] Some tri_applyText split: option.splits)
qed


text \<open>Writes whose failure is ignored.\<close>

definition accepted :: "sseEmitter \<Rightarrow> bool" where
  "accepted e \<longleftrightarrow> (\<exists>w. wireRun WStart (em_out e) = Some w)"

definition endAt :: "wire \<Rightarrow> sseEmitter \<Rightarrow> bool" where
  "endAt w e \<longleftrightarrow> (\<exists>n. w = WIdle n (em_toolUseEmitted e))"

lemma accepted_intros: "ok P e \<Longrightarrow> accepted e" "dead e \<Longrightarrow> accepted e"
  by (auto simp: accepted_def ok_def dead_def)

lemma best_tri: "tri P f Q \<Longrightarrow> ok P e \<Longrightarrow> ok Q (bestEffort f e) \<or> dead (bestEffort f e)"
  using triD [of P f Q e] by (auto simp: bestEffort_def split: prod.splits bool.splits)

lemma dead_write: "dead e \<Longrightarrow> writeEvent ev e = (True, e)"
  by (simp add: dead_def writeEvent_def)

lemma dead_stop: "dead e \<Longrightarrow> dead (bestEffort writeStop e)"
  by (simp add: bestEffort_def writeStop_def dead_write)

lemma closeAtEnd_ok: "ok inStream e \<Longrightarrow> ok endAt (closeAtEnd e) \<or> dead (closeAtEnd e)"
proof -
  assume e: "ok inStream e"
  show ?thesis
  proof (cases "em_blockOpen e")
    case True
    then have "ok openAt e" using e by (auto simp: ok_def inStream_def closedAt_def)
    then have "ok flushed (bestEffort flushPendingToolUseIfNeeded e) \<or> dead (bestEffort flushPendingToolUseIfNeeded e)"
      by (rule best_tri [OF tri_flush])
    then have "ok stopped (closeAtEnd e) \<or> dead (closeAtEnd e)"
      using best_tri [OF tri_stop] dead_stop True unfolding closeAtEnd_def by auto
    then show ?thesis by (auto intro: ok_weaken simp: stopped_def endAt_def)
  next
    case False
    then show ?thesis using e by (auto simp: closeAtEnd_def ok_def inStream_def wire_rel endAt_def)
  qed
qed

lemma error_accepted: "ok endAt e \<or> ok inStream e \<or> dead e \<Longrightarrow> accepted (writeSSEError msg e)"
proof -
  have t: "tri (\<lambda>w e. endAt w e \<or> inStream w e) (\<lambda>e. writeEvent (ErrorEvent msg) e) (\<lambda>w e. True)"
    by (rule tri_write) (auto simp: endAt_def inStream_def wire_rel)
  assume "ok endAt e \<or> ok inStream e \<or> dead e"
  then consider "ok (\<lambda>w e. endAt w e \<or> inStream w e) e" | "dead e" by (auto simp: ok_def)
  then show ?thesis
  proof cases
    case 1
    then have "ok (\<lambda>w e. True) (bestEffort (\<lambda>e. writeEvent (ErrorEvent msg) e) e) \<or> dead (bestEffort (\<lambda>e. writeEvent (ErrorEvent msg) e) e)"
      by (rule best_tri [OF t])
    then show ?thesis by (auto simp: writeSSEError_def dest: accepted_intros)
  next
    case 2
    then show ?thesis by (simp add: writeSSEError_def bestEffort_def dead_write accepted_intros(2))
  qed
qed

lemma mapStop_tool: "mapStopReason s \<noteq> Some ''tool_use''"
  by (cases s) (simp_all add: mapStopReason_def)

lemma tri_messageEnd:
  "tri (\<lambda>w e. endAt w e \<and> em_toolUseEmitted e = t) (andThen (writeEvent (MessageDelta (if t then Some ''tool_use'' else mapStopReason s))) (writeEvent MessageStop))
     (\<lambda>w e. w = WDone)"
proof (rule tri_andThen)
  show "tri (\<lambda>w e. endAt w e \<and> em_toolUseEmitted e = t) (writeEvent (MessageDelta (if t then Some ''tool_use'' else mapStopReason s))) (\<lambda>w e. w = WEnding)"
    by (rule tri_write) (auto simp: endAt_def mapStop_tool)
  show "tri (\<lambda>w e. w = WEnding) (writeEvent MessageStop) (\<lambda>w e. w = WDone)"
    by (rule tri_write) auto
qed

lemma dead_messageEnd: "dead e \<Longrightarrow> andThen (writeEvent a) (writeEvent b) e = (True, e)"
  by (simp add: andThen_def dead_write)

text \<open>The outcome of the emitter: what was written is accepted, and completely so at a clean end.\<close>

definition wellFormed :: "sseEnd option \<Rightarrow> sseEmitter \<Rightarrow> bool" where
  "wellFormed r e \<longleftrightarrow> (\<exists>w. wireRun WStart (em_out e) = Some w \<and> (r = Some EndOk \<longrightarrow> w = WDone))"

lemma accepted_wellFormed: "accepted e \<Longrightarrow> r \<noteq> Some EndOk \<Longrightarrow> wellFormed r e"
  by (auto simp: accepted_def wellFormed_def)

lemma finalizeStream_wellFormed:
  assumes "ok inStream e" "finalizeStream v res e = (fin, resp, e')"
  shows "wellFormed (Some fin) e'"
proof (cases res)
  case (Inl err)
  then have "fin = EndResultErr" "e' = writeSSEError ''stream terminated'' (closeAtEnd e)"
    using assms(2) by (auto simp: finalizeStream_def Let_def)
  then show ?thesis using error_accepted closeAtEnd_ok [OF assms(1)] by (auto intro: accepted_wellFormed)
next
  case (Inr stop)
  obtain b e1 where f: "finalizeBufferedText v e = (b, e1)" by force
  note t = triD [OF tri_finalizeBufferedText assms(1), of v]
  show ?thesis
  proof (cases b)
    case True
    then have "dead e1" "fin = EndWriteErr" "e' = e1" using t f assms(2) Inr by (auto simp: finalizeStream_def)
    then show ?thesis by (auto intro: accepted_wellFormed accepted_intros(2))
  next
    case False
    then have e1: "ok inStream e1" using t f by simp
    let ?e2 = "closeAtEnd e1"
    let ?r = "if em_toolUseEmitted ?e2 then Some ''tool_use'' else mapStopReason stop"
    obtain c e3 where m: "andThen (writeEvent (MessageDelta ?r)) (writeEvent MessageStop) ?e2 = (c, e3)" by force
    have res': "fin = (if c then EndWriteErr else EndOk)" "e' = e3"
      using assms(2) Inr f False m by (auto simp: finalizeStream_def Let_def split: bool.splits)
    from closeAtEnd_ok [OF e1] show ?thesis
    proof
      assume "ok endAt ?e2"
      then have "ok (\<lambda>w e. endAt w e \<and> em_toolUseEmitted e = em_toolUseEmitted ?e2) ?e2" by (auto simp: ok_def)
      from triD [OF tri_messageEnd this, of stop] show ?thesis
        using m res' by (cases c) (auto simp: wellFormed_def ok_def dead_def)
    next
      assume d: "dead ?e2"
      then have "c \<and> e3 = ?e2" using m dead_messageEnd [OF d] by simp
      then show ?thesis using d res' by (auto intro: accepted_wellFormed accepted_intros(2))
    qed
  qed
qed

lemma loop_wellFormed: "ok inStream e \<Longrightarrow> wellFormed (map_option fst (fst (runSSEEmitterLoop v xs e))) (snd (runSSEEmitterLoop v xs e))"
proof (induction v xs e rule: runSSEEmitterLoop.induct)
  case (4 v xs e)
  have "tri inStream (\<lambda>e. writeEvent Ping e) inStream" by (rule tri_write) (auto simp: inStream_def wire_rel)
  note t = triD [OF this 4(2)]
  show ?case
    using t 4(1) by (auto split: prod.splits bool.splits intro: accepted_wellFormed accepted_intros(2))
next
  case (5 v res xs e)
  show ?case using finalizeStream_wellFormed [OF 5] by (auto split: prod.splits)
next
  case (6 v c xs e)
  note t = triD [OF tri_applyChunk 6(2), of v c]
  show ?case
    using t 6(1) by (auto split: prod.splits bool.splits intro: accepted_wellFormed accepted_intros(2))
next
  case (3 v xs e)
  then have "accepted (writeSSEError ''upstream stream idle'' e)" by (intro error_accepted) simp
  then show ?case by (simp add: accepted_wellFormed Let_def)
qed (auto intro: accepted_wellFormed accepted_intros)

lemma run_wellFormed: "wellFormed (map_option fst (fst (runSSEEmitter v m writes xs))) (snd (runSSEEmitter v m writes xs))"
proof -
  consider "writes = Some 0" | "writes \<noteq> Some 0" by auto
  then show ?thesis
  proof cases
    case 1
    then show ?thesis by (simp add: runSSEEmitter_def writeEvent_def newEmitter_def wellFormed_def)
  next
    case 2
    let ?e = "snd (writeEvent (MessageStart m) (newEmitter writes))"
    have "ok inStream ?e" using 2 by (auto simp: writeEvent_def newEmitter_def ok_def inStream_def closedAt_def)
    moreover have "runSSEEmitter v m writes xs = runSSEEmitterLoop v xs ?e"
      using 2 by (simp add: runSSEEmitter_def writeEvent_def newEmitter_def)
    ultimately show ?thesis using loop_wellFormed by simp
  qed
qed


section \<open>Streaming and collecting agree\<close>

text \<open>With a writer that never fails, what a method does to the aggregation state.\<close>

definition agg :: "sseEmitter \<Rightarrow> string \<times> string \<times> ToolCall list \<times> ToolCall list \<times> bool" where
  "agg e = (em_aggText e, em_aggThought e, em_aggToolParts e, em_aggToolCalls e, em_toolUseEmitted e)"

definition buf :: "sseEmitter \<Rightarrow> bool \<times> bool \<times> bool \<times> string" where
  "buf e = (em_buffering e, em_bufferDecided e, em_bufferConsumed e, em_bufferedText e)"

definition safe :: "sseMethod \<Rightarrow> (sseEmitter \<Rightarrow> sseEmitter \<Rightarrow> bool) \<Rightarrow> bool" where
  "safe f R \<longleftrightarrow> (\<forall>e. em_writes e = None \<longrightarrow> \<not> fst (f e) \<and> em_writes (snd (f e)) = None \<and> R e (snd (f e)))"

definition same :: "sseEmitter \<Rightarrow> sseEmitter \<Rightarrow> bool" where
  "same e e' \<longleftrightarrow> agg e' = agg e \<and> buf e' = buf e"

lemma safe_andThen: "safe f R \<Longrightarrow> safe g S \<Longrightarrow> (\<And>a b c. R a b \<Longrightarrow> S b c \<Longrightarrow> T a c) \<Longrightarrow> safe (andThen f g) T"
  unfolding safe_def andThen_def by (auto split: prod.splits bool.splits) (metis fst_conv snd_conv)+

lemma safe_write: "(\<And>e out n. R e (e\<lparr>em_out := out, em_writes := n\<rparr>)) \<Longrightarrow> safe (\<lambda>e. writeEvent (ev e) e) R"
  by (simp add: safe_def writeEvent_def)

lemma safe_if: "safe f R \<Longrightarrow> safe g R \<Longrightarrow> safe (\<lambda>e. if c e then f e else g e) R"
  by (simp add: safe_def)

lemma same_refl: "same e e"
  by (simp add: same_def)

lemma same_trans: "same a b \<Longrightarrow> same b c \<Longrightarrow> same a c"
  by (simp add: same_def)

lemma same_out: "same e (e\<lparr>em_out := out, em_writes := n\<rparr>)"
  by (simp add: same_def agg_def buf_def)

lemma safe_skip: "safe (\<lambda>e. (False, e)) same" "safe skip same"
  by (simp_all add: safe_def same_refl skip_def)

lemma safe_flush: "safe flushPendingToolUseIfNeeded same"
  by (simp add: safe_def flushPendingToolUseIfNeeded_def writeEvent_def Let_def same_def agg_def buf_def)

lemma safe_stop: "safe writeStop same" and safe_delta: "safe (writeDelta d) same"
  unfolding writeStop_def [abs_def] writeDelta_def [abs_def] by (rule safe_write, rule same_out)+

lemma safe_closeBlock: "safe closeBlock same"
  unfolding closeBlock_def
proof (rule safe_andThen [OF safe_flush _ same_trans], rule safe_andThen [OF safe_stop _ same_trans])
  show "safe (modify (\<lambda>e. e\<lparr>em_blockIndex := em_blockIndex e + 1, em_blockOpen := False\<rparr>)) same"
    by (simp add: safe_def modify_def same_def agg_def buf_def)
qed

lemma safe_openBlock: "kind \<noteq> ChunkKindToolCall \<Longrightarrow> safe (openBlock kind h) same"
  by (simp add: safe_def openBlock_def andThen_def writeEvent_def modify_def same_def agg_def buf_def)

lemma safe_transition: "kind \<noteq> ChunkKindToolCall \<Longrightarrow> safe (transition kind h) same"
  unfolding transition_def
  by (rule safe_andThen [OF safe_if [OF safe_closeBlock safe_skip(1)] safe_if [OF safe_openBlock safe_skip(1)] same_trans])

text \<open>Emitting a text or a thought appends it to the aggregate.\<close>

definition addText :: "string \<Rightarrow> sseEmitter \<Rightarrow> sseEmitter \<Rightarrow> bool" where
  "addText s e e' \<longleftrightarrow> buf e' = buf e \<and> agg e' = (em_aggText e @ s, snd (agg e))"

definition addThought :: "string \<Rightarrow> sseEmitter \<Rightarrow> sseEmitter \<Rightarrow> bool" where
  "addThought s e e' \<longleftrightarrow> buf e' = buf e \<and> agg e' = (em_aggText e, em_aggThought e @ s, snd (snd (agg e)))"

lemma safe_textDelta:
  "safe (andThen (writeDelta d) (modify (\<lambda>e. e\<lparr>em_aggText := em_aggText e @ s\<rparr>))) (addText s)"
  "safe (andThen (writeDelta d) (modify (\<lambda>e. e\<lparr>em_aggThought := em_aggThought e @ s\<rparr>))) (addThought s)"
  by (simp_all add: safe_def writeDelta_def andThen_def writeEvent_def modify_def addText_def addThought_def agg_def buf_def)

lemma safe_emitText: "safe (emitChunk (CkText (Some s))) (addText s)" "safe (emitTextRaw s) (addText s)"
  unfolding emitChunk.simps option.case emitTextRaw_def
  by (rule safe_andThen [OF safe_transition safe_textDelta(1)]; simp add: same_def addText_def agg_def)+

lemma safe_emitThought: "safe (emitChunk (CkThought (Some s))) (addThought s)"
  unfolding emitChunk.simps option.case
  by (rule safe_andThen [OF safe_transition safe_textDelta(2)]) (simp_all add: same_def addThought_def agg_def)

lemma safe_emitNone: "safe (emitChunk (CkText None)) same" "safe (emitChunk (CkThought None)) same"
  "safe (emitChunk (CkToolCall None)) same" "safe (emitChunk (CkPlan p)) same"
  unfolding emitChunk.simps option.case
  by (rule safe_andThen [OF safe_transition safe_skip(2) same_trans] | simp add: safe_skip)+

text \<open>What the two paths have gathered after the same chunks: buffered text counts as gathered.\<close>

definition gathered :: "sseEmitter \<Rightarrow> collectAcc" where
  "gathered e = \<lparr>ca_text = em_aggText e @ em_bufferedText e, ca_thought = em_aggThought e, ca_calls = em_aggToolCalls e\<rparr>"

definition plainState :: "sseEmitter \<Rightarrow> bool" where
  "plainState e \<longleftrightarrow> em_writes e = None \<and> (\<not> em_buffering e \<longrightarrow> em_bufferedText e = []) \<and> em_aggToolParts e = [] \<and> em_aggToolCalls e = []"

fun noToolCall :: "canonChunk \<Rightarrow> bool" where
  "noToolCall (CkToolCall (Some tc)) = False"
| "noToolCall c = True"

text \<open>No contiguous piece of the text \<open>t\<close> reads as wrapped calls (asked only when tools are offered).\<close>

definition noWrappedCalls :: "sseEnv \<Rightarrow> string \<Rightarrow> bool" where
  "noWrappedCalls v t \<longleftrightarrow> sv_tools v = [] \<or> (\<forall>s. sublist s t \<longrightarrow> sv_extract v s = [])"

lemma noWrappedCalls_part: "noWrappedCalls v t \<Longrightarrow> sublist s t \<Longrightarrow> noWrappedCalls v s"
  unfolding noWrappedCalls_def by (blast intro: sublist_order.order_trans)

lemma noWrappedCalls_buffered:
  "noWrappedCalls v (ca_text (gathered e)) \<Longrightarrow> (if sv_tools v \<noteq> [] then sv_extract v (em_bufferedText e) else []) = []"
  by (auto simp: noWrappedCalls_def gathered_def)

definition goes :: "sseMethod \<Rightarrow> sseEmitter \<Rightarrow> collectAcc \<Rightarrow> bool" where
  "goes f e acc \<longleftrightarrow> \<not> fst (f e) \<and> plainState (snd (f e)) \<and> gathered (snd (f e)) = acc"

lemma safeD: "safe f R \<Longrightarrow> em_writes e = None \<Longrightarrow> \<not> fst (f e) \<and> em_writes (snd (f e)) = None \<and> R e (snd (f e))"
  by (simp add: safe_def)

lemma goes_same: "safe f same \<Longrightarrow> plainState e \<Longrightarrow> goes f e (gathered e)"
  by (drule safeD [of f _ e]) (auto simp: goes_def plainState_def same_def agg_def buf_def gathered_def)

lemma goes_andThen: "goes f e acc \<Longrightarrow> (\<And>e'. plainState e' \<Longrightarrow> gathered e' = acc \<Longrightarrow> goes g e' acc') \<Longrightarrow> goes (andThen f g) e acc'"
  by (auto simp: goes_def andThen_def split: prod.splits bool.splits)

lemma goes_text:
  assumes "plainState e" and "\<not> em_buffering e"
  shows "goes (emitChunk (CkText (Some s))) e ((gathered e)\<lparr>ca_text := ca_text (gathered e) @ s\<rparr>)"
  using safeD [OF safe_emitText(1), of e s] assms
  by (auto simp: goes_def plainState_def addText_def agg_def buf_def gathered_def)

lemma goes_thought: "plainState e \<Longrightarrow>
   goes (emitChunk (CkThought (Some s))) e ((gathered e)\<lparr>ca_thought := ca_thought (gathered e) @ s\<rparr>)"
  using safeD [OF safe_emitThought, of e s]
  by (auto simp: goes_def plainState_def addThought_def agg_def buf_def gathered_def)

lemma goes_flush:
  assumes "plainState e"
  shows "goes flushBufferedTextAsText e (gathered e)" and "\<not> em_buffering (snd (flushBufferedTextAsText e))"
  using safeD [OF safe_emitText(2), of e "em_bufferedText e"] assms
  by (auto simp: flushBufferedTextAsText_def goes_def andThen_def modify_def plainState_def addText_def agg_def buf_def gathered_def
      split: prod.splits bool.splits)

lemma goes_finalizeBuffered:
  assumes "plainState e" and "noWrappedCalls v (ca_text (gathered e))"
  shows "goes (finalizeBufferedText v) e (gathered e)"
proof -
  note none = noWrappedCalls_buffered [OF assms(2)]
  have "goes (andThen (\<lambda>e. if em_blockOpen e then closeBlock e else (False, e)) flushBufferedTextAsText) e (gathered e)"
    by (rule goes_andThen [OF goes_same [OF safe_if [OF safe_closeBlock safe_skip(1)] assms(1)]])
       (metis goes_flush(1))
  then show ?thesis
    using assms(1) by (simp add: finalizeBufferedText_def none goes_def Let_def)
qed

lemma finalizeBuffered_done:
  assumes "plainState e" and "noWrappedCalls v (ca_text (gathered e))"
  shows "em_bufferedText (snd (finalizeBufferedText v e)) = []"
proof (cases "\<not> em_buffering e \<or> em_bufferedText e = []")
  case True
  then show ?thesis using assms by (auto simp: finalizeBufferedText_def plainState_def)
next
  case False
  note none = noWrappedCalls_buffered [OF assms(2)]
  have c: "goes (\<lambda>e. if em_blockOpen e then closeBlock e else (False, e)) e (gathered e)"
    by (rule goes_same [OF safe_if [OF safe_closeBlock safe_skip(1)] assms(1)])
  obtain b e' where e': "(if em_blockOpen e then closeBlock e else (False, e)) = (b, e')" by (rule prod.exhaust)
  then have p: "\<not> b" "plainState e'" using c by (simp_all add: goes_def)
  have "plainState (snd (flushBufferedTextAsText e'))" "\<not> em_buffering (snd (flushBufferedTextAsText e'))"
    using goes_flush [OF p(2)] by (simp_all add: goes_def)
  then have "em_bufferedText (snd (flushBufferedTextAsText e')) = []" by (simp add: plainState_def)
  then show ?thesis using False p e' by (simp add: finalizeBufferedText_def none andThen_def)
qed

lemma goes_boundary:
  assumes "plainState e" and "noWrappedCalls v (ca_text (gathered e))" and "noToolCall c"
  shows "goes (resolveBoundary v c) e (gathered e)"
proof (cases "\<exists>t. c = CkThought (Some t)")
  case True
  have "goes (andThen (finalizeBufferedText v) (modify (\<lambda>e. e\<lparr>em_buffering := False\<rparr>))) e (gathered e)"
    using goes_finalizeBuffered [OF assms(1,2)] finalizeBuffered_done [OF assms(1,2)]
    by (auto simp: goes_def andThen_def modify_def plainState_def gathered_def split: prod.splits bool.splits)
  moreover have "goes (\<lambda>e. (False, e)) e (gathered e)" using assms(1) by (simp add: goes_def)
  ultimately show ?thesis using True by (auto simp: resolveBoundary_def goes_def)
next
  case False
  have "goes (\<lambda>e. (False, e)) e (gathered e)" using assms(1) by (simp add: goes_def)
  moreover have "\<not> (case c of CkThought (Some t) \<Rightarrow> True | CkToolCall (Some t) \<Rightarrow> True | _ \<Rightarrow> False)"
    using False assms(3) by (auto split: canonChunk.splits option.splits)
  ultimately show ?thesis by (simp add: resolveBoundary_def goes_def)
qed

lemma goes_buffer: "plainState e \<Longrightarrow>
   goes (\<lambda>e. (False, e\<lparr>em_buffering := True, em_bufferedText := em_bufferedText e @ s\<rparr>)) e ((gathered e)\<lparr>ca_text := ca_text (gathered e) @ s\<rparr>)"
  by (simp add: goes_def plainState_def gathered_def)

lemma goes_applyText:
  assumes "plainState e"
  shows "goes (applyText v s) e ((gathered e)\<lparr>ca_text := ca_text (gathered e) @ s\<rparr>)"
proof (cases "bufferText v s e")
  case True
  then show ?thesis using goes_buffer [OF assms, of s] by (simp add: applyText_def goes_def)
next
  case False
  let ?f = "\<lambda>e. if em_buffering e then andThen flushBufferedTextAsText (modify (\<lambda>e. e\<lparr>em_bufferDecided := True\<rparr>)) e else (False, e)"
  have f: "goes ?f e (gathered e) \<and> \<not> em_buffering (snd (?f e))"
    using goes_flush [OF assms] assms
    by (auto simp: goes_def andThen_def modify_def plainState_def gathered_def split: prod.splits bool.splits)
  obtain e' where e': "?f e = (False, e')" "plainState e'" "gathered e' = gathered e" "\<not> em_buffering e'"
    using f unfolding goes_def by (metis prod.collapse)
  then show ?thesis
    using goes_text [OF e'(2,4), of s] False by (simp add: applyText_def goes_def andThen_def)
qed

lemma noToolCall_cases: "noToolCall c \<Longrightarrow> (\<exists>s. c = CkText (Some s)) \<or> (\<exists>t. c = CkThought (Some t)) \<or>
   c \<in> {CkText None, CkThought None, CkToolCall None} \<or> (\<exists>p. c = CkPlan p)"
proof (cases c)
  case (CkText t)
  then show ?thesis by (cases t) auto
next
  case (CkThought t)
  then show ?thesis by (cases t) auto
next
  case (CkToolCall t)
  assume "noToolCall c"
  then show ?thesis using CkToolCall by (cases t) auto
qed auto

lemma goes_applyChunk:
  assumes "plainState e" and "noWrappedCalls v (ca_text (gathered e))" and "noToolCall c"
  shows "goes (applyChunk v c) e (collectChunk v genID c (gathered e))"
proof -
  have skips: "goes (andThen (resolveBoundary v c) (emitChunk c)) e (gathered e)" if "safe (emitChunk c) same"
    by (rule goes_andThen [OF goes_boundary [OF assms]]) (metis goes_same that)
  consider s where "c = CkText (Some s)" | t where "c = CkThought (Some t)"
    | "c \<in> {CkText None, CkThought None, CkToolCall None} \<or> (\<exists>p. c = CkPlan p)"
    using noToolCall_cases [OF assms(3)] by blast
  then show ?thesis
  proof cases
    case 1
    then show ?thesis using goes_applyText [OF assms(1), of v s] by (simp add: applyChunk_def resolveChunk_def collectChunk_def goes_def)
  next
    case 2
    have "goes (andThen (resolveBoundary v c) (emitChunk c)) e ((gathered e)\<lparr>ca_thought := ca_thought (gathered e) @ t\<rparr>)"
      by (rule goes_andThen [OF goes_boundary [OF assms]]) (metis goes_thought 2)
    then show ?thesis using 2 by (simp add: applyChunk_def resolveChunk_def collectChunk_def goes_def)
  next
    case 3
    then have "safe (emitChunk c) same" using safe_emitNone by auto
    from skips [OF this] 3 show ?thesis by (auto simp: applyChunk_def resolveChunk_def collectChunk_def goes_def)
  qed
qed

fun chunksOf :: "sseInput list \<Rightarrow> canonChunk list" where
  "chunksOf (InChunk c # xs) = c # chunksOf xs"
| "chunksOf (x # xs) = chunksOf xs"
| "chunksOf [] = []"

fun plainInput :: "sseInput \<Rightarrow> bool" where
  "plainInput (InChunk c) = noToolCall c"
| "plainInput InTick = True"
| "plainInput x = False"

lemma goes_ping: "plainState e \<Longrightarrow> goes (writeEvent Ping) e (gathered e)"
  by (simp add: goes_def writeEvent_def plainState_def gathered_def)

lemma safe_closing: "em_writes e = None \<Longrightarrow> agg (closeAtEnd e) = agg e \<and> buf (closeAtEnd e) = buf e \<and> em_writes (closeAtEnd e) = None"
  using safeD [OF safe_flush, of e] safeD [OF safe_stop, of "snd (flushPendingToolUseIfNeeded e)"]
  by (simp add: closeAtEnd_def bestEffort_def same_def)

lemma finalize_collect:
  assumes "plainState e" and "noWrappedCalls v (ca_text (gathered e))"
  shows "\<exists>e'. finalizeStream v (Inr stop) e =
    (EndOk, (assembleAnthropicChatResponse model (ca_text (gathered e)) (ca_thought (gathered e)) [] stop)\<lparr>cr_Model := []\<rparr>, e')"
proof -
  obtain e1 where e1: "finalizeBufferedText v e = (False, e1)" "plainState e1" "gathered e1 = gathered e" "em_bufferedText e1 = []"
    using goes_finalizeBuffered [OF assms] finalizeBuffered_done [OF assms] unfolding goes_def by (metis prod.collapse)
  let ?e2 = "closeAtEnd e1"
  have e2: "agg ?e2 = agg e1" "buf ?e2 = buf e1" "em_writes ?e2 = None" using safe_closing e1(2) by (auto simp: plainState_def)
  then show ?thesis
    using e1 by (simp add: finalizeStream_def Let_def andThen_def writeEvent_def aggregatedResponse_def agg_def buf_def
        assembleAnthropicChatResponse_def gathered_def plainState_def)
qed

lemma gathered_mono:
  "prefix (ca_text acc) (ca_text (fold (collectChunk v genID) cs acc))"
proof (induction cs arbitrary: acc)
  case (Cons c cs)
  have "prefix (ca_text acc) (ca_text (collectChunk v genID c acc))"
    by (simp add: collectChunk_def split: canonChunk.split option.split)
  with Cons.IH [of "collectChunk v genID c acc"] show ?case
    by (simp add: prefix_order.order_trans [of "ca_text acc"])
qed simp

lemma loop_collect: "plainState e \<Longrightarrow> noWrappedCalls v (ca_text (fold (collectChunk v genID) (chunksOf xs) (gathered e))) \<Longrightarrow>
   \<forall>x \<in> set xs. plainInput x \<Longrightarrow>
   fst (runSSEEmitterLoop v (xs @ [InClosed (Inr stop)]) e) =
   (let acc = fold (collectChunk v genID) (chunksOf xs) (gathered e)
    in Some (EndOk, (assembleAnthropicChatResponse model (ca_text acc) (ca_thought acc) [] stop)\<lparr>cr_Model := []\<rparr>))"
proof (induction xs arbitrary: e)
  case Nil
  obtain e' where "finalizeStream v (Inr stop) e =
    (EndOk, (assembleAnthropicChatResponse model (ca_text (gathered e)) (ca_thought (gathered e)) [] stop)\<lparr>cr_Model := []\<rparr>, e')"
    using finalize_collect [OF Nil(1), of v stop model] Nil(2) by auto
  then show ?case by (simp add: Let_def)
next
  case (Cons x xs)
  have now: "noWrappedCalls v (ca_text (gathered e))"
    using noWrappedCalls_part [OF Cons(3)] gathered_mono by blast
  consider c where "x = InChunk c" "noToolCall c" | "x = InTick" using Cons(4) by (cases x) auto
  then show ?case
  proof cases
    case 1
    have g: "goes (applyChunk v c) e (collectChunk v genID c (gathered e))" using goes_applyChunk Cons(2) now 1(2) by blast
    then show ?thesis using Cons.IH [of "snd (applyChunk v c e)"] Cons(3,4) 1(1)
      by (auto simp: goes_def split: prod.splits bool.splits)
  next
    case 2
    have "goes (writeEvent Ping) e (gathered e)" using goes_ping Cons(2) by blast
    then show ?thesis using Cons.IH [of "snd (writeEvent Ping e)"] Cons(3,4) 2
      by (auto simp: goes_def split: prod.splits bool.splits)
  qed
qed

lemma collect_no_calls: "\<forall>c \<in> set cs. noToolCall c \<Longrightarrow> ca_calls (fold (collectChunk v genID) cs acc) = ca_calls acc"
proof (induction cs arbitrary: acc)
  case (Cons c cs)
  have "ca_calls (collectChunk v genID c acc) = ca_calls acc"
    using noToolCall_cases [of c] Cons(2) by (auto simp: collectChunk_def)
  then show ?case using Cons by simp
qed simp

text \<open>The text of a turn, as the worker sent it.\<close>

definition turnPiece :: "canonChunk \<Rightarrow> string" where
  "turnPiece c = (case c of CkText (Some s) \<Rightarrow> s | _ \<Rightarrow> [])"

definition turnText :: "canonChunk list \<Rightarrow> string" where
  "turnText cs = concat (map turnPiece cs)"

lemma fold_text: "ca_text (fold (collectChunk v genID) cs acc) = ca_text acc @ turnText cs"
proof (induction cs arbitrary: acc)
  case (Cons c cs)
  have "ca_text (collectChunk v genID c acc) = ca_text acc @ turnPiece c"
    by (simp add: collectChunk_def turnPiece_def split: canonChunk.split option.split)
  with Cons.IH show ?case by (simp add: turnText_def)
qed (simp add: turnText_def)

text \<open>An extraction for the witness: a text with a brace holds one call.\<close>

definition demo_extract :: "string \<Rightarrow> ToolCall list" where
  "demo_extract s = (if CHR ''{'' \<in> set s then [\<lparr>tc_ID = ''1'', tc_Name = ''f'', tc_Arguments = []\<rparr>] else [])"

section \<open>Properties\<close>

text \<open>The definitions a concrete stream evaluates through.\<close>

lemmas sse_eval = runSSEEmitter_def newEmitter_def writeEvent_def applyChunk_def resolveChunk_def ResolveNativeToolName_def toolOffered_def
  resolveBoundary_def applyText_def bufferText_def maxStreamingCoerceBytes_def emitTextRaw_def closeBlock_def flushBufferedTextAsText_def
  andThen_def transition_def openBlock_def modify_def emitToolDelta_def writeDelta_def addTool_def skip_def finalizeStream_def
  finalizeBufferedText_def closeAtEnd_def bestEffort_def writeStop_def flushPendingToolUseIfNeeded_def aggregatedResponse_def
  consumeBuffer_def

text \<open>
  C23. Whatever the worker streams, whichever tools are offered, whatever the wrapper extraction returns and however early the
  client goes away, what reached the client is a prefix of a well-formed Anthropic stream: block indices count up from 0, at most one
  block is open, a block's deltas fit its header, a tool block gets exactly one input delta before it stops, nothing follows an
  error event, and the stop reason is tool_use exactly if a tool block was opened. A stream that ends well is complete.
\<close>

theorem sse_stream_well_formed:
  "\<exists>w. wireRun WStart (em_out (snd (runSSEEmitter v m writes xs))) = Some w \<and>
     (map_option fst (fst (runSSEEmitter v m writes xs)) = Some EndOk \<longrightarrow> w = WDone)"
  using run_wellFormed [of v m writes xs] by (simp add: wellFormed_def)

theorem sse_stream_well_formed_witness:
  "wireRun WStart (em_out (snd (runSSEEmitter \<lparr>sv_tools = [''f''], sv_aliases = [], sv_extract = \<lambda>s. []\<rparr> ''m'' None
      [InChunk (CkText (Some ''a'')), InTick, InChunk (CkToolCall (Some \<lparr>tc_ID = ''1'', tc_Name = ''f'', tc_Arguments = []\<rparr>)), InClosed (Inr StopEndTurn)]))) = Some WDone"
proof -
  have end_ok: "map_option fst (fst (runSSEEmitter \<lparr>sv_tools = [''f''], sv_aliases = [], sv_extract = \<lambda>s. []\<rparr> ''m'' None
      [InChunk (CkText (Some ''a'')), InTick, InChunk (CkToolCall (Some \<lparr>tc_ID = ''1'', tc_Name = ''f'', tc_Arguments = []\<rparr>)), InClosed (Inr StopEndTurn)])) = Some EndOk"
    by (simp add: sse_eval)
  show ?thesis
    by (rule exE [OF sse_stream_well_formed], elim conjE) (drule mp [OF _ end_ok], simp only:)
qed

text \<open>
  C24. Streaming and not streaming agree up to the model name: for a turn without native tool
  calls, no piece of whose text reads as wrapped calls when tools are offered, and a client that
  stays, the streamed turn ends well and the response its aggregation hands to the post hooks
  is, except for the model, the one the non-streaming path returns, whatever was buffered,
  flushed early or interleaved with thinking on the way. The streamed response never carries a
  model; the non-streaming one carries the request's.
\<close>

theorem streaming_equals_collect:
  assumes "\<forall>x \<in> set xs. plainInput x"
    and "noWrappedCalls v (turnText (chunksOf xs))"
  shows "fst (runSSEEmitter v m None (xs @ [InClosed (Inr stop)])) =
      Some (EndOk, (collectAnthropicChatFromRun v model genID (chunksOf xs) stop)\<lparr>cr_Model := []\<rparr>) \<and>
    cr_Model (collectAnthropicChatFromRun v model genID (chunksOf xs) stop) = model"
proof -
  let ?e = "snd (writeEvent (MessageStart m) (newEmitter None))"
  let ?acc = "fold (collectChunk v genID) (chunksOf xs) (gathered ?e)"
  have e: "plainState ?e" and g: "gathered ?e = \<lparr>ca_text = [], ca_thought = [], ca_calls = []\<rparr>"
    by (simp_all add: writeEvent_def newEmitter_def plainState_def gathered_def)
  have "\<forall>c \<in> set (chunksOf xs). noToolCall c" using assms(1)
  proof (induction xs)
    case (Cons x xs)
    then show ?case by (cases x) auto
  qed simp
  then have calls: "ca_calls ?acc = []" using collect_no_calls [of "chunksOf xs" v genID "gathered ?e"] g by simp
  have t: "noWrappedCalls v (ca_text ?acc)"
    using assms(2) fold_text [of v genID "chunksOf xs" "gathered ?e"] g by simp
  then have "(if sv_tools v \<noteq> [] then sv_extract v (ca_text ?acc) else []) = []"
    by (auto simp: noWrappedCalls_def)
  note coerced = this [unfolded g]
  have "runSSEEmitter v m None ys = runSSEEmitterLoop v ys ?e" for ys by (simp add: runSSEEmitter_def writeEvent_def newEmitter_def)
  with loop_collect [OF e t assms(1), of stop model] calls coerced g show ?thesis
    by (simp add: collectAnthropicChatFromRun_def Let_def DedupToolCalls_def assembleAnthropicChatResponse_def)
qed

theorem streaming_equals_collect_witness:
  "fst (runSSEEmitter \<lparr>sv_tools = [''f''], sv_aliases = [], sv_extract = demo_extract\<rparr> ''m'' None
     ([InChunk (CkText (Some ''a'')), InTick, InChunk (CkThought (Some ''t'')), InChunk (CkText (Some ''b''))] @ [InClosed (Inr StopEndTurn)])) =
   Some (EndOk, (collectAnthropicChatFromRun \<lparr>sv_tools = [''f''], sv_aliases = [], sv_extract = demo_extract\<rparr> ''auto'' (\<lambda>n. [])
     (chunksOf [InChunk (CkText (Some ''a'')), InTick, InChunk (CkThought (Some ''t'')), InChunk (CkText (Some ''b''))]) StopEndTurn)\<lparr>cr_Model := []\<rparr>)"
  by (rule streaming_equals_collect [THEN conjunct1])
    (auto simp: noWrappedCalls_def demo_extract_def turnText_def turnPiece_def dest!: set_mono_sublist)

text \<open>
  Two adjacent native tool calls share one block on the stream: the first is announced without arguments, the second comes with
  arguments, and the client receives the second call's arguments under the first call's id and name and never sees the second
  id, while the non-streaming path returns both calls.
\<close>

theorem adjacent_tool_calls_merged:
  "em_out (snd (runSSEEmitter \<lparr>sv_tools = [], sv_aliases = al, sv_extract = ex\<rparr> m None
     [InChunk (CkToolCall (Some \<lparr>tc_ID = ''1'', tc_Name = ''read'', tc_Arguments = []\<rparr>)),
      InChunk (CkToolCall (Some \<lparr>tc_ID = ''2'', tc_Name = ''drop'', tc_Arguments = [(''k'', ''x'')]\<rparr>)), InClosed (Inr stop)])) =
     [MessageStart m, ContentBlockStart 0 (ToolUseHeader ''1'' ''read''), ContentBlockDelta 0 (InputJSONDelta [(''k'', ''x'')]),
      ContentBlockStop 0, MessageDelta (Some ''tool_use''), MessageStop] \<and>
   cr_ToolCalls (collectAnthropicChatFromRun \<lparr>sv_tools = [], sv_aliases = al, sv_extract = ex\<rparr> model genID
     [CkToolCall (Some \<lparr>tc_ID = ''1'', tc_Name = ''read'', tc_Arguments = []\<rparr>),
      CkToolCall (Some \<lparr>tc_ID = ''2'', tc_Name = ''drop'', tc_Arguments = [(''k'', ''x'')]\<rparr>)] stop) =
     [\<lparr>tc_ID = ''1'', tc_Name = ''read'', tc_Arguments = []\<rparr>, \<lparr>tc_ID = ''2'', tc_Name = ''drop'', tc_Arguments = [(''k'', ''x'')]\<rparr>]"
  by (simp add: sse_eval collectAnthropicChatFromRun_def collectChunk_def assembleAnthropicChatResponse_def DedupToolCalls_def callKey_def)

text \<open>
  Text buffered after a first flush is lost to the post hooks when the client disconnects: with tools offered, \<open>s\<close>, a thought
  and \<open>s'\<close> were received, and the aggregated response holds \<open>s\<close> and the thought only.
\<close>

theorem second_buffer_lost_on_disconnect:
  "fst (runSSEEmitter \<lparr>sv_tools = [''f''], sv_aliases = al, sv_extract = \<lambda>t. []\<rparr> m None
     [InChunk (CkText (Some ''a'')), InChunk (CkThought (Some ''t'')), InChunk (CkText (Some ''b'')), InDisconnect]) =
   Some (EndDisconnect, \<lparr>cr_Model = [], cr_Content = [PartText ''a'', PartThinking ''t''], cr_ToolCalls = [], cr_StopReason = StopUnknown\<rparr>)"
  by (simp add: sse_eval)

end
