(* ===== verification/AnthropicRender.thy ===== *)
theory AnthropicRender
  imports AnthropicSse
begin

text \<open>
  Rendering of a finished response on the Anthropic surface: the JSON message (\<open>chatResponseToMessage\<close>, render.go) and the synthetic
  stream that carries the same response to a client that asked for a stream (\<open>runSyntheticSSEFromResponse\<close>, sse.go). Here
  the input of a tool call may be a nil map, \<open>None\<close>, which Go marshals as \<open>null\<close>.
\<close>

section \<open>Data\<close>

record ToolUsePart =
  tu_ID :: string
  tu_Name :: string
  tu_Input :: "toolArgs option"

datatype respPart = RespText string | RespThinking string | RespToolUse "ToolUsePart option" | RespOther

record finishedResponse =
  fr_Model :: string
  fr_Content :: "respPart list"
  fr_StopReason :: StopReason

datatype contentBlock = BlockText string | BlockThinking string | BlockToolUse string string toolArgs

record anthropicMessage =
  am_Model :: string
  am_Content :: "contentBlock list"
  am_StopReason :: "string option"

section \<open>The JSON message\<close>

definition messageModel :: "finishedResponse option \<Rightarrow> string \<Rightarrow> string" where
  "messageModel resp requested = (case resp of Some r \<Rightarrow> if requested = [] then fr_Model r else requested | None \<Rightarrow> requested)"

fun messageParts :: "respPart list \<Rightarrow> contentBlock list" where
  "messageParts [] = []"
| "messageParts (RespText t # ps) = BlockText t # messageParts ps"
| "messageParts (RespThinking t # ps) = BlockThinking t # messageParts ps"
| "messageParts (RespToolUse (Some tu) # ps) =
     BlockToolUse (tu_ID tu) (tu_Name tu) (case tu_Input tu of None \<Rightarrow> [] | Some input \<Rightarrow> input) # messageParts ps"
| "messageParts (RespToolUse None # ps) = messageParts ps"
| "messageParts (RespOther # ps) = messageParts ps"

definition hasToolUse :: "respPart list \<Rightarrow> bool" where
  "hasToolUse ps \<longleftrightarrow> (\<exists>p \<in> set ps. case p of RespToolUse (Some tu) \<Rightarrow> True | _ \<Rightarrow> False)"

definition renderStop :: "finishedResponse \<Rightarrow> string option" where
  "renderStop r = (if hasToolUse (fr_Content r) then Some ''tool_use'' else mapStopReason (fr_StopReason r))"

definition chatResponseToMessage :: "finishedResponse option \<Rightarrow> string \<Rightarrow> anthropicMessage" where
  "chatResponseToMessage resp requested =
     (let content = (case resp of Some r \<Rightarrow> messageParts (fr_Content r) | None \<Rightarrow> [])
      in \<lparr>am_Model = messageModel resp requested,
          am_Content = (if content = [] then [BlockText []] else content),
          am_StopReason = (case resp of Some r \<Rightarrow> renderStop r | None \<Rightarrow> None)\<rparr>)"

section \<open>The synthetic stream\<close>

text \<open>\<open>json.Marshal\<close> of the input.\<close>

definition marshalInput :: "toolArgs option \<Rightarrow> blockDelta" where
  "marshalInput input = (case input of None \<Rightarrow> InputJSONNull | Some args \<Rightarrow> InputJSONDelta args)"

definition writeBlock :: "nat \<Rightarrow> blockHeader \<Rightarrow> blockDelta \<Rightarrow> sseMethod" where
  "writeBlock index header d = andThen (writeEvent (ContentBlockStart index header))
     (andThen (writeEvent (ContentBlockDelta index d)) (writeEvent (ContentBlockStop index)))"

text \<open>The loop over the parts, with the index of the next block; at its end an empty response gets one empty text block.\<close>

fun syntheticParts :: "nat \<Rightarrow> respPart list \<Rightarrow> sseMethod" where
  "syntheticParts index [] = (if index = 0
     then andThen (writeEvent (ContentBlockStart 0 TextHeader)) (writeEvent (ContentBlockStop 0)) else skip)"
| "syntheticParts index (RespText t # ps) = andThen (writeBlock index TextHeader (TextDelta t)) (syntheticParts (index + 1) ps)"
| "syntheticParts index (RespThinking t # ps) =
     andThen (writeBlock index ThinkingHeader (ThinkingDelta t)) (syntheticParts (index + 1) ps)"
| "syntheticParts index (RespToolUse (Some tu) # ps) =
     andThen (writeBlock index (ToolUseHeader (tu_ID tu) (tu_Name tu)) (marshalInput (tu_Input tu))) (syntheticParts (index + 1) ps)"
| "syntheticParts index (RespToolUse None # ps) = syntheticParts index ps"
| "syntheticParts index (RespOther # ps) = syntheticParts index ps"

definition runSyntheticSSEFromResponse :: "finishedResponse option \<Rightarrow> string \<Rightarrow> nat option \<Rightarrow> bool \<times> sseEmitter" where
  "runSyntheticSSEFromResponse resp requested writes =
     andThen (writeEvent (MessageStart (messageModel resp requested)))
       (andThen (case resp of Some r \<Rightarrow> syntheticParts 0 (fr_Content r) | None \<Rightarrow> skip)
         (andThen (writeEvent (MessageDelta (case resp of Some r \<Rightarrow> renderStop r | None \<Rightarrow> None))) (writeEvent MessageStop)))
     (newEmitter writes)"

section \<open>What a client assembles\<close>

text \<open>
  The client of the stream: it opens a block at a start, appends a delta to the block its index names (\<open>None\<close> if the delta does
  not fit) and takes the stop reason of the message delta.
\<close>

fun emptyBlock :: "blockHeader \<Rightarrow> contentBlock" where
  "emptyBlock TextHeader = BlockText []"
| "emptyBlock ThinkingHeader = BlockThinking []"
| "emptyBlock (ToolUseHeader i n) = BlockToolUse i n []"

fun addDelta :: "contentBlock \<Rightarrow> blockDelta \<Rightarrow> contentBlock option" where
  "addDelta (BlockText s) (TextDelta t) = Some (BlockText (s @ t))"
| "addDelta (BlockThinking s) (ThinkingDelta t) = Some (BlockThinking (s @ t))"
| "addDelta (BlockToolUse i n args) (InputJSONDelta args') = Some (BlockToolUse i n args')"
| "addDelta _ _ = None"

fun clientStep :: "anthropicMessage \<Rightarrow> sseEvent \<Rightarrow> anthropicMessage option" where
  "clientStep msg (MessageStart model) = Some (msg\<lparr>am_Model := model\<rparr>)"
| "clientStep msg (ContentBlockStart i h) =
     (if i = length (am_Content msg) then Some (msg\<lparr>am_Content := am_Content msg @ [emptyBlock h]\<rparr>) else None)"
| "clientStep msg (ContentBlockDelta i d) =
     (if i < length (am_Content msg)
      then map_option (\<lambda>b. msg\<lparr>am_Content := (am_Content msg)[i := b]\<rparr>) (addDelta (am_Content msg ! i) d) else None)"
| "clientStep msg (ContentBlockStop i) = (if i < length (am_Content msg) then Some msg else None)"
| "clientStep msg (MessageDelta r) = Some (msg\<lparr>am_StopReason := r\<rparr>)"
| "clientStep msg MessageStop = Some msg"
| "clientStep msg Ping = Some msg"
| "clientStep msg (ErrorEvent e) = None"

fun clientAssemble :: "anthropicMessage \<Rightarrow> sseEvent list \<Rightarrow> anthropicMessage option" where
  "clientAssemble msg [] = Some msg"
| "clientAssemble msg (ev # evs) = (case clientStep msg ev of None \<Rightarrow> None | Some msg' \<Rightarrow> clientAssemble msg' evs)"

definition noMessage :: anthropicMessage where
  "noMessage = \<lparr>am_Model = [], am_Content = [], am_StopReason = None\<rparr>"

lemma clientAssemble_append:
  "clientAssemble msg (evs @ evs') = (case clientAssemble msg evs of None \<Rightarrow> None | Some msg' \<Rightarrow> clientAssemble msg' evs')"
  by (induction evs arbitrary: msg) (auto split: option.splits)

section \<open>With a client that stays\<close>

text \<open>A method that writes \<open>evs\<close>, and nothing else, when no write fails.\<close>

definition writes :: "sseMethod \<Rightarrow> sseEvent list \<Rightarrow> bool" where
  "writes f evs \<longleftrightarrow> (\<forall>e. em_writes e = None \<longrightarrow> f e = (False, e\<lparr>em_out := em_out e @ evs\<rparr>))"

lemma writes_event: "writes (writeEvent ev) [ev]"
  by (simp add: writes_def writeEvent_def)

lemma writes_skip: "writes skip []"
  by (simp add: writes_def skip_def)

lemma writes_andThen: "writes f evs \<Longrightarrow> writes g evs' \<Longrightarrow> writes (andThen f g) (evs @ evs')"
  by (simp add: writes_def andThen_def)

lemmas writes_intros = writes_event writes_skip writes_andThen

definition blockEvents :: "nat \<Rightarrow> blockHeader \<Rightarrow> blockDelta \<Rightarrow> sseEvent list" where
  "blockEvents i h d = [ContentBlockStart i h, ContentBlockDelta i d, ContentBlockStop i]"

lemma writes_block: "writes (writeBlock i h d) (blockEvents i h d)"
  using writes_andThen [OF writes_event writes_andThen [OF writes_event writes_event]]
  by (simp add: writeBlock_def blockEvents_def)

fun partEvents :: "nat \<Rightarrow> respPart list \<Rightarrow> sseEvent list" where
  "partEvents i [] = (if i = 0 then [ContentBlockStart 0 TextHeader, ContentBlockStop 0] else [])"
| "partEvents i (RespText t # ps) = blockEvents i TextHeader (TextDelta t) @ partEvents (i + 1) ps"
| "partEvents i (RespThinking t # ps) = blockEvents i ThinkingHeader (ThinkingDelta t) @ partEvents (i + 1) ps"
| "partEvents i (RespToolUse (Some tu) # ps) =
     blockEvents i (ToolUseHeader (tu_ID tu) (tu_Name tu)) (marshalInput (tu_Input tu)) @ partEvents (i + 1) ps"
| "partEvents i (RespToolUse None # ps) = partEvents i ps"
| "partEvents i (RespOther # ps) = partEvents i ps"

lemma writes_parts: "writes (syntheticParts i ps) (partEvents i ps)"
proof (induction i ps rule: partEvents.induct)
  case (1 i)
  show ?case using writes_andThen [OF writes_event writes_event, of "ContentBlockStart 0 TextHeader" "ContentBlockStop 0"]
    by (simp add: writes_skip)
qed (simp_all add: writes_andThen writes_block del: One_nat_def)

text \<open>The client adds each block whole.\<close>

fun nonNull :: "respPart \<Rightarrow> bool" where
  "nonNull (RespToolUse (Some tu)) \<longleftrightarrow> tu_Input tu \<noteq> None"
| "nonNull p \<longleftrightarrow> True"

lemma client_block:
  assumes "addDelta (emptyBlock h) d = Some b"
  shows "clientAssemble msg (blockEvents (length (am_Content msg)) h d @ evs) = clientAssemble (msg\<lparr>am_Content := am_Content msg @ [b]\<rparr>) evs"
  using assms by (simp add: blockEvents_def nth_append)

lemma client_parts: "\<forall>p \<in> set ps. nonNull p \<Longrightarrow>
   clientAssemble msg (partEvents (length (am_Content msg)) ps @ evs) =
   clientAssemble (msg\<lparr>am_Content := (let c = am_Content msg @ messageParts ps in if c = [] then [BlockText []] else c)\<rparr>) evs"
proof (induction ps arbitrary: msg rule: messageParts.induct)
  case (2 t ps)
  then show ?case using client_block [of TextHeader "TextDelta t" "BlockText t" msg "partEvents (Suc (length (am_Content msg))) ps @ evs"]
      2(1) [of "msg\<lparr>am_Content := am_Content msg @ [BlockText t]\<rparr>"] by simp
next
  case (3 t ps)
  then show ?case using client_block [of ThinkingHeader "ThinkingDelta t" "BlockThinking t" msg "partEvents (Suc (length (am_Content msg))) ps @ evs"]
      3(1) [of "msg\<lparr>am_Content := am_Content msg @ [BlockThinking t]\<rparr>"] by simp
next
  case (4 tu ps)
  then obtain args where args: "tu_Input tu = Some args" by auto
  let ?b = "BlockToolUse (tu_ID tu) (tu_Name tu) args"
  show ?case using 4(2) args client_block [of "ToolUseHeader (tu_ID tu) (tu_Name tu)" "InputJSONDelta args" ?b msg "partEvents (Suc (length (am_Content msg))) ps @ evs"]
      4(1) [of "msg\<lparr>am_Content := am_Content msg @ [?b]\<rparr>"] by (simp add: marshalInput_def)
qed (simp_all add: Let_def)

section \<open>Properties\<close>

text \<open>
  C25. A response rendered as a synthetic stream reaches the client as the message the non-streaming path renders: assembling the
  events gives the same model, blocks and stop reason, provided no tool call of the response has a nil input map.
\<close>

theorem synthetic_stream_equals_message:
  assumes "\<forall>p \<in> set (fr_Content r). nonNull p"
  shows "\<not> fst (runSyntheticSSEFromResponse (Some r) requested None) \<and>
    clientAssemble noMessage (em_out (snd (runSyntheticSSEFromResponse (Some r) requested None))) = Some (chatResponseToMessage (Some r) requested)"
proof -
  let ?evs = "[MessageStart (messageModel (Some r) requested)] @ (partEvents 0 (fr_Content r) @ ([MessageDelta (renderStop r)] @ [MessageStop]))"
  have w: "runSyntheticSSEFromResponse (Some r) requested None = (False, (newEmitter None)\<lparr>em_out := ?evs\<rparr>)"
    using writes_andThen [OF writes_event writes_andThen [OF writes_parts writes_andThen [OF writes_event writes_event]],
        of "MessageStart (messageModel (Some r) requested)" 0 "fr_Content r" "MessageDelta (renderStop r)" MessageStop]
    by (simp add: runSyntheticSSEFromResponse_def writes_def newEmitter_def)
  let ?m = "noMessage\<lparr>am_Model := messageModel (Some r) requested\<rparr>"
  have "clientAssemble ?m (partEvents (length (am_Content ?m)) (fr_Content r) @ [MessageDelta (renderStop r), MessageStop]) =
      Some (chatResponseToMessage (Some r) requested)"
    by (subst client_parts [OF assms]) (simp add: noMessage_def chatResponseToMessage_def Let_def)
  then show ?thesis by (simp add: w noMessage_def)
qed

theorem synthetic_stream_equals_message_witness:
  "clientAssemble noMessage (em_out (snd (runSyntheticSSEFromResponse
     (Some \<lparr>fr_Model = ''m'', fr_Content = [RespText ''a'', RespToolUse (Some \<lparr>tu_ID = ''1'', tu_Name = ''f'', tu_Input = Some []\<rparr>)], fr_StopReason = StopEndTurn\<rparr>)
     [] None))) = Some (chatResponseToMessage
     (Some \<lparr>fr_Model = ''m'', fr_Content = [RespText ''a'', RespToolUse (Some \<lparr>tu_ID = ''1'', tu_Name = ''f'', tu_Input = Some []\<rparr>)], fr_StopReason = StopEndTurn\<rparr>) [])"
  by (rule conjunct2 [OF synthetic_stream_equals_message]) simp

text \<open>
  A tool call without arguments, whose input map is nil, makes the synthetic stream send \<open>null\<close> where the message has \<open>{}\<close> and
  where the live stream sends \<open>{}\<close>: the client cannot assemble the block.
\<close>

theorem synthetic_null_input:
  "clientAssemble noMessage (em_out (snd (runSyntheticSSEFromResponse
     (Some \<lparr>fr_Model = m, fr_Content = [RespToolUse (Some \<lparr>tu_ID = i, tu_Name = n, tu_Input = None\<rparr>)], fr_StopReason = stop\<rparr>) [] None))) = None \<and>
   am_Content (chatResponseToMessage
     (Some \<lparr>fr_Model = m, fr_Content = [RespToolUse (Some \<lparr>tu_ID = i, tu_Name = n, tu_Input = None\<rparr>)], fr_StopReason = stop\<rparr>) []) = [BlockToolUse i n []]"
  by (simp add: runSyntheticSSEFromResponse_def andThen_def writeEvent_def newEmitter_def writeBlock_def marshalInput_def skip_def
      noMessage_def chatResponseToMessage_def)

end
