(* ===== verification/EnginePolicy.thy ===== *)
theory EnginePolicy
  imports AnthropicSse ModelCatalog
begin

text \<open>
  The tool protocol of the engine (internal/engine/tool_protocol.go and tool_result_protocol.go): which turns are guarded, how an
  attempt of the model is classified, and the text tests behind that. Strings are lists of bytes. Values of Go's \<open>any\<close> that come
  from JSON are the datatype \<open>goValue\<close>. The extraction and observation of wrapped calls in text
  (\<open>ExtractToolCallWrappers\<close>, \<open>ObserveToolCallWrappers\<close>) are arguments, the record \<open>wrapperScan\<close>.
\<close>

section \<open>Text\<close>

definition strContains :: "string \<Rightarrow> string \<Rightarrow> bool" where
  "strContains s p \<longleftrightarrow> list_ex (\<lambda>i. take (length p) (drop i s) = p) [0..<Suc (length s)]"

definition strHasPrefix :: "string \<Rightarrow> string \<Rightarrow> bool" where
  "strHasPrefix s p \<longleftrightarrow> take (length p) s = p"

text \<open>\<open>strings.Index\<close>: the first position, or \<open>None\<close> for -1.\<close>

definition strIndex :: "string \<Rightarrow> string \<Rightarrow> nat option" where
  "strIndex s p = find (\<lambda>i. take (length p) (drop i s) = p) [0..<Suc (length s)]"

text \<open>\<open>strings.ToLower\<close> on ASCII letters. The phrases looked for are ASCII; other letters are left as they are.\<close>

definition lowerByte :: "char \<Rightarrow> char" where
  "lowerByte c = (if 65 \<le> (of_char c :: nat) \<and> (of_char c :: nat) \<le> 90 then char_of ((of_char c :: nat) + 32) else c)"

definition ToLower :: "string \<Rightarrow> string" where
  "ToLower s = map lowerByte s"

text \<open>\<open>strings.FieldsFunc\<close>: the maximal runs of bytes that are not separators.\<close>

fun FieldsFunc :: "(char \<Rightarrow> bool) \<Rightarrow> string \<Rightarrow> string \<Rightarrow> string list" where
  "FieldsFunc sep acc [] = (if acc = [] then [] else [acc])"
| "FieldsFunc sep acc (c # s) =
     (if sep c then (if acc = [] then FieldsFunc sep [] s else acc # FieldsFunc sep [] s) else FieldsFunc sep (acc @ [c]) s)"

definition isASCIIWordByte :: "char \<Rightarrow> bool" where
  "isASCIIWordByte c \<longleftrightarrow> (let v = (of_char c :: nat) in 97 \<le> v \<and> v \<le> 122 \<or> 48 \<le> v \<and> v \<le> 57 \<or> v = 95)"

lemma strIndex_Some: "strIndex s p = Some i \<Longrightarrow> i \<le> length s \<and> take (length p) (drop i s) = p \<and> (\<forall>j < i. take (length p) (drop j s) \<noteq> p)"
  unfolding strIndex_def find_Some_iff by (auto simp del: upt_Suc)

lemma strIndex_None: "strIndex s p = None \<longleftrightarrow> (\<forall>i \<le> length s. take (length p) (drop i s) \<noteq> p)"
  unfolding strIndex_def find_None_iff by (auto simp del: upt_Suc simp: less_Suc_eq_le)

text \<open>The loop of \<open>containsStandalonePhrase\<close> from an offset on.\<close>

function phraseLoop :: "string \<Rightarrow> string \<Rightarrow> nat \<Rightarrow> bool" where
  "phraseLoop text phrase offset =
     (if offset < length text
      then case strIndex (drop offset text) phrase of
          None \<Rightarrow> False
        | Some k \<Rightarrow>
            (let index = k + offset; end = index + length phrase;
                 beforeWord = (0 < index \<and> isASCIIWordByte (text ! (index - 1)));
                 afterWord = (end < length text \<and> isASCIIWordByte (text ! end))
             in if \<not> beforeWord \<and> \<not> afterWord then True else phraseLoop text phrase (index + 1))
      else False)"
  by pat_completeness auto
termination
  by (relation "measure (\<lambda>(text, phrase, offset). length text - offset)") auto

declare phraseLoop.simps [simp del]

definition containsStandalonePhrase :: "string \<Rightarrow> string \<Rightarrow> bool" where
  "containsStandalonePhrase text phrase = phraseLoop text phrase 0"

section \<open>Requests\<close>

datatype goValue =
    GNil
  | GBool bool
  | GNum string
  | GStr string
  | GBytes string
  | GArr "goValue list"
  | GMap "(string \<times> goValue) list"
  | GOther nat

record ToolSpec =
  ts_Name :: string
  ts_Parameters :: "(string \<times> goValue) list option"

record ToolChoice =
  ch_Type :: string
  ch_Name :: string

datatype MessageRole = RoleUser | RoleSystem | RoleAssistant | RoleTool

text \<open>Of a content part only its kind matters here, and of a tool result whether its payload is there.\<close>

datatype partKind = KindText | KindImage | KindToolUse | KindToolResult bool | KindThinking

record Message =
  me_Role :: MessageRole
  me_Content :: "partKind list"

record ChatRequest =
  rq_Model :: string
  rq_Messages :: "Message list"
  rq_Tools :: "ToolSpec list"
  rq_ToolChoice :: "ToolChoice option"
  rq_ToolContractVersion :: string
  rq_CallRole :: string

definition toolNames :: "ToolSpec list \<Rightarrow> string list" where
  "toolNames tools = map ts_Name tools"

definition explicitModel :: "ChatRequest \<Rightarrow> bool" where
  "explicitModel req \<longleftrightarrow> rq_Model req \<noteq> [] \<and> rq_Model req \<noteq> ''auto''"

section \<open>The dispatcher tool\<close>

fun schemaRequires :: "goValue option \<Rightarrow> string \<Rightarrow> bool" where
  "schemaRequires (Some (GArr vs)) field = (GStr field \<in> set vs)"
| "schemaRequires _ field = False"

definition hasType :: "(string \<times> goValue) list \<Rightarrow> string \<Rightarrow> bool" where
  "hasType schema t \<longleftrightarrow> gm_get schema ''type'' = Some (GStr t)"

definition isToolCallDispatcherSchema :: "(string \<times> goValue) list option \<Rightarrow> bool" where
  "isToolCallDispatcherSchema parameters =
     (case parameters of None \<Rightarrow> False
      | Some ps \<Rightarrow>
          hasType ps ''object'' \<and>
          (case gm_get ps ''properties'' of
             Some (GMap props) \<Rightarrow>
               (case (gm_get props ''name'', gm_get props ''arguments'') of
                  (Some (GMap nameSchema), Some (GMap argumentsSchema)) \<Rightarrow>
                    hasType nameSchema ''string'' \<and> hasType argumentsSchema ''object'' \<and>
                    schemaRequires (gm_get ps ''required'') ''name'' \<and> schemaRequires (gm_get ps ''required'') ''arguments''
                | _ \<Rightarrow> False)
           | _ \<Rightarrow> False))"

definition findToolCallDispatcher :: "ToolSpec list \<Rightarrow> ToolSpec option" where
  "findToolCallDispatcher tools = find (\<lambda>t. ts_Name t = ''tool_call'' \<and> isToolCallDispatcherSchema (ts_Parameters t)) tools"

section \<open>Policies\<close>

datatype toolProtocolRequirement = ProtocolOptional | ProtocolRequired | ProtocolNamed

record toolProtocolPolicy =
  po_requirement :: toolProtocolRequirement
  po_namedTool :: string
  po_tools :: "ToolSpec list"
  po_contractV1 :: bool

datatype WrapperDisposition = WrapperNone | WrapperDirect | WrapperDispatcherExact | WrapperDispatcherEmbedded | WrapperMalformed

record wrapperScan =
  wx_extract :: "string \<Rightarrow> ToolSpec list \<Rightarrow> ToolCall list"
  wx_observe :: "string \<Rightarrow> ToolSpec list \<Rightarrow> WrapperDisposition"

record attemptObservation =
  ob_Text :: string
  ob_ToolCalls :: "ToolCall list"
  ob_Denials :: "nat option"
  ob_NativeCall :: bool
  ob_BufferBypass :: bool

text \<open>The requirement the tool choice asks for.\<close>

definition choiceRequirement :: "ToolChoice option \<Rightarrow> ToolSpec list \<Rightarrow> toolProtocolRequirement \<times> string" where
  "choiceRequirement choice tools = (case choice of None \<Rightarrow> (ProtocolOptional, [])
     | Some c \<Rightarrow>
         if ch_Type c \<in> {''required'', ''any''} then (ProtocolRequired, [])
         else if ch_Type c \<in> {''tool'', ''function''} \<and> toolOffered (ch_Name c) (toolNames tools) then (ProtocolNamed, ch_Name c)
         else (ProtocolOptional, []))"

fun isToolResult :: "partKind \<Rightarrow> bool" where
  "isToolResult (KindToolResult p) = True"
| "isToolResult k = False"

definition toolProtocolPolicyFor :: "ChatRequest option \<Rightarrow> toolProtocolPolicy \<times> bool" where
  "toolProtocolPolicyFor r = (case r of
       None \<Rightarrow> (\<lparr>po_requirement = ProtocolOptional, po_namedTool = [], po_tools = [], po_contractV1 = False\<rparr>, False)
     | Some req \<Rightarrow>
         (let choice = choiceRequirement (rq_ToolChoice req) (rq_Tools req);
              policy = \<lparr>po_requirement = fst choice, po_namedTool = snd choice, po_tools = rq_Tools req,
                        po_contractV1 = (rq_ToolContractVersion req = ''v1'')\<rparr>
          in if \<not> explicitModel req \<or> rq_Tools req = [] then (policy, False)
             else if map_option ch_Type (rq_ToolChoice req) = Some ''none'' then (policy, False)
             else if rq_Messages req = [] then (policy, False)
             else if me_Role (last (rq_Messages req)) \<noteq> RoleUser then (policy, False)
             else if list_ex isToolResult (me_Content (last (rq_Messages req))) then (policy, False)
             else (policy, True)))"

text \<open>The policy of a tool-result turn is its tools.\<close>

definition toolResultProtocolPolicyFor :: "ChatRequest option \<Rightarrow> ToolSpec list \<times> bool" where
  "toolResultProtocolPolicyFor r = (case r of None \<Rightarrow> ([], False)
     | Some req \<Rightarrow>
         if rq_ToolContractVersion req \<noteq> ''v1'' \<or> \<not> explicitModel req \<or> rq_Messages req = [] then ([], False)
         else (let lst = last (rq_Messages req);
                   hasToolResult = (me_Role lst = RoleTool \<or> list_ex (\<lambda>k. k = KindToolResult True) (me_Content lst))
               in if hasToolResult then (rq_Tools req, True) else ([], False)))"

section \<open>Classification of an attempt\<close>

datatype ToolProtocolReason =
    ReasonNone
  | ReasonActivationFailed
  | ReasonRequiredMissing
  | ReasonNamedMismatch
  | ReasonMalformedWrapper
  | ReasonCapabilityRefusal
  | ReasonBuiltInToolDenied
  | ReasonEmbeddedDispatcherWrapper
  | ReasonToolResultProvenanceRefusal

definition hasWholeResponseToolCallMarker :: "string \<Rightarrow> bool" where
  "hasWholeResponseToolCallMarker text = strHasPrefix (TrimSpace text) (''{'' @ [CHR 0x22] @ ''tool_call'' @ [CHR 0x22])"

definition isHighConfidenceToolCapabilityRefusal :: "string \<Rightarrow> bool" where
  "isHighConfidenceToolCapabilityRefusal text =
     (let n = ToLower (TrimSpace text);
          structuredUnavailable = strHasPrefix n ''toolunavailable:'' \<and> strContains n ''not available in this environment'';
          mentionsSuppliedTools = strContains n ''supplied connector tools'' \<or> strContains n ''requested connector tools''
            \<or> strContains n ''tools you supplied'';
          claimsUnavailable = strContains n ''not actually available'' \<or> strContains n ''not available to me''
            \<or> strContains n (''can'' @ [CHR 0x27] @ ''t execute'') \<or> strContains n ''cannot execute''
      in structuredUnavailable \<or> mentionsSuppliedTools \<and> claimsUnavailable)"

definition matchesPolicy :: "toolProtocolPolicy \<Rightarrow> string \<Rightarrow> bool" where
  "matchesPolicy policy name \<longleftrightarrow> toolOffered name (toolNames (po_tools policy)) \<and>
     (po_requirement policy \<noteq> ProtocolNamed \<or> name = po_namedTool policy)"

text \<open>The names of the calls of an attempt that are candidates: native names resolved, those that do not resolve skipped.\<close>

definition candidateNames :: "toolProtocolPolicy \<Rightarrow> attemptObservation \<Rightarrow> (string, string) gomap \<Rightarrow> string list" where
  "candidateNames policy ob aliases =
     (if ob_NativeCall ob
      then List.map_filter (\<lambda>c. ResolveNativeToolName (tc_Name c) (toolNames (po_tools policy)) aliases) (ob_ToolCalls ob)
      else map tc_Name (ob_ToolCalls ob))"

definition classifyToolProtocolAttempt ::
  "wrapperScan \<Rightarrow> toolProtocolPolicy \<Rightarrow> attemptObservation \<Rightarrow> (string, string) gomap \<Rightarrow> ToolProtocolReason" where
  "classifyToolProtocolAttempt w policy ob aliases =
     (let names = candidateNames policy ob aliases;
          wrapperCalls = wx_extract w (ob_Text ob) (po_tools policy);
          wrapperNames = map tc_Name wrapperCalls;
          hasOfferedCall = list_ex (\<lambda>n. toolOffered n (toolNames (po_tools policy))) (names @ wrapperNames)
      in if ob_BufferBypass ob then ReasonNone
         else if list_ex (matchesPolicy policy) names then ReasonNone
         else if list_ex (matchesPolicy policy) wrapperNames then ReasonNone
         else if po_contractV1 policy \<and>
             (case findToolCallDispatcher (po_tools policy) of None \<Rightarrow> False
              | Some dispatcher \<Rightarrow> po_requirement policy = ProtocolRequired \<or>
                  po_requirement policy = ProtocolNamed \<and> po_namedTool policy = ts_Name dispatcher) \<and>
             wx_observe w (ob_Text ob) (po_tools policy) = WrapperDispatcherEmbedded then ReasonEmbeddedDispatcherWrapper
         else if (case ob_Denials ob of None \<Rightarrow> False | Some n \<Rightarrow> 0 < n) then ReasonBuiltInToolDenied
         else if po_requirement policy = ProtocolNamed \<and> hasOfferedCall then ReasonNamedMismatch
         else if wrapperCalls = [] \<and> hasWholeResponseToolCallMarker (ob_Text ob) then ReasonMalformedWrapper
         else if isHighConfidenceToolCapabilityRefusal (ob_Text ob) then ReasonCapabilityRefusal
         else if po_requirement policy = ProtocolRequired \<or> po_requirement policy = ProtocolNamed then ReasonRequiredMissing
         else ReasonNone)"

definition apostrophe :: string where "apostrophe = [CHR 0x27]"

text \<open>One span of the text with its neighbours.\<close>

definition provenanceTarget :: "string \<Rightarrow> bool" where
  "provenanceTarget span \<longleftrightarrow> strContains span ''tool result'' \<or> strContains span ''transcript'' \<or> strContains span ''tool event''"

definition provenanceClaim :: "string \<Rightarrow> bool" where
  "provenanceClaim span \<longleftrightarrow> strContains span ''pre-scripted'' \<or> strContains span ''prescripted'' \<or> strContains span ''fabricated''
     \<or> strContains span ''not genuine'' \<or> strContains span (''isn'' @ apostrophe @ ''t genuine'') \<or> strContains span ''not a genuine''
     \<or> strContains span ''transcript text'' \<and> strContains span ''embedded''"

definition refusalWindow :: "string list \<Rightarrow> nat \<Rightarrow> string" where
  "refusalWindow spans i = (if 0 < i then spans ! (i - 1) @ '' '' else []) @ spans ! i
     @ (if i + 1 < length spans then '' '' @ spans ! (i + 1) else [])"

definition firstPersonRefusal :: "string \<Rightarrow> bool" where
  "firstPersonRefusal w \<longleftrightarrow> containsStandalonePhrase w ''i cannot use'' \<or> containsStandalonePhrase w (''i can'' @ apostrophe @ ''t use'')
     \<or> containsStandalonePhrase w ''i will not use'' \<or> containsStandalonePhrase w (''i won'' @ apostrophe @ ''t use'')
     \<or> containsStandalonePhrase w ''i refuse to use''"

definition deniesHostEvent :: "string \<Rightarrow> bool" where
  "deniesHostEvent w \<longleftrightarrow> strContains w ''no live tool event'' \<or> strContains w ''no host tool event''
     \<or> strContains w ''tool event did not occur'' \<or> strContains w ''tool event never occurred''"

definition spanSeparator :: "char \<Rightarrow> bool" where
  "spanSeparator c \<longleftrightarrow> c \<in> {CHR ''.'', CHR ''!'', CHR ''?'', CHR 0x0A, CHR 0x0D}"

definition isHighConfidenceToolResultProvenanceRefusal :: "string \<Rightarrow> bool" where
  "isHighConfidenceToolResultProvenanceRefusal text =
     (let spans = FieldsFunc spanSeparator [] (ToLower (TrimSpace text))
      in list_ex (\<lambda>i. provenanceTarget (spans ! i) \<and> provenanceClaim (spans ! i) \<and>
           (firstPersonRefusal (refusalWindow spans i) \<or> deniesHostEvent (refusalWindow spans i))) [0..<length spans])"

definition toolResultAttemptNeedsCorrection :: "wrapperScan \<Rightarrow> ToolSpec list \<Rightarrow> attemptObservation \<Rightarrow> bool" where
  "toolResultAttemptNeedsCorrection w tools ob =
     (if ob_BufferBypass ob \<or> ob_NativeCall ob \<or> ob_ToolCalls ob \<noteq> [] then False
      else if wx_observe w (ob_Text ob) tools \<noteq> WrapperNone then False
      else isHighConfidenceToolResultProvenanceRefusal (ob_Text ob))"

definition correctedToolResultResponseIsFinalProse :: "wrapperScan \<Rightarrow> ToolSpec list \<Rightarrow> attemptObservation \<Rightarrow> bool" where
  "correctedToolResultResponseIsFinalProse w tools ob =
     (if ob_BufferBypass ob \<or> ob_NativeCall ob \<or> ob_ToolCalls ob \<noteq> [] then False
      else if TrimSpace (ob_Text ob) = [] \<or> isHighConfidenceToolResultProvenanceRefusal (ob_Text ob) then False
      else wx_observe w (ob_Text ob) tools = WrapperNone)"

text \<open>Which corrective prompt is sent; the texts are constants but for the named tool.\<close>

datatype correctivePrompt = CorrectOptional | CorrectContractV1 | CorrectRequired | CorrectNamed string | CorrectToolResult

definition correctiveBlocks :: "toolProtocolPolicy \<Rightarrow> correctivePrompt" where
  "correctiveBlocks policy =
     (if po_contractV1 policy \<and> po_requirement policy \<in> {ProtocolRequired, ProtocolNamed} then CorrectContractV1
      else case po_requirement policy of
          ProtocolRequired \<Rightarrow> CorrectRequired
        | ProtocolNamed \<Rightarrow> if toolOffered (po_namedTool policy) (toolNames (po_tools policy)) then CorrectNamed (po_namedTool policy) else CorrectOptional
        | ProtocolOptional \<Rightarrow> CorrectOptional)"

section \<open>Telemetry\<close>

datatype ToolProtocolOutcome = OutcomeFirstAttempt | OutcomeCorrected | OutcomeFailed | OutcomeBufferBypass | OutcomeFallbackFirstAttempt

datatype ToolProtocolContractVersion = ToolProtocolContractNone | ToolProtocolContractV1

datatype ToolProtocolCallRole =
    CallRoleUnknown | CallRolePrimary | CallRolePostTool | CallRoleCorrection | CallRoleTitle | CallRoleCompression | CallRoleAuxiliary

datatype ToolProtocolModelSelection = ModelAuto | ModelExplicit

datatype ToolProtocolToolPolicy = PolicyNone | PolicyOptional | PolicyRequired | PolicyNamed

datatype ToolProtocolCorrectionKind = CorrectionNone | CorrectionInitialToolProtocol | CorrectionPostToolProvenance

record ToolProtocolEvent =
  ev_Model :: string
  ev_ContractVersion :: ToolProtocolContractVersion
  ev_CallRole :: ToolProtocolCallRole
  ev_ModelSelection :: ToolProtocolModelSelection
  ev_ToolPolicy :: ToolProtocolToolPolicy
  ev_WrapperDisposition :: WrapperDisposition
  ev_ToolResultPresent :: bool
  ev_CorrectionKind :: ToolProtocolCorrectionKind
  ev_Reason :: ToolProtocolReason
  ev_Outcome :: ToolProtocolOutcome
  ev_CorrectiveAttempts :: nat
  ev_RecommendAuto :: bool

definition callRoleOf :: "string \<Rightarrow> ToolProtocolCallRole" where
  "callRoleOf r = (if r = ''primary'' then CallRolePrimary else if r = ''post_tool'' then CallRolePostTool
     else if r = ''correction'' then CallRoleCorrection else if r = ''title'' then CallRoleTitle
     else if r = ''compression'' then CallRoleCompression else if r = ''auxiliary'' then CallRoleAuxiliary else CallRoleUnknown)"

definition toolPolicyOf :: "ChatRequest \<Rightarrow> ToolProtocolToolPolicy" where
  "toolPolicyOf req =
     (if rq_Tools req = [] then PolicyNone
      else case rq_ToolChoice req of None \<Rightarrow> PolicyOptional
        | Some c \<Rightarrow>
            if ch_Type c = ''none'' then PolicyNone
            else if ch_Type c \<in> {''required'', ''any''} then PolicyRequired
            else if ch_Type c \<in> {''tool'', ''function''} \<and> toolOffered (ch_Name c) (toolNames (rq_Tools req)) then PolicyNamed
            else PolicyOptional)"

definition enrichToolProtocolEvent :: "ChatRequest option \<Rightarrow> ToolProtocolEvent \<Rightarrow> ToolProtocolEvent" where
  "enrichToolProtocolEvent r event =
     (let e1 = event\<lparr>ev_ContractVersion := ToolProtocolContractNone, ev_CallRole := CallRoleUnknown, ev_ModelSelection := ModelAuto,
                     ev_ToolPolicy := PolicyNone, ev_CorrectionKind := CorrectionNone\<rparr>
      in case r of None \<Rightarrow> e1
         | Some req \<Rightarrow>
             e1\<lparr>ev_ContractVersion := (if rq_ToolContractVersion req = ''v1'' then ToolProtocolContractV1 else ToolProtocolContractNone),
                ev_CallRole := callRoleOf (rq_CallRole req),
                ev_ModelSelection := (if explicitModel req then ModelExplicit else ModelAuto),
                ev_ToolPolicy := toolPolicyOf req,
                ev_ToolResultPresent := (ev_ToolResultPresent event \<or>
                  list_ex (\<lambda>m. me_Role m = RoleTool \<or> list_ex (\<lambda>k. k = KindToolResult True) (me_Content m)) (rq_Messages req)),
                ev_CorrectionKind := (if snd (toolResultProtocolPolicyFor r) then CorrectionPostToolProvenance
                  else if snd (toolProtocolPolicyFor r) then CorrectionInitialToolProtocol else CorrectionNone)\<rparr>)"

section \<open>Lemmas\<close>

section \<open>Lemmas\<close>

text \<open>A place where the phrase stands alone.\<close>

definition standaloneAt :: "string \<Rightarrow> string \<Rightarrow> nat \<Rightarrow> bool" where
  "standaloneAt t phrase i \<longleftrightarrow> take (length phrase) (drop i t) = phrase \<and>
     \<not> (0 < i \<and> isASCIIWordByte (t ! (i - 1))) \<and>
     \<not> (i + length phrase < length t \<and> isASCIIWordByte (t ! (i + length phrase)))"

lemma phraseLoop_spec:
  "phrase \<noteq> [] \<Longrightarrow> phraseLoop t phrase offset \<longleftrightarrow> (\<exists>i \<ge> offset. standaloneAt t phrase i)"
proof (induction t phrase offset rule: phraseLoop.induct)
  case (1 t phrase offset)
  have small: "i < length t" if "standaloneAt t phrase i" for i
    using that 1(2) by (auto simp: standaloneAt_def intro: ccontr)
  show ?case
  proof (cases "offset < length t \<and> strIndex (drop offset t) phrase \<noteq> None")
    case False
    have none: "\<not> standaloneAt t phrase i" if "offset \<le> i" for i
    proof
      assume s: "standaloneAt t phrase i"
      then have i: "i < length t" by (rule small)
      then have "strIndex (drop offset t) phrase = None" using False that by linarith
      then have "take (length phrase) (drop (i - offset) (drop offset t)) \<noteq> phrase"
        using i that unfolding strIndex_None by (metis diff_le_mono length_drop less_imp_le)
      then show False using s that by (simp add: standaloneAt_def)
    qed
    then show ?thesis using False by (subst phraseLoop.simps) auto
  next
    case True
    then obtain k where k: "strIndex (drop offset t) phrase = Some k" by auto
    have first: "take (length phrase) (drop (k + offset) t) = phrase"
      "\<And>j. j < k \<Longrightarrow> take (length phrase) (drop (j + offset) t) \<noteq> phrase"
      using strIndex_Some [OF k] by (simp_all add: add.commute)
    have skip: "(\<exists>i \<ge> offset. standaloneAt t phrase i) \<longleftrightarrow>
        standaloneAt t phrase (k + offset) \<or> (\<exists>i \<ge> k + offset + 1. standaloneAt t phrase i)" (is "?l \<longleftrightarrow> ?r")
    proof
      assume ?l
      then obtain i where i: "offset \<le> i" "standaloneAt t phrase i" by blast
      then have "\<not> i - offset < k" using first(2) [of "i - offset"] by (auto simp: standaloneAt_def)
      then show ?r using i by (cases "i = k + offset") (auto intro: exI [of _ i])
    next
      assume ?r
      then show ?l using le_add2 [of offset k] by (meson add_leD1 le_trans)
    qed
    show ?thesis
    proof (cases "standaloneAt t phrase (k + offset)")
      case True': True
      then show ?thesis using True k skip by (subst phraseLoop.simps) (auto simp: standaloneAt_def Let_def)
    next
      case False
      have rec: "phraseLoop t phrase offset = phraseLoop t phrase (k + offset + 1)"
        using True k False first(1) by (subst phraseLoop.simps) (auto simp: standaloneAt_def Let_def)
      have "phraseLoop t phrase (k + offset + 1) \<longleftrightarrow> (\<exists>i \<ge> k + offset + 1. standaloneAt t phrase i)"
        using 1(1) [OF _ k refl refl refl refl] 1(2) True False first(1) by (auto simp: standaloneAt_def)
      then show ?thesis using rec skip False by simp
    qed
  qed
qed

lemma containsStandalonePhrase_spec:
  "phrase \<noteq> [] \<Longrightarrow> containsStandalonePhrase t phrase \<longleftrightarrow> (\<exists>i. standaloneAt t phrase i)"
  by (simp add: containsStandalonePhrase_def phraseLoop_spec)

text \<open>An unguarded requirement accepts everything but a refusal, a malformed wrapper or a denied built-in.\<close>

lemma classify_required:
  assumes "classifyToolProtocolAttempt w policy ob aliases = ReasonNone"
    and "po_requirement policy \<noteq> ProtocolOptional" and "\<not> ob_BufferBypass ob"
  shows "\<exists>name \<in> set (candidateNames policy ob aliases) \<union> set (map tc_Name (wx_extract w (ob_Text ob) (po_tools policy))). matchesPolicy policy name"
proof (rule ccontr)
  assume no: "\<not> ?thesis"
  have r: "po_requirement policy = ProtocolRequired \<or> po_requirement policy = ProtocolNamed"
    using assms(2) by (cases "po_requirement policy") auto
  have "\<not> list_ex (matchesPolicy policy) (candidateNames policy ob aliases)"
    and "\<not> list_ex (matchesPolicy policy) (map tc_Name (wx_extract w (ob_Text ob) (po_tools policy)))"
    using no by (auto simp: list_ex_iff)
  then show False using assms(1,3) r by (auto simp: classifyToolProtocolAttempt_def Let_def split: if_splits)
qed

lemma policy_guarded:
  "toolProtocolPolicyFor r = (policy, True) \<Longrightarrow> po_tools policy \<noteq> [] \<and> (\<exists>req. r = Some req \<and> explicitModel req \<and> po_tools policy = rq_Tools req)"
  by (auto simp: toolProtocolPolicyFor_def Let_def split: option.splits if_splits)

lemma policies_exclusive: "snd (toolProtocolPolicyFor r) \<Longrightarrow> snd (toolResultProtocolPolicyFor r) \<Longrightarrow> False"
proof -
  assume a: "snd (toolProtocolPolicyFor r)" "snd (toolResultProtocolPolicyFor r)"
  then obtain req where r: "r = Some req" by (auto simp: toolProtocolPolicyFor_def split: option.splits)
  let ?last = "last (rq_Messages req)"
  have "me_Role ?last = RoleUser" "\<not> list_ex isToolResult (me_Content ?last)"
    using a(1) r by (auto simp: toolProtocolPolicyFor_def Let_def split: if_splits)
  moreover have "me_Role ?last = RoleTool \<or> list_ex (\<lambda>k. k = KindToolResult True) (me_Content ?last)"
    using a(2) r by (auto simp: toolResultProtocolPolicyFor_def Let_def split: if_splits)
  ultimately show False by (auto simp: list_ex_iff)
qed

end
