(* ===== verification/EnginePreflight.thy ===== *)
theory EnginePreflight
  imports EnginePolicy
begin

text \<open>
  The bounded capture of an attempt (internal/engine/preflight.go, idle.go): how many bytes a chunk retains, the range loop with its
  idle timeout, the capture that ends with the stream, with a decisive native call or with the first breach of a bound, and
  the two streams that hand the captured chunks on. A source is the list of what its consumer observes, chunk by chunk, and the
  result it has once closed; chunks are values, so cloning is the identity. Go values from JSON have no cycles, which
  the walker's set of visited pointers is there for.
\<close>

section \<open>Retained bytes\<close>

definition maxToolProtocolPreflightBytes :: int where "maxToolProtocolPreflightBytes = 1048576"
definition maxToolProtocolPreflightChunks :: nat where "maxToolProtocolPreflightChunks = 4096"
definition maxRetainedValueDepth :: nat where "maxRetainedValueDepth = 64"
definition retainedMapBaseBytes :: int where "retainedMapBaseBytes = 64"
definition retainedMapEntryBytes :: int where "retainedMapEntryBytes = 64"
definition retainedSliceHeaderBytes :: int where "retainedSliceHeaderBytes = 24"
definition retainedInterfaceBytes :: int where "retainedInterfaceBytes = 16"

record retainedByteWalker =
  rw_limit :: int
  rw_used :: int
  rw_exceeded :: bool

text \<open>The limit is at most \<open>maxToolProtocolPreflightBytes\<close>, far from the largest \<open>int\<close>.\<close>

definition markExceeded :: "retainedByteWalker \<Rightarrow> retainedByteWalker" where
  "markExceeded w = w\<lparr>rw_exceeded := True, rw_used := rw_limit w + 1\<rparr>"

definition rw_add :: "int \<Rightarrow> retainedByteWalker \<Rightarrow> retainedByteWalker" where
  "rw_add v w = (if rw_exceeded w then w
     else if v < 0 \<or> v > rw_limit w \<or> rw_used w > rw_limit w - v then markExceeded w
     else w\<lparr>rw_used := rw_used w + v\<rparr>)"

definition addProduct :: "int \<Rightarrow> int \<Rightarrow> retainedByteWalker \<Rightarrow> retainedByteWalker" where
  "addProduct n sz w = (if rw_exceeded w then w
     else if n < 0 \<or> sz < 0 \<or> (sz \<noteq> 0 \<and> n > (rw_limit w - rw_used w) div sz) then markExceeded w
     else rw_add (n * sz) w)"

definition len :: "'a list \<Rightarrow> int" where "len xs = int (length xs)"

fun walkValue :: "nat \<Rightarrow> goValue \<Rightarrow> retainedByteWalker \<Rightarrow> retainedByteWalker"
  and walkItems :: "nat \<Rightarrow> goValue list \<Rightarrow> retainedByteWalker \<Rightarrow> retainedByteWalker"
  and walkMembers :: "nat \<Rightarrow> (string \<times> goValue) list \<Rightarrow> retainedByteWalker \<Rightarrow> retainedByteWalker" where
  "walkValue depth v w =
     (if rw_exceeded w then w
      else if depth > maxRetainedValueDepth then markExceeded w
      else case v of
          GNil \<Rightarrow> w
        | GStr s \<Rightarrow> rw_add (len s) w
        | GBytes s \<Rightarrow> rw_add (len s) (rw_add retainedSliceHeaderBytes w)
        | GMap ms \<Rightarrow>
            (let w1 = addProduct (len ms) retainedMapEntryBytes (rw_add retainedMapBaseBytes w)
             in if rw_exceeded w1 then w1 else walkMembers (depth + 1) ms w1)
        | GArr vs \<Rightarrow>
            (let w1 = addProduct (len vs) retainedInterfaceBytes (rw_add retainedSliceHeaderBytes w)
             in if rw_exceeded w1 then w1 else walkItems (depth + 1) vs w1)
        | GBool b \<Rightarrow> rw_add 1 w
        | GNum n \<Rightarrow> rw_add 8 w
        | GOther n \<Rightarrow> rw_add (int n) w)"
| "walkItems depth [] w = w"
| "walkItems depth (v # vs) w = (let w1 = walkValue depth v w in if rw_exceeded w1 then w1 else walkItems depth vs w1)"
| "walkMembers depth [] w = w"
| "walkMembers depth ((k, v) # ms) w =
     (let w1 = walkValue depth v (rw_add (len k) w) in if rw_exceeded w1 then w1 else walkMembers depth ms w1)"

text \<open>A tool call's arguments as a Go value; \<open>dec\<close> decodes the text of a member's value.\<close>

definition argsValue :: "(string \<Rightarrow> goValue) \<Rightarrow> toolArgs \<Rightarrow> goValue" where
  "argsValue dec args = GMap (map (\<lambda>(k, t). (k, dec t)) args)"

definition retainedChunkBytesWithinBudget :: "(string \<Rightarrow> goValue) \<Rightarrow> canonChunk \<Rightarrow> int \<Rightarrow> int \<times> bool" where
  "retainedChunkBytesWithinBudget dec c budget =
     (let w = \<lparr>rw_limit = budget, rw_used = 0, rw_exceeded = False\<rparr>
      in if budget < 0 then (rw_used (markExceeded w), True)
         else let w1 = (case c of
                CkText (Some s) \<Rightarrow> rw_add (len s) w
              | CkThought (Some s) \<Rightarrow> rw_add (len s) w
              | CkToolCall (Some tc) \<Rightarrow> walkValue 0 (argsValue dec (tc_Arguments tc)) (rw_add (len (tc_Name tc)) (rw_add (len (tc_ID tc)) w))
              | CkPlan (Some s) \<Rightarrow> rw_add (len s) w
              | _ \<Rightarrow> w)
              in (rw_used w1, rw_exceeded w1))"

definition saturatingRetainedBytes :: "int \<Rightarrow> int \<Rightarrow> int \<Rightarrow> int \<times> bool" where
  "saturatingRetainedBytes used addition limit =
     (if limit < 0 \<or> used < 0 \<or> addition < 0 \<or> used > limit \<or> addition > limit \<or> used > limit - addition
      then (if 0 \<le> limit then (limit + 1, True) else (limit, True))
      else (used + addition, False))"

section \<open>The range loop\<close>

text \<open>What the loop's select sees next. \<open>InEnd\<close> is the closed channel.\<close>

datatype streamIn = SChunk canonChunk | SIdle | SCtx | SEnd

datatype rangeEnd = RangeClosed | RangeIdle | RangeCtx | RangeStopped

text \<open>
  \<open>None\<close> is a loop that still waits. With the timeout disabled there is no timer to fire. The function returns what was left of the
  source when it stopped. The handler \<open>f\<close> returns whether it failed.
\<close>

fun RangeChunksWithIdleTimeout ::
  "bool \<Rightarrow> (canonChunk \<Rightarrow> 's \<Rightarrow> bool \<times> 's) \<Rightarrow> streamIn list \<Rightarrow> 's \<Rightarrow> (rangeEnd \<times> streamIn list) option \<times> 's" where
  "RangeChunksWithIdleTimeout idle f [] s = (None, s)"
| "RangeChunksWithIdleTimeout idle f (SCtx # xs) s = (Some (RangeCtx, xs), s)"
| "RangeChunksWithIdleTimeout idle f (SIdle # xs) s =
     (if idle then (Some (RangeIdle, xs), s) else RangeChunksWithIdleTimeout idle f xs s)"
| "RangeChunksWithIdleTimeout idle f (SEnd # xs) s = (Some (RangeClosed, xs), s)"
| "RangeChunksWithIdleTimeout idle f (SChunk c # xs) s = (case f c s of
       (True, s') \<Rightarrow> (Some (RangeStopped, xs), s')
     | (False, s') \<Rightarrow> RangeChunksWithIdleTimeout idle f xs s')"

section \<open>Sources and the streams that replay them\<close>

type_synonym sourceResult = "acp_err + FinalResult"

record source =
  so_in :: "streamIn list"
  so_result :: sourceResult

datatype engineStream =
    RawStream source
  | ReplayStream "canonChunk list" FinalResult
  | PrefixLiveStream "canonChunk list" "canonChunk option" source
  | EmptyStream

section \<open>The capture\<close>

record captureState =
  ca_prefix :: "canonChunk list"
  ca_buffer :: string
  ca_toolCalls :: "ToolCall list"
  ca_native :: bool
  ca_bypass :: bool
  ca_boundary :: "canonChunk option"
  ca_retained :: int
  ca_count :: nat

definition capture_init :: captureState where
  "capture_init = \<lparr>ca_prefix = [], ca_buffer = [], ca_toolCalls = [], ca_native = False, ca_bypass = False,
     ca_boundary = None, ca_retained = 0, ca_count = 0\<rparr>"

definition nativeCallSatisfiesPolicy :: "string \<Rightarrow> toolProtocolPolicy \<Rightarrow> (string, string) gomap \<Rightarrow> bool" where
  "nativeCallSatisfiesPolicy name policy aliases =
     (if po_tools policy = [] then False
      else case ResolveNativeToolName name (toolNames (po_tools policy)) aliases of
          None \<Rightarrow> False
        | Some resolved \<Rightarrow>
            if \<not> toolOffered resolved (toolNames (po_tools policy)) then False
            else po_requirement policy \<noteq> ProtocolNamed \<or> resolved = po_namedTool policy)"

definition captureChunk ::
  "(string \<Rightarrow> goValue) \<Rightarrow> toolProtocolPolicy \<Rightarrow> (string, string) gomap \<Rightarrow> canonChunk \<Rightarrow> captureState \<Rightarrow> bool \<times> captureState" where
  "captureChunk dec policy aliases c s =
     (let n = ca_count s + 1;
          chunk = retainedChunkBytesWithinBudget dec c (maxToolProtocolPreflightBytes - ca_retained s);
          retained = saturatingRetainedBytes (ca_retained s) (fst chunk) maxToolProtocolPreflightBytes;
          s1 = s\<lparr>ca_count := n, ca_retained := fst retained\<rparr>
      in if n > maxToolProtocolPreflightChunks \<or> snd chunk \<or> snd retained
         then (True, s1\<lparr>ca_bypass := True, ca_boundary := Some c\<rparr>)
         else let s2 = s1\<lparr>ca_prefix := ca_prefix s1 @ [c]\<rparr>
              in case c of
                  CkText (Some t) \<Rightarrow> (False, s2\<lparr>ca_buffer := ca_buffer s2 @ t\<rparr>)
                | CkToolCall (Some tc) \<Rightarrow>
                    (nativeCallSatisfiesPolicy (tc_Name tc) policy aliases,
                     s2\<lparr>ca_native := True, ca_toolCalls := ca_toolCalls s2 @ [tc]\<rparr>)
                | _ \<Rightarrow> (False, s2))"

definition observationOf :: "captureState \<Rightarrow> nat option \<Rightarrow> attemptObservation" where
  "observationOf s denials = \<lparr>ob_Text = ca_buffer s, ob_ToolCalls = ca_toolCalls s, ob_Denials = denials,
     ob_NativeCall = ca_native s, ob_BufferBypass = ca_bypass s\<rparr>"

datatype captureErr = CaptureIdle | CaptureCtx | CaptureResult acp_err

definition captureToolProtocolAttempt ::
  "(string \<Rightarrow> goValue) \<Rightarrow> bool \<Rightarrow> toolProtocolPolicy \<Rightarrow> (string, string) gomap \<Rightarrow> source
    \<Rightarrow> (captureErr + attemptObservation \<times> engineStream) option" where
  "captureToolProtocolAttempt dec idle policy aliases src =
     (case RangeChunksWithIdleTimeout idle (captureChunk dec policy aliases) (so_in src) capture_init of
        (None, s) \<Rightarrow> None
      | (Some (RangeStopped, rest), s) \<Rightarrow>
          Some (Inr (observationOf s None, PrefixLiveStream (ca_prefix s) (ca_boundary s) (src\<lparr>so_in := rest\<rparr>)))
      | (Some (RangeIdle, rest), s) \<Rightarrow> Some (Inl CaptureIdle)
      | (Some (RangeCtx, rest), s) \<Rightarrow> Some (Inl CaptureCtx)
      | (Some (RangeClosed, rest), s) \<Rightarrow>
          (case so_result src of
             Inl err \<Rightarrow> Some (Inl (CaptureResult err))
           | Inr final \<Rightarrow> Some (Inr (observationOf s (Some (fr_ToolDenials final)), ReplayStream (ca_prefix s) final))))"

section \<open>Delivery\<close>

text \<open>
  \<open>quota\<close> says when the request's context is seen done by a send: after that many sends, or never. A delivery is the chunks the
  consumer got and, once it is over, the result and the number of times \<open>finish\<close> was called.
\<close>

fun sendAll :: "nat option \<Rightarrow> canonChunk list \<Rightarrow> canonChunk list \<times> nat option \<times> bool" where
  "sendAll quota [] = ([], quota, True)"
| "sendAll quota (c # cs) = (if quota = Some 0 then ([], quota, False)
     else case sendAll (map_option (\<lambda>n. n - 1) quota) cs of (out, q, ok) \<Rightarrow> (c # out, q, ok))"

fun drainLive :: "streamIn list \<Rightarrow> bool" where
  "drainLive [] = False"
| "drainLive (SEnd # xs) = True"
| "drainLive (x # xs) = drainLive xs"

record pumpState =
  pu_out :: "canonChunk list"
  pu_result :: "sourceResult option"
  pu_finishes :: nat

definition cancelAndFinish :: "canonChunk list \<Rightarrow> streamIn list \<Rightarrow> sourceResult \<Rightarrow> pumpState" where
  "cancelAndFinish out live res = (if drainLive live then \<lparr>pu_out = out, pu_result = Some res, pu_finishes = 1\<rparr>
     else \<lparr>pu_out = out, pu_result = None, pu_finishes = 0\<rparr>)"

fun pumpLive :: "nat option \<Rightarrow> canonChunk list \<Rightarrow> streamIn list \<Rightarrow> sourceResult \<Rightarrow> pumpState" where
  "pumpLive quota out [] res = \<lparr>pu_out = out, pu_result = None, pu_finishes = 0\<rparr>"
| "pumpLive quota out (SCtx # xs) res = cancelAndFinish out xs res"
| "pumpLive quota out (SIdle # xs) res = pumpLive quota out xs res"
| "pumpLive quota out (SEnd # xs) res = \<lparr>pu_out = out, pu_result = Some res, pu_finishes = 1\<rparr>"
| "pumpLive quota out (SChunk c # xs) res =
     (if quota = Some 0 then cancelAndFinish out xs res
      else pumpLive (map_option (\<lambda>n. n - 1) quota) (out @ [c]) xs res)"

definition pump :: "nat option \<Rightarrow> canonChunk list \<Rightarrow> canonChunk option \<Rightarrow> source \<Rightarrow> pumpState" where
  "pump quota prefix boundary src =
     (case sendAll quota (prefix @ (case boundary of None \<Rightarrow> [] | Some c \<Rightarrow> [c])) of
        (out, q, True) \<Rightarrow> pumpLive q out (so_in src) (so_result src)
      | (out, q, False) \<Rightarrow> cancelAndFinish out (so_in src) (so_result src))"

text \<open>The replay of a drained source: its chunks unless the context is done, then the context's error.\<close>

definition replay :: "nat option \<Rightarrow> canonChunk list \<Rightarrow> FinalResult \<Rightarrow> canonChunk list \<times> (unit + FinalResult)" where
  "replay quota chunks final = (case sendAll quota chunks of
       (out, q, ok) \<Rightarrow> if ok \<and> q \<noteq> Some 0 then (out, Inr final) else (out, Inl ()))"

end
