(* ===== verification/EngineRun.thy ===== *)
theory EngineRun
  imports EnginePreflight
begin

text \<open>
  The engine's orchestration of a request (internal/engine/engine.go and collect.go): hooks, session, model, prompt sequence, prompt,
  watchdog, the recovery of guarded turns and the aggregation. The run is a function of its environment, the answers of the hooks,
  of the ACP client and of the streams, and records what it did, in order, as a list of effects. A hook that panics is a hook that
  fails. \<open>RunBlocked\<close> is a run that still waits for a stream.
\<close>

section \<open>The environment\<close>

datatype preAnswer = PrePass | PreRespond ChatResponse | PreFail

text \<open>The points at which the code asks whether the request's context is done.\<close>

datatype ctxPoint = CtxAtPromptErr | CtxAtFail | CtxBeforeSecond | CtxAfterSecond

record engineEnv =
  ee_preHooks :: "preAnswer list"
  ee_postErrs :: "bool list"
  ee_cwd :: string
  ee_newSession :: "string option"
  ee_setModel :: bool
  ee_sequence :: "bool option"
  ee_prompt1 :: "source option"
  ee_prompt2 :: "source option"
  ee_idle :: bool
  ee_ctx :: "ctxPoint \<Rightarrow> bool"
  ee_aliases :: "(string, string) gomap"
  ee_scan :: wrapperScan
  ee_dec :: "string \<Rightarrow> goValue"
  ee_genID :: "nat \<Rightarrow> string"

datatype effect =
    EfModelRequest string
  | EfPre nat bool
  | EfPost nat "ChatResponse option" bool
  | EfNewSession string
  | EfSetModel string string
  | EfBegin string
  | EfFinish
  | EfPrompt string "correctivePrompt option" bool
  | EfCancel string
  | EfWatchStart
  | EfWatchStop
  | EfEvent ToolProtocolEvent

datatype engineErr =
    ErrNilReq
  | ErrPreHook
  | ErrNewSession
  | ErrActivation
  | ErrToolProtocol
  | ErrToolResultProvenance
  | ErrPromptCtx
  | ErrPrompt
  | ErrProtocolCtx
  | ErrRange rangeEnd
  | ErrResult acp_err
  | ErrPostHook nat

text \<open>The trace, whether a sequence hold was taken, and whether \<open>finishSequenceOnce\<close> has run.\<close>

record runState =
  rs_trace :: "effect list"
  rs_hold :: bool
  rs_once :: bool

record engineHandle =
  eh_sid :: string
  eh_stream :: engineStream
  eh_response :: "ChatResponse option"
  eh_watchdog :: bool

datatype runResult = RunError engineErr | RunOk engineHandle | RunBlocked

definition emit :: "effect \<Rightarrow> runState \<Rightarrow> runState" where
  "emit ef s = s\<lparr>rs_trace := rs_trace s @ [ef]\<rparr>"

definition run_init :: runState where
  "run_init = \<lparr>rs_trace = [], rs_hold = False, rs_once = False\<rparr>"

section \<open>Hooks\<close>

text \<open>\<open>RunPostHooks\<close> calls every hook and returns the first error.\<close>

fun postHooksFrom :: "nat \<Rightarrow> bool list \<Rightarrow> ChatResponse option \<Rightarrow> runState \<Rightarrow> nat option \<times> runState" where
  "postHooksFrom i [] resp s = (None, s)"
| "postHooksFrom i (err # errs) resp s =
     (case postHooksFrom (i + 1) errs resp (emit (EfPost i resp err) s) of
        (e, s') \<Rightarrow> (if err then Some i else e, s'))"

definition RunPostHooks :: "engineEnv \<Rightarrow> ChatResponse option \<Rightarrow> runState \<Rightarrow> nat option \<times> runState" where
  "RunPostHooks v resp s = postHooksFrom 0 (ee_postErrs v) resp s"

definition runErrCleanup :: "engineEnv \<Rightarrow> runState \<Rightarrow> runState" where
  "runErrCleanup v s = snd (RunPostHooks v None s)"

datatype preResult = PreDone | PreShort ChatResponse | PreFailed

text \<open>The loop over the pre hooks; \<open>i\<close> is the number of completed ones.\<close>

fun runPreHooks :: "engineEnv \<Rightarrow> nat \<Rightarrow> preAnswer list \<Rightarrow> runState \<Rightarrow> preResult \<times> runState" where
  "runPreHooks v i [] s = (PreDone, s)"
| "runPreHooks v i (PreFail # hs) s =
     (let s1 = emit (EfPre i True) s in (PreFailed, if i > 0 then runErrCleanup v s1 else s1))"
| "runPreHooks v i (PreRespond resp # hs) s = (PreShort resp, emit (EfPre i False) s)"
| "runPreHooks v i (PrePass # hs) s = runPreHooks v (i + 1) hs (emit (EfPre i False) s)"

section \<open>Ends\<close>

definition finishSequence :: "runState \<Rightarrow> runState" where
  "finishSequence s = (if rs_once s then s
     else let s1 = s\<lparr>rs_once := True\<rparr> in if rs_hold s1 then emit EfFinish s1 else s1)"

definition toolEvent :: "ChatRequest \<Rightarrow> ToolProtocolReason \<Rightarrow> ToolProtocolOutcome \<Rightarrow> WrapperDisposition \<Rightarrow> nat \<Rightarrow> bool \<Rightarrow> ToolProtocolEvent" where
  "toolEvent req reason outc disp attempts auto =
     enrichToolProtocolEvent (Some req) \<lparr>ev_Model = rq_Model req, ev_ContractVersion = ToolProtocolContractNone, ev_CallRole = CallRoleUnknown,
       ev_ModelSelection = ModelAuto, ev_ToolPolicy = PolicyNone, ev_WrapperDisposition = disp, ev_ToolResultPresent = False,
       ev_CorrectionKind = CorrectionNone, ev_Reason = reason, ev_Outcome = outc, ev_CorrectiveAttempts = attempts,
       ev_RecommendAuto = auto\<rparr>"

definition observeToolProtocol :: "ToolProtocolEvent \<Rightarrow> runState \<Rightarrow> runState" where
  "observeToolProtocol event = emit (EfEvent event)"

text \<open>The closure \<open>fail\<close> of the two recoveries; \<open>code\<close> is the error without a context error.\<close>

definition failRecovery ::
  "engineEnv \<Rightarrow> ChatRequest \<Rightarrow> string \<Rightarrow> engineErr \<Rightarrow> ToolProtocolReason \<Rightarrow> WrapperDisposition \<Rightarrow> nat \<Rightarrow> runState \<Rightarrow> engineErr \<times> runState" where
  "failRecovery v req sid code reason disp attempts s =
     (let ctxErr = ee_ctx v CtxAtFail;
          s1 = runErrCleanup v (emit (EfCancel sid) (finishSequence (emit EfWatchStop s)));
          s2 = observeToolProtocol (toolEvent req reason OutcomeFailed disp attempts (\<not> ctxErr)) s1
      in (if ctxErr then ErrProtocolCtx else code, s2))"

definition finishFullyCaptured :: "engineStream \<Rightarrow> runState \<Rightarrow> runState" where
  "finishFullyCaptured st s = (case st of PrefixLiveStream p b src \<Rightarrow> s | _ \<Rightarrow> finishSequence s)"

section \<open>Recovery of guarded turns\<close>

datatype recovered = RecOk engineStream | RecErr engineErr | RecBlocked

definition recErr :: "engineErr \<times> runState \<Rightarrow> recovered \<times> runState" where
  "recErr p = (RecErr (fst p), snd p)"

definition denyBuiltin :: "ChatRequest \<Rightarrow> bool" where
  "denyBuiltin req \<longleftrightarrow> rq_Tools req \<noteq> []"

definition secondToolAttempt ::
  "engineEnv \<Rightarrow> ChatRequest \<Rightarrow> string \<Rightarrow> toolProtocolPolicy \<Rightarrow> ToolProtocolReason \<Rightarrow> WrapperDisposition \<Rightarrow> runState \<Rightarrow> recovered \<times> runState" where
  "secondToolAttempt v req sid policy reason disp s =
     (let fl = failRecovery v req sid ErrToolProtocol reason disp;
          s1 = emit (EfPrompt sid (Some (correctiveBlocks policy)) (denyBuiltin req)) s
      in case ee_prompt2 v of
          None \<Rightarrow> recErr (fl 1 s1)
        | Some src \<Rightarrow>
            (case captureToolProtocolAttempt (ee_dec v) (ee_idle v) policy (ee_aliases v) src of
               None \<Rightarrow> (RecBlocked, s1)
             | Some (Inl err) \<Rightarrow> recErr (fl 1 s1)
             | Some (Inr (ob, st)) \<Rightarrow>
                 if ob_BufferBypass ob then (RecOk st, observeToolProtocol (toolEvent req reason OutcomeBufferBypass disp 1 False) s1)
                 else if classifyToolProtocolAttempt (ee_scan v) policy ob (ee_aliases v) = ReasonNone
                 then (RecOk st, observeToolProtocol (toolEvent req reason OutcomeCorrected disp 1 False) (finishFullyCaptured st s1))
                 else recErr (fl 1 s1)))"

definition recoverToolProtocol ::
  "engineEnv \<Rightarrow> ChatRequest \<Rightarrow> string \<Rightarrow> source \<Rightarrow> toolProtocolPolicy \<Rightarrow> runState \<Rightarrow> recovered \<times> runState" where
  "recoverToolProtocol v req sid src policy s =
     (case captureToolProtocolAttempt (ee_dec v) (ee_idle v) policy (ee_aliases v) src of
        None \<Rightarrow> (RecBlocked, s)
      | Some (Inl err) \<Rightarrow> recErr (failRecovery v req sid ErrToolProtocol ReasonNone WrapperNone 0 s)
      | Some (Inr (ob, st)) \<Rightarrow>
          if ob_BufferBypass ob then (RecOk st, observeToolProtocol (toolEvent req ReasonNone OutcomeBufferBypass WrapperNone 0 False) s)
          else let disp = wx_observe (ee_scan v) (ob_Text ob) (po_tools policy);
                   reason = classifyToolProtocolAttempt (ee_scan v) policy ob (ee_aliases v)
               in if reason = ReasonNone
                  then (RecOk st, observeToolProtocol (toolEvent req ReasonNone OutcomeFirstAttempt disp 0 False) (finishFullyCaptured st s))
                  else if ee_ctx v CtxBeforeSecond then recErr (failRecovery v req sid ErrToolProtocol reason disp 0 s)
                  else secondToolAttempt v req sid policy reason disp s)"

text \<open>A tool-result turn is captured with the empty policy and without aliases.\<close>

definition emptyPolicy :: toolProtocolPolicy where
  "emptyPolicy = \<lparr>po_requirement = ProtocolOptional, po_namedTool = [], po_tools = [], po_contractV1 = False\<rparr>"

definition secondResultAttempt ::
  "engineEnv \<Rightarrow> ChatRequest \<Rightarrow> string \<Rightarrow> ToolSpec list \<Rightarrow> WrapperDisposition \<Rightarrow> engineStream \<Rightarrow> runState \<Rightarrow> recovered \<times> runState" where
  "secondResultAttempt v req sid tools disp firstStream s =
     (let reason = ReasonToolResultProvenanceRefusal;
          fl = failRecovery v req sid ErrToolResultProvenance reason disp;
          s1 = emit (EfPrompt sid (Some CorrectToolResult) (denyBuiltin req)) s
      in case ee_prompt2 v of
          None \<Rightarrow> recErr (fl 1 s1)
        | Some src \<Rightarrow>
            (case captureToolProtocolAttempt (ee_dec v) (ee_idle v) emptyPolicy [] src of
               None \<Rightarrow> (RecBlocked, s1)
             | Some (Inl err) \<Rightarrow> recErr (fl 1 s1)
             | Some (Inr (ob, st)) \<Rightarrow>
                 if ob_BufferBypass ob then (RecOk st, observeToolProtocol (toolEvent req reason OutcomeBufferBypass disp 1 False) s1)
                 else if correctedToolResultResponseIsFinalProse (ee_scan v) tools ob
                 then (RecOk st, observeToolProtocol (toolEvent req reason OutcomeCorrected disp 1 False) (finishFullyCaptured st s1))
                 else if ee_ctx v CtxAfterSecond then recErr (fl 1 s1)
                 else (RecOk firstStream,
                       observeToolProtocol (toolEvent req reason OutcomeFallbackFirstAttempt disp 1 False) (finishFullyCaptured firstStream s1))))"

definition recoverToolResultProtocol ::
  "engineEnv \<Rightarrow> ChatRequest \<Rightarrow> string \<Rightarrow> source \<Rightarrow> ToolSpec list \<Rightarrow> runState \<Rightarrow> recovered \<times> runState" where
  "recoverToolResultProtocol v req sid src tools s =
     (let reason = ReasonToolResultProvenanceRefusal
      in case captureToolProtocolAttempt (ee_dec v) (ee_idle v) emptyPolicy [] src of
        None \<Rightarrow> (RecBlocked, s)
      | Some (Inl err) \<Rightarrow> recErr (failRecovery v req sid ErrToolResultProvenance reason WrapperNone 0 s)
      | Some (Inr (ob, st)) \<Rightarrow>
          if ob_BufferBypass ob then (RecOk st, observeToolProtocol (toolEvent req ReasonNone OutcomeBufferBypass WrapperNone 0 False) s)
          else let disp = wx_observe (ee_scan v) (ob_Text ob) tools
               in if \<not> toolResultAttemptNeedsCorrection (ee_scan v) tools ob
                  then (RecOk st, observeToolProtocol (toolEvent req ReasonNone OutcomeFirstAttempt disp 0 False) (finishFullyCaptured st s))
                  else if ee_ctx v CtxBeforeSecond then recErr (failRecovery v req sid ErrToolResultProvenance reason disp 0 s)
                  else secondResultAttempt v req sid tools disp st s)"

section \<open>Run\<close>

definition initialPolicy :: "ChatRequest \<Rightarrow> toolProtocolPolicy" where
  "initialPolicy req = fst (toolProtocolPolicyFor (Some req))"

definition initialGuarded :: "ChatRequest \<Rightarrow> bool" where
  "initialGuarded req = snd (toolProtocolPolicyFor (Some req))"

definition resultGuarded :: "ChatRequest \<Rightarrow> bool" where
  "resultGuarded req = snd (toolResultProtocolPolicyFor (Some req))"

definition guarded :: "ChatRequest \<Rightarrow> bool" where
  "guarded req \<longleftrightarrow> initialGuarded req \<or> resultGuarded req"

definition runHandle :: "string \<Rightarrow> engineStream \<Rightarrow> runResult" where
  "runHandle sid st = RunOk \<lparr>eh_sid = sid, eh_stream = st, eh_response = None, eh_watchdog = True\<rparr>"

definition recovery :: "engineEnv \<Rightarrow> ChatRequest \<Rightarrow> string \<Rightarrow> source \<Rightarrow> runState \<Rightarrow> recovered \<times> runState" where
  "recovery v req sid src s =
     (if initialGuarded req then recoverToolProtocol v req sid src (initialPolicy req) s
      else if resultGuarded req then recoverToolResultProtocol v req sid src (fst (toolResultProtocolPolicyFor (Some req))) s
      else (RecOk (RawStream src), s))"

definition promptFailed :: "engineEnv \<Rightarrow> ChatRequest \<Rightarrow> string \<Rightarrow> runState \<Rightarrow> runResult \<times> runState" where
  "promptFailed v req sid s =
     (let s1 = runErrCleanup v (emit (EfCancel sid) (finishSequence s))
      in if guarded req
         then (RunError (if ee_ctx v CtxAtPromptErr then ErrPromptCtx else ErrPrompt),
               observeToolProtocol (toolEvent req ReasonNone OutcomeFailed WrapperNone 0 False) s1)
         else (RunError ErrPrompt, s1))"

text \<open>The prompt, the watchdog and the recovery.\<close>

definition promptStep :: "engineEnv \<Rightarrow> ChatRequest \<Rightarrow> string \<Rightarrow> runState \<Rightarrow> runResult \<times> runState" where
  "promptStep v req sid s =
     (let s1 = emit (EfPrompt sid None (denyBuiltin req)) s
      in case ee_prompt1 v of
          None \<Rightarrow> promptFailed v req sid s1
        | Some src \<Rightarrow>
            (case recovery v req sid src (emit EfWatchStart s1) of
               (RecOk st, s2) \<Rightarrow> (runHandle sid st, s2)
             | (RecErr e, s2) \<Rightarrow> (RunError e, s2)
             | (RecBlocked, s2) \<Rightarrow> (RunBlocked, s2)))"

definition sequenceStep :: "engineEnv \<Rightarrow> ChatRequest \<Rightarrow> string \<Rightarrow> runState \<Rightarrow> runResult \<times> runState" where
  "sequenceStep v req sid s =
     (if \<not> guarded req then promptStep v req sid s
      else case ee_sequence v of
          None \<Rightarrow> promptStep v req sid s
        | Some True \<Rightarrow> promptStep v req sid ((emit (EfBegin sid) s)\<lparr>rs_hold := True\<rparr>)
        | Some False \<Rightarrow>
            (RunError (if resultGuarded req then ErrToolResultProvenance else ErrToolProtocol),
             observeToolProtocol (toolEvent req ReasonNone OutcomeFailed WrapperNone 0 True)
               (runErrCleanup v (emit (EfCancel sid) (emit (EfBegin sid) s)))))"

definition modelStep :: "engineEnv \<Rightarrow> ChatRequest \<Rightarrow> string \<Rightarrow> runState \<Rightarrow> runResult \<times> runState" where
  "modelStep v req sid s =
     (if \<not> explicitModel req then sequenceStep v req sid s
      else let s1 = emit (EfSetModel sid (rq_Model req)) s
           in if ee_setModel v then sequenceStep v req sid s1
              else (RunError ErrActivation,
                    observeToolProtocol (toolEvent req ReasonActivationFailed OutcomeFailed WrapperNone 0 True)
                      (runErrCleanup v (emit (EfCancel sid) s1))))"

definition sessionStep :: "engineEnv \<Rightarrow> ChatRequest \<Rightarrow> runState \<Rightarrow> runResult \<times> runState" where
  "sessionStep v req s =
     (let s1 = emit (EfNewSession (ee_cwd v)) s
      in case ee_newSession v of
          None \<Rightarrow> (RunError ErrNewSession, runErrCleanup v s1)
        | Some sid \<Rightarrow> modelStep v req sid s1)"

definition newCompletedRun :: "ChatResponse \<Rightarrow> runResult" where
  "newCompletedRun resp = RunOk \<lparr>eh_sid = [], eh_stream = EmptyStream, eh_response = Some resp, eh_watchdog = False\<rparr>"

definition engineRun :: "engineEnv \<Rightarrow> ChatRequest option \<Rightarrow> runResult \<times> runState" where
  "engineRun v r = (case r of
       None \<Rightarrow> (RunError ErrNilReq, run_init)
     | Some req \<Rightarrow>
         (case runPreHooks v 0 (ee_preHooks v) (emit (EfModelRequest (rq_Model req)) run_init) of
            (PreFailed, s) \<Rightarrow> (RunError ErrPreHook, s)
          | (PreShort resp, s) \<Rightarrow> (newCompletedRun resp, s)
          | (PreDone, s) \<Rightarrow> sessionStep v req s))"

section \<open>Collect\<close>

definition onChunk :: "engineEnv \<Rightarrow> ToolSpec list \<Rightarrow> canonChunk \<Rightarrow> collectAcc \<Rightarrow> bool \<times> collectAcc" where
  "onChunk v tools c acc = (False, case c of
       CkText (Some s) \<Rightarrow> acc\<lparr>ca_text := ca_text acc @ s\<rparr>
     | CkThought (Some s) \<Rightarrow> acc\<lparr>ca_thought := ca_thought acc @ s\<rparr>
     | CkToolCall (Some tc) \<Rightarrow>
         (case ResolveNativeToolName (tc_Name tc) (toolNames tools) (ee_aliases v) of
            None \<Rightarrow> acc
          | Some name \<Rightarrow> acc\<lparr>ca_calls := ca_calls acc
              @ [tc\<lparr>tc_ID := (if tc_ID tc = [] then ee_genID v (length (ca_calls acc)) else tc_ID tc), tc_Name := name\<rparr>]\<rparr>)
     | _ \<Rightarrow> acc)"

text \<open>The time-based \<open>ID\<close> of the response is not modelled.\<close>

definition assembleChatResponse :: "string \<Rightarrow> string \<Rightarrow> string \<Rightarrow> ToolCall list \<Rightarrow> StopReason \<Rightarrow> ChatResponse" where
  "assembleChatResponse model text thinking calls stop =
     \<lparr>cr_Model = model, cr_Content = [PartText text] @ (if thinking \<noteq> [] then [PartThinking thinking] else []), cr_ToolCalls = calls, cr_StopReason = stop\<rparr>"

datatype collectResult = CollectError engineErr | CollectOk ChatResponse | CollectBlocked

definition collectFailed :: "engineEnv \<Rightarrow> string \<Rightarrow> engineErr \<Rightarrow> runState \<Rightarrow> collectResult \<times> runState" where
  "collectFailed v sid e s = (CollectError e, runErrCleanup v (emit (EfCancel sid) s))"

definition collectPost :: "engineEnv \<Rightarrow> ChatResponse \<Rightarrow> runState \<Rightarrow> collectResult \<times> runState" where
  "collectPost v resp s = (case RunPostHooks v (Some resp) s of
       (Some i, s') \<Rightarrow> (CollectError (ErrPostHook i), s')
     | (None, s') \<Rightarrow> (CollectOk resp, s'))"

text \<open>\<open>seen\<close> is what the consumer of the run's stream observes.\<close>

definition CollectFromRun :: "engineEnv \<Rightarrow> engineHandle \<Rightarrow> ChatRequest \<Rightarrow> source \<Rightarrow> runState \<Rightarrow> collectResult \<times> runState" where
  "CollectFromRun v run req seen s = (case eh_response run of
       Some resp \<Rightarrow> collectPost v resp s
     | None \<Rightarrow>
         (case RangeChunksWithIdleTimeout (ee_idle v) (onChunk v (rq_Tools req)) (so_in seen) \<lparr>ca_text = [], ca_thought = [], ca_calls = []\<rparr> of
            (None, acc) \<Rightarrow> (CollectBlocked, s)
          | (Some (RangeClosed, rest), acc) \<Rightarrow>
              (case so_result seen of
                 Inl err \<Rightarrow> collectFailed v (eh_sid run) (ErrResult err) s
               | Inr final \<Rightarrow>
                   (let s1 = (if eh_watchdog run then emit EfWatchStop s else s);
                        calls = DedupToolCalls (ca_calls acc);
                        text = (if rq_Tools req \<noteq> [] \<and> calls \<noteq> [] then [] else ca_text acc)
                    in collectPost v (assembleChatResponse (rq_Model req) text (ca_thought acc) calls (fr_StopReason final)) s1))
          | (Some (e, rest), acc) \<Rightarrow> collectFailed v (eh_sid run) (ErrRange e) s))"

definition Collect :: "engineEnv \<Rightarrow> ChatRequest option \<Rightarrow> source \<Rightarrow> collectResult \<times> runState" where
  "Collect v r seen = (case engineRun v r of
       (RunError e, s) \<Rightarrow> (CollectError e, s)
     | (RunBlocked, s) \<Rightarrow> (CollectBlocked, s)
     | (RunOk run, s) \<Rightarrow> (case r of None \<Rightarrow> (CollectBlocked, s) | Some req \<Rightarrow> CollectFromRun v run req seen s))"

end
