(* ===== verification/EnginePreflightProps.thy ===== *)
theory EnginePreflightProps
  imports EnginePreflight
begin

text \<open>
  Lemmas of the bounded capture: the walker computes the size of a value exactly, a capture never retains more than its bounds, and
  the stream it hands on delivers the chunks of the source.
\<close>

section \<open>The walker\<close>

fun valueSize :: "goValue \<Rightarrow> int" where
  "valueSize GNil = 0"
| "valueSize (GBool b) = 1"
| "valueSize (GNum n) = 8"
| "valueSize (GStr s) = len s"
| "valueSize (GBytes s) = 24 + len s"
| "valueSize (GArr vs) = 24 + 16 * len vs + sum_list (map valueSize vs)"
| "valueSize (GMap ms) = 64 + 64 * len ms + sum_list (map (\<lambda>(k, v). len k + valueSize v) ms)"
| "valueSize (GOther n) = int n"

fun valueHeight :: "goValue \<Rightarrow> nat" where
  "valueHeight (GArr vs) = foldr (\<lambda>v. max (Suc (valueHeight v))) vs 0"
| "valueHeight (GMap ms) = foldr (\<lambda>(k, v). max (Suc (valueHeight v))) ms 0"
| "valueHeight v = 0"

lemma len_nonneg [simp]: "0 \<le> len xs"
  by (simp add: len_def)

lemma len_simps [simp]: "len [] = 0" "len (x # xs) = len xs + 1"
  by (simp_all add: len_def)

lemma sum_list_nonneg_map: "(\<And>x. x \<in> set xs \<Longrightarrow> 0 \<le> f x) \<Longrightarrow> 0 \<le> (sum_list (map f xs) :: int)"
  by (induction xs) auto

lemma valueSize_nonneg [simp]: "0 \<le> valueSize v"
proof (induction v rule: valueSize.induct)
  case (6 vs)
  then show ?case by (simp add: sum_list_nonneg_map)
next
  case (7 ms)
  have "0 \<le> sum_list (map (\<lambda>(k, v). len k + valueSize v) ms)"
    using 7 by (intro sum_list_nonneg_map) fastforce
  then show ?case by simp
qed simp_all

definition fits :: "retainedByteWalker \<Rightarrow> bool" where
  "fits w \<longleftrightarrow> \<not> rw_exceeded w \<and> 0 \<le> rw_used w \<and> rw_used w \<le> rw_limit w"

text \<open>The walker after counting \<open>n\<close> bytes of values that are within the depth bound or not.\<close>

definition counted :: "int \<Rightarrow> bool \<Rightarrow> retainedByteWalker \<Rightarrow> retainedByteWalker" where
  "counted n deep w = (if rw_used w + n \<le> rw_limit w \<and> deep then w\<lparr>rw_used := rw_used w + n\<rparr> else markExceeded w)"

lemma counted_fits: "fits w \<Longrightarrow> 0 \<le> n \<Longrightarrow> rw_exceeded (counted n deep w) \<or> fits (counted n deep w)"
  by (auto simp: counted_def fits_def markExceeded_def)

lemma counted_counted: "fits w \<Longrightarrow> 0 \<le> m \<Longrightarrow> 0 \<le> n \<Longrightarrow>
   (if rw_exceeded (counted m d w) then counted m d w else counted n d' (counted m d w)) = counted (m + n) (d \<and> d') w"
  by (auto simp: counted_def fits_def markExceeded_def)

lemma add_counted: "fits w \<Longrightarrow> 0 \<le> n \<Longrightarrow> rw_add n w = counted n True w"
  by (auto simp: rw_add_def counted_def fits_def)

lemma div_less_times: "0 < d \<Longrightarrow> a div d < n \<longleftrightarrow> a < n * d" for a d n :: int
proof
  assume d: "0 < d" and "a div d < n"
  then have "(a div d + 1) * d \<le> n * d" by (intro mult_right_mono) auto
  moreover have "a < (a div d + 1) * d" using d pos_mod_bound [of d a] div_mult_mod_eq [of a d] distrib_right [of "a div d" 1 d] by linarith
  ultimately show "a < n * d" by simp
next
  assume d: "0 < d" and a: "a < n * d"
  show "a div d < n"
  proof (rule ccontr)
    assume "\<not> a div d < n"
    then have "n * d \<le> a div d * d" using d by (intro mult_right_mono) auto
    moreover have "a div d * d \<le> a" using d pos_mod_sign [of d a] div_mult_mod_eq [of a d] by linarith
    ultimately show False using a by simp
  qed
qed

lemma product_counted:
  assumes "fits w" and "0 \<le> n" and "0 < sz"
  shows "addProduct n sz w = counted (n * sz) True w"
proof -
  have "n > (rw_limit w - rw_used w) div sz \<longleftrightarrow> rw_used w + n * sz > rw_limit w"
    using div_less_times [OF assms(3), of "rw_limit w - rw_used w" n] by linarith
  then show ?thesis using assms add_counted [OF assms(1), of "n * sz"]
    by (auto simp: addProduct_def fits_def counted_def)
qed

lemma exceeded_done: "rw_exceeded w \<Longrightarrow> rw_add n w = w" "rw_exceeded w \<Longrightarrow> addProduct n sz w = w"
  by (simp_all add: rw_add_def addProduct_def)

lemma foldr_max: "d + foldr (\<lambda>v. max (Suc (f v))) vs 0 \<le> n \<longleftrightarrow> d \<le> n \<and> (\<forall>v \<in> set vs. Suc d + f v \<le> n)" for n :: nat
  by (induction vs) auto

lemma foldr_max_pair: "d + foldr (\<lambda>(k, v). max (Suc (f v))) ms 0 \<le> n \<longleftrightarrow> d \<le> n \<and> (\<forall>(k, v) \<in> set ms. Suc d + f v \<le> n)" for n :: nat
  by (induction ms) auto

lemma walk_counted:
  "fits w \<Longrightarrow> walkValue d v w = counted (valueSize v) (d + valueHeight v \<le> 64) w"
  "fits w \<Longrightarrow> walkItems d vs w = counted (sum_list (map valueSize vs)) (\<forall>v \<in> set vs. d + valueHeight v \<le> 64) w"
  "fits w \<Longrightarrow> walkMembers d ms w = counted (sum_list (map (\<lambda>(k, v). len k + valueSize v) ms)) (\<forall>(k, v) \<in> set ms. d + valueHeight v \<le> 64) w"
proof (induction d v w and d vs w and d ms w rule: walkValue_walkItems_walkMembers.induct)
  case (1 depth v w)
  then have f: "\<not> rw_exceeded w" by (simp add: fits_def)
  show ?case
  proof (cases "depth > maxRetainedValueDepth")
    case True
    then show ?thesis using f by (simp add: counted_def maxRetainedValueDepth_def)
  next
    case False
    then have d: "depth \<le> 64" by (simp add: maxRetainedValueDepth_def)
    show ?thesis
    proof (cases v)
      case (GArr vs)
      let ?w1 = "addProduct (len vs) retainedInterfaceBytes (rw_add retainedSliceHeaderBytes w)"
      have w1: "?w1 = counted (24 + 16 * len vs) True w"
        using counted_counted [OF 1(3), of 24 "16 * len vs" True True] add_counted [OF 1(3), of 24]
          product_counted [of "counted 24 True w" "len vs" 16] counted_fits [OF 1(3), of 24 True]
        by (auto simp: retainedInterfaceBytes_def retainedSliceHeaderBytes_def exceeded_done mult.commute split: if_splits)
      show ?thesis
      proof (cases "rw_exceeded ?w1")
        case True
        then show ?thesis using f False GArr w1 d sum_list_nonneg_map [of vs valueSize]
          by (auto simp: Let_def counted_def markExceeded_def split: if_splits)
      next
        case nex: False
        then have fw: "fits ?w1" using counted_fits [OF 1(3), of "24 + 16 * len vs" True] unfolding w1 by auto
        have "walkItems (depth + 1) vs ?w1 = counted (sum_list (map valueSize vs)) (\<forall>v \<in> set vs. depth + 1 + valueHeight v \<le> 64) ?w1"
          using 1(1) [OF f False _ refl] nex fw GArr by blast
        then show ?thesis
          using f False GArr w1 nex counted_counted [OF 1(3), of "24 + 16 * len vs" "sum_list (map valueSize vs)" True] d
          by (simp add: sum_list_nonneg_map foldr_max)
      qed
    next
      case (GMap ms)
      let ?w1 = "addProduct (len ms) retainedMapEntryBytes (rw_add retainedMapBaseBytes w)"
      have nn: "0 \<le> sum_list (map (\<lambda>(k, v). len k + valueSize v) ms)" by (rule sum_list_nonneg_map) auto
      have w1: "?w1 = counted (64 + 64 * len ms) True w"
        using counted_counted [OF 1(3), of 64 "64 * len ms" True True] add_counted [OF 1(3), of 64]
          product_counted [of "counted 64 True w" "len ms" 64] counted_fits [OF 1(3), of 64 True]
        by (auto simp: retainedMapEntryBytes_def retainedMapBaseBytes_def exceeded_done mult.commute split: if_splits)
      show ?thesis
      proof (cases "rw_exceeded ?w1")
        case True
        then show ?thesis using f False GMap w1 d nn
          by (auto simp: Let_def counted_def markExceeded_def split: if_splits)
      next
        case nex: False
        then have fw: "fits ?w1" using counted_fits [OF 1(3), of "64 + 64 * len ms" True] unfolding w1 by auto
        have "walkMembers (depth + 1) ms ?w1 = counted (sum_list (map (\<lambda>(k, v). len k + valueSize v) ms))
            (\<forall>(k, v) \<in> set ms. depth + 1 + valueHeight v \<le> 64) ?w1"
          using 1(2) [OF f False _ refl] nex fw GMap by blast
        then show ?thesis
          using f False GMap w1 nex nn counted_counted [OF 1(3), of "64 + 64 * len ms" "sum_list (map (\<lambda>(k, v). len k + valueSize v) ms)" True] d
          by (simp add: foldr_max_pair)
      qed
    next
      case (GBytes b)
      then show ?thesis using f False d 1(3) len_nonneg [of b]
        by (auto simp del: len_nonneg simp: counted_def retainedSliceHeaderBytes_def rw_add_def markExceeded_def fits_def)
    qed (use f False d in \<open>simp_all add: add_counted [OF 1(3)]\<close>, simp add: counted_def 1(3) [unfolded fits_def])
  qed
next
  case (2 depth w)
  then show ?case by (simp add: counted_def fits_def)
next
  case (3 depth v vs w)
  let ?a = "counted (valueSize v) (depth + valueHeight v \<le> 64) w" and ?S = "sum_list (map valueSize vs)"
  have v: "walkValue depth v w = ?a" by (rule 3(1) [OF 3(3)])
  have c: "(if rw_exceeded ?a then ?a else counted ?S (\<forall>v \<in> set vs. depth + valueHeight v \<le> 64) ?a) =
      counted (valueSize v + ?S) (depth + valueHeight v \<le> 64 \<and> (\<forall>v \<in> set vs. depth + valueHeight v \<le> 64)) w"
    by (rule counted_counted [OF 3(3)]) (simp_all add: sum_list_nonneg_map)
  have r: "walkItems depth vs ?a = counted ?S (\<forall>v \<in> set vs. depth + valueHeight v \<le> 64) ?a" if "\<not> rw_exceeded ?a"
    using 3(2) [OF refl] that counted_fits [OF 3(3), of "valueSize v" "depth + valueHeight v \<le> 64"] unfolding v by simp
  show ?case using c r by (simp only: walkItems.simps(2) Let_def v list.map sum_list.Cons list.set ball_simps) (auto split: if_splits)
next
  case (4 depth w)
  then show ?case by (simp add: counted_def fits_def)
next
  case (5 depth k v ms w)
  let ?a = "counted (len k) True w" and ?S = "sum_list (map (\<lambda>(k, v). len k + valueSize v) ms)"
  have nn: "0 \<le> ?S" by (rule sum_list_nonneg_map) auto
  have a: "rw_add (len k) w = ?a" by (rule add_counted [OF 5(3)]) simp
  have v: "walkValue depth v ?a = counted (len k + valueSize v) (depth + valueHeight v \<le> 64) w"
  proof (cases "rw_exceeded ?a")
    case True
    then show ?thesis using counted_counted [OF 5(3), of "len k" "valueSize v" True "depth + valueHeight v \<le> 64"] by simp
  next
    case False
    then have "fits ?a" using counted_fits [OF 5(3), of "len k" True] by simp
    then show ?thesis using 5(1) counted_counted [OF 5(3), of "len k" "valueSize v" True "depth + valueHeight v \<le> 64"] False
      by (simp add: a)
  qed
  let ?b = "counted (len k + valueSize v) (depth + valueHeight v \<le> 64) w"
  have c: "(if rw_exceeded ?b then ?b else counted ?S (\<forall>(k, v) \<in> set ms. depth + valueHeight v \<le> 64) ?b) =
      counted (len k + valueSize v + ?S) (depth + valueHeight v \<le> 64 \<and> (\<forall>(k, v) \<in> set ms. depth + valueHeight v \<le> 64)) w"
    by (rule counted_counted [OF 5(3)]) (simp_all add: nn)
  have r: "walkMembers depth ms ?b = counted ?S (\<forall>(k, v) \<in> set ms. depth + valueHeight v \<le> 64) ?b" if "\<not> rw_exceeded ?b"
    using 5(2) [OF refl] that counted_fits [OF 5(3), of "len k + valueSize v" "depth + valueHeight v \<le> 64"] unfolding a v by simp
  show ?case using c r by (simp only: walkMembers.simps(2) Let_def a v list.map sum_list.Cons list.set ball_simps prod.case) (auto split: if_splits)
qed

section \<open>Chunks\<close>

text \<open>What a chunk retains, and whether its arguments are shallow enough.\<close>

fun chunkSize :: "(string \<Rightarrow> goValue) \<Rightarrow> canonChunk \<Rightarrow> int" where
  "chunkSize dec (CkText (Some s)) = len s"
| "chunkSize dec (CkThought (Some s)) = len s"
| "chunkSize dec (CkToolCall (Some tc)) = len (tc_ID tc) + (len (tc_Name tc) + valueSize (argsValue dec (tc_Arguments tc)))"
| "chunkSize dec (CkPlan (Some s)) = len s"
| "chunkSize dec c = 0"

fun chunkShallow :: "(string \<Rightarrow> goValue) \<Rightarrow> canonChunk \<Rightarrow> bool" where
  "chunkShallow dec (CkToolCall (Some tc)) \<longleftrightarrow> valueHeight (argsValue dec (tc_Arguments tc)) \<le> 64"
| "chunkShallow dec c \<longleftrightarrow> True"

lemma chunkSize_nonneg: "0 \<le> chunkSize dec c"
  by (induction dec c rule: chunkSize.induct) (simp_all del: valueSize.simps)

lemma exceeded_walk: "rw_exceeded w \<Longrightarrow> walkValue d v w = w"
  by simp

declare walkValue.simps [simp del]

lemma add_after:
  assumes "fits w" and "0 \<le> m" and "0 \<le> n"
  shows "rw_add n (counted m True w) = counted (m + n) True w"
  using counted_counted [OF assms, of True True] counted_fits [OF assms(1,2), of True] assms(3)
  by (cases "rw_exceeded (counted m True w)") (simp_all add: exceeded_done add_counted)

lemma walk_after:
  assumes "fits w" and "0 \<le> m"
  shows "walkValue d v (counted m True w) = counted (m + valueSize v) (d + valueHeight v \<le> 64) w"
  using counted_counted [OF assms valueSize_nonneg [of v], of True "d + valueHeight v \<le> 64"] counted_fits [OF assms, of True]
  by (cases "rw_exceeded (counted m True w)") (simp_all add: exceeded_walk walk_counted(1))

lemma retained_spec:
  "retainedChunkBytesWithinBudget dec c budget =
     (if 0 \<le> budget \<and> chunkSize dec c \<le> budget \<and> chunkShallow dec c then (chunkSize dec c, False) else (budget + 1, True))"
proof (cases "0 \<le> budget")
  case False
  then show ?thesis by (simp add: retainedChunkBytesWithinBudget_def markExceeded_def Let_def)
next
  case True
  let ?w = "\<lparr>rw_limit = budget, rw_used = 0, rw_exceeded = False\<rparr>"
  have f: "fits ?w" using True by (simp add: fits_def)
  have one: "rw_add (len s) ?w = counted (len s) True ?w" for s by (rule add_counted [OF f]) simp
  have r: "rw_used (counted n d ?w) = (if n \<le> budget \<and> d then n else budget + 1)"
    "rw_exceeded (counted n d ?w) \<longleftrightarrow> \<not> (n \<le> budget \<and> d)" for n d
    by (simp_all add: counted_def markExceeded_def)
  show ?thesis
    using True by (cases c) (auto simp: retainedChunkBytesWithinBudget_def Let_def one add_after [OF f] walk_after [OF f] r add.assoc simp del: valueSize.simps split: option.splits)
qed

section \<open>The capture\<close>

text \<open>The chunks a consumer of the source would see up to its end.\<close>

fun chunksIn :: "streamIn list \<Rightarrow> canonChunk list" where
  "chunksIn (SChunk c # xs) = c # chunksIn xs"
| "chunksIn (SEnd # xs) = []"
| "chunksIn (x # xs) = chunksIn xs"
| "chunksIn [] = []"

definition boundaryList :: "canonChunk option \<Rightarrow> canonChunk list" where
  "boundaryList b = (case b of None \<Rightarrow> [] | Some c \<Rightarrow> [c])"

definition consumed :: "captureState \<Rightarrow> canonChunk list" where
  "consumed s = ca_prefix s @ boundaryList (ca_boundary s)"

definition totalSize :: "(string \<Rightarrow> goValue) \<Rightarrow> canonChunk list \<Rightarrow> int" where
  "totalSize dec cs = sum_list (map (chunkSize dec) cs)"

fun callOf :: "canonChunk \<Rightarrow> ToolCall option" where
  "callOf (CkToolCall tc) = tc"
| "callOf c = None"

fun textOf :: "canonChunk \<Rightarrow> string" where
  "textOf (CkText (Some s)) = s"
| "textOf c = []"

text \<open>The state of a capture that has not stopped.\<close>

definition captureInv :: "(string \<Rightarrow> goValue) \<Rightarrow> captureState \<Rightarrow> bool" where
  "captureInv dec s \<longleftrightarrow> ca_retained s = totalSize dec (ca_prefix s) \<and> totalSize dec (ca_prefix s) \<le> maxToolProtocolPreflightBytes \<and>
     ca_count s = length (ca_prefix s) \<and> length (ca_prefix s) \<le> maxToolProtocolPreflightChunks \<and> \<not> ca_bypass s \<and> ca_boundary s = None \<and>
     ca_buffer s = concat (map textOf (ca_prefix s)) \<and> ca_toolCalls s = List.map_filter callOf (ca_prefix s) \<and>
     ca_native s = (ca_toolCalls s \<noteq> [])"

text \<open>The state after it stopped: at a bound, with the chunk that broke it set aside, or at a decisive call.\<close>

definition captureStopped :: "(string \<Rightarrow> goValue) \<Rightarrow> toolProtocolPolicy \<Rightarrow> (string, string) gomap \<Rightarrow> captureState \<Rightarrow> bool" where
  "captureStopped dec policy aliases s \<longleftrightarrow>
     totalSize dec (ca_prefix s) \<le> maxToolProtocolPreflightBytes \<and> length (ca_prefix s) \<le> maxToolProtocolPreflightChunks \<and>
     ca_buffer s = concat (map textOf (ca_prefix s)) \<and> ca_toolCalls s = List.map_filter callOf (ca_prefix s) \<and>
     ca_native s = (ca_toolCalls s \<noteq> []) \<and>
     (if ca_bypass s then \<exists>c. ca_boundary s = Some c \<and>
          (length (ca_prefix s) = maxToolProtocolPreflightChunks \<or> totalSize dec (ca_prefix s) + chunkSize dec c > maxToolProtocolPreflightBytes \<or> \<not> chunkShallow dec c)
      else ca_boundary s = None \<and> (\<exists>tc \<in> set (ca_toolCalls s). nativeCallSatisfiesPolicy (tc_Name tc) policy aliases))"

lemma capture_init_inv: "captureInv dec capture_init"
  by (simp add: captureInv_def capture_init_def totalSize_def maxToolProtocolPreflightBytes_def List.map_filter_simps)

lemma totalSize_nonneg: "0 \<le> totalSize dec cs"
  by (simp add: totalSize_def sum_list_nonneg_map chunkSize_nonneg)

lemma totalSize_snoc: "totalSize dec (cs @ [c]) = totalSize dec cs + chunkSize dec c"
  by (simp add: totalSize_def)

lemma map_filter_snoc: "List.map_filter f (xs @ [x]) = List.map_filter f xs @ (case f x of None \<Rightarrow> [] | Some y \<Rightarrow> [y])"
  by (induction xs) (auto simp: List.map_filter_simps split: option.splits)

text \<open>One chunk, as a decision on its size and one on its call.\<close>

lemma captureChunk_spec:
  assumes "captureInv dec s"
  defines "fit \<equiv> \<lambda>c. length (ca_prefix s) < maxToolProtocolPreflightChunks \<and> totalSize dec (ca_prefix s) + chunkSize dec c \<le> maxToolProtocolPreflightBytes \<and> chunkShallow dec c"
  shows "if fit c then
      (case captureChunk dec policy aliases c s of (stop, s') \<Rightarrow> ca_prefix s' = ca_prefix s @ [c] \<and> captureInv dec s' \<and>
         stop = (case callOf c of None \<Rightarrow> False | Some tc \<Rightarrow> nativeCallSatisfiesPolicy (tc_Name tc) policy aliases))
    else (case captureChunk dec policy aliases c s of (stop, s') \<Rightarrow> stop \<and> s' = s\<lparr>ca_count := ca_count s', ca_retained := ca_retained s',
      ca_bypass := True, ca_boundary := Some c\<rparr>)"
proof -
  let ?b = "maxToolProtocolPreflightBytes - ca_retained s"
  have b: "0 \<le> ?b" "0 \<le> ca_retained s" "0 \<le> chunkSize dec c" "ca_retained s = totalSize dec (ca_prefix s)"
    using assms(1) totalSize_nonneg [of dec "ca_prefix s"] chunkSize_nonneg [of dec c] by (simp_all add: captureInv_def)
  have sat: "saturatingRetainedBytes (ca_retained s) (chunkSize dec c) maxToolProtocolPreflightBytes = (ca_retained s + chunkSize dec c, False)"
    if "chunkSize dec c \<le> ?b" using that b by (auto simp: saturatingRetainedBytes_def)
  have fit: "fit c \<longleftrightarrow> \<not> (ca_count s + 1 > maxToolProtocolPreflightChunks \<or> snd (retainedChunkBytesWithinBudget dec c ?b))"
    using assms(1) b by (auto simp: fit_def retained_spec captureInv_def)
  show ?thesis
  proof (cases "fit c")
    case True
    then have "chunkSize dec c \<le> ?b" "retainedChunkBytesWithinBudget dec c ?b = (chunkSize dec c, False)"
      using b by (auto simp: fit_def retained_spec)
    then show ?thesis
      using True assms(1) sat fit
      by (cases c) (auto simp: captureChunk_def Let_def captureInv_def totalSize_snoc map_filter_snoc fit_def split: option.splits)
  next
    case False
    then show ?thesis using fit assms(1)
      by (auto simp: captureChunk_def Let_def captureInv_def)
  qed
qed

lemma captureInv_consumed: "captureInv dec s \<Longrightarrow> consumed s = ca_prefix s"
  by (simp add: consumed_def captureInv_def boundaryList_def)

lemma captureChunk_go:
  assumes "captureInv dec s" and "captureChunk dec policy aliases c s = (False, s')"
  shows "captureInv dec s' \<and> ca_prefix s' = ca_prefix s @ [c]"
  using captureChunk_spec [OF assms(1), of c policy aliases] assms(2) by (auto split: if_splits)

lemma captureChunk_stop:
  assumes "captureInv dec s" and "captureChunk dec policy aliases c s = (True, s')"
  shows "captureStopped dec policy aliases s' \<and> consumed s' = ca_prefix s @ [c]"
proof (cases "length (ca_prefix s) < maxToolProtocolPreflightChunks \<and> totalSize dec (ca_prefix s) + chunkSize dec c \<le> maxToolProtocolPreflightBytes \<and> chunkShallow dec c")
  case True
  then have s': "ca_prefix s' = ca_prefix s @ [c]" "captureInv dec s'"
    and call: "case callOf c of None \<Rightarrow> False | Some tc \<Rightarrow> nativeCallSatisfiesPolicy (tc_Name tc) policy aliases"
    using captureChunk_spec [OF assms(1), of c policy aliases] assms(2) by (auto split: if_splits)
  then obtain tc where tc: "callOf c = Some tc" "nativeCallSatisfiesPolicy (tc_Name tc) policy aliases" by (auto split: option.splits)
  then have "tc \<in> set (ca_toolCalls s')" using s' by (simp add: captureInv_def map_filter_snoc)
  then show ?thesis using s' tc(2) captureInv_consumed [OF s'(2)] by (auto simp: captureInv_def captureStopped_def)
next
  case False
  then have s': "s' = s\<lparr>ca_count := ca_count s', ca_retained := ca_retained s', ca_bypass := True, ca_boundary := Some c\<rparr>"
    using captureChunk_spec [OF assms(1), of c policy aliases] assms(2) by (auto split: if_splits)
  have f: "ca_prefix s' = ca_prefix s" "ca_bypass s'" "ca_boundary s' = Some c" "ca_buffer s' = ca_buffer s"
      "ca_toolCalls s' = ca_toolCalls s" "ca_native s' = ca_native s"
    by (subst s', simp)+
  then show ?thesis using False assms(1) by (auto simp: captureStopped_def captureInv_def consumed_def boundaryList_def)
qed

definition rangeOk :: "(string \<Rightarrow> goValue) \<Rightarrow> toolProtocolPolicy \<Rightarrow> (string, string) gomap \<Rightarrow> canonChunk list
    \<Rightarrow> (rangeEnd \<times> streamIn list) option \<Rightarrow> captureState \<Rightarrow> bool" where
  "rangeOk dec policy aliases cs r s \<longleftrightarrow> (case r of
       Some (RangeStopped, rest) \<Rightarrow> captureStopped dec policy aliases s \<and> consumed s @ chunksIn rest = cs
     | Some (RangeClosed, rest) \<Rightarrow> captureInv dec s \<and> ca_prefix s = cs
     | _ \<Rightarrow> True)"

lemma capture_range:
  "captureInv dec s \<Longrightarrow> RangeChunksWithIdleTimeout idle (captureChunk dec policy aliases) xs s = (r, s') \<Longrightarrow>
   rangeOk dec policy aliases (ca_prefix s @ chunksIn xs) r s'"
proof (induction idle "captureChunk dec policy aliases" xs s rule: RangeChunksWithIdleTimeout.induct)
  case (5 idle c xs s)
  obtain stop s1 where c: "captureChunk dec policy aliases c s = (stop, s1)" by (rule prod.exhaust)
  show ?case
  proof (cases stop)
    case True
    then show ?thesis using captureChunk_stop [of dec s policy aliases c s1] 5 c by (auto simp: rangeOk_def)
  next
    case False
    then show ?thesis using captureChunk_go [of dec s policy aliases c s1] 5 c by fastforce
  qed
qed (auto simp: rangeOk_def split: if_splits)

fun streamChunks :: "engineStream \<Rightarrow> canonChunk list" where
  "streamChunks (RawStream src) = chunksIn (so_in src)"
| "streamChunks (ReplayStream cs final) = cs"
| "streamChunks (PrefixLiveStream prefix boundary src) = prefix @ boundaryList boundary @ chunksIn (so_in src)"
| "streamChunks EmptyStream = []"

text \<open>What the stream keeps in memory.\<close>

fun retainedOf :: "engineStream \<Rightarrow> canonChunk list" where
  "retainedOf (ReplayStream cs final) = cs"
| "retainedOf (PrefixLiveStream prefix boundary src) = prefix"
| "retainedOf s = []"

lemma capture_ok:
  assumes "captureToolProtocolAttempt dec idle policy aliases src = Some (Inr (ob, st))"
  shows "streamChunks st = chunksIn (so_in src)"
    and "length (retainedOf st) \<le> maxToolProtocolPreflightChunks" "totalSize dec (retainedOf st) \<le> maxToolProtocolPreflightBytes"
    and "ob_Text ob = concat (map textOf (retainedOf st))" "ob_ToolCalls ob = List.map_filter callOf (retainedOf st)"
    and "ob_NativeCall ob = (ob_ToolCalls ob \<noteq> [])"
    and "ob_BufferBypass ob \<longrightarrow> (\<exists>c rest. st = PrefixLiveStream (retainedOf st) (Some c) rest)"
    and "\<not> ob_BufferBypass ob \<longrightarrow> (\<exists>final. st = ReplayStream (retainedOf st) final \<and> so_result src = Inr final) \<or>
       (\<exists>rest. st = PrefixLiveStream (retainedOf st) None rest) \<and> (\<exists>tc \<in> set (ob_ToolCalls ob). nativeCallSatisfiesPolicy (tc_Name tc) policy aliases)"
proof -
  obtain r s where rs: "RangeChunksWithIdleTimeout idle (captureChunk dec policy aliases) (so_in src) capture_init = (r, s)" by (rule prod.exhaust)
  have ok: "rangeOk dec policy aliases (chunksIn (so_in src)) r s"
    using capture_range [OF capture_init_inv rs] by (simp add: capture_init_def)
  consider rest where "r = Some (RangeStopped, rest)" "ob = observationOf s None" "st = PrefixLiveStream (ca_prefix s) (ca_boundary s) (src\<lparr>so_in := rest\<rparr>)"
    | rest final where "r = Some (RangeClosed, rest)" "so_result src = Inr final" "ob = observationOf s (Some (fr_ToolDenials final))" "st = ReplayStream (ca_prefix s) final"
    using assms rs by (auto simp: captureToolProtocolAttempt_def split: option.splits prod.splits rangeEnd.splits sum.splits)
  then have "streamChunks st = chunksIn (so_in src) \<and> length (retainedOf st) \<le> maxToolProtocolPreflightChunks \<and>
      totalSize dec (retainedOf st) \<le> maxToolProtocolPreflightBytes \<and>
      ob_Text ob = concat (map textOf (retainedOf st)) \<and> ob_ToolCalls ob = List.map_filter callOf (retainedOf st) \<and>
      ob_NativeCall ob = (ob_ToolCalls ob \<noteq> []) \<and>
      (ob_BufferBypass ob \<longrightarrow> (\<exists>c rest. st = PrefixLiveStream (retainedOf st) (Some c) rest)) \<and>
      (\<not> ob_BufferBypass ob \<longrightarrow> (\<exists>final. st = ReplayStream (retainedOf st) final \<and> so_result src = Inr final) \<or>
       (\<exists>rest. st = PrefixLiveStream (retainedOf st) None rest) \<and> (\<exists>tc \<in> set (ob_ToolCalls ob). nativeCallSatisfiesPolicy (tc_Name tc) policy aliases))"
  proof cases
    case 1
    then show ?thesis using ok by (auto simp: rangeOk_def captureStopped_def observationOf_def consumed_def split: if_splits)
  next
    case 2
    then show ?thesis using ok by (auto simp: rangeOk_def captureInv_def observationOf_def)
  qed
  then show "streamChunks st = chunksIn (so_in src)"
    and "length (retainedOf st) \<le> maxToolProtocolPreflightChunks" "totalSize dec (retainedOf st) \<le> maxToolProtocolPreflightBytes"
    and "ob_Text ob = concat (map textOf (retainedOf st))" "ob_ToolCalls ob = List.map_filter callOf (retainedOf st)"
    and "ob_NativeCall ob = (ob_ToolCalls ob \<noteq> [])"
    and "ob_BufferBypass ob \<longrightarrow> (\<exists>c rest. st = PrefixLiveStream (retainedOf st) (Some c) rest)"
    and "\<not> ob_BufferBypass ob \<longrightarrow> (\<exists>final. st = ReplayStream (retainedOf st) final \<and> so_result src = Inr final) \<or>
       (\<exists>rest. st = PrefixLiveStream (retainedOf st) None rest) \<and> (\<exists>tc \<in> set (ob_ToolCalls ob). nativeCallSatisfiesPolicy (tc_Name tc) policy aliases)"
    by blast+
qed

section \<open>Delivery\<close>

lemma drainLive_iff: "drainLive xs \<longleftrightarrow> SEnd \<in> set xs"
  by (induction xs rule: drainLive.induct) auto

text \<open>What a pump may deliver of the chunks \<open>cs\<close>, from a live part \<open>xs\<close>.\<close>

definition pumped :: "nat option \<Rightarrow> streamIn list \<Rightarrow> sourceResult \<Rightarrow> canonChunk list \<Rightarrow> pumpState \<Rightarrow> bool" where
  "pumped quota xs res cs p \<longleftrightarrow> take (length (pu_out p)) cs = pu_out p \<and>
     pu_finishes p = (if pu_result p = None then 0 else 1) \<and> pu_result p \<in> {None, Some res} \<and>
     (SEnd \<in> set xs \<longrightarrow> pu_result p \<noteq> None) \<and>
     (quota = None \<and> SCtx \<notin> set xs \<and> pu_result p \<noteq> None \<longrightarrow> pu_out p = cs)"

lemma pumped_cancel: "quota \<noteq> None \<or> SCtx \<in> set ys \<Longrightarrow> set ys \<subseteq> insert SCtx (set xs \<union> range SChunk) \<Longrightarrow>
   pumped quota ys res (out @ cs) (cancelAndFinish out xs res)"
  by (auto simp: pumped_def cancelAndFinish_def drainLive_iff)

lemma pumpLive_pumped: "pumped quota xs res (out @ chunksIn xs) (pumpLive quota out xs res)"
proof (induction quota out xs res rule: pumpLive.induct)
  case (1 quota out res)
  then show ?case by (simp add: pumped_def)
next
  case (2 quota out xs res)
  show ?case using pumped_cancel [of quota "SCtx # xs" xs res out "chunksIn xs"] by auto
next
  case (3 quota out xs res)
  then show ?case by (auto simp: pumped_def)
next
  case (4 quota out xs res)
  then show ?case by (simp add: pumped_def)
next
  case (5 quota out c xs res)
  show ?case
  proof (cases "quota = Some 0")
    case True
    then show ?thesis using pumped_cancel [of quota "SChunk c # xs" xs res out "c # chunksIn xs"] by auto
  next
    case False
    then show ?thesis using 5 by (cases quota) (simp_all add: pumped_def)
  qed
qed

lemma sendAll_spec: "sendAll quota cs = (out, q, ok) \<Longrightarrow>
   take (length out) cs = out \<and> (ok \<longrightarrow> out = cs \<and> (quota = None \<longleftrightarrow> q = None)) \<and> (\<not> ok \<longrightarrow> quota \<noteq> None)"
proof (induction quota cs arbitrary: out rule: sendAll.induct)
  case (2 quota c cs)
  then show ?case by (cases quota) (auto split: prod.splits if_splits)
qed simp

lemma pump_pumped: "pumped quota (so_in src) (so_result src) (streamChunks (PrefixLiveStream prefix boundary src)) (pump quota prefix boundary src)"
proof -
  let ?cs = "prefix @ boundaryList boundary"
  obtain out q ok where send: "sendAll quota ?cs = (out, q, ok)" by (metis prod_cases3)
  note sp = sendAll_spec [OF send]
  show ?thesis
  proof (cases ok)
    case True
    then have "out = ?cs" "quota = None \<longleftrightarrow> q = None" using sp by auto
    then show ?thesis using pumpLive_pumped [of q "so_in src" "so_result src" out] send True
      by (auto simp: pump_def boundaryList_def pumped_def)
  next
    case False
    then have q: "quota \<noteq> None" and t: "take (length out) ?cs = out" using sp by auto
    then obtain rest where rest: "?cs = out @ rest" by (metis append_take_drop_id)
    have "pumped quota (so_in src) (so_result src) (out @ rest @ chunksIn (so_in src)) (cancelAndFinish out (so_in src) (so_result src))"
      by (rule pumped_cancel) (use q in auto)
    then show ?thesis using send False rest by (simp add: pump_def boundaryList_def append_assoc [symmetric] del: append_assoc)
  qed
qed

lemma replay_spec: "replay quota cs final = (out, r) \<Longrightarrow>
   take (length out) cs = out \<and> (case r of Inr f \<Rightarrow> out = cs \<and> f = final | Inl u \<Rightarrow> quota \<noteq> None)"
  using sendAll_spec [of quota cs] by (auto simp: replay_def split: prod.splits if_splits)

text \<open>A capture that stopped at a native call is not classified as a failure.\<close>

lemma native_call_classifies:
  assumes "\<exists>tc \<in> set (ob_ToolCalls ob). nativeCallSatisfiesPolicy (tc_Name tc) policy aliases" and "ob_NativeCall ob"
  shows "classifyToolProtocolAttempt w policy ob aliases = ReasonNone"
proof -
  obtain t where t: "t \<in> set (ob_ToolCalls ob)" "nativeCallSatisfiesPolicy (tc_Name t) policy aliases" using assms(1) by blast
  then obtain name where "ResolveNativeToolName (tc_Name t) (toolNames (po_tools policy)) aliases = Some name" "matchesPolicy policy name"
    by (auto simp: nativeCallSatisfiesPolicy_def matchesPolicy_def split: option.splits if_splits)
  with t(1) obtain tc where tc: "tc \<in> set (ob_ToolCalls ob)" "ResolveNativeToolName (tc_Name tc) (toolNames (po_tools policy)) aliases = Some name"
      "matchesPolicy policy name"
    by blast
  then have "name \<in> set (candidateNames policy ob aliases)"
    using assms(2) by (force simp: candidateNames_def set_map_filter_iff)
  then have "list_ex (matchesPolicy policy) (candidateNames policy ob aliases)" using tc(3) by (auto simp: list_ex_iff)
  then show ?thesis by (simp add: classifyToolProtocolAttempt_def Let_def)
qed

section \<open>Properties\<close>

text \<open>
  The walker computes the size of a Go value exactly: starting within its limit it counts the reference size of the value, or is
  exceeded, precisely when the size does not fit the limit or the value is nested deeper than 64 levels; the order of the
  members does not matter.
\<close>

theorem walker_exact:
  assumes "\<not> rw_exceeded w" and "0 \<le> rw_used w" and "rw_used w \<le> rw_limit w"
  shows "walkValue 0 v w = (if rw_used w + valueSize v \<le> rw_limit w \<and> valueHeight v \<le> 64
     then w\<lparr>rw_used := rw_used w + valueSize v\<rparr> else w\<lparr>rw_exceeded := True, rw_used := rw_limit w + 1\<rparr>)"
  using walk_counted(1) [of w 0 v] assms by (simp add: fits_def counted_def markExceeded_def)

theorem walker_exact_witness:
  "walkValue 0 (GMap [(''k'', GArr [GStr ''ab'', GNil])]) \<lparr>rw_limit = 1000, rw_used = 5, rw_exceeded = False\<rparr> =
     \<lparr>rw_limit = 1000, rw_used = 192, rw_exceeded = False\<rparr>"
  using walker_exact [of "\<lparr>rw_limit = 1000, rw_used = 5, rw_exceeded = False\<rparr>" "GMap [(''k'', GArr [GStr ''ab'', GNil])]"]
  by (simp add: len_def)

text \<open>
  C32. A capture that succeeds retains at most 4096 chunks and 1 MiB, and the stream it hands on is faithful, whether the capture
  drained the source, stopped at a decisive native call or gave up at a bound: read to its end it delivers exactly the chunks of the
  source, in order, with the source's result; with the context cancelled after any number of sends it has delivered a prefix
  of them. A live stream calls \<open>finish\<close>, which releases the hold on the session, exactly once if its source closes and
  never otherwise; a replay of a drained source is given no \<open>finish\<close> to call, and ends with an error only when it was cancelled.
\<close>

theorem capture_bounded_faithful:
  assumes "captureToolProtocolAttempt dec idle policy aliases src = Some (Inr (ob, st))"
  shows "length (retainedOf st) \<le> 4096 \<and> totalSize dec (retainedOf st) \<le> 1048576 \<and>
    (case st of
       ReplayStream cs final \<Rightarrow> so_result src = Inr final \<and>
         (\<forall>quota. case replay quota cs final of (out, r) \<Rightarrow>
            take (length out) (chunksIn (so_in src)) = out \<and>
            (case r of Inr f \<Rightarrow> out = chunksIn (so_in src) \<and> f = final | Inl u \<Rightarrow> quota \<noteq> None))
     | PrefixLiveStream prefix boundary live \<Rightarrow>
         (\<forall>quota. pumped quota (so_in live) (so_result live) (chunksIn (so_in src)) (pump quota prefix boundary live))
     | _ \<Rightarrow> False)"
proof -
  note c = capture_ok [OF assms]
  consider cs final where "st = ReplayStream cs final" | prefix boundary live where "st = PrefixLiveStream prefix boundary live"
    using c(7,8) by blast
  then show ?thesis
  proof cases
    case 1
    have "so_result src = Inr final" using assms 1
      by (auto simp: captureToolProtocolAttempt_def split: option.splits prod.splits rangeEnd.splits sum.splits)
    moreover have cs: "chunksIn (so_in src) = cs" using 1 c(1) by simp
    moreover have "\<forall>quota. case replay quota cs final of (out, r) \<Rightarrow> take (length out) cs = out \<and>
        (case r of Inr f \<Rightarrow> out = cs \<and> f = final | Inl u \<Rightarrow> quota \<noteq> None)"
      by (simp add: replay_spec split: prod.split)
    ultimately show ?thesis using c(2,3) unfolding cs
      by (simp add: 1 maxToolProtocolPreflightBytes_def maxToolProtocolPreflightChunks_def)
  next
    case 2
    then show ?thesis using c(1-3) pump_pumped [of _ live prefix boundary]
      by (simp add: maxToolProtocolPreflightBytes_def maxToolProtocolPreflightChunks_def)
  qed
qed

theorem capture_bounded_faithful_witness:
  "replay None [CkText (Some ''a'')] \<lparr>fr_SessionID = ''s'', fr_ChunkCount = 1, fr_StopReason = StopEndTurn, fr_ToolDenials = 0\<rparr> =
     ([CkText (Some ''a'')], Inr \<lparr>fr_SessionID = ''s'', fr_ChunkCount = 1, fr_StopReason = StopEndTurn, fr_ToolDenials = 0\<rparr>)"
proof -
  let ?f = "\<lparr>fr_SessionID = ''s'', fr_ChunkCount = 1, fr_StopReason = StopEndTurn, fr_ToolDenials = 0\<rparr>"
  let ?src = "\<lparr>so_in = [SChunk (CkText (Some ''a'')), SEnd], so_result = Inr ?f\<rparr> :: source"
  let ?p = "\<lparr>po_requirement = ProtocolOptional, po_namedTool = [], po_tools = [], po_contractV1 = False\<rparr>"
  have "captureToolProtocolAttempt (\<lambda>t. GNil) True ?p [] ?src = Some (Inr
      (\<lparr>ob_Text = ''a'', ob_ToolCalls = [], ob_Denials = Some 0, ob_NativeCall = False, ob_BufferBypass = False\<rparr>,
       ReplayStream [CkText (Some ''a'')] ?f))"
    by (simp add: captureToolProtocolAttempt_def captureChunk_def capture_init_def retained_spec saturatingRetainedBytes_def
        maxToolProtocolPreflightBytes_def maxToolProtocolPreflightChunks_def len_def Let_def observationOf_def)
  note w = capture_bounded_faithful [OF this]
  have "chunksIn (so_in ?src) = [CkText (Some ''a'')]" by simp
  note w = w [unfolded this, simplified engineStream.case, THEN conjunct2, THEN conjunct2, THEN conjunct2]
  from spec [OF w, of None] show ?thesis by (auto split: prod.splits sum.splits)
qed

end
