(* ===== verification/EngineProps.thy ===== *)
theory EngineProps
  imports EngineRun EnginePreflightProps
begin

text \<open>
  Properties of the engine's run: what every end of a run has done to the session, the prompt sequence and the hooks. The lemmas
  give the effects of each function as the list it appends to the trace.
\<close>

section \<open>Counting effects\<close>

fun isPost :: "effect \<Rightarrow> bool" where
  "isPost (EfPost i r e) = True"
| "isPost ef = False"

fun isPrompt :: "effect \<Rightarrow> bool" where
  "isPrompt (EfPrompt sid c d) = True"
| "isPrompt ef = False"

fun isAcp :: "effect \<Rightarrow> bool" where
  "isAcp (EfNewSession c) = True"
| "isAcp (EfSetModel s m) = True"
| "isAcp (EfBegin s) = True"
| "isAcp EfFinish = True"
| "isAcp (EfPrompt s c d) = True"
| "isAcp (EfCancel s) = True"
| "isAcp ef = False"

text \<open>The calls of all post hooks, in registration order.\<close>

definition allPosts :: "engineEnv \<Rightarrow> ChatResponse option \<Rightarrow> effect list" where
  "allPosts v resp = map (\<lambda>i. EfPost i resp (ee_postErrs v ! i)) [0..<length (ee_postErrs v)]"

definition posts :: "runState \<Rightarrow> effect list" where
  "posts s = filter isPost (rs_trace s)"

lemma emit_trace [simp]: "rs_trace (emit ef s) = rs_trace s @ [ef]" "rs_hold (emit ef s) = rs_hold s" "rs_once (emit ef s) = rs_once s"
  by (simp_all add: emit_def)

lemma postHooksFrom_appends:
  "snd (postHooksFrom i errs resp s) = s\<lparr>rs_trace := rs_trace s @ map (\<lambda>j. EfPost (i + j) resp (errs ! j)) [0..<length errs]\<rparr>"
proof (induction errs arbitrary: i s)
  case (Cons err errs)
  have "map (\<lambda>j. EfPost (i + j) resp ((err # errs) ! j)) [0..<length (err # errs)] =
      EfPost i resp err # map (\<lambda>j. EfPost (i + 1 + j) resp (errs ! j)) [0..<length errs]"
    by (simp add: upt_conv_Cons map_Suc_upt [symmetric] del: upt_Suc)
  then show ?case using Cons [of "i + 1" "emit (EfPost i resp err) s"]
    by (auto simp add: emit_def split: prod.splits simp del: upt_Suc)
qed simp

lemma RunPostHooks_state: "snd (RunPostHooks v resp s) = s\<lparr>rs_trace := rs_trace s @ allPosts v resp\<rparr>"
  using postHooksFrom_appends [of 0 "ee_postErrs v" resp s] by (simp add: RunPostHooks_def allPosts_def)

lemma cleanup_trace [simp]: "rs_trace (runErrCleanup v s) = rs_trace s @ allPosts v None"
    "rs_hold (runErrCleanup v s) = rs_hold s" "rs_once (runErrCleanup v s) = rs_once s"
  by (simp_all add: runErrCleanup_def RunPostHooks_state)

lemma filter_allPosts [simp]: "filter isPost (allPosts v r) = allPosts v r" "filter isPrompt (allPosts v r) = []"
    "filter isAcp (allPosts v r) = []" "EfFinish \<notin> set (allPosts v r)" "EfCancel sid \<notin> set (allPosts v r)"
    "EfWatchStop \<notin> set (allPosts v r)" "EfWatchStart \<notin> set (allPosts v r)" "EfNewSession c \<notin> set (allPosts v r)"
    "count_list (allPosts v r) EfFinish = 0"
  by (auto simp: allPosts_def filter_map comp_def filter_empty_conv intro: count_notin)

lemma event_trace [simp]: "rs_trace (observeToolProtocol e s) = rs_trace s @ [EfEvent e]"
    "rs_hold (observeToolProtocol e s) = rs_hold s" "rs_once (observeToolProtocol e s) = rs_once s"
  by (simp_all add: observeToolProtocol_def)

definition finishNow :: "runState \<Rightarrow> effect list" where
  "finishNow s = (if rs_hold s \<and> \<not> rs_once s then [EfFinish] else [])"

lemma finish_trace [simp]: "rs_trace (finishSequence s) = rs_trace s @ finishNow s" "rs_hold (finishSequence s) = rs_hold s" "rs_once (finishSequence s)"
  by (simp_all add: finishSequence_def finishNow_def Let_def)

lemma failRecovery_trace:
  "rs_trace (snd (failRecovery v req sid code reason disp n s)) =
     rs_trace s @ EfWatchStop # finishNow s @ EfCancel sid # allPosts v None @
       [EfEvent (toolEvent req reason OutcomeFailed disp n (\<not> ee_ctx v CtxAtFail))]"
  by (simp add: failRecovery_def Let_def finishNow_def)

section \<open>Recovery\<close>

text \<open>
  Every end of a recovery: at most one more prompt, then either a stream is returned, with the hold released unless that stream is
  live, or the failure path runs.
\<close>

definition recoveryEnds :: "engineEnv \<Rightarrow> ChatRequest \<Rightarrow> string \<Rightarrow> runState \<Rightarrow> recovered \<Rightarrow> runState \<Rightarrow> bool" where
  "recoveryEnds v req sid s r s' \<longleftrightarrow>
     (\<exists>pr. (pr = [] \<or> (\<exists>c. pr = [EfPrompt sid (Some c) (denyBuiltin req)])) \<and>
        (case r of
           RecBlocked \<Rightarrow> rs_trace s' = rs_trace s @ pr
         | RecOk st \<Rightarrow> \<exists>ev. rs_trace s' = rs_trace s @ pr @ (if (\<exists>p b src. st = PrefixLiveStream p b src) then [] else finishNow s) @ [EfEvent ev]
         | RecErr e \<Rightarrow> \<exists>ev. rs_trace s' = rs_trace s @ pr @ EfWatchStop # finishNow s @ EfCancel sid # allPosts v None @ [EfEvent ev]))"

lemma finishNow_emit [simp]: "finishNow (emit ef s) = finishNow s"
  by (simp add: finishNow_def)

lemma captured_trace: "rs_trace (finishFullyCaptured st s) = rs_trace s @ (if (\<exists>p b src. st = PrefixLiveStream p b src) then [] else finishNow s)"
  by (cases st) (simp_all add: finishFullyCaptured_def)

lemma ends_fail: "recErr (failRecovery v req sid code reason disp n s) = (r, s') \<Longrightarrow> recoveryEnds v req sid s r s'"
  unfolding recoveryEnds_def by (rule exI [of _ "[]"]) (auto simp: recErr_def failRecovery_trace)

lemma ends_fail_second: "recErr (failRecovery v req sid code reason disp n (emit (EfPrompt sid (Some c) (denyBuiltin req)) s)) = (r, s') \<Longrightarrow>
   recoveryEnds v req sid s r s'"
  unfolding recoveryEnds_def by (rule exI [of _ "[EfPrompt sid (Some c) (denyBuiltin req)]"]) (auto simp: recErr_def failRecovery_trace)

lemma ends_ok: "recoveryEnds v req sid s (RecOk st) (observeToolProtocol ev (finishFullyCaptured st s))"
  unfolding recoveryEnds_def by (rule exI [of _ "[]"]) (auto simp: captured_trace)

lemma ends_ok_second: "recoveryEnds v req sid s (RecOk st) (observeToolProtocol ev (finishFullyCaptured st (emit (EfPrompt sid (Some c) (denyBuiltin req)) s)))"
  unfolding recoveryEnds_def by (rule exI [of _ "[EfPrompt sid (Some c) (denyBuiltin req)]"]) (auto simp: captured_trace)

lemma bypass_live:
  assumes "captureToolProtocolAttempt dec idle policy aliases src = Some (Inr (ob, st))" and "ob_BufferBypass ob"
  shows "finishFullyCaptured st s = s"
proof -
  obtain p c rest where "st = PrefixLiveStream p (Some c) rest" using capture_ok(7) [OF assms(1)] assms(2) by blast
  then show ?thesis by (simp add: finishFullyCaptured_def)
qed

lemma ends_blocked_second: "recoveryEnds v req sid s RecBlocked (emit (EfPrompt sid (Some c) (denyBuiltin req)) s)"
  unfolding recoveryEnds_def by (rule exI [of _ "[EfPrompt sid (Some c) (denyBuiltin req)]"]) auto

lemma ends_blocked: "recoveryEnds v req sid s RecBlocked s"
  unfolding recoveryEnds_def by (rule exI [of _ "[]"]) auto

lemma second_tool_ends: "secondToolAttempt v req sid policy reason disp s = (r, s') \<Longrightarrow> recoveryEnds v req sid s r s'"
  using bypass_live [of "ee_dec v" "ee_idle v" policy "ee_aliases v"]
  by (auto simp: secondToolAttempt_def Let_def ends_blocked_second split: option.splits sum.splits prod.splits if_splits
      intro: ends_fail_second ends_ok_second) (metis ends_ok_second)

lemma second_result_ends: "secondResultAttempt v req sid tools disp st s = (r, s') \<Longrightarrow> recoveryEnds v req sid s r s'"
  using bypass_live [of "ee_dec v" "ee_idle v" emptyPolicy "[]"]
  by (auto simp: secondResultAttempt_def Let_def ends_blocked_second split: option.splits sum.splits prod.splits if_splits
      intro: ends_fail_second ends_ok_second) (metis ends_ok_second)

lemma tool_ends: "recoverToolProtocol v req sid src policy s = (r, s') \<Longrightarrow> recoveryEnds v req sid s r s'"
  using bypass_live [of "ee_dec v" "ee_idle v" policy "ee_aliases v" src]
  by (auto simp: recoverToolProtocol_def Let_def ends_blocked split: option.splits sum.splits prod.splits if_splits
      intro: ends_fail ends_ok second_tool_ends) (metis ends_ok)

lemma result_ends: "recoverToolResultProtocol v req sid src tools s = (r, s') \<Longrightarrow> recoveryEnds v req sid s r s'"
  using bypass_live [of "ee_dec v" "ee_idle v" emptyPolicy "[]" src]
  by (auto simp: recoverToolResultProtocol_def Let_def ends_blocked split: option.splits sum.splits prod.splits if_splits
      intro: ends_fail ends_ok second_result_ends) (metis ends_ok)

section \<open>The run\<close>

definition liveStream :: "engineStream \<Rightarrow> bool" where
  "liveStream st \<longleftrightarrow> (\<exists>p b src. st = PrefixLiveStream p b src)"

text \<open>The prompts of a run: one on its session, and at most one corrective prompt.\<close>

definition promptsOk :: "ChatRequest \<Rightarrow> string \<Rightarrow> effect list \<Rightarrow> bool" where
  "promptsOk req sid efs \<longleftrightarrow> filter isPrompt efs = [] \<or> filter isPrompt efs = [EfPrompt sid None (denyBuiltin req)] \<or>
     (guarded req \<and> (\<exists>c. filter isPrompt efs = [EfPrompt sid None (denyBuiltin req), EfPrompt sid (Some c) (denyBuiltin req)]))"

definition goodEnd :: "engineEnv \<Rightarrow> ChatRequest \<Rightarrow> string \<Rightarrow> bool \<Rightarrow> runResult \<Rightarrow> effect list \<Rightarrow> bool" where
  "goodEnd v req sid hold r efs \<longleftrightarrow> promptsOk req sid efs \<and> (\<forall>c. EfNewSession c \<notin> set efs) \<and> (case r of
       RunError e \<Rightarrow> filter isPost efs = allPosts v None \<and> EfCancel sid \<in> set efs \<and> count_list efs EfFinish = (if hold then 1 else 0) \<and>
         (EfWatchStart \<in> set efs \<longrightarrow> EfWatchStop \<in> set efs) \<and> e \<notin> {ErrNilReq, ErrPreHook, ErrNewSession}
     | RunOk run \<Rightarrow> eh_sid run = sid \<and> eh_response run = None \<and> eh_watchdog run \<and> filter isPost efs = [] \<and> (\<forall>x. EfCancel x \<notin> set efs) \<and>
         EfWatchStart \<in> set efs \<and> EfWatchStop \<notin> set efs \<and> filter isPrompt efs \<noteq> [] \<and>
         count_list efs EfFinish = (if hold \<and> \<not> liveStream (eh_stream run) then 1 else 0)
     | RunBlocked \<Rightarrow> filter isPost efs = [] \<and> (\<forall>x. EfCancel x \<notin> set efs) \<and> count_list efs EfFinish = 0)"

lemma finishNow_simps [simp]: "filter isPost (finishNow s) = []" "filter isPrompt (finishNow s) = []" "EfCancel x \<notin> set (finishNow s)"
    "EfWatchStop \<notin> set (finishNow s)" "EfWatchStart \<notin> set (finishNow s)" "EfNewSession c \<notin> set (finishNow s)"
  by (simp_all add: finishNow_def)

lemma count_finishNow: "\<not> rs_once s \<Longrightarrow> count_list (finishNow s) EfFinish = (if rs_hold s then 1 else 0)"
  by (simp add: finishNow_def)

lemma count_list_append [simp]: "count_list (xs @ ys) x = count_list xs x + count_list ys x"
  by (induction xs) auto

text \<open>The errors of a recovery.\<close>

lemma failRecovery_err: "fst (failRecovery v req sid code reason disp n s) \<in> {ErrProtocolCtx, code}"
  by (simp add: failRecovery_def Let_def)

lemma recovery_err: "recovery v req sid src s = (RecErr e, s') \<Longrightarrow> e \<in> {ErrProtocolCtx, ErrToolProtocol, ErrToolResultProvenance}"
  using failRecovery_err
  by (fastforce simp: recovery_def recoverToolProtocol_def recoverToolResultProtocol_def secondToolAttempt_def secondResultAttempt_def
      recErr_def Let_def split: option.splits sum.splits prod.splits if_splits)

lemma promptStep_good:
  assumes "\<not> rs_once s" and "promptStep v req sid s = (r, s')" and hold: "\<not> guarded req \<Longrightarrow> \<not> rs_hold s"
  shows "\<exists>efs. rs_trace s' = rs_trace s @ efs \<and> goodEnd v req sid (rs_hold s) r efs"
proof (cases "ee_prompt1 v")
  case None
  let ?efs = "EfPrompt sid None (denyBuiltin req) # finishNow s @ EfCancel sid # allPosts v None @
    (if guarded req then [EfEvent (toolEvent req ReasonNone OutcomeFailed WrapperNone 0 False)] else [])"
  have "rs_trace s' = rs_trace s @ ?efs" "\<exists>e. r = RunError e \<and> e \<notin> {ErrNilReq, ErrPreHook, ErrNewSession}"
    using assms(2) None by (auto simp: promptStep_def promptFailed_def Let_def split: if_splits)
  then show ?thesis using count_finishNow [OF assms(1)] by (auto simp: goodEnd_def promptsOk_def intro!: exI [of _ ?efs])
next
  case (Some src)
  let ?s1 = "emit EfWatchStart (emit (EfPrompt sid None (denyBuiltin req)) s)"
  obtain q where rec: "recovery v req sid src ?s1 = (q, s')"
      and r: "r = (case q of RecOk st \<Rightarrow> runHandle sid st | RecErr e \<Rightarrow> RunError e | RecBlocked \<Rightarrow> RunBlocked)"
    using assms(2) Some by (auto simp: promptStep_def Let_def split: prod.splits recovered.splits)
  show ?thesis
  proof (cases "guarded req")
    case False
    then have "q = RecOk (RawStream src)" "s' = ?s1" using rec by (auto simp: recovery_def guarded_def)
    then show ?thesis using r hold [OF False]
      by (intro exI [of _ "[EfPrompt sid None (denyBuiltin req), EfWatchStart]"])
         (simp add: goodEnd_def promptsOk_def runHandle_def liveStream_def)
  next
    case True
    then have "recoveryEnds v req sid ?s1 q s'"
      using rec tool_ends result_ends by (auto simp: recovery_def guarded_def split: if_splits)
    then obtain pr where pr: "pr = [] \<or> (\<exists>c. pr = [EfPrompt sid (Some c) (denyBuiltin req)])"
      and q: "case q of RecBlocked \<Rightarrow> rs_trace s' = rs_trace ?s1 @ pr
         | RecOk st \<Rightarrow> \<exists>ev. rs_trace s' = rs_trace ?s1 @ pr @ (if liveStream st then [] else finishNow ?s1) @ [EfEvent ev]
         | RecErr e \<Rightarrow> \<exists>ev. rs_trace s' = rs_trace ?s1 @ pr @ EfWatchStop # finishNow ?s1 @ EfCancel sid # allPosts v None @ [EfEvent ev]"
      unfolding recoveryEnds_def liveStream_def by blast
    let ?pre = "[EfPrompt sid None (denyBuiltin req), EfWatchStart] @ pr"
    have pre: "filter isPost ?pre = []" "EfCancel x \<notin> set ?pre" "count_list ?pre EfFinish = 0" "EfWatchStop \<notin> set ?pre"
        "EfWatchStart \<in> set ?pre" "EfNewSession c \<notin> set ?pre" "promptsOk req sid (?pre @ efs)" if "filter isPrompt efs = []" for x c efs
      using pr True that by (auto simp: promptsOk_def)
    note c = count_finishNow [OF assms(1)]
    show ?thesis
    proof (cases q)
      case (RecOk st)
      then obtain ev where "rs_trace s' = rs_trace s @ ?pre @ (if liveStream st then [] else finishNow s) @ [EfEvent ev]" using q by auto
      moreover have "goodEnd v req sid (rs_hold s) r (?pre @ (if liveStream st then [] else finishNow s) @ [EfEvent ev])"
        using r RecOk c pre [of "(if liveStream st then [] else finishNow s) @ [EfEvent ev]"] by (auto simp: goodEnd_def runHandle_def)
      ultimately show ?thesis by blast
    next
      case (RecErr e)
      then obtain ev where "rs_trace s' = rs_trace s @ ?pre @ EfWatchStop # finishNow s @ EfCancel sid # allPosts v None @ [EfEvent ev]" using q by auto
      moreover have "goodEnd v req sid (rs_hold s) r (?pre @ EfWatchStop # finishNow s @ EfCancel sid # allPosts v None @ [EfEvent ev])"
        using r RecErr c recovery_err [of v req sid src ?s1 e s'] rec pre [of "EfWatchStop # finishNow s @ EfCancel sid # allPosts v None @ [EfEvent ev]"]
        by (auto simp: goodEnd_def)
      ultimately show ?thesis by blast
    next
      case RecBlocked
      then have "rs_trace s' = rs_trace s @ ?pre" using q by auto
      moreover have "goodEnd v req sid (rs_hold s) r ?pre" using r RecBlocked pre [of "[]"] by (auto simp: goodEnd_def)
      ultimately show ?thesis by blast
    qed
  qed
qed

definition holds :: "engineEnv \<Rightarrow> ChatRequest \<Rightarrow> bool" where
  "holds v req \<longleftrightarrow> guarded req \<and> ee_sequence v = Some True"

text \<open>Effects before the prompt step that change nothing in \<open>goodEnd\<close>.\<close>

fun isSetup :: "effect \<Rightarrow> bool" where
  "isSetup (EfSetModel sid m) = True"
| "isSetup (EfBegin sid) = True"
| "isSetup ef = False"

lemma goodEnd_setup: "isSetup ef \<Longrightarrow> goodEnd v req sid hold r (ef # efs) = goodEnd v req sid hold r efs"
  by (cases ef; cases r) (auto simp: goodEnd_def promptsOk_def)

text \<open>A failure before the first prompt.\<close>

lemma early_failure:
  assumes "e \<notin> {ErrNilReq, ErrPreHook, ErrNewSession}"
  shows "goodEnd v req sid False (RunError e) (EfCancel sid # allPosts v None @ [EfEvent ev])"
  using assms by (simp add: goodEnd_def promptsOk_def)

lemma sequenceStep_good:
  assumes "\<not> rs_once s" "\<not> rs_hold s" and "sequenceStep v req sid s = (r, s')"
  shows "\<exists>efs. rs_trace s' = rs_trace s @ efs \<and> goodEnd v req sid (holds v req) r efs"
proof -
  consider "\<not> holds v req" "promptStep v req sid s = (r, s')"
    | "holds v req" "promptStep v req sid ((emit (EfBegin sid) s)\<lparr>rs_hold := True\<rparr>) = (r, s')" "guarded req"
    | e ev where "\<not> holds v req" "r = RunError e" "e \<notin> {ErrNilReq, ErrPreHook, ErrNewSession}"
        "rs_trace s' = rs_trace s @ EfBegin sid # EfCancel sid # allPosts v None @ [EfEvent ev]"
    using assms(3) by (auto simp: sequenceStep_def holds_def split: if_splits option.splits bool.splits)
  then show ?thesis
  proof cases
    case 1
    then show ?thesis using promptStep_good [OF assms(1) 1(2)] assms(2) by simp
  next
    case 2
    then obtain efs where "rs_trace s' = rs_trace s @ EfBegin sid # efs" "goodEnd v req sid True r efs"
      using promptStep_good [OF _ 2(2)] assms(1) by (auto simp: emit_def)
    then show ?thesis using 2(1) by (intro exI [of _ "EfBegin sid # efs"]) (simp add: goodEnd_setup)
  next
    case 3
    then show ?thesis using early_failure [OF 3(3)]
      by (intro exI [of _ "EfBegin sid # EfCancel sid # allPosts v None @ [EfEvent ev]"]) (simp add: goodEnd_setup)
  qed
qed

lemma modelStep_good:
  assumes "\<not> rs_once s" "\<not> rs_hold s" and "modelStep v req sid s = (r, s')"
  shows "\<exists>efs hold. rs_trace s' = rs_trace s @ efs \<and> goodEnd v req sid hold r efs \<and> (hold \<longrightarrow> holds v req) \<and> (r \<noteq> RunError ErrActivation \<longrightarrow> hold = holds v req)"
proof -
  consider "sequenceStep v req sid s = (r, s')"
    | "sequenceStep v req sid (emit (EfSetModel sid (rq_Model req)) s) = (r, s')"
    | ev where "r = RunError ErrActivation" "rs_trace s' = rs_trace s @ EfSetModel sid (rq_Model req) # EfCancel sid # allPosts v None @ [EfEvent ev]"
    using assms(3) by (auto simp: modelStep_def Let_def split: if_splits)
  then show ?thesis
  proof cases
    case 1
    then show ?thesis using sequenceStep_good [OF assms(1,2) 1] by blast
  next
    case 2
    then obtain efs where "rs_trace s' = rs_trace s @ EfSetModel sid (rq_Model req) # efs" "goodEnd v req sid (holds v req) r efs"
      using sequenceStep_good [OF _ _ 2] assms(1,2) by auto
    then show ?thesis by (intro exI [of _ "EfSetModel sid (rq_Model req) # efs"] exI [of _ "holds v req"]) (simp add: goodEnd_setup)
  next
    case 3
    then show ?thesis using early_failure [of ErrActivation]
      by (intro exI [of _ "EfSetModel sid (rq_Model req) # EfCancel sid # allPosts v None @ [EfEvent ev]"] exI [of _ False]) (simp add: goodEnd_setup)
  qed
qed

text \<open>The pre hooks.\<close>

fun isPre :: "effect \<Rightarrow> bool" where
  "isPre (EfPre i e) = True"
| "isPre ef = False"

lemma runPreHooks_trace: "runPreHooks v i hs s = (r, s') \<Longrightarrow>
   \<exists>pre. list_all isPre pre \<and> rs_hold s' = rs_hold s \<and> rs_once s' = rs_once s \<and>
     (if r = PreFailed then rs_trace s' = rs_trace s @ pre @ (if i = 0 \<and> hd hs = PreFail then [] else allPosts v None) \<and> hs \<noteq> []
      else rs_trace s' = rs_trace s @ pre)"
proof (induction v i hs s rule: runPreHooks.induct)
  case (1 v i s)
  then show ?case by (intro exI [of _ "[]"]) auto
next
  case (2 v i hs s)
  then show ?case by (intro exI [of _ "[EfPre i True]"]) (auto simp: Let_def)
next
  case (3 v i resp hs s)
  then show ?case by (intro exI [of _ "[EfPre i False]"]) auto
next
  case (4 v i hs s)
  have "runPreHooks v (i + 1) hs (emit (EfPre i False) s) = (r, s')" using 4(2) by simp
  from 4(1) [OF this] obtain pre where pre: "list_all isPre pre" "rs_hold s' = rs_hold s" "rs_once s' = rs_once s"
      "if r = PreFailed then rs_trace s' = rs_trace s @ EfPre i False # pre @ allPosts v None \<and> hs \<noteq> []
       else rs_trace s' = rs_trace s @ EfPre i False # pre" by (auto split: if_splits)
  then show ?case by (intro exI [of _ "EfPre i False # pre"]) (auto split: if_splits)
qed

lemma isPre_filter: "list_all isPre pre \<Longrightarrow> filter isPost pre = [] \<and> filter isAcp pre = [] \<and> filter isPrompt pre = [] \<and>
   EfCancel x \<notin> set pre \<and> EfNewSession c \<notin> set pre \<and> count_list pre EfFinish = 0 \<and> EfWatchStart \<notin> set pre \<and> EfWatchStop \<notin> set pre"
proof (induction pre)
  case (Cons ef pre)
  then show ?case by (cases ef) auto
qed simp

text \<open>Every end of a run on a request: before the session, or after it was opened.\<close>

lemma run_ends:
  assumes "engineRun v (Some req) = (r, s')"
  obtains pre where "list_all isPre pre" and "r = RunError ErrPreHook" and "ee_preHooks v \<noteq> []"
      and "rs_trace s' = EfModelRequest (rq_Model req) # pre @ (if hd (ee_preHooks v) = PreFail then [] else allPosts v None)"
    | pre resp where "list_all isPre pre" and "r = newCompletedRun resp" and "rs_trace s' = EfModelRequest (rq_Model req) # pre"
    | pre where "list_all isPre pre" and "r = RunError ErrNewSession" and "ee_newSession v = None"
      and "rs_trace s' = EfModelRequest (rq_Model req) # pre @ EfNewSession (ee_cwd v) # allPosts v None"
    | pre sid efs hold where "list_all isPre pre" and "ee_newSession v = Some sid" and "goodEnd v req sid hold r efs"
      and "hold \<longrightarrow> holds v req" and "r \<noteq> RunError ErrActivation \<longrightarrow> hold = holds v req"
      and "rs_trace s' = EfModelRequest (rq_Model req) # pre @ EfNewSession (ee_cwd v) # efs"
proof -
  obtain p s1 where h: "runPreHooks v 0 (ee_preHooks v) (emit (EfModelRequest (rq_Model req)) run_init) = (p, s1)" by (rule prod.exhaust)
  obtain pre where pre: "list_all isPre pre" "\<not> rs_hold s1" "\<not> rs_once s1"
     "if p = PreFailed then rs_trace s1 = EfModelRequest (rq_Model req) # pre @ (if hd (ee_preHooks v) = PreFail then [] else allPosts v None) \<and> ee_preHooks v \<noteq> []
      else rs_trace s1 = EfModelRequest (rq_Model req) # pre"
    using runPreHooks_trace [OF h] by (auto simp: run_init_def emit_def split: if_splits)
  show ?thesis
  proof (cases p)
    case PreFailed
    then show ?thesis using that(1) pre assms h by (auto simp: engineRun_def)
  next
    case (PreShort resp)
    then show ?thesis using that(2) pre assms h by (auto simp: engineRun_def)
  next
    case PreDone
    then have s: "sessionStep v req s1 = (r, s')" using assms h by (simp add: engineRun_def)
    show ?thesis
    proof (cases "ee_newSession v")
      case None
      then show ?thesis using that(3) pre s PreDone by (auto simp: sessionStep_def Let_def)
    next
      case (Some sid)
      then have "modelStep v req sid (emit (EfNewSession (ee_cwd v)) s1) = (r, s')" using s by (simp add: sessionStep_def Let_def)
      then obtain efs hold where "rs_trace s' = rs_trace s1 @ EfNewSession (ee_cwd v) # efs" "goodEnd v req sid hold r efs"
          "hold \<longrightarrow> holds v req" "r \<noteq> RunError ErrActivation \<longrightarrow> hold = holds v req"
        using modelStep_good [of "emit (EfNewSession (ee_cwd v)) s1" v req sid r s'] pre(2,3) by auto
      then show ?thesis using that(4) [OF pre(1) Some] pre(4) PreDone by auto
    qed
  qed
qed

section \<open>Which attempt is returned\<close>

text \<open>The stream of an attempt that was captured from \<open>src\<close>.\<close>

definition fromSource :: "engineStream \<Rightarrow> source option \<Rightarrow> bool" where
  "fromSource st src \<longleftrightarrow> (\<exists>s. src = Some s \<and> streamChunks st = chunksIn (so_in s))"

lemma second_tool_source: "secondToolAttempt v req sid policy reason disp s = (RecOk st, s') \<Longrightarrow> fromSource st (ee_prompt2 v)"
  by (auto simp: secondToolAttempt_def Let_def recErr_def fromSource_def dest: capture_ok(1) split: option.splits sum.splits prod.splits if_splits)

lemma second_result_source: "secondResultAttempt v req sid tools disp st1 s = (RecOk st, s') \<Longrightarrow> st = st1 \<or> fromSource st (ee_prompt2 v)"
  by (auto simp: secondResultAttempt_def Let_def recErr_def fromSource_def dest: capture_ok(1) split: option.splits sum.splits prod.splits if_splits)

lemma recovery_source:
  assumes "recovery v req sid src s = (RecOk st, s')"
  shows "streamChunks st = chunksIn (so_in src) \<or> fromSource st (ee_prompt2 v)"
proof -
  consider "st = RawStream src" | "recoverToolProtocol v req sid src (initialPolicy req) s = (RecOk st, s')"
    | "recoverToolResultProtocol v req sid src (fst (toolResultProtocolPolicyFor (Some req))) s = (RecOk st, s')"
    using assms by (auto simp: recovery_def split: if_splits)
  then show ?thesis
  proof cases
    case 1
    then show ?thesis by simp
  next
    case 2
    then show ?thesis
      by (auto simp: recoverToolProtocol_def Let_def recErr_def dest: capture_ok(1) second_tool_source split: option.splits sum.splits prod.splits if_splits)
  next
    case 3
    then show ?thesis
      by (auto simp: recoverToolResultProtocol_def Let_def recErr_def dest: capture_ok(1) dest!: second_result_source split: option.splits sum.splits prod.splits if_splits)
  qed
qed

text \<open>A run that returns a stream went through the prompt and the recovery.\<close>

lemma run_recovered:
  assumes "engineRun v (Some req) = (RunOk run, s')" and "eh_response run = None"
  obtains sid src s where "ee_newSession v = Some sid" "ee_prompt1 v = Some src" "recovery v req sid src s = (RecOk (eh_stream run), s')"
  using assms
  by (auto simp: engineRun_def sessionStep_def modelStep_def sequenceStep_def promptStep_def promptFailed_def runHandle_def newCompletedRun_def Let_def
      split: prod.splits preResult.splits option.splits if_splits bool.splits recovered.splits)

text \<open>The guard: what a returned attempt contains when a call was required.\<close>

definition satisfiesPolicy :: "engineEnv \<Rightarrow> toolProtocolPolicy \<Rightarrow> canonChunk list \<Rightarrow> bool" where
  "satisfiesPolicy v policy cs \<longleftrightarrow> (\<exists>name. matchesPolicy policy name \<and>
     ((\<exists>tc. Some tc \<in> set (map callOf cs) \<and> ResolveNativeToolName (tc_Name tc) (toolNames (po_tools policy)) (ee_aliases v) = Some name) \<or>
      name \<in> set (map tc_Name (wx_extract (ee_scan v) (concat (map textOf cs)) (po_tools policy)))))"

lemma classified_satisfies:
  assumes "captureToolProtocolAttempt dec idle policy (ee_aliases v) src = Some (Inr (ob, st))" and "\<not> ob_BufferBypass ob"
    and "classifyToolProtocolAttempt (ee_scan v) policy ob (ee_aliases v) = ReasonNone" and "po_requirement policy \<noteq> ProtocolOptional"
  shows "satisfiesPolicy v policy (retainedOf st)"
proof -
  note c = capture_ok [OF assms(1)]
  obtain name where n: "matchesPolicy policy name"
      "name \<in> set (candidateNames policy ob (ee_aliases v)) \<or> name \<in> set (map tc_Name (wx_extract (ee_scan v) (ob_Text ob) (po_tools policy)))"
    using classify_required [OF assms(3,4,2)] by blast
  have "candidateNames policy ob (ee_aliases v) = List.map_filter (\<lambda>c. ResolveNativeToolName (tc_Name c) (toolNames (po_tools policy)) (ee_aliases v)) (ob_ToolCalls ob)"
    using c(6) by (simp add: candidateNames_def List.map_filter_simps)
  then show ?thesis using n c(4,5) unfolding satisfiesPolicy_def by (auto simp: set_map_filter_iff) (metis (no_types) image_eqI)
qed

lemma tool_satisfies:
  assumes "recoverToolProtocol v req sid src policy s = (RecOk st, s')" and "po_requirement policy \<noteq> ProtocolOptional"
  shows "(\<exists>p c rest. st = PrefixLiveStream p (Some c) rest) \<or> satisfiesPolicy v policy (retainedOf st)"
proof -
  have "\<exists>src' ob. captureToolProtocolAttempt (ee_dec v) (ee_idle v) policy (ee_aliases v) src' = Some (Inr (ob, st)) \<and>
      (ob_BufferBypass ob \<or> classifyToolProtocolAttempt (ee_scan v) policy ob (ee_aliases v) = ReasonNone)"
    using assms(1) by (auto simp: recoverToolProtocol_def secondToolAttempt_def Let_def recErr_def split: option.splits sum.splits prod.splits if_splits)
  then obtain src' ob where c: "captureToolProtocolAttempt (ee_dec v) (ee_idle v) policy (ee_aliases v) src' = Some (Inr (ob, st))"
      "ob_BufferBypass ob \<or> classifyToolProtocolAttempt (ee_scan v) policy ob (ee_aliases v) = ReasonNone" by blast
  then show ?thesis using capture_ok(7) [OF c(1)] classified_satisfies [OF c(1) _ _ assms(2)] by blast
qed

text \<open>A source that ends, one way or the other.\<close>

definition sourceEnds :: "bool \<Rightarrow> source \<Rightarrow> bool" where
  "sourceEnds idle src \<longleftrightarrow> SEnd \<in> set (so_in src) \<or> SCtx \<in> set (so_in src) \<or> (idle \<and> SIdle \<in> set (so_in src))"

lemma range_ends: "SEnd \<in> set xs \<or> SCtx \<in> set xs \<or> (idle \<and> SIdle \<in> set xs) \<Longrightarrow> fst (RangeChunksWithIdleTimeout idle f xs s) \<noteq> None"
  by (induction idle f xs s rule: RangeChunksWithIdleTimeout.induct) (auto split: prod.splits bool.splits)

lemma capture_ends: "sourceEnds idle src \<Longrightarrow> captureToolProtocolAttempt dec idle policy aliases src \<noteq> None"
  using range_ends [of "so_in src" idle "captureChunk dec policy aliases" capture_init]
  by (auto simp: captureToolProtocolAttempt_def sourceEnds_def split: prod.splits option.splits rangeEnd.splits sum.splits)

definition secondEnds :: "engineEnv \<Rightarrow> bool" where
  "secondEnds v \<longleftrightarrow> (case ee_prompt2 v of None \<Rightarrow> True | Some src2 \<Rightarrow> sourceEnds (ee_idle v) src2)"

lemma second_returns:
  assumes "secondEnds v"
  shows "fst (secondToolAttempt v req sid policy reason disp s) \<noteq> RecBlocked" "fst (secondResultAttempt v req sid tools disp st s) \<noteq> RecBlocked"
proof -
  show "fst (secondToolAttempt v req sid policy reason disp s) \<noteq> RecBlocked"
  proof (cases "ee_prompt2 v")
    case (Some src)
    then have "captureToolProtocolAttempt (ee_dec v) (ee_idle v) policy (ee_aliases v) src \<noteq> None"
      using assms by (intro capture_ends) (simp add: secondEnds_def)
    then show ?thesis using Some by (auto simp: secondToolAttempt_def Let_def recErr_def split: sum.splits prod.splits if_splits)
  qed (simp add: secondToolAttempt_def Let_def recErr_def)
  show "fst (secondResultAttempt v req sid tools disp st s) \<noteq> RecBlocked"
  proof (cases "ee_prompt2 v")
    case (Some src)
    then have "captureToolProtocolAttempt (ee_dec v) (ee_idle v) emptyPolicy [] src \<noteq> None"
      using assms by (intro capture_ends) (simp add: secondEnds_def)
    then show ?thesis using Some by (auto simp: secondResultAttempt_def Let_def recErr_def split: sum.splits prod.splits if_splits)
  qed (simp add: secondResultAttempt_def Let_def recErr_def)
qed

lemma recovery_returns:
  assumes "sourceEnds (ee_idle v) src" and "secondEnds v"
  shows "fst (recovery v req sid src s) \<noteq> RecBlocked"
proof -
  define c where "c policy al = the (captureToolProtocolAttempt (ee_dec v) (ee_idle v) policy al src)" for policy al
  have c: "captureToolProtocolAttempt (ee_dec v) (ee_idle v) policy al src = Some (c policy al)" for policy al
    using capture_ends [OF assms(1)] by (simp add: c_def)
  have "fst (recoverToolProtocol v req sid src policy s) \<noteq> RecBlocked" for policy
    using second_returns(1) [OF assms(2)] by (auto simp: recoverToolProtocol_def c Let_def recErr_def split: sum.splits prod.splits if_splits)
  moreover have "fst (recoverToolResultProtocol v req sid src tools s) \<noteq> RecBlocked" for tools
    using second_returns(2) [OF assms(2)] by (auto simp: recoverToolResultProtocol_def c Let_def recErr_def split: sum.splits prod.splits if_splits)
  ultimately show ?thesis by (simp add: recovery_def)
qed

lemma engine_error_posts:
  assumes "engineRun v (Some req) = (RunError e, s)"
  shows "posts s = (if e = ErrPreHook \<and> hd (ee_preHooks v) = PreFail then [] else allPosts v None)"
proof (rule run_ends [OF assms], goal_cases)
  case (1 pre)
  then show ?case using isPre_filter [OF 1(1)] by (auto simp: posts_def)
next
  case (2 pre resp)
  then show ?case by (simp add: newCompletedRun_def)
next
  case (3 pre)
  then show ?case using isPre_filter [OF 3(1)] by (auto simp: posts_def)
next
  case (4 pre sid efs hold)
  then show ?case using isPre_filter [OF 4(1)] by (auto simp: posts_def goodEnd_def)
qed

lemma engine_ok_posts:
  assumes "engineRun v (Some req) = (RunOk run, s)"
  shows "posts s = []"
proof (rule run_ends [OF assms], goal_cases)
  case (2 pre resp)
  then show ?case using isPre_filter [OF 2(1)] by (auto simp: posts_def)
next
  case (4 pre sid efs hold)
  then show ?case using isPre_filter [OF 4(1)] by (auto simp: posts_def goodEnd_def)
qed simp_all

section \<open>A sample request\<close>

text \<open>A turn that requires a call of the one tool offered, with a hook of each kind and a client that can hold a prompt sequence.\<close>

definition sampleRequest :: ChatRequest where
  "sampleRequest = \<lparr>rq_Model = ''m'', rq_Messages = [\<lparr>me_Role = RoleUser, me_Content = [KindText]\<rparr>],
     rq_Tools = [\<lparr>ts_Name = ''f'', ts_Parameters = None\<rparr>], rq_ToolChoice = Some \<lparr>ch_Type = ''required'', ch_Name = []\<rparr>,
     rq_ToolContractVersion = [], rq_CallRole = []\<rparr>"

definition sampleFinal :: FinalResult where
  "sampleFinal = \<lparr>fr_SessionID = ''s'', fr_ChunkCount = 1, fr_StopReason = StopEndTurn, fr_ToolDenials = 0\<rparr>"

definition sampleEnv :: "source option \<Rightarrow> source option \<Rightarrow> engineEnv" where
  "sampleEnv src1 src2 = \<lparr>ee_preHooks = [PrePass], ee_postErrs = [False], ee_cwd = ''d'', ee_newSession = Some ''s'', ee_setModel = True,
     ee_sequence = Some True, ee_prompt1 = src1, ee_prompt2 = src2, ee_idle = True, ee_ctx = (\<lambda>p. False), ee_aliases = [],
     ee_scan = \<lparr>wx_extract = \<lambda>t ts. [], wx_observe = \<lambda>t ts. WrapperNone\<rparr>, ee_dec = \<lambda>t. GNil, ee_genID = \<lambda>n. []\<rparr>"

definition sampleCall :: source where
  "sampleCall = \<lparr>so_in = [SChunk (CkToolCall (Some \<lparr>tc_ID = ''1'', tc_Name = ''f'', tc_Arguments = []\<rparr>)), SEnd], so_result = Inr sampleFinal\<rparr>"

definition sampleProse :: source where
  "sampleProse = \<lparr>so_in = [SChunk (CkText (Some ''no'')), SEnd], so_result = Inr sampleFinal\<rparr>"

lemmas run_eval = engineRun_def sessionStep_def modelStep_def sequenceStep_def promptStep_def promptFailed_def recovery_def
  recoverToolProtocol_def secondToolAttempt_def recErr_def failRecovery_def runHandle_def newCompletedRun_def
  initialGuarded_def resultGuarded_def guarded_def initialPolicy_def toolProtocolPolicyFor_def toolResultProtocolPolicyFor_def
  choiceRequirement_def explicitModel_def toolNames_def toolOffered_def denyBuiltin_def
  captureToolProtocolAttempt_def captureChunk_def capture_init_def retained_spec saturatingRetainedBytes_def
  maxToolProtocolPreflightBytes_def maxToolProtocolPreflightChunks_def observationOf_def nativeCallSatisfiesPolicy_def
  ResolveNativeToolName_def len_def Let_def argsValue_def

lemmas sample_defs = sampleRequest_def sampleFinal_def sampleEnv_def sampleCall_def sampleProse_def

lemma sample_prompt_fails: "fst (engineRun (sampleEnv None None) (Some sampleRequest)) = RunError ErrPrompt"
  by (simp add: sample_defs run_eval)

lemma sample_call: "\<exists>p rest. fst (engineRun (sampleEnv (Some sampleCall) None) (Some sampleRequest)) =
   RunOk \<lparr>eh_sid = ''s'', eh_stream = PrefixLiveStream p None rest, eh_response = None, eh_watchdog = True\<rparr>"
  by (simp add: sample_defs run_eval classifyToolProtocolAttempt_def candidateNames_def List.map_filter_simps matchesPolicy_def)

section \<open>Properties\<close>

text \<open>
  C26. A run of a non-nil request that fails leaves nothing behind: every post hook has been called exactly once, in order and without a response (unless the
  very first pre hook failed, when none had run before it), a session that was opened has been cancelled, a watchdog that was
  started has been stopped, and a hold on the session's prompt sequence that was taken has been released exactly once.
\<close>

theorem engine_error_cleans_up:
  assumes "engineRun v (Some req) = (RunError e, s)"
  shows "posts s = (if e = ErrPreHook \<and> hd (ee_preHooks v) = PreFail then [] else allPosts v None) \<and>
    (case ee_newSession v of None \<Rightarrow> True
     | Some sid \<Rightarrow> EfNewSession (ee_cwd v) \<in> set (rs_trace s) \<longrightarrow>
         EfCancel sid \<in> set (rs_trace s) \<and>
         (e \<noteq> ErrActivation \<longrightarrow> count_list (rs_trace s) EfFinish = (if holds v req then 1 else 0))) \<and>
    (EfWatchStart \<in> set (rs_trace s) \<longrightarrow> EfWatchStop \<in> set (rs_trace s))"
proof (rule run_ends [OF assms], goal_cases)
  case (1 pre)
  then show ?case using isPre_filter [OF 1(1)] by (auto simp: posts_def split: option.splits)
next
  case (2 pre resp)
  then show ?case by (simp add: newCompletedRun_def)
next
  case (3 pre)
  then show ?case using isPre_filter [OF 3(1)] by (auto simp: posts_def)
next
  case (4 pre sid efs hold)
  then show ?case using isPre_filter [OF 4(1)] by (auto simp: posts_def goodEnd_def)
qed

theorem engine_error_cleans_up_witness:
  "posts (snd (engineRun (sampleEnv None None) (Some sampleRequest))) = [EfPost 0 None False] \<and>
   EfCancel ''s'' \<in> set (rs_trace (snd (engineRun (sampleEnv None None) (Some sampleRequest)))) \<and>
   count_list (rs_trace (snd (engineRun (sampleEnv None None) (Some sampleRequest)))) EfFinish = 1"
proof -
  have run: "engineRun (sampleEnv None None) (Some sampleRequest) = (RunError ErrPrompt, snd (engineRun (sampleEnv None None) (Some sampleRequest)))"
    using sample_prompt_fails by (metis prod.collapse)
  have "EfNewSession ''d'' \<in> set (rs_trace (snd (engineRun (sampleEnv None None) (Some sampleRequest))))"
    by (simp add: sample_defs run_eval)
  moreover have "holds (sampleEnv None None) sampleRequest" by (simp add: holds_def sample_defs run_eval)
  ultimately show ?thesis using engine_error_cleans_up [OF run] by (simp add: allPosts_def sampleEnv_def)
qed

text \<open>
  C27. A run that succeeds has called no post hook and cancelled nothing. Either a pre hook answered, and the ACP client was never touched,
  or the run owns the session it returns: one prompt went to it, at most one corrective prompt after it and only on a
  guarded turn, with built-in tools denied on both exactly if the caller offers tools, its watchdog is armed, and the
  sequence hold has been released exactly once unless the returned stream is live and will release it.
\<close>

theorem engine_ok_owns_session:
  assumes "engineRun v (Some req) = (RunOk run, s)"
  shows "posts s = [] \<and> (\<forall>x. EfCancel x \<notin> set (rs_trace s)) \<and>
    (case eh_response run of
       Some resp \<Rightarrow> filter isAcp (rs_trace s) = [] \<and> eh_stream run = EmptyStream
     | None \<Rightarrow> ee_newSession v = Some (eh_sid run) \<and> promptsOk req (eh_sid run) (rs_trace s) \<and> filter isPrompt (rs_trace s) \<noteq> [] \<and>
         EfWatchStart \<in> set (rs_trace s) \<and> EfWatchStop \<notin> set (rs_trace s) \<and>
         count_list (rs_trace s) EfFinish = (if holds v req \<and> \<not> liveStream (eh_stream run) then 1 else 0))"
proof (rule run_ends [OF assms], goal_cases)
  case (2 pre resp)
  then show ?case using isPre_filter [OF 2(1)] by (auto simp: posts_def newCompletedRun_def)
next
  case (4 pre sid efs hold)
  then show ?case using isPre_filter [OF 4(1)] by (auto simp: posts_def goodEnd_def promptsOk_def)
qed simp_all

text \<open>
  C28. The stream a run returns is the first attempt or the corrective attempt, unchanged: its chunks are exactly those of the source
  of one of the two prompts, whatever was captured, replayed or handed over live.
\<close>

theorem engine_stream_is_an_attempt:
  assumes "engineRun v (Some req) = (RunOk run, s)" and "eh_response run = None"
  shows "fromSource (eh_stream run) (ee_prompt1 v) \<or> fromSource (eh_stream run) (ee_prompt2 v)"
proof (rule run_recovered [OF assms])
  fix sid src s1
  assume "ee_prompt1 v = Some src" "recovery v req sid src s1 = (RecOk (eh_stream run), s)"
  then show ?thesis using recovery_source [of v req sid src s1] by (auto simp: fromSource_def)
qed

theorem engine_stream_is_an_attempt_witness:
  "\<exists>st. fst (engineRun (sampleEnv (Some sampleCall) None) (Some sampleRequest)) =
     RunOk \<lparr>eh_sid = ''s'', eh_stream = st, eh_response = None, eh_watchdog = True\<rparr> \<and> fromSource st (Some sampleCall)"
proof -
  obtain p rest where st: "fst (engineRun (sampleEnv (Some sampleCall) None) (Some sampleRequest)) =
      RunOk \<lparr>eh_sid = ''s'', eh_stream = PrefixLiveStream p None rest, eh_response = None, eh_watchdog = True\<rparr>"
    using sample_call by blast
  then have run: "engineRun (sampleEnv (Some sampleCall) None) (Some sampleRequest) =
      (RunOk \<lparr>eh_sid = ''s'', eh_stream = PrefixLiveStream p None rest, eh_response = None, eh_watchdog = True\<rparr>,
       snd (engineRun (sampleEnv (Some sampleCall) None) (Some sampleRequest)))"
    by (metis prod.collapse)
  show ?thesis using engine_stream_is_an_attempt [OF run] st by (auto simp: sampleEnv_def fromSource_def)
qed

theorem engine_ok_owns_session_witness:
  "posts (snd (engineRun (sampleEnv (Some sampleCall) None) (Some sampleRequest))) = [] \<and>
   promptsOk sampleRequest ''s'' (rs_trace (snd (engineRun (sampleEnv (Some sampleCall) None) (Some sampleRequest)))) \<and>
   count_list (rs_trace (snd (engineRun (sampleEnv (Some sampleCall) None) (Some sampleRequest)))) EfFinish = 0"
proof -
  obtain p rest where "fst (engineRun (sampleEnv (Some sampleCall) None) (Some sampleRequest)) =
      RunOk \<lparr>eh_sid = ''s'', eh_stream = PrefixLiveStream p None rest, eh_response = None, eh_watchdog = True\<rparr>"
    using sample_call by blast
  then have run: "engineRun (sampleEnv (Some sampleCall) None) (Some sampleRequest) =
      (RunOk \<lparr>eh_sid = ''s'', eh_stream = PrefixLiveStream p None rest, eh_response = None, eh_watchdog = True\<rparr>,
       snd (engineRun (sampleEnv (Some sampleCall) None) (Some sampleRequest)))"
    by (metis prod.collapse)
  show ?thesis using engine_ok_owns_session [OF run] by (simp add: liveStream_def)
qed

text \<open>
  C29. On a guarded turn that requires a tool call (or a named one), what the engine returns satisfies the requirement: the captured
  attempt holds a native call or a wrapped call of an offered tool, the named one if one was named. The only exception is an
  attempt too large to buffer, which passes through.
\<close>

theorem required_call_enforced:
  assumes "engineRun v (Some req) = (RunOk run, s)" and "eh_response run = None"
    and "initialGuarded req" and "po_requirement (initialPolicy req) \<noteq> ProtocolOptional"
  shows "(\<exists>p c rest. eh_stream run = PrefixLiveStream p (Some c) rest) \<or> satisfiesPolicy v (initialPolicy req) (retainedOf (eh_stream run))"
proof (rule run_recovered [OF assms(1,2)])
  fix sid src s1
  assume "recovery v req sid src s1 = (RecOk (eh_stream run), s)"
  then show ?thesis using assms(3) tool_satisfies [OF _ assms(4)] by (simp add: recovery_def)
qed

theorem required_call_enforced_witness:
  "\<exists>st. fst (engineRun (sampleEnv (Some sampleCall) None) (Some sampleRequest)) =
     RunOk \<lparr>eh_sid = ''s'', eh_stream = st, eh_response = None, eh_watchdog = True\<rparr> \<and>
     satisfiesPolicy (sampleEnv (Some sampleCall) None) (initialPolicy sampleRequest) (retainedOf st)"
proof -
  obtain p rest where st: "fst (engineRun (sampleEnv (Some sampleCall) None) (Some sampleRequest)) =
      RunOk \<lparr>eh_sid = ''s'', eh_stream = PrefixLiveStream p None rest, eh_response = None, eh_watchdog = True\<rparr>"
    using sample_call by blast
  then have run: "engineRun (sampleEnv (Some sampleCall) None) (Some sampleRequest) =
      (RunOk \<lparr>eh_sid = ''s'', eh_stream = PrefixLiveStream p None rest, eh_response = None, eh_watchdog = True\<rparr>,
       snd (engineRun (sampleEnv (Some sampleCall) None) (Some sampleRequest)))"
    by (metis prod.collapse)
  have "initialGuarded sampleRequest" "po_requirement (initialPolicy sampleRequest) \<noteq> ProtocolOptional"
    by (simp_all add: sampleRequest_def run_eval)
  then show ?thesis using required_call_enforced [OF run] st by simp
qed

text \<open>
  C30. A run returns: if each prompt's stream ends, closes, idles out or loses its context, the run is not blocked.
\<close>

theorem engine_run_returns:
  assumes "\<And>src. ee_prompt1 v = Some src \<or> ee_prompt2 v = Some src \<Longrightarrow> sourceEnds (ee_idle v) src"
  shows "fst (engineRun v r) \<noteq> RunBlocked"
proof -
  have "fst (promptStep v req sid s) \<noteq> RunBlocked" for req sid s
  proof (cases "ee_prompt1 v")
    case None
    then show ?thesis by (simp add: promptStep_def promptFailed_def Let_def)
  next
    case (Some src)
    then have "fst (recovery v req sid src s') \<noteq> RecBlocked" for s' using assms by (intro recovery_returns) (auto simp: secondEnds_def split: option.splits)
    then show ?thesis using Some by (auto simp: promptStep_def Let_def runHandle_def split: prod.splits recovered.splits) (metis fst_conv)
  qed
  then show ?thesis
    by (auto simp: engineRun_def sessionStep_def modelStep_def sequenceStep_def newCompletedRun_def Let_def
        split: option.splits prod.splits preResult.splits bool.splits)
qed

theorem engine_run_returns_witness:
  "fst (engineRun (sampleEnv (Some sampleProse) (Some sampleCall)) (Some sampleRequest)) \<noteq> RunBlocked"
  by (rule engine_run_returns) (auto simp: sampleEnv_def sampleProse_def sampleCall_def sourceEnds_def)

text \<open>
  C31. A collected request calls every post hook exactly once, in registration order, whatever fails and wherever: with the response
  if one was assembled (or a pre hook supplied one), without one otherwise. The only collected requests that call none are those
  whose first pre hook failed.
\<close>

theorem collect_posts_once:
  assumes "Collect v (Some req) seen = (r, s)" and "r \<noteq> CollectBlocked"
  shows "(r = CollectError ErrPreHook \<and> hd (ee_preHooks v) = PreFail \<and> posts s = []) \<or> (\<exists>resp. posts s = allPosts v resp)"
proof -
  have post: "posts s' = posts s1 @ allPosts v (Some resp)" if "collectPost v resp s1 = (r', s')" for resp s1 r' s'
    using that RunPostHooks_state [of v "Some resp" s1] by (auto simp: collectPost_def posts_def split: prod.splits option.splits)
  obtain q s1 where run: "engineRun v (Some req) = (q, s1)" by (rule prod.exhaust)
  show ?thesis
  proof (cases q)
    case (RunError e)
    then have "r = CollectError e" "s = s1" using assms run by (simp_all add: Collect_def)
    then show ?thesis using engine_error_posts run RunError by auto
  next
    case (RunOk h)
    then have ok: "posts s1 = []" using engine_ok_posts run by auto
    have c: "CollectFromRun v h req seen s1 = (r, s)" using assms run RunOk by (simp add: Collect_def)
    show ?thesis using c assms(2) ok post
      by (auto simp: CollectFromRun_def collectFailed_def Let_def posts_def split: option.splits prod.splits sum.splits rangeEnd.splits if_splits)
  next
    case RunBlocked
    then show ?thesis using assms run by (simp add: Collect_def)
  qed
qed

theorem collect_posts_once_witness:
  "\<exists>resp. posts (snd (Collect (sampleEnv None None) (Some sampleRequest) sampleProse)) = allPosts (sampleEnv None None) resp"
proof -
  have "Collect (sampleEnv None None) (Some sampleRequest) sampleProse =
      (CollectError ErrPrompt, snd (Collect (sampleEnv None None) (Some sampleRequest) sampleProse))"
    using sample_prompt_fails by (auto simp: Collect_def split: prod.splits)
  from collect_posts_once [OF this] show ?thesis by simp
qed

end
