(* ===== verification/Spec2Isabelle.thy ===== *)
theory Spec2Isabelle
  imports GatewayPrelude CaptureRing PrivacyDrain PrivacyServiceProps PoolProps ModelCatalogProps SessionProps AcpClientProps AcpHandler AnthropicSseProps AnthropicRender EngineProps
begin

text \<open>
  Verification library of the OTTO gateway, a Go service that gives HTTP clients (Anthropic,
  OpenAI and Ollama dialects) access to a pool of ACP worker processes (kiro-cli), with a
  privacy boundary in front of the workers. The theories model the gateway's own core logic
  under \<open>internal/\<close>, translated function by function from the Go source, and prove what makes
  each part correct.

  How the parts interact. A handler decodes a request into canonical types and asks the engine
  (\<open>internal/engine\<close>) to run it. Pre hooks run first; one of them is the privacy service
  (\<open>internal/privacy\<close>), whose \<open>Before\<close> rewrites the request's strings under a lease on a scope of
  its store and whose \<open>After\<close> restores the response's. The engine opens a session on the worker
  pool (\<open>internal/pool\<close>) or on a dedicated session (\<open>internal/session\<close>), prompts it through an ACP
  client (\<open>internal/acp\<close>), captures or replays the stream of chunks, possibly prompts once more,
  and hands a stream to the surface, which writes it as events or collects it into one response
  (\<open>internal/adapter/anthropic\<close>). Post hooks see the collected response. A ring buffer
  (\<open>internal/capture\<close>) may record the frames of the ACP clients.

  Theories, by the code they model.

  \<^item> \<open>GatewayPrelude\<close>: Go maps as association lists, bounded suffixes, and the locales
    \<open>invariant_system\<close> and \<open>monotone_system\<close>, which every concurrent component interprets on its
    own step relation. \<open>GoRegexp\<close>: Go regular expressions with leftmost-first matching, relative
    to the relation \<open>re_match\<close> of their language.
  \<^item> \<open>CaptureRing\<close>: capture/ring.go and controller.go; the locale \<open>bounded_log\<close> is their contract.
  \<^item> \<open>PrivacyStore\<close>: privacy/store.go, one function per critical section, scopes on an explicit
    heap. \<open>PrivacyStoreInv\<close> and \<open>PrivacyStoreSteps\<close>: the invariant and its preservation;
    \<open>PrivacyLedger\<close>: what a live lease's ledger keeps; \<open>PrivacyStoreProps\<close>: bounds, round trip,
    injectivity. \<open>PrivacyDrain\<close>: shutdown with other threads between any two sections of
    \<open>clearAll\<close>.
  \<^item> \<open>PrivacyArbitrate\<close> (types.go and the interval tree of secrets.go) and \<open>PrivacySecrets\<close>
    (classifier.go, secrets.go): findings, arbitration, the credential classifier and \<open>Redact\<close>.
  \<^item> \<open>PrivacyWalk\<close> (walk.go), \<open>PrivacyContext\<close> (context.go, receipt.go, errors.go),
    \<open>PrivacyActions\<close> (actions.go), \<open>PrivacyService\<close>, \<open>PrivacyOutbound\<close>, \<open>PrivacyLifecycle\<close>
    (service.go, triage.go): the service as a state monad over \<open>svcState\<close> whose failures are
    errors or Go panics. \<open>PrivacyServiceInv\<close> and \<open>PrivacyLeases\<close> carry frame relations through
    it (locales \<open>svc_frame\<close>, \<open>kept_rewriter\<close>, \<open>kept_visitor\<close>), \<open>PrivacyServiceProps\<close> states the
    promises of the strict profile.
  \<^item> \<open>Pool\<close>, \<open>PoolSessions\<close>, \<open>PoolBoot\<close>: pool/pool.go and its neighbours, one function per critical
    section. \<open>PoolSteps\<close>: the pool with the multiset of goroutines under way and the step relation
    \<open>pool_step\<close>. \<open>PoolInv\<close>, \<open>PoolSeqInv\<close>, \<open>PoolProps\<close>: slots, recycles, prompt sequences, worker
    processes. \<open>ModelCatalog\<close>, \<open>ModelCatalogProps\<close>: catalog.go and catalog_refresh.go.
  \<^item> \<open>SessionRegistry\<close>, \<open>SessionSteps\<close>, \<open>SessionInv\<close>, \<open>SessionProps\<close>: session/*.go, in the same
    style.
  \<^item> \<open>AcpStream\<close> (stream.go), \<open>AcpDispatcher\<close> (dispatcher.go), \<open>AcpClient\<close>, \<open>AcpClientInv\<close>,
    \<open>AcpClientProps\<close> (client.go) and \<open>AcpHandler\<close> (translate.go and \<open>handleNotification\<close>).
  \<^item> \<open>ToolCalls\<close> (engine/toolcall_resolve.go), \<open>EnginePolicy\<close> (tool_protocol.go,
    tool_result_protocol.go), \<open>EnginePreflight\<close>, \<open>EnginePreflightProps\<close> (preflight.go, idle.go),
    \<open>EngineRun\<close>, \<open>EngineProps\<close> (engine.go, collect.go).
  \<^item> \<open>AnthropicSse\<close>, \<open>AnthropicSseProps\<close> (adapter/anthropic/sse.go, collect.go) and
    \<open>AnthropicRender\<close> (render.go and the synthetic stream).

  Conventions. A Go struct is a record with the fields the code reads back; a pointer to shared
  mutable state is an index into a heap list. A mutex section is one function; what may happen
  between two sections is a step relation over the state and the activities under way, so a
  property of all runs holds for every interleaving. Errors and panics are values of sum or
  option types. Strings are lists of bytes. Times and durations are integers in nanoseconds,
  0 being Go's zero time; counters that may wrap are words where the wrap matters (candidate
  attempts, request identifiers), and natural numbers elsewhere. Definitions are executable,
  and the witnesses evaluate them.

  What is a parameter. The clock, random bytes, HMAC and AES-GCM, Unicode tables, \<open>net/url\<close> and
  \<open>net/netip\<close>, the answers of workers, clients, hooks and PII classifiers, the pseudonym mapper,
  the extraction of wrapped calls from text, the outcome of a \<open>TryLock\<close> or of a write to a
  worker, and the order in which a select sees its inputs are arguments of the model. Where a
  property relies on documented behaviour of one of them it has a named hypothesis:
  \<open>mapperKeepsLeases\<close> (the mapper adds mappings and releases no lease), that GCM opens what it
  sealed, that fewer than \<open>2 ^ 64\<close> requests are sent on one client.

  What the groups of lemmas show. Bounds and accounting: the store's and registry's limits, the
  partition of the pool's slots, one recycle and one catalog refresh at a time, manual refreshes
  30 seconds apart, captures of at most 4096 chunks and 1 MiB. Safety under interleaving: no
  worker process is leaked, no slot is lost, an active prompt or stream keeps its session, the
  chunk channel is never used after it was closed, a response reaches only its own request,
  a closed pool or store stays closed and drains. Functional behaviour: mappings resolve both
  ways, the event stream is well formed whatever the worker sends, streaming and collecting
  agree up to the model name, the interval tree equals the quadratic reference, the engine
  returns one attempt's stream and enforces required tool calls. Errors: a failing run or
  strict request gives back everything it took and calls the post hooks once. Where the code
  departs from its own comments or can fail, a lemma exhibits it (\<open>late_prompt_never_woken\<close>,
  \<open>adjacent_tool_calls_merged\<close>, \<open>reap_after_handoff\<close>, \<open>finish_releases_during_cancel\<close>,
  \<open>redact_replaces_all\<close> with \<open>classifyPanics\<close>, \<open>receipt_of_escaped_scope\<close>).

  Termination and fuel. Loops are structural recursions or functions with a measure; there is no
  fuel. The candidate loops run over all \<open>2 ^ 32\<close> attempts; a traversal of strings stops at
  the source's depth bound. Select loops consume a list of inputs, and \<open>None\<close> is a loop that
  still waits; \<open>engine_run_returns\<close> shows when a run does not wait.

  Simplifications that matter when reading a statement. A pre hook's in-place change of the
  request is not modelled. A section's logging, metrics and test hooks are left out. Tombstone
  sequence numbers are natural numbers instead of \<open>uint64\<close>. The exit watcher's sections are
  only taken while the pool is not closing, and the session watcher's map removal and client
  close are one section. The functions \<open>ClearAll\<close> and \<open>shutdownAndClear\<close> are the loop that
  nobody interrupts; \<open>clearing\<close> is the interrupted one, and \<open>clearAll_clearing\<close> relates them.

  Not modelled: the OpenAI and Ollama surfaces, HTTP and JSON, configuration, metrics, the
  concrete hooks and recognizers, prompt building, the technical pseudonym generators, the
  admin pages, process and pipe I/O, the tray program, and the wiring in \<open>cmd\<close>; they are I/O,
  third-party interfaces, or later extensions along the same lines.
\<close>

end
